(* ===== verification/Prelude.thy ===== *)
theory Prelude
  imports Complex_Main "HOL-Library.AList" "HOL-Library.List_Lexorder" "HOL-Library.Char_ord"
begin

text \<open>
  What every component of the model shares: the exceptions of the Python code as values, the
  result type of an operation that may raise, Python dictionaries as association lists that
  remember the insertion order (\<^verbatim>\<open>AList.update\<close> overwrites in place and appends a new
  key at the end, exactly as \<^verbatim>\<open>d[k] = v\<close> does), and Python's
  \<^verbatim>\<open>str.strip\<close>. A \<^verbatim>\<open>str\<close> is a list of \<open>char\<close>, so code points above 255 are not
  represented. The interface of a dictionary is the locale \<open>finite_dict\<close>; the components use its
  facts through the interpretation \<open>pd\<close> on association lists.
\<close>

section \<open>Exceptions and results\<close>

text \<open>
  One constructor per exception class the modelled code raises. \<open>HostError\<close> and
  \<open>ValidationError\<close> carry the machine-readable part of the exception
  (the error code, the node and the field).
\<close>

datatype py_error =
    ValueError
  | TypeError
  | KeyError
  | PermissionError
  | LookupError
  | RuntimeError
  | TimeoutError
  | AuthorizationDenied
  | IdempotencyConflict
  | IntegrityError
  | PrivacyFence
  | CapabilityUnavailable
  | ModuleResolutionError
  | ModuleReconfigurationError
  | ModuleReferenceConflict
  | ExceptionGroup
  | StoragePhaseError
  | WorkflowExecutionError
  | HostError string
  | ValidationError "string option" "string option"
  | OtherError string

type_synonym 'a res = "py_error + 'a"

abbreviation Raise :: "py_error \<Rightarrow> 'a res" where
  "Raise \<equiv> Inl"

abbreviation Ret :: "'a \<Rightarrow> 'a res" where
  "Ret \<equiv> Inr"

text \<open>\<^verbatim>\<open>type(exc).__name__\<close>.\<close>

fun error_name :: "py_error \<Rightarrow> string" where
  "error_name ValueError = ''ValueError''"
| "error_name TypeError = ''TypeError''"
| "error_name KeyError = ''KeyError''"
| "error_name PermissionError = ''PermissionError''"
| "error_name LookupError = ''LookupError''"
| "error_name RuntimeError = ''RuntimeError''"
| "error_name TimeoutError = ''TimeoutError''"
| "error_name AuthorizationDenied = ''AuthorizationDenied''"
| "error_name IdempotencyConflict = ''IdempotencyConflict''"
| "error_name IntegrityError = ''IntegrityError''"
| "error_name PrivacyFence = ''PrivacyFence''"
| "error_name CapabilityUnavailable = ''CapabilityUnavailable''"
| "error_name ModuleResolutionError = ''ModuleResolutionError''"
| "error_name ModuleReconfigurationError = ''ModuleReconfigurationError''"
| "error_name ModuleReferenceConflict = ''ModuleReferenceConflict''"
| "error_name ExceptionGroup = ''ExceptionGroup''"
| "error_name StoragePhaseError = ''StoragePhaseError''"
| "error_name WorkflowExecutionError = ''WorkflowExecutionError''"
| "error_name (HostError _) = ''HostError''"
| "error_name (ValidationError _ _) = ''ValidationError''"
| "error_name (OtherError n) = n"

definition bind_res :: "'a res \<Rightarrow> ('a \<Rightarrow> 'b res) \<Rightarrow> 'b res" where
  "bind_res m f = (case m of Inl e \<Rightarrow> Inl e | Inr x \<Rightarrow> f x)"

lemma bind_res_simps [simp]:
  "bind_res (Inl e) f = Inl e"
  "bind_res (Inr x) f = f x"
  by (simp_all add: bind_res_def)

lemma bind_res_Inr: "bind_res m f = Inr y \<longleftrightarrow> (\<exists>x. m = Inr x \<and> f x = Inr y)"
  by (cases m) auto

definition guard :: "bool \<Rightarrow> py_error \<Rightarrow> unit res" where
  "guard b e = (if b then Inr () else Inl e)"

lemma guard_Inr [simp]: "guard b e = Inr u \<longleftrightarrow> b"
  by (simp add: guard_def)

lemma guard_Inl [simp]: "guard b e = Inl e' \<longleftrightarrow> \<not> b \<and> e' = e"
  by (auto simp: guard_def)

section \<open>Operations on a state that may raise\<close>

text \<open>
  A method of a Python object that may raise is a function from the state to a result and the
  state it leaves behind: an exception does not undo what was already done.
\<close>

type_synonym ('s, 'a) op = "'s \<Rightarrow> 'a res \<times> 's"

definition ret_op :: "'a \<Rightarrow> ('s, 'a) op" where
  "ret_op x = (\<lambda>s. (Inr x, s))"

definition raise_op :: "py_error \<Rightarrow> ('s, 'a) op" where
  "raise_op e = (\<lambda>s. (Inl e, s))"

definition bind_op :: "('s, 'a) op \<Rightarrow> ('a \<Rightarrow> ('s, 'b) op) \<Rightarrow> ('s, 'b) op" where
  "bind_op m f = (\<lambda>s. case m s of (Inl e, s') \<Rightarrow> (Inl e, s') | (Inr x, s') \<Rightarrow> f x s')"

definition guard_op :: "bool \<Rightarrow> py_error \<Rightarrow> ('s, unit) op" where
  "guard_op b e = (if b then ret_op () else raise_op e)"

definition lift_op :: "'a res \<Rightarrow> ('s, 'a) op" where
  "lift_op r = (\<lambda>s. (r, s))"

definition read_op :: "('s \<Rightarrow> 'a) \<Rightarrow> ('s, 'a) op" where
  "read_op f = (\<lambda>s. (Inr (f s), s))"

definition modify_op :: "('s \<Rightarrow> 's) \<Rightarrow> ('s, unit) op" where
  "modify_op f = (\<lambda>s. (Inr (), f s))"

fun mapM_op :: "('a \<Rightarrow> ('s, 'b) op) \<Rightarrow> 'a list \<Rightarrow> ('s, 'b list) op" where
  "mapM_op f [] = ret_op []"
| "mapM_op f (x # xs) = bind_op (f x) (\<lambda>y. bind_op (mapM_op f xs) (\<lambda>ys. ret_op (y # ys)))"

text \<open>
  \<^verbatim>\<open>try: m except BaseException as exc: h(exc); raise\<close>: an exception of the handler
  replaces the first one.
\<close>

definition reraise_op :: "('s, 'a) op \<Rightarrow> (py_error \<Rightarrow> ('s, unit) op) \<Rightarrow> ('s, 'a) op" where
  "reraise_op m h = (\<lambda>s. case m s of
     (Inr x, s') \<Rightarrow> (Inr x, s')
   | (Inl e, s') \<Rightarrow> (case h e s' of (Inl e', s'') \<Rightarrow> (Inl e', s'') | (Inr _, s'') \<Rightarrow> (Inl e, s'')))"

lemma op_simps [simp]:
  "ret_op x s = (Inr x, s)"
  "raise_op e s = (Inl e, s)"
  "lift_op r s = (r, s)"
  "read_op f s = (Inr (f s), s)"
  "modify_op g s = (Inr (), g s)"
  "guard_op True e = ret_op ()"
  "guard_op False e = raise_op e"
  by (simp_all add: ret_op_def raise_op_def lift_op_def read_op_def modify_op_def guard_op_def)

lemma bind_op_Inr [simp]: "m s = (Inr x, s') \<Longrightarrow> bind_op m f s = f x s'"
  and bind_op_Inl [simp]: "m s = (Inl e, s') \<Longrightarrow> bind_op m f s = (Inl e, s')"
  by (simp_all add: bind_op_def)

lemma bind_op_cases:
  assumes "bind_op m f s = (r, s')"
  obtains (raised) e where "m s = (Inl e, s')" "r = Inl e"
    | (returned) x s'' where "m s = (Inr x, s'')" "f x s'' = (r, s')"
proof (cases "m s")
  case (Pair q s'')
  then show thesis
    using assms raised returned by (cases q) (auto simp: bind_op_def)
qed

lemma bind_op_Ret_cases:
  assumes "bind_op m f s = (Inr y, s')"
  obtains x s'' where "m s = (Inr x, s'')" "f x s'' = (Inr y, s')"
  using assms by (rule bind_op_cases) simp_all

lemma op_returned: "\<not> isl (fst p) \<Longrightarrow> p = (Inr (projr (fst p)), snd p)"
  by (cases p; cases "fst p") auto

lemma guard_op_Ret: "guard_op b e s = (Inr u, s') \<longleftrightarrow> b \<and> s' = s"
  by (cases b) auto

text \<open>
  \<open>moves R m\<close>: whatever the outcome, \<open>m\<close> leaves a state related to the initial one.  With a
  reflexive and transitive \<open>R\<close> it composes; an operation's rule goes into the collection
  \<open>moves_intros\<close>.
\<close>

named_theorems moves_intros

definition moves :: "('s \<Rightarrow> 's \<Rightarrow> bool) \<Rightarrow> ('s, 'a) op \<Rightarrow> bool" where
  "moves R m \<longleftrightarrow> (\<forall>s. R s (snd (m s)))"

lemma movesD: "moves R m \<Longrightarrow> m s = (r, s') \<Longrightarrow> R s s'"
  unfolding moves_def by (metis snd_conv)

lemma moves_bind:
  assumes "transp R" "moves R m" "\<And>x. moves R (f x)"
  shows "moves R (bind_op m f)"
  unfolding moves_def
proof
  fix s
  obtain r s' where m: "bind_op m f s = (r, s')" by fastforce
  then have "R s s'"
  proof (rule bind_op_cases)
    fix e assume "m s = (Inl e, s')"
    with assms(2) show "R s s'" by (rule movesD)
  next
    fix x s'' assume "m s = (Inr x, s'')" "f x s'' = (r, s')"
    with assms(2,3) have "R s s''" "R s'' s'" by (auto intro: movesD)
    with \<open>transp R\<close> show "R s s'" by (rule transpD)
  qed
  with m show "R s (snd (bind_op m f s))" by simp
qed

lemma moves_basic [moves_intros]:
  assumes "reflp R"
  shows "moves R (ret_op x)" "moves R (raise_op e)" "moves R (lift_op r)" "moves R (read_op g)" "moves R (guard_op b e')"
    "moves R (Pair r)"
  using assms by (auto simp: moves_def reflp_def guard_op_def)

lemma moves_reraise:
  assumes "transp R" "moves R m" "\<And>e. moves R (h e)"
  shows "moves R (reraise_op m h)"
  unfolding moves_def
proof
  fix s
  obtain q s' where m: "m s = (q, s')" by fastforce
  with assms(2) have 1: "R s s'" by (rule movesD)
  show "R s (snd (reraise_op m h s))"
  proof (cases q)
    case (Inl e)
    obtain q' s'' where h: "h e s' = (q', s'')" by fastforce
    with assms(3) have "R s' s''" by (rule movesD)
    with 1 \<open>transp R\<close> have "R s s''" by (blast dest: transpD)
    with m h Inl show ?thesis by (cases q') (simp_all add: reraise_op_def)
  qed (use m 1 in \<open>simp add: reraise_op_def\<close>)
qed

lemma moves_mapM:
  assumes "reflp R" "transp R" "\<And>x. moves R (f x)"
  shows "moves R (mapM_op f xs)"
  by (induction xs) (auto intro: moves_bind moves_basic assms)

lemma moves_modify: "(\<And>s. R s (g s)) \<Longrightarrow> moves R (modify_op g)"
  by (simp add: moves_def)

lemma moves_if: "(b \<Longrightarrow> moves R m) \<Longrightarrow> (\<not> b \<Longrightarrow> moves R m') \<Longrightarrow> moves R (if b then m else m')"
  by simp

lemma moves_option: "moves R n \<Longrightarrow> (\<And>x. v = Some x \<Longrightarrow> moves R (f x)) \<Longrightarrow> moves R (case v of None \<Rightarrow> n | Some x \<Rightarrow> f x)"
  by (cases v) auto

lemma moves_weaken: "moves R m \<Longrightarrow> (\<And>s s'. R s s' \<Longrightarrow> S s s') \<Longrightarrow> moves S m"
  by (simp add: moves_def)

lemma moves_prod: "(\<And>x y. moves R (g x y)) \<Longrightarrow> moves R (case p of (x, y) \<Rightarrow> g x y)"
  by (cases p) simp

lemmas moves_splits = moves_if moves_option moves_prod

text \<open>\<open>keeps f\<close>: the part \<open>f\<close> of the state does not change.\<close>

definition keeps :: "('s \<Rightarrow> 'b) \<Rightarrow> 's \<Rightarrow> 's \<Rightarrow> bool" where
  "keeps f s s' \<longleftrightarrow> f s' = f s"

lemma keeps_reflp: "reflp (keeps f)"
  by (simp add: reflp_def keeps_def)

lemma keeps_transp: "transp (keeps f)"
  by (simp add: transp_def keeps_def)

lemmas keeps_bind = moves_bind [OF keeps_transp]
lemmas keeps_basic = moves_basic [OF keeps_reflp]

lemma keeps_modify: "(\<And>s. f (g s) = f s) \<Longrightarrow> moves (keeps f) (modify_op g)"
  by (simp add: moves_def keeps_def)

lemma keepsD: "moves (keeps f) m \<Longrightarrow> m s = (r, s') \<Longrightarrow> f s' = f s"
  by (drule movesD, assumption) (simp add: keeps_def)

lemmas keeps_intros = keeps_bind keeps_basic moves_splits

section \<open>Strings\<close>

text \<open>The characters below 256 for which \<^verbatim>\<open>str.isspace()\<close> holds.\<close>

definition py_space :: "char \<Rightarrow> bool" where
  "py_space c \<longleftrightarrow> (let n = (of_char c :: nat) in n \<in> {9, 10, 11, 12, 13, 28, 29, 30, 31, 32, 133, 160})"

definition strip :: "string \<Rightarrow> string" where
  "strip s = rev (dropWhile py_space (rev (dropWhile py_space s)))"

text \<open>\<^verbatim>\<open>isinstance(v, str) and v.strip()\<close> as a truth value.\<close>

definition nonblank :: "string \<Rightarrow> bool" where
  "nonblank s \<longleftrightarrow> strip s \<noteq> []"

lemma nonblank_iff: "nonblank s \<longleftrightarrow> (\<exists>c \<in> set s. \<not> py_space c)"
proof -
  have keep: "\<exists>c \<in> set (dropWhile py_space s). \<not> py_space c" if "dropWhile py_space s \<noteq> []"
    using that hd_dropWhile [of py_space s] hd_in_set [of "dropWhile py_space s"] by blast
  have "dropWhile py_space (rev (dropWhile py_space s)) = [] \<longleftrightarrow> dropWhile py_space s = []"
  proof
    assume "dropWhile py_space (rev (dropWhile py_space s)) = []"
    then have "\<forall>c \<in> set (dropWhile py_space s). py_space c"
      by (simp only: dropWhile_eq_Nil_conv set_rev)
    with keep show "dropWhile py_space s = []"
      by blast
  next
    assume "dropWhile py_space s = []"
    then show "dropWhile py_space (rev (dropWhile py_space s)) = []"
      by (simp only: rev.simps dropWhile.simps)
  qed
  then have "strip s = [] \<longleftrightarrow> dropWhile py_space s = []"
    by (simp only: strip_def rev_is_Nil_conv)
  then show ?thesis
    by (auto simp: nonblank_def dropWhile_eq_Nil_conv)
qed

lemma nonblank_not_Nil: "nonblank s \<Longrightarrow> s \<noteq> []"
  by (auto simp: nonblank_iff)

section \<open>Dictionaries\<close>

text \<open>
  The interface of a Python dictionary, as far as the components rely on it: lookup after
  insertion and deletion, and the insertion order of the keys (an overwrite keeps the place of
  the key, a new key goes to the end).
\<close>

locale finite_dict =
  fixes lookup :: "'d \<Rightarrow> 'k \<Rightarrow> 'v option"
    and put :: "'k \<Rightarrow> 'v \<Rightarrow> 'd \<Rightarrow> 'd"
    and drop_key :: "'k \<Rightarrow> 'd \<Rightarrow> 'd"
    and keys :: "'d \<Rightarrow> 'k list"
  assumes lookup_put: "lookup (put k v d) k' = (if k' = k then Some v else lookup d k')"
    and lookup_drop: "lookup (drop_key k d) k' = (if k' = k then None else lookup d k')"
    and keys_put: "keys (put k v d) = (if k \<in> set (keys d) then keys d else keys d @ [k])"
    and keys_drop: "keys (drop_key k d) = filter (\<lambda>k'. k' \<noteq> k) (keys d)"
    and keys_lookup: "k \<in> set (keys d) \<longleftrightarrow> lookup d k \<noteq> None"
begin

lemma distinct_put: "distinct (keys d) \<Longrightarrow> distinct (keys (put k v d))"
  by (simp add: keys_put)

lemma distinct_drop: "distinct (keys d) \<Longrightarrow> distinct (keys (drop_key k d))"
  by (simp add: keys_drop)

lemma put_drop_lookup: "lookup (put k v (drop_key k d)) k' = lookup (put k v d) k'"
  by (simp add: lookup_put lookup_drop)

lemma keys_put_new: "lookup d k = None \<Longrightarrow> keys (put k v d) = keys d @ [k]"
  by (simp add: keys_put keys_lookup)

end

lemma alist_keys_drop: "map fst (AList.delete k d) = filter (\<lambda>k'. k' \<noteq> k) (map fst d)"
  by (induction d) auto

lemma alist_keys_put:
  "map fst (AList.update k v d) = (if k \<in> set (map fst d) then map fst d else map fst d @ [k])"
  by (induction d) auto

interpretation pd: finite_dict map_of AList.update AList.delete "map fst"
  by unfold_locales
    (simp_all add: update_conv' delete_conv' alist_keys_put alist_keys_drop map_of_eq_None_iff
      del: list.map)

lemma set_update_distinct:
  "distinct (map fst d) \<Longrightarrow> set (AList.update k v d) = insert (k, v) {p \<in> set d. fst p \<noteq> k}"
  by (induction d) force+

lemma set_delete: "set (AList.delete k d) = {p \<in> set d. fst p \<noteq> k}"
  by (induction d) auto

lemma map_of_Some_set: "map_of d k = Some v \<Longrightarrow> (k, v) \<in> set d"
  by (rule map_of_SomeD)

section \<open>Lists\<close>

text \<open>\<^verbatim>\<open>list(dict.fromkeys(xs))\<close>: duplicates removed, the first occurrence kept.\<close>

fun dedup :: "'a list \<Rightarrow> 'a list" where
  "dedup [] = []"
| "dedup (x # xs) = x # dedup (filter (\<lambda>y. y \<noteq> x) xs)"
  
lemma set_dedup [simp]: "set (dedup xs) = set xs"
  by (induction xs rule: dedup.induct) auto

lemma distinct_dedup [simp]: "distinct (dedup xs)"
  by (induction xs rule: dedup.induct) auto

lemma find_Some_iff_in:
  "List.find P xs = Some x \<Longrightarrow> P x \<and> x \<in> set xs"
  by (auto simp: find_Some_iff)

lemma find_append_keep: "List.find P xs = Some x \<Longrightarrow> List.find P (xs @ ys) = Some x"
  by (induction xs) (auto split: if_splits)

lemma find_append_new: "List.find P xs = None \<Longrightarrow> P y \<Longrightarrow> List.find P (xs @ [y]) = Some y"
  by (induction xs) (auto split: if_splits)

lemma sorted_wrt_last:
  fixes f :: "'a \<Rightarrow> 'b::linorder"
  assumes "sorted_wrt (<) (map f xs)" "x \<in> set xs"
  shows "f x \<le> f (last xs)"
  using assms by (induction xs) (auto intro: less_imp_le)

lemma distinct_singleton:
  assumes "distinct xs" "set xs = {r}" shows "xs = [r]"
proof (cases xs)
  case (Cons a ys)
  with assms have "a = r" "set ys \<subseteq> {r}" "r \<notin> set ys" by auto
  then have "set ys = {}" by (metis insertI1 subset_singletonD)
  with Cons \<open>a = r\<close> show ?thesis by simp
qed (use assms in simp)

lemma distinct_count_list: "distinct xs \<longleftrightarrow> (\<forall>x. count_list xs x \<le> 1)"
proof (induction xs)
  case (Cons a xs)
  have "distinct (a # xs) \<longleftrightarrow> count_list xs a = 0 \<and> (\<forall>x. count_list xs x \<le> 1)"
    by (simp add: Cons count_list_0_iff)
  also have "\<dots> \<longleftrightarrow> (\<forall>x. count_list (a # xs) x \<le> 1)"
    by (auto simp: le_Suc_eq)
  finally show ?case .
qed simp

end
