(* ===== verification/Contracts.thy ===== *)
theory Contracts
  imports Prelude
begin

text \<open>
  \<^verbatim>\<open>packages/runtime/src/openagent_core/contracts.py\<close>: the transport-independent data of the
  kernel (principals, resources, leases, execution contexts, run requests and run records), the
  checks of their \<^verbatim>\<open>__post_init__\<close> methods, the derived keys, and \<^verbatim>\<open>require_authorized\<close>.
  The dataclasses are records, \<^verbatim>\<open>asdict\<close> is written out as a \<open>json\<close> value, and the checks
  that Python makes with \<^verbatim>\<open>isinstance\<close> are the types of the fields.  The host's
  \<^verbatim>\<open>Authorizer\<close> and the hash function \<^verbatim>\<open>sha256\<close> are parameters.
\<close>

section \<open>JSON values and their canonical text\<close>

datatype json =
    JNull
  | JBool bool
  | JInt int
  | JFloat real
  | JStr string
  | JArr "json list"
  | JObj "(string \<times> json) list"

fun show_nat :: "nat \<Rightarrow> string" where
  "show_nat n = (if n < 10 then [char_of (48 + n)] else show_nat (n div 10) @ [char_of (48 + n mod 10)])"

definition show_int :: "int \<Rightarrow> string" where
  "show_int i = (if i < 0 then CHR ''-'' # show_nat (nat (- i)) else show_nat (nat i))"

definition hex_digit :: "nat \<Rightarrow> char" where
  "hex_digit n = (if n < 10 then char_of (48 + n) else char_of (87 + n))"

text \<open>
  \<^verbatim>\<open>json.dumps\<close> with \<^verbatim>\<open>ensure_ascii=False\<close> escapes the quote, the backslash and the
  characters below 32, and nothing else.
\<close>

definition json_escape :: "char \<Rightarrow> string" where
  "json_escape c =
     (let n = (of_char c :: nat) in
      if c = CHR 0x22 then [CHR 0x5C, CHR 0x22]
      else if c = CHR 0x5C then [CHR 0x5C, CHR 0x5C]
      else if n = 10 then [CHR 0x5C, CHR ''n'']
      else if n = 13 then [CHR 0x5C, CHR ''r'']
      else if n = 9 then [CHR 0x5C, CHR ''t'']
      else if n = 12 then [CHR 0x5C, CHR ''f'']
      else if n = 8 then [CHR 0x5C, CHR ''b'']
      else if n < 32 then [CHR 0x5C, CHR ''u'', CHR ''0'', CHR ''0'', hex_digit (n div 16), hex_digit (n mod 16)]
      else [c])"

definition json_quote :: "string \<Rightarrow> string" where
  "json_quote s = CHR 0x22 # concat (map json_escape s) @ [CHR 0x22]"

fun comma_join :: "string list \<Rightarrow> string" where
  "comma_join [] = []"
| "comma_join [x] = x"
| "comma_join (x # y # xs) = x @ CHR '','' # comma_join (y # xs)"

text \<open>
  \<^verbatim>\<open>json.dumps(value, sort_keys=True, separators=(",", ":"), ensure_ascii=False)\<close>; the text of
  a float is Python's \<^verbatim>\<open>float.__repr__\<close>, the parameter \<open>fr\<close>.
\<close>

fun canonical_json :: "(real \<Rightarrow> string) \<Rightarrow> json \<Rightarrow> string" where
  "canonical_json fr JNull = ''null''"
| "canonical_json fr (JBool b) = (if b then ''true'' else ''false'')"
| "canonical_json fr (JInt i) = show_int i"
| "canonical_json fr (JFloat x) = fr x"
| "canonical_json fr (JStr s) = json_quote s"
| "canonical_json fr (JArr vs) = CHR ''['' # comma_join (map (canonical_json fr) vs) @ [CHR '']'']"
| "canonical_json fr (JObj kvs) =
     CHR 0x7B # comma_join (map (\<lambda>(k, t). json_quote k @ CHR '':'' # t)
       (sort_key fst (map (\<lambda>(k, v). (k, canonical_json fr v)) kvs))) @ [CHR 0x7D]"

definition jopt :: "('a \<Rightarrow> json) \<Rightarrow> 'a option \<Rightarrow> json" where
  "jopt f x = (case x of None \<Rightarrow> JNull | Some y \<Rightarrow> f y)"

text \<open>Reading a JSON object, and Python's truth of a JSON value.\<close>

definition jget :: "string \<Rightarrow> json \<Rightarrow> json option" where
  "jget k v = (case v of JObj kvs \<Rightarrow> map_of kvs k | _ \<Rightarrow> None)"

fun jtruthy :: "json \<Rightarrow> bool" where
  "jtruthy JNull = False"
| "jtruthy (JBool b) = b"
| "jtruthy (JInt i) = (i \<noteq> 0)"
| "jtruthy (JFloat x) = (x \<noteq> 0)"
| "jtruthy (JStr s) = (s \<noteq> [])"
| "jtruthy (JArr vs) = (vs \<noteq> [])"
| "jtruthy (JObj kvs) = (kvs \<noteq> [])"

section \<open>Principals, resources, leases\<close>

record principal =
  pr_authority :: string
  pr_tenant_id :: string
  pr_subject_id :: string
  pr_kind :: string

text \<open>\<^verbatim>\<open>PrincipalRef.__post_init__\<close>: construction fails on a blank field.\<close>

definition principal_ref :: "string \<Rightarrow> string \<Rightarrow> string \<Rightarrow> string \<Rightarrow> principal res" where
  "principal_ref authority tenant_id subject_id kind =
     (if nonblank authority \<and> nonblank tenant_id \<and> nonblank subject_id \<and> nonblank kind
      then Ret \<lparr>pr_authority = authority, pr_tenant_id = tenant_id,
                pr_subject_id = subject_id, pr_kind = kind\<rparr>
      else Raise ValueError)"

definition principal_json :: "principal \<Rightarrow> json" where
  "principal_json p = JObj
     [(''authority'', JStr (pr_authority p)), (''tenant_id'', JStr (pr_tenant_id p)),
      (''subject_id'', JStr (pr_subject_id p)), (''kind'', JStr (pr_kind p))]"

definition principal_key :: "(real \<Rightarrow> string) \<Rightarrow> principal \<Rightarrow> string" where
  "principal_key fr p = canonical_json fr (principal_json p)"

record resource_ref =
  rs_kind :: string
  rs_tenant_id :: string
  rs_resource_id :: string

record capability_lease =
  ls_source_id :: string
  ls_instance_id :: string
  ls_generation :: string

section \<open>Execution contexts\<close>

record execution_context =
  cx_author :: principal
  cx_initiator :: principal
  cx_authority :: principal
  cx_session_id :: string
  cx_agent_id :: string
  cx_audience :: "principal list"
  cx_scopes :: "string list"
  cx_delegation_id :: "string option"
  cx_capabilities :: "capability_lease list"
  cx_ingress_id :: "string option"
  cx_parent_run_id :: "string option"
  cx_deferred :: bool

definition cx_tenant_id :: "execution_context \<Rightarrow> string" where
  "cx_tenant_id c = pr_tenant_id (cx_authority c)"

text \<open>An optional string is falsy when it is absent or empty.\<close>

definition truthy_opt :: "string option \<Rightarrow> bool" where
  "truthy_opt s \<longleftrightarrow> (case s of None \<Rightarrow> False | Some t \<Rightarrow> t \<noteq> [])"

text \<open>
  \<^verbatim>\<open>ExecutionContext.__post_init__\<close>, run by every construction, \<^verbatim>\<open>dataclasses.replace\<close>
  included.
\<close>

definition context_post_init :: "execution_context \<Rightarrow> execution_context res" where
  "context_post_init c =
     (if cx_session_id c = [] \<or> cx_agent_id c = [] \<or> cx_audience c = [] then Raise ValueError
      else if \<exists>p \<in> set (cx_author c # cx_initiator c # cx_audience c). pr_tenant_id p \<noteq> cx_tenant_id c
        then Raise ValueError
      else if cx_deferred c \<and> cx_capabilities c \<noteq> [] then Raise ValueError
      else if cx_deferred c \<and> \<not> truthy_opt (cx_delegation_id c) then Raise ValueError
      else Ret c)"

definition context_child ::
  "execution_context \<Rightarrow> string \<Rightarrow> string \<Rightarrow> principal \<Rightarrow> bool \<Rightarrow> execution_context res" where
  "context_child c session_id run_id agent deferred =
     (if pr_kind agent \<noteq> ''agent'' then Raise ValueError
      else context_post_init (c\<lparr>
        cx_author := agent, cx_session_id := session_id, cx_parent_run_id := Some run_id,
        cx_capabilities := (if deferred then [] else cx_capabilities c),
        cx_ingress_id := (if deferred then None else cx_ingress_id c),
        cx_deferred := deferred\<rparr>))"

definition lease_json :: "capability_lease \<Rightarrow> json" where
  "lease_json l = JObj
     [(''source_id'', JStr (ls_source_id l)), (''instance_id'', JStr (ls_instance_id l)),
      (''generation'', JStr (ls_generation l))]"

text \<open>\<^verbatim>\<open>ExecutionContext.snapshot\<close>: the recursive \<^verbatim>\<open>asdict\<close>.\<close>

definition context_snapshot :: "execution_context \<Rightarrow> json" where
  "context_snapshot c = JObj
     [(''author'', principal_json (cx_author c)), (''initiator'', principal_json (cx_initiator c)),
      (''authority'', principal_json (cx_authority c)), (''session_id'', JStr (cx_session_id c)),
      (''agent_id'', JStr (cx_agent_id c)), (''audience'', JArr (map principal_json (cx_audience c))),
      (''scopes'', JArr (map JStr (cx_scopes c))), (''delegation_id'', jopt JStr (cx_delegation_id c)),
      (''capabilities'', JArr (map lease_json (cx_capabilities c))),
      (''ingress_id'', jopt JStr (cx_ingress_id c)), (''parent_run_id'', jopt JStr (cx_parent_run_id c)),
      (''deferred'', JBool (cx_deferred c))]"

text \<open>\<open>sha\<close> is \<^verbatim>\<open>hashlib.sha256(canonical_json(v).encode()).hexdigest()\<close>.\<close>

definition coalescing_key :: "(json \<Rightarrow> string) \<Rightarrow> execution_context \<Rightarrow> string" where
  "coalescing_key sha c = sha (context_snapshot c)"

section \<open>Authorization\<close>

type_synonym authorizer = "execution_context \<Rightarrow> string \<Rightarrow> resource_ref \<Rightarrow> principal list \<Rightarrow> bool"

definition require_authorized ::
  "authorizer \<Rightarrow> execution_context \<Rightarrow> string \<Rightarrow> resource_ref \<Rightarrow> principal list \<Rightarrow> unit res" where
  "require_authorized authorize c action resource audience =
     (if rs_tenant_id resource \<noteq> cx_tenant_id c \<or> \<not> authorize c action resource audience
      then Raise AuthorizationDenied else Ret ())"

section \<open>Run requests and run records\<close>

record run_request =
  rq_run_id :: string
  rq_session_id :: string
  rq_idempotency_key :: string
  rq_input :: string
  rq_deadline_seconds :: "real option"
  rq_attachments :: "json list"
  rq_model_ref :: "string option"
  rq_steer_run_id :: "string option"

definition request_post_init :: "run_request \<Rightarrow> run_request res" where
  "request_post_init r =
     (if \<not> (nonblank (rq_run_id r) \<and> nonblank (rq_session_id r) \<and> nonblank (rq_idempotency_key r))
        then Raise ValueError
      else if (case rq_steer_run_id r of None \<Rightarrow> False | Some t \<Rightarrow> t = [] \<or> t = rq_run_id r)
        then Raise ValueError
      else if (case rq_deadline_seconds r of None \<Rightarrow> False | Some d \<Rightarrow> d \<le> 0) then Raise ValueError
      else Ret r)"

definition request_json :: "run_request \<Rightarrow> json" where
  "request_json r = JObj
     [(''run_id'', JStr (rq_run_id r)), (''session_id'', JStr (rq_session_id r)),
      (''idempotency_key'', JStr (rq_idempotency_key r)), (''input'', JStr (rq_input r)),
      (''deadline_seconds'', jopt JFloat (rq_deadline_seconds r)),
      (''attachments'', JArr (rq_attachments r)), (''model_ref'', jopt JStr (rq_model_ref r)),
      (''steer_run_id'', jopt JStr (rq_steer_run_id r))]"

definition fingerprint :: "(json \<Rightarrow> string) \<Rightarrow> run_request \<Rightarrow> execution_context \<Rightarrow> string" where
  "fingerprint sha r c = sha (JObj [(''request'', request_json r), (''context'', context_snapshot c)])"

definition TERMINAL_STATUSES :: "string list" where
  "TERMINAL_STATUSES = [''success'', ''failed'', ''cancelled'', ''rejected'', ''interrupted'', ''skipped'', ''timed_out'']"

record accepted_run_request =
  ar_request :: run_request
  ar_author :: principal
  ar_initiator :: principal
  ar_authority :: principal
  ar_audience :: "principal list"
  ar_scopes :: "string list"
  ar_delegation_id :: "string option"
  ar_ingress_id :: "string option"
  ar_parent_run_id :: "string option"
  ar_deferred :: bool

record run_record =
  rr_run_id :: string
  rr_session_id :: string
  rr_tenant_id :: string
  rr_status :: string
  rr_request_digest :: string
  rr_output :: "json option"
  rr_cancel_requested :: bool
  rr_parent_run_id :: "string option"

definition rr_terminal :: "run_record \<Rightarrow> bool" where
  "rr_terminal r \<longleftrightarrow> rr_status r \<in> set TERMINAL_STATUSES"

record run_event =
  ev_cursor :: int
  ev_run_id :: string
  ev_kind :: string
  ev_payload :: json

section \<open>Well-formed contexts\<close>

text \<open>What the checks of the constructor establish.\<close>

definition wf_context :: "execution_context \<Rightarrow> bool" where
  "wf_context c \<longleftrightarrow>
     cx_session_id c \<noteq> [] \<and> cx_agent_id c \<noteq> [] \<and> cx_audience c \<noteq> []
     \<and> (\<forall>p \<in> set (cx_author c # cx_initiator c # cx_authority c # cx_audience c). pr_tenant_id p = cx_tenant_id c)
     \<and> (cx_deferred c \<longrightarrow> cx_capabilities c = [] \<and> truthy_opt (cx_delegation_id c))"

lemma context_post_init_Ret: "context_post_init c = Ret c' \<longleftrightarrow> c' = c \<and> wf_context c"
  unfolding context_post_init_def wf_context_def by (auto simp: cx_tenant_id_def)

lemma context_child_Ret:
  "context_child c sid rid agent d = Ret c' \<longleftrightarrow>
     pr_kind agent = ''agent'' \<and> wf_context c' \<and>
     c' = c\<lparr>cx_author := agent, cx_session_id := sid, cx_parent_run_id := Some rid,
        cx_capabilities := (if d then [] else cx_capabilities c),
        cx_ingress_id := (if d then None else cx_ingress_id c), cx_deferred := d\<rparr>"
  by (auto simp: context_child_def context_post_init_Ret)

lemma require_authorized_Ret:
  "require_authorized az c a r aud = Ret u \<longleftrightarrow> rs_tenant_id r = cx_tenant_id c \<and> az c a r aud"
  by (simp add: require_authorized_def)

section \<open>Injectivity of the derived keys\<close>

text \<open>
  The text of a JSON string determines the string, also when more text follows: the escapes form
  a prefix code, and none of them starts with the closing quote.
\<close>

lemma of_char_hex_digit: "n < 16 \<Longrightarrow> (of_char (hex_digit n) :: nat) = (if n < 10 then 48 + n else 87 + n)"
  by (simp add: hex_digit_def)

lemma hex_digit_inj:
  assumes "m < 16" "n < 16" shows "hex_digit m = hex_digit n \<longleftrightarrow> m = n"
proof
  assume "hex_digit m = hex_digit n"
  then have "(of_char (hex_digit m) :: nat) = of_char (hex_digit n)"
    by (simp only:)
  then show "m = n"
    using assms by (simp add: of_char_hex_digit split: if_splits)
qed simp

definition json_short :: "(nat \<times> char) list" where
  "json_short = [(34, CHR 0x22), (92, CHR 0x5C), (10, CHR ''n''), (13, CHR ''r''), (9, CHR ''t''), (12, CHR ''f''), (8, CHR ''b'')]"

lemma json_escape_cases:
  "json_escape c =
    (case map_of json_short (of_char c) of Some e \<Rightarrow> [CHR 0x5C, e]
     | None \<Rightarrow> if (of_char c :: nat) < 32 then [CHR 0x5C, CHR ''u'', CHR ''0'', CHR ''0'', hex_digit (of_char c div 16), hex_digit (of_char c mod 16)]
        else [c])"
proof -
  have "(c = CHR 0x22) = (of_char c = (34::nat))" "(c = CHR 0x5C) = (of_char c = (92::nat))"
    using of_char_eq_iff [of c "CHR 0x22", where 'a = nat] of_char_eq_iff [of c "CHR 0x5C", where 'a = nat] by simp_all
  then show ?thesis
    by (simp add: json_escape_def json_short_def Let_def)
qed

lemma json_short_inj: "map_of json_short m = Some e \<Longrightarrow> map_of json_short n = Some e \<Longrightarrow> m = n"
  by (auto simp: json_short_def split: if_splits)

lemma json_short_not_u: "map_of json_short m \<noteq> Some CHR ''u''"
  by (auto simp: json_short_def)

lemma json_escape_prefix:
  assumes "json_escape c @ r = json_escape d @ s" shows "c = d \<and> r = s"
proof -
  have bs: "map_of json_short (of_char x :: nat) = None \<Longrightarrow> x \<noteq> CHR 0x5C" for x
    by (auto simp: json_short_def)
  have hex: "c = d" if "(of_char c :: nat) < 32" "(of_char d :: nat) < 32"
    "hex_digit (of_char c div 16) = hex_digit (of_char d div 16)" 
    "hex_digit (of_char c mod 16) = hex_digit (of_char d mod 16)"
  proof -
    have "(of_char c :: nat) div 16 = of_char d div 16" "(of_char c :: nat) mod 16 = of_char d mod 16"
      using that by (simp_all add: hex_digit_inj)
    then have "of_char c = (of_char d :: nat)"
      by (metis div_mult_mod_eq)
    then show ?thesis by simp
  qed
  show ?thesis
    using assms bs [of c] bs [of d] json_short_inj [of "of_char c" _ "of_char d"] hex
      json_short_not_u [of "of_char c"] json_short_not_u [of "of_char d"]
    by (auto simp: json_escape_cases split: option.splits if_splits)
qed

lemma json_escape_hd: "\<exists>e es. json_escape c = e # es \<and> e \<noteq> CHR 0x22"
  by (auto simp: json_escape_def Let_def)

lemma json_chars_prefix:
  "concat (map json_escape s) @ CHR 0x22 # r = concat (map json_escape t) @ CHR 0x22 # r' \<Longrightarrow> s = t \<and> r = r'"
proof (induction s arbitrary: t)
  case Nil
  show ?case
  proof (cases t)
    case (Cons d ds)
    then show ?thesis using Nil json_escape_hd [of d] by auto
  qed (use Nil in simp)
next
  case (Cons c s)
  show ?case
  proof (cases t)
    case Nil
    then show ?thesis using Cons.prems json_escape_hd [of c] by auto
  next
    case (Cons d ds)
    then have "json_escape c @ (concat (map json_escape s) @ CHR 0x22 # r)
        = json_escape d @ (concat (map json_escape ds) @ CHR 0x22 # r')"
      using Cons.prems by simp
    from json_escape_prefix [OF this] Cons.IH [of ds] Cons show ?thesis
      by simp
  qed
qed

lemma json_quote_prefix: "json_quote s @ r = json_quote t @ r' \<longleftrightarrow> s = t \<and> r = r'"
  using json_chars_prefix [of s r t r'] by (auto simp: json_quote_def)

lemma principal_key_text:
  "principal_key fr p =
     CHR 0x7B # json_quote ''authority'' @ CHR '':'' # json_quote (pr_authority p) @ CHR '','' #
     json_quote ''kind'' @ CHR '':'' # json_quote (pr_kind p) @ CHR '','' #
     json_quote ''subject_id'' @ CHR '':'' # json_quote (pr_subject_id p) @ CHR '','' #
     json_quote ''tenant_id'' @ CHR '':'' # json_quote (pr_tenant_id p) @ [CHR 0x7D]"
  by (simp add: principal_key_def principal_json_def sort_key_def)

lemma principal_json_inj: "principal_json p = principal_json q \<longleftrightarrow> p = q"
  by (auto simp: principal_json_def)

lemma lease_json_inj: "lease_json p = lease_json q \<longleftrightarrow> p = q"
  by (auto simp: lease_json_def)

lemma jopt_inj: "inj f \<Longrightarrow> (\<And>x. f x \<noteq> JNull) \<Longrightarrow> jopt f a = jopt f b \<longleftrightarrow> a = b"
  by (auto simp: jopt_def inj_def split: option.splits) metis

lemma context_snapshot_inj: "context_snapshot c = context_snapshot d \<longleftrightarrow> c = d"
proof -
  have "inj principal_json" "inj lease_json" "inj JStr"
    by (auto intro!: injI simp: principal_json_inj lease_json_inj)
  then show ?thesis
    by (auto simp: context_snapshot_def principal_json_inj jopt_inj inj_map_eq_map)
qed

lemma request_json_inj: "request_json c = request_json d \<longleftrightarrow> c = d"
proof -
  have "inj JFloat" "inj JStr"
    by (auto intro!: injI)
  then show ?thesis
    by (auto simp: request_json_def jopt_inj inj_map_eq_map)
qed

lemma fingerprint_inj:
  assumes "sha (JObj [(''request'', request_json r), (''context'', context_snapshot c)])
      = sha (JObj [(''request'', request_json r'), (''context'', context_snapshot c')]) \<Longrightarrow>
    JObj [(''request'', request_json r), (''context'', context_snapshot c)]
      = JObj [(''request'', request_json r'), (''context'', context_snapshot c')]"
    and "fingerprint sha r c = fingerprint sha r' c'"
  shows "r = r' \<and> c = c'"
  using assms by (simp add: fingerprint_def request_json_inj context_snapshot_inj)

section \<open>Properties\<close>

text \<open>
  C26: The key under which a principal is stored identifies it: two principals have the same
  \<^verbatim>\<open>PrincipalRef.key\<close> exactly when all four of their fields agree, whatever characters the
  fields hold.
\<close>

theorem principal_key_injective: "principal_key fr p = principal_key fr q \<longleftrightarrow> p = q"
  using json_quote_prefix [of "pr_tenant_id p" "[]" "pr_tenant_id q" "[]"]
  by (auto simp: principal_key_text json_quote_prefix)

text \<open>
  C27: A child context is confined: it stays in the tenant of its parent, keeps the authority, the
  initiator, the audience, the scopes and the delegation, is authored by an agent of that tenant,
  and never holds a lease or an ingress that its parent does not hold; when it is deferred it
  holds none at all and has an explicit delegation.
\<close>

theorem context_child_confined:
  assumes "context_child c sid rid agent d = Ret c'"
  shows "cx_tenant_id c' = cx_tenant_id c \<and> cx_authority c' = cx_authority c
    \<and> cx_initiator c' = cx_initiator c \<and> cx_audience c' = cx_audience c
    \<and> cx_scopes c' = cx_scopes c \<and> cx_delegation_id c' = cx_delegation_id c
    \<and> pr_kind (cx_author c') = ''agent'' \<and> pr_tenant_id (cx_author c') = cx_tenant_id c
    \<and> cx_parent_run_id c' = Some rid \<and> cx_session_id c' = sid
    \<and> set (cx_capabilities c') \<subseteq> set (cx_capabilities c)
    \<and> cx_ingress_id c' \<in> {None, cx_ingress_id c}
    \<and> (d \<longrightarrow> cx_capabilities c' = [] \<and> cx_ingress_id c' = None \<and> truthy_opt (cx_delegation_id c'))"
  using assms by (auto simp: context_child_Ret wf_context_def cx_tenant_id_def)

definition ex_principal :: "string \<Rightarrow> string \<Rightarrow> principal" where
  "ex_principal subject kind =
     \<lparr>pr_authority = ''host-a'', pr_tenant_id = ''tenant-a'', pr_subject_id = subject, pr_kind = kind\<rparr>"

definition ex_context :: execution_context where
  "ex_context = \<lparr>cx_author = ex_principal ''u1'' ''user'', cx_initiator = ex_principal ''u1'' ''user'',
     cx_authority = ex_principal ''u1'' ''user'', cx_session_id = ''s1'', cx_agent_id = ''agent-1'',
     cx_audience = [ex_principal ''u1'' ''user''], cx_scopes = [], cx_delegation_id = Some ''d1'',
     cx_capabilities = [\<lparr>ls_source_id = ''device'', ls_instance_id = ''i1'', ls_generation = ''g1''\<rparr>],
     cx_ingress_id = Some ''app'', cx_parent_run_id = None, cx_deferred = False\<rparr>"

lemmas ex_context_defs = ex_context_def ex_principal_def

lemma context_child_confined_witness:
  "\<exists>c'. context_child ex_context ''s2'' ''r1'' (ex_principal ''agent-1'' ''agent'') True = Ret c'
     \<and> cx_tenant_id c' = ''tenant-a'' \<and> cx_capabilities c' = []"
proof -
  have "\<exists>c'. context_child ex_context ''s2'' ''r1'' (ex_principal ''agent-1'' ''agent'') True = Ret c'"
    by (simp add: context_child_def context_post_init_def ex_context_defs cx_tenant_id_def truthy_opt_def)
  then obtain c' where c': "context_child ex_context ''s2'' ''r1'' (ex_principal ''agent-1'' ''agent'') True = Ret c'" ..
  have "cx_tenant_id ex_context = ''tenant-a''"
    by (simp add: ex_context_defs cx_tenant_id_def)
  with context_child_confined [OF c'] c' show ?thesis
    by auto
qed

end
