(* ===== verification/Toposort.thy ===== *)
theory Toposort
  imports Prelude
begin

text \<open>
  \<^verbatim>\<open>graphlib.TopologicalSorter\<close> of Python's standard library, as
  \<^verbatim>\<open>ModuleCatalog.resolve\<close> uses it: nodes are added with their predecessors, and
  \<^verbatim>\<open>static_order\<close> hands them out group by group.  The lemmas show that it returns an order
  exactly when the graph has no cycle, and that the order holds every node once, after all of its
  predecessors.
\<close>

section \<open>The sorter\<close>

text \<open>
  \<^verbatim>\<open>_node2info\<close>: the nodes in insertion order, and for each the number of its predecessors
  that are not done and its successors.
\<close>

record topo =
  ts_order :: "string list"
  ts_npred :: "string \<Rightarrow> nat"
  ts_succ :: "string \<Rightarrow> string list"

definition ts_empty :: topo where
  "ts_empty = \<lparr>ts_order = [], ts_npred = (\<lambda>_. 0), ts_succ = (\<lambda>_. [])\<rparr>"

definition ts_node :: "string \<Rightarrow> topo \<Rightarrow> topo" where
  "ts_node n t = (if n \<in> set (ts_order t) then t else t\<lparr>ts_order := ts_order t @ [n]\<rparr>)"

fun ts_add_preds :: "string \<Rightarrow> string list \<Rightarrow> topo \<Rightarrow> topo" where
  "ts_add_preds n [] t = t"
| "ts_add_preds n (p # ps) t =
     (let t' = ts_node p t
      in ts_add_preds n ps (t'\<lparr>ts_succ := (ts_succ t')(p := ts_succ t' p @ [n])\<rparr>))"

definition ts_add :: "string \<Rightarrow> string list \<Rightarrow> topo \<Rightarrow> topo" where
  "ts_add n ps t =
     (let t' = ts_node n t
      in ts_add_preds n ps (t'\<lparr>ts_npred := (ts_npred t')(n := ts_npred t' n + length ps)\<rparr>))"

definition ts_build :: "(string \<times> string list) list \<Rightarrow> topo" where
  "ts_build graph = fold (\<lambda>(n, ps) t. ts_add n ps t) graph ts_empty"

fun ts_release :: "string list \<Rightarrow> topo \<Rightarrow> string list \<Rightarrow> topo \<times> string list" where
  "ts_release [] t ready = (t, ready)"
| "ts_release (s # ss) t ready =
     (let k = ts_npred t s - 1
      in ts_release ss (t\<lparr>ts_npred := (ts_npred t)(s := k)\<rparr>) (if k = 0 then ready @ [s] else ready))"

fun ts_done :: "string list \<Rightarrow> topo \<Rightarrow> string list \<Rightarrow> topo \<times> string list" where
  "ts_done [] t ready = (t, ready)"
| "ts_done (n # ns) t ready = (let (t', ready') = ts_release (ts_succ t n) t ready in ts_done ns t' ready')"

text \<open>
  \<^verbatim>\<open>get_ready\<close> hands out every ready node, \<^verbatim>\<open>done\<close> marks the whole group, until no
  node is ready.  A group is never empty, so a round per node is enough fuel.
\<close>

fun ts_rounds :: "nat \<Rightarrow> topo \<Rightarrow> string list \<Rightarrow> string list \<Rightarrow> string list" where
  "ts_rounds 0 t ready out = out"
| "ts_rounds (Suc fuel) t ready out =
     (if ready = [] then out
      else let (t', ready') = ts_done ready t [] in ts_rounds fuel t' ready' (out @ ready))"

text \<open>
  \<^verbatim>\<open>prepare\<close> raises \<^verbatim>\<open>CycleError\<close> when the graph has a cycle; the nodes on or behind
  a cycle are exactly the ones the rounds never hand out.
\<close>

definition static_order :: "(string \<times> string list) list \<Rightarrow> string list option" where
  "static_order graph =
     (let t = ts_build graph;
          out = ts_rounds (length (ts_order t)) t (filter (\<lambda>n. ts_npred t n = 0) (ts_order t)) []
      in if length out = length (ts_order t) then Some out else None)"

section \<open>The built graph\<close>

definition preds_in :: "(string \<times> string list) list \<Rightarrow> string \<Rightarrow> string list" where
  "preds_in g n = (case map_of g n of None \<Rightarrow> [] | Some ps \<Rightarrow> ps)"

definition wf_graph :: "(string \<times> string list) list \<Rightarrow> bool" where
  "wf_graph g \<longleftrightarrow> distinct (map fst g) \<and> (\<forall>(n, ps) \<in> set g. distinct ps)"

definition graph_nodes :: "(string \<times> string list) list \<Rightarrow> string set" where
  "graph_nodes g = fst ` set g \<union> (\<Union>(n, ps) \<in> set g. set ps)"

definition graph_edges :: "(string \<times> string list) list \<Rightarrow> (string \<times> string) set" where
  "graph_edges g = {(p, n). p \<in> set (preds_in g n)}"

lemma distinct_preds_in: "wf_graph g \<Longrightarrow> distinct (preds_in g n)"
  by (auto simp: wf_graph_def preds_in_def split: option.split dest: map_of_SomeD)

lemma preds_in_nodes: "p \<in> set (preds_in g n) \<Longrightarrow> p \<in> graph_nodes g \<and> n \<in> graph_nodes g"
proof -
  assume "p \<in> set (preds_in g n)"
  then obtain ps where "(n, ps) \<in> set g" "p \<in> set ps"
    by (cases "map_of g n") (auto simp: preds_in_def dest: map_of_SomeD)
  then show ?thesis
    by (force simp: graph_nodes_def)
qed

lemma ts_node_simps [simp]:
  "set (ts_order (ts_node n t)) = insert n (set (ts_order t))"
  "ts_npred (ts_node n t) = ts_npred t" "ts_succ (ts_node n t) = ts_succ t"
  "distinct (ts_order (ts_node n t)) = distinct (ts_order t)"
  by (auto simp: ts_node_def)

lemma ts_add_preds_simps:
  "set (ts_order (ts_add_preds n ps t)) = set ps \<union> set (ts_order t)"
  "ts_npred (ts_add_preds n ps t) = ts_npred t"
  "distinct (ts_order (ts_add_preds n ps t)) = distinct (ts_order t)"
  "ts_succ (ts_add_preds n ps t) q = ts_succ t q @ replicate (count_list ps q) n"
  by (induction ps arbitrary: t) (auto simp: Let_def replicate_append_same)

lemma ts_add_simps:
  "set (ts_order (ts_add n ps t)) = insert n (set ps \<union> set (ts_order t))"
  "ts_npred (ts_add n ps t) = (ts_npred t)(n := ts_npred t n + length ps)"
  "distinct (ts_order (ts_add n ps t)) = distinct (ts_order t)"
  "ts_succ (ts_add n ps t) q = ts_succ t q @ replicate (count_list ps q) n"
  by (auto simp: ts_add_def Let_def ts_add_preds_simps)

lemma preds_in_Cons: "preds_in ((m, ps) # g) n = (if n = m then ps else preds_in g n)"
  by (simp add: preds_in_def)

lemma preds_in_fresh: "n \<notin> fst ` set g \<Longrightarrow> preds_in g n = []"
  by (auto simp: preds_in_def split: option.split dest!: map_of_SomeD) force

lemma fold_ts_add:
  assumes "distinct (map fst g)"
  shows "set (ts_order (fold (\<lambda>(n, ps). ts_add n ps) g t)) = graph_nodes g \<union> set (ts_order t)"
    and "distinct (ts_order (fold (\<lambda>(n, ps). ts_add n ps) g t)) = distinct (ts_order t)"
    and "ts_npred (fold (\<lambda>(n, ps). ts_add n ps) g t) n = ts_npred t n + length (preds_in g n)"
    and "count_list (ts_succ (fold (\<lambda>(n, ps). ts_add n ps) g t) p) n
      = count_list (ts_succ t p) n + count_list (preds_in g n) p"
  using assms
proof (induction g arbitrary: t)
  case Nil
  { case 1 show ?case by (simp add: graph_nodes_def) next
    case 2 show ?case by simp next
    case 3 show ?case by (simp add: preds_in_def) next
    case 4 show ?case by (simp add: preds_in_def) }
next
  case (Cons e g)
  obtain m ps where e: "e = (m, ps)" by (cases e)
  { case 1
    then show ?case by (auto simp: e Cons.IH ts_add_simps graph_nodes_def)
  next
    case 2
    then show ?case by (simp add: e Cons.IH ts_add_simps)
  next
    case 3
    then show ?case by (auto simp: e Cons.IH ts_add_simps preds_in_Cons preds_in_fresh)
  next
    case 4
    have rep: "count_list (replicate k m) n = (if n = m then k else 0)" for k
      by (induction k) auto
    from 4 show ?case
      by (auto simp: e Cons.IH ts_add_simps preds_in_Cons preds_in_fresh rep) }
qed

lemma ts_build_simps:
  assumes "wf_graph g"
  shows "set (ts_order (ts_build g)) = graph_nodes g" "distinct (ts_order (ts_build g))"
    "ts_npred (ts_build g) n = length (preds_in g n)"
    "distinct (ts_succ (ts_build g) p)" "set (ts_succ (ts_build g) p) = {n. p \<in> set (preds_in g n)}"
proof -
  have d: "distinct (map fst g)" using assms by (simp add: wf_graph_def)
  note f = fold_ts_add [OF d, of ts_empty]
  show "set (ts_order (ts_build g)) = graph_nodes g" "distinct (ts_order (ts_build g))"
    "ts_npred (ts_build g) n = length (preds_in g n)"
    using f by (auto simp: ts_build_def ts_empty_def)
  have c: "count_list (ts_succ (ts_build g) p) n = count_list (preds_in g n) p" for n
    using f(4) by (simp add: ts_build_def ts_empty_def)
  have "count_list (preds_in g n) p \<le> 1" for n
    using distinct_preds_in [OF assms, of n] by (simp add: distinct_count_list)
  with c show "distinct (ts_succ (ts_build g) p)"
    by (simp add: distinct_count_list)
  show "set (ts_succ (ts_build g) p) = {n. p \<in> set (preds_in g n)}"
    using c by (metis (no_types, lifting) Collect_cong count_list_0_iff Collect_mem_eq)
qed

section \<open>The rounds\<close>

lemma ts_release_simps:
  assumes "distinct ss" "\<forall>s \<in> set ss. 0 < ts_npred t s"
  shows "ts_release ss t ready =
    (t\<lparr>ts_npred := (\<lambda>n. if n \<in> set ss then ts_npred t n - 1 else ts_npred t n)\<rparr>,
     ready @ filter (\<lambda>s. ts_npred t s = 1) ss)"
  using assms
proof (induction ss arbitrary: t ready)
  case Nil
  then show ?case by simp
next
  case (Cons s ss)
  let ?t = "t\<lparr>ts_npred := (ts_npred t)(s := ts_npred t s - 1)\<rparr>"
  have r: "ts_release ss ?t r =
    (?t\<lparr>ts_npred := (\<lambda>n. if n \<in> set ss then ts_npred ?t n - 1 else ts_npred ?t n)\<rparr>,
     r @ filter (\<lambda>s'. ts_npred ?t s' = 1) ss)" for r
    using Cons.prems by (intro Cons.IH) auto
  have f: "filter (\<lambda>s'. ts_npred ?t s' = 1) ss = filter (\<lambda>s'. ts_npred t s' = 1) ss"
    using Cons.prems by (intro filter_cong) auto
  have k: "ts_npred t s - 1 = 0 \<longleftrightarrow> ts_npred t s = 1"
    using Cons.prems by auto
  show ?case
    unfolding ts_release.simps Let_def r f k using Cons.prems by (auto simp: fun_eq_iff)
qed

text \<open>
  The state of the sorter for the graph \<open>g\<close> when the nodes \<open>D\<close> are done, \<open>passed\<close> have been
  handed out and \<open>ready\<close> wait to be.
\<close>

definition ts_inv :: "(string \<times> string list) list \<Rightarrow> topo \<Rightarrow> string set \<Rightarrow> string list \<Rightarrow> string list \<Rightarrow> bool" where
  "ts_inv g t D passed ready \<longleftrightarrow>
     (\<forall>n. ts_npred t n = card (set (preds_in g n) - D))
     \<and> ts_succ t = ts_succ (ts_build g)
     \<and> distinct (passed @ ready)
     \<and> set (passed @ ready) = {n \<in> graph_nodes g. ts_npred t n = 0}"

lemma ts_invD:
  assumes "ts_inv g t D passed ready"
  shows "ts_npred t n = card (set (preds_in g n) - D)"
    and "ts_succ t = ts_succ (ts_build g)"
    and "distinct (passed @ ready)"
    and "n \<in> set passed \<or> n \<in> set ready \<longleftrightarrow> n \<in> graph_nodes g \<and> ts_npred t n = 0"
    and "n \<in> set passed \<or> n \<in> set ready \<Longrightarrow> set (preds_in g n) \<subseteq> D"
proof -
  have np: "\<forall>n. ts_npred t n = card (set (preds_in g n) - D)"
    and passed: "set (passed @ ready) = {n \<in> graph_nodes g. ts_npred t n = 0}"
    using assms unfolding ts_inv_def by simp_all
  show "ts_npred t n = card (set (preds_in g n) - D)"
    using np by blast
  show "ts_succ t = ts_succ (ts_build g)" "distinct (passed @ ready)"
    using assms unfolding ts_inv_def by blast+
  have iff: "n \<in> set passed \<or> n \<in> set ready \<longleftrightarrow> n \<in> set (passed @ ready)"
    by simp
  then show mem: "n \<in> set passed \<or> n \<in> set ready \<longleftrightarrow> n \<in> graph_nodes g \<and> ts_npred t n = 0"
    unfolding iff passed by blast
  assume "n \<in> set passed \<or> n \<in> set ready"
  then have "card (set (preds_in g n) - D) = 0"
    using mem np by metis
  then show "set (preds_in g n) \<subseteq> D"
    by simp
qed

lemma ts_done_one:
  assumes wf: "wf_graph g" and inv: "ts_inv g t D passed ready" and p: "p \<notin> D"
    and res: "ts_release (ts_succ t p) t ready = (t', ready')"
  shows "ts_inv g t' (insert p D) passed ready'"
proof -
  let ?S = "ts_succ (ts_build g) p"
  have S: "distinct ?S" "set ?S = {n. p \<in> set (preds_in g n)}"
    using ts_build_simps [OF wf] by auto
  have np: "ts_npred t n = card (set (preds_in g n) - D)" for n
    using inv by (simp add: ts_inv_def)
  have succ: "ts_succ t = ts_succ (ts_build g)"
    using inv by (simp add: ts_inv_def)
  have pos: "\<forall>s \<in> set ?S. 0 < ts_npred t s"
    using p by (auto simp: S np card_gt_0_iff)
  have t': "t' = t\<lparr>ts_npred := (\<lambda>n. if n \<in> set ?S then ts_npred t n - 1 else ts_npred t n)\<rparr>"
    and ready': "ready' = ready @ filter (\<lambda>s. ts_npred t s = 1) ?S"
    using res ts_release_simps [OF S(1) pos, of ready] by (auto simp: succ)
  have np': "ts_npred t' n = card (set (preds_in g n) - insert p D)" for n
  proof (cases "p \<in> set (preds_in g n)")
    case True
    then have "set (preds_in g n) - insert p D = (set (preds_in g n) - D) - {p}" by auto
    then show ?thesis using True p by (simp add: t' S np card_Diff_singleton_if)
  next
    case False
    then have "set (preds_in g n) - insert p D = set (preds_in g n) - D" by auto
    then show ?thesis using False by (simp add: t' S np)
  qed
  have in_iff: "n \<in> set passed \<or> n \<in> set ready \<longleftrightarrow> n \<in> graph_nodes g \<and> ts_npred t n = 0" for n
    by (rule ts_invD(4) [OF inv])
  then have fresh: "set (passed @ ready) \<inter> {s \<in> set ?S. ts_npred t s = 1} = {}"
    by force
  have nodes: "set ?S \<subseteq> graph_nodes g"
    using preds_in_nodes by (auto simp: S)
  have iff': "n \<in> set (passed @ ready') \<longleftrightarrow> n \<in> graph_nodes g \<and> ts_npred t' n = 0" for n
  proof (cases "n \<in> set ?S")
    case True
    then have "n \<in> graph_nodes g" "0 < ts_npred t n" using nodes pos by auto
    then show ?thesis
      using True in_iff [of n] by (auto simp: ready' t')
  next
    case False
    then show ?thesis using in_iff [of n] by (simp add: ready' t')
  qed
  then have "set (passed @ ready') = {n \<in> graph_nodes g. ts_npred t' n = 0}"
    by blast
  moreover have "distinct (passed @ ready')"
    using ts_invD(3) [OF inv] fresh S(1) by (auto simp: ready')
  ultimately show ?thesis
    using np' succ by (simp add: ts_inv_def t')
qed

lemma ts_done_inv:
  assumes "wf_graph g" "ts_inv g t D passed ready" "distinct ns" "set ns \<inter> D = {}"
    and "ts_done ns t ready = (t', ready')"
  shows "ts_inv g t' (D \<union> set ns) passed ready'"
  using assms(2-)
proof (induction ns arbitrary: t ready D)
  case Nil
  then show ?case by simp
next
  case (Cons n ns)
  obtain t1 r1 where 1: "ts_release (ts_succ t n) t ready = (t1, r1)"
    by (cases "ts_release (ts_succ t n) t ready")
  have "ts_inv g t1 (insert n D) passed r1"
    using ts_done_one [OF assms(1) Cons.prems(1) _ 1] Cons.prems(3) by simp
  then have "ts_inv g t' (insert n D \<union> set ns) passed ready'"
    using Cons.prems 1 by (intro Cons.IH) auto
  then show ?case by simp
qed

text \<open>Every node stands after its predecessors.\<close>

definition after_preds :: "(string \<times> string list) list \<Rightarrow> string list \<Rightarrow> bool" where
  "after_preds g out \<longleftrightarrow> (\<forall>xs n ys. out = xs @ n # ys \<longrightarrow> set (preds_in g n) \<subseteq> set xs)"

lemma after_preds_append:
  assumes "after_preds g out" "\<forall>n \<in> set ready. set (preds_in g n) \<subseteq> set out"
  shows "after_preds g (out @ ready)"
  using assms(2)
proof (induction ready rule: rev_induct)
  case (snoc r rs)
  then have IH: "after_preds g (out @ rs)" by simp
  show ?case
    unfolding after_preds_def
  proof (intro allI impI)
    fix xs n ys assume eq: "out @ rs @ [r] = xs @ n # ys"
    show "set (preds_in g n) \<subseteq> set xs"
    proof (cases ys rule: rev_cases)
      case Nil
      then have "out @ rs = xs" "r = n" using eq by (auto simp flip: append_assoc)
      then show ?thesis using snoc.prems by auto
    next
      case (snoc zs z)
      then have "out @ rs = xs @ n # zs" using eq by (auto simp flip: append_assoc append_Cons)
      then show ?thesis using IH unfolding after_preds_def by blast
    qed
  qed
qed (use assms(1) in simp)

lemma ts_rounds_inv:
  assumes wf: "wf_graph g" and "ts_inv g t (set out) out ready" "after_preds g out"
    and "card (graph_nodes g) \<le> length out + fuel"
  shows "\<exists>t'. ts_inv g t' (set (ts_rounds fuel t ready out)) (ts_rounds fuel t ready out) []
    \<and> after_preds g (ts_rounds fuel t ready out)"
  using assms(2-)
proof (induction fuel arbitrary: t ready out)
  case 0
  have fin: "finite (graph_nodes g)"
    by (auto simp: graph_nodes_def)
  have sub: "set (out @ ready) \<subseteq> graph_nodes g" and dist: "distinct (out @ ready)"
    using 0(1) by (auto simp: ts_inv_def)
  have "length (out @ ready) \<le> card (graph_nodes g)"
    using card_mono [OF fin sub] distinct_card [OF dist] by simp
  with 0(3) have "length ready = 0"
    unfolding length_append by linarith
  then have "ready = []" by simp
  with 0 show ?case by auto
next
  case (Suc fuel)
  show ?case
  proof (cases "ready = []")
    case True
    with Suc.prems show ?thesis by auto
  next
    case False
    obtain t1 r1 where 1: "ts_done ready t [] = (t1, r1)"
      by (cases "ts_done ready t []")
    have inv0: "ts_inv g t (set out) (out @ ready) []" "distinct ready" "set ready \<inter> set out = {}"
      using Suc.prems(1) by (auto simp: ts_inv_def)
    have inv1: "ts_inv g t1 (set (out @ ready)) (out @ ready) r1"
      using ts_done_inv [OF wf inv0(1,2,3) 1] by simp
    have "\<forall>n \<in> set ready. set (preds_in g n) \<subseteq> set out"
      using ts_invD(5) [OF Suc.prems(1)] by blast
    then have ap: "after_preds g (out @ ready)"
      using Suc.prems(2) after_preds_append by blast
    have "1 \<le> length ready"
      using False by (cases ready) auto
    then have fuel: "card (graph_nodes g) \<le> length (out @ ready) + fuel"
      using Suc.prems(3) by simp
    show ?thesis
      using Suc.IH [OF inv1 ap fuel] False 1 by simp
  qed
qed

section \<open>Correctness of the order\<close>

lemma static_order_rounds:
  assumes "wf_graph g"
  obtains t out where "ts_inv g t (set out) out []" "after_preds g out"
    "static_order g = (if length out = card (graph_nodes g) then Some out else None)"
proof -
  note b = ts_build_simps [OF assms(1)]
  let ?ready = "filter (\<lambda>n. ts_npred (ts_build g) n = 0) (ts_order (ts_build g))"
  obtain out where out: "out = ts_rounds (length (ts_order (ts_build g))) (ts_build g) ?ready []"
    by blast
  have len: "length (ts_order (ts_build g)) = card (graph_nodes g)"
    using distinct_card [OF b(2)] b(1) by simp
  have card: "length (preds_in g n) = card (set (preds_in g n))" for n
    using distinct_card [OF distinct_preds_in [OF assms(1)]] by simp
  have "ts_inv g (ts_build g) (set []) [] ?ready"
    using b by (auto simp: ts_inv_def card)
  moreover have "after_preds g []"
    by (simp add: after_preds_def)
  moreover have "card (graph_nodes g) \<le> length ([] :: string list) + length (ts_order (ts_build g))"
    by (simp add: len)
  ultimately obtain t where "ts_inv g t (set out) out [] \<and> after_preds g out"
    unfolding out using ts_rounds_inv [OF assms(1)] by blast
  moreover have "static_order g = (if length out = length (ts_order (ts_build g)) then Some out else None)"
    by (simp only: static_order_def Let_def out)
  ultimately show ?thesis
    unfolding len by (elim conjE) (rule that)
qed

lemma static_order_Some:
  assumes wf: "wf_graph g" and "static_order g = Some order"
  shows "distinct order" "set order = graph_nodes g" "after_preds g order"
proof -
  obtain t out where r: "ts_inv g t (set out) out []" "after_preds g out"
    "static_order g = (if length out = card (graph_nodes g) then Some out else None)"
    by (rule static_order_rounds [OF wf])
  from r(3) assms(2) have "out = order \<and> length order = card (graph_nodes g)"
    by (auto split: if_splits)
  with r have t: "ts_inv g t (set order) order []" "after_preds g order" "length order = card (graph_nodes g)"
    by simp_all
  then show d: "distinct order" "after_preds g order"
    using ts_invD(3) [OF t(1)] by simp_all
  have fin: "finite (graph_nodes g)"
    by (auto simp: graph_nodes_def)
  have "set order \<subseteq> graph_nodes g" "card (set order) = card (graph_nodes g)"
    using ts_invD(4) [OF t(1)] t(3) distinct_card [OF d(1)] by auto
  then show "set order = graph_nodes g"
    using fin card_subset_eq by blast
qed

lemma static_order_None_stuck:
  assumes wf: "wf_graph g" and "static_order g = None"
  shows "\<exists>S. S \<noteq> {} \<and> finite S \<and> (\<forall>n \<in> S. \<exists>p \<in> S. (p, n) \<in> graph_edges g)"
proof -
  obtain t out where r: "ts_inv g t (set out) out []"
    "static_order g = (if length out = card (graph_nodes g) then Some out else None)"
    by (rule static_order_rounds [OF wf])
  from r(2) assms(2) have "length out \<noteq> card (graph_nodes g)"
    by (auto split: if_splits)
  with r have t: "ts_inv g t (set out) out []" "length out \<noteq> card (graph_nodes g)"
    by blast+
  let ?S = "graph_nodes g - set out"
  have fin: "finite (graph_nodes g)"
    by (auto simp: graph_nodes_def)
  have sub: "set out \<subseteq> graph_nodes g" and len: "card (set out) = length out"
    using ts_invD(3,4) [OF t(1)] distinct_card [of out] by auto
  then have "?S \<noteq> {}" using t(2) by auto
  moreover have "\<exists>p \<in> ?S. (p, n) \<in> graph_edges g" if n: "n \<in> ?S" for n
  proof -
    have "card (set (preds_in g n) - set out) \<noteq> 0"
      using ts_invD(1,4) [OF t(1), of n] n by simp
    then obtain p where "p \<in> set (preds_in g n) - set out"
      by (metis all_not_in_conv card.empty)
    then have p: "p \<in> ?S" "(p, n) \<in> graph_edges g"
      using preds_in_nodes [of p g n] by (simp_all add: graph_edges_def)
    show ?thesis by (rule bexI [of _ p]) (rule p)+
  qed
  ultimately show ?thesis
    using fin by (intro exI [of _ ?S] conjI ballI) auto
qed

lemma after_preds_acyclic:
  assumes "after_preds g order" "graph_nodes g \<subseteq> set order"
  shows "acyclic (graph_edges g)"
proof -
  let ?pos = "\<lambda>n. length (takeWhile (\<lambda>m. m \<noteq> n) order)"
  have "?pos p < ?pos n" if e: "(p, n) \<in> graph_edges g" for p n
  proof -
    have "n \<in> set order"
      using e assms(2) preds_in_nodes by (auto simp: graph_edges_def)
    then obtain ys where "order = takeWhile (\<lambda>m. m \<noteq> n) order @ n # ys"
      by (metis (mono_tags, lifting) hd_dropWhile list.exhaust_sel set_takeWhileD takeWhile_dropWhile_id append_Nil2)
    then have "p \<in> set (takeWhile (\<lambda>m. m \<noteq> n) order)"
      using assms(1) e unfolding after_preds_def graph_edges_def by blast
    then have "takeWhile (\<lambda>m. m \<noteq> p) (takeWhile (\<lambda>m. m \<noteq> n) order @ n # ys)
        = takeWhile (\<lambda>m. m \<noteq> p) (takeWhile (\<lambda>m. m \<noteq> n) order)"
      by (intro takeWhile_append1) auto
    moreover have "length (takeWhile (\<lambda>m. m \<noteq> p) xs) < length xs" if "p \<in> set xs" for xs
      using that by (induction xs) auto
    ultimately show ?thesis
      using \<open>order = _\<close> \<open>p \<in> set (takeWhile (\<lambda>m. m \<noteq> n) order)\<close> by metis
  qed
  then have "graph_edges g \<subseteq> measure ?pos"
    by auto
  then show ?thesis
    by (meson acyclic_subset wf_acyclic wf_measure)
qed

lemma static_order_iff_acyclic:
  assumes wf: "wf_graph g"
  shows "static_order g \<noteq> None \<longleftrightarrow> acyclic (graph_edges g)"
proof
  assume "static_order g \<noteq> None"
  then show "acyclic (graph_edges g)"
    using static_order_Some [OF wf] after_preds_acyclic by force
next
  assume ac: "acyclic (graph_edges g)"
  show "static_order g \<noteq> None"
  proof
    assume "static_order g = None"
    then obtain S where S: "S \<noteq> {}" "finite S" "\<forall>n \<in> S. \<exists>p \<in> S. (p, n) \<in> graph_edges g"
      using static_order_None_stuck [OF wf] by blast
    let ?r = "graph_edges g \<inter> S \<times> S"
    have "finite ?r" "acyclic ?r"
      using S(2) ac by (auto intro: acyclic_subset)
    then have "wf ?r"
      by (rule finite_acyclic_wf)
    moreover obtain z where "z \<in> S"
      using S(1) by blast
    ultimately obtain n where "n \<in> S" "\<And>p. (p, n) \<in> ?r \<Longrightarrow> p \<notin> S"
      by (rule wfE_min) blast
    with S(3) show False
      by blast
  qed
qed

end
