(* ===== verification/ModuleGraph.thy ===== *)
theory ModuleGraph
  imports Contracts Toposort "HOL-Library.Product_Lexorder"
begin

text \<open>
  \<^verbatim>\<open>packages/runtime/src/openagent_core/modules.py\<close>: module configurations and runtime
  profiles with their checks, the service registry, the catalog of installed descriptors, and the
  resolution of a profile into an activation order.  A \<^verbatim>\<open>frozenset\<close> is the list of its
  elements in its iteration order.  A descriptor's \<^verbatim>\<open>validate\<close> and
  \<^verbatim>\<open>required_services_for\<close> are supplied by the installed module: they are fields of the
  descriptor record.  \<^verbatim>\<open>graphlib.TopologicalSorter\<close> is
  written out in the theory \<open>Toposort\<close>.
\<close>

section \<open>Configurations and profiles\<close>

definition MODULE_API_VERSION :: string where
  "MODULE_API_VERSION = ''1''"

definition MODULE_SURFACES :: "string list" where
  "MODULE_SURFACES = [''service'', ''agent_tools'', ''host_api'', ''workers'', ''event_ingress'']"

record module_config =
  mc_surfaces :: "string list"
  mc_options :: "(string \<times> json) list"

definition module_config_post_init :: "module_config \<Rightarrow> module_config res" where
  "module_config_post_init c =
     (if filter (\<lambda>s. s \<notin> set MODULE_SURFACES) (mc_surfaces c) \<noteq> [] then Raise ValueError else Ret c)"

record runtime_profile =
  rp_generation :: int
  rp_modules :: "(string \<times> module_config) list"

definition runtime_profile_post_init :: "runtime_profile \<Rightarrow> runtime_profile res" where
  "runtime_profile_post_init p =
     (if rp_generation p < 0 then Raise ValueError
      else if \<exists>m \<in> set (rp_modules p). \<not> nonblank (fst m) then Raise ValueError
      else Ret p)"

definition module_ids :: "runtime_profile \<Rightarrow> string list" where
  "module_ids p = map fst (rp_modules p)"

definition module_migration_post_init :: "string \<Rightarrow> int \<Rightarrow> (string \<times> int) res" where
  "module_migration_post_init i revision = (if i = [] \<or> revision < 1 then Raise ValueError else Ret (i, revision))"

section \<open>The service registry\<close>

text \<open>Keys are names; a bound value is of any type \<open>'v\<close>.\<close>

record 'v service_registry =
  sr_values :: "(string \<times> 'v) list"
  sr_owners :: "(string \<times> string) list"
  sr_multi :: "(string \<times> (string \<times> 'v) list) list"

definition registry_init :: "(string \<times> 'v) list \<Rightarrow> 'v service_registry" where
  "registry_init initial =
     \<lparr>sr_values = initial, sr_owners = map (\<lambda>(k, _). (k, ''host'')) initial, sr_multi = []\<rparr>"

text \<open>The copy shares no container with the original; values have no identity here.\<close>

definition registry_clone :: "'v service_registry \<Rightarrow> 'v service_registry" where
  "registry_clone r = \<lparr>sr_values = sr_values r, sr_owners = sr_owners r, sr_multi = sr_multi r\<rparr>"

definition registry_bind ::
  "string \<Rightarrow> 'v \<Rightarrow> string \<Rightarrow> bool \<Rightarrow> 'v service_registry \<Rightarrow> 'v service_registry res" where
  "registry_bind key value owner replace r =
     (if map_of (sr_values r) key \<noteq> None \<and> \<not> replace then Raise ModuleResolutionError
      else Ret (r\<lparr>sr_values := AList.update key value (sr_values r),
                 sr_owners := AList.update key owner (sr_owners r)\<rparr>))"

definition registry_bind_many ::
  "string \<Rightarrow> 'v \<Rightarrow> string \<Rightarrow> 'v service_registry \<Rightarrow> 'v service_registry" where
  "registry_bind_many key value owner r =
     r\<lparr>sr_multi := AList.update key
         ((case map_of (sr_multi r) key of None \<Rightarrow> [] | Some l \<Rightarrow> l) @ [(owner, value)]) (sr_multi r)\<rparr>"

definition registry_require :: "string \<Rightarrow> 'v service_registry \<Rightarrow> 'v res" where
  "registry_require key r =
     (case map_of (sr_values r) key of None \<Rightarrow> Raise ModuleResolutionError | Some v \<Rightarrow> Ret v)"

definition registry_optional :: "string \<Rightarrow> 'v option \<Rightarrow> 'v service_registry \<Rightarrow> 'v option" where
  "registry_optional key dflt r =
     (case map_of (sr_values r) key of None \<Rightarrow> dflt | Some v \<Rightarrow> Some v)"

definition registry_all :: "string \<Rightarrow> 'v service_registry \<Rightarrow> 'v list" where
  "registry_all key r =
     (case map_of (sr_values r) key of None \<Rightarrow> [] | Some v \<Rightarrow> [v])
     @ map snd (case map_of (sr_multi r) key of None \<Rightarrow> [] | Some l \<Rightarrow> l)"

definition registry_has :: "string \<Rightarrow> 'v service_registry \<Rightarrow> bool" where
  "registry_has key r \<longleftrightarrow> map_of (sr_values r) key \<noteq> None
     \<or> (case map_of (sr_multi r) key of None \<Rightarrow> False | Some l \<Rightarrow> l \<noteq> [])"

definition registry_owner :: "string \<Rightarrow> 'v service_registry \<Rightarrow> string option" where
  "registry_owner key r = map_of (sr_owners r) key"

definition registry_unbind ::
  "string \<Rightarrow> string option \<Rightarrow> 'v service_registry \<Rightarrow> 'v service_registry res" where
  "registry_unbind key owner r =
     (case map_of (sr_owners r) key of
        None \<Rightarrow> Ret r
      | Some current \<Rightarrow>
          if owner \<noteq> None \<and> Some current \<noteq> owner then Raise ModuleResolutionError
          else Ret (r\<lparr>sr_owners := AList.delete key (sr_owners r),
                     sr_values := AList.delete key (sr_values r)\<rparr>))"

definition registry_remove_owner :: "string \<Rightarrow> 'v service_registry \<Rightarrow> 'v service_registry" where
  "registry_remove_owner owner r =
     (let gone = map fst (filter (\<lambda>(_, current). current = owner) (sr_owners r));
          remaining = map (\<lambda>(k, l). (k, filter (\<lambda>(o', _). o' \<noteq> owner) l)) (sr_multi r)
      in r\<lparr>sr_owners := filter (\<lambda>(k, _). k \<notin> set gone) (sr_owners r),
           sr_values := filter (\<lambda>(k, _). k \<notin> set gone) (sr_values r),
           sr_multi := filter (\<lambda>(_, l). l \<noteq> []) remaining\<rparr>)"

section \<open>Descriptors and the catalog\<close>

record module_descriptor =
  md_id :: string
  md_version :: string
  md_api_version :: "string option"
  md_requires_modules :: "string list"
  md_provided_services :: "string list"
  md_supported_surfaces :: "string list"
  md_required_services_for :: "module_config \<Rightarrow> string list"
  md_validate :: "module_config \<Rightarrow> py_error option"

type_synonym module_catalog = "(string \<times> module_descriptor) list"

definition catalog_register_module :: "module_descriptor \<Rightarrow> module_catalog \<Rightarrow> module_catalog res" where
  "catalog_register_module d cat =
     (if md_id d = [] then Raise ValueError
      else if map_of cat (md_id d) \<noteq> None then Raise ValueError
      else if md_api_version d \<noteq> Some MODULE_API_VERSION then Raise ModuleResolutionError
      else Ret (AList.update (md_id d) d cat))"

fun catalog_init :: "module_descriptor list \<Rightarrow> module_catalog \<Rightarrow> module_catalog res" where
  "catalog_init [] cat = Ret cat"
| "catalog_init (d # ds) cat = bind_res (catalog_register_module d cat) (catalog_init ds)"

text \<open>An entry point is its name, its value and the descriptor that loading it yields.\<close>

definition catalog_from_entry_points :: "(string \<times> string \<times> module_descriptor) list \<Rightarrow> module_catalog res" where
  "catalog_from_entry_points selected =
     catalog_init (map (\<lambda>(_, _, d). d) (sort_key (\<lambda>(n, v, _). (n, v)) selected)) []"

definition catalog_get :: "string \<Rightarrow> module_catalog \<Rightarrow> module_descriptor res" where
  "catalog_get module_id cat =
     (case map_of cat module_id of None \<Rightarrow> Raise ModuleResolutionError | Some d \<Rightarrow> Ret d)"

definition catalog_installed :: "module_catalog \<Rightarrow> string list" where
  "catalog_installed cat = sort (map fst cat)"

section \<open>Resolution\<close>

fun select_modules :: "string list \<Rightarrow> module_catalog \<Rightarrow> (string \<times> module_descriptor) list res" where
  "select_modules [] cat = Ret []"
| "select_modules (i # is) cat =
     bind_res (catalog_get i cat) (\<lambda>d. bind_res (select_modules is cat) (\<lambda>ds. Ret ((i, d) # ds)))"

text \<open>\<^verbatim>\<open>providers.get(key)\<close>, the selected modules that provide a service.\<close>

definition providers_of :: "(string \<times> module_descriptor) list \<Rightarrow> string \<Rightarrow> string list" where
  "providers_of selected key =
     concat (map (\<lambda>(i, d). map (\<lambda>_. i) (filter (\<lambda>k. k = key) (md_provided_services d))) selected)"

text \<open>The predecessors of one module, or the reason it cannot be activated.\<close>

definition module_dependencies ::
  "'v service_registry \<Rightarrow> (string \<times> module_descriptor) list \<Rightarrow> module_config \<Rightarrow> string \<Rightarrow> module_descriptor
    \<Rightarrow> string list res" where
  "module_dependencies services selected config module_id d =
     (if \<exists>m \<in> set (md_requires_modules d). m \<notin> set (map fst selected) then Raise ModuleResolutionError
      else if \<exists>s \<in> set (mc_surfaces config). s \<notin> set (md_supported_surfaces d) then Raise ModuleResolutionError
      else let required = md_required_services_for d config in
        if \<exists>k \<in> set required. \<not> registry_has k services \<and> providers_of selected k = []
          then Raise ModuleResolutionError
        else case md_validate d config of
          Some e \<Rightarrow> Raise e
        | None \<Rightarrow>
            let open_keys = filter (\<lambda>k. \<not> registry_has k services) required in
            if \<exists>k \<in> set open_keys. length (providers_of selected k) \<noteq> 1 then Raise ModuleResolutionError
            else Ret (dedup (md_requires_modules d
                   @ filter (\<lambda>p. p \<noteq> module_id) (map (\<lambda>k. hd (providers_of selected k)) open_keys))))"

fun dependency_graph ::
  "'v service_registry \<Rightarrow> (string \<times> module_descriptor) list \<Rightarrow> runtime_profile
    \<Rightarrow> (string \<times> module_descriptor) list \<Rightarrow> (string \<times> string list) list res" where
  "dependency_graph services selected profile [] = Ret []"
| "dependency_graph services selected profile ((i, d) # rest) =
     (case map_of (rp_modules profile) i of
        None \<Rightarrow> Raise KeyError
      | Some config \<Rightarrow>
          bind_res (module_dependencies services selected config i d) (\<lambda>ps.
          bind_res (dependency_graph services selected profile rest) (\<lambda>g. Ret ((i, ps) # g))))"

definition resolve ::
  "module_catalog \<Rightarrow> runtime_profile \<Rightarrow> 'v service_registry \<Rightarrow> (string \<times> module_descriptor) list res" where
  "resolve cat profile services =
     bind_res (select_modules (sort (module_ids profile)) cat) (\<lambda>selected.
     bind_res (dependency_graph services selected profile selected) (\<lambda>graph.
       case static_order graph of
         None \<Rightarrow> Raise ModuleResolutionError
       | Some order \<Rightarrow> Ret (map (\<lambda>i. (i, the (map_of selected i))) order)))"

section \<open>The registry keeps its owners\<close>

text \<open>Every bound key has an owner and the other way round; no multi-binding is empty.\<close>

definition wf_registry :: "'v service_registry \<Rightarrow> bool" where
  "wf_registry r \<longleftrightarrow> map fst (sr_owners r) = map fst (sr_values r) \<and> distinct (map fst (sr_values r))
     \<and> distinct (map fst (sr_multi r)) \<and> (\<forall>(k, l) \<in> set (sr_multi r). l \<noteq> [])"

lemma map_of_filter_keys:
  "map_of (filter (\<lambda>(k, _). P k) d) k = (if P k then map_of d k else None)"
  by (induction d) auto

lemma map_of_map_value: "map_of (map (\<lambda>(k, v). (k, f v)) d) k = map_option f (map_of d k)"
  by (induction d) auto

lemma map_of_filter_values:
  "distinct (map fst d) \<Longrightarrow>
    map_of (filter (\<lambda>(_, v). P v) d) k = (case map_of d k of None \<Rightarrow> None | Some v \<Rightarrow> if P v then Some v else None)"
proof (induction d)
  case (Cons e d)
  have "k \<notin> fst ` set d \<Longrightarrow> map_of (filter (\<lambda>(_, v). P v) d) k = None" for k
    by (auto simp: map_of_eq_None_iff)
  with Cons show ?case
    by (cases e) auto
qed simp

lemma owner_gone:
  assumes "distinct (map fst (sr_owners r))"
  shows "k \<in> set (map fst (filter (\<lambda>(_, current). current = owner) (sr_owners r)))
    \<longleftrightarrow> registry_owner k r = Some owner"
  using assms by (force simp: registry_owner_def)

lemma wf_registry_init: "distinct (map fst initial) \<Longrightarrow> wf_registry (registry_init initial)"
  by (simp add: wf_registry_def registry_init_def comp_def case_prod_beta)

lemma wf_registry_bind:
  assumes "wf_registry r" "registry_bind k v owner replace r = Ret r'" shows "wf_registry r'"
  using assms pd.distinct_put [of "sr_values r" k v]
  by (auto simp: wf_registry_def registry_bind_def pd.keys_put split: if_splits)

lemma wf_registry_bind_many:
  assumes "wf_registry r" shows "wf_registry (registry_bind_many k v owner r)"
  using assms pd.distinct_put [of "sr_multi r" k]
  by (auto simp: wf_registry_def registry_bind_many_def set_update_distinct)

lemma wf_registry_unbind:
  assumes "wf_registry r" "registry_unbind k owner r = Ret r'" shows "wf_registry r'"
  using assms pd.distinct_drop [of "sr_values r" k]
  by (auto simp: wf_registry_def registry_unbind_def pd.keys_drop split: option.splits if_splits)

lemma wf_registry_remove_owner:
  assumes "wf_registry r" shows "wf_registry (registry_remove_owner owner r)"
proof -
  have keys: "map fst (filter (\<lambda>(k, _). P k) d) = filter P (map fst d)" for P and d :: "(string \<times> 'x) list"
    by (induction d) auto
  have "distinct (map fst (filter (\<lambda>(_, l). l \<noteq> []) (map (\<lambda>(k, l). (k, filter (\<lambda>(o', _). o' \<noteq> owner) l)) (sr_multi r))))"
    using assms by (auto simp: wf_registry_def distinct_map_filter comp_def case_prod_beta)
  then show ?thesis
    using assms by (auto simp: wf_registry_def registry_remove_owner_def Let_def keys)
qed

lemma registry_all_remove_owner:
  assumes "wf_registry r"
  shows "registry_all k (registry_remove_owner owner r) =
    (if registry_owner k r = Some owner then [] else (case map_of (sr_values r) k of None \<Rightarrow> [] | Some v \<Rightarrow> [v]))
    @ map snd (filter (\<lambda>(o', _). o' \<noteq> owner) (case map_of (sr_multi r) k of None \<Rightarrow> [] | Some l \<Rightarrow> l))"
proof -
  have "distinct (map fst (sr_owners r))"
    using assms by (simp add: wf_registry_def)
  note gone = owner_gone [OF this, of k owner]
  have "distinct (map fst (map (\<lambda>(k, l). (k, filter (\<lambda>(o', _). o' \<noteq> owner) l)) (sr_multi r)))"
    using assms by (simp add: wf_registry_def comp_def case_prod_beta)
  note multi = map_of_filter_values [OF this, of "\<lambda>l. l \<noteq> []" k]
  show ?thesis
    using gone by (simp add: registry_all_def registry_remove_owner_def Let_def map_of_filter_keys multi
        map_of_map_value split: option.split)
qed

text \<open>The bindings a module makes while it starts, as \<^verbatim>\<open>Runtime._prepare_graph\<close> makes them.\<close>

fun module_bindings ::
  "string \<Rightarrow> ((string \<times> 'v) + (string \<times> 'v)) list \<Rightarrow> 'v service_registry \<Rightarrow> 'v service_registry res" where
  "module_bindings owner [] r = Ret r"
| "module_bindings owner (Inl (k, v) # bs) r =
     bind_res (registry_bind k v owner False r) (module_bindings owner bs)"
| "module_bindings owner (Inr (k, v) # bs) r = module_bindings owner bs (registry_bind_many k v owner r)"

lemma registry_all_remove_bind:
  assumes "wf_registry r" "registry_bind k v owner False r = Ret r'"
  shows "registry_all k' (registry_remove_owner owner r') = registry_all k' (registry_remove_owner owner r)"
proof -
  have new: "map_of (sr_values r) k = None" and r': "r' = r\<lparr>sr_values := AList.update k v (sr_values r),
      sr_owners := AList.update k owner (sr_owners r)\<rparr>"
    using assms(2) by (auto simp: registry_bind_def split: if_splits)
  show ?thesis
    unfolding registry_all_remove_owner [OF assms(1)]
      registry_all_remove_owner [OF wf_registry_bind [OF assms]]
    using new by (auto simp: r' registry_owner_def pd.lookup_put)
qed

lemma registry_all_remove_bind_many:
  assumes "wf_registry r"
  shows "registry_all k' (registry_remove_owner owner (registry_bind_many k v owner r))
    = registry_all k' (registry_remove_owner owner r)"
  unfolding registry_all_remove_owner [OF assms]
    registry_all_remove_owner [OF wf_registry_bind_many [OF assms]]
  by (auto simp: registry_bind_many_def registry_owner_def pd.lookup_put split: option.split)

section \<open>What resolution establishes\<close>

lemma select_modules_Ret:
  "select_modules is cat = Ret sel \<Longrightarrow> map fst sel = is \<and> (\<forall>(i, d) \<in> set sel. map_of cat i = Some d)"
  by (induction "is" arbitrary: sel) (auto simp: bind_res_Inr catalog_get_def split: option.splits)

lemma dependency_graph_Ret:
  "dependency_graph services sel profile rest = Ret g \<Longrightarrow>
    map fst g = map fst rest \<and> (\<forall>(i, d) \<in> set rest. \<exists>config ps. map_of (rp_modules profile) i = Some config
      \<and> module_dependencies services sel config i d = Ret ps \<and> (i, ps) \<in> set g)
    \<and> (\<forall>(i, ps) \<in> set g. \<exists>d config. (i, d) \<in> set rest \<and> map_of (rp_modules profile) i = Some config
      \<and> module_dependencies services sel config i d = Ret ps)"
proof (induction rest arbitrary: g)
  case (Cons e rest)
  obtain i d where e: "e = (i, d)" by (cases e)
  obtain config ps g' where *: "map_of (rp_modules profile) i = Some config"
    "module_dependencies services sel config i d = Ret ps"
    "dependency_graph services sel profile rest = Ret g'" "g = (i, ps) # g'"
    using Cons.prems by (auto simp: e bind_res_Inr split: option.splits)
  from Cons.IH [OF *(3)] *(1,2) show ?case
    by (simp add: e *(4)) blast
qed simp

lemma module_dependencies_Ret:
  assumes "module_dependencies services sel config i d = Ret ps"
  shows "set (md_requires_modules d) \<subseteq> set ps" "set (md_requires_modules d) \<subseteq> set (map fst sel)"
    "set (mc_surfaces config) \<subseteq> set (md_supported_surfaces d)" "md_validate d config = None" "distinct ps"
    "\<forall>k \<in> set (md_required_services_for d config). registry_has k services
      \<or> (\<exists>p. providers_of sel k = [p] \<and> (p = i \<or> p \<in> set ps))"
    "\<forall>p \<in> set ps. p \<in> set (md_requires_modules d) \<or> (\<exists>k. p \<in> set (providers_of sel k))"
proof -
  have one: "length xs = Suc 0 \<longleftrightarrow> (\<exists>x. xs = [x])" for xs :: "string list"
    by (auto simp: length_Suc_conv)
  define open_keys where "open_keys = filter (\<lambda>k. \<not> registry_has k services) (md_required_services_for d config)"
  have g: "\<forall>m \<in> set (md_requires_modules d). m \<in> set (map fst sel)"
    "\<forall>s \<in> set (mc_surfaces config). s \<in> set (md_supported_surfaces d)"
    "md_validate d config = None"
    "\<forall>k \<in> set open_keys. \<exists>p. providers_of sel k = [p]"
    and ps: "ps = dedup (md_requires_modules d
        @ filter (\<lambda>p. p \<noteq> i) (map (\<lambda>k. hd (providers_of sel k)) open_keys))"
    using assms by (auto simp: module_dependencies_def Let_def one open_keys_def split: if_splits option.splits)
  show "set (md_requires_modules d) \<subseteq> set ps" "distinct ps"
    by (auto simp: ps)
  show "set (md_requires_modules d) \<subseteq> set (map fst sel)"
    "set (mc_surfaces config) \<subseteq> set (md_supported_surfaces d)"
    using g(1,2) by auto
  show "md_validate d config = None"
    by (rule g(3))
  show "\<forall>k \<in> set (md_required_services_for d config). registry_has k services
      \<or> (\<exists>p. providers_of sel k = [p] \<and> (p = i \<or> p \<in> set ps))"
  proof
    fix k assume k: "k \<in> set (md_required_services_for d config)"
    show "registry_has k services \<or> (\<exists>p. providers_of sel k = [p] \<and> (p = i \<or> p \<in> set ps))"
    proof (cases "k \<in> set open_keys")
      case True
      then obtain p where p: "providers_of sel k = [p]"
        using g(4) by blast
      then have "p = i \<or> p \<in> set ps"
        using True by (force simp: ps)
      with p show ?thesis by blast
    next
      case False
      with k show ?thesis by (simp add: open_keys_def)
    qed
  qed
  show "\<forall>p \<in> set ps. p \<in> set (md_requires_modules d) \<or> (\<exists>k. p \<in> set (providers_of sel k))"
  proof
    fix p assume "p \<in> set ps"
    then consider "p \<in> set (md_requires_modules d)"
      | k where "k \<in> set open_keys" "p = hd (providers_of sel k)"
      by (auto simp: ps)
    then show "p \<in> set (md_requires_modules d) \<or> (\<exists>k. p \<in> set (providers_of sel k))"
    proof cases
      case 2
      then have "p \<in> set (providers_of sel k)"
        using g(4) by force
      then show ?thesis by blast
    qed simp
  qed
qed

lemma providers_of_set: "p \<in> set (providers_of sel k) \<longleftrightarrow> (\<exists>d. (p, d) \<in> set sel \<and> k \<in> set (md_provided_services d))"
  by (auto simp: providers_of_def)

section \<open>Properties\<close>

lemma graph_nodes_deps:
  assumes "dependency_graph services sel profile sel = Ret g"
  shows "graph_nodes g = set (map fst sel)"
proof -
  have keys: "map fst g = map fst sel"
    using dependency_graph_Ret [OF assms] by simp
  have "p \<in> set (map fst sel)" if "(i, ps) \<in> set g" "p \<in> set ps" for i ps p
  proof -
    obtain d config where "module_dependencies services sel config i d = Ret ps"
      using dependency_graph_Ret [OF assms] \<open>(i, ps) \<in> set g\<close> by blast
    note m = module_dependencies_Ret [OF this]
    show ?thesis
      using m(2,7) \<open>p \<in> set ps\<close> by (force simp: providers_of_set)
  qed
  then have "(\<Union>(n, ps) \<in> set g. set ps) \<subseteq> set (map fst sel)"
    by blast
  moreover have "fst ` set g = set (map fst sel)"
    by (metis keys list.set_map)
  ultimately show ?thesis
    unfolding graph_nodes_def by blast
qed

lemma resolve_Ret:
  assumes "resolve cat profile services = Ret ds" "distinct (module_ids profile)"
  obtains sel g order where "select_modules (sort (module_ids profile)) cat = Ret sel"
    "dependency_graph services sel profile sel = Ret g" "static_order g = Some order"
    "ds = map (\<lambda>i. (i, the (map_of sel i))) order" "wf_graph g" "graph_nodes g = set (map fst sel)"
    "distinct (map fst sel)" "set (map fst sel) = set (module_ids profile)"
proof -
  obtain sel g order where *: "select_modules (sort (module_ids profile)) cat = Ret sel"
    "dependency_graph services sel profile sel = Ret g" "static_order g = Some order"
    "ds = map (\<lambda>i. (i, the (map_of sel i))) order"
    using assms(1) by (auto simp: resolve_def bind_res_Inr split: option.splits)
  have sel: "map fst sel = sort (module_ids profile)"
    using select_modules_Ret [OF *(1)] by simp
  have d: "distinct (map fst sel)" "set (map fst sel) = set (module_ids profile)"
    using assms(2) unfolding sel by simp_all
  have "wf_graph g"
    using dependency_graph_Ret [OF *(2)] d by (auto simp: wf_graph_def dest: module_dependencies_Ret(5))
  then show ?thesis
    using that [OF * _ graph_nodes_deps [OF *(2)] d] by blast
qed

text \<open>A service that needs a provider has a single one, which stands no later than its client.\<close>

lemma provider_placed:
  assumes prov: "providers_of sel k = [p]" "p = i \<or> p \<in> set ps" and ps: "set ps \<subseteq> set (map fst xs)"
    and sel: "set (xs @ (i, d) # ys) = set sel" "distinct (map fst sel)"
  shows "\<exists>p e. (p, e) \<in> set ((i, d) # xs) \<and> k \<in> set (md_provided_services e)
    \<and> (\<forall>(q, f) \<in> set sel. k \<in> set (md_provided_services f) \<longrightarrow> q = p)"
proof -
  obtain e where e: "(p, e) \<in> set sel" "k \<in> set (md_provided_services e)"
    using providers_of_set [of p sel k] prov(1) by auto
  have unique: "\<forall>(q, f) \<in> set sel. k \<in> set (md_provided_services f) \<longrightarrow> q = p"
    using providers_of_set [of _ sel k] prov(1) by auto
  have "p \<in> set (map fst ((i, d) # xs))"
    using ps prov(2) by auto
  then obtain e' where e': "(p, e') \<in> set ((i, d) # xs)"
    unfolding set_map by (elim imageE) (metis prod.collapse)
  then have "(p, e') \<in> set sel"
    unfolding sel(1) [symmetric] by auto
  then have "e' = e"
    by (rule eq_key_imp_eq_value [OF sel(2) _ e(1)])
  with e e' unique show ?thesis by blast
qed

text \<open>
  C8: A resolved profile is an activation order of exactly the configured modules: each is
  installed, accepts its configuration and supports every surface it is given, and stands after
  every module it requires; every service it needs is bound by the host, or provided by the module
  itself, or by exactly one selected module that stands before it.
\<close>

theorem resolve_sound:
  assumes res: "resolve cat profile services = Ret ds" and ids: "distinct (module_ids profile)"
  shows "distinct (map fst ds) \<and> set (map fst ds) = set (module_ids profile)
    \<and> (\<forall>xs i d ys. ds = xs @ (i, d) # ys \<longrightarrow>
        (\<exists>config. map_of cat i = Some d \<and> map_of (rp_modules profile) i = Some config
          \<and> md_validate d config = None
          \<and> set (mc_surfaces config) \<subseteq> set (md_supported_surfaces d)
          \<and> set (md_requires_modules d) \<subseteq> set (map fst xs)
          \<and> (\<forall>k \<in> set (md_required_services_for d config). registry_has k services
              \<or> (\<exists>p e. (p, e) \<in> set ((i, d) # xs) \<and> k \<in> set (md_provided_services e)
                  \<and> (\<forall>(q, f) \<in> set ds. k \<in> set (md_provided_services f) \<longrightarrow> q = p)))))"
proof -
  obtain sel g order where r: "select_modules (sort (module_ids profile)) cat = Ret sel"
    "dependency_graph services sel profile sel = Ret g" "static_order g = Some order"
    "ds = map (\<lambda>i. (i, the (map_of sel i))) order" "wf_graph g" "graph_nodes g = set (map fst sel)"
    "distinct (map fst sel)" "set (map fst sel) = set (module_ids profile)"
    by (rule resolve_Ret [OF res ids])
  note o = static_order_Some [OF r(5,3)]
  have ids_ds: "map fst ds = order"
    by (simp add: r(4) comp_def)
  have sel_iff: "(j, e) \<in> set sel \<longleftrightarrow> j \<in> set order \<and> e = the (map_of sel j)" for j e
    using r(6,7) o(2) by (force simp: map_of_eq_Some_iff)
  have set_ds: "set ds = set sel"
    using sel_iff by (auto simp: r(4))
  have "\<exists>config. map_of cat i = Some d \<and> map_of (rp_modules profile) i = Some config
          \<and> md_validate d config = None
          \<and> set (mc_surfaces config) \<subseteq> set (md_supported_surfaces d)
          \<and> set (md_requires_modules d) \<subseteq> set (map fst xs)
          \<and> (\<forall>k \<in> set (md_required_services_for d config). registry_has k services
              \<or> (\<exists>p e. (p, e) \<in> set ((i, d) # xs) \<and> k \<in> set (md_provided_services e)
                  \<and> (\<forall>(q, f) \<in> set ds. k \<in> set (md_provided_services f) \<longrightarrow> q = p)))"
    if split: "ds = xs @ (i, d) # ys" for xs i d ys
  proof -
    have id_in: "(i, d) \<in> set sel"
      using split by (simp flip: set_ds)
    obtain config ps where c: "map_of (rp_modules profile) i = Some config"
      "module_dependencies services sel config i d = Ret ps" "(i, ps) \<in> set g"
      using dependency_graph_Ret [OF r(2)] id_in by blast
    note m = module_dependencies_Ret [OF c(2)]
    have "preds_in g i = ps"
      using c(3) r(5) by (simp add: preds_in_def wf_graph_def)
    moreover have "order = map fst xs @ i # map fst ys"
      using split by (simp flip: ids_ds)
    ultimately have ps: "set ps \<subseteq> set (map fst xs)"
      using o(3) unfolding after_preds_def by blast
    note placed = provider_placed [OF _ _ ps set_ds [unfolded split] r(7), folded set_ds]
    have svc: "\<forall>k \<in> set (md_required_services_for d config). registry_has k services
        \<or> (\<exists>p e. (p, e) \<in> set ((i, d) # xs) \<and> k \<in> set (md_provided_services e)
            \<and> (\<forall>(q, f) \<in> set ds. k \<in> set (md_provided_services f) \<longrightarrow> q = p))"
      using m(6) placed by meson
    have "map_of cat i = Some d" using select_modules_Ret [OF r(1)] id_in by auto
    then show ?thesis
      by (intro exI [of _ config] conjI c(1) m(3,4) svc subset_trans [OF m(1) ps])
  qed
  with o(1,2) r(6,8) show ?thesis
    by (simp add: ids_ds)
qed

text \<open>
  C16: The dependency order is complete: when every configured module passes its own checks,
  resolution succeeds exactly when the dependencies among the modules have no cycle, and
  otherwise it raises \<^verbatim>\<open>ModuleResolutionError\<close>.
\<close>

theorem resolve_iff_acyclic:
  assumes sel: "select_modules (sort (module_ids profile)) cat = Ret sel"
    and graph: "dependency_graph services sel profile sel = Ret g"
    and ids: "distinct (module_ids profile)"
  shows "(\<exists>ds. resolve cat profile services = Ret ds) = acyclic (graph_edges g)
    \<and> (resolve cat profile services = Raise ModuleResolutionError) = (\<not> acyclic (graph_edges g))"
proof -
  have "map fst sel = sort (module_ids profile)"
    using select_modules_Ret [OF sel] by simp
  then have "distinct (map fst sel)"
    using ids by simp
  then have wf: "wf_graph g"
    using dependency_graph_Ret [OF graph] by (auto simp: wf_graph_def dest: module_dependencies_Ret(5))
  show ?thesis
    using static_order_iff_acyclic [OF wf] by (auto simp: resolve_def sel graph split: option.splits)
qed

text \<open>
  What a module binds while it starts is an overlay: removing the module's bindings again
  gives every lookup, single and multiple, the value it had before, so neither the host's nor
  another module's services are touched.
\<close>

theorem module_overlay_removed:
  assumes "module_bindings owner bs r = Ret r'" and "wf_registry r"
    and "\<And>k. registry_owner k r \<noteq> Some owner"
    and "\<forall>(k', l) \<in> set (sr_multi r). owner \<notin> fst ` set l"
  shows "registry_all k (registry_remove_owner owner r') = registry_all k r"
proof -
  have "registry_all k (registry_remove_owner owner r') = registry_all k (registry_remove_owner owner r)"
    using assms(1,2)
  proof (induction owner bs r arbitrary: r' rule: module_bindings.induct)
    case (2 owner k0 v bs r)
    then obtain r1 where r1: "registry_bind k0 v owner False r = Ret r1" "module_bindings owner bs r1 = Ret r'"
      by (auto simp: bind_res_Inr)
    have "registry_all k (registry_remove_owner owner r') = registry_all k (registry_remove_owner owner r1)"
      using 2(1) [OF r1(2) wf_registry_bind [OF \<open>wf_registry r\<close> r1(1)]] .
    then show ?case
      by (simp add: registry_all_remove_bind [OF \<open>wf_registry r\<close> r1(1)])
  next
    case (3 owner k0 v bs r)
    then show ?case
      using wf_registry_bind_many [OF \<open>wf_registry r\<close>]
      by (simp add: registry_all_remove_bind_many)
  qed simp
  also have "\<dots> = registry_all k r"
  proof -
    have "filter (\<lambda>(o', _). o' \<noteq> owner) (case map_of (sr_multi r) k of None \<Rightarrow> [] | Some l \<Rightarrow> l)
        = (case map_of (sr_multi r) k of None \<Rightarrow> [] | Some l \<Rightarrow> l)"
    proof (cases "map_of (sr_multi r) k")
      case (Some l)
      then have "owner \<notin> fst ` set l"
        using assms(4) map_of_SomeD [OF Some] by auto
      with Some show ?thesis
        by (force simp: filter_id_conv)
    qed simp
    then show ?thesis
      unfolding registry_all_remove_owner [OF assms(2)] by (simp add: assms(3) registry_all_def)
  qed
  finally show ?thesis .
qed

section \<open>Instances\<close>

definition ex_module :: "string \<Rightarrow> string list \<Rightarrow> string list \<Rightarrow> string list \<Rightarrow> module_descriptor" where
  "ex_module i requires provided needed =
     \<lparr>md_id = i, md_version = ''1.0'', md_api_version = Some ''1'', md_requires_modules = requires,
      md_provided_services = provided, md_supported_surfaces = [''service''],
      md_required_services_for = (\<lambda>_. needed), md_validate = (\<lambda>_. None)\<rparr>"

definition ex_catalog :: module_catalog where
  "ex_catalog = [(''scheduler'', ex_module ''scheduler'' [''sessions''] [] [''clock'']),
     (''clockwork'', ex_module ''clockwork'' [] [''clock''] []),
     (''sessions'', ex_module ''sessions'' [] [''sessions.admin''] [])]"

definition ex_profile :: runtime_profile where
  "ex_profile = \<lparr>rp_generation = 1, rp_modules = map (\<lambda>i. (i, \<lparr>mc_surfaces = [''service''], mc_options = []\<rparr>))
     [''scheduler'', ''clockwork'', ''sessions'']\<rparr>"

lemmas ex_module_defs = ex_catalog_def ex_module_def ex_profile_def module_ids_def

definition ex_graph :: "(string \<times> string list) list" where
  "ex_graph = [(''clockwork'', []), (''scheduler'', [''sessions'', ''clockwork'']), (''sessions'', [])]"

definition ex_selected :: "(string \<times> module_descriptor) list" where
  "ex_selected = [(''clockwork'', ex_module ''clockwork'' [] [''clock''] []),
     (''scheduler'', ex_module ''scheduler'' [''sessions''] [] [''clock'']),
     (''sessions'', ex_module ''sessions'' [] [''sessions.admin''] [])]"

lemma ex_ids: "sort (module_ids ex_profile) = [''clockwork'', ''scheduler'', ''sessions'']" "distinct (module_ids ex_profile)"
  by (simp_all add: ex_module_defs sort_key_def)

lemma ex_select: "select_modules (sort (module_ids ex_profile)) ex_catalog = Ret ex_selected"
  by (simp only: ex_ids) (simp add: catalog_get_def ex_module_defs ex_selected_def)

lemma ex_dependencies: "dependency_graph (registry_init [] :: nat service_registry) ex_selected ex_profile ex_selected = Ret ex_graph"
  by (simp add: ex_selected_def ex_module_def ex_profile_def ex_graph_def module_dependencies_def Let_def
      registry_has_def registry_init_def providers_of_def)

lemma ex_static_order: "static_order ex_graph = Some [''clockwork'', ''sessions'', ''scheduler'']"
  by code_simp

lemma ex_resolve:
  "resolve ex_catalog ex_profile (registry_init [] :: nat service_registry) = Ret
     [(''clockwork'', ex_module ''clockwork'' [] [''clock''] []),
      (''sessions'', ex_module ''sessions'' [] [''sessions.admin''] []),
      (''scheduler'', ex_module ''scheduler'' [''sessions''] [] [''clock''])]"
  by (simp add: resolve_def ex_select ex_dependencies ex_static_order) (simp add: ex_selected_def)

theorem resolve_sound_witness:
  "set (map fst [(''clockwork'', ex_module ''clockwork'' [] [''clock''] []),
      (''sessions'', ex_module ''sessions'' [] [''sessions.admin''] []),
      (''scheduler'', ex_module ''scheduler'' [''sessions''] [] [''clock''])])
    = set (module_ids ex_profile)"
  using resolve_sound [OF ex_resolve ex_ids(2)] by blast

theorem resolve_iff_acyclic_witness: "acyclic (graph_edges ex_graph)"
  using resolve_iff_acyclic [OF ex_select ex_dependencies ex_ids(2)] ex_resolve by simp

theorem module_overlay_removed_witness:
  "registry_all ''clock'' (registry_remove_owner ''clockwork''
      (registry_bind_many ''search.providers'' (2::int) ''clockwork'' (registry_init [(''clock'', 1)])))
    = registry_all ''clock'' (registry_init [(''clock'', 1::int)])"
proof -
  have b: "module_bindings ''clockwork'' [Inr (''search.providers'', 2)] (registry_init [(''clock'', 1::int)])
      = Ret (registry_bind_many ''search.providers'' 2 ''clockwork'' (registry_init [(''clock'', 1)]))"
    by simp
  show ?thesis
    by (rule module_overlay_removed [OF b])
      (auto simp: wf_registry_def registry_init_def registry_owner_def)
qed

end
