(* ===== verification/Capabilities.thy ===== *)
theory Capabilities
  imports Contracts
begin

text \<open>
  \<^verbatim>\<open>packages/runtime/src/openagent_core/capabilities.py\<close>: the catalog of registered tool
  sources and its single dispatcher.  A registration is a mutable object with an identity
  (\<^verbatim>\<open>self._sources.get(key) is registration\<close>), so the catalog keeps its objects in a heap
  indexed by numbers.  This theory holds the catalog's data and its synchronous operations, the
  step relation they generate, and the invariants of every reachable catalog; the operations that
  await something are in the theory \<open>Dispatch\<close>.
\<close>

section \<open>Presentation metadata\<close>

definition ui_resource_uri :: "json \<Rightarrow> json option" where
  "ui_resource_uri metadata =
     (case metadata of
        JObj _ \<Rightarrow>
          (case Option.bind (jget ''ui'' metadata) (jget ''resourceUri'') of
             Some v \<Rightarrow> if jtruthy v then Some v else jget ''ui/resourceUri'' metadata
           | None \<Rightarrow> jget ''ui/resourceUri'' metadata)
      | _ \<Rightarrow> None)"

text \<open>
  \<^verbatim>\<open>all(value in {"model", "app"} for value in visibility)\<close>: membership in a set hashes the
  value, which raises on a list or a dict.
\<close>

fun surfaces_known :: "json list \<Rightarrow> bool res" where
  "surfaces_known [] = Ret True"
| "surfaces_known (v # vs) =
     (case v of
        JStr s \<Rightarrow> if s = ''model'' \<or> s = ''app'' then surfaces_known vs else Ret False
      | JArr _ \<Rightarrow> Raise TypeError
      | JObj _ \<Rightarrow> Raise TypeError
      | _ \<Rightarrow> Ret False)"

definition tool_visible :: "json \<Rightarrow> string \<Rightarrow> bool res" where
  "tool_visible metadata surface =
     (case Option.bind (jget ''ui'' metadata) (jget ''visibility'') of
        None \<Rightarrow> Ret True
      | Some JNull \<Rightarrow> Ret True
      | Some (JArr vs) \<Rightarrow>
          if vs = [] then Ret False
          else bind_res (surfaces_known vs) (\<lambda>ok. Ret (ok \<and> JStr surface \<in> set vs))
      | Some _ \<Rightarrow> Ret False)"

section \<open>Definitions, registrations, the catalog\<close>

record tool_definition =
  td_name :: string
  td_description :: string
  td_input_schema :: json
  td_effects :: "string set"
  td_metadata :: json

record tool_descriptor =
  ds_tool_ref :: string
  ds_name :: string
  ds_description :: string
  ds_input_schema :: json
  ds_source_id :: string
  ds_target_label :: string
  ds_effects :: "string set"
  ds_metadata :: json

record tool_inventory_entry =
  iv_source_id :: string
  iv_name :: string
  iv_description :: string
  iv_input_schema :: json
  iv_target_label :: string
  iv_metadata :: json

datatype trusted_effects =
    TrustAll "string set"
  | TrustMap "(string \<times> string set) list"

text \<open>\<open>rg_source\<close> identifies the host's source and executor objects.\<close>

record registration =
  rg_source_id :: string
  rg_source :: nat
  rg_target_label :: string
  rg_managed :: bool
  rg_lease :: "capability_lease option"
  rg_trusted_effects :: trusted_effects
  rg_graph_generation :: "int option"
  rg_visible_from_revision :: int
  rg_revoked :: bool
  rg_result_provenance :: bool
  rg_invocation_provenance :: bool
  rg_references :: "(string \<times> (string \<times> tool_definition)) list"

record catalog =
  ct_allow_dynamic :: bool
  ct_observers :: nat
  ct_heap :: "(nat \<times> registration) list"
  ct_sources :: "((string \<times> int option) \<times> nat) list"
  ct_refs :: "(string \<times> (nat \<times> tool_definition)) list"
  ct_revision :: int
  ct_active_generation :: "int option"
  ct_next_object :: nat
  ct_next_token :: nat

definition catalog_empty :: "bool \<Rightarrow> nat \<Rightarrow> catalog" where
  "catalog_empty allow_dynamic observers =
     \<lparr>ct_allow_dynamic = allow_dynamic, ct_observers = observers, ct_heap = [], ct_sources = [], ct_refs = [],
      ct_revision = 0, ct_active_generation = None, ct_next_object = 0, ct_next_token = 0\<rparr>"

definition get_reg :: "catalog \<Rightarrow> nat \<Rightarrow> registration option" where
  "get_reg c r = map_of (ct_heap c) r"

definition put_reg :: "nat \<Rightarrow> registration \<Rightarrow> catalog \<Rightarrow> catalog" where
  "put_reg r g c = c\<lparr>ct_heap := AList.update r g (ct_heap c)\<rparr>"

definition next_revision :: "catalog \<Rightarrow> catalog" where
  "next_revision c = c\<lparr>ct_revision := ct_revision c + 1\<rparr>"

definition activate_generation :: "int option \<Rightarrow> catalog \<Rightarrow> catalog" where
  "activate_generation generation c = c\<lparr>ct_active_generation := generation\<rparr>"

text \<open>\<^verbatim>\<open>CapabilityCatalog._register\<close>; the draft carries the arguments.\<close>

definition register_source :: "registration \<Rightarrow> catalog \<Rightarrow> catalog res" where
  "register_source draft c =
     (let key = (rg_source_id draft, rg_graph_generation draft) in
      if rg_source_id draft = [] \<or> map_of (ct_sources c) key \<noteq> None then Raise ValueError
      else if (case rg_lease draft of None \<Rightarrow> False | Some l \<Rightarrow> ls_source_id l \<noteq> rg_source_id draft) then Raise ValueError
      else
        let c' = next_revision c;
            reg = draft\<lparr>rg_visible_from_revision := ct_revision c', rg_revoked := False, rg_references := []\<rparr>;
            r = ct_next_object c'
        in Ret ((put_reg r reg c')\<lparr>ct_sources := AList.update key r (ct_sources c'), ct_next_object := Suc r\<rparr>))"

definition register_managed :: "registration \<Rightarrow> catalog \<Rightarrow> catalog res" where
  "register_managed draft c = register_source (draft\<lparr>rg_managed := True\<rparr>) c"

definition user_draft :: "registration \<Rightarrow> registration" where
  "user_draft draft = draft\<lparr>rg_managed := False, rg_lease := None, rg_trusted_effects := TrustAll {},
     rg_result_provenance := False, rg_invocation_provenance := False\<rparr>"

definition register_user_source :: "registration \<Rightarrow> catalog \<Rightarrow> catalog res" where
  "register_user_source draft c =
     (if \<not> ct_allow_dynamic c then Raise PermissionError else register_source (user_draft draft) c)"

text \<open>
  The body of the revocation loops: the registration is marked, taken out of the sources, and its
  references are dropped.
\<close>

definition drop_registration :: "nat \<Rightarrow> catalog \<Rightarrow> catalog" where
  "drop_registration r c =
     (case get_reg c r of
        None \<Rightarrow> c
      | Some reg \<Rightarrow>
          (put_reg r (reg\<lparr>rg_revoked := True\<rparr>) c)
            \<lparr>ct_sources := AList.delete (rg_source_id reg, rg_graph_generation reg) (ct_sources c),
             ct_refs := filter (\<lambda>(t, _). t \<notin> set (map (\<lambda>(_, (t', _)). t') (rg_references reg))) (ct_refs c)\<rparr>)"

definition sources_where :: "(string \<Rightarrow> int option \<Rightarrow> registration \<Rightarrow> bool) \<Rightarrow> catalog \<Rightarrow> nat list" where
  "sources_where P c = map snd (filter (\<lambda>((s, g), r). case get_reg c r of None \<Rightarrow> False | Some reg \<Rightarrow> P s g reg) (ct_sources c))"

definition revoke :: "string \<Rightarrow> catalog \<Rightarrow> catalog" where
  "revoke source_id c =
     (let rs = sources_where (\<lambda>s _ _. s = source_id) c
      in fold drop_registration rs (if rs = [] then c else next_revision c))"

definition revoke_registration :: "string \<Rightarrow> int option \<Rightarrow> catalog \<Rightarrow> bool \<times> catalog" where
  "revoke_registration source_id generation c =
     (case map_of (ct_sources c) (source_id, generation) of
        None \<Rightarrow> (False, c)
      | Some r \<Rightarrow> (True, next_revision (drop_registration r c)))"

definition revoke_generation :: "int \<Rightarrow> catalog \<Rightarrow> catalog" where
  "revoke_generation generation c =
     (let rs = sources_where (\<lambda>_ g _. g = Some generation) c
      in fold drop_registration rs (if rs = [] then c else next_revision c))"

definition revoke_lease :: "capability_lease \<Rightarrow> catalog \<Rightarrow> bool \<times> catalog" where
  "revoke_lease lease c =
     (case sources_where (\<lambda>s _ reg. s = ls_source_id lease \<and> rg_lease reg = Some lease) c of
        [r] \<Rightarrow> (True, next_revision (drop_registration r c))
      | _ \<Rightarrow> (False, c))"

section \<open>Availability\<close>

text \<open>
  The context variables of the running task: the bound runtime's catalog is this one
  (\<open>sc_bound\<close>), and the generation, the revision and the run it was admitted with.
\<close>

record scope =
  sc_bound :: bool
  sc_generation :: "int option"
  sc_revision :: "int option"
  sc_run_id :: "string option"
  sc_provider_call :: "string option"

definition execution_snapshot :: "scope \<Rightarrow> catalog \<Rightarrow> int option \<times> int" where
  "execution_snapshot sc c =
     (if sc_bound sc
      then (case sc_generation sc of None \<Rightarrow> ct_active_generation c | Some g \<Rightarrow> Some g,
            case sc_revision sc of None \<Rightarrow> ct_revision c | Some v \<Rightarrow> v)
      else (ct_active_generation c, ct_revision c))"

definition available :: "scope \<Rightarrow> execution_context \<Rightarrow> catalog \<Rightarrow> nat \<Rightarrow> bool" where
  "available sc cx c r =
     (case get_reg c r of
        None \<Rightarrow> False
      | Some reg \<Rightarrow>
          let (generation, revision) = execution_snapshot sc c in
          \<not> rg_revoked reg
          \<and> map_of (ct_sources c) (rg_source_id reg, rg_graph_generation reg) = Some r
          \<and> rg_visible_from_revision reg \<le> revision
          \<and> (rg_graph_generation reg = None \<or> rg_graph_generation reg = generation)
          \<and> (case rg_lease reg of None \<Rightarrow> True
             | Some l \<Rightarrow> \<not> cx_deferred cx \<and> l \<in> set (cx_capabilities cx)))"

definition registrations_for_context :: "scope \<Rightarrow> execution_context \<Rightarrow> catalog \<Rightarrow> nat list" where
  "registrations_for_context sc cx c = filter (available sc cx c) (map snd (ct_sources c))"

definition has_source :: "string \<Rightarrow> scope \<Rightarrow> execution_context \<Rightarrow> catalog \<Rightarrow> bool" where
  "has_source source_id sc cx c \<longleftrightarrow>
     (\<exists>r \<in> set (registrations_for_context sc cx c). map_option rg_source_id (get_reg c r) = Some source_id)"

section \<open>Opaque references\<close>

text \<open>
  The part of \<^verbatim>\<open>discover\<close> and of \<^verbatim>\<open>call_source_tool\<close> that finds or mints the reference of
  a definition; \<open>token n\<close> is the \<open>n\<close>-th result of \<^verbatim>\<open>secrets.token_urlsafe\<close>.
\<close>

definition mint_reference ::
  "(nat \<Rightarrow> string) \<Rightarrow> nat \<Rightarrow> registration \<Rightarrow> string \<Rightarrow> tool_definition \<Rightarrow> catalog \<Rightarrow> string \<times> catalog" where
  "mint_reference token r reg key d c =
     (let t = token (ct_next_token c) in
      (t, (put_reg r (reg\<lparr>rg_references := AList.update key (t, d) (rg_references reg)\<rparr>) c)
            \<lparr>ct_refs := AList.update t (r, d) (ct_refs c), ct_next_token := Suc (ct_next_token c)\<rparr>))"

definition bind_reference ::
  "(nat \<Rightarrow> string) \<Rightarrow> nat \<Rightarrow> registration \<Rightarrow> string \<Rightarrow> tool_definition \<Rightarrow> catalog \<Rightarrow> string \<times> catalog" where
  "bind_reference token r reg key d c =
     (case map_of (rg_references reg) key of
        None \<Rightarrow> mint_reference token r reg key d c
      | Some (t, d') \<Rightarrow>
          if d' = d then (t, c)
          else mint_reference token r reg key d (c\<lparr>ct_refs := AList.delete t (ct_refs c)\<rparr>))"

section \<open>The catalogs a host can reach\<close>

text \<open>The synchronous operations, as the steps of one object shared by all tasks.\<close>

inductive catalog_step :: "(nat \<Rightarrow> string) \<Rightarrow> catalog \<Rightarrow> catalog \<Rightarrow> bool" for token where
  step_managed: "register_managed draft c = Ret c' \<Longrightarrow> catalog_step token c c'"
| step_user: "register_source (user_draft draft) c = Ret c' \<Longrightarrow> catalog_step token c c'"
| step_revoke: "catalog_step token c (revoke source_id c)"
| step_revoke_registration: "catalog_step token c (snd (revoke_registration source_id generation c))"
| step_revoke_generation: "catalog_step token c (revoke_generation n c)"
| step_revoke_lease: "catalog_step token c (snd (revoke_lease lease c))"
| step_activate: "catalog_step token c (activate_generation generation c)"
| step_bind: "get_reg c r = Some reg \<Longrightarrow> \<not> rg_revoked reg \<Longrightarrow>
    catalog_step token c (snd (bind_reference token r reg key d c))"
| step_token: "catalog_step token c (c\<lparr>ct_next_token := Suc (ct_next_token c)\<rparr>)"

definition live :: "catalog \<Rightarrow> nat \<Rightarrow> bool" where
  "live c r \<longleftrightarrow> (case get_reg c r of None \<Rightarrow> False | Some reg \<Rightarrow> \<not> rg_revoked reg)"

definition reg_key :: "registration \<Rightarrow> string \<times> int option" where
  "reg_key reg = (rg_source_id reg, rg_graph_generation reg)"

text \<open>
  What a registration promises by itself: a lease names its own source, and a source of a user
  has no lease, no trusted effect and no provenance hook.
\<close>

definition wf_registration :: "registration \<Rightarrow> bool" where
  "wf_registration reg \<longleftrightarrow>
     rg_source_id reg \<noteq> [] \<and> distinct (map fst (rg_references reg))
     \<and> (\<forall>l. rg_lease reg = Some l \<longrightarrow> ls_source_id l = rg_source_id reg)
     \<and> (\<not> rg_managed reg \<longrightarrow> rg_lease reg = None \<and> rg_trusted_effects reg = TrustAll {}
          \<and> \<not> rg_result_provenance reg \<and> \<not> rg_invocation_provenance reg)"

text \<open>The objects of the heap and the index of sources agree.\<close>

definition wf_sources :: "catalog \<Rightarrow> bool" where
  "wf_sources c \<longleftrightarrow>
     distinct (map fst (ct_sources c))
     \<and> (\<forall>r reg. get_reg c r = Some reg \<longrightarrow> r < ct_next_object c \<and> wf_registration reg
          \<and> rg_visible_from_revision reg \<le> ct_revision c)
     \<and> (\<forall>k r. map_of (ct_sources c) k = Some r \<longleftrightarrow>
          (\<exists>reg. get_reg c r = Some reg \<and> \<not> rg_revoked reg \<and> reg_key reg = k))"

text \<open>
  A reference is in the index exactly when a live registration holds it, a token belongs to one
  registration and one key of it, and every token was minted.
\<close>

definition wf_refs :: "(nat \<Rightarrow> string) \<Rightarrow> catalog \<Rightarrow> bool" where
  "wf_refs token c \<longleftrightarrow>
     distinct (map fst (ct_refs c))
     \<and> (\<forall>t r d. map_of (ct_refs c) t = Some (r, d) \<longleftrightarrow>
          (\<exists>reg key. get_reg c r = Some reg \<and> \<not> rg_revoked reg \<and> map_of (rg_references reg) key = Some (t, d)))
     \<and> (\<forall>r reg k k' t d d'. get_reg c r = Some reg \<and> \<not> rg_revoked reg \<and> map_of (rg_references reg) k = Some (t, d)
          \<and> map_of (rg_references reg) k' = Some (t, d') \<longrightarrow> k = k')
     \<and> (\<forall>t v. map_of (ct_refs c) t = Some v \<longrightarrow> (\<exists>n < ct_next_token c. t = token n))"

definition wf_catalog :: "(nat \<Rightarrow> string) \<Rightarrow> catalog \<Rightarrow> bool" where
  "wf_catalog token c \<longleftrightarrow> wf_sources c \<and> wf_refs token c"

lemma get_reg_simps [simp]:
  "get_reg (put_reg r reg c) r' = (if r' = r then Some reg else get_reg c r')"
  "get_reg (next_revision c) r' = get_reg c r'"
  "get_reg (activate_generation g c) r' = get_reg c r'"
  "get_reg (c\<lparr>ct_sources := a\<rparr>) r' = get_reg c r'"
  "get_reg (c\<lparr>ct_refs := b\<rparr>) r' = get_reg c r'"
  "get_reg (c\<lparr>ct_next_object := n\<rparr>) r' = get_reg c r'"
  "get_reg (c\<lparr>ct_next_token := n\<rparr>) r' = get_reg c r'"
  by (simp_all add: get_reg_def put_reg_def next_revision_def activate_generation_def pd.lookup_put)

lemma put_reg_simps [simp]:
  "ct_sources (put_reg r reg c) = ct_sources c"
  "ct_refs (put_reg r reg c) = ct_refs c"
  "ct_revision (put_reg r reg c) = ct_revision c"
  "ct_next_object (put_reg r reg c) = ct_next_object c"
  "ct_next_token (put_reg r reg c) = ct_next_token c"
  "ct_sources (next_revision c) = ct_sources c"
  "ct_refs (next_revision c) = ct_refs c"
  "ct_revision (next_revision c) = ct_revision c + 1"
  "ct_next_object (next_revision c) = ct_next_object c"
  "ct_next_token (next_revision c) = ct_next_token c"
  "ct_sources (activate_generation g c) = ct_sources c"
  "ct_refs (activate_generation g c) = ct_refs c"
  "ct_revision (activate_generation g c) = ct_revision c"
  "ct_next_object (activate_generation g c) = ct_next_object c"
  "ct_next_token (activate_generation g c) = ct_next_token c"
  by (simp_all add: put_reg_def next_revision_def activate_generation_def)

lemma wf_sourcesI:
  assumes "distinct (map fst (ct_sources c))"
    and "\<And>r reg. get_reg c r = Some reg \<Longrightarrow> r < ct_next_object c"
    and "\<And>r reg. get_reg c r = Some reg \<Longrightarrow> wf_registration reg"
    and "\<And>r reg. get_reg c r = Some reg \<Longrightarrow> rg_visible_from_revision reg \<le> ct_revision c"
    and "\<And>k r reg. get_reg c r = Some reg \<Longrightarrow> \<not> rg_revoked reg \<Longrightarrow> map_of (ct_sources c) (reg_key reg) = Some r"
    and "\<And>k r. map_of (ct_sources c) k = Some r \<Longrightarrow> \<exists>reg. get_reg c r = Some reg \<and> \<not> rg_revoked reg \<and> reg_key reg = k"
  shows "wf_sources c"
  unfolding wf_sources_def using assms by (intro conjI allI impI iffI) blast+

lemma wf_sourcesD:
  assumes "wf_sources c"
  shows "distinct (map fst (ct_sources c))"
    and "get_reg c r = Some reg \<Longrightarrow> r < ct_next_object c"
    and "get_reg c r = Some reg \<Longrightarrow> wf_registration reg"
    and "get_reg c r = Some reg \<Longrightarrow> rg_visible_from_revision reg \<le> ct_revision c"
    and "get_reg c r = Some reg \<Longrightarrow> \<not> rg_revoked reg \<Longrightarrow> map_of (ct_sources c) (reg_key reg) = Some r"
    and "map_of (ct_sources c) k = Some r \<Longrightarrow> \<exists>reg. get_reg c r = Some reg \<and> \<not> rg_revoked reg \<and> reg_key reg = k"
  using assms unfolding wf_sources_def by blast+

lemma wf_refsI:
  assumes "distinct (map fst (ct_refs c))"
    and "\<And>t r d. map_of (ct_refs c) t = Some (r, d) \<Longrightarrow>
      \<exists>reg key. get_reg c r = Some reg \<and> \<not> rg_revoked reg \<and> map_of (rg_references reg) key = Some (t, d)"
    and "\<And>r reg key t d. get_reg c r = Some reg \<Longrightarrow> \<not> rg_revoked reg \<Longrightarrow> map_of (rg_references reg) key = Some (t, d) \<Longrightarrow>
      map_of (ct_refs c) t = Some (r, d)"
    and "\<And>r reg k k' t d d'. get_reg c r = Some reg \<Longrightarrow> \<not> rg_revoked reg \<Longrightarrow> map_of (rg_references reg) k = Some (t, d) \<Longrightarrow>
      map_of (rg_references reg) k' = Some (t, d') \<Longrightarrow> k = k'"
    and "\<And>t v. map_of (ct_refs c) t = Some v \<Longrightarrow> \<exists>n < ct_next_token c. t = token n"
  shows "wf_refs token c"
  unfolding wf_refs_def
proof (intro conjI allI impI iffI)
  show "distinct (map fst (ct_refs c))" by fact
qed (use assms in blast)+

lemma wf_refsD:
  assumes "wf_refs token c"
  shows "distinct (map fst (ct_refs c))"
    and "map_of (ct_refs c) t = Some (r, d) \<Longrightarrow>
      \<exists>reg key. get_reg c r = Some reg \<and> \<not> rg_revoked reg \<and> map_of (rg_references reg) key = Some (t, d)"
    and "get_reg c r = Some reg \<Longrightarrow> \<not> rg_revoked reg \<Longrightarrow> map_of (rg_references reg) key = Some (t, d) \<Longrightarrow>
      map_of (ct_refs c) t = Some (r, d)"
    and "get_reg c r = Some reg \<Longrightarrow> \<not> rg_revoked reg \<Longrightarrow> map_of (rg_references reg) k = Some (t, d) \<Longrightarrow>
      map_of (rg_references reg) k' = Some (t, d') \<Longrightarrow> k = k'"
    and "map_of (ct_refs c) t = Some v \<Longrightarrow> \<exists>n < ct_next_token c. t = token n"
  using assms unfolding wf_refs_def by blast+

lemma wf_sources_cong:
  assumes "wf_sources c" "get_reg c' = get_reg c" "ct_sources c' = ct_sources c"
    and "ct_next_object c' = ct_next_object c" "ct_revision c \<le> ct_revision c'"
  shows "wf_sources c'"
proof (rule wf_sourcesI)
  fix r reg assume "get_reg c' r = Some reg"
  then have "rg_visible_from_revision reg \<le> ct_revision c"
    unfolding assms by (rule wf_sourcesD(4) [OF assms(1)])
  with assms(5) show "rg_visible_from_revision reg \<le> ct_revision c'" by simp
qed (use assms wf_sourcesD [OF assms(1)] in \<open>simp_all only:\<close>)

lemma wf_refs_cong:
  assumes "wf_refs token c" "get_reg c' = get_reg c" "ct_refs c' = ct_refs c"
    and "ct_next_token c \<le> ct_next_token c'"
  shows "wf_refs token c'"
proof (rule wf_refsI)
  fix t v assume "map_of (ct_refs c') t = Some v"
  then have "\<exists>n < ct_next_token c. t = token n"
    unfolding assms by (rule wf_refsD(5) [OF assms(1)])
  with assms(4) show "\<exists>n < ct_next_token c'. t = token n" by (auto intro: less_le_trans)
qed (use assms wf_refsD [OF assms(1)] in \<open>simp_all only:\<close>)

lemma wf_next_revision: "wf_catalog token c \<Longrightarrow> wf_catalog token (next_revision c)"
  by (auto simp: wf_catalog_def fun_eq_iff intro: wf_sources_cong wf_refs_cong)

lemma wf_activate: "wf_catalog token c \<Longrightarrow> wf_catalog token (activate_generation g c)"
  by (auto simp: wf_catalog_def fun_eq_iff intro: wf_sources_cong wf_refs_cong)

lemma wf_next_token: "wf_catalog token c \<Longrightarrow> wf_catalog token (c\<lparr>ct_next_token := Suc (ct_next_token c)\<rparr>)"
  by (auto simp: wf_catalog_def fun_eq_iff intro: wf_sources_cong wf_refs_cong)

lemma wf_catalog_empty: "wf_catalog token (catalog_empty allow observers)"
  by (simp add: wf_catalog_def wf_sources_def wf_refs_def catalog_empty_def get_reg_def)

text \<open>Dropping a live registration.\<close>

lemma live_iff: "live c r \<longleftrightarrow> (\<exists>reg. get_reg c r = Some reg \<and> \<not> rg_revoked reg)"
  by (auto simp: live_def split: option.splits)

lemma drop_registration_get:
  "get_reg c r = Some reg \<Longrightarrow> get_reg (drop_registration r c) r' =
     (if r' = r then Some (reg\<lparr>rg_revoked := True\<rparr>) else get_reg c r')"
  by (simp add: drop_registration_def)

lemma drop_registration_counters [simp]:
  "ct_revision (drop_registration r c) = ct_revision c"
  "ct_next_object (drop_registration r c) = ct_next_object c"
  "ct_next_token (drop_registration r c) = ct_next_token c"
  by (simp_all add: drop_registration_def split: option.split)

lemma live_drop: "live (drop_registration r c) r' \<longleftrightarrow> r' \<noteq> r \<and> live c r'"
proof (cases "get_reg c r")
  case None
  then show ?thesis by (auto simp: live_def drop_registration_def)
next
  case (Some reg)
  then show ?thesis by (auto simp: live_def drop_registration_get)
qed

lemma wf_registration_revoked [simp]:
  "wf_registration (reg\<lparr>rg_revoked := b\<rparr>) = wf_registration reg"
  "wf_registration reg \<Longrightarrow> wf_registration (reg\<lparr>rg_references := AList.update k v (rg_references reg)\<rparr>)"
  "reg_key (reg\<lparr>rg_revoked := b\<rparr>) = reg_key reg"
  "reg_key (reg\<lparr>rg_references := x\<rparr>) = reg_key reg"
  by (simp_all add: wf_registration_def reg_key_def distinct_update)

lemma filter_key_eq_value:
  assumes "distinct (map fst d)" "map_of d k = Some v" "\<forall>k'. map_of d k' = Some v \<longrightarrow> k' = k"
  shows "AList.delete k d = filter (\<lambda>p. snd p \<noteq> v) d"
  unfolding AList.delete_eq
proof (rule filter_cong [OF refl])
  fix p assume p: "p \<in> set d"
  obtain k' v' where kv: "p = (k', v')" by (cases p)
  have lookup: "map_of d k' = Some v'"
    using p assms(1) by (simp add: kv)
  have "k' = k \<longleftrightarrow> v' = v"
  proof
    assume "k' = k"
    with lookup assms(2) show "v' = v" by simp
  next
    assume "v' = v"
    with lookup assms(3) show "k' = k" by blast
  qed
  then show "(case p of (k', _) \<Rightarrow> k \<noteq> k') = (snd p \<noteq> v)"
    by (auto simp: kv)
qed

lemma drop_registration_sources:
  assumes "wf_sources c" "live c r"
  shows "ct_sources (drop_registration r c) = filter (\<lambda>p. snd p \<noteq> r) (ct_sources c)"
proof -
  obtain reg where reg: "get_reg c r = Some reg" "\<not> rg_revoked reg"
    using assms(2) by (auto simp: live_iff)
  have "AList.delete (reg_key reg) (ct_sources c) = filter (\<lambda>p. snd p \<noteq> r) (ct_sources c)"
  proof (rule filter_key_eq_value)
    show "distinct (map fst (ct_sources c))" by (rule wf_sourcesD(1) [OF assms(1)])
    show "map_of (ct_sources c) (reg_key reg) = Some r" by (rule wf_sourcesD(5) [OF assms(1) reg])
    show "\<forall>k'. map_of (ct_sources c) k' = Some r \<longrightarrow> k' = reg_key reg"
    proof (intro allI impI)
      fix k' assume "map_of (ct_sources c) k' = Some r"
      then obtain reg' where "get_reg c r = Some reg'" "reg_key reg' = k'"
        using wf_sourcesD(6) [OF assms(1)] by blast
      with reg(1) show "k' = reg_key reg" by simp
    qed
  qed
  with reg show ?thesis
    by (simp add: drop_registration_def reg_key_def)
qed

lemma drop_registration_refs:
  assumes "wf_refs token c" "live c r" "wf_sources c"
  shows "ct_refs (drop_registration r c) = filter (\<lambda>p. fst (snd p) \<noteq> r) (ct_refs c)"
proof -
  obtain reg where reg: "get_reg c r = Some reg" "\<not> rg_revoked reg"
    using assms(2) by (auto simp: live_iff)
  have "filter (\<lambda>(t, _). t \<notin> set (map (\<lambda>(_, (t', _)). t') (rg_references reg))) (ct_refs c)
    = filter (\<lambda>p. fst (snd p) \<noteq> r) (ct_refs c)"
  proof (rule filter_cong [OF refl])
    fix p assume p: "p \<in> set (ct_refs c)"
    obtain t r' d where p': "p = (t, r', d)" by (cases p) auto
    then have t: "map_of (ct_refs c) t = Some (r', d)"
      using p wf_refsD(1) [OF assms(1)] by simp
    have "t \<in> set (map (\<lambda>(_, (t', _)). t') (rg_references reg)) \<longleftrightarrow> r' = r"
    proof
      assume "t \<in> set (map (\<lambda>(_, (t', _)). t') (rg_references reg))"
      then obtain k d' where "(k, t, d') \<in> set (rg_references reg)" by auto
      then have "map_of (rg_references reg) k = Some (t, d')"
        using wf_sourcesD(3) [OF assms(3) reg(1)] by (simp add: wf_registration_def)
      then have "map_of (ct_refs c) t = Some (r, d')"
        by (rule wf_refsD(3) [OF assms(1) reg])
      with t show "r' = r" by simp
    next
      assume "r' = r"
      with wf_refsD(2) [OF assms(1) t] reg(1) obtain k where "map_of (rg_references reg) k = Some (t, d)"
        by auto
      then have "(k, t, d) \<in> set (rg_references reg)" by (rule map_of_SomeD)
      then show "t \<in> set (map (\<lambda>(_, (t', _)). t') (rg_references reg))" by force
    qed
    then show "(case p of (t, _) \<Rightarrow> t \<notin> set (map (\<lambda>(_, (t', _)). t') (rg_references reg))) = (fst (snd p) \<noteq> r)"
      by (simp add: p')
  qed
  with reg show ?thesis
    by (simp add: drop_registration_def)
qed

lemma map_of_filter_value:
  assumes "distinct (map fst d)"
  shows "map_of (filter (\<lambda>p. Q (snd p)) d) k = Some v \<longleftrightarrow> map_of d k = Some v \<and> Q v"
  using assms by (auto simp: distinct_map_filter)

lemma wf_drop:
  assumes "wf_catalog token c" "live c r"
  shows "wf_catalog token (drop_registration r c)"
proof -
  have wf: "wf_sources c" "wf_refs token c"
    using assms(1) by (simp_all add: wf_catalog_def)
  obtain reg where reg: "get_reg c r = Some reg" "\<not> rg_revoked reg"
    using assms(2) by (auto simp: live_iff)
  note get = drop_registration_get [OF reg(1)]
  note src = drop_registration_sources [OF wf(1) assms(2)]
  note refs = drop_registration_refs [OF wf(2) assms(2) wf(1)]
  have keep: "get_reg c r' = Some reg'" if "get_reg (drop_registration r c) r' = Some reg'" "\<not> rg_revoked reg'" for r' reg'
    using that by (simp add: get split: if_splits) auto
  have other: "r' \<noteq> r" if "get_reg (drop_registration r c) r' = Some reg'" "\<not> rg_revoked reg'" for r' reg'
    using that by (auto simp: get)
  have "wf_sources (drop_registration r c)"
  proof (rule wf_sourcesI)
    show "distinct (map fst (ct_sources (drop_registration r c)))"
      unfolding src by (rule distinct_map_filter) (rule wf_sourcesD(1) [OF wf(1)])
  next
    fix r' reg' assume g: "get_reg (drop_registration r c) r' = Some reg'"
    then obtain reg0 where "get_reg c r' = Some reg0" "reg' = reg0 \<or> reg' = reg0\<lparr>rg_revoked := True\<rparr>"
      using reg(1) by (cases "r' = r") (auto simp: get)
    then show "r' < ct_next_object (drop_registration r c)" "wf_registration reg'"
      "rg_visible_from_revision reg' \<le> ct_revision (drop_registration r c)"
      using wf_sourcesD(2-4) [OF wf(1), of r' reg0] by auto
    assume "\<not> rg_revoked reg'"
    then have "map_of (ct_sources c) (reg_key reg') = Some r'" "r' \<noteq> r"
      using wf_sourcesD(5) [OF wf(1) keep [OF g]] other [OF g] by simp_all
    then show "map_of (ct_sources (drop_registration r c)) (reg_key reg') = Some r'"
      unfolding src map_of_filter_value [OF wf_sourcesD(1) [OF wf(1)], of "\<lambda>v. v \<noteq> r"] by simp
  next
    fix k r' assume "map_of (ct_sources (drop_registration r c)) k = Some r'"
    then have "map_of (ct_sources c) k = Some r'" "r' \<noteq> r"
      unfolding src map_of_filter_value [OF wf_sourcesD(1) [OF wf(1)], of "\<lambda>v. v \<noteq> r"] by auto
    with wf_sourcesD(6) [OF wf(1)]
    show "\<exists>reg. get_reg (drop_registration r c) r' = Some reg \<and> \<not> rg_revoked reg \<and> reg_key reg = k"
      by (simp add: get)
  qed
  moreover have "wf_refs token (drop_registration r c)"
  proof (rule wf_refsI)
    show "distinct (map fst (ct_refs (drop_registration r c)))"
      unfolding refs by (rule distinct_map_filter) (rule wf_refsD(1) [OF wf(2)])
  next
    fix t r' d assume "map_of (ct_refs (drop_registration r c)) t = Some (r', d)"
    then have "map_of (ct_refs c) t = Some (r', d)" "r' \<noteq> r"
      unfolding refs map_of_filter_value [OF wf_refsD(1) [OF wf(2)], of "\<lambda>v. fst v \<noteq> r"] by auto
    with wf_refsD(2) [OF wf(2)]
    show "\<exists>reg key. get_reg (drop_registration r c) r' = Some reg \<and> \<not> rg_revoked reg \<and> map_of (rg_references reg) key = Some (t, d)"
      by (simp add: get)
  next
    fix r' reg' key t d
    assume "get_reg (drop_registration r c) r' = Some reg'" "\<not> rg_revoked reg'" "map_of (rg_references reg') key = Some (t, d)"
    with keep other wf_refsD(3) [OF wf(2)] have "map_of (ct_refs c) t = Some (r', d)" "r' \<noteq> r" by blast+
    then show "map_of (ct_refs (drop_registration r c)) t = Some (r', d)"
      unfolding refs map_of_filter_value [OF wf_refsD(1) [OF wf(2)], of "\<lambda>v. fst v \<noteq> r"] by simp
  next
    fix r' reg' k k' t d d'
    assume "get_reg (drop_registration r c) r' = Some reg'" "\<not> rg_revoked reg'"
      "map_of (rg_references reg') k = Some (t, d)" "map_of (rg_references reg') k' = Some (t, d')"
    with keep show "k = k'" by (metis wf_refsD(4) [OF wf(2)])
  next
    fix t v assume "map_of (ct_refs (drop_registration r c)) t = Some v"
    then have "map_of (ct_refs c) t = Some v"
      unfolding refs map_of_filter_value [OF wf_refsD(1) [OF wf(2)], of "\<lambda>v. fst v \<noteq> r"] by simp
    then show "\<exists>n < ct_next_token (drop_registration r c). t = token n"
      using wf_refsD(5) [OF wf(2)] by simp
  qed
  ultimately show ?thesis by (simp add: wf_catalog_def)
qed

text \<open>The revocation loops: exactly the chosen registrations go, with all their references.\<close>

lemma fold_drop:
  assumes "wf_catalog token c" "distinct rs" "\<forall>r \<in> set rs. live c r"
  shows "wf_catalog token (fold drop_registration rs c)
    \<and> ct_sources (fold drop_registration rs c) = filter (\<lambda>p. snd p \<notin> set rs) (ct_sources c)
    \<and> ct_refs (fold drop_registration rs c) = filter (\<lambda>p. fst (snd p) \<notin> set rs) (ct_refs c)
    \<and> ct_revision (fold drop_registration rs c) = ct_revision c"
  using assms
proof (induction rs arbitrary: c)
  case (Cons r rs)
  have wf: "wf_sources c" "wf_refs token c"
    using Cons.prems(1) by (simp_all add: wf_catalog_def)
  have r: "live c r" using Cons.prems by simp
  have "wf_catalog token (drop_registration r c)" by (rule wf_drop [OF Cons.prems(1) r])
  moreover have "distinct rs" "\<forall>r' \<in> set rs. live (drop_registration r c) r'"
    using Cons.prems by (auto simp: live_drop)
  ultimately show ?case
    using Cons.IH [of "drop_registration r c"]
    by (simp add: drop_registration_sources [OF wf(1) r] drop_registration_refs [OF wf(2) r wf(1)] conj_commute)
qed simp

lemma sources_where_live:
  assumes "wf_sources c"
  shows "distinct (sources_where P c)" "\<forall>r \<in> set (sources_where P c). live c r"
proof -
  have *: "live c r \<and> map_option reg_key (get_reg c r) = Some k" if "(k, r) \<in> set (ct_sources c)" for k r
  proof -
    have "map_of (ct_sources c) k = Some r" using that wf_sourcesD(1) [OF assms] by simp
    from wf_sourcesD(6) [OF assms this] show ?thesis by (auto simp: live_iff)
  qed
  then show "\<forall>r \<in> set (sources_where P c). live c r"
    by (auto simp: sources_where_def)
  have "inj_on snd (set (ct_sources c))"
  proof (rule inj_onI)
    fix p q assume "p \<in> set (ct_sources c)" "q \<in> set (ct_sources c)" "snd p = snd q"
    then have "Some (fst p) = Some (fst q)"
      using * [of "fst p" "snd p"] * [of "fst q" "snd q"] by (metis prod.collapse)
    with \<open>snd p = snd q\<close> show "p = q" by (simp add: prod_eq_iff)
  qed
  moreover have "distinct (ct_sources c)"
    using wf_sourcesD(1) [OF assms] by (simp add: distinct_map)
  ultimately have "distinct (map snd (ct_sources c))" by (simp add: distinct_map)
  then show "distinct (sources_where P c)"
    unfolding sources_where_def by (rule distinct_map_filter)
qed

text \<open>Registration and the minting of a reference.\<close>

lemma register_source_Ret:
  "register_source draft c = Ret c' \<longleftrightarrow>
     rg_source_id draft \<noteq> [] \<and> map_of (ct_sources c) (reg_key draft) = None
     \<and> (\<forall>l. rg_lease draft = Some l \<longrightarrow> ls_source_id l = rg_source_id draft)
     \<and> c' = (put_reg (ct_next_object c) (draft\<lparr>rg_visible_from_revision := ct_revision c + 1, rg_revoked := False,
              rg_references := []\<rparr>) (next_revision c))
            \<lparr>ct_sources := AList.update (reg_key draft) (ct_next_object c) (ct_sources c),
             ct_next_object := Suc (ct_next_object c)\<rparr>"
  by (auto simp: register_source_def reg_key_def Let_def split: option.splits)

lemma wf_register_source:
  assumes wf: "wf_catalog token c" and reg: "register_source draft c = Ret c'"
    and managed: "\<not> rg_managed draft \<Longrightarrow> rg_lease draft = None \<and> rg_trusted_effects draft = TrustAll {}
      \<and> \<not> rg_result_provenance draft \<and> \<not> rg_invocation_provenance draft"
  shows "wf_catalog token c'"
proof -
  define n where "n = ct_next_object c"
  define new where "new = draft\<lparr>rg_visible_from_revision := ct_revision c + 1, rg_revoked := False, rg_references := []\<rparr>"
  have wfs: "wf_sources c" and wfr: "wf_refs token c"
    using wf by (simp_all add: wf_catalog_def)
  have draft: "rg_source_id draft \<noteq> []" "map_of (ct_sources c) (reg_key draft) = None"
    "\<forall>l. rg_lease draft = Some l \<longrightarrow> ls_source_id l = rg_source_id draft"
    and c': "c' = (put_reg n new (next_revision c))
       \<lparr>ct_sources := AList.update (reg_key draft) n (ct_sources c), ct_next_object := Suc n\<rparr>"
    using reg by (simp_all add: register_source_Ret n_def new_def)
  have new: "wf_registration new" "\<not> rg_revoked new" "reg_key new = reg_key draft" "rg_references new = []"
    "rg_visible_from_revision new = ct_revision c'"
    using draft managed by (auto simp: wf_registration_def new_def reg_key_def c')
  have get: "get_reg c' r = (if r = n then Some new else get_reg c r)" for r
    by (simp add: c')
  have fresh: "get_reg c n = None"
    using wf_sourcesD(2) [OF wfs, of n] by (cases "get_reg c n") (auto simp: n_def)
  have src: "map_of (ct_sources c') k = (if k = reg_key draft then Some n else map_of (ct_sources c) k)" for k
    by (simp add: c' pd.lookup_put del: split_paired_All)
  have "wf_sources c'"
  proof (rule wf_sourcesI)
    show "distinct (map fst (ct_sources c'))"
      using pd.distinct_put [OF wf_sourcesD(1) [OF wfs]] by (simp add: c')
  next
    fix r reg' assume g: "get_reg c' r = Some reg'"
    consider "r = n" "reg' = new" | "r \<noteq> n" "get_reg c r = Some reg'"
      using g by (auto simp: get split: if_splits)
    note cases = this
    show "r < ct_next_object c'" "wf_registration reg'" "rg_visible_from_revision reg' \<le> ct_revision c'"
      using cases wf_sourcesD(2-4) [OF wfs, of r reg'] new(1,5) by (cases; simp add: c' n_def)+
    assume "\<not> rg_revoked reg'"
    with cases show "map_of (ct_sources c') (reg_key reg') = Some r"
    proof cases
      case 2
      with wf_sourcesD(5) [OF wfs] \<open>\<not> rg_revoked reg'\<close> have "map_of (ct_sources c) (reg_key reg') = Some r" by blast
      with draft(2) show ?thesis by (auto simp: src)
    qed (simp add: src new)
  next
    fix k r assume "map_of (ct_sources c') k = Some r"
    then consider "k = reg_key draft" "r = n" | "map_of (ct_sources c) k = Some r"
      unfolding src by (cases "k = reg_key draft") simp_all
    then show "\<exists>reg. get_reg c' r = Some reg \<and> \<not> rg_revoked reg \<and> reg_key reg = k"
    proof cases
      case 2
      with wf_sourcesD(6) [OF wfs] obtain reg' where "get_reg c r = Some reg'" "\<not> rg_revoked reg'" "reg_key reg' = k" by blast
      with fresh show ?thesis by (auto simp: get)
    qed (simp add: get new)
  qed
  moreover have "wf_refs token c'"
  proof (rule wf_refsI)
    show "distinct (map fst (ct_refs c'))" using wf_refsD(1) [OF wfr] by (simp add: c')
  next
    fix t r d assume "map_of (ct_refs c') t = Some (r, d)"
    then have "map_of (ct_refs c) t = Some (r, d)" by (simp add: c')
    then obtain reg' key where old: "get_reg c r = Some reg'" "\<not> rg_revoked reg'" "map_of (rg_references reg') key = Some (t, d)"
      using wf_refsD(2) [OF wfr] by blast
    then have "get_reg c' r = Some reg'" using fresh by (auto simp: get)
    with old show "\<exists>reg key. get_reg c' r = Some reg \<and> \<not> rg_revoked reg \<and> map_of (rg_references reg) key = Some (t, d)"
      by blast
  next
    fix r reg' key t d
    assume "get_reg c' r = Some reg'" "\<not> rg_revoked reg'" "map_of (rg_references reg') key = Some (t, d)"
    moreover from this have "r \<noteq> n" using new(4) by (auto simp: get)
    ultimately show "map_of (ct_refs c') t = Some (r, d)"
      using wf_refsD(3) [OF wfr, of r reg' key t d] by (simp add: get c')
  next
    fix r reg' k k' t d d'
    assume "get_reg c' r = Some reg'" "\<not> rg_revoked reg'"
      "map_of (rg_references reg') k = Some (t, d)" "map_of (rg_references reg') k' = Some (t, d')"
    moreover from this have "r \<noteq> n" using new(4) by (auto simp: get)
    ultimately show "k = k'" using wf_refsD(4) [OF wfr, of r reg' k t d k' d'] by (simp add: get)
  next
    fix t v assume "map_of (ct_refs c') t = Some v"
    then show "\<exists>m < ct_next_token c'. t = token m" using wf_refsD(5) [OF wfr] by (simp add: c')
  qed
  ultimately show ?thesis by (simp add: wf_catalog_def)
qed

lemma map_of_references_update:
  "map_of (rg_references (reg\<lparr>rg_references := AList.update key v (rg_references reg)\<rparr>)) k =
     (if k = key then Some v else map_of (rg_references reg) k)"
  by (simp add: pd.lookup_put)

lemma wf_mint:
  assumes inj: "inj token" and wf: "wf_catalog token c"
    and reg: "get_reg c r = Some reg" "\<not> rg_revoked reg"
    and c1: "c1 = (case map_of (rg_references reg) key of None \<Rightarrow> c
       | Some (t', _) \<Rightarrow> c\<lparr>ct_refs := AList.delete t' (ct_refs c)\<rparr>)"
  shows "wf_catalog token (snd (mint_reference token r reg key d c1))"
proof -
  define tn where "tn = token (ct_next_token c)"
  define new where "new = reg\<lparr>rg_references := AList.update key (tn, d) (rg_references reg)\<rparr>"
  define c' where "c' = snd (mint_reference token r reg key d c1)"
  have wfs: "wf_sources c" and wfr: "wf_refs token c"
    using wf by (simp_all add: wf_catalog_def)
  have c1_same: "get_reg c1 = get_reg c" "ct_next_token c1 = ct_next_token c" "ct_sources c1 = ct_sources c"
    "ct_next_object c1 = ct_next_object c" "ct_revision c1 = ct_revision c"
    by (auto simp: c1 fun_eq_iff split: option.split)
  have get: "get_reg c' r' = (if r' = r then Some new else get_reg c r')" for r'
    by (simp add: c'_def mint_reference_def Let_def new_def tn_def c1_same)
  have same: "ct_sources c' = ct_sources c" "ct_next_object c' = ct_next_object c" "ct_revision c' = ct_revision c"
    "ct_next_token c' = Suc (ct_next_token c)"
    by (simp_all add: c'_def mint_reference_def Let_def c1_same)
  have new: "\<not> rg_revoked new" "reg_key new = reg_key reg"
    "wf_registration new" "rg_visible_from_revision new = rg_visible_from_revision reg"
    using reg wf_sourcesD(3) [OF wfs reg(1)] by (simp_all add: new_def)
  have refs_new: "map_of (rg_references new) k = (if k = key then Some (tn, d) else map_of (rg_references reg) k)" for k
    unfolding new_def by (rule map_of_references_update)
  have lookup: "map_of (ct_refs c') t =
      (if t = tn then Some (r, d) else if map_option fst (map_of (rg_references reg) key) = Some t then None
       else map_of (ct_refs c) t)" for t
    by (auto simp: c'_def mint_reference_def Let_def c1_same pd.lookup_put tn_def c1 pd.lookup_drop split: option.split)
  have fresh: "map_of (ct_refs c) tn = None"
  proof (rule ccontr)
    assume "map_of (ct_refs c) tn \<noteq> None"
    then obtain m where "m < ct_next_token c" "tn = token m"
      using wf_refsD(5) [OF wfr] by blast
    with inj show False by (simp add: tn_def inj_eq)
  qed
  have "wf_sources c'"
  proof (rule wf_sourcesI)
    show "distinct (map fst (ct_sources c'))" using wf_sourcesD(1) [OF wfs] by (simp add: same)
  next
    fix r' reg' assume g: "get_reg c' r' = Some reg'"
    then obtain reg0 where g0: "get_reg c r' = Some reg0" "rg_revoked reg' = rg_revoked reg0" "reg_key reg' = reg_key reg0"
      "rg_visible_from_revision reg' = rg_visible_from_revision reg0" "wf_registration reg'"
      using reg new wf_sourcesD(3) [OF wfs] by (cases "r' = r") (auto simp: get)
    then show "r' < ct_next_object c'" "wf_registration reg'" "rg_visible_from_revision reg' \<le> ct_revision c'"
      using wf_sourcesD(2,4) [OF wfs g0(1)] by (simp_all add: same)
    assume "\<not> rg_revoked reg'"
    with g0 show "map_of (ct_sources c') (reg_key reg') = Some r'"
      using wf_sourcesD(5) [OF wfs g0(1)] by (simp add: same)
  next
    fix k r' assume "map_of (ct_sources c') k = Some r'"
    then obtain reg0 where "get_reg c r' = Some reg0" "\<not> rg_revoked reg0" "reg_key reg0 = k"
      using wf_sourcesD(6) [OF wfs] by (metis same(1))
    with new reg show "\<exists>reg. get_reg c' r' = Some reg \<and> \<not> rg_revoked reg \<and> reg_key reg = k"
      by (cases "r' = r") (simp_all add: get)
  qed
  moreover have "wf_refs token c'"
  proof (rule wf_refsI)
    show "distinct (map fst (ct_refs c'))"
      using wf_refsD(1) [OF wfr]
      by (auto simp: c'_def mint_reference_def Let_def c1 distinct_update distinct_delete split: option.split)
  next
    fix t r2 d2 assume t: "map_of (ct_refs c') t = Some (r2, d2)"
    show "\<exists>reg key. get_reg c' r2 = Some reg \<and> \<not> rg_revoked reg \<and> map_of (rg_references reg) key = Some (t, d2)"
    proof (cases "t = tn")
      case True
      with t new(1) show ?thesis by (auto simp: lookup get refs_new)
    next
      case False
      with t have "map_of (ct_refs c) t = Some (r2, d2)" and other: "map_option fst (map_of (rg_references reg) key) \<noteq> Some t"
        by (auto simp: lookup split: if_splits)
      then obtain reg2 k2 where r2: "get_reg c r2 = Some reg2" "\<not> rg_revoked reg2" "map_of (rg_references reg2) k2 = Some (t, d2)"
        using wf_refsD(2) [OF wfr] by blast
      show ?thesis
      proof (cases "r2 = r")
        case True
        with r2 reg other have "k2 \<noteq> key" "map_of (rg_references reg) k2 = Some (t, d2)" by auto
        with True new(1) show ?thesis by (auto simp: get refs_new)
      next
        case False
        with r2 show ?thesis by (auto simp: get)
      qed
    qed
  next
    fix r2 reg2 k2 t d2
    assume r2: "get_reg c' r2 = Some reg2" "\<not> rg_revoked reg2" and k2: "map_of (rg_references reg2) k2 = Some (t, d2)"
    show "map_of (ct_refs c') t = Some (r2, d2)"
    proof (cases "r2 = r \<and> k2 = key")
      case True
      then have "reg2 = new" using r2 by (simp add: get)
      with k2 True have "t = tn" "d2 = d" by (simp_all add: refs_new)
      with True show ?thesis by (simp add: lookup)
    next
      case False
      then obtain reg3 where r3: "get_reg c r2 = Some reg3" "\<not> rg_revoked reg3" and k3: "map_of (rg_references reg3) k2 = Some (t, d2)"
      proof (cases "r2 = r")
        case True
        then have "reg2 = new" using r2 by (simp add: get)
        with True False k2 have "map_of (rg_references reg) k2 = Some (t, d2)" by (simp add: refs_new)
        with True reg that show ?thesis by blast
      qed (use r2 k2 in \<open>simp add: get\<close>)
      have t: "map_of (ct_refs c) t = Some (r2, d2)" by (rule wf_refsD(3) [OF wfr r3 k3])
      have "map_option fst (map_of (rg_references reg) key) \<noteq> Some t"
      proof
        assume "map_option fst (map_of (rg_references reg) key) = Some t"
        then obtain d' where d': "map_of (rg_references reg) key = Some (t, d')" by auto
        with wf_refsD(3) [OF wfr reg] t have "r2 = r" by fastforce
        with r3 reg have "reg3 = reg" by simp
        with wf_refsD(4) [OF wfr reg _ d'] k3 have "k2 = key" by blast
        with \<open>r2 = r\<close> False show False by simp
      qed
      with t fresh show ?thesis by (auto simp: lookup)
    qed
  next
    fix r2 reg2 k k' t d1 d2
    assume r2: "get_reg c' r2 = Some reg2" "\<not> rg_revoked reg2"
      and k: "map_of (rg_references reg2) k = Some (t, d1)" "map_of (rg_references reg2) k' = Some (t, d2)"
    have old: "map_of (rg_references reg) k \<noteq> Some (tn, x)" for k x
      using wf_refsD(3) [OF wfr reg] fresh by fastforce
    show "k = k'"
    proof (cases "r2 = r")
      case True
      then have "reg2 = new" using r2 by (simp add: get)
      with k old show ?thesis
        using wf_refsD(4) [OF wfr reg] by (auto simp: refs_new split: if_splits)
    next
      case False
      with r2 have "get_reg c r2 = Some reg2" by (simp add: get)
      from wf_refsD(4) [OF wfr this r2(2) k] show ?thesis .
    qed
  next
    fix t v assume t: "map_of (ct_refs c') t = Some v"
    show "\<exists>m < ct_next_token c'. t = token m"
    proof (cases "t = tn")
      case True
      then show ?thesis by (auto simp: tn_def same)
    next
      case False
      with t have "map_of (ct_refs c) t = Some v" by (auto simp: lookup split: if_splits)
      from wf_refsD(5) [OF wfr this] show ?thesis by (auto simp: same intro: less_SucI)
    qed
  qed
  ultimately show ?thesis by (simp add: wf_catalog_def c'_def)
qed

lemma wf_bind_reference:
  assumes "inj token" "wf_catalog token c" "get_reg c r = Some reg" "\<not> rg_revoked reg"
  shows "wf_catalog token (snd (bind_reference token r reg key d c))"
  using assms(2) wf_mint [OF assms refl, of key d]
  by (auto simp: bind_reference_def split: option.split)

section \<open>What the operations do to a well-formed catalog\<close>

inductive_cases catalog_stepE: "catalog_step token c c'"

lemma wf_revoke_loop:
  assumes "wf_catalog token c" "c0 = c \<or> c0 = next_revision c"
  shows "wf_catalog token (fold drop_registration (sources_where P c) c0)
    \<and> ct_sources (fold drop_registration (sources_where P c) c0) = filter (\<lambda>p. snd p \<notin> set (sources_where P c)) (ct_sources c)
    \<and> ct_refs (fold drop_registration (sources_where P c) c0) = filter (\<lambda>p. fst (snd p) \<notin> set (sources_where P c)) (ct_refs c)
    \<and> ct_revision (fold drop_registration (sources_where P c) c0) = ct_revision c0"
proof -
  have wfs: "wf_sources c" using assms(1) by (simp add: wf_catalog_def)
  have "wf_catalog token c0" using assms by (auto simp: wf_next_revision)
  moreover have "\<forall>r \<in> set (sources_where P c). live c0 r"
    using sources_where_live(2) [OF wfs, of P] assms(2) by (auto simp: live_def)
  moreover have "ct_sources c0 = ct_sources c" "ct_refs c0 = ct_refs c" using assms(2) by auto
  ultimately show ?thesis
    using fold_drop [OF _ sources_where_live(1) [OF wfs, of P], of token c0] by simp
qed

lemma wf_revoke: "wf_catalog token c \<Longrightarrow> wf_catalog token (revoke sid c)"
  by (simp add: revoke_def Let_def wf_revoke_loop)

lemma wf_revoke_generation: "wf_catalog token c \<Longrightarrow> wf_catalog token (revoke_generation n c)"
  by (simp add: revoke_generation_def Let_def wf_revoke_loop)

lemma sources_live:
  assumes "wf_catalog token c" "map_of (ct_sources c) k = Some r"
  shows "live c r"
  using wf_sourcesD(6) [of c k r] assms by (auto simp: wf_catalog_def live_iff)

lemma wf_revoke_registration: "wf_catalog token c \<Longrightarrow> wf_catalog token (snd (revoke_registration sid g c))"
  by (auto simp: revoke_registration_def split: option.split intro: wf_next_revision wf_drop sources_live)

lemma wf_revoke_lease: "wf_catalog token c \<Longrightarrow> wf_catalog token (snd (revoke_lease l c))"
proof (cases "sources_where (\<lambda>s _ reg. s = ls_source_id l \<and> rg_lease reg = Some l) c" rule: remdups_adj.cases)
  case (2 r)
  assume "wf_catalog token c"
  moreover from this 2 have "live c r"
    using sources_where_live(2) [of c "\<lambda>s _ reg. s = ls_source_id l \<and> rg_lease reg = Some l"] by (simp add: wf_catalog_def)
  ultimately show ?thesis
    using 2 by (simp add: revoke_lease_def wf_next_revision wf_drop)
qed (simp_all add: revoke_lease_def)

lemma wf_register_managed: "wf_catalog token c \<Longrightarrow> register_managed draft c = Ret c' \<Longrightarrow> wf_catalog token c'"
  unfolding register_managed_def
  by (erule wf_register_source [where draft = "draft\<lparr>rg_managed := True\<rparr>"], assumption) simp

lemma wf_register_user: "wf_catalog token c \<Longrightarrow> register_source (user_draft draft) c = Ret c' \<Longrightarrow> wf_catalog token c'"
  by (erule wf_register_source [where draft = "user_draft draft"]) (auto simp: user_draft_def)

lemma wf_step:
  assumes "catalog_step token c c'" "inj token" "wf_catalog token c"
  shows "wf_catalog token c'"
  using assms(1)
proof cases
  case (step_bind r reg key d)
  then show ?thesis using wf_bind_reference [OF assms(2,3)] by simp
next
  case (step_managed draft)
  show ?thesis by (rule wf_register_managed [OF assms(3) step_managed])
next
  case (step_user draft)
  show ?thesis by (rule wf_register_user [OF assms(3) step_user])
qed (simp_all only: wf_revoke wf_revoke_generation wf_revoke_registration wf_revoke_lease
  wf_activate wf_next_token assms(3))

lemma wf_steps:
  assumes "(catalog_step token)\<^sup>*\<^sup>* c c'" "inj token" "wf_catalog token c"
  shows "wf_catalog token c'"
  using assms by (induction rule: rtranclp_induct) (auto intro: wf_step)

text \<open>Along a step registrations only appear, with a later revision, and only get revoked.\<close>

definition grows :: "catalog \<Rightarrow> catalog \<Rightarrow> bool" where
  "grows c c' \<longleftrightarrow> ct_revision c \<le> ct_revision c'
     \<and> (\<forall>r reg. get_reg c r = Some reg \<longrightarrow> (\<exists>reg'. get_reg c' r = Some reg'
          \<and> rg_visible_from_revision reg' = rg_visible_from_revision reg \<and> rg_lease reg' = rg_lease reg
          \<and> reg_key reg' = reg_key reg \<and> rg_managed reg' = rg_managed reg \<and> (rg_revoked reg \<longrightarrow> rg_revoked reg')))
     \<and> (\<forall>r reg'. get_reg c r = None \<longrightarrow> get_reg c' r = Some reg' \<longrightarrow> ct_revision c < rg_visible_from_revision reg')"

lemma growsI:
  assumes "ct_revision c \<le> ct_revision c'"
    and "\<And>r reg. get_reg c r = Some reg \<Longrightarrow> (\<exists>reg'. get_reg c' r = Some reg'
          \<and> rg_visible_from_revision reg' = rg_visible_from_revision reg \<and> rg_lease reg' = rg_lease reg
          \<and> reg_key reg' = reg_key reg \<and> rg_managed reg' = rg_managed reg \<and> (rg_revoked reg \<longrightarrow> rg_revoked reg'))"
    and "\<And>r reg'. get_reg c r = None \<Longrightarrow> get_reg c' r = Some reg' \<Longrightarrow> ct_revision c < rg_visible_from_revision reg'"
  shows "grows c c'"
  using assms unfolding grows_def by blast

lemma grows_refl: "grows c c"
  by (simp add: grows_def)

lemma grows_trans:
  assumes "grows a b" "grows b c" shows "grows a c"
proof (rule growsI)
  show "ct_revision a \<le> ct_revision c" using assms by (auto simp: grows_def)
next
  fix r reg assume "get_reg a r = Some reg"
  then obtain reg1 where 1: "get_reg b r = Some reg1" "rg_visible_from_revision reg1 = rg_visible_from_revision reg"
    "rg_lease reg1 = rg_lease reg" "reg_key reg1 = reg_key reg" "rg_managed reg1 = rg_managed reg" "rg_revoked reg \<longrightarrow> rg_revoked reg1"
    using assms(1) unfolding grows_def by blast
  moreover obtain reg2 where "get_reg c r = Some reg2" "rg_visible_from_revision reg2 = rg_visible_from_revision reg1"
    "rg_lease reg2 = rg_lease reg1" "reg_key reg2 = reg_key reg1" "rg_managed reg2 = rg_managed reg1" "rg_revoked reg1 \<longrightarrow> rg_revoked reg2"
    using assms(2) 1(1) unfolding grows_def by blast
  ultimately show "\<exists>reg'. get_reg c r = Some reg' \<and> rg_visible_from_revision reg' = rg_visible_from_revision reg
    \<and> rg_lease reg' = rg_lease reg \<and> reg_key reg' = reg_key reg \<and> rg_managed reg' = rg_managed reg
    \<and> (rg_revoked reg \<longrightarrow> rg_revoked reg')" by simp
next
  fix r reg' assume a: "get_reg a r = None" "get_reg c r = Some reg'"
  show "ct_revision a < rg_visible_from_revision reg'"
  proof (cases "get_reg b r")
    case None
    with a assms show ?thesis unfolding grows_def by (meson le_less_trans)
  next
    case (Some reg1)
    with a assms(1) have "ct_revision a < rg_visible_from_revision reg1" unfolding grows_def by blast
    moreover have "rg_visible_from_revision reg' = rg_visible_from_revision reg1"
      using assms(2) Some a(2) unfolding grows_def by fastforce
    ultimately show ?thesis by simp
  qed
qed

lemma grows_next_revision: "grows c (next_revision c)"
  by (simp add: grows_def)

lemma grows_drop: "grows c (drop_registration r c)"
proof (cases "get_reg c r")
  case None
  then show ?thesis by (simp add: drop_registration_def grows_refl)
next
  case (Some reg)
  then show ?thesis by (auto simp: grows_def drop_registration_get)
qed

lemma grows_fold_drop: "grows c (fold drop_registration rs c)"
  by (induction rs arbitrary: c) (auto intro: grows_refl grows_trans grows_drop)

lemma grows_put:
  assumes "get_reg c r = Some reg"
  shows "grows c ((put_reg r (reg\<lparr>rg_references := x\<rparr>) c)\<lparr>ct_refs := y, ct_next_token := z\<rparr>)"
  using assms by (auto simp: grows_def)

lemma grows_register:
  assumes "wf_catalog token c" "register_source draft c = Ret c'"
  shows "grows c c'"
proof -
  have "get_reg c (ct_next_object c) = None"
    using assms(1) wf_sourcesD(2) [of c "ct_next_object c"] by (cases "get_reg c (ct_next_object c)") (auto simp: wf_catalog_def)
  with assms(2) show ?thesis
    by (auto simp: register_source_Ret grows_def)
qed

lemma grows_step:
  assumes "catalog_step token c c'" "wf_catalog token c"
  shows "grows c c'"
  using assms(1)
proof cases
  case (step_managed draft)
  with assms(2) show ?thesis by (auto simp: register_managed_def intro: grows_register)
next
  case (step_user draft)
  with assms(2) show ?thesis by (auto intro: grows_register)
next
  case (step_revoke sid)
  then show ?thesis by (auto simp: revoke_def Let_def intro: grows_refl grows_trans grows_next_revision grows_fold_drop)
next
  case (step_revoke_registration sid g)
  then show ?thesis
    by (auto simp: revoke_registration_def intro: grows_refl grows_trans grows_next_revision grows_drop split: option.split)
next
  case (step_revoke_generation n)
  then show ?thesis by (auto simp: revoke_generation_def Let_def intro: grows_refl grows_trans grows_next_revision grows_fold_drop)
next
  case (step_revoke_lease l)
  then show ?thesis
    by (auto simp: revoke_lease_def intro: grows_refl grows_trans grows_next_revision grows_drop split: list.split)
next
  case (step_bind r reg key d)
  then show ?thesis
    by (auto simp: bind_reference_def mint_reference_def Let_def put_reg_def get_reg_def grows_def pd.lookup_put
        reg_key_def split: option.split)
qed (simp_all add: grows_def)

lemma grows_steps:
  assumes "(catalog_step token)\<^sup>*\<^sup>* c c'" "inj token" "wf_catalog token c"
  shows "grows c c'"
  using assms(1)
proof (induction rule: rtranclp_induct)
  case (step c1 c2)
  then show ?case using wf_steps [OF step(1) assms(2,3)] grows_step grows_trans by blast
qed (rule grows_refl)

section \<open>Properties\<close>

definition ex_token :: "nat \<Rightarrow> string" where
  "ex_token n = replicate n CHR ''t''"

definition ex_lease :: capability_lease where
  "ex_lease = \<lparr>ls_source_id = ''desktop'', ls_instance_id = ''a'', ls_generation = ''1''\<rparr>"

definition ex_draft :: "string \<Rightarrow> capability_lease option \<Rightarrow> registration" where
  "ex_draft sid lease = \<lparr>rg_source_id = sid, rg_source = 0, rg_target_label = ''host'', rg_managed = True,
     rg_lease = lease, rg_trusted_effects = TrustAll {''read''}, rg_graph_generation = None,
     rg_visible_from_revision = 0, rg_revoked = False, rg_result_provenance = False,
     rg_invocation_provenance = False, rg_references = []\<rparr>"

definition ex_tool :: "string \<Rightarrow> tool_definition" where
  "ex_tool n = \<lparr>td_name = n, td_description = [], td_input_schema = JObj [], td_effects = {}, td_metadata = JObj []\<rparr>"

definition ex_catalog0 :: catalog where
  "ex_catalog0 = (case register_managed (ex_draft ''desktop'' (Some ex_lease)) (catalog_empty True 0) of
     Inr c \<Rightarrow> c | Inl _ \<Rightarrow> catalog_empty True 0)"

definition ex_catalog :: catalog where
  "ex_catalog = snd (bind_reference ex_token 0 (the (get_reg ex_catalog0 0)) ''click'' (ex_tool ''click'') ex_catalog0)"

lemma inj_ex_token: "inj ex_token"
  by (rule injI) (metis ex_token_def length_replicate)

lemmas ex_catalog_simps = ex_catalog_def ex_catalog0_def register_managed_def register_source_def ex_draft_def ex_lease_def
  catalog_empty_def put_reg_def next_revision_def get_reg_def bind_reference_def mint_reference_def ex_token_def ex_tool_def Let_def

lemma ex_catalog_steps: "(catalog_step ex_token)\<^sup>*\<^sup>* (catalog_empty True 0) ex_catalog"
proof -
  have "catalog_step ex_token (catalog_empty True 0) ex_catalog0"
    by (rule step_managed [where draft = "ex_draft ''desktop'' (Some ex_lease)"]) (simp add: ex_catalog_simps)
  moreover have "catalog_step ex_token ex_catalog0 ex_catalog"
    unfolding ex_catalog_def by (rule step_bind) (simp_all add: ex_catalog_simps)
  ultimately show ?thesis by simp
qed

text \<open>
  C7: Every catalog that a host can reach by any sequence of registrations, revocations,
  generation switches and reference bindings is well formed: an index entry exists exactly for
  each live registration, an opaque reference exists exactly when a live registration holds it,
  a lease names its own source, and a source added by a user carries no lease, no trusted effect
  and no provenance hook.
\<close>

theorem reachable_catalog_wf:
  assumes "inj token" "(catalog_step token)\<^sup>*\<^sup>* (catalog_empty allow observers) c"
  shows "wf_catalog token c"
  using assms(2,1) wf_catalog_empty by (rule wf_steps)

theorem reachable_catalog_wf_witness: "wf_catalog ex_token ex_catalog"
  by (rule reachable_catalog_wf [OF inj_ex_token ex_catalog_steps])

lemma ex_catalog_wf: "wf_catalog ex_token ex_catalog"
  by (rule wf_steps [OF ex_catalog_steps inj_ex_token wf_catalog_empty])

lemma sources_where_mem:
  assumes "wf_catalog token c"
  shows "r \<in> set (sources_where P c) \<longleftrightarrow>
    (\<exists>reg. get_reg c r = Some reg \<and> \<not> rg_revoked reg \<and> P (rg_source_id reg) (rg_graph_generation reg) reg)"
proof -
  have wfs: "wf_sources c" using assms by (simp add: wf_catalog_def)
  have "r \<in> set (sources_where P c) \<longleftrightarrow>
    (\<exists>s g reg. map_of (ct_sources c) (s, g) = Some r \<and> get_reg c r = Some reg \<and> P s g reg)"
    using wf_sourcesD(1) [OF wfs] by (force simp: sources_where_def split: option.splits)
  also have "\<dots> \<longleftrightarrow> (\<exists>reg. get_reg c r = Some reg \<and> \<not> rg_revoked reg \<and> P (rg_source_id reg) (rg_graph_generation reg) reg)"
  proof
    assume "\<exists>s g reg. map_of (ct_sources c) (s, g) = Some r \<and> get_reg c r = Some reg \<and> P s g reg"
    then obtain s g reg where *: "map_of (ct_sources c) (s, g) = Some r" "get_reg c r = Some reg" "P s g reg" by blast
    with wf_sourcesD(6) [OF wfs *(1)]
    show "\<exists>reg. get_reg c r = Some reg \<and> \<not> rg_revoked reg \<and> P (rg_source_id reg) (rg_graph_generation reg) reg"
      by (auto simp: reg_key_def)
  next
    assume "\<exists>reg. get_reg c r = Some reg \<and> \<not> rg_revoked reg \<and> P (rg_source_id reg) (rg_graph_generation reg) reg"
    with wf_sourcesD(5) [OF wfs, of r] show "\<exists>s g reg. map_of (ct_sources c) (s, g) = Some r \<and> get_reg c r = Some reg \<and> P s g reg"
      unfolding reg_key_def by blast
  qed
  finally show ?thesis .
qed

lemma source_entry_live:
  assumes "wf_catalog token c" "p \<in> set (ct_sources c)"
  shows "\<exists>reg. get_reg c (snd p) = Some reg \<and> \<not> rg_revoked reg \<and> reg_key reg = fst p"
  using wf_sourcesD(6) [of c "fst p" "snd p"] wf_sourcesD(1) [of c] assms by (simp add: wf_catalog_def)

lemma ref_entry_live:
  assumes "wf_catalog token c" "p \<in> set (ct_refs c)"
  shows "\<exists>reg. get_reg c (fst (snd p)) = Some reg \<and> \<not> rg_revoked reg"
  using wf_refsD(2) [of token c "fst p" "fst (snd p)" "snd (snd p)"] wf_refsD(1) [of token c] assms
  by (auto simp: wf_catalog_def)

definition source_of :: "catalog \<Rightarrow> nat \<Rightarrow> string option" where
  "source_of c r = map_option rg_source_id (get_reg c r)"

text \<open>
  Revoking a source removes exactly the registrations of that source, in every generation,
  and exactly their opaque references; every other registration and reference stays, and the
  revision moves on exactly when something was revoked.
\<close>

theorem revoke_exact:
  assumes wf: "wf_catalog token c"
  shows "ct_sources (revoke sid c) = filter (\<lambda>((s, _), _). s \<noteq> sid) (ct_sources c)
    \<and> ct_refs (revoke sid c) = filter (\<lambda>(_, (r, _)). source_of c r \<noteq> Some sid) (ct_refs c)
    \<and> ct_revision (revoke sid c) = ct_revision c + (if \<exists>((s, _), _) \<in> set (ct_sources c). s = sid then 1 else 0)"
proof -
  let ?rs = "sources_where (\<lambda>s _ _. s = sid) c"
  have src: "snd p \<in> set ?rs \<longleftrightarrow> fst (fst p) = sid" if "p \<in> set (ct_sources c)" for p
    using source_entry_live [OF wf that] unfolding sources_where_mem [OF wf] by (auto simp: reg_key_def prod_eq_iff)
  have ref: "fst (snd p) \<in> set ?rs \<longleftrightarrow> source_of c (fst (snd p)) = Some sid" if "p \<in> set (ct_refs c)" for p
    using ref_entry_live [OF wf that] unfolding sources_where_mem [OF wf] by (auto simp: source_of_def)
  have empty: "?rs = [] \<longleftrightarrow> \<not> (\<exists>p \<in> set (ct_sources c). fst (fst p) = sid)"
  proof
    assume "?rs = []"
    with src show "\<not> (\<exists>p \<in> set (ct_sources c). fst (fst p) = sid)" by auto
  next
    assume none: "\<not> (\<exists>p \<in> set (ct_sources c). fst (fst p) = sid)"
    then show "?rs = []" by (force simp: sources_where_def filter_empty_conv split: option.splits)
  qed
  have loop: "ct_sources (revoke sid c) = filter (\<lambda>p. snd p \<notin> set ?rs) (ct_sources c)"
    "ct_refs (revoke sid c) = filter (\<lambda>p. fst (snd p) \<notin> set ?rs) (ct_refs c)"
    "ct_revision (revoke sid c) = ct_revision (if ?rs = [] then c else next_revision c)"
    using wf_revoke_loop [OF wf] by (simp_all add: revoke_def Let_def)
  show ?thesis
    unfolding loop by (intro conjI filter_cong) (auto simp: src ref empty split_beta)
qed

theorem revoke_exact_witness:
  "ct_sources (revoke ''desktop'' ex_catalog) = [] \<and> ct_refs (revoke ''desktop'' ex_catalog) = [] \<and> ct_refs ex_catalog \<noteq> []"
  using revoke_exact [OF ex_catalog_wf, of "''desktop''"] by (simp add: ex_catalog_simps source_of_def)

text \<open>
  A disconnect report names one exact lease.  It never touches a registration that holds
  another lease (a newer connection of the same source) or none, nor a reference of one; when it
  answers that it revoked something, no registration and no reference of that lease is left.
\<close>

theorem disconnect_exact_lease:
  assumes wf: "wf_catalog token c" and "revoke_lease l c = (done, c')"
  shows "(\<forall>p \<in> set (ct_sources c). map_option rg_lease (get_reg c (snd p)) \<noteq> Some (Some l) \<longrightarrow> p \<in> set (ct_sources c'))
    \<and> (\<forall>p \<in> set (ct_refs c). map_option rg_lease (get_reg c (fst (snd p))) \<noteq> Some (Some l) \<longrightarrow> p \<in> set (ct_refs c'))
    \<and> (done \<longrightarrow> (\<forall>p \<in> set (ct_sources c'). map_option rg_lease (get_reg c (snd p)) \<noteq> Some (Some l))
         \<and> (\<forall>p \<in> set (ct_refs c'). map_option rg_lease (get_reg c (fst (snd p))) \<noteq> Some (Some l)))"
proof (cases "sources_where (\<lambda>s _ reg. s = ls_source_id l \<and> rg_lease reg = Some l) c" rule: remdups_adj.cases)
  case (2 r)
  let ?P = "\<lambda>s _ reg. s = ls_source_id l \<and> rg_lease reg = Some l"
  have wfs: "wf_sources c" and wfr: "wf_refs token c" using wf by (simp_all add: wf_catalog_def)
  have mem: "r' = r \<longleftrightarrow> (\<exists>reg. get_reg c r' = Some reg \<and> \<not> rg_revoked reg \<and> rg_lease reg = Some l)" for r'
    using sources_where_mem [OF wf, of r' ?P] wf_sourcesD(3) [OF wfs] unfolding 2 by (fastforce simp: wf_registration_def)
  then have "live c r" by (auto simp: live_iff)
  have c': "done" "c' = next_revision (drop_registration r c)" using assms(2) by (simp_all add: revoke_lease_def 2)
  have sets: "set (ct_sources c') = {p \<in> set (ct_sources c). snd p \<noteq> r}" "set (ct_refs c') = {p \<in> set (ct_refs c). fst (snd p) \<noteq> r}"
    by (simp_all add: c' drop_registration_sources [OF wfs \<open>live c r\<close>] drop_registration_refs [OF wfr \<open>live c r\<close> wfs])
  have r: "map_option rg_lease (get_reg c r) = Some (Some l)" using mem [of r] by auto
  show ?thesis
  proof (intro conjI ballI impI)
    fix p assume "p \<in> set (ct_sources c)" "map_option rg_lease (get_reg c (snd p)) \<noteq> Some (Some l)"
    with r show "p \<in> set (ct_sources c')" unfolding sets by auto
  next
    fix p assume "p \<in> set (ct_refs c)" "map_option rg_lease (get_reg c (fst (snd p))) \<noteq> Some (Some l)"
    with r show "p \<in> set (ct_refs c')" unfolding sets by auto
  next
    fix p assume "p \<in> set (ct_sources c')"
    then have p: "p \<in> set (ct_sources c)" "snd p \<noteq> r" unfolding sets by auto
    with source_entry_live [OF wf p(1)] mem [of "snd p"] show "map_option rg_lease (get_reg c (snd p)) \<noteq> Some (Some l)" by auto
  next
    fix p assume "p \<in> set (ct_refs c')"
    then have p: "p \<in> set (ct_refs c)" "fst (snd p) \<noteq> r" unfolding sets by auto
    with ref_entry_live [OF wf p(1)] mem [of "fst (snd p)"]
    show "map_option rg_lease (get_reg c (fst (snd p))) \<noteq> Some (Some l)" by auto
  qed
qed (use assms(2) in \<open>auto simp: revoke_lease_def\<close>)

theorem disconnect_exact_lease_witness:
  "\<not> fst (revoke_lease (ex_lease\<lparr>ls_generation := ''0''\<rparr>) ex_catalog)
   \<and> ct_refs ex_catalog \<noteq> [] \<and> set (ct_refs ex_catalog) \<subseteq> set (ct_refs (snd (revoke_lease (ex_lease\<lparr>ls_generation := ''0''\<rparr>) ex_catalog)))"
  using disconnect_exact_lease [OF ex_catalog_wf prod.collapse [symmetric], of "ex_lease\<lparr>ls_generation := ''0''\<rparr>"]
  by (simp add: ex_catalog_simps revoke_lease_def sources_where_def)

text \<open>
  C25: A run sees the topology it was admitted with.  Whatever the host does to the catalog after
  the admission, a registration that is available to the run then was already live at the
  admission and was never revoked since, and its lease, if it has one, is in the run's context.
\<close>

theorem admitted_topology:
  assumes "inj token" "wf_catalog token c" "(catalog_step token)\<^sup>*\<^sup>* c c'"
    and "sc_bound sc" "sc_revision sc = Some (ct_revision c)" "available sc cx c' r"
  shows "live c r \<and> live c' r
    \<and> (\<forall>reg l. get_reg c r = Some reg \<longrightarrow> rg_lease reg = Some l \<longrightarrow> \<not> cx_deferred cx \<and> l \<in> set (cx_capabilities cx))"
proof -
  obtain reg' where reg': "get_reg c' r = Some reg'" "\<not> rg_revoked reg'" "rg_visible_from_revision reg' \<le> ct_revision c"
    "case rg_lease reg' of None \<Rightarrow> True | Some l \<Rightarrow> \<not> cx_deferred cx \<and> l \<in> set (cx_capabilities cx)"
    using assms(4-6) by (auto simp: available_def execution_snapshot_def split: option.splits)
  have g: "grows c c'" using assms(3,1,2) by (rule grows_steps)
  then obtain reg where reg: "get_reg c r = Some reg"
    using reg' unfolding grows_def by (cases "get_reg c r") fastforce+
  with g reg' have "\<not> rg_revoked reg" "rg_lease reg = rg_lease reg'" unfolding grows_def by fastforce+
  with reg reg' show ?thesis by (auto simp: live_iff)
qed

theorem admitted_topology_witness:
  "available \<lparr>sc_bound = True, sc_generation = None, sc_revision = Some (ct_revision ex_catalog0), sc_run_id = None,
     sc_provider_call = None\<rparr> (ex_context\<lparr>cx_capabilities := [ex_lease]\<rparr>) ex_catalog 0
   \<and> live ex_catalog0 0"
proof -
  let ?sc = "\<lparr>sc_bound = True, sc_generation = None, sc_revision = Some (ct_revision ex_catalog0), sc_run_id = None,
     sc_provider_call = None\<rparr>"
  let ?cx = "ex_context\<lparr>cx_capabilities := [ex_lease]\<rparr>"
  have steps: "catalog_step ex_token (catalog_empty True 0) ex_catalog0" "catalog_step ex_token ex_catalog0 ex_catalog"
    by (rule step_managed [where draft = "ex_draft ''desktop'' (Some ex_lease)"]) (simp add: ex_catalog_simps,
      unfold ex_catalog_def, rule step_bind, simp_all add: ex_catalog_simps)
  have wf: "wf_catalog ex_token ex_catalog0"
    by (rule wf_step [OF steps(1) inj_ex_token wf_catalog_empty])
  have "available ?sc ?cx ex_catalog 0"
    by (simp add: available_def execution_snapshot_def ex_catalog_simps ex_context_def)
  with admitted_topology [OF inj_ex_token wf r_into_rtranclp, OF steps(2), of ?sc ?cx 0] show ?thesis
    by simp
qed

end
