(* ===== verification/Dispatch.thy ===== *)
theory Dispatch
  imports Capabilities
begin

text \<open>
  The operations of \<^verbatim>\<open>capabilities.py\<close> that await something: discovery, description,
  inspection, resources, the dispatcher \<^verbatim>\<open>call_tool\<close>, and the management of user sources.
  The sources, the executors, the authorizer and the durable ledger are the host's: they are the
  fields of the \<open>world\<close>, functions of the number of the \<^verbatim>\<open>await\<close> at which they are asked,
  so that two questions may get two answers.  What the other tasks of the event loop do to the
  catalog while an operation awaits is the field \<open>w_interfere\<close>; the properties assume of it only
  that it is a sequence of catalog steps.  The optional content-privacy publisher is not
  configured in this model, so a source that needs one is refused, as the code does.
\<close>

section \<open>The world the dispatcher talks to\<close>

text \<open>What the dispatcher does outside the catalog, in order, with the answers it got.\<close>

datatype ledger_action =
    LAuthorize string bool
  | LBegin string string json json bool
  | LInvoke nat string json
  | LFinishError string string json bool
  | LFinishResult string string json bool
  | LObserve nat json

record world =
  w_agent_id :: string
  w_delegations :: "(nat \<Rightarrow> execution_context \<Rightarrow> bool) option"
  w_authorize :: "nat \<Rightarrow> authorizer"
  w_discover :: "nat \<Rightarrow> nat \<Rightarrow> execution_context \<Rightarrow> tool_definition list res"
  w_discover_app :: "nat \<Rightarrow> nat \<Rightarrow> execution_context \<Rightarrow> tool_definition list res"
  w_inspect :: "nat \<Rightarrow> (nat \<Rightarrow> execution_context \<Rightarrow> tool_definition list res) option"
  w_resolve :: "nat \<Rightarrow> (nat \<Rightarrow> string \<Rightarrow> execution_context \<Rightarrow> string res) option"
  w_read_resource :: "nat \<Rightarrow> (nat \<Rightarrow> string \<Rightarrow> execution_context \<Rightarrow> json res) option"
  w_invoke :: "nat \<Rightarrow> nat \<Rightarrow> string \<Rightarrow> string \<Rightarrow> json \<Rightarrow> execution_context \<Rightarrow> json res"
  w_encode :: "json \<Rightarrow> json res"
  w_utf8_size :: "json \<Rightarrow> nat"
  w_blob_ok :: "string \<Rightarrow> bool"
  w_begin :: "nat \<Rightarrow> string \<Rightarrow> string \<Rightarrow> unit res"
  w_finish :: "nat \<Rightarrow> string \<Rightarrow> string \<Rightarrow> unit res"
  w_observe :: "nat \<Rightarrow> nat \<Rightarrow> json \<Rightarrow> unit res"
  w_acknowledge :: "nat \<Rightarrow> (nat \<Rightarrow> string \<Rightarrow> json \<Rightarrow> unit res) option"
  w_token :: "nat \<Rightarrow> string"
  w_interfere :: "nat \<Rightarrow> catalog \<Rightarrow> catalog"

record dispatch =
  dp_time :: nat
  dp_cat :: catalog
  dp_log :: "ledger_action list"

definition await :: "world \<Rightarrow> dispatch \<Rightarrow> dispatch" where
  "await w s = s\<lparr>dp_time := Suc (dp_time s), dp_cat := w_interfere w (dp_time s) (dp_cat s)\<rparr>"

definition log_action :: "ledger_action \<Rightarrow> dispatch \<Rightarrow> dispatch" where
  "log_action a s = s\<lparr>dp_log := dp_log s @ [a]\<rparr>"

definition await_op :: "world \<Rightarrow> (nat \<Rightarrow> 'a res) \<Rightarrow> (dispatch, 'a) op" where
  "await_op w f = (\<lambda>s. (f (dp_time s), await w s))"

definition await_logged :: "world \<Rightarrow> (nat \<Rightarrow> 'a res) \<Rightarrow> ('a res \<Rightarrow> ledger_action) \<Rightarrow> (dispatch, 'a) op" where
  "await_logged w f a = (\<lambda>s. (f (dp_time s), await w (log_action (a (f (dp_time s))) s)))"

definition returned :: "'a res \<Rightarrow> bool" where
  "returned r = (case r of Inl _ \<Rightarrow> False | Inr _ \<Rightarrow> True)"

section \<open>Authorization\<close>

definition authorize_plain ::
  "world \<Rightarrow> execution_context \<Rightarrow> string \<Rightarrow> resource_ref \<Rightarrow> principal list \<Rightarrow> (dispatch, unit) op" where
  "authorize_plain w cx action resource audience =
     (if rs_tenant_id resource \<noteq> cx_tenant_id cx then raise_op AuthorizationDenied
      else await_logged w (\<lambda>t. require_authorized (w_authorize w t) cx action resource audience)
        (\<lambda>r. LAuthorize action (returned r)))"

text \<open>\<^verbatim>\<open>Runtime.authorize\<close> (\<^verbatim>\<open>runtime.py\<close>), used by the dispatcher inside a run.\<close>

definition runtime_authorize ::
  "world \<Rightarrow> execution_context \<Rightarrow> string \<Rightarrow> resource_ref \<Rightarrow> principal list \<Rightarrow> (dispatch, unit) op" where
  "runtime_authorize w cx action resource audience =
     bind_op (guard_op (cx_agent_id cx = w_agent_id w) PermissionError) (\<lambda>_.
     bind_op
       (if truthy_opt (cx_delegation_id cx)
        then case w_delegations w of
            None \<Rightarrow> raise_op PermissionError
          | Some validate \<Rightarrow> await_op w (\<lambda>t. guard (validate t cx) PermissionError)
        else ret_op ()) (\<lambda>_.
     authorize_plain w cx action resource audience))"

definition effective_definition :: "registration \<Rightarrow> tool_definition \<Rightarrow> tool_definition" where
  "effective_definition reg d = d\<lparr>td_effects := td_effects d \<inter>
     (case rg_trusted_effects reg of
        TrustAll e \<Rightarrow> e
      | TrustMap m \<Rightarrow> (case map_of m (td_name d) of None \<Rightarrow> {} | Some e \<Rightarrow> e))\<rparr>"

definition capability_resource :: "execution_context \<Rightarrow> string \<Rightarrow> resource_ref" where
  "capability_resource cx source_id =
     \<lparr>rs_kind = ''capability'', rs_tenant_id = cx_tenant_id cx, rs_resource_id = source_id\<rparr>"

definition tool_resource :: "execution_context \<Rightarrow> registration \<Rightarrow> tool_definition \<Rightarrow> resource_ref" where
  "tool_resource cx reg d =
     \<lparr>rs_kind = ''tool'', rs_tenant_id = cx_tenant_id cx,
      rs_resource_id = rg_source_id reg @ CHR ''/'' # td_name d\<rparr>"

definition descriptor_of :: "string \<Rightarrow> registration \<Rightarrow> tool_definition \<Rightarrow> tool_descriptor" where
  "descriptor_of t reg d =
     \<lparr>ds_tool_ref = t, ds_name = td_name d, ds_description = td_description d,
      ds_input_schema = td_input_schema d, ds_source_id = rg_source_id reg,
      ds_target_label = rg_target_label reg, ds_effects = td_effects d, ds_metadata = td_metadata d\<rparr>"

definition inventory_entry :: "registration \<Rightarrow> tool_definition \<Rightarrow> tool_inventory_entry" where
  "inventory_entry reg d =
     \<lparr>iv_source_id = rg_source_id reg, iv_name = td_name d, iv_description = td_description d,
      iv_input_schema = td_input_schema d, iv_target_label = rg_target_label reg, iv_metadata = td_metadata d\<rparr>"

definition still_available :: "scope \<Rightarrow> execution_context \<Rightarrow> nat \<Rightarrow> (dispatch, unit) op" where
  "still_available sc cx r =
     bind_op (read_op (\<lambda>s. available sc cx (dp_cat s) r)) (\<lambda>ok. guard_op ok CapabilityUnavailable)"

text \<open>The registration object behind a number; the numbers come from the catalog itself.\<close>

definition the_registration :: "nat \<Rightarrow> (dispatch, registration) op" where
  "the_registration r = (\<lambda>s. case get_reg (dp_cat s) r of None \<Rightarrow> (Raise CapabilityUnavailable, s) | Some reg \<Rightarrow> (Ret reg, s))"

section \<open>Management: install and remove\<close>

definition catalog_install :: "world \<Rightarrow> registration \<Rightarrow> execution_context \<Rightarrow> (dispatch, unit) op" where
  "catalog_install w draft cx =
     bind_op (read_op (\<lambda>s. ct_allow_dynamic (dp_cat s))) (\<lambda>allow.
     bind_op (guard_op allow PermissionError) (\<lambda>_.
     bind_op (authorize_plain w cx ''catalog.install'' (capability_resource cx (rg_source_id draft)) []) (\<lambda>_.
     (\<lambda>s. case register_source (user_draft (draft\<lparr>rg_graph_generation := None\<rparr>)) (dp_cat s) of
        Inl e \<Rightarrow> (Raise e, s)
      | Inr c \<Rightarrow> (Ret (), s\<lparr>dp_cat := c\<rparr>)))))"

definition catalog_remove :: "world \<Rightarrow> scope \<Rightarrow> string \<Rightarrow> execution_context \<Rightarrow> (dispatch, unit) op" where
  "catalog_remove w sc source_id cx =
     bind_op (read_op (\<lambda>s. List.find (\<lambda>r. source_of (dp_cat s) r = Some source_id)
       (registrations_for_context sc cx (dp_cat s)))) (\<lambda>found.
     case found of
       None \<Rightarrow> raise_op CapabilityUnavailable
     | Some r \<Rightarrow>
         bind_op (the_registration r) (\<lambda>reg.
         bind_op (read_op (\<lambda>s. \<not> rg_managed reg \<and> ct_allow_dynamic (dp_cat s))) (\<lambda>allow.
         bind_op (guard_op allow PermissionError) (\<lambda>_.
         bind_op (authorize_plain w cx ''catalog.remove'' (capability_resource cx source_id) []) (\<lambda>_.
         modify_op (\<lambda>s. s\<lparr>dp_cat := revoke source_id (dp_cat s)\<rparr>))))))"

section \<open>Discovery\<close>

text \<open>
  The loop over the definitions of one registration, which runs without awaiting; the names seen
  so far and the descriptors found are its accumulators.
\<close>

fun bind_definitions ::
  "(nat \<Rightarrow> string) \<Rightarrow> nat \<Rightarrow> string list \<Rightarrow> tool_definition list \<Rightarrow> catalog \<Rightarrow> tool_descriptor list res \<times> catalog" where
  "bind_definitions token r seen [] c = (Ret [], c)"
| "bind_definitions token r seen (d # ds) c =
     (case tool_visible (td_metadata d) ''model'' of
        Inl e \<Rightarrow> (Raise e, c)
      | Inr False \<Rightarrow> bind_definitions token r seen ds c
      | Inr True \<Rightarrow>
          (case get_reg c r of
             None \<Rightarrow> (Raise CapabilityUnavailable, c)
           | Some reg \<Rightarrow>
               if td_name d \<in> set seen then (Raise ValueError, c)
               else
                 let e = effective_definition reg d;
                     (t, c') = bind_reference token r reg (td_name d) e c
                 in case bind_definitions token r (td_name d # seen) ds c' of
                      (Inl x, c'') \<Rightarrow> (Raise x, c'')
                    | (Inr rest, c'') \<Rightarrow> (Ret (descriptor_of t reg e # rest), c'')))"

definition discover_source :: "world \<Rightarrow> scope \<Rightarrow> execution_context \<Rightarrow> nat \<Rightarrow> (dispatch, tool_descriptor list) op" where
  "discover_source w sc cx r =
     bind_op (the_registration r) (\<lambda>reg.
     bind_op (await_op w (\<lambda>t. Ret (w_authorize w t cx ''tool.discover'' (capability_resource cx (rg_source_id reg)) (cx_audience cx)))) (\<lambda>granted.
     if \<not> granted then ret_op []
     else
       bind_op (await_op w (\<lambda>t. w_discover w t (rg_source reg) cx)) (\<lambda>definitions s.
         if \<not> available sc cx (dp_cat s) r then (Ret [], s)
         else case bind_definitions (w_token w) r [] definitions (dp_cat s) of
           (x, c) \<Rightarrow> (x, s\<lparr>dp_cat := c\<rparr>))))"

definition discover :: "world \<Rightarrow> scope \<Rightarrow> execution_context \<Rightarrow> (dispatch, tool_descriptor list) op" where
  "discover w sc cx =
     bind_op (read_op (\<lambda>s. registrations_for_context sc cx (dp_cat s))) (\<lambda>rs.
     bind_op (mapM_op (discover_source w sc cx) rs) (\<lambda>dss. ret_op (concat dss)))"

text \<open>\<^verbatim>\<open>inspect\<close>: the bound of 4096 entries counts over all sources.\<close>

fun inventory :: "registration \<Rightarrow> string list \<Rightarrow> tool_definition list \<Rightarrow> tool_inventory_entry list \<Rightarrow> tool_inventory_entry list res" where
  "inventory reg names [] acc = Ret acc"
| "inventory reg names (d # ds) acc =
     (if td_name d \<in> set names \<or> 4096 \<le> length acc then Raise ValueError
      else inventory reg (td_name d # names) ds (acc @ [inventory_entry reg d]))"

fun inspect_sources ::
  "world \<Rightarrow> scope \<Rightarrow> execution_context \<Rightarrow> nat list \<Rightarrow> tool_inventory_entry list \<Rightarrow> (dispatch, tool_inventory_entry list) op" where
  "inspect_sources w sc cx [] acc = ret_op acc"
| "inspect_sources w sc cx (r # rs) acc =
     bind_op (the_registration r) (\<lambda>reg.
     case w_inspect w (rg_source reg) of
       None \<Rightarrow> inspect_sources w sc cx rs acc
     | Some look \<Rightarrow>
         if rg_lease reg \<noteq> None then inspect_sources w sc cx rs acc
         else
           let ask = await_op w (\<lambda>t. Ret (w_authorize w t cx ''catalog.inspect'' (capability_resource cx (rg_source_id reg)) []))
           in bind_op ask (\<lambda>granted.
              if \<not> granted then inspect_sources w sc cx rs acc
              else bind_op (await_op w (\<lambda>t. look t cx)) (\<lambda>definitions.
                bind_op (read_op (\<lambda>s. available sc cx (dp_cat s) r)) (\<lambda>there.
                if \<not> there then inspect_sources w sc cx rs acc
                else bind_op ask (\<lambda>again.
                  if \<not> again then inspect_sources w sc cx rs acc
                  else bind_op (lift_op (inventory reg [] definitions acc)) (\<lambda>acc'.
                    inspect_sources w sc cx rs acc'))))))"

definition catalog_inspect :: "world \<Rightarrow> scope \<Rightarrow> execution_context \<Rightarrow> (dispatch, tool_inventory_entry list) op" where
  "catalog_inspect w sc cx =
     bind_op (read_op (\<lambda>s. registrations_for_context sc cx (dp_cat s))) (\<lambda>rs. inspect_sources w sc cx rs [])"

section \<open>The current binding of a reference\<close>

definition lookup_ref :: "string \<Rightarrow> (dispatch, nat \<times> tool_definition) op" where
  "lookup_ref tool_ref = (\<lambda>s. case map_of (ct_refs (dp_cat s)) tool_ref of
     None \<Rightarrow> (Raise CapabilityUnavailable, s) | Some b \<Rightarrow> (Ret b, s))"

definition current_binding :: "world \<Rightarrow> scope \<Rightarrow> string \<Rightarrow> execution_context \<Rightarrow> (dispatch, nat \<times> registration \<times> tool_definition) op" where
  "current_binding w sc tool_ref cx =
     bind_op (lookup_ref tool_ref) (\<lambda>(r, d).
     bind_op (the_registration r) (\<lambda>reg.
     bind_op (still_available sc cx r) (\<lambda>_.
     bind_op (authorize_plain w cx ''tool.discover'' (capability_resource cx (rg_source_id reg)) (cx_audience cx)) (\<lambda>_.
     bind_op (await_op w (\<lambda>t. w_discover w t (rg_source reg) cx)) (\<lambda>definitions.
     bind_op (guard_op (d \<in> set (map (effective_definition reg) definitions)) CapabilityUnavailable) (\<lambda>_.
     bind_op (still_available sc cx r) (\<lambda>_.
     ret_op (r, reg, d))))))))"

definition describe_tool :: "world \<Rightarrow> scope \<Rightarrow> string \<Rightarrow> execution_context \<Rightarrow> (dispatch, tool_descriptor) op" where
  "describe_tool w sc tool_ref cx =
     bind_op (current_binding w sc tool_ref cx) (\<lambda>(r, reg, d). ret_op (descriptor_of tool_ref reg d))"

section \<open>Resources of a tool\<close>

definition starts_with :: "string \<Rightarrow> string \<Rightarrow> bool" where
  "starts_with s p \<longleftrightarrow> take (length p) s = p"

definition is_jstr :: "json option \<Rightarrow> bool" where
  "is_jstr v = (case v of Some (JStr _) \<Rightarrow> True | _ \<Rightarrow> False)"

text \<open>
  One element of \<^verbatim>\<open>contents\<close>.  The text \<^verbatim>\<open>str(content.get("uri"))\<close> of a value that is not a
  string never starts with \<^verbatim>\<open>ui://\<close>, so only a string can equal the requested URI;
  decoding a blob that is not a string raises \<^verbatim>\<open>TypeError\<close>.
\<close>

definition check_content :: "(string \<Rightarrow> bool) \<Rightarrow> string \<Rightarrow> json \<Rightarrow> unit res" where
  "check_content blob_ok uri content =
     (case content of
        JObj kvs \<Rightarrow>
          if map_of kvs ''uri'' \<noteq> Some (JStr uri)
             \<or> map_of kvs ''mimeType'' \<noteq> Some (JStr ''text/html;profile=mcp-app'')
             \<or> is_jstr (map_of kvs ''text'') = is_jstr (map_of kvs ''blob'')
          then Raise ValueError
          else (case map_of kvs ''blob'' of
              None \<Rightarrow> Ret ()
            | Some (JStr b) \<Rightarrow> guard (blob_ok b) ValueError
            | Some _ \<Rightarrow> Raise TypeError)
      | _ \<Rightarrow> Raise ValueError)"

fun check_contents :: "(string \<Rightarrow> bool) \<Rightarrow> string \<Rightarrow> json list \<Rightarrow> unit res" where
  "check_contents blob_ok uri [] = Ret ()"
| "check_contents blob_ok uri (c # cs) =
     (case check_content blob_ok uri c of Inl e \<Rightarrow> Raise e | Inr _ \<Rightarrow> check_contents blob_ok uri cs)"

definition check_resource :: "(json \<Rightarrow> nat) \<Rightarrow> (string \<Rightarrow> bool) \<Rightarrow> string \<Rightarrow> json \<Rightarrow> unit res" where
  "check_resource utf8_size blob_ok uri result =
     (if utf8_size result > 2 * 1024 * 1024 then Raise ValueError
      else case jget ''contents'' result of
        Some (JArr cs) \<Rightarrow>
          if \<not> (1 \<le> length cs \<and> length cs \<le> 16) then Raise ValueError else check_contents blob_ok uri cs
      | _ \<Rightarrow> Raise ValueError)"

definition uri_declared :: "string \<Rightarrow> json option \<Rightarrow> bool" where
  "uri_declared uri declared \<longleftrightarrow>
     starts_with uri ''ui://'' \<and> length uri \<le> 4096 \<and> (\<forall>c \<in> set uri. 32 \<le> (of_char c :: nat)) \<and> declared = Some (JStr uri)"

definition read_tool_resource :: "world \<Rightarrow> scope \<Rightarrow> string \<Rightarrow> string \<Rightarrow> execution_context \<Rightarrow> (dispatch, json) op" where
  "read_tool_resource w sc tool_ref uri cx =
     bind_op (current_binding w sc tool_ref cx) (\<lambda>(r, reg, d).
     bind_op (guard_op (uri_declared uri (ui_resource_uri (td_metadata d))) PermissionError) (\<lambda>_.
     bind_op (authorize_plain w cx ''tool.call'' (tool_resource cx reg d) (cx_audience cx)) (\<lambda>_.
     case w_read_resource w (rg_source reg) of
       None \<Rightarrow> raise_op CapabilityUnavailable
     | Some read \<Rightarrow>
         bind_op (await_op w (\<lambda>t. read t uri cx)) (\<lambda>result.
         bind_op (authorize_plain w cx ''tool.publish'' (tool_resource cx reg d) (cx_audience cx)) (\<lambda>_.
         bind_op (current_binding w sc tool_ref cx) (\<lambda>(r', _, d').
         bind_op (guard_op (r' = r \<and> d' = d) CapabilityUnavailable) (\<lambda>_.
         bind_op (lift_op (w_encode w result)) (\<lambda>envelope.
         bind_op (lift_op (check_resource (w_utf8_size w) (w_blob_ok w) uri envelope)) (\<lambda>_.
         ret_op envelope)))))))))"

section \<open>The dispatcher\<close>

definition discovered :: "world \<Rightarrow> string \<Rightarrow> nat \<Rightarrow> registration \<Rightarrow> execution_context \<Rightarrow> tool_definition list res" where
  "discovered w surface t reg cx =
     (if surface = ''app'' then w_discover_app w t (rg_source reg) cx else w_discover w t (rg_source reg) cx)"

definition recheck_definition ::
  "world \<Rightarrow> scope \<Rightarrow> string \<Rightarrow> nat \<Rightarrow> registration \<Rightarrow> tool_definition \<Rightarrow> execution_context \<Rightarrow> (dispatch, unit) op" where
  "recheck_definition w sc surface r reg d cx =
     bind_op (await_op w (\<lambda>t. discovered w surface t reg cx)) (\<lambda>latest.
     bind_op (guard_op (d \<in> set (map (effective_definition reg) latest)) CapabilityUnavailable) (\<lambda>_.
     still_available sc cx r))"

definition durable :: "scope \<Rightarrow> string option" where
  "durable sc = (if sc_bound sc then sc_run_id sc else None)"

text \<open>The closure \<^verbatim>\<open>authorize\<close> of \<^verbatim>\<open>call_tool\<close>.\<close>

definition call_authorize ::
  "world \<Rightarrow> scope \<Rightarrow> execution_context \<Rightarrow> registration \<Rightarrow> tool_definition \<Rightarrow> string \<Rightarrow> (dispatch, unit) op" where
  "call_authorize w sc cx reg d action =
     (if durable sc \<noteq> None then runtime_authorize w cx action (tool_resource cx reg d) (cx_audience cx)
      else authorize_plain w cx action (tool_resource cx reg d) (cx_audience cx))"

definition call_binding :: "scope \<Rightarrow> string \<Rightarrow> registration \<Rightarrow> tool_definition \<Rightarrow> json" where
  "call_binding sc tool_ref reg d = JObj
     ([(''tool_ref'', JStr tool_ref), (''source_id'', JStr (rg_source_id reg)), (''name'', JStr (td_name d)),
       (''target_label'', JStr (rg_target_label reg)),
       (''effects'', JArr (map JStr (sorted_list_of_set (td_effects d)))),
       (''execution_host'', JObj
          ([(''kind'', JStr ''capability''), (''device_label'', JStr (rg_target_label reg)),
            (''source_id'', JStr (rg_source_id reg))]
           @ (case rg_lease reg of None \<Rightarrow> []
              | Some l \<Rightarrow> [(''instance_id'', JStr (ls_instance_id l)), (''generation'', JStr (ls_generation l))]))),
       (''metadata'', td_metadata d)]
      @ (case sc_provider_call sc of None \<Rightarrow> [] | Some p \<Rightarrow> [(''provider_call_id'', JStr p)]))"

definition unknown_effects :: "py_error \<Rightarrow> json" where
  "unknown_effects e = JObj
     [(''error_type'', JStr (error_name e)), (''effects'', JStr ''unknown''), (''retry_allowed'', JBool False)]"

text \<open>The admission: everything before the ledger is told of the call.\<close>

definition admit_call ::
  "world \<Rightarrow> scope \<Rightarrow> string \<Rightarrow> string \<Rightarrow> execution_context \<Rightarrow> (dispatch, nat \<times> registration \<times> tool_definition) op" where
  "admit_call w sc surface tool_ref cx =
     bind_op (lookup_ref tool_ref) (\<lambda>(r, d).
     bind_op (the_registration r) (\<lambda>reg.
     bind_op (still_available sc cx r) (\<lambda>_.
     bind_op (guard_op (\<not> rg_result_provenance reg \<and> \<not> rg_invocation_provenance reg) CapabilityUnavailable) (\<lambda>_.
     bind_op (call_authorize w sc cx reg d ''tool.call'') (\<lambda>_.
     bind_op (await_op w (\<lambda>t. discovered w surface t reg cx)) (\<lambda>current.
     bind_op (lift_op (tool_visible (td_metadata d) surface)) (\<lambda>visible.
     bind_op (guard_op visible PermissionError) (\<lambda>_.
     bind_op (guard_op (d \<in> set (map (effective_definition reg) current)) CapabilityUnavailable) (\<lambda>_.
     bind_op (still_available sc cx r) (\<lambda>_.
     ret_op (r, reg, d)))))))))))"

text \<open>The body of the \<^verbatim>\<open>try\<close>: the result and, inside a run, its durable envelope.\<close>

definition perform_call ::
  "world \<Rightarrow> scope \<Rightarrow> string \<Rightarrow> nat \<Rightarrow> registration \<Rightarrow> tool_definition \<Rightarrow> json \<Rightarrow> execution_context \<Rightarrow> (dispatch, json \<times> json) op" where
  "perform_call w sc surface r reg d args cx =
     bind_op (recheck_definition w sc surface r reg d cx) (\<lambda>_.
     bind_op (await_logged w (\<lambda>t. w_invoke w t (rg_source reg) surface (td_name d) args cx)
       (\<lambda>_. LInvoke (rg_source reg) (td_name d) args)) (\<lambda>result.
     bind_op (call_authorize w sc cx reg d ''tool.publish'') (\<lambda>_.
     bind_op (still_available sc cx r) (\<lambda>_.
     bind_op (recheck_definition w sc surface r reg d cx) (\<lambda>_.
     bind_op (lift_op (if durable sc \<noteq> None then w_encode w result else Ret result)) (\<lambda>envelope.
     ret_op (result, envelope)))))))"

definition observe_result ::
  "world \<Rightarrow> registration \<Rightarrow> tool_definition \<Rightarrow> json \<Rightarrow> (dispatch, unit) op" where
  "observe_result w reg d result =
     bind_op (read_op (\<lambda>s. ct_observers (dp_cat s))) (\<lambda>observers.
     bind_op (mapM_op (\<lambda>i. await_logged w (\<lambda>t. w_observe w t i result) (\<lambda>_. LObserve i result)) [0..<observers]) (\<lambda>_.
     case w_acknowledge w (rg_source reg) of
       None \<Rightarrow> ret_op ()
     | Some ack \<Rightarrow> await_op w (\<lambda>t. ack t (td_name d) result)))"

definition call_id_of :: "world \<Rightarrow> string option \<Rightarrow> (dispatch, string) op" where
  "call_id_of w call_id = (\<lambda>s.
     if truthy_opt call_id then (Ret (the call_id), s)
     else (Ret (w_token w (ct_next_token (dp_cat s))),
           s\<lparr>dp_cat := (dp_cat s)\<lparr>ct_next_token := Suc (ct_next_token (dp_cat s))\<rparr>\<rparr>))"

definition call_tool ::
  "world \<Rightarrow> scope \<Rightarrow> string \<Rightarrow> json \<Rightarrow> execution_context \<Rightarrow> string option \<Rightarrow> string \<Rightarrow> (dispatch, json) op" where
  "call_tool w sc tool_ref args cx call_id surface =
     bind_op (guard_op (surface = ''model'' \<or> surface = ''app'') ValueError) (\<lambda>_.
     bind_op (call_id_of w call_id) (\<lambda>cid.
     bind_op (admit_call w sc surface tool_ref cx) (\<lambda>(r, reg, d).
     bind_op
       (case durable sc of
          None \<Rightarrow> ret_op ()
        | Some rid \<Rightarrow> await_logged w (\<lambda>t. w_begin w t rid cid)
            (\<lambda>b. LBegin rid cid (call_binding sc tool_ref reg d) args (returned b))) (\<lambda>_.
     bind_op
       (reraise_op (perform_call w sc surface r reg d args cx)
         (\<lambda>e. case durable sc of
            None \<Rightarrow> ret_op ()
          | Some rid \<Rightarrow> await_logged w (\<lambda>t. w_finish w t rid cid)
              (\<lambda>b. LFinishError rid cid (unknown_effects e) (returned b)))) (\<lambda>(result, envelope).
     bind_op
       (case durable sc of
          None \<Rightarrow> ret_op ()
        | Some rid \<Rightarrow> await_logged w (\<lambda>t. w_finish w t rid cid)
            (\<lambda>b. LFinishResult rid cid envelope (returned b))) (\<lambda>_.
     bind_op (observe_result w reg d result) (\<lambda>_.
     ret_op result)))))))"

text \<open>
  The part of \<^verbatim>\<open>call_source_tool\<close> between its last await and the call: it runs in one piece,
  and its reference lives under the key \<^verbatim>\<open>"app\0" + name\<close>.
\<close>

definition app_reference ::
  "(nat \<Rightarrow> string) \<Rightarrow> scope \<Rightarrow> execution_context \<Rightarrow> nat \<Rightarrow> tool_definition list \<Rightarrow> string \<Rightarrow> catalog \<Rightarrow> string res \<times> catalog" where
  "app_reference token sc cx r definitions name c =
     (if \<not> available sc cx c r then (Raise CapabilityUnavailable, c)
      else case (filter (\<lambda>d. td_name d = name) definitions, get_reg c r) of
        ([d], Some reg) \<Rightarrow>
          let e = effective_definition reg d in
          (case tool_visible (td_metadata e) ''app'' of
             Inl x \<Rightarrow> (Raise x, c)
           | Inr visible \<Rightarrow>
               if \<not> visible then (Raise PermissionError, c)
               else let (t, c') = bind_reference token r reg (''app'' @ CHR 0x00 # name) e c in (Ret t, c'))
      | _ \<Rightarrow> (Raise CapabilityUnavailable, c))"

definition call_source_tool ::
  "world \<Rightarrow> scope \<Rightarrow> string \<Rightarrow> string \<Rightarrow> json \<Rightarrow> execution_context \<Rightarrow> string option \<Rightarrow> (dispatch, json) op" where
  "call_source_tool w sc origin name args cx call_id =
     bind_op (current_binding w sc origin cx) (\<lambda>(r, reg, _).
     bind_op (await_op w (\<lambda>t. w_discover_app w t (rg_source reg) cx)) (\<lambda>definitions.
     bind_op (case w_resolve w (rg_source reg) of None \<Rightarrow> ret_op name | Some resolve \<Rightarrow> await_op w (\<lambda>t. resolve t name cx)) (\<lambda>name'.
     bind_op (\<lambda>s. case app_reference (w_token w) sc cx r definitions name' (dp_cat s) of (x, c) \<Rightarrow> (x, s\<lparr>dp_cat := c\<rparr>)) (\<lambda>reference.
     call_tool w sc reference args cx call_id ''app''))))"

text \<open>\<^verbatim>\<open>FunctionSource.__init__\<close>.\<close>

definition function_source_init :: "tool_definition list \<Rightarrow> (string \<times> 'f) list \<Rightarrow> (tool_definition list \<times> (string \<times> 'f) list) res" where
  "function_source_init tools functions =
     (if length (dedup (map td_name tools)) \<noteq> length tools \<or> set (map td_name tools) \<noteq> set (map fst functions)
      then Raise ValueError else Ret (tools, functions))"

section \<open>What an operation does to the catalog\<close>

text \<open>
  While an operation awaits, other tasks change the catalog: \<open>w_interfere\<close>.  What the operation
  itself does to it are steps of its own, given by a relation.
\<close>

definition catalog_by :: "world \<Rightarrow> (catalog \<Rightarrow> catalog \<Rightarrow> bool) \<Rightarrow> catalog \<Rightarrow> catalog \<Rightarrow> bool" where
  "catalog_by w P = (\<lambda>c c'. P c c' \<or> (\<exists>t. c' = w_interfere w t c))\<^sup>*\<^sup>*"

definition untouched :: "catalog \<Rightarrow> catalog \<Rightarrow> bool" where
  "untouched c c' \<longleftrightarrow> False"

text \<open>The number of the next token is counted, as for a call without an identifier.\<close>

definition token_drawn :: "catalog \<Rightarrow> catalog \<Rightarrow> bool" where
  "token_drawn c c' \<longleftrightarrow> c' = c\<lparr>ct_next_token := Suc (ct_next_token c)\<rparr>"

text \<open>A reference of a live registration is made, or one for the identifier of a call.\<close>

definition reference_minted :: "(nat \<Rightarrow> string) \<Rightarrow> catalog \<Rightarrow> catalog \<Rightarrow> bool" where
  "reference_minted token c c' \<longleftrightarrow> token_drawn c c' \<or>
     (\<exists>r reg key d. get_reg c r = Some reg \<and> \<not> rg_revoked reg \<and> c' = snd (bind_reference token r reg key d c))"

definition cat_rel :: "world \<Rightarrow> (catalog \<Rightarrow> catalog \<Rightarrow> bool) \<Rightarrow> dispatch \<Rightarrow> dispatch \<Rightarrow> bool" where
  "cat_rel w P s s' \<longleftrightarrow> catalog_by w P (dp_cat s) (dp_cat s')"

text \<open>The other tasks use the catalog only through its operations.\<close>

definition fair_world :: "world \<Rightarrow> bool" where
  "fair_world w \<longleftrightarrow> (\<forall>t c. (catalog_step (w_token w))\<^sup>*\<^sup>* c (w_interfere w t c))"

lemma catalog_by_steps:
  assumes "catalog_by w P c c'" "fair_world w" "\<And>c c'. P c c' \<Longrightarrow> (catalog_step (w_token w))\<^sup>*\<^sup>* c c'"
  shows "(catalog_step (w_token w))\<^sup>*\<^sup>* c c'"
  using assms(1) unfolding catalog_by_def
proof (induction rule: rtranclp_induct)
  case (step c1 c2)
  then have "(catalog_step (w_token w))\<^sup>*\<^sup>* c1 c2" using assms(2,3) by (auto simp: fair_world_def)
  with step.IH show ?case by (rule rtranclp_trans)
qed simp

lemma catalog_by_own: "P c c' \<Longrightarrow> catalog_by w P c c'"
  by (auto simp: catalog_by_def)

lemma catalog_by_refl: "catalog_by w P c c"
  by (simp add: catalog_by_def)

lemma cat_rel_reflp: "reflp (cat_rel w P)"
  by (simp add: reflp_def cat_rel_def catalog_by_def)

lemma cat_rel_transp: "transp (cat_rel w P)"
  by (auto simp: transp_def cat_rel_def catalog_by_def intro: rtranclp_trans)

lemma cat_rel_await: "cat_rel w P s (await w s)"
  by (auto simp: cat_rel_def await_def catalog_by_def)

lemma cat_rel_log_await: "cat_rel w P s (await w (log_action a s))"
  by (auto simp: cat_rel_def await_def catalog_by_def log_action_def)

lemmas cat_basic = moves_basic [OF cat_rel_reflp]
lemmas cat_bind = moves_bind [OF cat_rel_transp]
lemmas cat_mapM = moves_mapM [OF cat_rel_reflp cat_rel_transp]
lemmas cat_reraise = moves_reraise [OF cat_rel_transp]

lemma cat_split:
  "(b \<Longrightarrow> moves R m) \<Longrightarrow> (\<not> b \<Longrightarrow> moves R m') \<Longrightarrow> moves R (if b then m else m')"
  "moves R n \<Longrightarrow> (\<And>x. moves R (f x)) \<Longrightarrow> moves R (case v of None \<Rightarrow> n | Some x \<Rightarrow> f x)"
  "(\<And>x y. moves R (g x y)) \<Longrightarrow> moves R (case p of (x, y) \<Rightarrow> g x y)"
  by (auto split: option.split prod.split)

lemma cat_await: "moves (cat_rel w P) (await_op w f)"
  by (simp add: moves_def await_op_def cat_rel_await)

lemma cat_await_logged: "moves (cat_rel w P) (await_logged w f a)"
  by (simp add: moves_def await_logged_def cat_rel_log_await)

lemma cat_authorize: "moves (cat_rel w P) (authorize_plain w cx a res aud)"
  unfolding authorize_plain_def by (intro cat_split cat_basic cat_await_logged)

lemma cat_runtime_authorize: "moves (cat_rel w P) (runtime_authorize w cx a res aud)"
  unfolding runtime_authorize_def by (intro cat_bind cat_split cat_basic cat_await cat_authorize)

lemma cat_still_available: "moves (cat_rel w P) (still_available sc cx r)"
  unfolding still_available_def by (intro cat_bind cat_basic)

lemma cat_the_registration: "moves (cat_rel w P) (the_registration r)"
  by (auto simp: moves_def the_registration_def cat_rel_def catalog_by_refl split: option.split)

lemma cat_lookup_ref: "moves (cat_rel w P) (lookup_ref t)"
  by (auto simp: moves_def lookup_ref_def cat_rel_def catalog_by_refl split: option.split)

lemmas cat_intros = cat_bind cat_split cat_basic cat_await cat_await_logged cat_authorize cat_runtime_authorize
  cat_still_available cat_the_registration cat_lookup_ref cat_mapM cat_reraise

lemma live_bind_reference: "live (snd (bind_reference token r reg key d c)) r'"
  if "live c r'" "get_reg c r = Some reg"
  using that by (auto simp: live_def bind_reference_def mint_reference_def Let_def split: option.splits)

lemma bind_definitions_steps:
  "live c r \<Longrightarrow> bind_definitions token r seen ds c = (x, c') \<Longrightarrow> (reference_minted token)\<^sup>*\<^sup>* c c'"
proof (induction ds arbitrary: seen c x c')
  case (Cons d ds)
  obtain reg where reg: "get_reg c r = Some reg" "\<not> rg_revoked reg"
    using Cons.prems(1) by (auto simp: live_iff)
  show ?case
  proof (cases "tool_visible (td_metadata d) ''model''")
    case (Inr visible)
    show ?thesis
    proof (cases "visible \<and> td_name d \<notin> set seen")
      case True
      obtain t c1 where b: "bind_reference token r reg (td_name d) (effective_definition reg d) c = (t, c1)"
        by fastforce
      obtain y c2 where rest: "bind_definitions token r (td_name d # seen) ds c1 = (y, c2)"
        by fastforce
      have "reference_minted token c c1"
        using reg b unfolding reference_minted_def by (metis snd_conv)
      moreover have "live c1 r"
        using live_bind_reference [OF Cons.prems(1) reg(1), of token "td_name d" "effective_definition reg d"] b by simp
      moreover have "c' = c2"
        using Cons.prems(2) True Inr reg b rest by (auto split: sum.splits)
      ultimately show ?thesis
        using Cons.IH [OF _ rest] by (auto intro: converse_rtranclp_into_rtranclp)
    next
      case False
      with Cons.prems Cons.IH Inr reg show ?thesis by (cases visible) auto
    qed
  qed (use Cons.prems in simp)
qed simp

lemma available_live: "available sc cx c r \<Longrightarrow> live c r"
  by (auto simp: available_def live_iff Let_def split: option.splits)

text \<open>
  Installing and removing a source end with their one step, in the catalog they find after their
  last \<^verbatim>\<open>await\<close>, or raise without one.
\<close>

lemma cat_install:
  assumes "catalog_install w draft cx s = (r, s')"
  shows "\<exists>c. catalog_by w untouched (dp_cat s) c \<and>
    (case r of Inl _ \<Rightarrow> dp_cat s' = c
     | Inr _ \<Rightarrow> register_source (user_draft (draft\<lparr>rg_graph_generation := None\<rparr>)) c = Ret (dp_cat s'))"
proof -
  obtain x s1 where a: "authorize_plain w cx ''catalog.install'' (capability_resource cx (rg_source_id draft)) [] s = (x, s1)" by fastforce
  from movesD [OF cat_authorize a] have "catalog_by w untouched (dp_cat s) (dp_cat s1)" by (simp add: cat_rel_def)
  then show ?thesis
    using assms a catalog_by_refl [of w untouched "dp_cat s"]
    by (auto simp: catalog_install_def bind_op_def read_op_def guard_op_def lift_op_def raise_op_def ret_op_def
        split: if_split_asm sum.split_asm)
qed

lemma cat_remove:
  assumes "catalog_remove w sc sid cx s = (r, s')"
  shows "\<exists>c. catalog_by w untouched (dp_cat s) c \<and> (case r of Inl _ \<Rightarrow> dp_cat s' = c | Inr _ \<Rightarrow> dp_cat s' = revoke sid c)"
proof -
  obtain x s1 where a: "authorize_plain w cx ''catalog.remove'' (capability_resource cx sid) [] s = (x, s1)" by fastforce
  from movesD [OF cat_authorize a] have "catalog_by w untouched (dp_cat s) (dp_cat s1)" by (simp add: cat_rel_def)
  then show ?thesis
    using assms a catalog_by_refl [of w untouched "dp_cat s"]
    by (auto simp: catalog_remove_def bind_op_def read_op_def guard_op_def raise_op_def ret_op_def modify_op_def the_registration_def
        split: if_split_asm sum.split_asm option.split_asm)
qed

lemma minted_steps: "(reference_minted (w_token w))\<^sup>*\<^sup>* c c' \<Longrightarrow> catalog_by w (reference_minted (w_token w)) c c'"
  unfolding catalog_by_def by (erule rtranclp_mono [THEN predicate2D, rotated]) auto

lemma cat_bind_definitions:
  "moves (cat_rel w (reference_minted (w_token w))) (\<lambda>s. if \<not> available sc cx (dp_cat s) r then (Ret [], s)
     else case bind_definitions (w_token w) r [] definitions (dp_cat s) of (x, c) \<Rightarrow> (x, s\<lparr>dp_cat := c\<rparr>))"
  by (auto simp: moves_def cat_rel_def catalog_by_refl dest!: available_live bind_definitions_steps intro: minted_steps split: prod.split)

lemma cat_discover_source: "moves (cat_rel w (reference_minted (w_token w))) (discover_source w sc cx r)"
  unfolding discover_source_def by (intro cat_intros cat_bind_definitions)

lemma cat_discover: "moves (cat_rel w (reference_minted (w_token w))) (discover w sc cx)"
  unfolding discover_def by (intro cat_intros cat_discover_source)

lemma cat_inspect_sources: "moves (cat_rel w P) (inspect_sources w sc cx rs acc)"
proof (induction rs arbitrary: acc)
  case (Cons r rs)
  then show ?case unfolding inspect_sources.simps Let_def by (intro cat_intros)
qed (simp only: inspect_sources.simps cat_basic)

lemma cat_inspect: "moves (cat_rel w P) (catalog_inspect w sc cx)"
  unfolding catalog_inspect_def by (intro cat_intros cat_inspect_sources)

lemma cat_current_binding: "moves (cat_rel w P) (current_binding w sc t cx)"
  unfolding current_binding_def by (intro cat_intros)

lemma cat_describe: "moves (cat_rel w P) (describe_tool w sc t cx)"
  unfolding describe_tool_def by (intro cat_intros cat_current_binding)

lemma cat_read_resource: "moves (cat_rel w P) (read_tool_resource w sc t uri cx)"
  unfolding read_tool_resource_def by (intro cat_intros cat_current_binding)

lemma cat_call_authorize: "moves (cat_rel w P) (call_authorize w sc cx reg d a)"
  unfolding call_authorize_def by (intro cat_intros)

lemma cat_recheck: "moves (cat_rel w P) (recheck_definition w sc surface r reg d cx)"
  unfolding recheck_definition_def by (intro cat_intros)

lemma cat_admit: "moves (cat_rel w P) (admit_call w sc surface t cx)"
  unfolding admit_call_def by (intro cat_intros cat_call_authorize)

lemma cat_perform: "moves (cat_rel w P) (perform_call w sc surface r reg d args cx)"
  unfolding perform_call_def by (intro cat_intros cat_call_authorize cat_recheck)

lemma cat_observe: "moves (cat_rel w P) (observe_result w reg d result)"
  unfolding observe_result_def by (intro cat_intros)

lemma cat_call_id: "token_drawn \<le> P \<Longrightarrow> moves (cat_rel w P) (call_id_of w cid)"
  by (auto simp: moves_def cat_rel_def call_id_of_def token_drawn_def catalog_by_refl le_fun_def intro!: catalog_by_own)

lemma cat_call: "token_drawn \<le> P \<Longrightarrow> moves (cat_rel w P) (call_tool w sc t args cx cid surface)"
  unfolding call_tool_def by (intro cat_intros cat_call_id cat_admit cat_perform cat_observe)

lemma cat_app_reference:
  "moves (cat_rel w (reference_minted (w_token w))) (\<lambda>s. case app_reference (w_token w) sc cx r definitions name (dp_cat s) of (x, c) \<Rightarrow> (x, s\<lparr>dp_cat := c\<rparr>))"
  unfolding moves_def
proof
  fix s :: dispatch
  obtain x c where a: "app_reference (w_token w) sc cx r definitions name (dp_cat s) = (x, c)" by fastforce
  have "catalog_by w (reference_minted (w_token w)) (dp_cat s) c"
  proof (cases "c = dp_cat s")
    case False
    with a obtain reg e t where reg: "available sc cx (dp_cat s) r" "get_reg (dp_cat s) r = Some reg"
      and b: "bind_reference (w_token w) r reg (''app'' @ CHR 0x00 # name) e (dp_cat s) = (t, c)"
      by (auto simp: app_reference_def Let_def split: if_splits list.splits option.splits sum.splits prod.splits)
    then have "\<not> rg_revoked reg" using available_live [OF reg(1)] by (simp add: live_def)
    with reg(2) b have "reference_minted (w_token w) (dp_cat s) c" unfolding reference_minted_def by (metis snd_conv)
    then show ?thesis by (rule catalog_by_own)
  qed (simp add: catalog_by_refl)
  then show "cat_rel w (reference_minted (w_token w)) s (snd (case app_reference (w_token w) sc cx r definitions name (dp_cat s) of (x, c) \<Rightarrow> (x, s\<lparr>dp_cat := c\<rparr>)))"
    by (simp add: a cat_rel_def)
qed

lemma token_minted: "token_drawn \<le> reference_minted token"
  by (auto simp: reference_minted_def)

lemma minted_step: "reference_minted token c c' \<Longrightarrow> catalog_step token c c'"
  by (auto simp: reference_minted_def token_drawn_def intro: step_bind step_token)

lemma cat_call_source: "moves (cat_rel w (reference_minted (w_token w))) (call_source_tool w sc origin name args cx cid)"
  unfolding call_source_tool_def by (intro cat_intros cat_current_binding cat_app_reference cat_call token_minted)

section \<open>The protocol of a call\<close>

text \<open>
  What the ledger of a run may see of one call, as an automaton over the dispatcher's actions.
  \<open>Refused\<close>, \<open>Admitted\<close>, \<open>Failed\<close>, \<open>Completed\<close> and \<open>Unrecorded\<close> are places where a call
  may end; \<open>Begun\<close>, \<open>Running\<close>, \<open>Withheld\<close> and \<open>Publishable\<close> are not: there the ledger holds
  a begun call without a receipt.
\<close>

datatype call_phase =
    Ready | Refused | Admitted | Begun | Running | Withheld | Publishable | Failed | Completed | Unrecorded

fun call_step ::
  "string \<Rightarrow> string \<Rightarrow> nat \<Rightarrow> string \<Rightarrow> json \<Rightarrow> call_phase \<Rightarrow> ledger_action \<Rightarrow> call_phase option" where
  "call_step rid cid src name args p (LAuthorize a ok) =
     (if p = Ready \<and> a = ''tool.call'' then Some (if ok then Admitted else Refused)
      else if p = Running \<and> a = ''tool.publish'' then Some (if ok then Publishable else Withheld)
      else None)"
| "call_step rid cid src name args p (LBegin rid' cid' binding args' ok) =
     (if p = Admitted \<and> rid' = rid \<and> cid' = cid \<and> args' = args then Some (if ok then Begun else Refused) else None)"
| "call_step rid cid src name args p (LInvoke src' name' args') =
     (if p = Begun \<and> src' = src \<and> name' = name \<and> args' = args then Some Running else None)"
| "call_step rid cid src name args p (LFinishError rid' cid' e ok) =
     (if p \<in> {Begun, Running, Withheld, Publishable} \<and> rid' = rid \<and> cid' = cid
      then Some (if ok then Failed else Unrecorded) else None)"
| "call_step rid cid src name args p (LFinishResult rid' cid' v ok) =
     (if p = Publishable \<and> rid' = rid \<and> cid' = cid then Some (if ok then Completed else Unrecorded) else None)"
| "call_step rid cid src name args p (LObserve i v) = (if p = Completed then Some Completed else None)"

fun call_run ::
  "string \<Rightarrow> string \<Rightarrow> nat \<Rightarrow> string \<Rightarrow> json \<Rightarrow> call_phase \<Rightarrow> ledger_action list \<Rightarrow> call_phase option" where
  "call_run rid cid src name args p [] = Some p"
| "call_run rid cid src name args p (a # as) =
     Option.bind (call_step rid cid src name args p a) (\<lambda>q. call_run rid cid src name args q as)"

lemma call_run_append:
  "call_run rid cid src name args p (as @ bs) =
     Option.bind (call_run rid cid src name args p as) (\<lambda>q. call_run rid cid src name args q bs)"
  by (induction as arbitrary: p) (simp_all split: bind_split)

text \<open>
  \<open>traces A p Q m\<close>: started with the automaton \<open>A\<close> in phase \<open>p\<close>, the actions \<open>m\<close> adds to the
  log lead it to a phase that satisfies \<open>Q\<close> for the outcome of \<open>m\<close>.
\<close>

definition traces ::
  "(call_phase \<Rightarrow> ledger_action list \<Rightarrow> call_phase option) \<Rightarrow> call_phase \<Rightarrow> ('a res \<Rightarrow> call_phase \<Rightarrow> bool)
    \<Rightarrow> (dispatch, 'a) op \<Rightarrow> bool" where
  "traces A p Q m \<longleftrightarrow> (\<forall>s. \<exists>l q. dp_log (snd (m s)) = dp_log s @ l \<and> A p l = Some q \<and> Q (fst (m s)) q)"

lemma tracesD:
  assumes "traces A p Q m" "m s = (r, s')"
  obtains l q where "dp_log s' = dp_log s @ l" "A p l = Some q" "Q r q"
  using assms unfolding traces_def by (metis fst_conv snd_conv)

lemma traces_bind:
  assumes A: "\<And>p as bs. A p (as @ bs) = Option.bind (A p as) (\<lambda>q. A q bs)"
    and m: "traces A p Q m" and raised: "\<And>e q. Q (Inl e) q \<Longrightarrow> S (Inl e) q"
    and f: "\<And>x q. Q (Inr x) q \<Longrightarrow> traces A q S (f x)"
  shows "traces A p S (bind_op m f)"
  unfolding traces_def
proof
  fix s
  obtain r s' where ms: "m s = (r, s')" by fastforce
  obtain l q where l: "dp_log s' = dp_log s @ l" "A p l = Some q" "Q r q"
    using m ms by (rule tracesD)
  show "\<exists>l q. dp_log (snd (bind_op m f s)) = dp_log s @ l \<and> A p l = Some q \<and> S (fst (bind_op m f s)) q"
  proof (cases r)
    case (Inl e)
    with ms l raised show ?thesis by auto
  next
    case (Inr x)
    obtain r2 s2 where fs: "f x s' = (r2, s2)" by fastforce
    have "traces A q S (f x)" using f l(3) Inr by simp
    from this fs obtain l2 q2 where "dp_log s2 = dp_log s' @ l2" "A q l2 = Some q2" "S r2 q2" by (rule tracesD)
    with ms fs Inr l A [of p l l2] show ?thesis by (auto intro!: exI [of _ "l @ l2"])
  qed
qed

text \<open>An operation that adds nothing to the log.\<close>

definition log_eq :: "dispatch \<Rightarrow> dispatch \<Rightarrow> bool" where
  "log_eq s s' \<longleftrightarrow> dp_log s' = dp_log s"

lemma log_eq_reflp: "reflp log_eq"
  by (simp add: reflp_def log_eq_def)

lemma log_eq_transp: "transp log_eq"
  by (simp add: transp_def log_eq_def)

lemmas quiet_basic = moves_basic [OF log_eq_reflp]
lemmas quiet_bind = moves_bind [OF log_eq_transp]

lemma quiet_await: "moves log_eq (await_op w f)"
  by (simp add: moves_def await_op_def await_def log_eq_def)

lemma quiet_still: "moves log_eq (still_available sc cx r)"
  unfolding still_available_def by (intro quiet_bind quiet_basic)

lemma quiet_recheck: "moves log_eq (recheck_definition w sc surface r reg d cx)"
  unfolding recheck_definition_def by (intro quiet_bind quiet_basic quiet_await quiet_still)

lemmas quiet_intros = quiet_bind quiet_basic quiet_await quiet_still quiet_recheck cat_split

lemma traces_quiet:
  assumes "moves log_eq m" "A p [] = Some p" "\<And>r. Q r p"
  shows "traces A p Q m"
  using assms unfolding traces_def moves_def log_eq_def by (metis append_Nil2)

lemma traces_logged:
  assumes "\<And>r. \<exists>q. A p [a r] = Some q \<and> Q r q"
  shows "traces A p Q (await_logged w f a)"
  using assms by (fastforce simp: traces_def await_logged_def await_def log_action_def)

lemma traces_weaken:
  assumes "traces A p Q m" "\<And>r q. Q r q \<Longrightarrow> S r q"
  shows "traces A p S m"
  using assms unfolding traces_def by blast

lemma traces_guard_op:
  assumes "A p [] = Some p" "\<not> b \<Longrightarrow> Q (Inl e) p" "b \<Longrightarrow> Q (Inr ()) p"
  shows "traces A p Q (guard_op b e)"
  using assms by (cases b) (auto simp: traces_def)

text \<open>An operation that adds nothing to the log, before another one.\<close>

lemma traces_skip:
  assumes A: "\<And>p as bs. A p (as @ bs) = Option.bind (A p as) (\<lambda>q. A q bs)" "A p [] = Some p"
    and "moves log_eq m" "\<And>e. S (Inl e) p" "\<And>x. traces A p S (f x)"
  shows "traces A p S (bind_op m f)"
proof (rule traces_bind [where Q = "\<lambda>r q. q = p"])
  show "traces A p (\<lambda>r q. q = p) m" using assms by (intro traces_quiet) simp_all
qed (use assms in auto)

lemma traces_reraise:
  assumes A: "\<And>p as bs. A p (as @ bs) = Option.bind (A p as) (\<lambda>q. A q bs)"
    and m: "traces A p Q m" and ok: "\<And>x q. Q (Inr x) q \<Longrightarrow> S (Inr x) q"
    and h: "\<And>e q. Q (Inl e) q \<Longrightarrow> traces A q (\<lambda>r q'. \<forall>e. S (Inl e) q') (h e)"
  shows "traces A p S (reraise_op m h)"
  unfolding traces_def
proof
  fix s
  obtain r s' where ms: "m s = (r, s')" by fastforce
  obtain l q where l: "dp_log s' = dp_log s @ l" "A p l = Some q" "Q r q"
    using m ms by (rule tracesD)
  show "\<exists>l q. dp_log (snd (reraise_op m h s)) = dp_log s @ l \<and> A p l = Some q \<and> S (fst (reraise_op m h s)) q"
  proof (cases r)
    case (Inr x)
    with ms l ok show ?thesis by (auto simp: reraise_op_def)
  next
    case (Inl e)
    obtain r2 s2 where hs: "h e s' = (r2, s2)" by fastforce
    have "traces A q (\<lambda>r q'. \<forall>e. S (Inl e) q') (h e)" using h l(3) Inl by simp
    from this hs obtain l2 q2 where "dp_log s2 = dp_log s' @ l2" "A q l2 = Some q2" "\<forall>e. S (Inl e) q2" by (rule tracesD)
    with ms hs Inl l A [of p l l2] show ?thesis
      by (cases r2) (auto simp: reraise_op_def intro!: exI [of _ "l @ l2"])
  qed
qed

text \<open>The pieces of a call inside a run.\<close>

lemma traces_authorize:
  assumes "call_run rid cid src name args p [LAuthorize a True] = Some yes"
    "call_run rid cid src name args p [LAuthorize a False] = Some no"
    "\<And>e. S (Inl e) p" "\<And>e. S (Inl e) no" "S (Inr ()) yes"
  shows "traces (call_run rid cid src name args) p S (authorize_plain w cx a res aud)"
proof (cases "rs_tenant_id res = cx_tenant_id cx")
  case True
  have "traces (call_run rid cid src name args) p S
    (await_logged w (\<lambda>t. require_authorized (w_authorize w t) cx a res aud) (\<lambda>r. LAuthorize a (returned r)))"
  proof (rule traces_logged)
    fix r :: "unit res"
    show "\<exists>q. call_run rid cid src name args p [LAuthorize a (returned r)] = Some q \<and> S r q"
      using assms by (cases r) (auto simp: returned_def)
  qed
  with True show ?thesis by (simp add: authorize_plain_def)
next
  case False
  then show ?thesis
    using assms by (simp add: authorize_plain_def traces_quiet traces_def)
qed

lemma traces_call_authorize:
  assumes "call_run rid cid src name args p [LAuthorize a True] = Some yes"
    "call_run rid cid src name args p [LAuthorize a False] = Some no"
    "\<And>e. S (Inl e) p" "\<And>e. S (Inl e) no" "S (Inr ()) yes"
  shows "traces (call_run rid cid src name args) p S (call_authorize w sc cx reg d a)"
proof -
  have "traces (call_run rid cid src name args) p S (runtime_authorize w cx a (tool_resource cx reg d) (cx_audience cx))"
    unfolding runtime_authorize_def
    by (intro traces_skip [OF call_run_append call_run.simps(1)] traces_authorize [OF assms] quiet_intros assms(3))
  moreover have "traces (call_run rid cid src name args) p S (authorize_plain w cx a (tool_resource cx reg d) (cx_audience cx))"
    by (rule traces_authorize [OF assms])
  ultimately show ?thesis by (simp add: call_authorize_def)
qed

definition admit_rest ::
  "world \<Rightarrow> scope \<Rightarrow> string \<Rightarrow> execution_context \<Rightarrow> nat \<Rightarrow> registration \<Rightarrow> tool_definition
    \<Rightarrow> (dispatch, nat \<times> registration \<times> tool_definition) op" where
  "admit_rest w sc surface cx r reg d =
     bind_op (still_available sc cx r) (\<lambda>_.
     bind_op (guard_op (\<not> rg_result_provenance reg \<and> \<not> rg_invocation_provenance reg) CapabilityUnavailable) (\<lambda>_.
     bind_op (call_authorize w sc cx reg d ''tool.call'') (\<lambda>_.
     bind_op (await_op w (\<lambda>t. discovered w surface t reg cx)) (\<lambda>current.
     bind_op (lift_op (tool_visible (td_metadata d) surface)) (\<lambda>visible.
     bind_op (guard_op visible PermissionError) (\<lambda>_.
     bind_op (guard_op (d \<in> set (map (effective_definition reg) current)) CapabilityUnavailable) (\<lambda>_.
     bind_op (still_available sc cx r) (\<lambda>_.
     ret_op (r, reg, d)))))))))"

text \<open>Which source and which tool a reference stands for.\<close>

definition call_target :: "catalog \<Rightarrow> string \<Rightarrow> nat \<times> string" where
  "call_target c tool_ref =
     (case map_of (ct_refs c) tool_ref of
        None \<Rightarrow> (0, [])
      | Some (r, d) \<Rightarrow> (case get_reg c r of None \<Rightarrow> (0, []) | Some reg \<Rightarrow> (rg_source reg, td_name d)))"

lemma admit_call_cases:
  "admit_call w sc surface tool_ref cx s =
     (case map_of (ct_refs (dp_cat s)) tool_ref of
        None \<Rightarrow> (Raise CapabilityUnavailable, s)
      | Some (r, d) \<Rightarrow> (case get_reg (dp_cat s) r of
           None \<Rightarrow> (Raise CapabilityUnavailable, s)
         | Some reg \<Rightarrow> admit_rest w sc surface cx r reg d s))"
  by (auto simp: admit_call_def lookup_ref_def the_registration_def bind_op_def admit_rest_def split: option.split)

definition admitted ::
  "nat \<Rightarrow> string \<Rightarrow> (nat \<times> registration \<times> tool_definition) res \<Rightarrow> call_phase \<Rightarrow> bool" where
  "admitted src name r q \<longleftrightarrow>
     (case r of Inl _ \<Rightarrow> q \<in> {Ready, Refused, Admitted}
      | Inr (_, reg, d) \<Rightarrow> q = Admitted \<and> rg_source reg = src \<and> td_name d = name)"

lemmas call_skip = traces_skip [OF call_run_append call_run.simps(1)]

lemma traces_admit_rest:
  "traces (call_run rid cid (rg_source reg) (td_name d) args) Ready (admitted (rg_source reg) (td_name d))
     (admit_rest w sc surface cx r reg d)"
proof -
  let ?A = "call_run rid cid (rg_source reg) (td_name d) args" and ?S = "admitted (rg_source reg) (td_name d)"
  let ?Q = "\<lambda>r q. case r of Inl _ \<Rightarrow> q \<in> {Ready, Refused} | Inr _ \<Rightarrow> q = Admitted"
  have rest: "traces ?A Admitted ?S
     (bind_op (await_op w (\<lambda>t. discovered w surface t reg cx)) (\<lambda>current.
     bind_op (lift_op (tool_visible (td_metadata d) surface)) (\<lambda>visible.
     bind_op (guard_op visible PermissionError) (\<lambda>_.
     bind_op (guard_op (d \<in> set (map (effective_definition reg) current)) CapabilityUnavailable) (\<lambda>_.
     bind_op (still_available sc cx r) (\<lambda>_. ret_op (r, reg, d)))))))"
    by (rule call_skip, (intro quiet_intros; fail), simp add: admitted_def)+ (simp add: traces_def admitted_def)
  have auth: "traces ?A Ready ?Q (call_authorize w sc cx reg d ''tool.call'')"
    by (rule traces_call_authorize [where yes = Admitted and no = Refused]) simp_all
  have "traces ?A Ready ?S
     (bind_op (call_authorize w sc cx reg d ''tool.call'') (\<lambda>_.
     bind_op (await_op w (\<lambda>t. discovered w surface t reg cx)) (\<lambda>current.
     bind_op (lift_op (tool_visible (td_metadata d) surface)) (\<lambda>visible.
     bind_op (guard_op visible PermissionError) (\<lambda>_.
     bind_op (guard_op (d \<in> set (map (effective_definition reg) current)) CapabilityUnavailable) (\<lambda>_.
     bind_op (still_available sc cx r) (\<lambda>_. ret_op (r, reg, d))))))))"
    by (rule traces_bind [OF call_run_append auth]) (use rest in \<open>auto simp: admitted_def\<close>)
  then show ?thesis
    unfolding admit_rest_def
    by - (rule call_skip, (intro quiet_intros; fail), simp add: admitted_def)+
qed

definition performed :: "'a res \<Rightarrow> call_phase \<Rightarrow> bool" where
  "performed r q \<longleftrightarrow>
     (case r of Inl _ \<Rightarrow> q \<in> {Begun, Running, Withheld, Publishable} | Inr _ \<Rightarrow> q = Publishable)"

lemma traces_perform:
  "traces (call_run rid cid (rg_source reg) (td_name d) args) Begun performed (perform_call w sc surface r reg d args cx)"
proof -
  let ?A = "call_run rid cid (rg_source reg) (td_name d) args"
  let ?Q = "\<lambda>r q. case r of Inl _ \<Rightarrow> q \<in> {Running, Withheld} | Inr _ \<Rightarrow> q = Publishable"
  define after where "after result =
     bind_op (still_available sc cx r) (\<lambda>_.
     bind_op (recheck_definition w sc surface r reg d cx) (\<lambda>_.
     bind_op (lift_op (if durable sc \<noteq> None then w_encode w result else Ret result)) (\<lambda>envelope.
     ret_op (result, envelope))))" for result
  have after: "traces ?A Publishable performed (after result)" for result
    unfolding after_def
    by (rule call_skip, (intro quiet_intros; fail), simp add: performed_def)+ (simp add: traces_def performed_def)
  have auth: "traces ?A Running ?Q (call_authorize w sc cx reg d ''tool.publish'')"
    by (rule traces_call_authorize [where yes = Publishable and no = Withheld]) simp_all
  have publish: "traces ?A Running performed (bind_op (call_authorize w sc cx reg d ''tool.publish'') (\<lambda>_. after result))" for result
    by (rule traces_bind [OF call_run_append auth]) (use after in \<open>auto simp: performed_def\<close>)
  have invoke: "traces ?A Begun (\<lambda>r q. q = Running)
    (await_logged w (\<lambda>t. w_invoke w t (rg_source reg) surface (td_name d) args cx) (\<lambda>_. LInvoke (rg_source reg) (td_name d) args))"
    by (rule traces_logged) simp
  have "traces ?A Begun performed
    (bind_op (await_logged w (\<lambda>t. w_invoke w t (rg_source reg) surface (td_name d) args cx) (\<lambda>_. LInvoke (rg_source reg) (td_name d) args))
      (\<lambda>result. bind_op (call_authorize w sc cx reg d ''tool.publish'') (\<lambda>_. after result)))"
    by (rule traces_bind [OF call_run_append invoke]) (use publish in \<open>auto simp: performed_def\<close>)
  then show ?thesis
    unfolding perform_call_def after_def [symmetric]
    by - (rule call_skip, (intro quiet_intros; fail), simp add: performed_def)
qed

lemma traces_observe:
  "traces (call_run rid cid src name args) Completed (\<lambda>r q. q = Completed) (observe_result w reg d result)"
proof -
  have loop: "traces (call_run rid cid src name args) Completed (\<lambda>r q. q = Completed)
     (mapM_op (\<lambda>i. await_logged w (\<lambda>t. w_observe w t i result) (\<lambda>_. LObserve i result)) is)" for "is"
  proof (induction "is")
    case (Cons i "is")
    show ?case
      unfolding mapM_op.simps
      apply (rule traces_bind [OF call_run_append, where Q = "\<lambda>r q. q = Completed"])
        apply (rule traces_logged, simp)
       apply simp
      apply simp
      apply (rule traces_bind [OF call_run_append, where Q = "\<lambda>r q. q = Completed", OF Cons.IH])
       apply simp
      apply (simp add: traces_def)
      done
  qed (simp add: traces_def)
  show ?thesis
    unfolding observe_result_def
    apply (rule call_skip, (intro quiet_intros; fail), simp)
    apply (rule traces_bind [OF call_run_append, where Q = "\<lambda>r q. q = Completed", OF loop])
     apply simp
    apply simp
    apply (rule traces_quiet)
      apply (intro quiet_intros)
     apply simp_all
    done
qed

definition called :: "'a res \<Rightarrow> call_phase \<Rightarrow> bool" where
  "called r q \<longleftrightarrow>
     (case r of Inl _ \<Rightarrow> q \<in> {Ready, Refused, Admitted, Failed, Unrecorded, Completed} | Inr _ \<Rightarrow> q = Completed)"

lemma traces_call:
  assumes "durable sc = Some rid"
  shows "traces (call_run rid cid (rg_source reg) (td_name d) args) Admitted called
    (bind_op (await_logged w (\<lambda>t. w_begin w t rid cid)
        (\<lambda>b. LBegin rid cid (call_binding sc tool_ref reg d) args (returned b))) (\<lambda>_.
     bind_op (reraise_op (perform_call w sc surface r reg d args cx)
         (\<lambda>e. await_logged w (\<lambda>t. w_finish w t rid cid) (\<lambda>b. LFinishError rid cid (unknown_effects e) (returned b))))
         (\<lambda>(result, envelope).
     bind_op (await_logged w (\<lambda>t. w_finish w t rid cid) (\<lambda>b. LFinishResult rid cid envelope (returned b))) (\<lambda>_.
     bind_op (observe_result w reg d result) (\<lambda>_. ret_op result)))))"
proof -
  let ?A = "call_run rid cid (rg_source reg) (td_name d) args"
  have observe: "traces ?A Completed called (bind_op (observe_result w reg d result) (\<lambda>_. ret_op result))" for result
    by (rule traces_bind [OF call_run_append traces_observe]) (simp_all add: called_def traces_def)
  have finish: "traces ?A Publishable called
    (bind_op (await_logged w (\<lambda>t. w_finish w t rid cid) (\<lambda>b. LFinishResult rid cid envelope (returned b))) (\<lambda>_.
     bind_op (observe_result w reg d result) (\<lambda>_. ret_op result)))" for envelope result
  proof (rule traces_bind [OF call_run_append, where Q = "\<lambda>b q. q = (if returned b then Completed else Unrecorded)"])
    show "traces ?A Publishable (\<lambda>b q. q = (if returned b then Completed else Unrecorded))
      (await_logged w (\<lambda>t. w_finish w t rid cid) (\<lambda>b. LFinishResult rid cid envelope (returned b)))"
      by (rule traces_logged) simp
  qed (use observe in \<open>simp_all add: called_def returned_def\<close>)
  have perform: "traces ?A Begun (\<lambda>r q. case r of Inl _ \<Rightarrow> q \<in> {Failed, Unrecorded} | Inr _ \<Rightarrow> q = Publishable)
    (reraise_op (perform_call w sc surface r reg d args cx)
       (\<lambda>e. await_logged w (\<lambda>t. w_finish w t rid cid) (\<lambda>b. LFinishError rid cid (unknown_effects e) (returned b))))"
  proof (rule traces_reraise [OF call_run_append traces_perform])
    fix e :: py_error and q assume "performed (Inl e :: (json \<times> json) res) q"
    then show "traces ?A q (\<lambda>r q'. \<forall>e :: py_error. case Inl e :: (json \<times> json) res of Inl _ \<Rightarrow> q' \<in> {Failed, Unrecorded} | Inr _ \<Rightarrow> q' = Publishable)
      (await_logged w (\<lambda>t. w_finish w t rid cid) (\<lambda>b. LFinishError rid cid (unknown_effects e) (returned b)))"
      by (intro traces_logged) (auto simp: performed_def)
  qed (simp add: performed_def)
  show ?thesis
  proof (rule traces_bind [OF call_run_append, where Q = "\<lambda>b q. q = (if returned b then Begun else Refused)"])
    show "traces ?A Admitted (\<lambda>b q. q = (if returned b then Begun else Refused))
      (await_logged w (\<lambda>t. w_begin w t rid cid) (\<lambda>b. LBegin rid cid (call_binding sc tool_ref reg d) args (returned b)))"
      by (rule traces_logged) simp
  next
    fix x :: unit and q assume "q = (if returned (Inr x :: unit res) then Begun else Refused)"
    then have "q = Begun" by (simp add: returned_def)
    have "traces ?A Begun called (bind_op (reraise_op (perform_call w sc surface r reg d args cx)
         (\<lambda>e. await_logged w (\<lambda>t. w_finish w t rid cid) (\<lambda>b. LFinishError rid cid (unknown_effects e) (returned b))))
         (\<lambda>(result, envelope).
     bind_op (await_logged w (\<lambda>t. w_finish w t rid cid) (\<lambda>b. LFinishResult rid cid envelope (returned b))) (\<lambda>_.
     bind_op (observe_result w reg d result) (\<lambda>_. ret_op result))))"
      by (rule traces_bind [OF call_run_append perform]) (use finish in \<open>auto simp: called_def split: prod.split\<close>)
    then show "traces ?A q called (bind_op (reraise_op (perform_call w sc surface r reg d args cx)
         (\<lambda>e. await_logged w (\<lambda>t. w_finish w t rid cid) (\<lambda>b. LFinishError rid cid (unknown_effects e) (returned b))))
         (\<lambda>(result, envelope).
     bind_op (await_logged w (\<lambda>t. w_finish w t rid cid) (\<lambda>b. LFinishResult rid cid envelope (returned b))) (\<lambda>_.
     bind_op (observe_result w reg d result) (\<lambda>_. ret_op result))))"
      by (simp only: \<open>q = Begun\<close>)
  qed (simp_all add: called_def returned_def)
qed

section \<open>What discovery hands out\<close>

lemma bind_reference_get:
  assumes "get_reg c r = Some reg" "bind_reference token r reg key d c = (t, c')"
  obtains reg' where "get_reg c' r = Some reg'" "map_of (rg_references reg') key = Some (t, d)"
    "\<And>k. k \<noteq> key \<Longrightarrow> map_of (rg_references reg') k = map_of (rg_references reg) k"
    "rg_revoked reg' = rg_revoked reg" "rg_source_id reg' = rg_source_id reg" "rg_target_label reg' = rg_target_label reg"
    "rg_trusted_effects reg' = rg_trusted_effects reg"
proof (cases "\<exists>t'. map_of (rg_references reg) key = Some (t', d)")
  case True
  with assms show ?thesis by (intro that [of reg]) (auto simp: bind_reference_def)
next
  case False
  have "get_reg c' r = Some (reg\<lparr>rg_references := AList.update key (t, d) (rg_references reg)\<rparr>)"
    using assms False by (auto simp: bind_reference_def mint_reference_def Let_def split: option.splits if_splits prod.splits)
  then show ?thesis by (rule that) (simp_all add: pd.lookup_put)
qed

lemma bind_definitions_keep:
  assumes "get_reg c r = Some reg" "bind_definitions token r seen ds c = (x, c')"
  shows "\<exists>reg'. get_reg c' r = Some reg' \<and> rg_revoked reg' = rg_revoked reg
    \<and> (\<forall>k \<in> set seen. map_of (rg_references reg') k = map_of (rg_references reg) k)"
  using assms
proof (induction ds arbitrary: seen c reg x c')
  case (Cons d ds)
  show ?case
  proof (cases "tool_visible (td_metadata d) ''model''")
    case (Inr visible)
    show ?thesis
    proof (cases "visible \<and> td_name d \<notin> set seen")
      case True
      obtain t c1 where b: "bind_reference token r reg (td_name d) (effective_definition reg d) c = (t, c1)"
        by fastforce
      from Cons.prems(1) b obtain reg1 where reg1: "get_reg c1 r = Some reg1" "rg_revoked reg1 = rg_revoked reg"
        "\<And>k. k \<noteq> td_name d \<Longrightarrow> map_of (rg_references reg1) k = map_of (rg_references reg) k"
        by (rule bind_reference_get) blast
      obtain y c2 where rest: "bind_definitions token r (td_name d # seen) ds c1 = (y, c2)"
        by fastforce
      have "c' = c2"
        using Cons.prems True Inr b rest by (auto split: sum.splits)
      moreover have "\<forall>k \<in> set seen. map_of (rg_references reg1) k = map_of (rg_references reg) k"
        using True reg1(3) by metis
      ultimately show ?thesis using Cons.IH [OF reg1(1) rest] reg1(2) by auto
    next
      case False
      with Cons.prems Cons.IH Inr show ?thesis by (cases visible) auto
    qed
  qed (use Cons.prems in auto)
qed auto

lemma bind_definitions_references:
  assumes "get_reg c r = Some reg" "bind_definitions token r seen ds c = (Ret out, c')"
  shows "distinct (map ds_name out) \<and> set (map ds_name out) \<inter> set seen = {} \<and>
    (\<exists>reg'. get_reg c' r = Some reg' \<and> list_all2 (\<lambda>x d. map_of (rg_references reg') (ds_name x) = Some (ds_tool_ref x, effective_definition reg d)
      \<and> x = descriptor_of (ds_tool_ref x) reg (effective_definition reg d)) out
      (filter (\<lambda>d. tool_visible (td_metadata d) ''model'' = Ret True) ds))"
  using assms
proof (induction ds arbitrary: seen c reg out c')
  case (Cons d ds)
  obtain visible where v: "tool_visible (td_metadata d) ''model'' = Ret visible"
    using Cons.prems by (cases "tool_visible (td_metadata d) ''model''") auto
  show ?case
  proof (cases visible)
    case False
    with v Cons.prems have "bind_definitions token r seen ds c = (Ret out, c')" by simp
    from Cons.IH [OF Cons.prems(1) this] v False show ?thesis by simp
  next
    case True
    let ?e = "effective_definition reg d"
    obtain t c1 where b: "bind_reference token r reg (td_name d) ?e c = (t, c1)" by fastforce
    from Cons.prems v True b obtain rest where rest: "bind_definitions token r (td_name d # seen) ds c1 = (Ret rest, c')"
      and out: "out = descriptor_of t reg ?e # rest" and new: "td_name d \<notin> set seen"
      by (auto split: if_splits prod.splits sum.splits)
    from Cons.prems(1) b obtain reg1 where reg1: "get_reg c1 r = Some reg1" "map_of (rg_references reg1) (td_name d) = Some (t, ?e)"
      "rg_source_id reg1 = rg_source_id reg" "rg_target_label reg1 = rg_target_label reg" "rg_trusted_effects reg1 = rg_trusted_effects reg"
      by (rule bind_reference_get) blast
    have eff: "effective_definition reg1 = effective_definition reg"
      by (rule ext) (simp add: effective_definition_def reg1)
    have desc: "descriptor_of u reg1 = descriptor_of u reg" for u
      by (rule ext) (simp add: descriptor_of_def reg1)
    from bind_definitions_keep [OF reg1(1) rest] reg1(2) obtain reg2
      where reg2: "get_reg c' r = Some reg2" "map_of (rg_references reg2) (td_name d) = Some (t, ?e)" by auto
    have name: "ds_name (descriptor_of t reg ?e) = td_name d" "ds_tool_ref (descriptor_of t reg ?e) = t"
      by (simp_all add: descriptor_of_def effective_definition_def)
    note IH = Cons.IH [OF reg1(1) rest, unfolded eff desc]
    then have "distinct (map ds_name out) \<and> set (map ds_name out) \<inter> set seen = {}"
      using new name by (auto simp: out)
    moreover have "filter (\<lambda>d. tool_visible (td_metadata d) ''model'' = Ret True) (d # ds)
        = d # filter (\<lambda>d. tool_visible (td_metadata d) ''model'' = Ret True) ds" using v True by simp
    ultimately show ?thesis using IH reg2 name unfolding out by simp
  qed
qed auto

text \<open>
  C20: Discovery of a live source hands out a reference for each of the definitions it read that the
  model may see, in their order, and for no other.  Each resolves, in the catalog discovery leaves
  behind, to this registration and to that definition with its effects cut down to the host's
  trusted ones, and no name occurs twice.
\<close>

theorem discovered_references_resolve:
  assumes "inj token" "wf_catalog token c" "get_reg c r = Some reg" "\<not> rg_revoked reg"
    and "bind_definitions token r [] ds c = (Ret out, c')"
  shows "wf_catalog token c' \<and> distinct (map ds_name out)
    \<and> list_all2 (\<lambda>x d. map_of (ct_refs c') (ds_tool_ref x) = Some (r, effective_definition reg d)
         \<and> x = descriptor_of (ds_tool_ref x) reg (effective_definition reg d) \<and> ds_effects x \<subseteq> td_effects d) out
       (filter (\<lambda>d. tool_visible (td_metadata d) ''model'' = Ret True) ds)"
proof -
  have "live c r" using assms(3,4) by (auto simp: live_iff)
  from bind_definitions_steps [OF this assms(5)] have "(catalog_step token)\<^sup>*\<^sup>* c c'"
    by (rule rtranclp_mono [THEN predicate2D, rotated]) (auto intro: minted_step)
  from wf_steps [OF this assms(1,2)] have wf: "wf_catalog token c'" .
  then have wfr: "wf_refs token c'" by (simp add: wf_catalog_def)
  note refs = bind_definitions_references [OF assms(3,5)]
  then obtain reg1 where reg1: "get_reg c' r = Some reg1" and bound:
    "list_all2 (\<lambda>x d. map_of (rg_references reg1) (ds_name x) = Some (ds_tool_ref x, effective_definition reg d)
      \<and> x = descriptor_of (ds_tool_ref x) reg (effective_definition reg d)) out
      (filter (\<lambda>d. tool_visible (td_metadata d) ''model'' = Ret True) ds)" by blast
  have "\<not> rg_revoked reg1"
    using bind_definitions_keep [OF assms(3,5)] assms(4) reg1 by auto
  note ref = wf_refsD(3) [OF wfr reg1 this]
  from bound have "list_all2 (\<lambda>x d. map_of (ct_refs c') (ds_tool_ref x) = Some (r, effective_definition reg d)
         \<and> x = descriptor_of (ds_tool_ref x) reg (effective_definition reg d) \<and> ds_effects x \<subseteq> td_effects d) out
       (filter (\<lambda>d. tool_visible (td_metadata d) ''model'' = Ret True) ds)"
  proof (rule list_all2_mono, elim conjE, intro conjI)
    fix x d
    assume x: "map_of (rg_references reg1) (ds_name x) = Some (ds_tool_ref x, effective_definition reg d)"
      "x = descriptor_of (ds_tool_ref x) reg (effective_definition reg d)"
    from ref [OF x(1)] show "map_of (ct_refs c') (ds_tool_ref x) = Some (r, effective_definition reg d)" .
    show "ds_effects x \<subseteq> td_effects d"
      by (subst x(2)) (simp add: descriptor_of_def effective_definition_def)
    show "x = descriptor_of (ds_tool_ref x) reg (effective_definition reg d)" by (rule x(2))
  qed
  with wf refs show ?thesis by blast
qed

theorem discovered_references_resolve_witness:
  "\<exists>out c'. bind_definitions ex_token 0 [] [ex_tool ''click'', ex_tool ''type''] ex_catalog = (Ret out, c')
     \<and> map ds_name out = [''click'', ''type'']
     \<and> (\<forall>x \<in> set out. map_of (ct_refs c') (ds_tool_ref x) \<noteq> None)"
proof -
  obtain reg where reg: "get_reg ex_catalog 0 = Some reg" "\<not> rg_revoked reg"
    by (simp add: ex_catalog_simps)
  obtain out c' where run: "bind_definitions ex_token 0 [] [ex_tool ''click'', ex_tool ''type''] ex_catalog = (Ret out, c')"
    and names: "map ds_name out = [''click'', ''type'']"
    by (simp add: ex_catalog_simps tool_visible_def jget_def effective_definition_def descriptor_of_def)
  from discovered_references_resolve [OF inj_ex_token ex_catalog_wf reg run]
  have "\<forall>x \<in> set out. map_of (ct_refs c') (ds_tool_ref x) \<noteq> None"
    by (fastforce simp: list_all2_conv_all_nth in_set_conv_nth)
  with run names show ?thesis by (intro exI [of _ out] exI [of _ c'] conjI)
qed

section \<open>Properties of the dispatcher\<close>

lemma cat_moved: "moves (cat_rel w P) m \<Longrightarrow> catalog_by w P (dp_cat s) (dp_cat (snd (m s)))"
  by (simp add: moves_def cat_rel_def)

lemma own_steps:
  "untouched c c' \<Longrightarrow> (catalog_step token)\<^sup>*\<^sup>* c c'" "token_drawn c c' \<Longrightarrow> (catalog_step token)\<^sup>*\<^sup>* c c'"
  "reference_minted token c c' \<Longrightarrow> (catalog_step token)\<^sup>*\<^sup>* c c'"
  using minted_step [of token c c'] step_token [of token c] by (auto simp: untouched_def token_drawn_def)

lemma catalog_by_wf:
  assumes "catalog_by w P c c'" "fair_world w" "inj (w_token w)" "wf_catalog (w_token w) c"
    and "\<And>c c'. P c c' \<Longrightarrow> (catalog_step (w_token w))\<^sup>*\<^sup>* c c'"
  shows "wf_catalog (w_token w) c'"
  by (rule wf_steps [OF catalog_by_steps [OF assms(1,2,5)] assms(3,4)])

text \<open>
  C19: The only changes that an operation of the dispatcher makes to the catalog itself, whatever the
  other tasks do to it at its awaits and however it ends: installing a source registers it once
  and removing one revokes it, when they succeed, and otherwise do nothing; discovery and a call by name only
  make references of live registrations; a call only draws the token of its identifier;
  inspection, description and reading a resource change nothing.  When the other tasks use the
  catalog through its operations, every one of them keeps it well formed.
\<close>

theorem dispatcher_keeps_catalog:
  shows "(case catalog_install w draft cx s of (r, s') \<Rightarrow> \<exists>c. catalog_by w untouched (dp_cat s) c \<and>
      (case r of Inl _ \<Rightarrow> dp_cat s' = c
       | Inr _ \<Rightarrow> register_source (user_draft (draft\<lparr>rg_graph_generation := None\<rparr>)) c = Ret (dp_cat s')))
    \<and> (case catalog_remove w sc sid cx s of (r, s') \<Rightarrow> \<exists>c. catalog_by w untouched (dp_cat s) c \<and>
        (case r of Inl _ \<Rightarrow> dp_cat s' = c | Inr _ \<Rightarrow> dp_cat s' = revoke sid c))
    \<and> catalog_by w (reference_minted (w_token w)) (dp_cat s) (dp_cat (snd (discover w sc cx s)))
    \<and> catalog_by w (reference_minted (w_token w)) (dp_cat s) (dp_cat (snd (call_source_tool w sc t name args cx cid s)))
    \<and> catalog_by w token_drawn (dp_cat s) (dp_cat (snd (call_tool w sc t args cx cid surface s)))
    \<and> catalog_by w untouched (dp_cat s) (dp_cat (snd (catalog_inspect w sc cx s)))
    \<and> catalog_by w untouched (dp_cat s) (dp_cat (snd (describe_tool w sc t cx s)))
    \<and> catalog_by w untouched (dp_cat s) (dp_cat (snd (read_tool_resource w sc t uri cx s)))
    \<and> (fair_world w \<longrightarrow> inj (w_token w) \<longrightarrow> wf_catalog (w_token w) (dp_cat s) \<longrightarrow>
        (\<forall>s' \<in> {snd (catalog_install w draft cx s), snd (catalog_remove w sc sid cx s), snd (discover w sc cx s),
            snd (call_source_tool w sc t name args cx cid s), snd (call_tool w sc t args cx cid surface s),
            snd (catalog_inspect w sc cx s), snd (describe_tool w sc t cx s), snd (read_tool_resource w sc t uri cx s)}.
          wf_catalog (w_token w) (dp_cat s')))"
proof (intro conjI impI)
  obtain r1 s1 where run1: "catalog_install w draft cx s = (r1, s1)" by fastforce
  obtain r2 s2 where run2: "catalog_remove w sc sid cx s = (r2, s2)" by fastforce
  note install = cat_install [OF run1] and remove = cat_remove [OF run2]
  from install show "case catalog_install w draft cx s of (r, s') \<Rightarrow> \<exists>c. catalog_by w untouched (dp_cat s) c \<and>
      (case r of Inl _ \<Rightarrow> dp_cat s' = c
       | Inr _ \<Rightarrow> register_source (user_draft (draft\<lparr>rg_graph_generation := None\<rparr>)) c = Ret (dp_cat s'))" by (simp add: run1)
  from remove show "case catalog_remove w sc sid cx s of (r, s') \<Rightarrow> \<exists>c. catalog_by w untouched (dp_cat s) c \<and>
        (case r of Inl _ \<Rightarrow> dp_cat s' = c | Inr _ \<Rightarrow> dp_cat s' = revoke sid c)" by (simp add: run2)
  note frames = cat_discover [of w sc cx, THEN cat_moved, of s]
    cat_call_source [of w sc t name args cx cid, THEN cat_moved, of s]
    cat_call [OF order_refl, of w sc t args cx cid surface, THEN cat_moved, of s]
    cat_inspect [of w untouched sc cx, THEN cat_moved, of s]
    cat_describe [of w untouched sc t cx, THEN cat_moved, of s]
    cat_read_resource [of w untouched sc t uri cx, THEN cat_moved, of s]
  then show "catalog_by w (reference_minted (w_token w)) (dp_cat s) (dp_cat (snd (discover w sc cx s)))"
    "catalog_by w (reference_minted (w_token w)) (dp_cat s) (dp_cat (snd (call_source_tool w sc t name args cx cid s)))"
    "catalog_by w token_drawn (dp_cat s) (dp_cat (snd (call_tool w sc t args cx cid surface s)))"
    "catalog_by w untouched (dp_cat s) (dp_cat (snd (catalog_inspect w sc cx s)))"
    "catalog_by w untouched (dp_cat s) (dp_cat (snd (describe_tool w sc t cx s)))"
    "catalog_by w untouched (dp_cat s) (dp_cat (snd (read_tool_resource w sc t uri cx s)))" by this+
  assume fair: "fair_world w" "inj (w_token w)" "wf_catalog (w_token w) (dp_cat s)"
  note wf = catalog_by_wf [OF _ fair own_steps(1)] catalog_by_wf [OF _ fair own_steps(2)] catalog_by_wf [OF _ fair own_steps(3)]
  have "wf_catalog (w_token w) (dp_cat s1)"
  proof -
    from install obtain c where c: "catalog_by w untouched (dp_cat s) c"
      "case r1 of Inl _ \<Rightarrow> dp_cat s1 = c
        | Inr _ \<Rightarrow> register_source (user_draft (draft\<lparr>rg_graph_generation := None\<rparr>)) c = Ret (dp_cat s1)" by blast
    from wf(1) [OF c(1)] c(2) show ?thesis by (cases r1) (auto intro: wf_step [OF step_user] fair(2))
  qed
  moreover have "wf_catalog (w_token w) (dp_cat s2)"
  proof -
    from remove obtain c where c: "catalog_by w untouched (dp_cat s) c"
      "case r2 of Inl _ \<Rightarrow> dp_cat s2 = c | Inr _ \<Rightarrow> dp_cat s2 = revoke sid c" by blast
    from wf(1) [OF c(1)] c(2) show ?thesis by (cases r2) (auto intro: wf_step [OF step_revoke] fair(2))
  qed
  ultimately show "\<forall>s' \<in> {snd (catalog_install w draft cx s), snd (catalog_remove w sc sid cx s), snd (discover w sc cx s),
            snd (call_source_tool w sc t name args cx cid s), snd (call_tool w sc t args cx cid surface s),
            snd (catalog_inspect w sc cx s), snd (describe_tool w sc t cx s), snd (read_tool_resource w sc t uri cx s)}.
          wf_catalog (w_token w) (dp_cat s')"
    using wf(3) [OF frames(1)] wf(3) [OF frames(2)] wf(2) [OF frames(3)] wf(1) [OF frames(4)] wf(1) [OF frames(5)] wf(1) [OF frames(6)]
    by (simp add: run1 run2)
qed

definition ex_world :: world where
  "ex_world = \<lparr>w_agent_id = ''agent-1'', w_delegations = Some (\<lambda>t cx. True), w_authorize = (\<lambda>t cx a r aud. True),
     w_discover = (\<lambda>t src cx. Ret [ex_tool ''click'']), w_discover_app = (\<lambda>t src cx. Ret [ex_tool ''click'']),
     w_inspect = (\<lambda>src. None), w_resolve = (\<lambda>src. None), w_read_resource = (\<lambda>src. None),
     w_invoke = (\<lambda>t src surface name args cx. Ret (JStr ''ok'')), w_encode = Ret, w_utf8_size = (\<lambda>v. 0),
     w_blob_ok = (\<lambda>b. True), w_begin = (\<lambda>t rid cid. Ret ()), w_finish = (\<lambda>t rid cid. Ret ()),
     w_observe = (\<lambda>t i v. Ret ()), w_acknowledge = (\<lambda>src. None), w_token = ex_token,
     w_interfere = (\<lambda>t c. activate_generation (Some (int t)) c)\<rparr>"

definition ex_scope :: scope where
  "ex_scope = \<lparr>sc_bound = True, sc_generation = None, sc_revision = None, sc_run_id = Some ''r1'', sc_provider_call = None\<rparr>"

definition ex_dispatch :: dispatch where
  "ex_dispatch = \<lparr>dp_time = 0, dp_cat = ex_catalog, dp_log = []\<rparr>"

lemma ex_world_fair: "fair_world ex_world" "inj (w_token ex_world)" "wf_catalog (w_token ex_world) (dp_cat ex_dispatch)"
  using inj_ex_token ex_catalog_wf by (auto simp: fair_world_def ex_world_def ex_dispatch_def intro: step_activate)

theorem dispatcher_keeps_catalog_witness:
  "wf_catalog ex_token (dp_cat (snd (discover ex_world ex_scope (ex_context\<lparr>cx_capabilities := [ex_lease]\<rparr>) ex_dispatch)))"
  using dispatcher_keeps_catalog [where w = ex_world and s = ex_dispatch and sc = ex_scope and cx = "ex_context\<lparr>cx_capabilities := [ex_lease]\<rparr>"]
    ex_world_fair by (simp add: ex_world_def)

text \<open>
  C1: A call inside a run, however it ends and whatever happens at its awaits, drives the ledger
  through the protocol of one call: nothing reaches the tool before \<open>tool.call\<close> was authorized
  and the call was begun, the tool is invoked at most once, under the name and on the source of
  the reference the caller gave, a result is recorded only after \<open>tool.publish\<close> was authorized,
  no begun call is left without a receipt, and a result is returned only if it was recorded.
\<close>

theorem call_protocol:
  assumes "durable sc = Some rid" "cid \<noteq> []"
    and "call_tool w sc tool_ref args cx (Some cid) surface s = (r, s')"
    and "call_target (dp_cat s) tool_ref = (src, name)"
  shows "\<exists>l q. dp_log s' = dp_log s @ l \<and> call_run rid cid src name args Ready l = Some q \<and> called r q"
proof -
  define k where "k = (\<lambda>(r, reg, d).
     bind_op (await_logged w (\<lambda>t. w_begin w t rid cid)
        (\<lambda>b. LBegin rid cid (call_binding sc tool_ref reg d) args (returned b))) (\<lambda>_.
     bind_op (reraise_op (perform_call w sc surface r reg d args cx)
         (\<lambda>e. await_logged w (\<lambda>t. w_finish w t rid cid) (\<lambda>b. LFinishError rid cid (unknown_effects e) (returned b))))
         (\<lambda>(result, envelope).
     bind_op (await_logged w (\<lambda>t. w_finish w t rid cid) (\<lambda>b. LFinishResult rid cid envelope (returned b))) (\<lambda>_.
     bind_op (observe_result w reg d result) (\<lambda>_. ret_op result)))))"
  have call: "call_tool w sc tool_ref args cx (Some cid) surface s =
    (if surface = ''model'' \<or> surface = ''app'' then bind_op (admit_call w sc surface tool_ref cx) k s else (Raise ValueError, s))"
    using assms(1,2) by (simp add: call_tool_def call_id_of_def truthy_opt_def guard_op_def bind_op_def k_def)
  have refused: "\<exists>l q. dp_log s = dp_log s @ l \<and> call_run rid cid src name args Ready l = Some q \<and> called (Inl e) q" for e :: py_error
    by (intro exI [of _ "[]"] exI [of _ Ready]) (simp add: called_def)
  show ?thesis
  proof (cases "surface = ''model'' \<or> surface = ''app''")
    case True
    with call assms(3) have run: "bind_op (admit_call w sc surface tool_ref cx) k s = (r, s')" by simp
    show ?thesis
    proof (cases "\<exists>n d reg. map_of (ct_refs (dp_cat s)) tool_ref = Some (n, d) \<and> get_reg (dp_cat s) n = Some reg")
      case False
      then have "admit_call w sc surface tool_ref cx s = (Raise CapabilityUnavailable, s)"
        by (auto simp: admit_call_cases split: option.split)
      with run refused show ?thesis by auto
    next
      case True
      then obtain n d reg where b: "map_of (ct_refs (dp_cat s)) tool_ref = Some (n, d)" "get_reg (dp_cat s) n = Some reg" by blast
      with assms(4) have src: "src = rg_source reg" "name = td_name d" by (simp_all add: call_target_def)
      have "admit_call w sc surface tool_ref cx s = admit_rest w sc surface cx n reg d s"
        using b by (simp add: admit_call_cases)
      with run have run': "bind_op (admit_rest w sc surface cx n reg d) k s = (r, s')" by (simp add: bind_op_def)
      have k: "traces (call_run rid cid src name args) Admitted called (k (n', reg', d'))"
        if "rg_source reg' = src" "td_name d' = name" for n' reg' d'
        using traces_call [OF assms(1), of cid reg' d'] that by (simp add: k_def)
      have "traces (call_run rid cid src name args) Ready called (bind_op (admit_rest w sc surface cx n reg d) k)"
      proof (rule traces_bind [OF call_run_append])
        show "traces (call_run rid cid src name args) Ready (admitted src name) (admit_rest w sc surface cx n reg d)"
          unfolding src by (rule traces_admit_rest)
      qed (use k in \<open>auto simp: admitted_def called_def\<close>)
      from this run' show ?thesis by (rule tracesD) blast
    qed
  qed (use call assms(3) refused in auto)
qed

lemma ex_call_completes:
  "fst (call_tool ex_world ex_scope [] (JObj []) (ex_context\<lparr>cx_capabilities := [ex_lease]\<rparr>) (Some ''c1'') ''model'' ex_dispatch) = Ret (JStr ''ok'')"
  by code_simp

lemma ex_call_target: "call_target (dp_cat ex_dispatch) [] = (0, ''click'')"
  by code_simp

theorem call_protocol_witness:
  "\<exists>l. dp_log (snd (call_tool ex_world ex_scope [] (JObj []) (ex_context\<lparr>cx_capabilities := [ex_lease]\<rparr>) (Some ''c1'') ''model'' ex_dispatch)) = l
     \<and> call_run ''r1'' ''c1'' 0 ''click'' (JObj []) Ready l = Some Completed"
proof -
  have "durable ex_scope = Some ''r1''" by (simp add: durable_def ex_scope_def)
  from call_protocol [OF this _ prod.collapse [symmetric] ex_call_target, of "''c1''" ex_world "JObj []"
      "ex_context\<lparr>cx_capabilities := [ex_lease]\<rparr>" "''model''"]
  show ?thesis
    unfolding ex_call_completes by (auto simp: called_def) (simp add: ex_dispatch_def)
qed

end
