(* ===== verification/StoreTables.thy ===== *)
theory StoreTables
  imports Contracts "HOL-Library.Product_Lexorder"
begin

text \<open>
  The tables of the operational database that the runtime store
  (\<^verbatim>\<open>packages/storage-sqlite/src/openagent_storage_sqlite\<close>) writes: a record per row with
  the columns its code reads or writes, a table as the list of its rows in insertion order, a
  transaction that rolls back on an exception, and the intents of the search index.  A column
  that holds the canonical JSON text of a value holds the value here; a principal key, which
  determines its principal (\<open>principal_key_injective\<close>), is the principal.  Keys and uniqueness
  constraints the code runs into are checked where it inserts; the schema's checks of time stamps
  are not modelled.
\<close>

section \<open>Rows\<close>

record session_row =
  se_id :: string
  se_tenant :: string
  se_owner :: "principal option"
  se_visibility :: string
  se_acl_version :: int
  se_title :: "string option"
  se_kind :: string
  se_origin :: "string option"
  se_parent :: "string option"
  se_root :: "string option"
  se_agent_id :: string
  se_status :: string
  se_source_version :: int
  se_metadata :: "(string \<times> json) list"
  se_created :: int
  se_updated :: int
  se_activity :: int
  se_deleted :: "int option"

text \<open>The object in \<^verbatim>\<open>session_runs.metadata_json\<close>; a legacy row has no contract, digest or context.\<close>

record run_metadata =
  rm_contract :: bool
  rm_digest :: string
  rm_context :: "execution_context option"
  rm_deadline :: "real option"
  rm_cancel_requested :: bool
  rm_attachments :: "json list"
  rm_model_ref :: "string option"
  rm_steer :: "string option"

record run_row =
  ru_id :: string
  ru_tenant :: string
  ru_session :: string
  ru_ordinal :: int
  ru_idempotency_key :: "string option"
  ru_agent_id :: string
  ru_status :: string
  ru_status_raw :: string
  ru_input :: "string option"
  ru_output :: "json option"
  ru_metadata :: run_metadata
  ru_created :: int
  ru_finished :: "int option"
  ru_parent :: "string option"

record message_row =
  me_id :: string
  me_tenant :: string
  me_session :: string
  me_run :: "string option"
  me_sequence :: int
  me_ordinal :: int
  me_role :: string
  me_status :: string
  me_author_kind :: string
  me_author :: principal
  me_text :: string
  me_tool_call :: "string option"
  me_visibility :: string
  me_source_version :: int
  me_created :: int
  me_updated :: int
  me_completed :: "int option"

record tool_row =
  tl_id :: string
  tl_tenant :: string
  tl_owner :: "principal option"
  tl_visibility :: string
  tl_acl_version :: int
  tl_root_id :: string
  tl_run :: string
  tl_ordinal :: int
  tl_call :: string
  tl_server :: string
  tl_name :: string
  tl_status :: string
  tl_status_raw :: string
  tl_args :: json
  tl_envelope :: "(string \<times> json) list"
  tl_result :: "json option"
  tl_error :: "json option"
  tl_result_sha :: "string option"
  tl_result_size :: "nat option"
  tl_result_complete :: bool
  tl_completeness :: string
  tl_created :: int
  tl_finished :: "int option"
  tl_source_version :: int

record event_row =
  de_sequence :: int
  de_tenant :: string
  de_actor :: "principal option"
  de_session :: string
  de_run :: string
  de_type :: string
  de_time :: int
  de_payload :: json

record outbox_row =
  ob_tenant :: string
  ob_kind :: string
  ob_id :: string
  ob_operation :: string
  ob_source_version :: int
  ob_acl_version :: int
  ob_time :: int

record acl_row =
  al_tenant :: string
  al_resource :: string
  al_kind :: string
  al_principal :: principal
  al_permission :: string
  al_granted_by :: principal

text \<open>\<open>st_sequence\<close> is the last number AUTOINCREMENT gave out, \<open>st_uuids\<close> counts the identifiers drawn.\<close>

record store =
  st_sessions :: "session_row list"
  st_runs :: "run_row list"
  st_messages :: "message_row list"
  st_tools :: "tool_row list"
  st_events :: "event_row list"
  st_acl :: "acl_row list"
  st_outbox :: "outbox_row list"
  st_sequence :: int
  st_uuids :: nat

definition store_empty :: store where
  "store_empty = \<lparr>st_sessions = [], st_runs = [], st_messages = [], st_tools = [], st_events = [], st_acl = [],
     st_outbox = [], st_sequence = 0, st_uuids = 0\<rparr>"

text \<open>
  What the code calls of the standard library: \<^verbatim>\<open>float.__repr__\<close>, SHA-256 of a value's
  canonical text and of a text, the length of a text in UTF-8, the identifiers of \<^verbatim>\<open>uuid\<close>,
  URL-safe base64 of a value's canonical JSON text and its inverse (\<^verbatim>\<open>None\<close> where it raises),
  and \<^verbatim>\<open>int\<close> and \<^verbatim>\<open>str\<close> of a decoded value that is not already a number or a text.
\<close>

record env =
  en_repr :: "real \<Rightarrow> string"
  en_sha :: "json \<Rightarrow> string"
  en_sha_text :: "string \<Rightarrow> string"
  en_utf8 :: "string \<Rightarrow> nat"
  en_uuid4 :: "nat \<Rightarrow> string"
  en_uuid5 :: "string list \<Rightarrow> string"
  en_token :: "json \<Rightarrow> string"
  en_parse :: "string \<Rightarrow> json option"
  en_int :: "json \<Rightarrow> int res"
  en_str :: "json \<Rightarrow> string"

section \<open>Queries and transactions\<close>

definition find_session :: "string \<Rightarrow> store \<Rightarrow> session_row option" where
  "find_session sid s = List.find (\<lambda>x. se_id x = sid) (st_sessions s)"

definition find_run :: "string \<Rightarrow> store \<Rightarrow> run_row option" where
  "find_run rid s = List.find (\<lambda>x. ru_id x = rid) (st_runs s)"

definition find_tool :: "string \<Rightarrow> string \<Rightarrow> store \<Rightarrow> tool_row option" where
  "find_tool rid cid s = List.find (\<lambda>x. tl_run x = rid \<and> tl_call x = cid) (st_tools s)"

definition find_reservation :: "string \<Rightarrow> store \<Rightarrow> event_row option" where
  "find_reservation rid s = List.find (\<lambda>e. de_run e = rid \<and> de_type e = ''run.cancel_reserved'') (st_events s)"

text \<open>\<^verbatim>\<open>coalesce(max(x), -1) + 1\<close>.\<close>

definition next_number :: "int list \<Rightarrow> int" where
  "next_number xs = fold max xs (-1) + 1"

definition map_sessions :: "string \<Rightarrow> (session_row \<Rightarrow> session_row) \<Rightarrow> store \<Rightarrow> store" where
  "map_sessions sid f s = s\<lparr>st_sessions := map (\<lambda>x. if se_id x = sid then f x else x) (st_sessions s)\<rparr>"

definition map_runs :: "string \<Rightarrow> (run_row \<Rightarrow> run_row) \<Rightarrow> store \<Rightarrow> store" where
  "map_runs rid f s = s\<lparr>st_runs := map (\<lambda>x. if ru_id x = rid then f x else x) (st_runs s)\<rparr>"

definition map_tools :: "string \<Rightarrow> (tool_row \<Rightarrow> tool_row) \<Rightarrow> store \<Rightarrow> store" where
  "map_tools tid f s = s\<lparr>st_tools := map (\<lambda>x. if tl_id x = tid then f x else x) (st_tools s)\<rparr>"

definition map_messages :: "string \<Rightarrow> (message_row \<Rightarrow> message_row) \<Rightarrow> store \<Rightarrow> store" where
  "map_messages mid f s = s\<lparr>st_messages := map (\<lambda>x. if me_id x = mid then f x else x) (st_messages s)\<rparr>"

text \<open>\<^verbatim>\<open>SqliteRuntimeStore._transaction\<close>.\<close>

definition transaction :: "(store, 'a) op \<Rightarrow> (store, 'a) op" where
  "transaction m = (\<lambda>s. case m s of (Inl e, _) \<Rightarrow> (Inl e, s) | (Inr x, s') \<Rightarrow> (Inr x, s'))"

definition found_op :: "(store \<Rightarrow> 'a option) \<Rightarrow> (store, 'a) op" where
  "found_op q = (\<lambda>s. case q s of None \<Rightarrow> (Raise LookupError, s) | Some x \<Rightarrow> (Ret x, s))"

text \<open>\<^verbatim>\<open>require_session_not_quarantined\<close> of \<^verbatim>\<open>workspace_administration.py\<close>.\<close>

definition require_session_not_quarantined :: "session_row option \<Rightarrow> unit res" where
  "require_session_not_quarantined row =
     (case row of None \<Rightarrow> Ret ()
      | Some x \<Rightarrow> if se_visibility x = ''quarantined'' then Raise PermissionError else Ret ())"

definition quarantined :: "string \<Rightarrow> store \<Rightarrow> bool" where
  "quarantined sid s \<longleftrightarrow> (case find_session sid s of None \<Rightarrow> False | Some x \<Rightarrow> se_visibility x = ''quarantined'')"

definition require_session :: "string \<Rightarrow> (store, unit) op" where
  "require_session sid = (\<lambda>s. (require_session_not_quarantined (find_session sid s), s))"

text \<open>The join of \<^verbatim>\<open>_require_run_not_quarantined\<close> has no row when the run is unknown.\<close>

definition run_session :: "string \<Rightarrow> store \<Rightarrow> session_row option" where
  "run_session rid s = Option.bind (find_run rid s) (\<lambda>r. find_session (ru_session r) s)"

definition require_run_not_quarantined :: "string \<Rightarrow> (store, unit) op" where
  "require_run_not_quarantined rid = (\<lambda>s. (require_session_not_quarantined (run_session rid s), s))"

section \<open>Search intents\<close>

definition outbox_insert :: "outbox_row \<Rightarrow> store \<Rightarrow> store" where
  "outbox_insert row s =
     (if \<exists>x \<in> set (st_outbox s). ob_tenant x = ob_tenant row \<and> ob_kind x = ob_kind row \<and> ob_id x = ob_id row
           \<and> ob_operation x = ob_operation row \<and> ob_source_version x = ob_source_version row
           \<and> ob_acl_version x = ob_acl_version row
      then s else s\<lparr>st_outbox := st_outbox s @ [row]\<rparr>)"

definition outbox_row_of :: "string \<Rightarrow> string \<Rightarrow> string \<Rightarrow> int \<Rightarrow> int \<Rightarrow> int \<Rightarrow> outbox_row" where
  "outbox_row_of tenant kind i source_version acl_version now =
     \<lparr>ob_tenant = tenant, ob_kind = kind, ob_id = i, ob_operation = ''upsert'', ob_source_version = source_version,
      ob_acl_version = acl_version, ob_time = now\<rparr>"

text \<open>\<^verbatim>\<open>search.enqueue_source\<close>: tenant, source version and ACL version of the row, then the intent.\<close>

definition source_versions :: "string \<Rightarrow> string \<Rightarrow> store \<Rightarrow> (string \<times> int \<times> int) option" where
  "source_versions kind i s =
     (if kind = ''session'' then
        map_option (\<lambda>x. (se_tenant x, se_source_version x, se_acl_version x)) (find_session i s)
      else if kind = ''message'' then
        Option.bind (List.find (\<lambda>m. me_id m = i) (st_messages s)) (\<lambda>m.
          map_option (\<lambda>x. (me_tenant m, me_source_version m, se_acl_version x)) (find_session (me_session m) s))
      else map_option (\<lambda>t. (tl_tenant t, tl_source_version t, tl_acl_version t)) (List.find (\<lambda>t. tl_id t = i) (st_tools s)))"

definition enqueue_source :: "string \<Rightarrow> string \<Rightarrow> int \<Rightarrow> (store, unit) op" where
  "enqueue_source kind i now = (\<lambda>s.
     if kind \<notin> {''session'', ''message'', ''tool_invocation''} then (Raise ValueError, s)
     else case source_versions kind i s of
       None \<Rightarrow> (Raise LookupError, s)
     | Some (tenant, source, acl) \<Rightarrow> (Ret (), outbox_insert (outbox_row_of tenant kind i source acl now) s))"

definition contract_session :: "session_row \<Rightarrow> bool" where
  "contract_session x \<longleftrightarrow> map_of (se_metadata x) ''runtime_contract'' = Some (JInt 1)"

definition restore_runtime_search_intents :: "int \<Rightarrow> store \<Rightarrow> store" where
  "restore_runtime_search_intents now s =
     (let sessions = [outbox_row_of (se_tenant x) ''session'' (se_id x) (se_source_version x) (se_acl_version x) now.
            x \<leftarrow> st_sessions s, contract_session x];
          messages = [outbox_row_of (me_tenant m) ''message'' (me_id m) (me_source_version m) (se_acl_version x) now.
            m \<leftarrow> st_messages s, x \<leftarrow> st_sessions s, se_id x = me_session m \<and> contract_session x];
          tools = [outbox_row_of (tl_tenant t) ''tool_invocation'' (tl_id t) (tl_source_version t) (tl_acl_version t) now.
            t \<leftarrow> st_tools s, r \<leftarrow> st_runs s, ru_id r = tl_run t \<and> rm_contract (ru_metadata r)]
      in fold outbox_insert (sessions @ messages @ tools) s)"

text \<open>\<^verbatim>\<open>ancestry.ensure_delegated_ancestry\<close>: the parents recorded in the admission evidence.\<close>

definition ensure_delegated_ancestry :: "store \<Rightarrow> store" where
  "ensure_delegated_ancestry s = s\<lparr>st_runs := map (\<lambda>child.
     (case Option.bind (rm_context (ru_metadata child)) cx_parent_run_id of
        None \<Rightarrow> child
      | Some p \<Rightarrow>
          if ru_parent child = None \<and> rm_contract (ru_metadata child)
             \<and> (\<exists>parent \<in> set (st_runs s). ru_id parent = p \<and> ru_tenant parent = ru_tenant child)
          then child\<lparr>ru_parent := Some p\<rparr> else child)) (st_runs s)\<rparr>"

text \<open>The trigger that module installs: no run may name a parent run of another tenant.\<close>

definition parent_tenant_ok :: "run_row \<Rightarrow> store \<Rightarrow> bool" where
  "parent_tenant_ok r s \<longleftrightarrow>
     (case ru_parent r of None \<Rightarrow> True
      | Some p \<Rightarrow> \<exists>x \<in> set (st_runs s). ru_id x = p \<and> ru_tenant x = ru_tenant r)"

end
