(* ===== verification/RunStore.thy ===== *)
theory RunStore
  imports StoreTables
begin

text \<open>
  The run authority of \<^verbatim>\<open>SqliteRuntimeStore\<close>
  (\<^verbatim>\<open>packages/storage-sqlite/src/openagent_storage_sqlite/__init__.py\<close>): acceptance with
  idempotency and cancel reservations, the status machine, the event log, the durable intents and
  receipts of tool calls, and recovery after a restart.  All public operations run one after the
  other (\<^verbatim>\<open>_serialized\<close>), so an operation is a function of the store; each takes the time
  \<open>now\<close> it reads.  The optional content-privacy publication is not configured.
\<close>

section \<open>Records\<close>

text \<open>\<^verbatim>\<open>SqliteRuntimeStore._record\<close>.\<close>

definition record_of :: "run_row \<Rightarrow> run_record" where
  "record_of r = \<lparr>rr_run_id = ru_id r, rr_session_id = ru_session r, rr_tenant_id = ru_tenant r, rr_status = ru_status r,
     rr_request_digest = rm_digest (ru_metadata r), rr_output = ru_output r,
     rr_cancel_requested = rm_cancel_requested (ru_metadata r), rr_parent_run_id = ru_parent r\<rparr>"

definition cancelled_record :: "string \<Rightarrow> string \<Rightarrow> string \<Rightarrow> run_record" where
  "cancelled_record rid sid tenant = \<lparr>rr_run_id = rid, rr_session_id = sid, rr_tenant_id = tenant,
     rr_status = ''cancelled'', rr_request_digest = [], rr_output = None, rr_cancel_requested = True, rr_parent_run_id = None\<rparr>"

definition store_get :: "string \<Rightarrow> (store, run_record option) op" where
  "store_get rid =
     bind_op (require_run_not_quarantined rid) (\<lambda>_.
     read_op (\<lambda>s. case find_run rid s of
       Some r \<Rightarrow> Some (record_of r)
     | None \<Rightarrow> map_option (\<lambda>e. cancelled_record rid (de_session e) (de_tenant e)) (find_reservation rid s)))"

section \<open>The event log and the messages\<close>

definition append_row :: "event_row \<Rightarrow> store \<Rightarrow> store" where
  "append_row e s = s\<lparr>st_events := st_events s @ [e\<lparr>de_sequence := st_sequence s + 1\<rparr>], st_sequence := st_sequence s + 1\<rparr>"

definition run_actor :: "run_row \<Rightarrow> principal option" where
  "run_actor r = map_option cx_author (rm_context (ru_metadata r))"

definition store_event :: "string \<Rightarrow> string \<Rightarrow> json \<Rightarrow> int \<Rightarrow> (store, run_event) op" where
  "store_event rid kind payload now =
     bind_op (found_op (find_run rid)) (\<lambda>r.
     bind_op (modify_op (append_row
       \<lparr>de_sequence = 0, de_tenant = ru_tenant r, de_actor = run_actor r, de_session = ru_session r, de_run = rid,
        de_type = kind, de_time = now, de_payload = payload\<rparr>)) (\<lambda>_.
     read_op (\<lambda>s. \<lparr>ev_cursor = st_sequence s, ev_run_id = rid, ev_kind = kind, ev_payload = payload\<rparr>)))"

definition text_of :: "env \<Rightarrow> json \<Rightarrow> string" where
  "text_of en v = (case v of JStr t \<Rightarrow> t | _ \<Rightarrow> canonical_json (en_repr en) v)"

definition author_kind :: "string \<Rightarrow> string" where
  "author_kind kind = (if kind \<in> {''user'', ''agent'', ''system''} then kind else ''system'')"

definition touch_session :: "string \<Rightarrow> int \<Rightarrow> store \<Rightarrow> store" where
  "touch_session sid now = map_sessions sid (\<lambda>x. x\<lparr>se_source_version := se_source_version x + 1, se_updated := now,
     se_activity := now\<rparr>)"

text \<open>A new message refreshes the search intents of the tool invocations of its run.\<close>

fun refresh_tools :: "string list \<Rightarrow> int \<Rightarrow> (store, unit) op" where
  "refresh_tools [] now = ret_op ()"
| "refresh_tools (t # ts) now =
     bind_op (modify_op (map_tools t (\<lambda>x. x\<lparr>tl_source_version := tl_source_version x + 1\<rparr>))) (\<lambda>_.
     bind_op (enqueue_source ''tool_invocation'' t now) (\<lambda>_.
     refresh_tools ts now))"

definition message_of ::
  "env \<Rightarrow> run_row \<Rightarrow> string \<Rightarrow> json \<Rightarrow> principal \<Rightarrow> string \<Rightarrow> int \<Rightarrow> string option \<Rightarrow> string \<Rightarrow> store \<Rightarrow> message_row" where
  "message_of en r role text author kind now call status s =
     \<lparr>me_id = en_uuid4 en (st_uuids s), me_tenant = ru_tenant r, me_session = ru_session r, me_run = Some (ru_id r),
      me_sequence = next_number [me_sequence m. m \<leftarrow> st_messages s, me_session m = ru_session r],
      me_ordinal = next_number [me_ordinal m. m \<leftarrow> st_messages s, me_run m = Some (ru_id r)],
      me_role = role, me_status = status, me_author_kind = author_kind kind, me_author = author,
      me_text = text_of en text, me_tool_call = call, me_visibility = ''user_visible'', me_source_version = 1,
      me_created = now, me_updated = now, me_completed = (if status = ''complete'' then Some now else None)\<rparr>"

definition store_message ::
  "env \<Rightarrow> string \<Rightarrow> string \<Rightarrow> json \<Rightarrow> principal \<Rightarrow> string \<Rightarrow> int \<Rightarrow> string option \<Rightarrow> string \<Rightarrow> (store, string) op" where
  "store_message en rid role text author kind now call status =
     bind_op (found_op (find_run rid)) (\<lambda>r.
     bind_op (read_op (message_of en r role text author kind now call status)) (\<lambda>m.
     bind_op (modify_op (\<lambda>s. s\<lparr>st_messages := st_messages s @ [m], st_uuids := Suc (st_uuids s)\<rparr>)) (\<lambda>_.
     bind_op (modify_op (touch_session (ru_session r) now)) (\<lambda>_.
     bind_op (enqueue_source ''message'' (me_id m) now) (\<lambda>_.
     bind_op (enqueue_source ''session'' (ru_session r) now) (\<lambda>_.
     bind_op (read_op (\<lambda>s. [tl_id t. t \<leftarrow> st_tools s, tl_run t = rid])) (\<lambda>ts.
     bind_op (refresh_tools ts now) (\<lambda>_.
     ret_op (me_id m)))))))))"

section \<open>Acceptance\<close>

definition shared_visibility :: "execution_context \<Rightarrow> string" where
  "shared_visibility cx = (if 1 < length (cx_audience cx) then ''shared'' else ''private'')"

definition new_session :: "string \<Rightarrow> execution_context \<Rightarrow> int \<Rightarrow> session_row" where
  "new_session sid cx now =
     \<lparr>se_id = sid, se_tenant = cx_tenant_id cx, se_owner = Some (cx_authority cx), se_visibility = shared_visibility cx,
      se_acl_version = 1, se_title = None, se_kind = ''chat'', se_origin = None, se_parent = None, se_root = None,
      se_agent_id = cx_agent_id cx, se_status = ''active'', se_source_version = 1,
      se_metadata = [(''runtime_contract'', JInt 1)], se_created = now, se_updated = now, se_activity = now,
      se_deleted = None\<rparr>"

definition audience_acl :: "string \<Rightarrow> execution_context \<Rightarrow> acl_row list" where
  "audience_acl sid cx = concat (map (\<lambda>p.
     let kind = (if pr_kind p \<in> {''user'', ''agent'', ''device'', ''system'', ''installation'', ''role''} then pr_kind p else ''system'')
     in map (\<lambda>permission. \<lparr>al_tenant = cx_tenant_id cx, al_resource = sid, al_kind = kind, al_principal = p,
              al_permission = permission, al_granted_by = cx_authority cx\<rparr>) [''view'', ''search''])
     (filter (\<lambda>p. p \<noteq> cx_authority cx) (cx_audience cx)))"

text \<open>The primary key of \<^verbatim>\<open>resource_acl\<close>.\<close>

definition acl_key :: "acl_row \<Rightarrow> string \<times> string \<times> string \<times> principal \<times> string" where
  "acl_key a = (al_tenant a, al_resource a, al_kind a, al_principal a, al_permission a)"

definition insert_acl :: "acl_row list \<Rightarrow> (store, unit) op" where
  "insert_acl rows = (\<lambda>s.
     if distinct (map acl_key (st_acl s @ rows)) then (Ret (), s\<lparr>st_acl := st_acl s @ rows\<rparr>)
     else (Raise IntegrityError, s))"

text \<open>The session of the request: an existing one, or a new one with its audience.\<close>

definition accept_session :: "string \<Rightarrow> execution_context \<Rightarrow> int \<Rightarrow> (store, session_row option) op" where
  "accept_session sid cx now =
     bind_op (read_op (find_session sid)) (\<lambda>existing.
     case existing of
       Some x \<Rightarrow>
         if se_tenant x \<noteq> cx_tenant_id cx then raise_op PermissionError
         else bind_op (modify_op (map_sessions sid (\<lambda>x. x\<lparr>se_metadata := AList.update ''runtime_contract'' (JInt 1) (se_metadata x)\<rparr>)))
           (\<lambda>_. ret_op existing)
     | None \<Rightarrow>
         bind_op (modify_op (\<lambda>s. s\<lparr>st_sessions := st_sessions s @ [new_session sid cx now]\<rparr>)) (\<lambda>_.
         bind_op (insert_acl (audience_acl sid cx)) (\<lambda>_. ret_op None)))"

text \<open>The join with the parent's session has a row only when both rows exist.\<close>

definition find_parent :: "string \<Rightarrow> string \<Rightarrow> store \<Rightarrow> session_row option" where
  "find_parent pid tenant s =
     Option.bind (find_run pid s) (\<lambda>r. if ru_tenant r = tenant then find_session (ru_session r) s else None)"

definition accept_parent :: "string \<Rightarrow> execution_context \<Rightarrow> session_row option \<Rightarrow> (store, unit) op" where
  "accept_parent sid cx existing =
     (if \<not> truthy_opt (cx_parent_run_id cx) then ret_op ()
      else bind_op (read_op (find_parent (the (cx_parent_run_id cx)) (cx_tenant_id cx))) (\<lambda>parent.
        case parent of
          None \<Rightarrow> raise_op ValueError
        | Some p \<Rightarrow>
            if se_id p = sid then raise_op ValueError
            else (case existing of
                Some x \<Rightarrow> guard_op (se_parent x = Some (se_id p)) ValueError
              | None \<Rightarrow> modify_op (map_sessions sid (\<lambda>x. x\<lparr>se_parent := Some (se_id p),
                  se_root := (if truthy_opt (se_root p) then se_root p else Some (se_id p))\<rparr>)))))"

definition new_run :: "env \<Rightarrow> run_request \<Rightarrow> execution_context \<Rightarrow> bool \<Rightarrow> int \<Rightarrow> store \<Rightarrow> run_row" where
  "new_run en rq cx reserved now s =
     \<lparr>ru_id = rq_run_id rq, ru_tenant = cx_tenant_id cx, ru_session = rq_session_id rq,
      ru_ordinal = next_number [ru_ordinal r. r \<leftarrow> st_runs s, ru_session r = rq_session_id rq],
      ru_idempotency_key = Some (rq_idempotency_key rq), ru_agent_id = cx_agent_id cx, ru_status = ''queued'',
      ru_status_raw = ''accepted'', ru_input = Some (rq_input rq), ru_output = None,
      ru_metadata = \<lparr>rm_contract = True, rm_digest = fingerprint (en_sha en) rq cx, rm_context = Some cx,
        rm_deadline = rq_deadline_seconds rq, rm_cancel_requested = reserved, rm_attachments = rq_attachments rq,
        rm_model_ref = rq_model_ref rq, rm_steer = rq_steer_run_id rq\<rparr>,
      ru_created = now, ru_finished = None, ru_parent = cx_parent_run_id cx\<rparr>"

definition insert_run :: "run_row \<Rightarrow> (store, unit) op" where
  "insert_run r = (\<lambda>s.
     if parent_tenant_ok r s then (Ret (), s\<lparr>st_runs := st_runs s @ [r]\<rparr>) else (Raise IntegrityError, s))"

definition same_request :: "run_request \<Rightarrow> store \<Rightarrow> run_row list" where
  "same_request rq s = filter (\<lambda>r. ru_id r = rq_run_id rq
     \<or> (ru_session r = rq_session_id rq \<and> ru_idempotency_key r = Some (rq_idempotency_key rq))) (st_runs s)"

definition cancel_accepted :: "int \<Rightarrow> run_row \<Rightarrow> run_row" where
  "cancel_accepted now r = r\<lparr>ru_status := ''cancelled'', ru_status_raw := ''cancelled_before_accept'', ru_finished := Some now\<rparr>"

definition insert_accepted :: "env \<Rightarrow> run_request \<Rightarrow> execution_context \<Rightarrow> bool \<Rightarrow> int \<Rightarrow> (store, unit) op" where
  "insert_accepted en rq cx reserved now =
     bind_op (read_op (new_run en rq cx reserved now)) (\<lambda>r.
     bind_op (insert_run r) (\<lambda>_.
     if reserved then modify_op (map_runs (rq_run_id rq) (cancel_accepted now)) else ret_op ()))"

text \<open>The first message of the run and its event.\<close>

definition announce_accepted :: "env \<Rightarrow> run_request \<Rightarrow> execution_context \<Rightarrow> bool \<Rightarrow> int \<Rightarrow> (store, unit) op" where
  "announce_accepted en rq cx reserved now =
     bind_op (store_message en (rq_run_id rq) ''user'' (JStr (rq_input rq)) (cx_author cx) (pr_kind (cx_author cx)) now None ''complete'') (\<lambda>_.
     bind_op (store_event (rq_run_id rq) ''run.accepted'' (JObj
       [(''status'', JStr (if reserved then ''cancelled'' else ''queued'')),
        (''request_digest'', JStr (fingerprint (en_sha en) rq cx))]) now) (\<lambda>_. ret_op ()))"

definition accept_fresh :: "env \<Rightarrow> run_request \<Rightarrow> execution_context \<Rightarrow> event_row option \<Rightarrow> int \<Rightarrow> (store, run_record \<times> bool) op" where
  "accept_fresh en rq cx reservation now =
     bind_op (guard_op (case reservation of None \<Rightarrow> True
       | Some e \<Rightarrow> de_tenant e = cx_tenant_id cx \<and> de_session e = rq_session_id rq) IdempotencyConflict) (\<lambda>_.
     bind_op (accept_session (rq_session_id rq) cx now) (\<lambda>existing.
     bind_op (accept_parent (rq_session_id rq) cx existing) (\<lambda>_.
     bind_op (insert_accepted en rq cx (reservation \<noteq> None) now) (\<lambda>_.
     bind_op (announce_accepted en rq cx (reservation \<noteq> None) now) (\<lambda>_.
     bind_op (found_op (find_run (rq_run_id rq))) (\<lambda>row.
     ret_op (record_of row, reservation = None)))))))"

text \<open>Rows of an earlier request with the same run id or the same key in the session.\<close>

definition accept_again :: "env \<Rightarrow> run_request \<Rightarrow> execution_context \<Rightarrow> run_row list \<Rightarrow> (run_record \<times> bool) res" where
  "accept_again en rq cx rows =
     (case rows of
        [r] \<Rightarrow>
          if ru_id r \<noteq> rq_run_id rq \<or> rr_request_digest (record_of r) \<noteq> fingerprint (en_sha en) rq cx
          then Raise IdempotencyConflict else Ret (record_of r, False)
      | _ \<Rightarrow> Raise IdempotencyConflict)"

definition accept_body :: "env \<Rightarrow> run_request \<Rightarrow> execution_context \<Rightarrow> int \<Rightarrow> (store, run_record \<times> bool) op" where
  "accept_body en rq cx now =
     bind_op (require_session (rq_session_id rq)) (\<lambda>_.
     bind_op (read_op (same_request rq)) (\<lambda>rows.
     if rows \<noteq> [] then lift_op (accept_again en rq cx rows)
     else bind_op (read_op (find_reservation (rq_run_id rq))) (\<lambda>reservation.
       accept_fresh en rq cx reservation now)))"

definition store_accept :: "env \<Rightarrow> run_request \<Rightarrow> execution_context \<Rightarrow> int \<Rightarrow> (store, run_record \<times> bool) op" where
  "store_accept en rq cx now = transaction (accept_body en rq cx now)"

section \<open>Status transitions and cancellation\<close>

definition agent_principal :: "run_row \<Rightarrow> execution_context \<Rightarrow> principal" where
  "agent_principal r cx = \<lparr>pr_authority = pr_authority (cx_authority cx), pr_tenant_id = ru_tenant r,
     pr_subject_id = cx_agent_id cx, pr_kind = ''agent''\<rparr>"

definition transition_body :: "env \<Rightarrow> string \<Rightarrow> string \<Rightarrow> json option \<Rightarrow> int \<Rightarrow> (store, run_record) op" where
  "transition_body en rid status output now =
     bind_op (require_run_not_quarantined rid) (\<lambda>_.
     bind_op (found_op (find_run rid)) (\<lambda>r.
     if rr_terminal (record_of r) then ret_op (record_of r)
     else if status \<noteq> ''running'' \<and> status \<notin> set TERMINAL_STATUSES then raise_op ValueError
     else if status = ''running'' \<and> ru_status r \<noteq> ''queued'' then raise_op ValueError
     else
       bind_op (modify_op (map_runs rid (\<lambda>r. r\<lparr>ru_status := status, ru_status_raw := status, ru_output := output,
         ru_finished := (if status \<in> set TERMINAL_STATUSES then Some now else None)\<rparr>))) (\<lambda>_.
       bind_op
         (case (status = ''success'', output) of
            (True, Some v) \<Rightarrow>
              (case rm_context (ru_metadata r) of
                 None \<Rightarrow> raise_op KeyError
               | Some cx \<Rightarrow> bind_op (store_message en rid ''assistant'' v (agent_principal r cx) ''agent'' now None ''complete'')
                   (\<lambda>_. ret_op ()))
          | _ \<Rightarrow> ret_op ()) (\<lambda>_.
       bind_op (store_event rid (''run.'' @ status) (JObj [(''status'', JStr status), (''output'', jopt id output)]) now) (\<lambda>_.
       bind_op (found_op (find_run rid)) (\<lambda>row.
       ret_op (record_of row)))))))"

definition store_transition :: "env \<Rightarrow> string \<Rightarrow> string \<Rightarrow> json option \<Rightarrow> int \<Rightarrow> (store, run_record) op" where
  "store_transition en rid status output now = transaction (transition_body en rid status output now)"

definition store_request_cancel :: "string \<Rightarrow> int \<Rightarrow> (store, run_record) op" where
  "store_request_cancel rid now = transaction (
     bind_op (require_run_not_quarantined rid) (\<lambda>_.
     bind_op (found_op (find_run rid)) (\<lambda>r.
     if rr_terminal (record_of r) \<or> rm_cancel_requested (ru_metadata r) then ret_op (record_of r)
     else
       bind_op (modify_op (map_runs rid (\<lambda>r. r\<lparr>ru_metadata := (ru_metadata r)\<lparr>rm_cancel_requested := True\<rparr>\<rparr>))) (\<lambda>_.
       bind_op (store_event rid ''run.cancel_requested'' (JObj []) now) (\<lambda>_.
       bind_op (found_op (find_run rid)) (\<lambda>row.
       ret_op (record_of row)))))))"

definition store_reserve_cancel :: "string \<Rightarrow> execution_context \<Rightarrow> int \<Rightarrow> (store, run_record) op" where
  "store_reserve_cancel rid cx now = transaction (
     bind_op (require_session (cx_session_id cx)) (\<lambda>_.
     bind_op (require_run_not_quarantined rid) (\<lambda>_.
     bind_op (read_op (find_run rid)) (\<lambda>existing.
     case existing of
       Some r \<Rightarrow>
         if ru_tenant r \<noteq> cx_tenant_id cx \<or> ru_session r \<noteq> cx_session_id cx then raise_op PermissionError
         else ret_op (record_of r)
     | None \<Rightarrow>
         bind_op (read_op (find_reservation rid)) (\<lambda>reserved.
         bind_op
           (case reserved of
              Some e \<Rightarrow> guard_op (de_tenant e = cx_tenant_id cx \<and> de_session e = cx_session_id cx) PermissionError
            | None \<Rightarrow> modify_op (append_row
                \<lparr>de_sequence = 0, de_tenant = cx_tenant_id cx, de_actor = Some (cx_initiator cx), de_session = cx_session_id cx,
                 de_run = rid, de_type = ''run.cancel_reserved'', de_time = now,
                 de_payload = JObj [(''status'', JStr ''cancelled''), (''cancelled_before_accept'', JBool True)]\<rparr>)) (\<lambda>_.
         ret_op (cancelled_record rid (cx_session_id cx) (cx_tenant_id cx))))))))"

definition store_append_event :: "string \<Rightarrow> string \<Rightarrow> json \<Rightarrow> int \<Rightarrow> (store, run_event) op" where
  "store_append_event rid kind payload now = transaction (
     bind_op (require_run_not_quarantined rid) (\<lambda>_. store_event rid kind payload now))"

definition store_events :: "string \<Rightarrow> int \<Rightarrow> (store, run_event list) op" where
  "store_events rid after =
     bind_op (require_run_not_quarantined rid) (\<lambda>_.
     read_op (\<lambda>s. [\<lparr>ev_cursor = de_sequence e, ev_run_id = rid, ev_kind = de_type e, ev_payload = de_payload e\<rparr>.
       e \<leftarrow> sort_key de_sequence (st_events s), de_run e = rid \<and> after < de_sequence e]))"

definition store_children :: "string \<Rightarrow> (store, run_record list) op" where
  "store_children rid =
     bind_op (require_run_not_quarantined rid) (\<lambda>_.
     read_op (\<lambda>s. map record_of (sort_key (\<lambda>r. (ru_created r, ru_id r))
       (filter (\<lambda>r. ru_parent r = Some rid \<and> (case find_session (ru_session r) s of None \<Rightarrow> False
          | Some x \<Rightarrow> se_visibility x \<noteq> ''quarantined'')) (st_runs s)))))"

section \<open>Tool calls: intents and receipts\<close>

definition binding_text :: "json \<Rightarrow> string \<Rightarrow> string res" where
  "binding_text binding k = (case jget k binding of Some (JStr t) \<Rightarrow> Ret t | Some _ \<Rightarrow> Raise TypeError | None \<Rightarrow> Raise KeyError)"

definition new_tool ::
  "env \<Rightarrow> run_row \<Rightarrow> session_row \<Rightarrow> string \<Rightarrow> json \<Rightarrow> json \<Rightarrow> string \<Rightarrow> string \<Rightarrow> int \<Rightarrow> store \<Rightarrow> tool_row" where
  "new_tool en r x cid binding args server name now s =
     \<lparr>tl_id = en_uuid5 en [ru_id r, cid], tl_tenant = ru_tenant r, tl_owner = se_owner x, tl_visibility = se_visibility x,
      tl_acl_version = 1, tl_root_id = ru_session r, tl_run = ru_id r,
      tl_ordinal = next_number [tl_ordinal t. t \<leftarrow> st_tools s, tl_root_id t = ru_session r],
      tl_call = cid, tl_server = server, tl_name = name, tl_status = ''running'', tl_status_raw = ''invoking'',
      tl_args = args,
      tl_envelope = [(''call_id'', JStr cid), (''binding'', binding), (''arguments'', args)],
      tl_result = None, tl_error = None, tl_result_sha = None, tl_result_size = None, tl_result_complete = True,
      tl_completeness = ''partial'', tl_created = now, tl_finished = None, tl_source_version = 1\<rparr>"

definition insert_tool :: "tool_row \<Rightarrow> (store, unit) op" where
  "insert_tool t = (\<lambda>s.
     if tl_id t \<in> tl_id ` set (st_tools s) then (Raise IntegrityError, s)
     else (Ret (), s\<lparr>st_tools := st_tools s @ [t]\<rparr>))"

definition begin_tool_body :: "env \<Rightarrow> string \<Rightarrow> string \<Rightarrow> json \<Rightarrow> json \<Rightarrow> int \<Rightarrow> (store, unit) op" where
  "begin_tool_body en rid cid binding args now =
     bind_op (require_run_not_quarantined rid) (\<lambda>_.
     bind_op (read_op (find_run rid)) (\<lambda>run.
     case run of
       None \<Rightarrow> raise_op RuntimeError
     | Some r \<Rightarrow>
         bind_op (guard_op (ru_status r = ''running'') RuntimeError) (\<lambda>_.
         bind_op (read_op (find_tool rid cid)) (\<lambda>before.
         bind_op (guard_op (before = None) IdempotencyConflict) (\<lambda>_.
         bind_op (found_op (find_session (ru_session r))) (\<lambda>x.
         bind_op (lift_op (binding_text binding ''source_id'')) (\<lambda>server.
         bind_op (lift_op (binding_text binding ''name'')) (\<lambda>name.
         bind_op (read_op (new_tool en r x cid binding args server name now)) (\<lambda>t.
         bind_op (insert_tool t) (\<lambda>_.
         bind_op (enqueue_source ''tool_invocation'' (tl_id t) now) (\<lambda>_.
         case rm_context (ru_metadata r) of
           None \<Rightarrow> raise_op KeyError
         | Some cx \<Rightarrow>
             bind_op (store_message en rid ''tool'' (JStr []) (agent_principal r cx) ''agent'' now (Some cid) ''streaming'') (\<lambda>_.
             bind_op (store_event rid ''tool.invoking'' (JObj (tl_envelope t)) now) (\<lambda>_.
             ret_op ())))))))))))))"

definition store_begin_tool :: "env \<Rightarrow> string \<Rightarrow> string \<Rightarrow> json \<Rightarrow> json \<Rightarrow> int \<Rightarrow> (store, unit) op" where
  "store_begin_tool en rid cid binding args now = transaction (begin_tool_body en rid cid binding args now)"

text \<open>
  The outcome a caller reports: a result, or an error object.  \<^verbatim>\<open>isError\<close> in the result of an
  MCP tool marks it failed too.
\<close>

datatype outcome = Result json | Failure "(string \<times> json) list"

definition outcome_failed :: "outcome \<Rightarrow> bool" where
  "outcome_failed out = (case out of
     Failure _ \<Rightarrow> True
   | Result v \<Rightarrow> (case jget ''isError'' v of None \<Rightarrow> False | Some b \<Rightarrow> jtruthy b))"

definition outcome_status :: "outcome \<Rightarrow> string" where
  "outcome_status out = (if outcome_failed out then ''error'' else ''success'')"

text \<open>\<^verbatim>\<open>if error\<close>: an empty error object is falsy.\<close>

definition failure_truthy :: "outcome \<Rightarrow> bool" where
  "failure_truthy out = (case out of Failure e \<Rightarrow> e \<noteq> [] | Result _ \<Rightarrow> False)"

definition original_part :: "string \<Rightarrow> tool_row \<Rightarrow> json" where
  "original_part k t = (case map_of (tl_envelope t) k of None \<Rightarrow> JObj [] | Some v \<Rightarrow> v)"

definition receipt_payload :: "string \<Rightarrow> outcome \<Rightarrow> tool_row \<Rightarrow> (string \<times> json) list" where
  "receipt_payload cid out t =
     [(''call_id'', JStr cid), (''status'', JStr (outcome_status out)), (''binding'', original_part ''binding'' t),
      (''arguments'', original_part ''arguments'' t),
      (case out of Failure e \<Rightarrow> (''error'', JObj e) | Result v \<Rightarrow> (''result'', v))]"

definition finished_tool :: "env \<Rightarrow> string \<Rightarrow> outcome \<Rightarrow> int \<Rightarrow> tool_row \<Rightarrow> tool_row" where
  "finished_tool en cid out now t =
     (let encoded = (case out of Result v \<Rightarrow> Some (canonical_json (en_repr en) v) | Failure _ \<Rightarrow> None) in
      t\<lparr>tl_status := outcome_status out,
        tl_status_raw := (if failure_truthy out then ''effects_unknown'' else outcome_status out),
        tl_result := (case out of Result v \<Rightarrow> Some v | Failure _ \<Rightarrow> None),
        tl_error := (case out of Failure e \<Rightarrow> if e = [] then None else Some (JObj e) | Result _ \<Rightarrow> None),
        tl_envelope := fold (\<lambda>(k, v). AList.update k v) (receipt_payload cid out t) (tl_envelope t),
        tl_result_sha := map_option (en_sha_text en) encoded,
        tl_result_size := map_option (en_utf8 en) encoded,
        tl_result_complete := (case out of Result _ \<Rightarrow> True | Failure _ \<Rightarrow> False),
        tl_completeness := (if failure_truthy out then ''partial'' else ''complete''),
        tl_finished := Some now, tl_source_version := tl_source_version t + 1\<rparr>)"

definition find_anchor :: "string \<Rightarrow> string \<Rightarrow> store \<Rightarrow> message_row option" where
  "find_anchor rid cid s =
     List.find (\<lambda>m. me_run m = Some rid \<and> me_tool_call m = Some cid \<and> me_role m = ''tool'') (st_messages s)"

definition finish_tool_body :: "env \<Rightarrow> string \<Rightarrow> string \<Rightarrow> outcome \<Rightarrow> int \<Rightarrow> (store, unit) op" where
  "finish_tool_body en rid cid out now =
     bind_op (require_run_not_quarantined rid) (\<lambda>_.
     bind_op (found_op (find_tool rid cid)) (\<lambda>t.
     bind_op (guard_op (tl_finished t = None) IdempotencyConflict) (\<lambda>_.
     bind_op (modify_op (map_tools (tl_id t) (finished_tool en cid out now))) (\<lambda>_.
     bind_op (enqueue_source ''tool_invocation'' (tl_id t) now) (\<lambda>_.
     bind_op (read_op (find_anchor rid cid)) (\<lambda>anchor.
     bind_op
       (case anchor of
          None \<Rightarrow> ret_op ()
        | Some m \<Rightarrow>
            bind_op (modify_op (map_messages (me_id m) (\<lambda>m. m\<lparr>
              me_text := canonical_json (en_repr en) (case out of Result v \<Rightarrow> v | Failure e \<Rightarrow> JObj e),
              me_status := ''complete'', me_updated := now, me_completed := Some now,
              me_source_version := me_source_version m + 1\<rparr>))) (\<lambda>_.
            enqueue_source ''message'' (me_id m) now)) (\<lambda>_.
     bind_op (store_event rid ''tool.completed'' (JObj (receipt_payload cid out t)) now) (\<lambda>_.
     ret_op ()))))))))"

definition store_finish_tool :: "env \<Rightarrow> string \<Rightarrow> string \<Rightarrow> outcome \<Rightarrow> int \<Rightarrow> (store, unit) op" where
  "store_finish_tool en rid cid out now = transaction (finish_tool_body en rid cid out now)"

section \<open>Recovery\<close>

definition restart_reason :: "(string \<times> json) list" where
  "restart_reason =
     [(''reason'', JStr ''runtime_restarted''), (''effects'', JStr ''unknown''), (''retry_allowed'', JBool False)]"

fun finish_all :: "env \<Rightarrow> (string \<times> string) list \<Rightarrow> int \<Rightarrow> (store, unit) op" where
  "finish_all en [] now = ret_op ()"
| "finish_all en ((rid, cid) # xs) now =
     bind_op (store_finish_tool en rid cid (Failure restart_reason) now) (\<lambda>_. finish_all en xs now)"

fun interrupt_all :: "env \<Rightarrow> string list \<Rightarrow> int \<Rightarrow> (store, unit) op" where
  "interrupt_all en [] now = ret_op ()"
| "interrupt_all en (rid # xs) now =
     bind_op (store_transition en rid ''interrupted'' (Some (JObj restart_reason)) now) (\<lambda>_. interrupt_all en xs now)"

definition pending_tools :: "store \<Rightarrow> (string \<times> string) list" where
  "pending_tools s = [(tl_run t, tl_call t). t \<leftarrow> st_tools s,
     tl_finished t = None \<and> (case find_run (tl_run t) s of None \<Rightarrow> False | Some r \<Rightarrow> rm_contract (ru_metadata r))]"

definition pending_runs :: "store \<Rightarrow> string list" where
  "pending_runs s = [ru_id r. r \<leftarrow> st_runs s, rm_contract (ru_metadata r) \<and> ru_finished r = None]"

definition store_recover :: "env \<Rightarrow> int \<Rightarrow> (store, unit) op" where
  "store_recover en now =
     bind_op (read_op pending_tools) (\<lambda>tools.
     bind_op (finish_all en tools now) (\<lambda>_.
     bind_op (read_op pending_runs) (\<lambda>runs.
     interrupt_all en runs now)))"

section \<open>The accepted request\<close>

definition accepted_request_of :: "run_row \<Rightarrow> accepted_run_request res" where
  "accepted_request_of r =
     (case (ru_input r, rm_context (ru_metadata r)) of
        (None, _) \<Rightarrow> Raise PrivacyFence
      | (_, None) \<Rightarrow> Raise KeyError
      | (Some input, Some cx) \<Rightarrow>
          bind_res (request_post_init \<lparr>rq_run_id = ru_id r, rq_session_id = ru_session r,
            rq_idempotency_key = (case ru_idempotency_key r of None \<Rightarrow> [] | Some k \<Rightarrow> k), rq_input = input,
            rq_deadline_seconds = rm_deadline (ru_metadata r), rq_attachments = rm_attachments (ru_metadata r),
            rq_model_ref = rm_model_ref (ru_metadata r), rq_steer_run_id = rm_steer (ru_metadata r)\<rparr>) (\<lambda>request.
          Ret \<lparr>ar_request = request, ar_author = cx_author cx, ar_initiator = cx_initiator cx, ar_authority = cx_authority cx,
             ar_audience = cx_audience cx, ar_scopes = cx_scopes cx, ar_delegation_id = cx_delegation_id cx,
             ar_ingress_id = cx_ingress_id cx, ar_parent_run_id = cx_parent_run_id cx, ar_deferred = cx_deferred cx\<rparr>))"

definition store_accepted_request :: "string \<Rightarrow> (store, accepted_run_request) op" where
  "store_accepted_request rid =
     bind_op (found_op (\<lambda>s. Option.bind (find_run rid s) (\<lambda>r. if rm_contract (ru_metadata r) then Some r else None))) (\<lambda>r.
     lift_op (accepted_request_of r))"

text \<open>\<^verbatim>\<open>_start\<close>, as far as it concerns rows: the migrations it runs in one transaction.\<close>

definition store_start :: "int \<Rightarrow> (store, unit) op" where
  "store_start now = modify_op (\<lambda>s. restore_runtime_search_intents now (ensure_delegated_ancestry s))"

end
