(* ===== verification/SessionStore.thy ===== *)
theory SessionStore
  imports RunStore
begin

text \<open>
  The session operations of \<^verbatim>\<open>SqliteRuntimeStore\<close>
  (\<^verbatim>\<open>packages/storage-sqlite/src/openagent_storage_sqlite/__init__.py\<close>): paging with cursors,
  search, reading, creation, renaming, archiving and purging, and the saved tool invocation
  (\<^verbatim>\<open>tool_invocation.py\<close>).  A session reference is the record of its four parts; in the wire
  form of a session it stands for its token.
\<close>

section \<open>References and cursors\<close>

record session_ref =
  sr_authority :: string
  sr_tenant_id :: string
  sr_agent_id :: string
  sr_session_id :: string

definition session_ref_post_init :: "session_ref \<Rightarrow> session_ref res" where
  "session_ref_post_init r =
     (if nonblank (sr_authority r) \<and> nonblank (sr_tenant_id r) \<and> nonblank (sr_agent_id r) \<and> nonblank (sr_session_id r)
      then Ret r else Raise ValueError)"

record session_wire =
  wi_ref :: session_ref
  wi_title :: "string option"
  wi_status :: string
  wi_kind :: string
  wi_origin :: "string option"
  wi_parent :: "string option"
  wi_root :: "string option"
  wi_created :: int
  wi_updated :: int
  wi_activity :: int
  wi_archived :: bool

definition session_wire_of :: "session_row \<Rightarrow> string \<Rightarrow> session_wire res" where
  "session_wire_of x authority =
     bind_res (session_ref_post_init \<lparr>sr_authority = authority, sr_tenant_id = se_tenant x, sr_agent_id = se_agent_id x,
       sr_session_id = se_id x\<rparr>) (\<lambda>r.
     Ret \<lparr>wi_ref = r, wi_title = se_title x, wi_status = se_status x, wi_kind = se_kind x, wi_origin = se_origin x,
        wi_parent = se_parent x, wi_root = se_root x, wi_created = se_created x, wi_updated = se_updated x,
        wi_activity = se_activity x, wi_archived = (se_deleted x \<noteq> None)\<rparr>)"

fun wires :: "session_row list \<Rightarrow> string \<Rightarrow> session_wire list res" where
  "wires [] authority = Ret []"
| "wires (x # xs) authority =
     bind_res (session_wire_of x authority) (\<lambda>w. bind_res (wires xs authority) (\<lambda>ws. Ret (w # ws)))"

definition parse_session_cursor :: "env \<Rightarrow> string option \<Rightarrow> nat \<Rightarrow> json list option res" where
  "parse_session_cursor en value len =
     (case value of
        None \<Rightarrow> Ret None
      | Some t \<Rightarrow> (case en_parse en t of
            Some (JArr vs) \<Rightarrow> if length vs = len then Ret (Some vs) else Raise ValueError
          | _ \<Rightarrow> Raise ValueError))"

definition bounded_session_limit :: "int \<Rightarrow> nat res" where
  "bounded_session_limit limit = (if 1 \<le> limit \<and> limit \<le> 100 then Ret (nat limit) else Raise ValueError)"

definition json_int :: "env \<Rightarrow> json \<Rightarrow> int res" where
  "json_int en v = (case v of JInt i \<Rightarrow> Ret i | _ \<Rightarrow> en_int en v)"

definition json_str :: "env \<Rightarrow> json \<Rightarrow> string" where
  "json_str en v = (case v of JStr t \<Rightarrow> t | _ \<Rightarrow> en_str en v)"

text \<open>The position a page starts after: the activity and the id of the last session seen.\<close>

definition page_position :: "env \<Rightarrow> string option \<Rightarrow> (int \<times> string) option res" where
  "page_position en cursor =
     bind_res (parse_session_cursor en cursor 2) (\<lambda>after.
     case after of
       Some [a, b] \<Rightarrow> bind_res (json_int en a) (\<lambda>i. Ret (Some (i, json_str en b)))
     | _ \<Rightarrow> Ret None)"

definition before_position :: "(int \<times> string) option \<Rightarrow> session_row \<Rightarrow> bool" where
  "before_position after x \<longleftrightarrow>
     (case after of None \<Rightarrow> True
      | Some (a, i) \<Rightarrow> se_activity x < a \<or> (se_activity x = a \<and> se_id x < i))"

text \<open>\<^verbatim>\<open>ORDER BY last_activity_at_ms DESC, id DESC\<close>.\<close>

definition by_activity :: "session_row list \<Rightarrow> session_row list" where
  "by_activity xs = rev (sort_key (\<lambda>x. (se_activity x, se_id x)) xs)"

definition position_cursor :: "env \<Rightarrow> session_row \<Rightarrow> string" where
  "position_cursor en x = en_token en (JArr [JInt (se_activity x), JStr (se_id x)])"

definition next_cursor :: "env \<Rightarrow> nat \<Rightarrow> session_row list \<Rightarrow> string option" where
  "next_cursor en limit rows =
     (if limit < length rows \<and> take limit rows \<noteq> [] then Some (position_cursor en (last (take limit rows))) else None)"

section \<open>Listing and searching\<close>

definition listed :: "execution_context \<Rightarrow> bool \<Rightarrow> session_row \<Rightarrow> bool" where
  "listed cx include_archived x \<longleftrightarrow>
     se_tenant x = cx_tenant_id cx \<and> se_agent_id x = cx_agent_id cx \<and> se_visibility x \<noteq> ''quarantined''
     \<and> (include_archived \<or> se_deleted x = None)"

text \<open>One page of rows; \<^verbatim>\<open>LIMIT limit + 1\<close> tells whether another page follows.\<close>

definition page_rows :: "(session_row \<Rightarrow> bool) \<Rightarrow> (int \<times> string) option \<Rightarrow> nat \<Rightarrow> session_row list \<Rightarrow> session_row list" where
  "page_rows P after limit xs = take (limit + 1) (by_activity (filter (\<lambda>x. P x \<and> before_position after x) xs))"

definition list_sessions ::
  "env \<Rightarrow> execution_context \<Rightarrow> bool \<Rightarrow> int \<Rightarrow> string option \<Rightarrow> string option \<Rightarrow> (store, session_wire list \<times> string option) op" where
  "list_sessions en cx include_archived limit cursor agent =
     bind_op (guard_op (agent = None \<or> agent = Some (cx_agent_id cx)) PermissionError) (\<lambda>_.
     bind_op (lift_op (bounded_session_limit limit)) (\<lambda>n.
     bind_op (lift_op (page_position en cursor)) (\<lambda>after.
     bind_op (read_op (\<lambda>s. page_rows (listed cx include_archived) after n (st_sessions s))) (\<lambda>rows.
     bind_op (lift_op (wires (take n rows) (pr_authority (cx_authority cx)))) (\<lambda>ws.
     ret_op (ws, next_cursor en n rows))))))"

text \<open>
  \<^verbatim>\<open>LIKE\<close> with the query's own wildcards escaped: the query occurs in the text, where the
  letters of ASCII are compared without case, as SQLite does.
\<close>

definition fold_ascii :: "char \<Rightarrow> char" where
  "fold_ascii c = (let n = (of_char c :: nat) in if 65 \<le> n \<and> n \<le> 90 then char_of (n + 32) else c)"

fun occurs_at :: "string \<Rightarrow> string \<Rightarrow> bool" where
  "occurs_at [] t = True"
| "occurs_at (q # qs) [] = False"
| "occurs_at (q # qs) (c # t) = (fold_ascii q = fold_ascii c \<and> occurs_at qs t)"

fun occurs_in :: "string \<Rightarrow> string \<Rightarrow> bool" where
  "occurs_in q [] = occurs_at q []"
| "occurs_in q (c # t) = (occurs_at q (c # t) \<or> occurs_in q t)"

definition message_hits :: "string \<Rightarrow> string \<Rightarrow> store \<Rightarrow> message_row list" where
  "message_hits query sid s =
     filter (\<lambda>m. me_session m = sid \<and> me_visibility m = ''user_visible'' \<and> occurs_in query (me_text m)) (st_messages s)"

definition search_matches :: "execution_context \<Rightarrow> string \<Rightarrow> store \<Rightarrow> session_row \<Rightarrow> bool" where
  "search_matches cx query s x \<longleftrightarrow>
     listed cx False x
     \<and> (occurs_in query (case se_title x of None \<Rightarrow> [] | Some t \<Rightarrow> t) \<or> message_hits query (se_id x) s \<noteq> [])"

text \<open>The newest matching message of a session: its first 500 characters and its number.\<close>

definition search_excerpt :: "string \<Rightarrow> store \<Rightarrow> session_row \<Rightarrow> (string \<times> int) option" where
  "search_excerpt query s x =
     (case rev (sort_key me_sequence (message_hits query (se_id x) s)) of
        [] \<Rightarrow> None
      | m # _ \<Rightarrow> Some (take 500 (me_text m), me_sequence m))"

definition search_sessions ::
  "env \<Rightarrow> execution_context \<Rightarrow> string \<Rightarrow> int \<Rightarrow> string option \<Rightarrow> string option
    \<Rightarrow> (store, (session_wire \<times> (string \<times> int) option) list \<times> string option) op" where
  "search_sessions en cx query limit cursor agent =
     bind_op (guard_op (agent = None \<or> agent = Some (cx_agent_id cx)) PermissionError) (\<lambda>_.
     let q = strip query in
     bind_op (guard_op (q \<noteq> [] \<and> length q \<le> 512) ValueError) (\<lambda>_.
     bind_op (lift_op (bounded_session_limit limit)) (\<lambda>n.
     bind_op (lift_op (page_position en cursor)) (\<lambda>after.
     bind_op (read_op (\<lambda>s. page_rows (search_matches cx q s) after n (st_sessions s))) (\<lambda>rows.
     bind_op (lift_op (wires (take n rows) (pr_authority (cx_authority cx)))) (\<lambda>ws.
     bind_op (read_op (\<lambda>s. map (search_excerpt q s) (take n rows))) (\<lambda>hits.
     ret_op (zip ws hits, next_cursor en n rows))))))))"

section \<open>One session\<close>

definition local_reference :: "session_ref \<Rightarrow> execution_context \<Rightarrow> bool" where
  "local_reference r cx \<longleftrightarrow>
     sr_tenant_id r = cx_tenant_id cx \<and> sr_agent_id r = cx_agent_id cx \<and> sr_authority r = pr_authority (cx_authority cx)"

definition require_local_session :: "session_ref \<Rightarrow> execution_context \<Rightarrow> (store, session_row) op" where
  "require_local_session r cx =
     bind_op (guard_op (local_reference r cx) PermissionError) (\<lambda>_.
     bind_op (found_op (\<lambda>s. List.find (\<lambda>x. se_id x = sr_session_id r \<and> se_tenant x = sr_tenant_id r
       \<and> se_agent_id x = sr_agent_id r) (st_sessions s))) (\<lambda>x.
     bind_op (lift_op (require_session_not_quarantined (Some x))) (\<lambda>_. ret_op x)))"

definition read_session ::
  "env \<Rightarrow> session_ref \<Rightarrow> execution_context \<Rightarrow> int \<Rightarrow> string option \<Rightarrow> (store, session_wire \<times> message_row list \<times> string option) op" where
  "read_session en r cx limit cursor =
     bind_op (require_local_session r cx) (\<lambda>x.
     bind_op (lift_op (bounded_session_limit limit)) (\<lambda>n.
     bind_op (lift_op (bind_res (parse_session_cursor en cursor 1) (\<lambda>after. case after of
         Some [a] \<Rightarrow> json_int en a | _ \<Rightarrow> Ret (-1)))) (\<lambda>sequence.
     bind_op (read_op (\<lambda>s. take (n + 1) (sort_key me_sequence (filter (\<lambda>m. me_session m = sr_session_id r
         \<and> sequence < me_sequence m \<and> me_visibility m = ''user_visible'') (st_messages s))))) (\<lambda>messages.
     bind_op (lift_op (session_wire_of x (sr_authority r))) (\<lambda>w.
     ret_op (w, take n messages,
       if n < length messages \<and> take n messages \<noteq> []
       then Some (en_token en (JArr [JInt (me_sequence (last (take n messages)))])) else None))))))"

definition find_wire :: "session_ref \<Rightarrow> (store, session_wire) op" where
  "find_wire r = bind_op (found_op (find_session (sr_session_id r))) (\<lambda>x. lift_op (session_wire_of x (sr_authority r)))"

definition create_session ::
  "session_ref \<Rightarrow> execution_context \<Rightarrow> string option \<Rightarrow> session_ref option \<Rightarrow> int \<Rightarrow> (store, session_wire) op" where
  "create_session r cx title parent now =
     bind_op (guard_op (local_reference r cx) PermissionError) (\<lambda>_.
     bind_op (read_op (find_session (sr_session_id r))) (\<lambda>there.
     bind_op (guard_op (there = None) IdempotencyConflict) (\<lambda>_.
     bind_op
       (case parent of
          None \<Rightarrow> ret_op (None, None)
        | Some p \<Rightarrow> bind_op (require_local_session p cx) (\<lambda>x.
            ret_op (Some (sr_session_id p), if truthy_opt (se_root x) then se_root x else Some (sr_session_id p)))) (\<lambda>(parent_id, root_id).
     bind_op (transaction (
       bind_op (modify_op (\<lambda>s. s\<lparr>st_sessions := st_sessions s @ [(new_session (sr_session_id r) cx now)
         \<lparr>se_title := title, se_parent := parent_id, se_root := root_id,
          se_metadata := [(''runtime_contract'', JInt 1), (''created_by'', JStr ''sessions-module'')]\<rparr>]\<rparr>)) (\<lambda>_.
       enqueue_source ''session'' (sr_session_id r) now))) (\<lambda>_.
     find_wire r)))))"

text \<open>The common shape of a change of one session row, which counts its version.\<close>

definition change_session ::
  "session_ref \<Rightarrow> (session_row \<Rightarrow> session_row) \<Rightarrow> int \<Rightarrow> (store, session_wire) op" where
  "change_session r f now =
     bind_op (transaction (
       bind_op (modify_op (map_sessions (sr_session_id r) (\<lambda>x. (f x)\<lparr>se_updated := now, se_source_version := se_source_version x + 1\<rparr>))) (\<lambda>_.
       enqueue_source ''session'' (sr_session_id r) now))) (\<lambda>_.
     find_wire r)"

definition rename_session :: "session_ref \<Rightarrow> execution_context \<Rightarrow> string \<Rightarrow> int \<Rightarrow> (store, session_wire) op" where
  "rename_session r cx title now =
     bind_op (require_local_session r cx) (\<lambda>_.
     let t = strip title in
     bind_op (guard_op (t \<noteq> [] \<and> length t \<le> 240) ValueError) (\<lambda>_.
     change_session r (\<lambda>x. x\<lparr>se_title := Some t\<rparr>) now))"

definition archive_session :: "session_ref \<Rightarrow> execution_context \<Rightarrow> int \<Rightarrow> (store, session_wire) op" where
  "archive_session r cx now =
     bind_op (require_local_session r cx) (\<lambda>_.
     change_session r (\<lambda>x. x\<lparr>se_status := ''archived'',
       se_deleted := (case se_deleted x of None \<Rightarrow> Some now | Some t \<Rightarrow> Some t)\<rparr>) now)"

definition restore_session :: "session_ref \<Rightarrow> execution_context \<Rightarrow> int \<Rightarrow> (store, session_wire) op" where
  "restore_session r cx now =
     bind_op (require_local_session r cx) (\<lambda>_.
     change_session r (\<lambda>x. x\<lparr>se_status := ''active'', se_deleted := None\<rparr>) now)"

section \<open>Purging\<close>

definition delete_intent :: "string \<Rightarrow> string \<Rightarrow> string \<Rightarrow> int \<Rightarrow> int \<Rightarrow> int \<Rightarrow> outbox_row" where
  "delete_intent tenant kind i source_version acl_version now =
     (outbox_row_of tenant kind i source_version acl_version now)\<lparr>ob_operation := ''delete''\<rparr>"

text \<open>
  \<^verbatim>\<open>DELETE FROM sessions_v2\<close> with the actions of the foreign keys: the runs, messages and tool
  rows of the session go with it, a delegated run of another session loses its parent reference,
  and a session that another one names as its parent or root cannot go.
\<close>

definition delete_session :: "string \<Rightarrow> (store, unit) op" where
  "delete_session sid = (\<lambda>s.
     if \<exists>x \<in> set (st_sessions s). se_id x \<noteq> sid \<and> (se_parent x = Some sid \<or> se_root x = Some sid) then (Raise IntegrityError, s)
     else
       let gone = [ru_id r. r \<leftarrow> st_runs s, ru_session r = sid] in
       (Ret (), s\<lparr>st_sessions := filter (\<lambda>x. se_id x \<noteq> sid) (st_sessions s),
          st_runs := map (\<lambda>r. if ru_parent r \<in> Some ` set gone then r\<lparr>ru_parent := None\<rparr> else r)
            (filter (\<lambda>r. ru_session r \<noteq> sid) (st_runs s)),
          st_messages := filter (\<lambda>m. me_session m \<noteq> sid) (st_messages s),
          st_tools := filter (\<lambda>t. tl_root_id t \<noteq> sid) (st_tools s)\<rparr>))"

definition purge_session :: "session_ref \<Rightarrow> execution_context \<Rightarrow> int \<Rightarrow> (store, unit) op" where
  "purge_session r cx now =
     bind_op (require_local_session r cx) (\<lambda>x.
     bind_op (guard_op (se_deleted x \<noteq> None) ValueError) (\<lambda>_.
     bind_op (read_op (\<lambda>s. \<exists>y \<in> set (st_runs s). ru_session y = sr_session_id r \<and> ru_status y \<notin> set TERMINAL_STATUSES)) (\<lambda>active.
     bind_op (guard_op (\<not> active) RuntimeError) (\<lambda>_.
     bind_op (read_op (\<lambda>s. \<exists>y \<in> set (st_sessions s). se_parent y = Some (sr_session_id r))) (\<lambda>children.
     bind_op (guard_op (\<not> children) RuntimeError) (\<lambda>_.
     transaction (
       bind_op (modify_op (\<lambda>s. fold outbox_insert
         [delete_intent (cx_tenant_id cx) ''message'' (me_id m) (me_source_version m + 1) (se_acl_version x) now.
           m \<leftarrow> st_messages s, me_session m = sr_session_id r] s)) (\<lambda>_.
       bind_op (modify_op (outbox_insert
         (delete_intent (cx_tenant_id cx) ''session'' (sr_session_id r) (se_source_version x + 1) (se_acl_version x) now))) (\<lambda>_.
       delete_session (sr_session_id r))))))))))"

section \<open>A saved tool invocation\<close>

definition provider_call :: "tool_row \<Rightarrow> json option" where
  "provider_call t = Option.bind (map_of (tl_envelope t) ''binding'') (jget ''provider_call_id'')"

definition invocation_matches :: "session_ref \<Rightarrow> string \<Rightarrow> store \<Rightarrow> tool_row \<Rightarrow> bool" where
  "invocation_matches r i s t \<longleftrightarrow>
     tl_tenant t = sr_tenant_id r \<and> tl_root_id t = sr_session_id r \<and> tl_visibility t \<noteq> ''quarantined''
     \<and> (\<exists>y \<in> set (st_runs s). ru_id y = tl_run t \<and> ru_agent_id y = sr_agent_id r)
     \<and> (tl_id t = i \<or> tl_call t = i \<or> provider_call t = Some (JStr i))"

definition read_tool_invocation :: "session_ref \<Rightarrow> string \<Rightarrow> execution_context \<Rightarrow> (store, tool_row) op" where
  "read_tool_invocation r i cx =
     bind_op (guard_op (sr_session_id r = cx_session_id cx) PermissionError) (\<lambda>_.
     bind_op (guard_op (1 \<le> length i \<and> length i \<le> 512 \<and> (\<forall>c \<in> set i. 32 \<le> (of_char c :: nat))) ValueError) (\<lambda>_.
     bind_op (require_local_session r cx) (\<lambda>_.
     bind_op (read_op (\<lambda>s. filter (invocation_matches r i s) (st_tools s))) (\<lambda>rows.
     case rows of
       [] \<Rightarrow> raise_op LookupError
     | [t] \<Rightarrow> bind_op (require_run_not_quarantined (tl_run t)) (\<lambda>_. ret_op t)
     | _ \<Rightarrow> raise_op ValueError))))"

end
