(* ===== verification/RunStoreLaws.thy ===== *)
theory RunStoreLaws
  imports RunStore
begin

text \<open>
  What the operations of the run store do to each table: the frame of the helpers (which tables
  and columns a message, an event and a search intent leave alone), the evolution of a run row
  along every operation, the append-only event log, and the invariant of the tables.
\<close>

section \<open>Frames of the helpers\<close>

lemma transaction_cases:
  assumes "transaction m s = (r, s')"
  obtains (raised) e s'' where "m s = (Inl e, s'')" "r = Inl e" "s' = s"
    | (returned) x where "m s = (Inr x, s')" "r = Inr x"
  using assms by (cases "m s"; cases "fst (m s)") (auto simp: transaction_def)

lemma transaction_raised: "fst (transaction m s) = Inl e \<Longrightarrow> snd (transaction m s) = s"
  by (auto simp: transaction_def split: prod.splits sum.splits)

lemma moves_transaction:
  assumes "reflp R" "moves R m" shows "moves R (transaction m)"
  unfolding moves_def
proof
  fix s
  obtain r s' where t: "transaction m s = (r, s')" by fastforce
  then have "R s s'"
  proof (rule transaction_cases)
    assume "s' = s" with assms(1) show "R s s'" by (simp add: reflpD)
  next
    fix x assume "m s = (Inr x, s')"
    with assms(2) show "R s s'" by (rule movesD)
  qed
  with t show "R s (snd (transaction m s))" by simp
qed

text \<open>The columns of a session that only count its versions and activity, and those of a tool row.\<close>

definition session_core :: "session_row \<Rightarrow> session_row" where
  "session_core x = x\<lparr>se_source_version := 0, se_updated := 0, se_activity := 0\<rparr>"

definition tool_core :: "tool_row \<Rightarrow> tool_row" where
  "tool_core t = t\<lparr>tl_source_version := 0\<rparr>"

definition sessions_core :: "store \<Rightarrow> session_row list" where
  "sessions_core s = map session_core (st_sessions s)"

definition tools_core :: "store \<Rightarrow> tool_row list" where
  "tools_core s = map tool_core (st_tools s)"

lemma found_op_keeps: "reflp R \<Longrightarrow> moves R (found_op q)"
  by (auto simp: moves_def found_op_def reflp_def split: option.split)

lemma require_keeps:
  assumes "reflp R"
  shows "moves R (require_session sid)" "moves R (require_run_not_quarantined rid)"
  using assms by (simp_all add: moves_def require_session_def require_run_not_quarantined_def reflp_def)

definition outbox_free :: "store \<Rightarrow> store" where
  "outbox_free s = s\<lparr>st_outbox := []\<rparr>"

lemma outbox_insert_free: "outbox_free (outbox_insert r s) = outbox_free s"
  by (simp add: outbox_insert_def outbox_free_def)

lemma enqueue_keeps_free: "moves (keeps outbox_free) (enqueue_source k i now)"
  by (auto simp: moves_def keeps_def enqueue_source_def outbox_insert_free split: option.split)

text \<open>Everything but the outbox.\<close>

lemma enqueue_keeps:
  "moves (keeps st_runs) (enqueue_source k i now)" "moves (keeps st_events) (enqueue_source k i now)"
  "moves (keeps st_sequence) (enqueue_source k i now)" "moves (keeps st_tools) (enqueue_source k i now)"
  "moves (keeps st_sessions) (enqueue_source k i now)" "moves (keeps st_messages) (enqueue_source k i now)"
  "moves (keeps st_acl) (enqueue_source k i now)" "moves (keeps st_uuids) (enqueue_source k i now)"
  "moves (keeps sessions_core) (enqueue_source k i now)" "moves (keeps tools_core) (enqueue_source k i now)"
proof -
  have *: "st_runs s' = st_runs s \<and> st_events s' = st_events s \<and> st_sequence s' = st_sequence s \<and> st_tools s' = st_tools s
    \<and> st_sessions s' = st_sessions s \<and> st_messages s' = st_messages s \<and> st_acl s' = st_acl s \<and> st_uuids s' = st_uuids s"
    if "keeps outbox_free s s'" for s s'
    using that by (cases s; cases s') (simp add: keeps_def outbox_free_def)
  note w = moves_weaken [OF enqueue_keeps_free]
  show "moves (keeps st_runs) (enqueue_source k i now)" "moves (keeps st_events) (enqueue_source k i now)"
    "moves (keeps st_sequence) (enqueue_source k i now)" "moves (keeps st_tools) (enqueue_source k i now)"
    "moves (keeps st_sessions) (enqueue_source k i now)" "moves (keeps st_messages) (enqueue_source k i now)"
    "moves (keeps st_acl) (enqueue_source k i now)" "moves (keeps st_uuids) (enqueue_source k i now)"
    "moves (keeps sessions_core) (enqueue_source k i now)" "moves (keeps tools_core) (enqueue_source k i now)"
    by (rule w, drule *, simp add: keeps_def sessions_core_def tools_core_def)+
qed

lemma session_core_touch: "sessions_core (touch_session sid now s) = sessions_core s"
  by (simp add: sessions_core_def touch_session_def map_sessions_def session_core_def)

lemma tool_core_bump: "tools_core (map_tools t (\<lambda>x. x\<lparr>tl_source_version := tl_source_version x + 1\<rparr>) s) = tools_core s"
  by (simp add: tools_core_def map_tools_def tool_core_def)

lemma refresh_tools_keeps:
  "moves (keeps st_runs) (refresh_tools ts now)" "moves (keeps st_events) (refresh_tools ts now)"
  "moves (keeps st_sequence) (refresh_tools ts now)" "moves (keeps st_acl) (refresh_tools ts now)"
  "moves (keeps st_sessions) (refresh_tools ts now)" "moves (keeps st_messages) (refresh_tools ts now)"
  "moves (keeps sessions_core) (refresh_tools ts now)" "moves (keeps tools_core) (refresh_tools ts now)"
  by (induction ts) (auto simp del: op_simps intro!: keeps_intros keeps_modify enqueue_keeps tool_core_bump
      simp: map_tools_def sessions_core_def)

lemma store_message_keeps:
  "moves (keeps st_runs) (store_message en rid role text a k now c st)"
  "moves (keeps st_events) (store_message en rid role text a k now c st)"
  "moves (keeps st_sequence) (store_message en rid role text a k now c st)"
  "moves (keeps st_acl) (store_message en rid role text a k now c st)"
  "moves (keeps sessions_core) (store_message en rid role text a k now c st)"
  "moves (keeps tools_core) (store_message en rid role text a k now c st)"
  unfolding store_message_def
  by (intro keeps_intros keeps_modify enqueue_keeps refresh_tools_keeps found_op_keeps keeps_reflp session_core_touch;
      simp add: touch_session_def map_sessions_def sessions_core_def tools_core_def)+

lemma store_event_keeps:
  "moves (keeps st_runs) (store_event rid kind p now)" "moves (keeps st_sessions) (store_event rid kind p now)"
  "moves (keeps st_tools) (store_event rid kind p now)" "moves (keeps st_messages) (store_event rid kind p now)"
  "moves (keeps st_acl) (store_event rid kind p now)" "moves (keeps sessions_core) (store_event rid kind p now)"
  "moves (keeps tools_core) (store_event rid kind p now)" "moves (keeps st_uuids) (store_event rid kind p now)"
  "moves (keeps st_outbox) (store_event rid kind p now)"
  unfolding store_event_def
  by (intro keeps_intros keeps_modify found_op_keeps keeps_reflp; simp add: append_row_def sessions_core_def tools_core_def)+

section \<open>The event log only grows\<close>

definition log_grows :: "store \<Rightarrow> store \<Rightarrow> bool" where
  "log_grows s s' \<longleftrightarrow> st_sequence s \<le> st_sequence s' \<and>
     (\<exists>l. st_events s' = st_events s @ l \<and> sorted_wrt (<) (map de_sequence l)
        \<and> (\<forall>e \<in> set l. st_sequence s < de_sequence e \<and> de_sequence e \<le> st_sequence s'))"

lemma log_grows_reflp: "reflp log_grows"
  by (simp add: reflp_def log_grows_def)

lemma log_grows_transp: "transp log_grows"
proof (rule transpI)
  fix a b c assume "log_grows a b" "log_grows b c"
  then obtain l m where
    l: "st_events b = st_events a @ l" "sorted_wrt (<) (map de_sequence l)" "\<forall>e \<in> set l. st_sequence a < de_sequence e \<and> de_sequence e \<le> st_sequence b"
    and m: "st_events c = st_events b @ m" "sorted_wrt (<) (map de_sequence m)" "\<forall>e \<in> set m. st_sequence b < de_sequence e \<and> de_sequence e \<le> st_sequence c"
    and le: "st_sequence a \<le> st_sequence b" "st_sequence b \<le> st_sequence c"
    unfolding log_grows_def by blast
  have "sorted_wrt (<) (map de_sequence (l @ m))"
    using l(2,3) m(2,3) by (fastforce simp: sorted_wrt_append)
  moreover have "\<forall>e \<in> set (l @ m). st_sequence a < de_sequence e \<and> de_sequence e \<le> st_sequence c"
    using l(3) m(3) le by fastforce
  ultimately show "log_grows a c"
    unfolding log_grows_def using l(1) m(1) le by (intro conjI exI [of _ "l @ m"]) simp_all
qed

lemma log_grows_append: "log_grows s (append_row e s)"
  by (simp add: log_grows_def append_row_def)

lemma keeps_log_grows: "keeps st_events s s' \<Longrightarrow> keeps st_sequence s s' \<Longrightarrow> log_grows s s'"
  by (simp add: keeps_def log_grows_def)

lemma moves_log_grows:
  assumes "moves (keeps st_events) m" "moves (keeps st_sequence) m"
  shows "moves log_grows m"
  using assms keeps_log_grows by (simp add: moves_def)

lemmas log_bind = moves_bind [OF log_grows_transp]
lemmas log_basic = moves_basic [OF log_grows_reflp]
lemmas log_message = moves_log_grows [OF store_message_keeps(2,3)]
lemmas log_enqueue = moves_log_grows [OF enqueue_keeps(2,3)]

lemma log_modify: "(\<And>s. st_events (g s) = st_events s \<and> st_sequence (g s) = st_sequence s) \<Longrightarrow> moves log_grows (modify_op g)"
  by (simp add: moves_def log_grows_def)

lemma log_modify_append: "moves log_grows (modify_op (append_row e))"
  by (simp add: moves_def log_grows_append)

lemma log_event: "moves log_grows (store_event rid kind p now)"
  unfolding store_event_def by (intro log_bind log_basic found_op_keeps log_grows_reflp log_modify_append)

lemmas log_intros = log_bind log_basic moves_splits found_op_keeps [OF log_grows_reflp] require_keeps [OF log_grows_reflp]
  log_message log_enqueue log_event log_modify_append moves_transaction [OF log_grows_reflp]

lemma moves_list: "moves R n \<Longrightarrow> (\<And>x xs. moves R (f x xs)) \<Longrightarrow> moves R (case v of [] \<Rightarrow> n | x # xs \<Rightarrow> f x xs)"
  by (cases v) auto

lemma moves_pair_bool: "(\<And>x. moves R (f x)) \<Longrightarrow> moves R n \<Longrightarrow> moves R (case (b, v) of (True, Some x) \<Rightarrow> f x | _ \<Rightarrow> n)"
  by (cases b; cases v) auto

lemma log_insert:
  "moves log_grows (insert_acl rows)" "moves log_grows (insert_run r)" "moves log_grows (insert_tool t)"
  by (auto simp: moves_def log_grows_def insert_acl_def insert_run_def insert_tool_def)

lemma log_accept: "moves log_grows (store_accept en rq cx now)"
  unfolding store_accept_def accept_body_def accept_fresh_def insert_accepted_def announce_accepted_def
    accept_session_def accept_parent_def
  by (intro log_intros log_insert log_modify moves_list; simp add: map_sessions_def map_runs_def)

lemma log_transition: "moves log_grows (store_transition en rid status out now)"
  unfolding store_transition_def transition_body_def
  by (intro log_intros log_modify moves_pair_bool; simp add: map_runs_def)

lemma log_request_cancel: "moves log_grows (store_request_cancel rid now)"
  unfolding store_request_cancel_def by (intro log_intros log_modify; simp add: map_runs_def)

lemma log_reserve_cancel: "moves log_grows (store_reserve_cancel rid cx now)"
  unfolding store_reserve_cancel_def by (intro log_intros)

lemma log_append_event: "moves log_grows (store_append_event rid kind p now)"
  unfolding store_append_event_def by (intro log_intros)

lemma log_begin_tool: "moves log_grows (store_begin_tool en rid cid b a now)"
  unfolding store_begin_tool_def begin_tool_body_def by (intro log_intros log_insert)

lemma log_finish_tool: "moves log_grows (store_finish_tool en rid cid out now)"
  unfolding store_finish_tool_def finish_tool_body_def
  by (intro log_intros log_modify; simp add: map_tools_def map_messages_def)

lemma log_finish_all: "moves log_grows (finish_all en xs now)"
proof (induction xs)
  case (Cons x xs)
  then show ?case by (cases x) (simp only: finish_all.simps, intro log_intros log_finish_tool)
qed (simp only: finish_all.simps log_basic)

lemma log_interrupt_all: "moves log_grows (interrupt_all en xs now)"
proof (induction xs)
  case (Cons x xs)
  then show ?case by (simp only: interrupt_all.simps, intro log_intros log_transition)
qed (simp only: interrupt_all.simps log_basic)

lemma log_recover: "moves log_grows (store_recover en now)"
  unfolding store_recover_def by (intro log_intros log_finish_all log_interrupt_all)

section \<open>How a run row may change\<close>

definition run_terminal :: "run_row \<Rightarrow> bool" where
  "run_terminal r \<longleftrightarrow> ru_status r \<in> set TERMINAL_STATUSES"

lemma rr_terminal_record [simp]: "rr_terminal (record_of r) = run_terminal r"
  by (simp add: rr_terminal_def record_of_def run_terminal_def)

text \<open>
  The admission evidence of a row never changes; a terminal row keeps its status, output and time
  for good; a row that runs never goes back to the queue; a requested cancellation stays requested.
\<close>

definition run_le :: "run_row \<Rightarrow> run_row \<Rightarrow> bool" where
  "run_le r r' \<longleftrightarrow>
     ru_id r' = ru_id r \<and> ru_tenant r' = ru_tenant r \<and> ru_session r' = ru_session r \<and> ru_ordinal r' = ru_ordinal r
     \<and> ru_idempotency_key r' = ru_idempotency_key r \<and> ru_agent_id r' = ru_agent_id r \<and> ru_input r' = ru_input r
     \<and> ru_parent r' = ru_parent r \<and> ru_created r' = ru_created r
     \<and> (ru_metadata r')\<lparr>rm_cancel_requested := False\<rparr> = (ru_metadata r)\<lparr>rm_cancel_requested := False\<rparr>
     \<and> (rm_cancel_requested (ru_metadata r) \<longrightarrow> rm_cancel_requested (ru_metadata r'))
     \<and> (run_terminal r \<longrightarrow> ru_status r' = ru_status r \<and> ru_status_raw r' = ru_status_raw r \<and> ru_output r' = ru_output r
          \<and> ru_finished r' = ru_finished r)
     \<and> (ru_status r' = ru_status r \<or> run_terminal r' \<or> (ru_status r = ''queued'' \<and> ru_status r' = ''running''))"

lemma run_le_refl: "run_le r r"
  by (simp add: run_le_def)

lemma run_le_trans:
  assumes "run_le a b" "run_le b c" shows "run_le a c"
proof -
  have final: "run_terminal a \<Longrightarrow> run_terminal b" "run_terminal b \<Longrightarrow> run_terminal c"
    using assms by (auto simp: run_le_def run_terminal_def)
  show ?thesis
  proof (cases "run_terminal b")
    case True
    with assms final show ?thesis unfolding run_le_def by (auto simp: run_terminal_def)
  next
    case False
    then have b: "ru_status b = ru_status a \<or> (ru_status a = ''queued'' \<and> ru_status b = ''running'')" and "\<not> run_terminal a"
      using assms(1) final by (auto simp: run_le_def)
    then have "ru_status c = ru_status a \<or> run_terminal c \<or> (ru_status a = ''queued'' \<and> ru_status c = ''running'')"
      using assms(2) by (auto simp: run_le_def)
    with assms \<open>\<not> run_terminal a\<close> show ?thesis unfolding run_le_def by auto
  qed
qed

definition runs_le :: "store \<Rightarrow> store \<Rightarrow> bool" where
  "runs_le s s' \<longleftrightarrow> (\<exists>xs l. st_runs s' = xs @ l \<and> list_all2 run_le (st_runs s) xs)"

lemma runs_le_append: "st_runs s' = st_runs s @ l \<Longrightarrow> runs_le s s'"
  unfolding runs_le_def by (auto simp: list_all2_refl run_le_refl)

lemma runs_le_reflp: "reflp runs_le"
  by (rule reflpI) (auto intro: runs_le_append [where l = "[]"])

lemma runs_le_transp: "transp runs_le"
proof (rule transpI)
  fix a b c assume "runs_le a b" "runs_le b c"
  then obtain xs l ys m where b: "st_runs b = xs @ l" "list_all2 run_le (st_runs a) xs"
    and c: "st_runs c = ys @ m" "list_all2 run_le (st_runs b) ys" unfolding runs_le_def by blast
  from c(2) b(1) obtain ys1 ys2 where ys: "ys = ys1 @ ys2" "list_all2 run_le xs ys1"
    by (auto simp: list_all2_append1)
  have "list_all2 run_le (st_runs a) ys1"
    by (rule list_all2_trans [OF run_le_trans b(2) ys(2)])
  with ys c(1) show "runs_le a c" unfolding runs_le_def by (intro exI [of _ ys1] exI [of _ "ys2 @ m"]) simp
qed

lemma runs_le_find:
  assumes "runs_le s s'" "find_run rid s = Some r"
  shows "\<exists>r'. find_run rid s' = Some r' \<and> run_le r r'"
proof -
  obtain xs l where s': "st_runs s' = xs @ l" and le: "list_all2 run_le (st_runs s) xs"
    using assms(1) unfolding runs_le_def by blast
  have "List.find (\<lambda>x. ru_id x = rid) rs = Some r \<Longrightarrow> list_all2 run_le rs ys \<Longrightarrow>
    \<exists>r'. List.find (\<lambda>x. ru_id x = rid) (ys @ l) = Some r' \<and> run_le r r'" for rs ys
  proof (induction rs arbitrary: ys)
    case (Cons x rs)
    from Cons.prems(2) obtain y ys' where ys: "ys = y # ys'" "run_le x y" "list_all2 run_le rs ys'"
      by (auto simp: list_all2_Cons1)
    with Cons show ?case by (auto simp: run_le_def split: if_splits)
  qed simp
  with assms(2) le show ?thesis by (simp add: find_run_def s')
qed

lemma keeps_runs_le: "moves (keeps st_runs) m \<Longrightarrow> moves runs_le m"
  by (auto simp: moves_def keeps_def intro: runs_le_append [where l = "[]"])

lemmas le_bind = moves_bind [OF runs_le_transp]
lemmas le_basic = moves_basic [OF runs_le_reflp]
lemmas le_message = keeps_runs_le [OF store_message_keeps(1)]
lemmas le_event = keeps_runs_le [OF store_event_keeps(1)]
lemmas le_enqueue = keeps_runs_le [OF enqueue_keeps(1)]

lemma le_modify: "(\<And>s. st_runs (g s) = st_runs s) \<Longrightarrow> moves runs_le (modify_op g)"
  by (rule keeps_runs_le, rule keeps_modify)

lemmas le_intros = le_bind le_basic moves_splits found_op_keeps [OF runs_le_reflp] require_keeps [OF runs_le_reflp]
  le_message le_enqueue le_event moves_transaction [OF runs_le_reflp] le_modify

lemma runs_le_map:
  assumes "\<And>r. r \<in> set (st_runs s) \<Longrightarrow> ru_id r = rid \<Longrightarrow> run_le r (f r)"
  shows "runs_le s (map_runs rid f s)"
  unfolding runs_le_def
proof (intro exI conjI)
  show "st_runs (map_runs rid f s) = map (\<lambda>x. if ru_id x = rid then f x else x) (st_runs s) @ []"
    by (simp add: map_runs_def)
  show "list_all2 run_le (st_runs s) (map (\<lambda>x. if ru_id x = rid then f x else x) (st_runs s))"
    using assms by (auto simp: list_all2_conv_all_nth run_le_refl)
qed

lemma le_insert: "moves runs_le (insert_acl rows)" "moves runs_le (insert_run r)" "moves runs_le (insert_tool t)"
  by (auto simp: moves_def insert_acl_def insert_run_def insert_tool_def intro: runs_le_append [where l = "[]"] runs_le_append)

section \<open>What an acceptance does\<close>

lemma accept_session_runs:
  "moves (keeps st_runs) (accept_session sid cx now)" "moves (keeps st_events) (accept_session sid cx now)"
  "moves (keeps st_sequence) (accept_session sid cx now)" "moves (keeps st_messages) (accept_session sid cx now)"
  "moves (keeps st_tools) (accept_session sid cx now)"
  unfolding accept_session_def insert_acl_def
  by (intro keeps_intros keeps_modify; simp add: moves_def keeps_def map_sessions_def)+

lemma accept_parent_runs:
  "moves (keeps st_runs) (accept_parent sid cx x)" "moves (keeps st_events) (accept_parent sid cx x)"
  "moves (keeps st_sequence) (accept_parent sid cx x)" "moves (keeps st_messages) (accept_parent sid cx x)"
  "moves (keeps st_tools) (accept_parent sid cx x)"
  unfolding accept_parent_def
  by (intro keeps_intros keeps_modify; simp add: map_sessions_def)+

lemma find_run_append:
  "find_run rid s = None \<Longrightarrow> st_runs s' = st_runs s @ [r] \<Longrightarrow> ru_id r = rid \<Longrightarrow> find_run rid s' = Some r"
  by (simp add: find_run_def find_append_new)

lemma same_request_Nil:
  assumes "same_request rq s = []"
  shows "find_run (rq_run_id rq) s = None" "\<forall>r \<in> set (st_runs s). ru_id r \<noteq> rq_run_id rq"
  using assms by (auto simp: same_request_def find_run_def find_None_iff filter_empty_conv)

lemma bind_op_Ret_iff:
  "bind_op m f s = (Inr y, s') \<longleftrightarrow> (\<exists>x s''. m s = (Inr x, s'') \<and> f x s'' = (Inr y, s'))"
  by (auto elim: bind_op_Ret_cases)

lemma found_op_Ret: "found_op q s = (Inr x, s') \<longleftrightarrow> q s = Some x \<and> s' = s"
  by (auto simp: found_op_def split: option.split)

lemma require_run_Ret: "require_run_not_quarantined rid s = (Inr u, s') \<longleftrightarrow>
    s' = s \<and> (\<forall>x. run_session rid s = Some x \<longrightarrow> se_visibility x \<noteq> ''quarantined'')"
  by (auto simp: require_run_not_quarantined_def require_session_not_quarantined_def split: option.splits if_splits)

lemma require_session_Ret: "require_session sid s = (Inr u, s') \<longleftrightarrow> s' = s \<and> \<not> quarantined sid s"
  by (auto simp: require_session_def quarantined_def require_session_not_quarantined_def split: option.splits if_splits)

lemmas op_Ret = bind_op_Ret_iff found_op_Ret require_run_Ret require_session_Ret guard_op_Ret

lemma insert_accepted_runs:
  assumes "insert_accepted en rq cx reserved now s = (Ret u, s')" "\<forall>r \<in> set (st_runs s). ru_id r \<noteq> rq_run_id rq"
  shows "st_runs s' = st_runs s @ [(if reserved then cancel_accepted now else id) (new_run en rq cx reserved now s)]"
proof -
  have "map (\<lambda>x. if ru_id x = rq_run_id rq then cancel_accepted now x else x) (st_runs s) = st_runs s"
    using assms(2) by (intro map_idI) auto
  moreover have "ru_id (new_run en rq cx reserved now s) = rq_run_id rq" by (simp add: new_run_def)
  ultimately show ?thesis
    using assms(1) by (cases reserved) (auto simp: insert_accepted_def op_Ret insert_run_def map_runs_def split: if_splits)
qed

lemma announce_accepted_keeps:
  "moves (keeps st_runs) (announce_accepted en rq cx reserved now)"
  "moves (keeps sessions_core) (announce_accepted en rq cx reserved now)"
  "moves (keeps tools_core) (announce_accepted en rq cx reserved now)"
  unfolding announce_accepted_def by (intro keeps_intros store_message_keeps store_event_keeps)+

lemma new_run_cong: "st_runs s = st_runs s' \<Longrightarrow> new_run en rq cx b now s = new_run en rq cx b now s'"
  by (simp add: new_run_def)

lemma accept_new:
  assumes new: "same_request rq s = []" and acc: "store_accept en rq cx now s = (Ret (rec, fresh), s')"
  defines "res \<equiv> find_reservation (rq_run_id rq) s"
  defines "x \<equiv> (if res \<noteq> None then cancel_accepted now else id) (new_run en rq cx (res \<noteq> None) now s)"
  shows "st_runs s' = st_runs s @ [x]" "rec = record_of x" "fresh = (res = None)"
    "\<forall>e. res = Some e \<longrightarrow> de_tenant e = cx_tenant_id cx \<and> de_session e = rq_session_id rq"
proof -
  from acc have "accept_body en rq cx now s = (Ret (rec, fresh), s')"
    unfolding store_accept_def by (rule transaction_cases) auto
  with new have "accept_fresh en rq cx res now s = (Ret (rec, fresh), s')"
    by (auto simp: accept_body_def op_Ret res_def)
  then obtain ex s1 s2 s3 s4 row where
    res: "case res of None \<Rightarrow> True | Some e \<Rightarrow> de_tenant e = cx_tenant_id cx \<and> de_session e = rq_session_id rq"
    and s1: "accept_session (rq_session_id rq) cx now s = (Ret ex, s1)"
    and s2: "accept_parent (rq_session_id rq) cx ex s1 = (Ret (), s2)"
    and s3: "insert_accepted en rq cx (res \<noteq> None) now s2 = (Ret (), s3)"
    and s4: "announce_accepted en rq cx (res \<noteq> None) now s3 = (Ret (), s4)"
    and row: "find_run (rq_run_id rq) s4 = Some row" and out: "rec = record_of row" "fresh = (res = None)" "s' = s4"
    by (auto simp: accept_fresh_def op_Ret)
  have "st_runs s2 = st_runs s"
    using keepsD [OF accept_session_runs(1) s1] keepsD [OF accept_parent_runs(1) s2] by simp
  then have "st_runs s3 = st_runs s @ [x]"
    using insert_accepted_runs [OF s3] same_request_Nil(2) [OF new] new_run_cong [of s2 s] by (simp add: x_def)
  then show runs: "st_runs s' = st_runs s @ [x]"
    using keepsD [OF announce_accepted_keeps(1) s4] out by simp
  have "ru_id x = rq_run_id rq" by (simp add: x_def new_run_def cancel_accepted_def)
  with find_run_append [OF same_request_Nil(1) [OF new] runs] row out show "rec = record_of x" by simp
  show "fresh = (res = None)" "\<forall>e. res = Some e \<longrightarrow> de_tenant e = cx_tenant_id cx \<and> de_session e = rq_session_id rq"
    using out res by (simp_all split: option.splits)
qed

lemma le_accept: "moves runs_le (store_accept en rq cx now)"
  unfolding moves_def
proof
  fix s
  obtain r s' where a: "store_accept en rq cx now s = (r, s')" by fastforce
  have "runs_le s s'"
  proof (cases r)
    case (Inl e)
    with a transaction_raised [of "accept_body en rq cx now" s e] have "s' = s" by (simp add: store_accept_def)
    then show ?thesis using runs_le_reflp by (simp add: reflpD)
  next
    case (Inr p)
    show ?thesis
    proof (cases "same_request rq s = []")
      case True
      then show ?thesis using accept_new(1) [of rq s en cx now "fst p" "snd p" s'] a Inr by (auto intro: runs_le_append)
    next
      case False
      from a Inr have "accept_body en rq cx now s = (Ret p, s')"
        unfolding store_accept_def by (auto elim: transaction_cases)
      with False have "s' = s" by (auto simp: accept_body_def op_Ret)
      then show ?thesis using runs_le_reflp by (simp add: reflpD)
    qed
  qed
  with a show "runs_le s (snd (store_accept en rq cx now s))" by simp
qed

section \<open>Run rows along every operation\<close>

definition run_ids :: "store \<Rightarrow> string list" where
  "run_ids s = map ru_id (st_runs s)"

definition run_keys :: "store \<Rightarrow> (string \<times> string option) list" where
  "run_keys s = map (\<lambda>r. (ru_session r, ru_idempotency_key r)) (filter (\<lambda>r. ru_idempotency_key r \<noteq> None) (st_runs s))"

text \<open>The primary key and the idempotency key of the runs.\<close>

definition keys_ok :: "store \<Rightarrow> bool" where
  "keys_ok s \<longleftrightarrow> distinct (run_ids s) \<and> distinct (run_keys s)"

definition runs_ok :: "store \<Rightarrow> store \<Rightarrow> bool" where
  "runs_ok s s' \<longleftrightarrow> (keys_ok s \<longrightarrow> keys_ok s' \<and> runs_le s s')"

lemma runs_ok_reflp: "reflp runs_ok"
  using runs_le_reflp by (simp add: reflp_def runs_ok_def)

lemma runs_ok_transp: "transp runs_ok"
  using runs_le_transp by (auto simp: transp_def runs_ok_def)

lemma runs_ok_keeps: "moves (keeps st_runs) m \<Longrightarrow> moves runs_ok m"
  by (auto simp: moves_def keeps_def runs_ok_def keys_ok_def run_ids_def run_keys_def intro: runs_le_append [where l = "[]"])

lemma find_run_Some: "find_run rid s = Some r \<Longrightarrow> r \<in> set (st_runs s) \<and> ru_id r = rid"
  by (auto simp: find_run_def find_Some_iff)

lemma find_run_unique:
  assumes "distinct (run_ids s)" "r \<in> set (st_runs s)"
  shows "find_run (ru_id r) s = Some r"
proof -
  have "List.find (\<lambda>x. ru_id x = ru_id r) xs = Some r" if "distinct (map ru_id xs)" "r \<in> set xs" for xs
    using that by (induction xs) auto
  with assms show ?thesis by (simp add: run_ids_def find_run_def)
qed

lemma map_filter_same:
  "\<forall>x \<in> set xs. g (h x) = g x \<and> P (h x) = P x \<Longrightarrow> map g (filter P (map h xs)) = map g (filter P xs)"
  by (induction xs) auto

lemma runs_ok_map:
  assumes "find_run rid s = Some r" "run_le r (f r)"
  shows "runs_ok s (map_runs rid f s)"
  unfolding runs_ok_def
proof (intro impI conjI)
  assume ok: "keys_ok s"
  then have only: "x = r" if "x \<in> set (st_runs s)" "ru_id x = rid" for x
    using find_run_unique [of s x] that assms(1) by (auto simp: keys_ok_def)
  let ?h = "\<lambda>x. if ru_id x = rid then f x else x"
  have same: "ru_id (?h x) = ru_id x \<and> ru_session (?h x) = ru_session x \<and> ru_idempotency_key (?h x) = ru_idempotency_key x"
    if x: "x \<in> set (st_runs s)" for x
  proof (cases "ru_id x = rid")
    case True
    with only [OF x] assms(2) show ?thesis by (simp add: run_le_def)
  qed simp
  have "run_ids (map_runs rid f s) = run_ids s"
    unfolding run_ids_def map_runs_def using same by simp
  moreover have "run_keys (map_runs rid f s) = run_keys s"
    unfolding run_keys_def map_runs_def run_row.simps store.simps
    by (simp, rule map_filter_same) (use same in auto)
  ultimately show "keys_ok (map_runs rid f s)" using ok by (simp add: keys_ok_def)
  show "runs_le s (map_runs rid f s)"
  proof (rule runs_le_map)
    fix x assume "x \<in> set (st_runs s)" "ru_id x = rid"
    then have "x = r" by (rule only)
    with assms(2) show "run_le x (f x)" by simp
  qed
qed

lemma accept_runs_cases:
  assumes "store_accept en rq cx now s = (q, s')"
  shows "st_runs s' = st_runs s \<or> (same_request rq s = [] \<and> (\<exists>x. st_runs s' = st_runs s @ [x]
    \<and> ru_id x = rq_run_id rq \<and> ru_session x = rq_session_id rq \<and> ru_idempotency_key x = Some (rq_idempotency_key rq)))"
proof (cases q)
  case (Inl e)
  with assms transaction_raised [of "accept_body en rq cx now" s e] show ?thesis by (simp add: store_accept_def)
next
  case (Inr p)
  show ?thesis
  proof (cases "same_request rq s = []")
    case True
    with accept_new(1) [of rq s en cx now "fst p" "snd p" s'] assms Inr show ?thesis
      by (auto simp: new_run_def cancel_accepted_def)
  next
    case False
    from assms Inr have "accept_body en rq cx now s = (Ret p, s')"
      unfolding store_accept_def by (auto elim: transaction_cases)
    with False show ?thesis by (auto simp: accept_body_def op_Ret)
  qed
qed

lemma runs_ok_accept: "moves runs_ok (store_accept en rq cx now)"
  unfolding moves_def
proof
  fix s
  obtain q s' where a: "store_accept en rq cx now s = (q, s')" by fastforce
  have "keys_ok s'" if ok: "keys_ok s"
  proof (cases "st_runs s' = st_runs s")
    case True
    with ok show ?thesis by (simp add: keys_ok_def run_ids_def run_keys_def)
  next
    case False
    with accept_runs_cases [OF a] obtain x where new: "same_request rq s = []" and x: "st_runs s' = st_runs s @ [x]"
      "ru_id x = rq_run_id rq" "ru_session x = rq_session_id rq" "ru_idempotency_key x = Some (rq_idempotency_key rq)" by blast
    from new have "ru_id x \<notin> set (run_ids s)" "(ru_session x, ru_idempotency_key x) \<notin> set (run_keys s)"
      using x by (auto simp: same_request_def run_ids_def run_keys_def filter_empty_conv)
    with ok x show ?thesis by (simp add: keys_ok_def run_ids_def run_keys_def)
  qed
  moreover have "runs_le s s'" using le_accept a by (rule movesD)
  ultimately show "runs_ok s (snd (store_accept en rq cx now s))" by (simp add: a runs_ok_def)
qed

definition transition_row :: "string \<Rightarrow> json option \<Rightarrow> int \<Rightarrow> run_row \<Rightarrow> run_row" where
  "transition_row status output now r = r\<lparr>ru_status := status, ru_status_raw := status, ru_output := output,
     ru_finished := (if status \<in> set TERMINAL_STATUSES then Some now else None)\<rparr>"

text \<open>The outcomes of a transition.\<close>

lemma transition_Ret:
  assumes "store_transition en rid status output now s = (Ret rec, s')"
  shows "\<exists>r. find_run rid s = Some r \<and> (\<forall>x. run_session rid s = Some x \<longrightarrow> se_visibility x \<noteq> ''quarantined'') \<and>
    (if run_terminal r then s' = s \<and> rec = record_of r
     else (status = ''running'' \<and> ru_status r = ''queued'' \<or> status \<in> set TERMINAL_STATUSES)
       \<and> st_runs s' = st_runs (map_runs rid (transition_row status output now) s)
       \<and> sessions_core s' = sessions_core s \<and> tools_core s' = tools_core s
       \<and> rec = record_of (transition_row status output now r))"
proof -
  from assms have body: "transition_body en rid status output now s = (Ret rec, s')"
    unfolding store_transition_def by (auto elim: transaction_cases)
  then obtain r where r: "find_run rid s = Some r" and vis: "\<forall>x. run_session rid s = Some x \<longrightarrow> se_visibility x \<noteq> ''quarantined''"
    by (auto simp: transition_body_def op_Ret)
  show ?thesis
  proof (cases "run_terminal r")
    case True
    with body r vis show ?thesis by (auto simp: transition_body_def op_Ret)
  next
    case False
    let ?say = "\<lambda>s1. (case (status = ''success'', output) of
            (True, Some v) \<Rightarrow>
              (case rm_context (ru_metadata r) of
                 None \<Rightarrow> raise_op KeyError
               | Some cx \<Rightarrow> bind_op (store_message en rid ''assistant'' v (agent_principal r cx) ''agent'' now None ''complete'')
                   (\<lambda>_. ret_op ()))
          | _ \<Rightarrow> ret_op ()) s1"
    from False body r obtain s2 e s3 row where ok: "status = ''running'' \<and> ru_status r = ''queued'' \<or> status \<in> set TERMINAL_STATUSES"
      and say: "?say (map_runs rid (transition_row status output now) s) = (Ret (), s2)"
      and ev: "store_event rid (''run.'' @ status) (JObj [(''status'', JStr status), (''output'', jopt id output)]) now s2 = (Ret e, s3)"
      and row: "find_run rid s3 = Some row" and out: "s' = s3" "rec = record_of row"
      by (auto simp: transition_body_def op_Ret transition_row_def [abs_def] split: if_splits)
    have kept: "moves (keeps st_runs) ?say" "moves (keeps sessions_core) ?say" "moves (keeps tools_core) ?say"
      by (intro moves_pair_bool keeps_intros store_message_keeps)+
    have runs: "st_runs s3 = st_runs (map_runs rid (transition_row status output now) s)"
      using keepsD [OF kept(1) say] keepsD [OF store_event_keeps(1) ev] by simp
    have core: "sessions_core s3 = sessions_core s" "tools_core s3 = tools_core s"
      using keepsD [OF kept(2) say] keepsD [OF kept(3) say] keepsD [OF store_event_keeps(6) ev] keepsD [OF store_event_keeps(7) ev]
      by (simp_all add: sessions_core_def tools_core_def map_runs_def)
    have "find_run rid s3 = Some (transition_row status output now r)"
    proof -
      have "List.find (\<lambda>x. ru_id x = rid) (map (\<lambda>x. if ru_id x = rid then transition_row status output now x else x) xs)
        = map_option (transition_row status output now) (List.find (\<lambda>x. ru_id x = rid) xs)" for xs
        by (induction xs) (auto simp: transition_row_def)
      with r runs show ?thesis by (simp add: find_run_def map_runs_def)
    qed
    with row out r vis ok False runs core show ?thesis by simp
  qed
qed

lemma run_le_transition:
  assumes "\<not> run_terminal r" "status = ''running'' \<and> ru_status r = ''queued'' \<or> status \<in> set TERMINAL_STATUSES"
  shows "run_le r (transition_row status output now r)"
  using assms by (auto simp: run_le_def transition_row_def run_terminal_def)

lemma runs_ok_transition: "moves runs_ok (store_transition en rid status output now)"
  unfolding moves_def
proof
  fix s
  obtain q s' where t: "store_transition en rid status output now s = (q, s')" by fastforce
  have "runs_ok s s'"
  proof (cases q)
    case (Inl e)
    with t transaction_raised [of "transition_body en rid status output now" s e] have "s' = s" by (simp add: store_transition_def)
    then show ?thesis using runs_ok_reflp by (simp add: reflpD)
  next
    case (Inr rec)
    from transition_Ret [OF t [unfolded Inr]] obtain r where r: "find_run rid s = Some r"
      and cases: "if run_terminal r then s' = s \<and> rec = record_of r
        else (status = ''running'' \<and> ru_status r = ''queued'' \<or> status \<in> set TERMINAL_STATUSES)
          \<and> st_runs s' = st_runs (map_runs rid (transition_row status output now) s)
          \<and> sessions_core s' = sessions_core s \<and> tools_core s' = tools_core s
          \<and> rec = record_of (transition_row status output now r)" by blast
    show ?thesis
    proof (cases "run_terminal r")
      case True
      with cases show ?thesis using runs_ok_reflp by (simp add: reflpD)
    next
      case False
      with cases run_le_transition have "runs_ok s (map_runs rid (transition_row status output now) s)"
        by (intro runs_ok_map [OF r]) auto
      with cases False show ?thesis by (auto simp: runs_ok_def keys_ok_def run_ids_def run_keys_def runs_le_def)
    qed
  qed
  with t show "runs_ok s (snd (store_transition en rid status output now s))" by simp
qed

lemma moves_transaction_Ret:
  assumes "reflp R" "\<And>s x s'. m s = (Inr x, s') \<Longrightarrow> R s s'"
  shows "moves R (transaction m)"
  unfolding moves_def
proof
  fix s
  obtain r s' where t: "transaction m s = (r, s')" by fastforce
  then have "R s s'"
    by (rule transaction_cases) (use assms in \<open>auto simp: reflpD\<close>)
  with t show "R s (snd (transaction m s))" by simp
qed

definition request_cancel_row :: "run_row \<Rightarrow> run_row" where
  "request_cancel_row r = r\<lparr>ru_metadata := (ru_metadata r)\<lparr>rm_cancel_requested := True\<rparr>\<rparr>"

lemma runs_ok_request_cancel: "moves runs_ok (store_request_cancel rid now)"
  unfolding store_request_cancel_def
proof (rule moves_transaction_Ret [OF runs_ok_reflp])
  fix s x s'
  assume "bind_op (require_run_not_quarantined rid) (\<lambda>_.
     bind_op (found_op (find_run rid)) (\<lambda>r.
     if rr_terminal (record_of r) \<or> rm_cancel_requested (ru_metadata r) then ret_op (record_of r)
     else
       bind_op (modify_op (map_runs rid (\<lambda>r. r\<lparr>ru_metadata := (ru_metadata r)\<lparr>rm_cancel_requested := True\<rparr>\<rparr>))) (\<lambda>_.
       bind_op (store_event rid ''run.cancel_requested'' (JObj []) now) (\<lambda>_.
       bind_op (found_op (find_run rid)) (\<lambda>row.
       ret_op (record_of row)))))) s = (Inr x, s')"
  then obtain r where r: "find_run rid s = Some r" and alt: "s' = s \<or> (\<exists>e s2.
      store_event rid ''run.cancel_requested'' (JObj []) now (map_runs rid request_cancel_row s) = (Ret e, s2) \<and> s' = s2)"
    by (auto simp: op_Ret request_cancel_row_def [abs_def] split: if_splits)
  from alt show "runs_ok s s'"
  proof
    assume "s' = s" then show ?thesis using runs_ok_reflp by (simp add: reflpD)
  next
    assume "\<exists>e s2. store_event rid ''run.cancel_requested'' (JObj []) now (map_runs rid request_cancel_row s) = (Ret e, s2) \<and> s' = s2"
    then obtain e where ev: "store_event rid ''run.cancel_requested'' (JObj []) now (map_runs rid request_cancel_row s) = (Ret e, s')" by blast
    have "runs_ok s (map_runs rid request_cancel_row s)"
      by (rule runs_ok_map [OF r]) (auto simp: request_cancel_row_def run_le_def run_terminal_def)
    moreover have "runs_ok (map_runs rid request_cancel_row s) s'"
      using runs_ok_keeps [OF store_event_keeps(1)] ev by (rule movesD)
    ultimately show ?thesis by (rule transpD [OF runs_ok_transp])
  qed
qed

lemma keeps_transaction: "moves (keeps f) m \<Longrightarrow> moves (keeps f) (transaction m)"
  by (rule moves_transaction [OF keeps_reflp])

lemma keeps_append: "moves (keeps st_runs) (modify_op (append_row e))" "moves (keeps sessions_core) (modify_op (append_row e))"
  "moves (keeps tools_core) (modify_op (append_row e))" "moves (keeps st_messages) (modify_op (append_row e))"
  by (rule keeps_modify, simp add: append_row_def sessions_core_def tools_core_def)+

lemma runs_ok_reserve_cancel: "moves runs_ok (store_reserve_cancel rid cx now)"
  unfolding store_reserve_cancel_def
  by (intro runs_ok_keeps keeps_transaction keeps_intros require_keeps keeps_reflp keeps_append)

lemma runs_ok_append_event: "moves runs_ok (store_append_event rid k p now)"
  unfolding store_append_event_def
  by (intro runs_ok_keeps keeps_transaction keeps_intros require_keeps keeps_reflp store_event_keeps)

lemma insert_tool_keeps: "moves (keeps st_runs) (insert_tool t)" "moves (keeps sessions_core) (insert_tool t)"
  "moves (keeps st_messages) (insert_tool t)" "moves (keeps st_sessions) (insert_tool t)"
  by (auto simp: moves_def keeps_def insert_tool_def sessions_core_def)

lemma begin_tool_keeps: "moves (keeps st_runs) (store_begin_tool en rid cid b a now)"
  "moves (keeps sessions_core) (store_begin_tool en rid cid b a now)"
  unfolding store_begin_tool_def begin_tool_body_def
  by (intro keeps_transaction keeps_intros require_keeps keeps_reflp found_op_keeps insert_tool_keeps enqueue_keeps
      store_message_keeps store_event_keeps)+

lemma finish_tool_keeps: "moves (keeps st_runs) (store_finish_tool en rid cid out now)"
  "moves (keeps sessions_core) (store_finish_tool en rid cid out now)"
  unfolding store_finish_tool_def finish_tool_body_def
  by (intro keeps_transaction keeps_intros require_keeps keeps_reflp found_op_keeps enqueue_keeps
      store_message_keeps store_event_keeps keeps_modify; simp add: map_tools_def map_messages_def sessions_core_def)+

lemma finish_all_keeps: "moves (keeps st_runs) (finish_all en xs now)" "moves (keeps sessions_core) (finish_all en xs now)"
proof (induction xs)
  case (Cons x xs)
  { case 1 from Cons show ?case by (cases x) (simp only: finish_all.simps, intro keeps_intros finish_tool_keeps) }
  { case 2 from Cons show ?case by (cases x) (simp only: finish_all.simps, intro keeps_intros finish_tool_keeps) }
qed (simp_all only: finish_all.simps keeps_basic)

lemma runs_ok_interrupt_all: "moves runs_ok (interrupt_all en xs now)"
proof (induction xs)
  case (Cons x xs)
  then show ?case by (simp only: interrupt_all.simps, intro moves_bind [OF runs_ok_transp] runs_ok_transition)
qed (simp only: interrupt_all.simps moves_basic [OF runs_ok_reflp])

lemma runs_ok_recover: "moves runs_ok (store_recover en now)"
  unfolding store_recover_def
  by (intro moves_bind [OF runs_ok_transp] moves_basic [OF runs_ok_reflp] runs_ok_keeps [OF finish_all_keeps(1)] runs_ok_interrupt_all)

end
