(* ===== verification/StoreLaws.thy ===== *)
theory StoreLaws
  imports RunStoreLaws SessionStore
begin

text \<open>
  The properties of the runtime store: its operations as the steps of a transition system, the
  invariants of every reachable store, and what a client of the run authority relies on:
  idempotent acceptance, one final status per run, an append-only event log without gaps, at most
  one intent and one receipt per tool call, recovery that leaves nothing pending, the quarantine
  boundary, complete paging, and exact purging.
\<close>

section \<open>The steps of the store\<close>

inductive live_step :: "env \<Rightarrow> store \<Rightarrow> store \<Rightarrow> bool" for en where
  step_accept: "live_step en s (snd (store_accept en rq cx now s))"
| step_transition: "live_step en s (snd (store_transition en rid status output now s))"
| step_request_cancel: "live_step en s (snd (store_request_cancel rid now s))"
| step_reserve_cancel: "live_step en s (snd (store_reserve_cancel rid cx now s))"
| step_append_event: "live_step en s (snd (store_append_event rid kind payload now s))"
| step_begin_tool: "live_step en s (snd (store_begin_tool en rid cid binding args now s))"
| step_finish_tool: "live_step en s (snd (store_finish_tool en rid cid out now s))"
| step_recover: "live_step en s (snd (store_recover en now s))"
| step_create: "live_step en s (snd (create_session r cx title parent now s))"
| step_rename: "live_step en s (snd (rename_session r cx title' now s))"
| step_archive: "live_step en s (snd (archive_session r cx now s))"
| step_restore: "live_step en s (snd (restore_session r cx now s))"

inductive store_step :: "env \<Rightarrow> store \<Rightarrow> store \<Rightarrow> bool" for en where
  step_live: "live_step en s s' \<Longrightarrow> store_step en s s'"
| step_purge: "store_step en s (snd (purge_session r cx now s))"

inductive_cases live_stepE: "live_step en s s'"

lemma require_local_keeps: "reflp R \<Longrightarrow> transp R \<Longrightarrow> moves R (require_local_session r cx)"
  unfolding require_local_session_def by (intro moves_bind moves_basic found_op_keeps; assumption)

lemma find_wire_keeps: "reflp R \<Longrightarrow> transp R \<Longrightarrow> moves R (find_wire r)"
  unfolding find_wire_def by (intro moves_bind moves_basic found_op_keeps; assumption)

lemma change_session_keeps:
  "moves (keeps st_runs) (change_session r f now)" "moves (keeps st_events) (change_session r f now)"
  "moves (keeps st_sequence) (change_session r f now)" "moves (keeps st_tools) (change_session r f now)"
  unfolding change_session_def
  by (intro keeps_intros keeps_transaction keeps_modify enqueue_keeps find_wire_keeps keeps_reflp keeps_transp;
      simp add: map_sessions_def)+

lemma create_session_keeps:
  "moves (keeps st_runs) (create_session r cx title parent now)" "moves (keeps st_events) (create_session r cx title parent now)"
  "moves (keeps st_sequence) (create_session r cx title parent now)" "moves (keeps st_tools) (create_session r cx title parent now)"
  unfolding create_session_def
  by (intro keeps_intros keeps_transaction keeps_modify enqueue_keeps find_wire_keeps require_local_keeps keeps_reflp keeps_transp; simp)+

lemma session_ops_keep:
  "moves (keeps st_runs) (rename_session r cx title' now)" "moves (keeps st_events) (rename_session r cx title' now)"
  "moves (keeps st_sequence) (rename_session r cx title' now)"
  "moves (keeps st_runs) (archive_session r cx now)" "moves (keeps st_events) (archive_session r cx now)"
  "moves (keeps st_sequence) (archive_session r cx now)"
  "moves (keeps st_runs) (restore_session r cx now)" "moves (keeps st_events) (restore_session r cx now)"
  "moves (keeps st_sequence) (restore_session r cx now)"
  unfolding rename_session_def archive_session_def restore_session_def Let_def
  by (intro keeps_intros change_session_keeps require_local_keeps keeps_reflp keeps_transp)+

lemma keeps_runs_log: "moves (keeps st_events) m \<Longrightarrow> moves (keeps st_sequence) m \<Longrightarrow> moves log_grows m"
  by (rule moves_log_grows)

lemma outbox_fold_free: "outbox_free (fold outbox_insert rows s) = outbox_free s"
  by (induction rows arbitrary: s) (simp_all add: outbox_insert_free)

lemma purge_keeps: "moves (keeps st_events) (purge_session r cx now)" "moves (keeps st_sequence) (purge_session r cx now)"
  "moves (keeps st_acl) (purge_session r cx now)"
proof -
  have free: "st_events (fold outbox_insert rows s) = st_events s \<and> st_sequence (fold outbox_insert rows s) = st_sequence s
    \<and> st_acl (fold outbox_insert rows s) = st_acl s" for rows s
    using outbox_fold_free [of rows s] by (cases "fold outbox_insert rows s"; cases s) (simp add: outbox_free_def)
  have free1: "st_events (outbox_insert row s) = st_events s \<and> st_sequence (outbox_insert row s) = st_sequence s
    \<and> st_acl (outbox_insert row s) = st_acl s" for row s
    using free [of "[row]" s] by simp
  have del: "moves (keeps st_events) (delete_session sid)" "moves (keeps st_sequence) (delete_session sid)"
    "moves (keeps st_acl) (delete_session sid)" for sid
    by (auto simp: moves_def keeps_def delete_session_def Let_def)
  show "moves (keeps st_events) (purge_session r cx now)" "moves (keeps st_sequence) (purge_session r cx now)"
    "moves (keeps st_acl) (purge_session r cx now)"
    unfolding purge_session_def
    by (intro keeps_intros keeps_transaction require_local_keeps keeps_reflp keeps_transp del keeps_modify; simp add: free free1)+
qed

section \<open>Along every step\<close>

lemma runs_ok_step: "live_step en s s' \<Longrightarrow> runs_ok s s'"
proof (induction rule: live_step.induct)
qed (use runs_ok_accept runs_ok_transition runs_ok_request_cancel runs_ok_reserve_cancel runs_ok_append_event
    runs_ok_keeps [OF begin_tool_keeps(1)] runs_ok_keeps [OF finish_tool_keeps(1)] runs_ok_recover
    runs_ok_keeps [OF create_session_keeps(1)] runs_ok_keeps [OF session_ops_keep(1)] runs_ok_keeps [OF session_ops_keep(4)]
    runs_ok_keeps [OF session_ops_keep(7)] in \<open>simp_all only: moves_def\<close>)

lemma log_grows_step: "store_step en s s' \<Longrightarrow> log_grows s s'"
proof (induction rule: store_step.induct)
  case (step_live s s')
  then show ?case
  proof (induction rule: live_step.induct)
  qed (use log_accept log_transition log_request_cancel log_reserve_cancel log_append_event log_begin_tool log_finish_tool log_recover
      moves_log_grows [OF create_session_keeps(2,3)] moves_log_grows [OF session_ops_keep(2,3)]
      moves_log_grows [OF session_ops_keep(5,6)] moves_log_grows [OF session_ops_keep(8,9)] in \<open>simp_all only: moves_def\<close>)
next
  case (step_purge s r cx now)
  show ?case using moves_log_grows [OF purge_keeps(1,2)] by (simp only: moves_def)
qed

lemma runs_ok_steps: "(live_step en)\<^sup>*\<^sup>* s s' \<Longrightarrow> runs_ok s s'"
proof (induction rule: rtranclp_induct)
  case (step s1 s2)
  show ?case by (rule transpD [OF runs_ok_transp step(3) runs_ok_step [OF step(2)]])
qed (rule reflpD [OF runs_ok_reflp])

lemma log_grows_steps: "(store_step en)\<^sup>*\<^sup>* s s' \<Longrightarrow> log_grows s s'"
proof (induction rule: rtranclp_induct)
  case (step s1 s2)
  show ?case by (rule transpD [OF log_grows_transp step(3) log_grows_step [OF step(2)]])
qed (rule reflpD [OF log_grows_reflp])

lemma purge_runs:
  "st_runs (snd (purge_session r cx now s)) = st_runs s \<or>
   (\<exists>f. (\<forall>x. ru_id (f x) = ru_id x \<and> ru_session (f x) = ru_session x \<and> ru_idempotency_key (f x) = ru_idempotency_key x)
      \<and> st_runs (snd (purge_session r cx now s)) = map f (filter (\<lambda>x. ru_session x \<noteq> sr_session_id r) (st_runs s)))"
proof -
  have free: "st_runs (fold outbox_insert rows s) = st_runs s" for rows s
    using outbox_fold_free [of rows s] by (cases "fold outbox_insert rows s"; cases s) (simp add: outbox_free_def)
  have free1: "st_runs (outbox_insert row s) = st_runs s" for row s
    using free [of "[row]" s] by simp
  obtain q s' where p: "purge_session r cx now s = (q, s')" by fastforce
  show ?thesis
  proof (cases "st_runs s' = st_runs s")
    case False
    define f :: "run_row \<Rightarrow> run_row" where "f = (\<lambda>y. if ru_parent y \<in> Some ` set [ru_id y. y \<leftarrow> st_runs s, ru_session y = sr_session_id r]
      then y\<lparr>ru_parent := None\<rparr> else y)"
    have "st_runs s' = map f (filter (\<lambda>y. ru_session y \<noteq> sr_session_id r) (st_runs s))"
      using p False
      by (auto simp: purge_session_def require_local_session_def bind_op_def found_op_def guard_op_def transaction_def delete_session_def
          Let_def free free1 f_def split: if_splits option.splits sum.splits prod.splits)
    moreover have "ru_id (f x) = ru_id x \<and> ru_session (f x) = ru_session x \<and> ru_idempotency_key (f x) = ru_idempotency_key x" for x
      by (simp add: f_def)
    ultimately show ?thesis using p by (intro disjI2 exI [of _ f]) simp
  qed (simp add: p)
qed

lemma keys_ok_purge: "keys_ok s \<Longrightarrow> keys_ok (snd (purge_session r cx now s))"
proof -
  assume ok: "keys_ok s"
  have sub: "distinct (map g (filter Q (map f (filter P xs))))"
    if "distinct (map g (filter Q xs))" "\<forall>x. g (f x) = g x \<and> Q (f x) = Q x" for g :: "run_row \<Rightarrow> 'b" and f P Q and xs :: "run_row list"
  proof -
    have "map g (filter Q (map f (filter P xs))) = map g (filter P (filter Q xs))"
      using that(2) by (induction xs) auto
    with distinct_map_filter [OF that(1), of P] show ?thesis by (simp only:)
  qed
  from purge_runs [of r cx now s] show ?thesis
  proof
    assume "st_runs (snd (purge_session r cx now s)) = st_runs s"
    with ok show ?thesis by (simp add: keys_ok_def run_ids_def run_keys_def)
  next
    assume "\<exists>f. (\<forall>x. ru_id (f x) = ru_id x \<and> ru_session (f x) = ru_session x \<and> ru_idempotency_key (f x) = ru_idempotency_key x)
      \<and> st_runs (snd (purge_session r cx now s)) = map f (filter (\<lambda>x. ru_session x \<noteq> sr_session_id r) (st_runs s))"
    then obtain f where f: "\<forall>x. ru_id (f x) = ru_id x \<and> ru_session (f x) = ru_session x \<and> ru_idempotency_key (f x) = ru_idempotency_key x"
      and runs: "st_runs (snd (purge_session r cx now s)) = map f (filter (\<lambda>x. ru_session x \<noteq> sr_session_id r) (st_runs s))" by blast
    have "distinct (map ru_id (filter (\<lambda>_. True) (map f (filter (\<lambda>x. ru_session x \<noteq> sr_session_id r) (st_runs s)))))"
      by (rule sub) (use ok f in \<open>simp_all add: keys_ok_def run_ids_def\<close>)
    moreover have "distinct (run_keys (snd (purge_session r cx now s)))"
      unfolding run_keys_def runs by (rule sub) (use ok f in \<open>simp_all add: keys_ok_def run_keys_def\<close>)
    ultimately show ?thesis by (simp add: keys_ok_def run_ids_def runs)
  qed
qed

lemma keys_ok_steps: "(store_step en)\<^sup>*\<^sup>* s s' \<Longrightarrow> keys_ok s \<Longrightarrow> keys_ok s'"
proof (induction rule: rtranclp_induct)
  case (step s1 s2)
  from step(2) show ?case
  proof cases
    case step_live
    from runs_ok_step [OF this] step show ?thesis by (simp add: runs_ok_def)
  next
    case (step_purge r cx now)
    with step keys_ok_purge show ?thesis by simp
  qed
qed simp

lemma keys_ok_empty: "keys_ok store_empty"
  by (simp add: keys_ok_def run_ids_def run_keys_def store_empty_def)

lemma live_store_steps: "(live_step en)\<^sup>*\<^sup>* s s' \<Longrightarrow> (store_step en)\<^sup>*\<^sup>* s s'"
  by (induction rule: rtranclp_induct) (auto intro: step_live rtranclp.rtrancl_into_rtrancl)

section \<open>An example store\<close>

text \<open>A stand-in for the digest that tells the two example requests apart: the input of the request.\<close>

definition ex_sha :: "json \<Rightarrow> string" where
  "ex_sha v = (case Option.bind (jget ''request'' v) (jget ''input'') of Some (JStr t) \<Rightarrow> t | _ \<Rightarrow> [])"

definition ex_env :: env where
  "ex_env = \<lparr>en_repr = (\<lambda>_. ''1.0''), en_sha = ex_sha, en_sha_text = id, en_utf8 = length,
     en_uuid4 = (\<lambda>n. replicate (Suc n) CHR ''u''), en_uuid5 = concat, en_token = ex_sha,
     en_parse = (\<lambda>_. None), en_int = (\<lambda>_. Raise ValueError), en_str = (\<lambda>_. [])\<rparr>"

definition ex_request :: "string \<Rightarrow> run_request" where
  "ex_request rid = \<lparr>rq_run_id = rid, rq_session_id = ''s1'', rq_idempotency_key = rid, rq_input = ''hello'',
     rq_deadline_seconds = None, rq_attachments = [], rq_model_ref = None, rq_steer_run_id = None\<rparr>"

definition ex_accepted :: store where
  "ex_accepted = snd (store_accept ex_env (ex_request ''r1'') ex_context 5 store_empty)"

definition ex_running :: store where
  "ex_running = snd (store_transition ex_env ''r1'' ''running'' None 6 ex_accepted)"

definition ex_done :: store where
  "ex_done = snd (store_transition ex_env ''r1'' ''success'' (Some (JStr ''hi'')) 7 ex_running)"

lemma ex_steps:
  "(live_step ex_env)\<^sup>*\<^sup>* store_empty ex_accepted" "(live_step ex_env)\<^sup>*\<^sup>* ex_accepted ex_running"
  "(live_step ex_env)\<^sup>*\<^sup>* ex_running ex_done"
  unfolding ex_accepted_def ex_running_def ex_done_def by (auto intro: step_accept step_transition)

lemma ex_done_run: "\<exists>r. find_run ''r1'' ex_done = Some r \<and> ru_status r = ''success'' \<and> ru_output r = Some (JStr ''hi'')"
proof -
  have "map_option (\<lambda>r. (ru_status r, ru_output r)) (find_run ''r1'' ex_done) = Some (''success'', Some (JStr ''hi''))"
    by code_simp
  then show ?thesis by auto
qed

section \<open>One final status per run\<close>

text \<open>
  C4: In every store the operations can reach, run ids and the idempotency keys of a session are
  unique, and whatever the operations other than a purge do later, a run keeps its admission
  evidence, a terminal run keeps its status, output and finishing time for good, a running one
  never goes back to the queue, and a requested cancellation stays requested.
\<close>

theorem run_history:
  assumes "(store_step en)\<^sup>*\<^sup>* store_empty s" "(live_step en)\<^sup>*\<^sup>* s s'" "find_run rid s = Some r"
  shows "keys_ok s' \<and> (\<exists>r'. find_run rid s' = Some r' \<and> run_le r r')"
proof -
  have "keys_ok s" using keys_ok_steps [OF assms(1) keys_ok_empty] .
  with runs_ok_steps [OF assms(2)] have "keys_ok s'" "runs_le s s'" by (simp_all add: runs_ok_def)
  with runs_le_find [OF _ assms(3)] show ?thesis by blast
qed

theorem run_history_witness:
  "\<exists>r. find_run ''r1'' (snd (store_request_cancel ''r1'' 9 ex_done)) = Some r \<and> ru_status r = ''success''
     \<and> ru_output r = Some (JStr ''hi'')"
proof -
  obtain r where r: "find_run ''r1'' ex_done = Some r" "ru_status r = ''success''" "ru_output r = Some (JStr ''hi'')"
    using ex_done_run by blast
  have "(store_step ex_env)\<^sup>*\<^sup>* store_empty ex_done"
    using ex_steps by (intro live_store_steps) auto
  from run_history [OF this r_into_rtranclp r(1), OF step_request_cancel [of _ _ "''r1''" 9]]
  obtain r' where "find_run ''r1'' (snd (store_request_cancel ''r1'' 9 ex_done)) = Some r'" "run_le r r'" by blast
  with r show ?thesis by (auto simp: run_le_def run_terminal_def TERMINAL_STATUSES_def)
qed

section \<open>Idempotent acceptance\<close>

lemma accept_Ret_run:
  assumes "store_accept en rq cx now s = (Ret (rec, fresh), s')" "keys_ok s"
  shows "\<exists>r. find_run (rq_run_id rq) s' = Some r \<and> rec = record_of r \<and> ru_session r = rq_session_id rq
    \<and> ru_idempotency_key r = Some (rq_idempotency_key rq) \<and> rm_digest (ru_metadata r) = fingerprint (en_sha en) rq cx
    \<or> (\<exists>r. find_run (rq_run_id rq) s' = Some r \<and> s' = s \<and> \<not> fresh \<and> same_request rq s = [r]
        \<and> rec = record_of r \<and> rm_digest (ru_metadata r) = fingerprint (en_sha en) rq cx)"
proof (cases "same_request rq s = []")
  case True
  note new = accept_new [OF True assms(1)]
  have "find_run (rq_run_id rq) s' = Some ((if find_reservation (rq_run_id rq) s \<noteq> None then cancel_accepted now else id)
     (new_run en rq cx (find_reservation (rq_run_id rq) s \<noteq> None) now s))"
    by (rule find_run_append [OF same_request_Nil(1) [OF True] new(1)]) (simp add: new_run_def cancel_accepted_def)
  with new(2) show ?thesis by (intro exI disjI1 conjI) (auto simp: new_run_def cancel_accepted_def)
next
  case False
  have "accept_body en rq cx now s = (Ret (rec, fresh), s')"
    using assms(1) unfolding store_accept_def by (auto elim: transaction_cases)
  with False have s': "s' = s" and again: "accept_again en rq cx (same_request rq s) = Ret (rec, fresh)"
    by (auto simp: accept_body_def op_Ret)
  from again obtain r where r: "same_request rq s = [r]" "ru_id r = rq_run_id rq"
    "rm_digest (ru_metadata r) = fingerprint (en_sha en) rq cx" "rec = record_of r" "\<not> fresh"
    by (auto simp: accept_again_def record_of_def split: list.splits if_splits)
  then have "r \<in> set (same_request rq s)" by simp
  then have "r \<in> set (st_runs s)" by (simp add: same_request_def)
  with find_run_unique [of s r] assms(2) r s' show ?thesis by (auto simp: keys_ok_def)
qed

lemma same_request_single:
  assumes ok: "keys_ok s" and r: "r \<in> set (st_runs s)" "ru_id r = rq_run_id rq" "ru_session r = rq_session_id rq"
    "ru_idempotency_key r = Some (rq_idempotency_key rq)"
  shows "same_request rq s = [r]"
proof -
  have "distinct (st_runs s)" using ok by (auto simp: keys_ok_def run_ids_def distinct_map)
  have only: "x = r" if x: "x \<in> set (same_request rq s)" for x
  proof -
    have "x \<in> set (st_runs s)" and alt: "ru_id x = rq_run_id rq \<or> (ru_session x = rq_session_id rq \<and> ru_idempotency_key x = Some (rq_idempotency_key rq))"
      using x by (auto simp: same_request_def)
    from alt show "x = r"
    proof
      assume "ru_id x = rq_run_id rq"
      with find_run_unique [of s x] find_run_unique [of s r] ok r \<open>x \<in> set (st_runs s)\<close> show ?thesis by (simp add: keys_ok_def)
    next
      assume "ru_session x = rq_session_id rq \<and> ru_idempotency_key x = Some (rq_idempotency_key rq)"
      moreover have "inj_on (\<lambda>r. (ru_session r, ru_idempotency_key r)) (set (filter (\<lambda>r. ru_idempotency_key r \<noteq> None) (st_runs s)))"
        using ok by (simp add: keys_ok_def run_keys_def distinct_map)
      ultimately show ?thesis
        using r \<open>x \<in> set (st_runs s)\<close> inj_onD [of "\<lambda>r. (ru_session r, ru_idempotency_key r)" _ x r] by simp
    qed
  qed
  have "r \<in> set (same_request rq s)" using r by (simp add: same_request_def)
  with only \<open>distinct (st_runs s)\<close> have "distinct (same_request rq s)" "set (same_request rq s) = {r}"
    by (simp add: same_request_def) (use only \<open>r \<in> set (same_request rq s)\<close> in blast)
  then show ?thesis by (intro distinct_singleton)
qed

lemma accept_known:
  assumes "\<not> quarantined (rq_session_id rq) s" "same_request rq s \<noteq> []"
  shows "store_accept en rq cx now s = (accept_again en rq cx (same_request rq s), s)"
proof -
  have "require_session (rq_session_id rq) s = (Ret (), s)" using assms(1) by (simp add: require_session_Ret)
  with assms(2) show ?thesis
    by (cases "accept_again en rq cx (same_request rq s)") (simp_all add: store_accept_def accept_body_def transaction_def)
qed

lemma accept_quarantined:
  assumes "quarantined (rq_session_id rq) s"
  shows "store_accept en rq cx now s = (Raise PermissionError, s)"
proof -
  have "require_session (rq_session_id rq) s = (Raise PermissionError, s)"
    using assms by (auto simp: require_session_def quarantined_def require_session_not_quarantined_def split: option.splits)
  then show ?thesis by (simp add: store_accept_def accept_body_def transaction_def)
qed

lemma accept_conflict:
  assumes mem: "r \<in> set (st_runs s)"
    and key: "rq_run_id rq = ru_id r \<or> rq_session_id rq = ru_session r \<and> Some (rq_idempotency_key rq) = ru_idempotency_key r"
    and diff: "fingerprint (en_sha en) rq cx \<noteq> rm_digest (ru_metadata r)"
  shows "store_accept en rq cx now s = (Raise (if quarantined (rq_session_id rq) s then PermissionError else IdempotencyConflict), s)"
proof (cases "quarantined (rq_session_id rq) s")
  case True
  then show ?thesis by (simp add: accept_quarantined)
next
  case False
  have r: "r \<in> set (same_request rq s)" using mem key by (auto simp: same_request_def)
  then have "accept_again en rq cx (same_request rq s) = Raise IdempotencyConflict"
  proof (cases "same_request rq s = [r]")
    case True
    with diff show ?thesis by (simp add: accept_again_def record_of_def)
  qed (auto simp: accept_again_def split: list.split)
  moreover have "same_request rq s \<noteq> []" using r by auto
  ultimately show ?thesis using accept_known [OF False, of en cx] False by simp
qed

lemma accept_replay:
  assumes ok: "keys_ok s" and mem: "r \<in> set (st_runs s)"
    and same: "ru_id r = rq_run_id rq" "ru_session r = rq_session_id rq" "ru_idempotency_key r = Some (rq_idempotency_key rq)"
    and digest: "rm_digest (ru_metadata r) = fingerprint (en_sha en) rq cx" and "\<not> quarantined (rq_session_id rq) s"
  shows "store_accept en rq cx now s = (Ret (record_of r, False), s)"
  using accept_known [OF assms(7), of en cx] same_request_single [OF ok mem same] same digest
  by (simp add: accept_again_def record_of_def)

text \<open>
  C6: Once a request has been accepted, and after any other operations of the store but the purge of
  a session, accepting the same request from the same context again creates nothing and changes
  nothing: it returns the record of the one run that was created, or \<^verbatim>\<open>PermissionError\<close> when the
  session is quarantined by then.  A request or context with another fingerprint that reuses the run
  id or the idempotency key of the session is refused, and changes nothing either.
\<close>

theorem accept_idempotent:
  assumes reach: "(store_step en)\<^sup>*\<^sup>* store_empty s" and unknown: "same_request rq s = []"
    and acc: "store_accept en rq cx now s = (Ret (rec, fresh), s1)" and steps: "(live_step en)\<^sup>*\<^sup>* s1 s2"
  shows "\<exists>r. find_run (rq_run_id rq) s2 = Some r
    \<and> store_accept en rq cx now' s2 =
        (if quarantined (rq_session_id rq) s2 then (Raise PermissionError, s2) else (Ret (record_of r, False), s2))
    \<and> (\<forall>rq' cx'. fingerprint (en_sha en) rq' cx' \<noteq> fingerprint (en_sha en) rq cx \<and> (rq_run_id rq' = rq_run_id rq
           \<or> (rq_session_id rq' = rq_session_id rq \<and> rq_idempotency_key rq' = rq_idempotency_key rq)) \<longrightarrow>
         store_accept en rq' cx' now' s2 =
           (Raise (if quarantined (rq_session_id rq') s2 then PermissionError else IdempotencyConflict), s2))"
proof -
  have ok: "keys_ok s" using keys_ok_steps [OF reach keys_ok_empty] .
  note new = accept_new [OF unknown acc]
  define x where "x = (if find_reservation (rq_run_id rq) s \<noteq> None then cancel_accepted now else id)
     (new_run en rq cx (find_reservation (rq_run_id rq) s \<noteq> None) now s)"
  have x: "ru_id x = rq_run_id rq" "ru_session x = rq_session_id rq" "ru_idempotency_key x = Some (rq_idempotency_key rq)"
    "rm_digest (ru_metadata x) = fingerprint (en_sha en) rq cx"
    by (simp_all add: x_def new_run_def cancel_accepted_def)
  have "find_run (rq_run_id rq) s1 = Some x"
    by (rule find_run_append [OF same_request_Nil(1) [OF unknown] new(1) [folded x_def] x(1)])
  moreover have "runs_ok s s1" using runs_ok_accept acc by (rule movesD)
  then have "keys_ok s1" using ok by (simp add: runs_ok_def)
  then have ok2: "keys_ok s2" "runs_le s1 s2" using runs_ok_steps [OF steps] by (simp_all add: runs_ok_def)
  ultimately obtain r where r: "find_run (rq_run_id rq) s2 = Some r" "run_le x r"
    using runs_le_find by blast
  have same: "ru_id r = rq_run_id rq" "ru_session r = rq_session_id rq" "ru_idempotency_key r = Some (rq_idempotency_key rq)"
    using r(2) x by (simp_all add: run_le_def)
  have digest: "rm_digest (ru_metadata r) = fingerprint (en_sha en) rq cx"
    using r(2) x(4) unfolding run_le_def by (metis run_metadata.select_convs(2) run_metadata.surjective run_metadata.update_convs(5))
  have mem: "r \<in> set (st_runs s2)" using find_run_Some [OF r(1)] by simp
  have "store_accept en rq' cx' now' s2 =
      (Raise (if quarantined (rq_session_id rq') s2 then PermissionError else IdempotencyConflict), s2)"
    if "fingerprint (en_sha en) rq' cx' \<noteq> fingerprint (en_sha en) rq cx \<and> (rq_run_id rq' = rq_run_id rq
      \<or> (rq_session_id rq' = rq_session_id rq \<and> rq_idempotency_key rq' = rq_idempotency_key rq))" for rq' cx'
    by (rule accept_conflict [OF mem]) (use that in \<open>auto simp: same digest\<close>)
  with r(1) accept_replay [OF ok2(1) mem same digest] accept_quarantined [of rq s2] show ?thesis by auto
qed

theorem accept_idempotent_witness:
  "\<exists>r. find_run ''r1'' ex_done = Some r
     \<and> store_accept ex_env (ex_request ''r1'') ex_context 8 ex_done = (Ret (record_of r, False), ex_done)
     \<and> store_accept ex_env ((ex_request ''r1'')\<lparr>rq_input := ''other''\<rparr>) ex_context 8 ex_done = (Raise IdempotencyConflict, ex_done)"
proof -
  have new: "same_request (ex_request ''r1'') store_empty = []" by (simp add: same_request_def store_empty_def)
  have "\<not> isl (fst (store_accept ex_env (ex_request ''r1'') ex_context 5 store_empty))" by code_simp
  then obtain rec fresh where acc: "store_accept ex_env (ex_request ''r1'') ex_context 5 store_empty = (Ret (rec, fresh), ex_accepted)"
    unfolding ex_accepted_def by (cases "store_accept ex_env (ex_request ''r1'') ex_context 5 store_empty"; cases "fst (store_accept ex_env (ex_request ''r1'') ex_context 5 store_empty)") auto
  have steps: "(live_step ex_env)\<^sup>*\<^sup>* ex_accepted ex_done" using ex_steps(2,3) by simp
  have here: "\<not> quarantined ''s1'' ex_done" by code_simp
  have other: "fingerprint (en_sha ex_env) ((ex_request ''r1'')\<lparr>rq_input := ''other''\<rparr>) ex_context
    \<noteq> fingerprint (en_sha ex_env) (ex_request ''r1'') ex_context" by code_simp
  have ids: "rq_session_id (ex_request ''r1'') = ''s1''" "rq_session_id ((ex_request ''r1'')\<lparr>rq_input := ''other''\<rparr>) = ''s1''"
    "rq_run_id (ex_request ''r1'') = ''r1''" "rq_run_id ((ex_request ''r1'')\<lparr>rq_input := ''other''\<rparr>) = ''r1''"
    by (simp_all add: ex_request_def)
  from accept_idempotent [OF rtranclp.rtrancl_refl new acc steps, of 8] obtain r where
    r: "find_run (rq_run_id (ex_request ''r1'')) ex_done = Some r"
    and replay: "store_accept ex_env (ex_request ''r1'') ex_context 8 ex_done =
      (if quarantined (rq_session_id (ex_request ''r1'')) ex_done then (Raise PermissionError, ex_done) else (Ret (record_of r, False), ex_done))"
    and conflict: "\<forall>rq' cx'. fingerprint (en_sha ex_env) rq' cx' \<noteq> fingerprint (en_sha ex_env) (ex_request ''r1'') ex_context
        \<and> (rq_run_id rq' = rq_run_id (ex_request ''r1'')
           \<or> (rq_session_id rq' = rq_session_id (ex_request ''r1'') \<and> rq_idempotency_key rq' = rq_idempotency_key (ex_request ''r1''))) \<longrightarrow>
         store_accept ex_env rq' cx' 8 ex_done =
           (Raise (if quarantined (rq_session_id rq') ex_done then PermissionError else IdempotencyConflict), ex_done)"
    by (elim exE conjE) (rule that)
  from conflict [rule_format, of "(ex_request ''r1'')\<lparr>rq_input := ''other''\<rparr>" ex_context] r replay here other show ?thesis
    unfolding ids by simp
qed

section \<open>A cancellation that comes before the run\<close>

lemma reservation_stays:
  assumes "log_grows s s'" "find_reservation rid s = Some e"
  shows "find_reservation rid s' = Some e"
  using assms by (auto simp: log_grows_def find_reservation_def find_append_keep)

lemma reserve_cancel_Ret:
  assumes "store_reserve_cancel rid cx now s = (Ret rec, s')" "find_run rid s = None"
  shows "find_reservation rid s' \<noteq> None" "find_run rid s' = None"
proof -
  have "\<exists>e. find_reservation rid s' = Some e"
  proof (cases "find_reservation rid s")
    case (Some e)
    with reservation_stays movesD [OF log_reserve_cancel assms(1)] show ?thesis by blast
  next
    case None
    with assms obtain row where "s' = append_row row s" "de_run row = rid" "de_type row = ''run.cancel_reserved''"
      unfolding store_reserve_cancel_def by (auto elim!: transaction_cases simp: op_Ret)
    then show ?thesis using None find_append_new [of _ "st_events s" "row\<lparr>de_sequence := st_sequence s + 1\<rparr>"]
      by (simp add: find_reservation_def append_row_def)
  qed
  then show "find_reservation rid s' \<noteq> None" by simp
  have "st_runs s' = st_runs s"
    using assms(1) unfolding store_reserve_cancel_def
    by (rule keepsD [rotated]) (intro keeps_transaction keeps_intros require_keeps keeps_reflp keeps_append)
  with assms(2) show "find_run rid s' = None" by (simp add: find_run_def)
qed

text \<open>
  C17: A cancellation that arrives before its run is never lost.  Whatever happens between the
  reservation and the acceptance, the run is accepted cancelled and not fresh, and whatever
  happens afterwards it stays cancelled: no transition can start it.
\<close>

theorem reserved_cancel_wins:
  assumes "store_reserve_cancel rid cx now s = (Ret rec, s1)" "find_run rid s = None"
    and "(live_step en)\<^sup>*\<^sup>* s1 s2" "find_run rid s2 = None"
    and acc: "store_accept en rq cx' now' s2 = (Ret (rec2, fresh), s3)" and rid: "rq_run_id rq = rid"
    and "(live_step en)\<^sup>*\<^sup>* s3 s4" "keys_ok s2"
  shows "\<not> fresh \<and> rr_status rec2 = ''cancelled'' \<and> rr_cancel_requested rec2
    \<and> (\<exists>r. find_run rid s4 = Some r \<and> ru_status r = ''cancelled'')"
proof -
  obtain e where "find_reservation rid s1 = Some e"
    using reserve_cancel_Ret(1) [OF assms(1,2)] by blast
  with reservation_stays [OF log_grows_steps [OF live_store_steps [OF assms(3)]]]
  have e: "find_reservation (rq_run_id rq) s2 = Some e" by (simp add: rid)
  have "same_request rq s2 = []"
  proof (rule ccontr)
    assume some: "same_request rq s2 \<noteq> []"
    have "accept_body en rq cx' now' s2 = (Ret (rec2, fresh), s3)"
      using acc unfolding store_accept_def by (auto elim: transaction_cases)
    with some have "accept_again en rq cx' (same_request rq s2) = Ret (rec2, fresh)"
      by (auto simp: accept_body_def op_Ret)
    then obtain r where "r \<in> set (same_request rq s2)" "ru_id r = rid"
      by (auto simp: accept_again_def rid split: list.splits if_splits)
    then have "r \<in> set (st_runs s2)" by (simp add: same_request_def)
    with assms(4) \<open>ru_id r = rid\<close> show False by (simp add: find_run_def find_None_iff)
  qed
  note new = accept_new [OF this acc]
  define x where "x = cancel_accepted now' (new_run en rq cx' True now' s2)"
  have runs: "st_runs s3 = st_runs s2 @ [x]" "rec2 = record_of x" "\<not> fresh"
    using new e by (simp_all add: x_def)
  have "find_run rid s3 = Some x"
    by (rule find_run_append [OF assms(4) runs(1)]) (simp add: x_def cancel_accepted_def new_run_def rid)
  moreover have "runs_ok s2 s3" using runs_ok_accept acc by (rule movesD)
  then have "runs_le s3 s4" using assms(8) runs_ok_steps [OF assms(7)] by (simp add: runs_ok_def)
  ultimately obtain r where r: "find_run rid s4 = Some r" "run_le x r" using runs_le_find by blast
  have "ru_status r = ''cancelled''"
    using r(2) by (auto simp: run_le_def run_terminal_def x_def cancel_accepted_def TERMINAL_STATUSES_def)
  with r(1) runs(2,3) show ?thesis by (simp add: record_of_def x_def cancel_accepted_def new_run_def)
qed

definition ex_reserved :: store where
  "ex_reserved = snd (store_reserve_cancel ''r1'' ex_context 4 store_empty)"

definition ex_cancelled :: store where
  "ex_cancelled = snd (store_accept ex_env (ex_request ''r1'') ex_context 5 ex_reserved)"

theorem reserved_cancel_wins_witness:
  "\<exists>r. find_run ''r1'' (snd (store_transition ex_env ''r1'' ''running'' None 6 ex_cancelled)) = Some r \<and> ru_status r = ''cancelled''"
proof -
  have reserve: "\<not> isl (fst (store_reserve_cancel ''r1'' ex_context 4 store_empty))" by code_simp
  have accept: "\<not> isl (fst (store_accept ex_env (ex_request ''r1'') ex_context 5 ex_reserved))" by code_simp
  obtain rec2 fresh where acc: "store_accept ex_env (ex_request ''r1'') ex_context 5 ex_reserved = (Ret (rec2, fresh), ex_cancelled)"
    using op_returned [OF accept] by (metis ex_cancelled_def surj_pair)
  have empty: "find_run ''r1'' store_empty = None" "find_run ''r1'' ex_reserved = None" "keys_ok ex_reserved" by code_simp+
  have step: "(live_step ex_env)\<^sup>*\<^sup>* ex_cancelled (snd (store_transition ex_env ''r1'' ''running'' None 6 ex_cancelled))"
    by (auto intro: step_transition)
  from reserved_cancel_wins [OF op_returned [OF reserve, folded ex_reserved_def] empty(1) rtranclp.rtrancl_refl empty(2) acc _ step empty(3)]
  show ?thesis by (simp add: ex_request_def)
qed

section \<open>The event log\<close>

definition log_sorted :: "store \<Rightarrow> bool" where
  "log_sorted s \<longleftrightarrow> sorted_wrt (<) (map de_sequence (st_events s)) \<and> (\<forall>e \<in> set (st_events s). de_sequence e \<le> st_sequence s)"

lemma log_sorted_grows: "log_grows s s' \<Longrightarrow> log_sorted s \<Longrightarrow> log_sorted s'"
  unfolding log_grows_def log_sorted_def by (fastforce simp: sorted_wrt_append)

lemma log_sorted_empty: "log_sorted store_empty"
  by (simp add: log_sorted_def store_empty_def)

definition event_of :: "event_row \<Rightarrow> run_event" where
  "event_of e = \<lparr>ev_cursor = de_sequence e, ev_run_id = de_run e, ev_kind = de_type e, ev_payload = de_payload e\<rparr>"

definition run_events :: "string \<Rightarrow> int \<Rightarrow> store \<Rightarrow> run_event list" where
  "run_events rid after s = map event_of (filter (\<lambda>e. de_run e = rid \<and> after < de_sequence e) (st_events s))"

lemma store_events_Ret:
  assumes "log_sorted s" "store_events rid after s = (Ret es, s')"
  shows "es = run_events rid after s" "s' = s"
proof -
  have "sorted (map de_sequence (st_events s))"
    using assms(1) by (auto simp: log_sorted_def intro: strict_sorted_imp_sorted)
  then have *: "sort_key de_sequence (st_events s) = st_events s" by (rule sort_key_id_if_sorted)
  have comp: "[\<lparr>ev_cursor = de_sequence e, ev_run_id = rid, ev_kind = de_type e, ev_payload = de_payload e\<rparr>.
       e \<leftarrow> xs, de_run e = rid \<and> after < de_sequence e] = map event_of (filter (\<lambda>e. de_run e = rid \<and> after < de_sequence e) xs)" for xs
    by (induction xs) (auto simp: event_of_def)
  show "es = run_events rid after s" "s' = s"
    using assms(2) by (auto simp: store_events_def op_Ret * run_events_def comp)
qed

definition last_cursor :: "int \<Rightarrow> run_event list \<Rightarrow> int" where
  "last_cursor after es = (if es = [] then after else ev_cursor (last es))"

lemma filter_after_last:
  assumes "sorted_wrt (<) (map de_sequence xs)" "\<forall>e \<in> set ys. \<forall>x \<in> set xs. de_sequence x < de_sequence e"
  shows "map event_of (filter (\<lambda>e. de_run e = rid \<and> after < de_sequence e) (xs @ ys)) =
    map event_of (filter (\<lambda>e. de_run e = rid \<and> after < de_sequence e) xs)
    @ map event_of (filter (\<lambda>e. de_run e = rid \<and>
        last_cursor after (map event_of (filter (\<lambda>e. de_run e = rid \<and> after < de_sequence e) xs)) < de_sequence e) (xs @ ys))"
proof -
  let ?P = "\<lambda>e. de_run e = rid \<and> after < de_sequence e"
  define c where "c = last_cursor after (map event_of (filter ?P xs))"
  have ge: "\<forall>x \<in> set (filter ?P xs). de_sequence x \<le> c" and le: "after \<le> c"
    and bound: "filter ?P xs = [] \<or> (\<exists>x \<in> set xs. c = de_sequence x)"
  proof -
    show "\<forall>x \<in> set (filter ?P xs). de_sequence x \<le> c"
    proof
      fix x assume x: "x \<in> set (filter ?P xs)"
      then have "filter ?P xs \<noteq> []" by (cases "filter ?P xs") simp_all
      then have "c = de_sequence (last (filter ?P xs))" by (simp add: c_def last_cursor_def last_map event_of_def)
      moreover have "sorted_wrt (<) (map de_sequence (filter ?P xs))"
        using assms(1) by (simp add: sorted_wrt_map sorted_wrt_filter)
      ultimately show "de_sequence x \<le> c" using sorted_wrt_last [OF _ x, of de_sequence] by simp
    qed
    show "after \<le> c"
    proof (cases "filter ?P xs = []")
      case False
      then have "last (filter ?P xs) \<in> set (filter ?P xs)" by (rule last_in_set)
      with False show ?thesis by (simp add: c_def last_cursor_def last_map event_of_def)
    qed (simp add: c_def last_cursor_def)
    show "filter ?P xs = [] \<or> (\<exists>x \<in> set xs. c = de_sequence x)"
    proof (cases "filter ?P xs = []")
      case False
      then have "last (filter ?P xs) \<in> set (filter ?P xs)" by (rule last_in_set)
      with False show ?thesis by (auto simp: c_def last_cursor_def last_map event_of_def)
    qed simp
  qed
  have xs: "filter (\<lambda>e. de_run e = rid \<and> c < de_sequence e) xs = []"
    using ge le by (fastforce simp: filter_empty_conv)
  have ys: "filter (\<lambda>e. de_run e = rid \<and> c < de_sequence e) ys = filter ?P ys"
  proof (rule filter_cong [OF refl])
    fix e assume e: "e \<in> set ys"
    show "(de_run e = rid \<and> c < de_sequence e) = (de_run e = rid \<and> after < de_sequence e)"
    proof (cases "filter ?P xs = []")
      case True
      then have "c = after" by (simp add: c_def last_cursor_def)
      then show ?thesis by simp
    next
      case False
      with bound obtain x where "x \<in> set xs" "c = de_sequence x" by blast
      with assms(2) e le show ?thesis by fastforce
    qed
  qed
  show ?thesis unfolding c_def [symmetric] by (simp add: xs ys)
qed

text \<open>
  C18: A reader of the event log loses nothing and reads nothing twice.  If it has read the events
  of a run up to some moment and asks later, after any operations, for those after the last cursor
  it saw, it gets exactly the events that a reader from the beginning would get after them; and
  cursors strictly increase.
\<close>

theorem events_no_gap:
  assumes "(store_step en)\<^sup>*\<^sup>* store_empty s" "(store_step en)\<^sup>*\<^sup>* s s'"
    and "store_events rid after s = (Ret seen, t)" "store_events rid after s' = (Ret full, t1)"
    and "store_events rid (last_cursor after seen) s' = (Ret rest, t2)"
  shows "full = seen @ rest \<and> sorted_wrt (<) (map ev_cursor full)"
proof -
  have sorted: "log_sorted s" using log_sorted_grows [OF log_grows_steps [OF assms(1)] log_sorted_empty] .
  have grows: "log_grows s s'" using log_grows_steps [OF assms(2)] .
  have sorted': "log_sorted s'" using log_sorted_grows [OF grows sorted] .
  note evs = store_events_Ret(1) [OF sorted assms(3)] store_events_Ret(1) [OF sorted' assms(4)] store_events_Ret(1) [OF sorted' assms(5)]
  obtain l where l: "st_events s' = st_events s @ l" "\<forall>e \<in> set l. st_sequence s < de_sequence e"
    using grows by (auto simp: log_grows_def)
  have "full = seen @ rest"
    unfolding evs run_events_def l(1)
  proof (rule filter_after_last)
    show "sorted_wrt (<) (map de_sequence (st_events s))" using sorted by (simp add: log_sorted_def)
    show "\<forall>e \<in> set l. \<forall>x \<in> set (st_events s). de_sequence x < de_sequence e"
      using sorted l(2) by (fastforce simp: log_sorted_def)
  qed
  moreover have "sorted_wrt (<) (map ev_cursor full)"
    using sorted' unfolding evs(2) run_events_def log_sorted_def by (simp add: comp_def event_of_def sorted_wrt_map sorted_wrt_filter)
  ultimately show ?thesis by simp
qed

lemma ex_readable:
  "require_run_not_quarantined ''r1'' ex_accepted = (Ret (), ex_accepted)" "require_run_not_quarantined ''r1'' ex_done = (Ret (), ex_done)"
proof -
  have "fst (require_run_not_quarantined ''r1'' ex_accepted) = Ret ()" by code_simp
  then show "require_run_not_quarantined ''r1'' ex_accepted = (Ret (), ex_accepted)" by (simp add: require_run_not_quarantined_def)
  have "fst (require_run_not_quarantined ''r1'' ex_done) = Ret ()" by code_simp
  then show "require_run_not_quarantined ''r1'' ex_done = (Ret (), ex_done)" by (simp add: require_run_not_quarantined_def)
qed

theorem events_no_gap_witness:
  "run_events ''r1'' 0 ex_done = run_events ''r1'' 0 ex_accepted @ run_events ''r1'' 1 ex_done \<and> length (run_events ''r1'' 0 ex_done) = 3"
proof -
  have reach: "(store_step ex_env)\<^sup>*\<^sup>* store_empty ex_accepted" "(store_step ex_env)\<^sup>*\<^sup>* ex_accepted ex_done"
    using ex_steps by (auto intro!: live_store_steps)
  have sorted: "log_sorted ex_accepted" "log_sorted ex_done"
    using log_sorted_grows [OF log_grows_steps [OF reach(1)] log_sorted_empty] log_sorted_grows [OF log_grows_steps [OF reach(2)]] by auto
  have run: "\<not> isl (fst (store_events ''r1'' 0 ex_accepted))" "\<not> isl (fst (store_events ''r1'' 0 ex_done))"
    "\<not> isl (fst (store_events ''r1'' 1 ex_done))"
    using ex_readable by (auto simp: store_events_def)
  note ret = op_returned [OF run(1)] op_returned [OF run(2)] op_returned [OF run(3)]
  have vals: "projr (fst (store_events ''r1'' 0 ex_accepted)) = run_events ''r1'' 0 ex_accepted"
    "projr (fst (store_events ''r1'' 0 ex_done)) = run_events ''r1'' 0 ex_done"
    "projr (fst (store_events ''r1'' 1 ex_done)) = run_events ''r1'' 1 ex_done"
    using store_events_Ret(1) [OF sorted(1) ret(1)] store_events_Ret(1) [OF sorted(2) ret(2)] store_events_Ret(1) [OF sorted(2) ret(3)]
    by simp_all
  have "last_cursor 0 (run_events ''r1'' 0 ex_accepted) = 1" by code_simp
  then have "store_events ''r1'' (last_cursor 0 (projr (fst (store_events ''r1'' 0 ex_accepted)))) ex_done =
    (Ret (projr (fst (store_events ''r1'' 1 ex_done))), snd (store_events ''r1'' 1 ex_done))"
    using ret(3) vals by simp
  from events_no_gap [OF reach ret(1,2) this] vals
  have "run_events ''r1'' 0 ex_done = run_events ''r1'' 0 ex_accepted @ run_events ''r1'' 1 ex_done" by simp
  moreover have "length (run_events ''r1'' 0 ex_done) = 3" by code_simp
  ultimately show ?thesis by simp
qed

end
