(* ===== verification/StoreTools.thy ===== *)
theory StoreTools
  imports StoreLaws
begin

text \<open>
  The durable record of tool calls: at most one intent and one receipt per call, receipts that
  never change, and recovery.  The reference invariant \<open>refs_ok\<close> (every message, run and tool row
  belongs to an existing session, every terminal run has its finishing time) is what makes
  recovery succeed.
\<close>

section \<open>How a tool row may change\<close>

definition tool_le :: "tool_row \<Rightarrow> tool_row \<Rightarrow> bool" where
  "tool_le t t' \<longleftrightarrow>
     tl_id t' = tl_id t \<and> tl_run t' = tl_run t \<and> tl_call t' = tl_call t \<and> tl_root_id t' = tl_root_id t
     \<and> tl_args t' = tl_args t \<and> tl_server t' = tl_server t \<and> tl_name t' = tl_name t
     \<and> (tl_finished t \<noteq> None \<longrightarrow> tool_core t' = tool_core t)"

lemma tool_core_fields:
  "tool_core t' = tool_core t \<Longrightarrow> tl_id t' = tl_id t \<and> tl_run t' = tl_run t \<and> tl_call t' = tl_call t \<and> tl_root_id t' = tl_root_id t
     \<and> tl_args t' = tl_args t \<and> tl_server t' = tl_server t \<and> tl_name t' = tl_name t \<and> tl_finished t' = tl_finished t
     \<and> tl_status t' = tl_status t \<and> tl_result t' = tl_result t \<and> tl_error t' = tl_error t"
  by (cases t; cases t') (simp add: tool_core_def)

lemma tool_le_core: "tool_core t' = tool_core t \<Longrightarrow> tool_le t t'"
  using tool_core_fields [of t' t] by (simp add: tool_le_def)

lemma tool_le_refl: "tool_le t t"
  by (rule tool_le_core) simp

lemma tool_le_trans: "tool_le a b \<Longrightarrow> tool_le b c \<Longrightarrow> tool_le a c"
  using tool_core_fields [of b a] by (auto simp: tool_le_def)

definition tools_le :: "store \<Rightarrow> store \<Rightarrow> bool" where
  "tools_le s s' \<longleftrightarrow> (\<exists>xs l. st_tools s' = xs @ l \<and> list_all2 tool_le (st_tools s) xs)"

definition tool_keys_ok :: "store \<Rightarrow> bool" where
  "tool_keys_ok s \<longleftrightarrow> distinct (map tl_id (st_tools s)) \<and> distinct (map (\<lambda>t. (tl_run t, tl_call t)) (st_tools s))"

definition tools_ok :: "store \<Rightarrow> store \<Rightarrow> bool" where
  "tools_ok s s' \<longleftrightarrow> (tool_keys_ok s \<longrightarrow> tool_keys_ok s' \<and> tools_le s s')"

lemma tools_le_append: "st_tools s' = st_tools s @ l \<Longrightarrow> tools_le s s'"
  unfolding tools_le_def by (auto simp: list_all2_refl tool_le_refl)

lemma tools_ok_reflp: "reflp tools_ok"
  by (rule reflpI) (auto simp: tools_ok_def intro: tools_le_append [where l = "[]"])

lemma tools_le_trans: assumes "tools_le a b" "tools_le b c" shows "tools_le a c"
proof -
  from assms obtain xs l ys m where b: "st_tools b = xs @ l" "list_all2 tool_le (st_tools a) xs"
    and c: "st_tools c = ys @ m" "list_all2 tool_le (st_tools b) ys" unfolding tools_le_def by blast
  from c(2) b(1) obtain ys1 ys2 where ys: "ys = ys1 @ ys2" "list_all2 tool_le xs ys1"
    by (auto simp: list_all2_append1)
  have "list_all2 tool_le (st_tools a) ys1"
    by (rule list_all2_trans [OF tool_le_trans b(2) ys(2)])
  with ys c(1) show "tools_le a c" unfolding tools_le_def by (intro exI [of _ ys1] exI [of _ "ys2 @ m"]) simp
qed

lemma tools_ok_transp: "transp tools_ok"
  by (rule transpI) (auto simp: tools_ok_def intro: tools_le_trans)

lemma tools_ok_core:
  assumes "tools_core s' = tools_core s" shows "tools_ok s s'"
proof -
  have "list_all2 (=) (map tool_core (st_tools s)) (map tool_core (st_tools s'))"
    using assms by (simp add: tools_core_def list.rel_eq)
  then have core: "list_all2 (\<lambda>t t'. tool_core t' = tool_core t) (st_tools s) (st_tools s')"
    by (simp add: list.rel_map eq_commute)
  then have "list_all2 tool_le (st_tools s) (st_tools s')"
    by (rule list_all2_mono) (rule tool_le_core)
  then have "tools_le s s'" unfolding tools_le_def by (intro exI [of _ "st_tools s'"] exI [of _ "[]"]) simp
  moreover have "map tl_id (st_tools s') = map tl_id (st_tools s)"
    "map (\<lambda>t. (tl_run t, tl_call t)) (st_tools s') = map (\<lambda>t. (tl_run t, tl_call t)) (st_tools s)"
    using core by (induction rule: list_all2_induct) (auto dest: tool_core_fields)
  ultimately show ?thesis by (simp add: tools_ok_def tool_keys_ok_def)
qed

lemma tools_ok_keeps: "moves (keeps tools_core) m \<Longrightarrow> moves tools_ok m"
  by (auto simp: moves_def keeps_def intro: tools_ok_core)

lemma tools_core_tools: "moves (keeps st_tools) m \<Longrightarrow> moves (keeps tools_core) m"
  by (simp add: moves_def keeps_def tools_core_def)

lemma tools_le_find:
  assumes "tools_le s s'" "find_tool rid cid s = Some t"
  shows "\<exists>t'. find_tool rid cid s' = Some t' \<and> tool_le t t'"
proof -
  obtain xs l where s': "st_tools s' = xs @ l" and le: "list_all2 tool_le (st_tools s) xs"
    using assms(1) unfolding tools_le_def by blast
  have "List.find (\<lambda>x. tl_run x = rid \<and> tl_call x = cid) ts = Some t \<Longrightarrow> list_all2 tool_le ts ys \<Longrightarrow>
    \<exists>t'. List.find (\<lambda>x. tl_run x = rid \<and> tl_call x = cid) (ys @ l) = Some t' \<and> tool_le t t'" for ts ys
  proof (induction ts arbitrary: ys)
    case (Cons x ts)
    from Cons.prems(2) obtain y ys' where ys: "ys = y # ys'" "tool_le x y" "list_all2 tool_le ts ys'"
      by (auto simp: list_all2_Cons1)
    with Cons show ?case by (auto simp: tool_le_def split: if_splits)
  qed simp
  with assms(2) le show ?thesis by (simp add: find_tool_def s')
qed

section \<open>The tool rows along every operation\<close>

lemma accept_keeps_tools: "moves (keeps tools_core) (store_accept en rq cx now)"
  unfolding store_accept_def accept_body_def accept_fresh_def insert_accepted_def
  by (intro keeps_transaction keeps_intros require_keeps keeps_reflp found_op_keeps announce_accepted_keeps
      tools_core_tools [OF accept_session_runs(5)] tools_core_tools [OF accept_parent_runs(5)] keeps_modify)
    (auto simp: moves_def keeps_def insert_run_def map_runs_def tools_core_def)

lemma transition_keeps_tools: "moves (keeps tools_core) (store_transition en rid status out now)"
  unfolding store_transition_def transition_body_def
  by (intro keeps_transaction keeps_intros require_keeps keeps_reflp found_op_keeps store_message_keeps store_event_keeps
      moves_pair_bool keeps_modify) (auto simp: map_runs_def tools_core_def)

lemma request_cancel_keeps_tools: "moves (keeps tools_core) (store_request_cancel rid now)"
  unfolding store_request_cancel_def
  by (intro keeps_transaction keeps_intros require_keeps keeps_reflp found_op_keeps store_event_keeps keeps_modify)
    (auto simp: map_runs_def tools_core_def)

lemma reserve_cancel_keeps_tools: "moves (keeps tools_core) (store_reserve_cancel rid cx now)"
  unfolding store_reserve_cancel_def
  by (intro keeps_transaction keeps_intros require_keeps keeps_reflp keeps_append)

lemma append_event_keeps_tools: "moves (keeps tools_core) (store_append_event rid k p now)"
  unfolding store_append_event_def
  by (intro keeps_transaction keeps_intros require_keeps keeps_reflp store_event_keeps)

lemma session_ops_keep_tools:
  "moves (keeps st_tools) (rename_session r cx title' now)" "moves (keeps st_tools) (archive_session r cx now)"
  "moves (keeps st_tools) (restore_session r cx now)"
  unfolding rename_session_def archive_session_def restore_session_def Let_def
  by (intro keeps_intros change_session_keeps require_local_keeps keeps_reflp keeps_transp)+

lemma find_tool_Some: "find_tool rid cid s = Some t \<Longrightarrow> t \<in> set (st_tools s) \<and> tl_run t = rid \<and> tl_call t = cid"
  by (auto simp: find_tool_def find_Some_iff)

lemma tools_ok_map:
  assumes "t \<in> set (st_tools s)" "tool_le t (f t)"
  shows "tools_ok s (map_tools (tl_id t) f s)"
  unfolding tools_ok_def
proof (intro impI conjI)
  assume ok: "tool_keys_ok s"
  let ?h = "\<lambda>x. if tl_id x = tl_id t then f x else x"
  have le: "tool_le x (?h x)" if x: "x \<in> set (st_tools s)" for x
  proof (cases "tl_id x = tl_id t")
    case True
    moreover have "inj_on tl_id (set (st_tools s))" using ok by (simp add: tool_keys_ok_def distinct_map)
    ultimately have "x = t" using x assms(1) by (auto dest: inj_onD)
    with assms(2) show ?thesis by simp
  qed (simp add: tool_le_refl)
  have "map tl_id (st_tools (map_tools (tl_id t) f s)) = map tl_id (st_tools s)"
    "map (\<lambda>t. (tl_run t, tl_call t)) (st_tools (map_tools (tl_id t) f s)) = map (\<lambda>t. (tl_run t, tl_call t)) (st_tools s)"
    using le by (simp_all add: map_tools_def tool_le_def)
  with ok show "tool_keys_ok (map_tools (tl_id t) f s)" by (simp add: tool_keys_ok_def)
  have "list_all2 tool_le (st_tools s) (map ?h (st_tools s))"
    using le by (auto simp: list_all2_conv_all_nth)
  then show "tools_le s (map_tools (tl_id t) f s)"
    unfolding tools_le_def map_tools_def by (intro exI [of _ "map ?h (st_tools s)"] exI [of _ "[]"]) simp
qed

lemma begin_tool_Ret:
  assumes "store_begin_tool en rid cid binding args now s = (Ret u, s')"
  shows "\<exists>r x server name t. find_run rid s = Some r \<and> ru_status r = ''running'' \<and> find_tool rid cid s = None
    \<and> find_session (ru_session r) s = Some x \<and> se_visibility x \<noteq> ''quarantined''
    \<and> t = new_tool en r x cid binding args server name now s \<and> tl_id t \<notin> tl_id ` set (st_tools s)
    \<and> tools_core s' = tools_core (s\<lparr>st_tools := st_tools s @ [t]\<rparr>)"
proof -
  from assms have "begin_tool_body en rid cid binding args now s = (Ret u, s')"
    unfolding store_begin_tool_def by (auto elim: transaction_cases)
  then obtain r x server name cx s1 m s2 e s3 where
    vis: "\<forall>x. run_session rid s = Some x \<longrightarrow> se_visibility x \<noteq> ''quarantined''"
    and r: "find_run rid s = Some r" "ru_status r = ''running''" "find_tool rid cid s = None" "find_session (ru_session r) s = Some x"
    and ins: "tl_id (new_tool en r x cid binding args server name now s) \<notin> tl_id ` set (st_tools s)"
    and s1: "enqueue_source ''tool_invocation'' (tl_id (new_tool en r x cid binding args server name now s)) now
      (s\<lparr>st_tools := st_tools s @ [new_tool en r x cid binding args server name now s]\<rparr>) = (Ret (), s1)"
    and s2: "store_message en rid ''tool'' (JStr []) (agent_principal r cx) ''agent'' now (Some cid) ''streaming'' s1 = (Ret m, s2)"
    and s3: "store_event rid ''tool.invoking'' (JObj (tl_envelope (new_tool en r x cid binding args server name now s))) now s2 = (Ret e, s3)"
    and out: "s' = s3"
    by (auto simp: begin_tool_body_def op_Ret insert_tool_def split: option.splits if_splits)
  have "tools_core s' = tools_core (s\<lparr>st_tools := st_tools s @ [new_tool en r x cid binding args server name now s]\<rparr>)"
    using keepsD [OF enqueue_keeps(10) s1] keepsD [OF store_message_keeps(6) s2] keepsD [OF store_event_keeps(7) s3] out by simp
  moreover have "se_visibility x \<noteq> ''quarantined''" using vis r by (auto simp: run_session_def)
  ultimately show ?thesis using r ins by (intro exI conjI) (assumption | rule refl)+
qed

lemma tools_ok_begin: "moves tools_ok (store_begin_tool en rid cid b a now)"
  unfolding store_begin_tool_def
proof (rule moves_transaction_Ret [OF tools_ok_reflp])
  fix s u s' assume "begin_tool_body en rid cid b a now s = (Inr u, s')"
  then have "store_begin_tool en rid cid b a now s = (Ret u, s')"
    by (simp add: store_begin_tool_def transaction_def)
  from begin_tool_Ret [OF this] obtain r x server name t where new: "find_tool rid cid s = None" "find_run rid s = Some r"
    "t = new_tool en r x cid b a server name now s" "tl_id t \<notin> tl_id ` set (st_tools s)"
    and core: "tools_core s' = tools_core (s\<lparr>st_tools := st_tools s @ [t]\<rparr>)" by blast
  have t: "tl_run t = rid" "tl_call t = cid" using new(2,3) find_run_Some [OF new(2)] by (auto simp: new_tool_def)
  have none: "\<forall>x \<in> set (st_tools s). \<not> (tl_run x = rid \<and> tl_call x = cid)"
    using new(1) by (auto simp: find_tool_def find_None_iff)
  have "tools_ok s (s\<lparr>st_tools := st_tools s @ [t]\<rparr>)"
    unfolding tools_ok_def using new(4) none t by (auto simp: tool_keys_ok_def intro: tools_le_append)
  moreover have "tools_ok (s\<lparr>st_tools := st_tools s @ [t]\<rparr>) s'" by (rule tools_ok_core [OF core])
  ultimately show "tools_ok s s'" by (rule transpD [OF tools_ok_transp])
qed

lemma finish_tool_Ret:
  assumes "store_finish_tool en rid cid out now s = (Ret u, s')"
  shows "\<exists>t. find_tool rid cid s = Some t \<and> tl_finished t = None
    \<and> tools_core s' = tools_core (map_tools (tl_id t) (finished_tool en cid out now) s)"
proof -
  from assms have "finish_tool_body en rid cid out now s = (Ret u, s')"
    unfolding store_finish_tool_def by (auto elim: transaction_cases)
  then obtain t s1 s2 e s3 where t: "find_tool rid cid s = Some t" "tl_finished t = None"
    and s1: "enqueue_source ''tool_invocation'' (tl_id t) now (map_tools (tl_id t) (finished_tool en cid out now) s) = (Ret (), s1)"
    and s2: "(case find_anchor rid cid s1 of None \<Rightarrow> ret_op ()
        | Some m \<Rightarrow>
            bind_op (modify_op (map_messages (me_id m) (\<lambda>m. m\<lparr>
              me_text := canonical_json (en_repr en) (case out of Result v \<Rightarrow> v | Failure e \<Rightarrow> JObj e),
              me_status := ''complete'', me_updated := now, me_completed := Some now,
              me_source_version := me_source_version m + 1\<rparr>))) (\<lambda>_.
            enqueue_source ''message'' (me_id m) now)) s1 = (Ret (), s2)"
    and s3: "store_event rid ''tool.completed'' (JObj (receipt_payload cid out t)) now s2 = (Ret e, s3)" and out: "s' = s3"
    by (auto simp: finish_tool_body_def op_Ret)
  have "moves (keeps tools_core) (case find_anchor rid cid s1 of None \<Rightarrow> ret_op ()
        | Some m \<Rightarrow>
            bind_op (modify_op (map_messages (me_id m) (\<lambda>m. m\<lparr>
              me_text := canonical_json (en_repr en) (case out of Result v \<Rightarrow> v | Failure e \<Rightarrow> JObj e),
              me_status := ''complete'', me_updated := now, me_completed := Some now,
              me_source_version := me_source_version m + 1\<rparr>))) (\<lambda>_.
            enqueue_source ''message'' (me_id m) now))"
    by (intro keeps_intros keeps_modify enqueue_keeps) (simp add: map_messages_def tools_core_def)
  from keepsD [OF this s2] keepsD [OF enqueue_keeps(10) s1] keepsD [OF store_event_keeps(7) s3] out t
  show ?thesis by auto
qed

lemma tools_ok_finish: "moves tools_ok (store_finish_tool en rid cid out now)"
  unfolding store_finish_tool_def
proof (rule moves_transaction_Ret [OF tools_ok_reflp])
  fix s u s' assume "finish_tool_body en rid cid out now s = (Inr u, s')"
  then have "store_finish_tool en rid cid out now s = (Ret u, s')"
    by (simp add: store_finish_tool_def transaction_def)
  from finish_tool_Ret [OF this] obtain t where t: "find_tool rid cid s = Some t" "tl_finished t = None"
    and core: "tools_core s' = tools_core (map_tools (tl_id t) (finished_tool en cid out now) s)" by blast
  have "tools_ok s (map_tools (tl_id t) (finished_tool en cid out now) s)"
    using find_tool_Some [OF t(1)] t(2) by (intro tools_ok_map) (simp_all add: tool_le_def finished_tool_def Let_def)
  moreover have "tools_ok (map_tools (tl_id t) (finished_tool en cid out now) s) s'" by (rule tools_ok_core [OF core])
  ultimately show "tools_ok s s'" by (rule transpD [OF tools_ok_transp])
qed

lemma tools_ok_finish_all: "moves tools_ok (finish_all en xs now)"
proof (induction xs)
  case (Cons x xs)
  then show ?case by (cases x) (simp only: finish_all.simps, intro moves_bind [OF tools_ok_transp] tools_ok_finish)
qed (simp only: finish_all.simps moves_basic [OF tools_ok_reflp])

lemma tools_ok_interrupt_all: "moves tools_ok (interrupt_all en xs now)"
proof (induction xs)
  case (Cons x xs)
  then show ?case
    by (simp only: interrupt_all.simps, intro moves_bind [OF tools_ok_transp] tools_ok_keeps [OF transition_keeps_tools])
qed (simp only: interrupt_all.simps moves_basic [OF tools_ok_reflp])

lemma tools_ok_recover: "moves tools_ok (store_recover en now)"
  unfolding store_recover_def
  by (intro moves_bind [OF tools_ok_transp] moves_basic [OF tools_ok_reflp] tools_ok_finish_all tools_ok_interrupt_all)

lemma tools_ok_step: "live_step en s s' \<Longrightarrow> tools_ok s s'"
proof (induction rule: live_step.induct)
qed (use tools_ok_keeps [OF accept_keeps_tools] tools_ok_keeps [OF transition_keeps_tools] tools_ok_keeps [OF request_cancel_keeps_tools]
    tools_ok_keeps [OF reserve_cancel_keeps_tools] tools_ok_keeps [OF append_event_keeps_tools] tools_ok_begin tools_ok_finish
    tools_ok_recover tools_ok_keeps [OF tools_core_tools [OF create_session_keeps(4)]]
    tools_ok_keeps [OF tools_core_tools [OF session_ops_keep_tools(1)]] tools_ok_keeps [OF tools_core_tools [OF session_ops_keep_tools(2)]]
    tools_ok_keeps [OF tools_core_tools [OF session_ops_keep_tools(3)]] in \<open>simp_all only: moves_def\<close>)

lemma tools_ok_steps: "(live_step en)\<^sup>*\<^sup>* s s' \<Longrightarrow> tools_ok s s'"
proof (induction rule: rtranclp_induct)
  case (step s1 s2)
  show ?case by (rule transpD [OF tools_ok_transp step(3) tools_ok_step [OF step(2)]])
qed (rule reflpD [OF tools_ok_reflp])

lemma tool_keys_ok_empty: "tool_keys_ok store_empty"
  by (simp add: tool_keys_ok_def store_empty_def)

lemma purge_tools:
  "st_tools (snd (purge_session r cx now s)) = st_tools s
   \<or> st_tools (snd (purge_session r cx now s)) = filter (\<lambda>t. tl_root_id t \<noteq> sr_session_id r) (st_tools s)"
proof -
  have free: "st_tools (fold outbox_insert rows s) = st_tools s" for rows s
    using outbox_fold_free [of rows s] by (cases "fold outbox_insert rows s"; cases s) (simp add: outbox_free_def)
  have free1: "st_tools (outbox_insert row s) = st_tools s" for row s
    using free [of "[row]" s] by simp
  obtain q s' where p: "purge_session r cx now s = (q, s')" by fastforce
  then have "st_tools s' = st_tools s \<or> st_tools s' = filter (\<lambda>t. tl_root_id t \<noteq> sr_session_id r) (st_tools s)"
    by (auto simp: purge_session_def require_local_session_def bind_op_def found_op_def guard_op_def transaction_def delete_session_def
        Let_def free free1 split: if_splits option.splits sum.splits prod.splits)
  with p show ?thesis by simp
qed

lemma tool_keys_ok_steps: "(store_step en)\<^sup>*\<^sup>* s s' \<Longrightarrow> tool_keys_ok s \<Longrightarrow> tool_keys_ok s'"
proof (induction rule: rtranclp_induct)
  case (step s1 s2)
  from step(2) show ?case
  proof cases
    case step_live
    from tools_ok_step [OF this] step show ?thesis by (simp add: tools_ok_def)
  next
    case (step_purge r cx now)
    with purge_tools [of r cx now s1] step show ?thesis
      by (auto simp: tool_keys_ok_def intro: distinct_map_filter)
  qed
qed simp

section \<open>One intent and one receipt per call\<close>

text \<open>
  C5: After a call has been begun, whatever the other operations do, the ledger holds exactly one
  row for it; beginning it again is refused and changes nothing; its arguments and its binding
  stay; and once it has a receipt, the receipt never changes and a second one is refused and
  changes nothing.
\<close>

theorem tool_call_once:
  assumes "(store_step en)\<^sup>*\<^sup>* store_empty s" "find_tool rid cid s = Some t" "(live_step en)\<^sup>*\<^sup>* s s'"
  shows "\<exists>t'. find_tool rid cid s' = Some t' \<and> tool_le t t'
    \<and> filter (\<lambda>x. tl_run x = rid \<and> tl_call x = cid) (st_tools s') = [t']
    \<and> (\<exists>e. store_begin_tool en rid cid binding args now s' = (Raise e, s'))
    \<and> (tl_finished t \<noteq> None \<longrightarrow> (\<exists>e. store_finish_tool en rid cid out now s' = (Raise e, s')))"
proof -
  have ok: "tool_keys_ok s" using tool_keys_ok_steps [OF assms(1) tool_keys_ok_empty] .
  with tools_ok_steps [OF assms(3)] have ok': "tool_keys_ok s'" and le: "tools_le s s'" by (simp_all add: tools_ok_def)
  from tools_le_find [OF le assms(2)] obtain t' where t': "find_tool rid cid s' = Some t'" "tool_le t t'" by blast
  let ?P = "\<lambda>x. tl_run x = rid \<and> tl_call x = cid"
  have "filter ?P (st_tools s') = [t']"
  proof (rule distinct_singleton)
    show "distinct (filter ?P (st_tools s'))" using ok' by (auto simp: tool_keys_ok_def distinct_map)
    have "inj_on (\<lambda>t. (tl_run t, tl_call t)) (set (st_tools s'))" using ok' by (simp add: tool_keys_ok_def distinct_map)
    then show "set (filter ?P (st_tools s')) = {t'}" using find_tool_Some [OF t'(1)] by (auto dest: inj_onD)
  qed
  moreover have "\<exists>e. store_begin_tool en rid cid binding args now s' = (Raise e, s')"
  proof (cases "store_begin_tool en rid cid binding args now s'")
    case (Pair q s2)
    show ?thesis
    proof (cases q)
      case (Inl e)
      with Pair transaction_raised [of "begin_tool_body en rid cid binding args now" s' e] show ?thesis
        by (auto simp: store_begin_tool_def)
    next
      case (Inr u)
      with Pair begin_tool_Ret [of en rid cid binding args now s' u s2] t'(1) show ?thesis by auto
    qed
  qed
  moreover have "\<exists>e. store_finish_tool en rid cid out now s' = (Raise e, s')" if fin: "tl_finished t \<noteq> None"
  proof (cases "store_finish_tool en rid cid out now s'")
    case (Pair q s2)
    show ?thesis
    proof (cases q)
      case (Inl e)
      with Pair transaction_raised [of "finish_tool_body en rid cid out now" s' e] show ?thesis
        by (auto simp: store_finish_tool_def)
    next
      case (Inr u)
      have "tl_finished t' \<noteq> None" using fin t'(2) tool_core_fields [of t' t] by (auto simp: tool_le_def)
      with Pair Inr finish_tool_Ret [of en rid cid out now s' u s2] t'(1) show ?thesis by auto
    qed
  qed
  ultimately show ?thesis using t' by blast
qed

definition ex_binding :: json where
  "ex_binding = JObj [(''source_id'', JStr ''desk''), (''name'', JStr ''click'')]"

definition ex_begun :: store where
  "ex_begun = snd (store_begin_tool ex_env ''r1'' ''c1'' ex_binding (JObj []) 7 ex_running)"

definition ex_receipt :: store where
  "ex_receipt = snd (store_finish_tool ex_env ''r1'' ''c1'' (Result (JStr ''ok'')) 8 ex_begun)"

definition ex_receipt_done :: store where
  "ex_receipt_done = snd (store_transition ex_env ''r1'' ''success'' None 9 ex_receipt)"

lemma ex_receipt_steps:
  "(live_step ex_env)\<^sup>*\<^sup>* store_empty ex_receipt" "(live_step ex_env)\<^sup>*\<^sup>* ex_receipt ex_receipt_done"
proof -
  have "(live_step ex_env)\<^sup>*\<^sup>* ex_running ex_receipt"
    unfolding ex_receipt_def ex_begun_def by (blast intro: step_begin_tool step_finish_tool rtranclp.rtrancl_into_rtrancl)
  with ex_steps(1,2) show "(live_step ex_env)\<^sup>*\<^sup>* store_empty ex_receipt" by (meson rtranclp_trans)
  show "(live_step ex_env)\<^sup>*\<^sup>* ex_receipt ex_receipt_done"
    unfolding ex_receipt_done_def by (auto intro: step_transition)
qed

lemma ex_receipt_tool: "\<exists>t. find_tool ''r1'' ''c1'' ex_receipt = Some t \<and> tl_finished t = Some 8"
proof -
  have "map_option tl_finished (find_tool ''r1'' ''c1'' ex_receipt) = Some (Some 8)" by code_simp
  then show ?thesis by auto
qed

theorem tool_call_once_witness:
  "(\<exists>t. filter (\<lambda>x. tl_run x = ''r1'' \<and> tl_call x = ''c1'') (st_tools ex_receipt_done) = [t])
   \<and> (\<exists>e. store_begin_tool ex_env ''r1'' ''c1'' ex_binding (JObj []) 10 ex_receipt_done = (Raise e, ex_receipt_done))
   \<and> (\<exists>e. store_finish_tool ex_env ''r1'' ''c1'' (Result (JStr ''again'')) 10 ex_receipt_done = (Raise e, ex_receipt_done))"
proof -
  obtain t where t: "find_tool ''r1'' ''c1'' ex_receipt = Some t" "tl_finished t = Some 8" using ex_receipt_tool by blast
  from tool_call_once [OF live_store_steps [OF ex_receipt_steps(1)] t(1) ex_receipt_steps(2),
      of ex_binding "JObj []" 10 "Result (JStr ''again'')"] t(2)
  show ?thesis by auto
qed

section \<open>References between the tables\<close>

definition refs_ok :: "store \<Rightarrow> bool" where
  "refs_ok s \<longleftrightarrow>
     (\<forall>r \<in> set (st_runs s). ru_session r \<in> se_id ` set (st_sessions s))
     \<and> (\<forall>m \<in> set (st_messages s). me_session m \<in> se_id ` set (st_sessions s))
     \<and> (\<forall>t \<in> set (st_tools s). \<exists>r. find_run (tl_run t) s = Some r \<and> ru_session r = tl_root_id t)
     \<and> (\<forall>r \<in> set (st_runs s). run_terminal r \<longrightarrow> ru_finished r \<noteq> None)"

definition refs_imp :: "store \<Rightarrow> store \<Rightarrow> bool" where
  "refs_imp s s' \<longleftrightarrow> (refs_ok s \<longrightarrow> refs_ok s')"

lemma refs_reflp: "reflp refs_imp" by (simp add: reflp_def refs_imp_def)
lemma refs_transp: "transp refs_imp" by (auto simp: transp_def refs_imp_def)

lemma find_run_cong: "st_runs s' = st_runs s \<Longrightarrow> find_run rid s' = find_run rid s"
  by (simp add: find_run_def)

text \<open>Rows may come with their session, change in other columns, or sessions may be added.\<close>

lemma refs_okI:
  assumes "refs_ok s"
    and "se_id ` set (st_sessions s) \<subseteq> se_id ` set (st_sessions s')"
    and "st_runs s' = st_runs s"
    and "\<forall>m \<in> set (st_messages s'). me_session m \<in> se_id ` set (st_sessions s') \<or> (\<exists>m' \<in> set (st_messages s). me_session m' = me_session m)"
    and "\<forall>t \<in> set (st_tools s'). (\<exists>t' \<in> set (st_tools s). tl_run t' = tl_run t \<and> tl_root_id t' = tl_root_id t)
           \<or> (\<exists>r. find_run (tl_run t) s' = Some r \<and> ru_session r = tl_root_id t)"
  shows "refs_ok s'"
  unfolding refs_ok_def find_run_cong [OF assms(3)] assms(3)
proof (intro conjI ballI impI)
  fix r assume "r \<in> set (st_runs s)"
  then show "ru_session r \<in> se_id ` set (st_sessions s')" using assms(1,2) by (auto simp: refs_ok_def)
next
  fix m assume "m \<in> set (st_messages s')"
  then show "me_session m \<in> se_id ` set (st_sessions s')" using assms(1,2,4) unfolding refs_ok_def by (metis subsetD)
next
  fix t assume t: "t \<in> set (st_tools s')"
  then consider t' where "t' \<in> set (st_tools s)" "tl_run t' = tl_run t" "tl_root_id t' = tl_root_id t"
    | r where "find_run (tl_run t) s' = Some r" "ru_session r = tl_root_id t" using assms(5) by blast
  then show "\<exists>r. find_run (tl_run t) s = Some r \<and> ru_session r = tl_root_id t"
  proof cases
    case 1
    then show ?thesis using assms(1) unfolding refs_ok_def by metis
  next
    case 2
    then show ?thesis by (simp add: find_run_cong [OF assms(3)])
  qed
next
  fix r assume "r \<in> set (st_runs s)" "run_terminal r"
  then show "ru_finished r \<noteq> None" using assms(1) by (auto simp: refs_ok_def)
qed

lemma session_ids_core: "sessions_core s' = sessions_core s \<Longrightarrow> se_id ` set (st_sessions s') = se_id ` set (st_sessions s)"
proof -
  assume "sessions_core s' = sessions_core s"
  then have "map se_id (sessions_core s') = map se_id (sessions_core s)" by simp
  then have "map se_id (st_sessions s') = map se_id (st_sessions s)"
    by (simp add: sessions_core_def comp_def session_core_def)
  then show ?thesis by (metis list.set_map)
qed

lemma find_session_ids: "find_session sid s \<noteq> None \<longleftrightarrow> sid \<in> se_id ` set (st_sessions s)"
  by (auto simp: find_session_def find_None_iff)

lemma refs_modify:
  assumes "\<And>s. se_id ` set (st_sessions (g s)) = se_id ` set (st_sessions s)" "\<And>s. st_runs (g s) = st_runs s"
    and "\<And>s m. m \<in> set (st_messages (g s)) \<Longrightarrow> \<exists>m' \<in> set (st_messages s). me_session m' = me_session m"
    and "\<And>s t. t \<in> set (st_tools (g s)) \<Longrightarrow> \<exists>t' \<in> set (st_tools s). tl_run t' = tl_run t \<and> tl_root_id t' = tl_root_id t"
  shows "moves refs_imp (modify_op g)"
  unfolding moves_def refs_imp_def
proof (intro allI impI)
  fix s assume ok: "refs_ok s"
  have "refs_ok (g s)" by (rule refs_okI [OF ok]) (use assms in auto)
  then show "refs_ok (snd (modify_op g s))" by simp
qed

lemma refs_keeps_free: "moves (keeps outbox_free) m \<Longrightarrow> moves refs_imp m"
  unfolding moves_def refs_imp_def keeps_def
proof (intro allI impI)
  fix s assume "\<forall>s. outbox_free (snd (m s)) = outbox_free s" "refs_ok s"
  then have "outbox_free (snd (m s)) = outbox_free s" by blast
  then have "st_sessions (snd (m s)) = st_sessions s" "st_runs (snd (m s)) = st_runs s"
    "st_messages (snd (m s)) = st_messages s" "st_tools (snd (m s)) = st_tools s"
    by (cases "snd (m s)"; cases s; simp add: outbox_free_def)+
  with \<open>refs_ok s\<close> show "refs_ok (snd (m s))" by (intro refs_okI [OF \<open>refs_ok s\<close>]) auto
qed

lemmas refs_bind = moves_bind [OF refs_transp]
lemmas refs_basic = moves_basic [OF refs_reflp]
lemmas refs_enqueue = refs_keeps_free [OF enqueue_keeps_free]

lemma refs_append: "moves refs_imp (modify_op (append_row e))"
  by (rule refs_modify) (auto simp: append_row_def)

lemma refs_event: "moves refs_imp (store_event rid k p now)"
  unfolding store_event_def by (intro refs_bind refs_basic found_op_keeps refs_reflp refs_append)

lemma refs_refresh: "moves refs_imp (refresh_tools ts now)"
proof (induction ts)
  case (Cons t ts)
  have "moves refs_imp (modify_op (map_tools t (\<lambda>x. x\<lparr>tl_source_version := tl_source_version x + 1\<rparr>)))"
    by (rule refs_modify) (auto simp: map_tools_def)
  with Cons show ?case by (simp only: refresh_tools.simps, intro refs_bind refs_enqueue)
qed (simp only: refresh_tools.simps refs_basic)

lemma map_sessions_ids:
  "(\<And>x. se_id (f x) = se_id x) \<Longrightarrow> se_id ` set (st_sessions (map_sessions sid f s)) = se_id ` set (st_sessions s)"
proof -
  assume f: "\<And>x. se_id (f x) = se_id x"
  have "map se_id (st_sessions (map_sessions sid f s)) = map se_id (st_sessions s)"
    using f by (simp add: map_sessions_def)
  then show ?thesis by (metis list.set_map)
qed

lemma refs_map_sessions: "(\<And>x. se_id (f x) = se_id x) \<Longrightarrow> moves refs_imp (modify_op (map_sessions sid f))"
  by (rule refs_modify) (simp_all add: map_sessions_ids, auto simp: map_sessions_def)

lemma refs_touch: "moves refs_imp (modify_op (touch_session sid now))"
  unfolding touch_session_def by (rule refs_map_sessions) simp

lemma refs_message: "moves refs_imp (store_message en rid role text a k now c st)"
  unfolding moves_def refs_imp_def
proof (intro allI impI)
  fix s assume ok: "refs_ok s"
  show "refs_ok (snd (store_message en rid role text a k now c st s))"
  proof (cases "find_run rid s")
    case None
    with ok show ?thesis by (simp add: store_message_def found_op_def bind_op_def)
  next
    case (Some r)
    let ?m = "message_of en r role text a k now c st s"
    let ?s1 = "s\<lparr>st_messages := st_messages s @ [?m], st_uuids := Suc (st_uuids s)\<rparr>"
    have "ru_session r \<in> se_id ` set (st_sessions s)" using ok find_run_Some [OF Some] by (simp add: refs_ok_def)
    then have ok1: "refs_ok ?s1"
      by (intro refs_okI [OF ok]) (auto simp: message_of_def)
    have tail: "moves refs_imp (bind_op (modify_op (touch_session (ru_session r) now)) (\<lambda>_.
     bind_op (enqueue_source ''message'' (me_id ?m) now) (\<lambda>_.
     bind_op (enqueue_source ''session'' (ru_session r) now) (\<lambda>_.
     bind_op (read_op (\<lambda>s. [tl_id t. t \<leftarrow> st_tools s, tl_run t = rid])) (\<lambda>ts.
     bind_op (refresh_tools ts now) (\<lambda>_.
     ret_op (me_id ?m)))))))"
      by (intro refs_bind refs_basic refs_enqueue refs_refresh refs_touch)
    have "store_message en rid role text a k now c st s = bind_op (modify_op (touch_session (ru_session r) now)) (\<lambda>_.
     bind_op (enqueue_source ''message'' (me_id ?m) now) (\<lambda>_.
     bind_op (enqueue_source ''session'' (ru_session r) now) (\<lambda>_.
     bind_op (read_op (\<lambda>s. [tl_id t. t \<leftarrow> st_tools s, tl_run t = rid])) (\<lambda>ts.
     bind_op (refresh_tools ts now) (\<lambda>_.
     ret_op (me_id ?m)))))) ?s1"
      using Some by (simp add: store_message_def found_op_def bind_op_def)
    with tail ok1 show ?thesis by (simp add: moves_def refs_imp_def)
  qed
qed

lemma refs_insert_accepted:
  assumes "insert_accepted en rq cx reserved now s = (Ret u, s')" "refs_ok s" "find_session (rq_session_id rq) s \<noteq> None"
  shows "refs_ok s'"
proof -
  let ?x = "new_run en rq cx reserved now s"
  let ?s1 = "s\<lparr>st_runs := st_runs s @ [?x]\<rparr>"
  have x: "ru_session ?x = rq_session_id rq" "\<not> run_terminal ?x"
    by (simp_all add: new_run_def run_terminal_def TERMINAL_STATUSES_def)
  have keep: "find_run rid ?s1 = Some r" if "find_run rid s = Some r" for rid r
    using that by (simp add: find_run_def find_append_keep)
  have ok1: "refs_ok ?s1"
    using assms(2,3) x keep unfolding refs_ok_def find_session_ids by (auto; blast)
  show ?thesis
  proof (cases reserved)
    case False
    with assms(1) ok1 show ?thesis by (auto simp: insert_accepted_def op_Ret insert_run_def split: if_splits)
  next
    case True
    with assms(1) have s': "s' = map_runs (rq_run_id rq) (cancel_accepted now) ?s1"
      by (auto simp: insert_accepted_def op_Ret insert_run_def split: if_splits)
    have find: "find_run rid (map_runs q (cancel_accepted now) z) = map_option (\<lambda>r. if ru_id r = q then cancel_accepted now r else r) (find_run rid z)"
      for rid q z
    proof -
      have "List.find (\<lambda>x. ru_id x = rid) (map (\<lambda>x. if ru_id x = q then cancel_accepted now x else x) xs)
        = map_option (\<lambda>r. if ru_id r = q then cancel_accepted now r else r) (List.find (\<lambda>x. ru_id x = rid) xs)" for xs
        by (induction xs) (auto simp: cancel_accepted_def)
      then show ?thesis by (simp add: find_run_def map_runs_def)
    qed
    show ?thesis
      unfolding refs_ok_def s' find
    proof (intro conjI ballI impI)
      fix t assume "t \<in> set (st_tools (map_runs (rq_run_id rq) (cancel_accepted now) ?s1))"
      then have "t \<in> set (st_tools ?s1)" by (simp add: map_runs_def)
      with ok1 obtain r where "find_run (tl_run t) ?s1 = Some r" "ru_session r = tl_root_id t" unfolding refs_ok_def by blast
      then show "\<exists>r. map_option (\<lambda>r. if ru_id r = rq_run_id rq then cancel_accepted now r else r) (find_run (tl_run t) ?s1) = Some r \<and> ru_session r = tl_root_id t"
        by (auto simp: cancel_accepted_def)
    qed (use ok1 in \<open>auto simp: refs_ok_def map_runs_def cancel_accepted_def split: if_splits\<close>)
  qed
qed

lemma refs_accept_session:
  assumes "accept_session sid cx now s = (Ret ex, s')" "refs_ok s"
  shows "refs_ok s' \<and> find_session sid s' \<noteq> None"
proof (cases "find_session sid s")
  case None
  then have "accept_session sid cx now s = bind_op (insert_acl (audience_acl sid cx)) (\<lambda>_. ret_op None)
      (s\<lparr>st_sessions := st_sessions s @ [new_session sid cx now]\<rparr>)"
    by (simp add: accept_session_def)
  with assms(1) have s': "st_sessions s' = st_sessions s @ [new_session sid cx now]" "st_runs s' = st_runs s"
    "st_messages s' = st_messages s" "st_tools s' = st_tools s"
    by (auto simp: op_Ret insert_acl_def split: if_splits)
  have "refs_ok s'" by (rule refs_okI [OF assms(2)]) (use s' in auto)
  moreover have "sid \<in> se_id ` set (st_sessions s')" using s' by (simp add: new_session_def)
  ultimately show ?thesis unfolding find_session_ids by simp
next
  case (Some x)
  let ?f = "\<lambda>x. x\<lparr>se_metadata := AList.update ''runtime_contract'' (JInt 1) (se_metadata x)\<rparr>"
  have s': "s' = map_sessions sid ?f s"
    using assms(1) Some by (auto simp: accept_session_def op_Ret split: if_splits)
  have "moves refs_imp (modify_op (map_sessions sid ?f))" by (rule refs_map_sessions) simp
  then have "refs_ok s'" using assms(2) s' by (simp add: moves_def refs_imp_def)
  moreover have "sid \<in> se_id ` set (st_sessions s')"
    using Some map_sessions_ids [of ?f sid s] find_session_ids [of sid s] by (simp add: s')
  ultimately show ?thesis unfolding find_session_ids by simp
qed

lemma refs_accept_parent:
  "moves refs_imp (accept_parent sid cx ex)"
  unfolding accept_parent_def
  by (intro moves_splits refs_bind refs_basic refs_map_sessions) simp

lemma accept_parent_ids:
  assumes "accept_parent sid cx ex s = (Ret u, s')"
  shows "se_id ` set (st_sessions s') = se_id ` set (st_sessions s)"
proof -
  have "moves (keeps (\<lambda>s. se_id ` set (st_sessions s))) (accept_parent sid cx ex)"
    unfolding accept_parent_def by (intro keeps_intros keeps_modify map_sessions_ids) simp
  from keepsD [OF this assms] show ?thesis .
qed

lemma refs_accept: "moves refs_imp (store_accept en rq cx now)"
  unfolding store_accept_def
proof (rule moves_transaction_Ret [OF refs_reflp])
  fix s x s' assume a: "accept_body en rq cx now s = (Inr x, s')"
  have "refs_ok s'" if ok: "refs_ok s"
  proof (cases "same_request rq s = []")
    case False
    with a have "s' = s" by (auto simp: accept_body_def op_Ret)
    with ok show ?thesis by simp
  next
    case True
    with a obtain res where "accept_fresh en rq cx res now s = (Ret x, s')"
      by (auto simp: accept_body_def op_Ret)
    then obtain ex s1 s2 s3 s4 where
      s1: "accept_session (rq_session_id rq) cx now s = (Ret ex, s1)"
      and s2: "accept_parent (rq_session_id rq) cx ex s1 = (Ret (), s2)"
      and s3: "insert_accepted en rq cx (res \<noteq> None) now s2 = (Ret (), s3)"
      and s4: "announce_accepted en rq cx (res \<noteq> None) now s3 = (Ret (), s4)" and s': "s' = s4"
      by (auto simp: accept_fresh_def op_Ret)
    from refs_accept_session [OF s1 ok] have ok1: "refs_ok s1" "rq_session_id rq \<in> se_id ` set (st_sessions s1)"
      unfolding find_session_ids by auto
    have ok2: "refs_ok s2" using movesD [OF refs_accept_parent s2] ok1 by (simp add: refs_imp_def)
    have "find_session (rq_session_id rq) s2 \<noteq> None"
      unfolding find_session_ids using accept_parent_ids [OF s2] ok1(2) by simp
    with refs_insert_accepted [OF s3 ok2] have "refs_ok s3" by simp
    have "moves refs_imp (announce_accepted en rq cx (res \<noteq> None) now)"
      unfolding announce_accepted_def by (intro refs_bind refs_basic refs_message refs_event)
    from movesD [OF this s4] \<open>refs_ok s3\<close> s' show ?thesis by (simp add: refs_imp_def)
  qed
  then show "refs_imp s s'" by (simp add: refs_imp_def)
qed

lemma find_run_map:
  assumes "\<And>r. ru_id (f r) = ru_id r"
  shows "find_run rid (map_runs q f s) = map_option (\<lambda>r. if ru_id r = q then f r else r) (find_run rid s)"
proof -
  have "List.find (\<lambda>x. ru_id x = rid) (map (\<lambda>x. if ru_id x = q then f x else x) xs)
    = map_option (\<lambda>r. if ru_id r = q then f r else r) (List.find (\<lambda>x. ru_id x = rid) xs)" for xs
    using assms by (induction xs) auto
  then show ?thesis by (simp add: find_run_def map_runs_def)
qed

lemma refs_map_runs:
  assumes f: "\<And>r. ru_id (f r) = ru_id r" "\<And>r. ru_session (f r) = ru_session r"
    "\<And>r. (run_terminal r \<longrightarrow> ru_finished r \<noteq> None) \<Longrightarrow> run_terminal (f r) \<Longrightarrow> ru_finished (f r) \<noteq> None"
  shows "moves refs_imp (modify_op (map_runs q f))"
  unfolding moves_def refs_imp_def
proof (intro allI impI)
  fix s assume ok: "refs_ok s"
  have "refs_ok (map_runs q f s)"
    unfolding refs_ok_def find_run_map [of f, OF f(1)]
  proof (intro conjI ballI impI)
    fix t assume "t \<in> set (st_tools (map_runs q f s))"
    then have "t \<in> set (st_tools s)" by (simp add: map_runs_def)
    with ok obtain r where "find_run (tl_run t) s = Some r" "ru_session r = tl_root_id t" unfolding refs_ok_def by blast
    then show "\<exists>r. map_option (\<lambda>r. if ru_id r = q then f r else r) (find_run (tl_run t) s) = Some r \<and> ru_session r = tl_root_id t"
      using f(2) by auto
  next
    fix r assume "r \<in> set (st_runs (map_runs q f s))" "run_terminal r"
    then obtain x where "x \<in> set (st_runs s)" "r = f x \<or> r = x" by (auto simp: map_runs_def)
    with ok f(3) [of x] \<open>run_terminal r\<close> show "ru_finished r \<noteq> None" by (auto simp: refs_ok_def)
  qed (use ok f in \<open>auto simp: refs_ok_def map_runs_def\<close>)
  then show "refs_ok (snd (modify_op (map_runs q f) s))" by simp
qed

lemmas refs_intros = refs_bind refs_basic moves_splits found_op_keeps [OF refs_reflp] require_keeps [OF refs_reflp]
  refs_message refs_enqueue refs_event refs_append moves_transaction [OF refs_reflp]

lemma refs_transition: "moves refs_imp (store_transition en rid status out now)"
  unfolding store_transition_def transition_body_def
  by (intro refs_intros moves_pair_bool refs_map_runs; simp add: run_terminal_def)

lemma refs_request_cancel: "moves refs_imp (store_request_cancel rid now)"
  unfolding store_request_cancel_def by (intro refs_intros refs_map_runs; simp add: run_terminal_def)

lemma refs_reserve_cancel: "moves refs_imp (store_reserve_cancel rid cx now)"
  unfolding store_reserve_cancel_def by (intro refs_intros)

lemma refs_append_event: "moves refs_imp (store_append_event rid k p now)"
  unfolding store_append_event_def by (intro refs_intros)

lemma refs_begin: "moves refs_imp (store_begin_tool en rid cid binding args now)"
  unfolding store_begin_tool_def
proof (rule moves_transaction_Ret [OF refs_reflp])
  fix s u s' assume "begin_tool_body en rid cid binding args now s = (Inr u, s')"
  then obtain r x server name cx s1 m s2 e s3 where
    r: "find_run rid s = Some r"
    and s1: "enqueue_source ''tool_invocation'' (tl_id (new_tool en r x cid binding args server name now s)) now
      (s\<lparr>st_tools := st_tools s @ [new_tool en r x cid binding args server name now s]\<rparr>) = (Ret (), s1)"
    and s2: "store_message en rid ''tool'' (JStr []) (agent_principal r cx) ''agent'' now (Some cid) ''streaming'' s1 = (Ret m, s2)"
    and s3: "store_event rid ''tool.invoking'' (JObj (tl_envelope (new_tool en r x cid binding args server name now s))) now s2 = (Ret e, s3)"
    and out: "s' = s3"
    by (auto simp: begin_tool_body_def op_Ret insert_tool_def split: option.splits if_splits)
  show "refs_imp s s'"
    unfolding refs_imp_def
  proof
    assume ok: "refs_ok s"
    have "refs_ok (s\<lparr>st_tools := st_tools s @ [new_tool en r x cid binding args server name now s]\<rparr>)"
      by (rule refs_okI [OF ok]) (use r find_run_Some [OF r] in \<open>auto simp: new_tool_def find_run_def\<close>)
    with movesD [OF refs_enqueue s1] movesD [OF refs_message s2] movesD [OF refs_event s3] out
    show "refs_ok s'" by (simp add: refs_imp_def)
  qed
qed

lemma refs_finish: "moves refs_imp (store_finish_tool en rid cid out now)"
  unfolding store_finish_tool_def finish_tool_body_def
proof (intro refs_intros)
  show "moves refs_imp (modify_op (map_tools tid (finished_tool en cid out now)))" for tid
    by (rule refs_modify) (auto simp: map_tools_def finished_tool_def Let_def)
  show "moves refs_imp (modify_op (map_messages mid (\<lambda>m. m\<lparr>me_text := tx, me_status := ''complete'', me_updated := now,
      me_completed := Some now, me_source_version := me_source_version m + 1\<rparr>)))" for mid tx
    by (rule refs_modify) (auto simp: map_messages_def)
qed

lemma refs_finish_all: "moves refs_imp (finish_all en xs now)"
proof (induction xs)
  case (Cons x xs)
  then show ?case by (cases x) (simp only: finish_all.simps, intro refs_bind refs_finish)
qed (simp only: finish_all.simps refs_basic)

lemma refs_interrupt_all: "moves refs_imp (interrupt_all en xs now)"
proof (induction xs)
  case (Cons x xs)
  then show ?case by (simp only: interrupt_all.simps, intro refs_bind refs_transition)
qed (simp only: interrupt_all.simps refs_basic)

lemma refs_recover: "moves refs_imp (store_recover en now)"
  unfolding store_recover_def by (intro refs_bind refs_basic refs_finish_all refs_interrupt_all)

lemma refs_change: "(\<And>x. se_id (f x) = se_id x) \<Longrightarrow> moves refs_imp (change_session r f now)"
  unfolding change_session_def
  by (intro refs_intros refs_map_sessions find_wire_keeps refs_reflp refs_transp) simp

lemma refs_session_ops:
  "moves refs_imp (rename_session r cx title' now)" "moves refs_imp (archive_session r cx now)" "moves refs_imp (restore_session r cx now)"
  unfolding rename_session_def archive_session_def restore_session_def Let_def
  by (intro refs_intros require_local_keeps refs_reflp refs_transp refs_change; simp)+

lemma refs_add_session: "moves refs_imp (modify_op (\<lambda>s. s\<lparr>st_sessions := st_sessions s @ [x]\<rparr>))"
  unfolding moves_def refs_imp_def
proof (intro allI impI)
  fix s assume ok: "refs_ok s"
  have "refs_ok (s\<lparr>st_sessions := st_sessions s @ [x]\<rparr>)" by (rule refs_okI [OF ok]) auto
  then show "refs_ok (snd (modify_op (\<lambda>s. s\<lparr>st_sessions := st_sessions s @ [x]\<rparr>) s))" by simp
qed

lemma refs_create: "moves refs_imp (create_session r cx title parent now)"
  unfolding create_session_def
  by (intro refs_intros refs_add_session require_local_keeps find_wire_keeps refs_reflp refs_transp)

lemma find_filter_keep: "List.find P xs = Some x \<Longrightarrow> Q x \<Longrightarrow> List.find P (filter Q xs) = Some x"
  by (induction xs) (auto split: if_splits)

lemma refs_delete: "moves refs_imp (delete_session sid)"
  unfolding moves_def refs_imp_def
proof (intro allI impI)
  fix s assume ok: "refs_ok s"
  define f :: "run_row \<Rightarrow> run_row" where
    "f = (\<lambda>r. if ru_parent r \<in> Some ` set [ru_id r. r \<leftarrow> st_runs s, ru_session r = sid] then r\<lparr>ru_parent := None\<rparr> else r)"
  have f: "ru_id (f r) = ru_id r" "ru_session (f r) = ru_session r" "run_terminal (f r) = run_terminal r" "ru_finished (f r) = ru_finished r" for r
    by (simp_all add: f_def run_terminal_def)
  show "refs_ok (snd (delete_session sid s))"
  proof (cases "\<exists>x \<in> set (st_sessions s). se_id x \<noteq> sid \<and> (se_parent x = Some sid \<or> se_root x = Some sid)")
    case True
    with ok show ?thesis by (simp add: delete_session_def)
  next
    case False
    define s' where "s' = snd (delete_session sid s)"
    have s': "st_sessions s' = filter (\<lambda>x. se_id x \<noteq> sid) (st_sessions s)"
      "st_runs s' = map f (filter (\<lambda>r. ru_session r \<noteq> sid) (st_runs s))"
      "st_messages s' = filter (\<lambda>m. me_session m \<noteq> sid) (st_messages s)"
      "st_tools s' = filter (\<lambda>t. tl_root_id t \<noteq> sid) (st_tools s)"
      using False by (auto simp: s'_def delete_session_def f_def Let_def)
    have find_f: "List.find (\<lambda>x. ru_id x = rid) (map f xs) = map_option f (List.find (\<lambda>x. ru_id x = rid) xs)" for rid xs
      by (induction xs) (auto simp: f)
    have "\<exists>r. find_run (tl_run t) s' = Some r \<and> ru_session r = tl_root_id t" if t: "t \<in> set (st_tools s')" for t
    proof -
      from t have "t \<in> set (st_tools s)" "tl_root_id t \<noteq> sid" by (auto simp: s')
      with ok obtain r where r: "find_run (tl_run t) s = Some r" "ru_session r = tl_root_id t" unfolding refs_ok_def by blast
      with \<open>tl_root_id t \<noteq> sid\<close> have "find_run (tl_run t) s' = Some (f r)"
        by (simp add: find_run_def s' find_f find_filter_keep)
      with r f show ?thesis by auto
    qed
    then have "refs_ok s'" using ok f unfolding refs_ok_def s' by auto
    then show ?thesis by (simp add: s'_def)
  qed
qed

lemma refs_purge: "moves refs_imp (purge_session r cx now)"
proof -
  have free: "moves (keeps outbox_free) (modify_op (\<lambda>s. fold outbox_insert (rows s) s))" for rows
    by (rule keeps_modify) (simp add: outbox_fold_free)
  have free1: "moves (keeps outbox_free) (modify_op (outbox_insert row))" for row
    by (rule keeps_modify) (simp add: outbox_insert_free)
  show ?thesis
    unfolding purge_session_def
    by (intro refs_intros require_local_keeps refs_reflp refs_transp refs_delete refs_keeps_free [OF free] refs_keeps_free [OF free1])
qed

lemma refs_live_step: "live_step en s s' \<Longrightarrow> refs_imp s s'"
proof (induction rule: live_step.induct)
qed (use refs_accept refs_transition refs_request_cancel refs_reserve_cancel refs_append_event refs_begin refs_finish refs_recover
    refs_create refs_session_ops in \<open>simp_all only: moves_def\<close>)

lemma refs_steps: "(store_step en)\<^sup>*\<^sup>* s s' \<Longrightarrow> refs_ok s \<Longrightarrow> refs_ok s'"
proof (induction rule: rtranclp_induct)
  case (step s1 s2)
  from step(2) show ?case
  proof cases
    case step_live
    from refs_live_step [OF this] step show ?thesis by (simp add: refs_imp_def)
  next
    case (step_purge r cx now)
    with refs_purge step show ?thesis by (simp add: moves_def refs_imp_def)
  qed
qed simp

lemma refs_empty: "refs_ok store_empty"
  by (simp add: refs_ok_def store_empty_def)

end
