(* ===== verification/WorkflowBlocks.thy ===== *)
theory WorkflowBlocks
  imports Contracts
begin

text \<open>
  The catalog of workflow blocks (\<^verbatim>\<open>workflow/blocks.py\<close>): the specification of every block
  type with its configuration fields and its handles.  The descriptions and the hints on the
  output, which only the editor shows, are left out.
\<close>

section \<open>Field and block specifications\<close>

record field_spec =
  fs_type :: string
  fs_required :: bool
  fs_default :: "json option"
  fs_enum :: "json list option"

record block_spec =
  bs_type :: string
  bs_category :: string
  bs_config_schema :: "(string \<times> field_spec) list"
  bs_source_handles :: "string list"
  bs_target_handles :: "string list"

text \<open>\<^verbatim>\<open>_field\<close>.\<close>

definition field_of :: "string \<Rightarrow> bool \<Rightarrow> json option \<Rightarrow> json list option \<Rightarrow> field_spec" where
  "field_of kind required initial choices =
     \<lparr>fs_type = kind, fs_required = required, fs_default = initial, fs_enum = choices\<rparr>"

section \<open>The catalog\<close>

definition trigger_manual_block :: block_spec where
  "trigger_manual_block = \<lparr>bs_type = ''trigger-manual'', bs_category = ''triggers'',
     bs_config_schema = [(''inputs_schema'', field_of ''object'' False None None)],
     bs_source_handles = [''out''], bs_target_handles = []\<rparr>"

definition trigger_schedule_block :: block_spec where
  "trigger_schedule_block = \<lparr>bs_type = ''trigger-schedule'', bs_category = ''triggers'',
     bs_config_schema = [(''cron_expression'', field_of ''string'' True None None)],
     bs_source_handles = [''out''], bs_target_handles = []\<rparr>"

definition trigger_ai_block :: block_spec where
  "trigger_ai_block = \<lparr>bs_type = ''trigger-ai'', bs_category = ''triggers'',
     bs_config_schema = [(''description'', field_of ''string'' True None None)],
     bs_source_handles = [''out''], bs_target_handles = []\<rparr>"

definition trigger_event_block :: block_spec where
  "trigger_event_block = \<lparr>bs_type = ''trigger-event'', bs_category = ''triggers'',
     bs_config_schema = [(''event'', field_of ''string'' False None None)],
     bs_source_handles = [''out''], bs_target_handles = []\<rparr>"

definition mcp_tool_block :: block_spec where
  "mcp_tool_block = \<lparr>bs_type = ''mcp-tool'', bs_category = ''tools'',
     bs_config_schema = [(''mcp_name'', field_of ''string'' True None None),
       (''tool_name'', field_of ''string'' True None None),
       (''args'', field_of ''object'' False (Some (JObj [])) None),
       (''on_error'', field_of ''string'' False (Some (JStr ''halt'')) (Some [JStr ''halt'', JStr ''continue'', JStr
         ''branch'']))],
     bs_source_handles = [''out''], bs_target_handles = [''in'']\<rparr>"

definition ai_prompt_block :: block_spec where
  "ai_prompt_block = \<lparr>bs_type = ''ai-prompt'', bs_category = ''ai'',
     bs_config_schema = [(''prompt'', field_of ''string'' True None None),
       (''system'', field_of ''string'' False None None),
       (''model_override'', field_of ''string'' False None None),
       (''session_policy'', field_of ''string'' False (Some (JStr ''ephemeral'')) (Some [JStr ''ephemeral'', JStr ''shared''])),
       (''on_error'', field_of ''string'' False (Some (JStr ''halt'')) (Some [JStr ''halt'', JStr ''continue'', JStr
         ''branch'']))],
     bs_source_handles = [''out''], bs_target_handles = [''in'']\<rparr>"

definition if_block :: block_spec where
  "if_block = \<lparr>bs_type = ''if'', bs_category = ''flow'',
     bs_config_schema = [(''expression'', field_of ''string'' True None None)],
     bs_source_handles = [''true'', ''false''], bs_target_handles = [''in'']\<rparr>"

definition loop_block :: block_spec where
  "loop_block = \<lparr>bs_type = ''loop'', bs_category = ''flow'',
     bs_config_schema = [(''items_expr'', field_of ''string'' True None None),
       (''max_iterations'', field_of ''integer'' False (Some (JInt 100)) None),
       (''iteration_var'', field_of ''string'' False (Some (JStr ''item'')) None)],
     bs_source_handles = [''body'', ''done''], bs_target_handles = [''in'']\<rparr>"

definition wait_block :: block_spec where
  "wait_block = \<lparr>bs_type = ''wait'', bs_category = ''flow'',
     bs_config_schema = [(''mode'', field_of ''string'' True None (Some [JStr ''duration'', JStr ''until''])),
       (''seconds'', field_of ''number'' False None None),
       (''until_iso'', field_of ''string'' False None None)],
     bs_source_handles = [''out''], bs_target_handles = [''in'']\<rparr>"

definition parallel_block :: block_spec where
  "parallel_block = \<lparr>bs_type = ''parallel'', bs_category = ''flow'',
     bs_config_schema = [(''branches'', field_of ''integer'' False (Some (JInt 2)) None)],
     bs_source_handles = [''branch_0'', ''branch_1'', ''branch_2'', ''branch_3''], bs_target_handles = [''in'']\<rparr>"

definition merge_block :: block_spec where
  "merge_block = \<lparr>bs_type = ''merge'', bs_category = ''flow'',
     bs_config_schema = [(''strategy'', field_of ''string'' False (Some (JStr ''all'')) (Some [JStr ''all'', JStr ''first'', JStr
         ''last''])),
       (''collect_as'', field_of ''string'' False None None)],
     bs_source_handles = [''out''], bs_target_handles = [''in'']\<rparr>"

definition set_variable_block :: block_spec where
  "set_variable_block = \<lparr>bs_type = ''set-variable'', bs_category = ''utility'',
     bs_config_schema = [(''key'', field_of ''string'' True None None),
       (''value_expr'', field_of ''string'' True None None)],
     bs_source_handles = [''out''], bs_target_handles = [''in'']\<rparr>"

definition http_request_block :: block_spec where
  "http_request_block = \<lparr>bs_type = ''http-request'', bs_category = ''tools'',
     bs_config_schema = [(''method'', field_of ''string'' False (Some (JStr ''GET'')) (Some [JStr ''GET'', JStr ''POST'', JStr
         ''PUT'', JStr ''PATCH'', JStr ''DELETE'', JStr ''HEAD''])),
       (''url'', field_of ''string'' True None None),
       (''headers'', field_of ''object'' False (Some (JObj [])) None),
       (''body'', field_of ''string'' False None None),
       (''timeout_s'', field_of ''number'' False (Some (JInt 30)) None),
       (''on_error'', field_of ''string'' False (Some (JStr ''halt'')) (Some [JStr ''halt'', JStr ''continue'', JStr
         ''branch'']))],
     bs_source_handles = [''out''], bs_target_handles = [''in'']\<rparr>"

definition BLOCK_CATALOG :: "(string \<times> block_spec) list" where
  "BLOCK_CATALOG = map (\<lambda>b. (bs_type b, b))
    [trigger_manual_block, trigger_schedule_block, trigger_ai_block, trigger_event_block, mcp_tool_block, ai_prompt_block,
       if_block, loop_block, wait_block, parallel_block, merge_block, set_variable_block, http_request_block]"

definition get_block_spec :: "string \<Rightarrow> block_spec res" where
  "get_block_spec ty = (case map_of BLOCK_CATALOG ty of None \<Rightarrow> Raise KeyError | Some b \<Rightarrow> Ret b)"

lemma catalog_types: "map fst BLOCK_CATALOG = [''trigger-manual'', ''trigger-schedule'', ''trigger-ai'', ''trigger-event'',
    ''mcp-tool'', ''ai-prompt'', ''if'', ''loop'', ''wait'', ''parallel'', ''merge'', ''set-variable'', ''http-request'']"
  by code_simp

lemma catalog_keys: "map_of BLOCK_CATALOG ty = Some b \<Longrightarrow> bs_type b = ty"
  by (drule map_of_SomeD) (auto simp: BLOCK_CATALOG_def)

end
