(* ===== verification/WorkflowTemplates.thy ===== *)
theory WorkflowTemplates
  imports Contracts
begin

text \<open>
  The templates of a workflow (\<^verbatim>\<open>workflow/templating.py\<close>).  Evaluating a jinja expression and
  rendering a jinja template are parameters; which text is one placeholder, which is a template
  and which is left alone is the code's.
\<close>

section \<open>Placeholders\<close>

definition open_braces :: string where
  "open_braces = [CHR 0x7B, CHR 0x7B]"

definition close_braces :: string where
  "close_braces = [CHR 0x7D, CHR 0x7D]"

text \<open>
  \<^verbatim>\<open>_WHOLE_EXPR\<close>: the text is one placeholder but for the blanks around it; the expression is
  what is between the braces, less the blanks around it, or its last blank if it has only blanks.
\<close>

definition whole_expr :: "string \<Rightarrow> string option" where
  "whole_expr s =
     (let t = strip s; inner = take (length t - 4) (drop 2 t)
      in if take 2 t = open_braces \<and> drop (length t - 2) t = close_braces \<and> 5 \<le> length t
         then Some (if strip inner = [] then [last inner] else strip inner) else None)"

fun has_open :: "string \<Rightarrow> bool" where
  "has_open (c # d # cs) \<longleftrightarrow> (c = CHR 0x7B \<and> d = CHR 0x7B) \<or> has_open (d # cs)"
| "has_open _ \<longleftrightarrow> False"

abbreviation TemplateError :: py_error where
  "TemplateError \<equiv> OtherError ''TemplateError''"

text \<open>\<^verbatim>\<open>except Exception as exc: raise TemplateError\<close>.\<close>

definition as_template :: "'a res \<Rightarrow> 'a res" where
  "as_template r = (case r of Inl _ \<Rightarrow> Raise TemplateError | Inr x \<Rightarrow> Ret x)"

fun map_res :: "('a \<Rightarrow> 'b res) \<Rightarrow> 'a list \<Rightarrow> 'b list res" where
  "map_res f [] = Ret []"
| "map_res f (x # xs) = bind_res (f x) (\<lambda>y. bind_res (map_res f xs) (\<lambda>ys. Ret (y # ys)))"

lemma map_res_cong [fundef_cong]: "xs = ys \<Longrightarrow> (\<And>x. x \<in> set ys \<Longrightarrow> f x = g x) \<Longrightarrow> map_res f xs = map_res g ys"
  by (induction ys arbitrary: xs) auto

lemma map_res_Ret: "map_res f xs = Ret ys \<longleftrightarrow> list_all2 (\<lambda>x y. f x = Ret y) xs ys"
  by (induction xs arbitrary: ys) (auto simp: bind_res_Inr list_all2_Cons1)

function resolve_templates :: "(string \<Rightarrow> json res) \<Rightarrow> (string \<Rightarrow> string res) \<Rightarrow> json \<Rightarrow> json res" where
  "resolve_templates ev rd (JStr s) =
     (case whole_expr s of
        Some e \<Rightarrow> as_template (ev e)
      | None \<Rightarrow> if has_open s then bind_res (as_template (rd s)) (\<lambda>t. Ret (JStr t)) else Ret (JStr s))"
| "resolve_templates ev rd (JObj kvs) =
     bind_res (map_res (\<lambda>(k, v). bind_res (resolve_templates ev rd v) (\<lambda>w. Ret (k, w))) kvs) (\<lambda>ws. Ret (JObj ws))"
| "resolve_templates ev rd (JArr vs) = bind_res (map_res (resolve_templates ev rd) vs) (\<lambda>ws. Ret (JArr ws))"
| "resolve_templates ev rd JNull = Ret JNull"
| "resolve_templates ev rd (JBool b) = Ret (JBool b)"
| "resolve_templates ev rd (JInt i) = Ret (JInt i)"
| "resolve_templates ev rd (JFloat x) = Ret (JFloat x)"
  by pat_completeness auto

termination
proof (relation "measure (\<lambda>(ev, rd, v). size v)")
  fix kvs :: "(string \<times> json) list" and p and k :: string and v :: json
  assume "p \<in> set kvs" "(k, v) = p"
  then have "size v < Suc (size_list (size_prod (\<lambda>_. 0) size) kvs)"
    by (induction kvs) auto
  then show "((ev, rd, v), (ev, rd, JObj kvs)) \<in> measure (\<lambda>(ev, rd, v). size v)" for ev rd by simp
next
  fix vs :: "json list" and v :: json
  assume "v \<in> set vs"
  then have "size v < Suc (size_list size vs)" by (induction vs) auto
  then show "((ev, rd, v), (ev, rd, JArr vs)) \<in> measure (\<lambda>(ev, rd, v). size v)" for ev rd by simp
qed simp

text \<open>\<^verbatim>\<open>evaluate_expression\<close>: a value that is no text fails in the regular expression.\<close>

definition evaluate_expression :: "(string \<Rightarrow> json res) \<Rightarrow> json \<Rightarrow> json res" where
  "evaluate_expression ev v =
     (case v of
        JStr s \<Rightarrow> as_template (ev (case whole_expr s of None \<Rightarrow> s | Some e \<Rightarrow> e))
      | _ \<Rightarrow> Raise TypeError)"

section \<open>What resolving leaves alone\<close>

fun has_template :: "json \<Rightarrow> bool" where
  "has_template (JStr s) \<longleftrightarrow> whole_expr s \<noteq> None \<or> has_open s"
| "has_template (JObj kvs) \<longleftrightarrow> (\<exists>p \<in> set kvs. has_template (snd p))"
| "has_template (JArr vs) \<longleftrightarrow> (\<exists>v \<in> set vs. has_template v)"
| "has_template _ \<longleftrightarrow> False"

text \<open>
  resolving changes nothing in a value without placeholders, whatever the expressions would
  evaluate to, and keeps the keys of an object and the length of a list.
\<close>
theorem resolve_shape:
  shows "(\<not> has_template v \<longrightarrow> resolve_templates ev rd v = Ret v) \<and>
    (\<forall>kvs w. v = JObj kvs \<and> resolve_templates ev rd v = Ret w \<longrightarrow> (\<exists>ws. w = JObj ws \<and> map fst ws = map fst kvs)) \<and>
    (\<forall>vs w. v = JArr vs \<and> resolve_templates ev rd v = Ret w \<longrightarrow> (\<exists>ws. w = JArr ws \<and> length ws = length vs))"
proof -
  have "\<not> has_template v \<Longrightarrow> resolve_templates ev rd v = Ret v"
  proof (induction ev rd v rule: resolve_templates.induct)
    case (2 ev rd kvs)
    have "map_res (\<lambda>(k, v). bind_res (resolve_templates ev rd v) (\<lambda>w. Ret (k, w))) kvs = Ret kvs"
      unfolding map_res_Ret using 2 by (fastforce simp: list_all2_same)
    then show ?case by simp
  next
    case (3 ev rd vs)
    have "map_res (resolve_templates ev rd) vs = Ret vs" unfolding map_res_Ret using 3 by (simp add: list_all2_same)
    then show ?case by simp
  qed (auto split: option.splits)
  moreover have "map fst ws = map fst kvs"
    if "map_res (\<lambda>(k, v). bind_res (resolve_templates ev rd v) (\<lambda>w. Ret (k, w))) kvs = Ret ws" for kvs ws
    using that unfolding map_res_Ret by (induction rule: list_all2_induct) (auto simp: bind_res_Inr)
  moreover have "length ws = length vs" if "map_res (resolve_templates ev rd) vs = Ret ws" for vs ws
    using that unfolding map_res_Ret by (simp add: list_all2_lengthD)
  ultimately show ?thesis by (auto simp: bind_res_Inr)
qed

theorem resolve_shape_witness:
  "resolve_templates (\<lambda>_. Raise KeyError) (\<lambda>_. Raise KeyError) (JObj [(''a'', JStr ''x {y'')]) = Ret (JObj [(''a'', JStr ''x {y'')])"
proof -
  have "\<not> has_template (JObj [(''a'', JStr ''x {y'')])" by code_simp
  with resolve_shape [of "JObj [(''a'', JStr ''x {y'')]" "\<lambda>_. Raise KeyError" "\<lambda>_. Raise KeyError"] show ?thesis by blast
qed

end
