(* ===== verification/WorkflowValidate.thy ===== *)
theory WorkflowValidate
  imports WorkflowBlocks
begin

text \<open>
  The validator of workflow graphs (\<^verbatim>\<open>workflow/validate.py\<close>): the checks of the nodes with
  the repairs they make in place, the checks of the edges, and the search for cycles with its
  explicit stack.  A graph is the JSON value it is stored as.  A check that repairs returns the
  repaired value beside its result, also when it raises.  Of an error the node and the field are
  kept, not the text; the inventory of tools, their callability and the errors of their servers
  come from the host.
\<close>

section \<open>Configuration fields\<close>

text \<open>\<^verbatim>\<open>str.isalnum\<close> for one character below 256.\<close>

definition py_alnum :: "char \<Rightarrow> bool" where
  "py_alnum c \<longleftrightarrow> (let n = (of_char c :: nat) in
     48 \<le> n \<and> n \<le> 57 \<or> 65 \<le> n \<and> n \<le> 90 \<or> 97 \<le> n \<and> n \<le> 122
     \<or> n \<in> {170, 178, 179, 181, 185, 186, 188, 189, 190} \<or> 192 \<le> n \<and> n \<noteq> 215 \<and> n \<noteq> 247)"

definition safe_prefix :: "string \<Rightarrow> string" where
  "safe_prefix name = map (\<lambda>c. if py_alnum c \<or> c = CHR ''_'' then c else CHR ''_'') name"

text \<open>\<^verbatim>\<open>config.get(key) in (None, "")\<close>.\<close>

definition unset :: "json option \<Rightarrow> bool" where
  "unset v \<longleftrightarrow> v = None \<or> v = Some JNull \<or> v = Some (JStr [])"

text \<open>\<^verbatim>\<open>isinstance(value, type_map.get(expected))\<close>; a Boolean is an \<^verbatim>\<open>int\<close> in Python.\<close>

definition type_ok :: "string \<Rightarrow> json \<Rightarrow> bool" where
  "type_ok expected v =
     (if expected = ''string'' then (case v of JStr _ \<Rightarrow> True | _ \<Rightarrow> False)
      else if expected = ''integer'' then (case v of JInt _ \<Rightarrow> True | JBool _ \<Rightarrow> True | _ \<Rightarrow> False)
      else if expected = ''number'' then (case v of JInt _ \<Rightarrow> True | JFloat _ \<Rightarrow> True | JBool _ \<Rightarrow> True | _ \<Rightarrow> False)
      else if expected = ''object'' then (case v of JObj _ \<Rightarrow> True | _ \<Rightarrow> False)
      else if expected = ''array'' then (case v of JArr _ \<Rightarrow> True | _ \<Rightarrow> False)
      else if expected = ''boolean'' then (case v of JBool _ \<Rightarrow> True | _ \<Rightarrow> False)
      else True)"

definition enum_ok :: "json list option \<Rightarrow> json \<Rightarrow> bool" where
  "enum_ok choices v = (case choices of None \<Rightarrow> True | Some vs \<Rightarrow> v \<in> set vs)"

fun check_config :: "string \<Rightarrow> (string \<times> field_spec) list \<Rightarrow> (string \<times> json) list \<Rightarrow> unit res" where
  "check_config nid [] config = Ret ()"
| "check_config nid ((key, fs) # schema) config =
     (if fs_required fs \<and> unset (map_of config key) then Raise (ValidationError (Some nid) (Some key))
      else case map_of config key of
        None \<Rightarrow> check_config nid schema config
      | Some JNull \<Rightarrow> check_config nid schema config
      | Some v \<Rightarrow>
          if \<not> enum_ok (fs_enum fs) v then Raise (ValidationError (Some nid) (Some key))
          else if \<not> type_ok (fs_type fs) v then Raise (ValidationError (Some nid) (Some key))
          else check_config nid schema config)"

section \<open>Tools\<close>

type_synonym tool_inventory = "(string \<times> (string \<times> json) list) list"
type_synonym tool_callability = "(string \<times> (string \<times> bool) list) list"

text \<open>The two repairs of the tool's name: add the prefix of the server, or drop a doubled one.\<close>

definition repair_tool :: "(string \<times> json) list \<Rightarrow> string \<Rightarrow> string \<Rightarrow> string option" where
  "repair_tool tools mcp tool =
     (let prefix = safe_prefix mcp @ ''_'' in
      if prefix @ tool \<in> set (map fst tools) then Some (prefix @ tool)
      else if take (length prefix) tool = prefix \<and> drop (length prefix) tool \<in> set (map fst tools)
        then Some (drop (length prefix) tool)
      else None)"

text \<open>A value used as a member of a set or as a key of a dictionary must be hashable.\<close>

definition hashable :: "json option \<Rightarrow> bool" where
  "hashable v = (case v of Some (JArr _) \<Rightarrow> False | Some (JObj _) \<Rightarrow> False | _ \<Rightarrow> True)"

definition arg_missing :: "(string \<times> json) list \<Rightarrow> json \<Rightarrow> bool" where
  "arg_missing args k = (case k of JStr n \<Rightarrow> unset (map_of args n) | _ \<Rightarrow> True)"

definition check_args :: "string \<Rightarrow> json \<Rightarrow> (string \<times> json) list \<Rightarrow> unit res" where
  "check_args nid schema args =
     (case jget ''required'' schema of
        Some (JArr ks) \<Rightarrow>
          if \<exists>k \<in> set ks. \<not> hashable (Some k) then Raise TypeError
          else if \<exists>k \<in> set ks. arg_missing args k then Raise (ValidationError (Some nid) (Some ''args'')) else Ret ()
      | _ \<Rightarrow> Ret ())"

text \<open>\<^verbatim>\<open>config.get("args") or {}\<close>, if it is an object.\<close>

definition tool_args :: "(string \<times> json) list \<Rightarrow> (string \<times> json) list option" where
  "tool_args config =
     (case map_of config ''args'' of
        None \<Rightarrow> Some []
      | Some v \<Rightarrow> if \<not> jtruthy v then Some [] else (case v of JObj a \<Rightarrow> Some a | _ \<Rightarrow> None))"

text \<open>What follows once the tool is known: it is callable, and its required arguments are set.\<close>

definition check_tool_use ::
  "string \<Rightarrow> tool_callability option \<Rightarrow> (string \<times> json) list \<Rightarrow> string \<Rightarrow> string \<Rightarrow> (string \<times> json) list \<Rightarrow> unit res" where
  "check_tool_use nid callability tools mcp tool config =
     (let per = (case Option.bind callability (\<lambda>c. map_of c mcp) of None \<Rightarrow> [] | Some p \<Rightarrow> p) in
      if map_of per tool = Some False then Raise (ValidationError (Some nid) (Some ''tool_name''))
      else case tool_args config of
        None \<Rightarrow> Ret ()
      | Some args \<Rightarrow> check_args nid (case map_of tools tool of None \<Rightarrow> JObj [] | Some s \<Rightarrow> s) args)"

definition check_mcp_tool ::
  "string \<Rightarrow> (string \<times> json) list \<Rightarrow> tool_inventory \<Rightarrow> tool_callability option \<Rightarrow> unit res \<times> (string \<times> json) list" where
  "check_mcp_tool nid config inventory callability =
     (case (map_of config ''mcp_name'', map_of config ''tool_name'') of
        (Some (JStr mcp), Some (JStr tool)) \<Rightarrow>
          (case map_of inventory mcp of
             None \<Rightarrow> (Raise (ValidationError (Some nid) (Some ''mcp_name'')), config)
           | Some tools \<Rightarrow>
               if tool \<in> set (map fst tools) then (check_tool_use nid callability tools mcp tool config, config)
               else (case repair_tool tools mcp tool of
                   Some tool' \<Rightarrow>
                     let config' = AList.update ''tool_name'' (JStr tool') config
                     in (check_tool_use nid callability tools mcp tool' config', config')
                 | None \<Rightarrow>
                     (Raise (ValidationError (Some nid) (Some (if tools = [] then ''mcp_name'' else ''tool_name''))), config)))
      | _ \<Rightarrow> (Ret (), config))"

section \<open>Nodes and edges\<close>

definition block_of :: "string \<Rightarrow> json option \<Rightarrow> block_spec res" where
  "block_of nid ty =
     (if \<not> hashable ty then Raise TypeError
      else case ty of
        Some (JStr t) \<Rightarrow>
          (case map_of BLOCK_CATALOG t of None \<Rightarrow> Raise (ValidationError (Some nid) (Some ''type'')) | Some b \<Rightarrow> Ret b)
      | _ \<Rightarrow> Raise (ValidationError (Some nid) (Some ''type'')))"

text \<open>\<^verbatim>\<open>node.get("config") or {}\<close>.\<close>

definition node_config :: "string \<Rightarrow> (string \<times> json) list \<Rightarrow> (string \<times> json) list res" where
  "node_config nid node =
     (case map_of node ''config'' of
        None \<Rightarrow> Ret []
      | Some v \<Rightarrow>
          if \<not> jtruthy v then Ret []
          else (case v of JObj c \<Rightarrow> Ret c | _ \<Rightarrow> Raise (ValidationError (Some nid) (Some ''config''))))"

text \<open>The repair of the argument key, which MCP spells \<^verbatim>\<open>arguments\<close>.\<close>

definition repair_args :: "string \<Rightarrow> (string \<times> json) list \<Rightarrow> (string \<times> json) list" where
  "repair_args ty config =
     (case map_of config ''arguments'' of
        Some (JObj a) \<Rightarrow>
          if ty = ''mcp-tool'' \<and> map_of config ''args'' = None
          then AList.update ''args'' (JObj a) (AList.delete ''arguments'' config) else config
      | _ \<Rightarrow> config)"

definition check_block ::
  "tool_inventory option \<Rightarrow> tool_callability option \<Rightarrow> string \<Rightarrow> block_spec \<Rightarrow> (string \<times> json) list \<Rightarrow> unit res \<times> (string \<times> json) list" where
  "check_block inventory callability nid spec config =
     (let config' = repair_args (bs_type spec) config in
      case check_config nid (bs_config_schema spec) config' of
        Inl e \<Rightarrow> (Raise e, config')
      | Inr _ \<Rightarrow>
          (case inventory of
             Some tools \<Rightarrow> if bs_type spec = ''mcp-tool'' then check_mcp_tool nid config' tools callability else (Ret (), config')
           | None \<Rightarrow> (Ret (), config')))"

text \<open>One node: its id and, when its configuration was an object, the repaired node.\<close>

definition validate_node ::
  "tool_inventory option \<Rightarrow> tool_callability option \<Rightarrow> string list \<Rightarrow> json \<Rightarrow> string res \<times> json" where
  "validate_node inventory callability seen node =
     (case node of
        JObj kvs \<Rightarrow>
          (case map_of kvs ''id'' of
             Some (JStr nid) \<Rightarrow>
               if nid = [] then (Raise (ValidationError None None), node)
               else if nid \<in> set seen then (Raise (ValidationError (Some nid) None), node)
               else (case block_of nid (map_of kvs ''type'') of
                   Inl e \<Rightarrow> (Raise e, node)
                 | Inr spec \<Rightarrow>
                     (case node_config nid kvs of
                        Inl e \<Rightarrow> (Raise e, node)
                      | Inr config \<Rightarrow>
                          (case check_block inventory callability nid spec config of
                             (r, config') \<Rightarrow>
                               (case r of Inl e \<Rightarrow> Raise e | Inr _ \<Rightarrow> Ret nid,
                                if config = [] then node else JObj (AList.update ''config'' (JObj config') kvs)))))
           | _ \<Rightarrow> (Raise (ValidationError None None), node))
      | _ \<Rightarrow> (Raise (ValidationError None None), node))"

fun validate_nodes ::
  "tool_inventory option \<Rightarrow> tool_callability option \<Rightarrow> string list \<Rightarrow> json list \<Rightarrow> string list res \<times> json list" where
  "validate_nodes inventory callability seen [] = (Ret seen, [])"
| "validate_nodes inventory callability seen (n # ns) =
     (case validate_node inventory callability seen n of
        (Inl e, n') \<Rightarrow> (Raise e, n' # ns)
      | (Inr nid, n') \<Rightarrow>
          (case validate_nodes inventory callability (seen @ [nid]) ns of (r, ns') \<Rightarrow> (r, n' # ns')))"

text \<open>\<^verbatim>\<open>src not in seen_ids\<close>, which raises for an unhashable value.\<close>

definition known_end :: "string list \<Rightarrow> json option \<Rightarrow> unit res" where
  "known_end ids v =
     (if \<not> hashable v then Raise TypeError
      else case v of
        Some (JStr n) \<Rightarrow> if n \<in> set ids then Ret () else Raise (ValidationError None None)
      | _ \<Rightarrow> Raise (ValidationError None None))"

fun validate_edges :: "string list \<Rightarrow> json list \<Rightarrow> unit res" where
  "validate_edges ids [] = Ret ()"
| "validate_edges ids (e # es) =
     (case e of
        JObj kvs \<Rightarrow>
          bind_res (known_end ids (map_of kvs ''source'')) (\<lambda>_.
          bind_res (known_end ids (map_of kvs ''target'')) (\<lambda>_. validate_edges ids es))
      | _ \<Rightarrow> Raise (ValidationError None None))"

section \<open>Cycles\<close>

text \<open>An edge as the walks read it: \<^verbatim>\<open>e.get("sourceHandle") or "out"\<close>.\<close>

record wedge =
  eg_source :: string
  eg_target :: string
  eg_handle :: json

definition handle_of :: "json option \<Rightarrow> json" where
  "handle_of v = (case v of None \<Rightarrow> JStr ''out'' | Some h \<Rightarrow> if jtruthy h then h else JStr ''out'')"

definition edge_of :: "json \<Rightarrow> wedge option" where
  "edge_of e = (case (jget ''source'' e, jget ''target'' e) of
     (Some (JStr s), Some (JStr t)) \<Rightarrow> Some \<lparr>eg_source = s, eg_target = t, eg_handle = handle_of (jget ''sourceHandle'' e)\<rparr>
   | _ \<Rightarrow> None)"

definition node_id :: "json \<Rightarrow> string" where
  "node_id n = (case jget ''id'' n of Some (JStr i) \<Rightarrow> i | _ \<Rightarrow> [])"

datatype colour = White | Gray | Black

text \<open>The successors of a node in the order of the edges, without the ends that are no nodes.\<close>

definition adjacent :: "string list \<Rightarrow> wedge list \<Rightarrow> string \<Rightarrow> (string \<times> json) list" where
  "adjacent ids es n = [(eg_target e, eg_handle e). e \<leftarrow> es, eg_source e = n \<and> n \<in> set ids \<and> eg_target e \<in> set ids]"

text \<open>The edge of a loop to itself by its \<^verbatim>\<open>body\<close> handle is exempt.\<close>

definition exempt :: "(string \<Rightarrow> bool) \<Rightarrow> string \<Rightarrow> string \<Rightarrow> json \<Rightarrow> bool" where
  "exempt is_loop a b h \<longleftrightarrow> is_loop a \<and> h = JStr ''body'' \<and> b = a"

text \<open>Every step turns a white node gray, or looks at one more successor, or leaves a node.\<close>

definition white_targets :: "wedge list \<Rightarrow> (string \<Rightarrow> colour) \<Rightarrow> nat" where
  "white_targets es colour = card {m \<in> set (map eg_target es). colour m = White}"

definition dfs_work :: "string list \<Rightarrow> wedge list \<Rightarrow> (string \<times> nat) list \<Rightarrow> nat" where
  "dfs_work ids es stack = (\<Sum>(n, i)\<leftarrow>stack. Suc (length (adjacent ids es n) - i))"

lemma white_targets_black: "white_targets es (colour(n := Black)) \<le> white_targets es colour"
  unfolding white_targets_def by (rule card_mono) auto

lemma white_targets_gray:
  assumes "\<not> length (adjacent ids es n) \<le> i" "(m, h) = adjacent ids es n ! i" "colour m = White"
  shows "white_targets es (colour(m := Gray)) < white_targets es colour"
proof -
  from assms have "(m, h) \<in> set (adjacent ids es n)" by (metis nth_mem not_le)
  then have "m \<in> set (map eg_target es)" by (auto simp: adjacent_def)
  with assms(3) show ?thesis unfolding white_targets_def by (intro psubset_card_mono) auto
qed

text \<open>
  The loop over the stack of \<^verbatim>\<open>dfs\<close>: a node on it with the number of its successors that
  have been looked at.
\<close>

function dfs ::
  "string list \<Rightarrow> wedge list \<Rightarrow> (string \<Rightarrow> bool) \<Rightarrow> (string \<Rightarrow> colour) \<Rightarrow> (string \<times> nat) list \<Rightarrow> (string \<Rightarrow> colour) res" where
  "dfs ids es is_loop colour [] = Ret colour"
| "dfs ids es is_loop colour ((n, i) # stack) =
     (if length (adjacent ids es n) \<le> i then dfs ids es is_loop (colour(n := Black)) stack
      else
        let (m, h) = adjacent ids es n ! i in
        if exempt is_loop n m h then dfs ids es is_loop colour ((n, Suc i) # stack)
        else if colour m = Gray then Raise (ValidationError (Some m) None)
        else if colour m = White then dfs ids es is_loop (colour(m := Gray)) ((m, 0) # (n, Suc i) # stack)
        else dfs ids es is_loop colour ((n, Suc i) # stack))"
  by pat_completeness auto

termination
  by (relation "measures [\<lambda>(ids, es, is_loop, colour, stack). white_targets es colour,
        \<lambda>(ids, es, is_loop, colour, stack). dfs_work ids es stack]")
    (use white_targets_black white_targets_gray in \<open>auto simp: dfs_work_def order.order_iff_strict\<close>)

fun dfs_all ::
  "string list \<Rightarrow> wedge list \<Rightarrow> (string \<Rightarrow> bool) \<Rightarrow> (string \<Rightarrow> colour) \<Rightarrow> string list \<Rightarrow> (string \<Rightarrow> colour) res" where
  "dfs_all ids es is_loop colour [] = Ret colour"
| "dfs_all ids es is_loop colour (n # ns) =
     (if colour n = White then
        bind_res (dfs ids es is_loop (colour(n := Gray)) [(n, 0)]) (\<lambda>c. dfs_all ids es is_loop c ns)
      else dfs_all ids es is_loop colour ns)"

definition loop_node :: "json list \<Rightarrow> string \<Rightarrow> bool" where
  "loop_node nodes n \<longleftrightarrow> (case map_of (rev (map (\<lambda>x. (node_id x, x)) nodes)) n of
     None \<Rightarrow> False | Some x \<Rightarrow> jget ''type'' x = Some (JStr ''loop''))"

definition detect_cycle :: "json list \<Rightarrow> json list \<Rightarrow> unit res" where
  "detect_cycle nodes edges =
     bind_res (dfs_all (map node_id nodes) (List.map_filter edge_of edges) (loop_node nodes) (\<lambda>_. White) (map node_id nodes))
       (\<lambda>_. Ret ())"

section \<open>The graph\<close>

text \<open>\<^verbatim>\<open>graph.get(key) or []\<close>, which must be a list.\<close>

definition graph_list :: "string \<Rightarrow> (string \<times> json) list \<Rightarrow> json list res" where
  "graph_list key g =
     (case map_of g key of
        None \<Rightarrow> Ret []
      | Some v \<Rightarrow> if \<not> jtruthy v then Ret [] else (case v of JArr xs \<Rightarrow> Ret xs | _ \<Rightarrow> Raise (ValidationError None None)))"

definition validate_graph ::
  "tool_inventory option \<Rightarrow> tool_callability option \<Rightarrow> json \<Rightarrow> unit res \<times> json" where
  "validate_graph inventory callability graph =
     (case graph of
        JObj g \<Rightarrow>
          (case (graph_list ''nodes'' g, graph_list ''edges'' g) of
             (Inr nodes, Inr edges) \<Rightarrow>
               (case validate_nodes inventory callability [] nodes of
                  (r, nodes') \<Rightarrow>
                    (bind_res r (\<lambda>ids. bind_res (validate_edges ids edges) (\<lambda>_. detect_cycle nodes' edges)),
                     if nodes = [] then graph else JObj (AList.update ''nodes'' (JArr nodes') g)))
           | _ \<Rightarrow> (Raise (ValidationError None None), graph))
      | _ \<Rightarrow> (Raise (ValidationError None None), graph))"

section \<open>What the host's tool pool offers\<close>

text \<open>
  \<^verbatim>\<open>mcp_inventory_from_pool\<close> over the listing the pool returned, \<^verbatim>\<open>None\<close> when it has none.
  An entry that is no object raises.
\<close>

definition tool_meta :: "json \<Rightarrow> (string \<times> json) option" where
  "tool_meta t = (case jget ''name'' t of
     Some (JStr n) \<Rightarrow> Some (n, case jget ''parameters_schema'' t of None \<Rightarrow> JObj [] | Some s \<Rightarrow> if jtruthy s then s else JObj [])
   | _ \<Rightarrow> None)"

definition put_all :: "('k \<times> 'v) list \<Rightarrow> ('k \<times> 'v) list \<Rightarrow> ('k \<times> 'v) list" where
  "put_all kvs d = fold (\<lambda>(k, v). AList.update k v) kvs d"

fun inventory_of :: "json list \<Rightarrow> tool_inventory \<Rightarrow> tool_inventory res" where
  "inventory_of [] out = Ret out"
| "inventory_of (entry # rest) out =
     (case entry of
        JObj kvs \<Rightarrow>
          (case map_of kvs ''mcp_name'' of
             Some (JStr name) \<Rightarrow>
               (case map_of kvs ''tools'' of
                  Some (JArr ts) \<Rightarrow> inventory_of rest (AList.update name (put_all (List.map_filter tool_meta ts) []) out)
                | Some v \<Rightarrow> if jtruthy v then Raise TypeError else inventory_of rest (AList.update name [] out)
                | None \<Rightarrow> inventory_of rest (AList.update name [] out))
           | _ \<Rightarrow> inventory_of rest out)
      | _ \<Rightarrow> Raise (OtherError ''AttributeError''))"

definition mcp_inventory_from_pool :: "json list res option \<Rightarrow> tool_inventory option res" where
  "mcp_inventory_from_pool pool =
     (case pool of
        None \<Rightarrow> Ret None
      | Some (Inl _) \<Rightarrow> Ret None
      | Some (Inr listing) \<Rightarrow> bind_res (inventory_of listing []) (\<lambda>inv. Ret (Some inv)))"

text \<open>A toolkit's functions with whether the function, or its entry point, can be called.\<close>

definition mcp_callability_from_pool ::
  "(string \<times> (string \<times> bool \<times> bool) list \<times> (string \<times> bool \<times> bool) list) list option \<Rightarrow> tool_callability option" where
  "mcp_callability_from_pool pool = map_option (map (\<lambda>(mcp, sync, async).
     (mcp, map (\<lambda>(tool, entrypoint, direct). (tool, entrypoint \<or> direct)) (put_all async (put_all sync []))))) pool"

definition mcp_errors_from_pool :: "(string \<times> string) list option \<Rightarrow> (string \<times> string) list option" where
  "mcp_errors_from_pool pool = map_option (filter (\<lambda>(_, v). v \<noteq> [])) pool"

section \<open>The search finds a cycle exactly when there is one\<close>

definition flow_edges :: "string list \<Rightarrow> wedge list \<Rightarrow> (string \<Rightarrow> bool) \<Rightarrow> (string \<times> string) set" where
  "flow_edges ids es is_loop = {(a, b). \<exists>h. (b, h) \<in> set (adjacent ids es a) \<and> \<not> exempt is_loop a b h}"

text \<open>
  The stack is a path, and what a node on it has looked at is exempt, finished, or the node above.
\<close>

fun stacked ::
  "string list \<Rightarrow> wedge list \<Rightarrow> (string \<Rightarrow> bool) \<Rightarrow> (string \<Rightarrow> colour) \<Rightarrow> string option \<Rightarrow> (string \<times> nat) list \<Rightarrow> bool" where
  "stacked ids es is_loop colour up [] = True"
| "stacked ids es is_loop colour up ((n, i) # stack) =
     ((\<forall>k < min i (length (adjacent ids es n)). case adjacent ids es n ! k of (b, h) \<Rightarrow>
          exempt is_loop n b h \<or> colour b = Black \<or> Some b = up)
      \<and> (\<forall>m. up = Some m \<longrightarrow> (n, m) \<in> flow_edges ids es is_loop)
      \<and> stacked ids es is_loop colour (Some n) stack)"

definition dfs_inv ::
  "string list \<Rightarrow> wedge list \<Rightarrow> (string \<Rightarrow> bool) \<Rightarrow> (string \<Rightarrow> colour) \<Rightarrow> (string \<times> nat) list \<Rightarrow> bool" where
  "dfs_inv ids es is_loop colour stack \<longleftrightarrow>
     distinct (map fst stack) \<and> (\<forall>m. colour m = Gray \<longleftrightarrow> m \<in> fst ` set stack)
     \<and> (\<forall>a b. (a, b) \<in> flow_edges ids es is_loop \<longrightarrow> colour a = Black \<longrightarrow> colour b = Black)
     \<and> acyclic {(a, b) \<in> flow_edges ids es is_loop. colour a = Black}
     \<and> stacked ids es is_loop colour None stack"

lemma stacked_mono:
  "stacked ids es l c up st \<Longrightarrow> (\<And>b. c b = Black \<Longrightarrow> c' b = Black) \<Longrightarrow> stacked ids es l c' up st"
  by (induction ids es l c up st rule: stacked.induct) (fastforce split: prod.splits)+

lemma stacked_pop:
  "stacked ids es l c (Some n) st \<Longrightarrow> stacked ids es l (c(n := Black)) None st"
  by (cases st) (auto elim!: stacked_mono split: prod.splits, fastforce)

lemma stacked_path:
  "stacked ids es l c (Some m) st \<Longrightarrow> n \<in> fst ` set st \<Longrightarrow> (n, m) \<in> (flow_edges ids es l)\<^sup>+"
proof (induction st arbitrary: m)
  case (Cons x st)
  obtain k i where x: "x = (k, i)" by fastforce
  with Cons.prems have step: "(k, m) \<in> flow_edges ids es l" and st: "stacked ids es l c (Some k) st" by auto
  show ?case
  proof (cases "n = k")
    case False
    with Cons.prems x have "n \<in> fst ` set st" by auto
    from Cons.IH [OF st this] step show ?thesis by (rule trancl_into_trancl)
  qed (use step in auto)
qed simp

lemma acyclic_add_source:
  assumes R: "acyclic R" "\<And>a b. (a, b) \<in> R \<Longrightarrow> a \<noteq> n \<and> b \<noteq> n" and S: "\<And>a b. (a, b) \<in> S \<Longrightarrow> a = n \<and> b \<noteq> n"
  shows "acyclic (R \<union> S)"
proof -
  have "y \<noteq> n \<and> (x \<noteq> n \<longrightarrow> (x, y) \<in> R\<^sup>+)" if "(x, y) \<in> (R \<union> S)\<^sup>+" for x y
    using that by (induction rule: trancl_induct) (use R(2) S in \<open>auto intro: trancl_into_trancl\<close>)
  with R(1) show ?thesis unfolding acyclic_def by blast
qed

lemma dfs_inv_pop:
  assumes inv: "dfs_inv ids es l c ((n, i) # st)" and all: "length (adjacent ids es n) \<le> i"
  shows "dfs_inv ids es l (c(n := Black)) st"
proof -
  let ?E = "flow_edges ids es l"
  from inv have gray: "c n = Gray" and st: "distinct (map fst st)" "n \<notin> fst ` set st"
    and closed: "\<And>a b. (a, b) \<in> ?E \<Longrightarrow> c a = Black \<Longrightarrow> c b = Black"
    and acyc: "acyclic {(a, b) \<in> ?E. c a = Black}"
    and stacked: "stacked ids es l c None ((n, i) # st)" and grays: "\<forall>m. c m = Gray \<longleftrightarrow> m \<in> fst ` set ((n, i) # st)"
    unfolding dfs_inv_def by auto
  have succ: "c b = Black" if "(n, b) \<in> ?E" for b
  proof -
    from that obtain h where h: "(b, h) \<in> set (adjacent ids es n)" "\<not> exempt l n b h" by (auto simp: flow_edges_def)
    then obtain k where "k < length (adjacent ids es n)" "adjacent ids es n ! k = (b, h)" by (auto simp: in_set_conv_nth)
    with stacked all h(2) show ?thesis by (force split: prod.splits)
  qed
  have "{(a, b) \<in> ?E. (c(n := Black)) a = Black} = {(a, b) \<in> ?E. c a = Black} \<union> {(a, b) \<in> ?E. a = n}" by auto
  moreover have "acyclic ({(a, b) \<in> ?E. c a = Black} \<union> {(a, b) \<in> ?E. a = n})"
    by (rule acyclic_add_source [OF acyc, where n = n]) (use gray closed succ in \<open>fastforce+\<close>)
  moreover have "(c(n := Black)) b = Black" if "(a, b) \<in> ?E" "(c(n := Black)) a = Black" for a b
    using that closed [of a b] succ [of b] by (cases "a = n") auto
  moreover have "(c(n := Black)) m = Gray \<longleftrightarrow> m \<in> fst ` set st" for m
    using grays st(2) gray by (cases "m = n") auto
  moreover have "stacked ids es l (c(n := Black)) None st" using stacked by (auto intro: stacked_pop)
  ultimately show ?thesis
    unfolding dfs_inv_def using st(1) by simp
qed

lemma dfs_inv_skip:
  assumes inv: "dfs_inv ids es l c ((n, i) # st)" and i: "adjacent ids es n ! i = (m, h)"
    and "exempt l n m h \<or> c m = Black"
  shows "dfs_inv ids es l c ((n, Suc i) # st)"
  using assms unfolding dfs_inv_def by (auto simp: less_Suc_eq min_def split: prod.splits if_splits)

lemma dfs_inv_push:
  assumes inv: "dfs_inv ids es l c ((n, i) # st)" and i: "i < length (adjacent ids es n)" "adjacent ids es n ! i = (m, h)"
    and "\<not> exempt l n m h" and white: "c m = White"
  shows "dfs_inv ids es l (c(m := Gray)) ((m, 0) # (n, Suc i) # st)"
proof -
  let ?E = "flow_edges ids es l"
  have "(n, m) \<in> ?E" using assms(2-4) unfolding flow_edges_def by (force intro: nth_mem simp flip: i(2))
  moreover have "stacked ids es l (c(m := Gray)) (Some m) ((n, Suc i) # st)"
  proof -
    from inv have "stacked ids es l c None ((n, i) # st)" by (simp add: dfs_inv_def)
    then have "stacked ids es l (c(m := Gray)) None ((n, i) # st)" by (rule stacked_mono) (use white in auto)
    with i \<open>(n, m) \<in> ?E\<close> show ?thesis by (auto simp: less_Suc_eq min_def split: prod.splits if_splits)
  qed
  moreover have "{(a, b) \<in> ?E. (c(m := Gray)) a = Black} = {(a, b) \<in> ?E. c a = Black}"
    using white by (auto split: if_splits)
  moreover have "(c(m := Gray)) b = Black" if "(a, b) \<in> ?E" "(c(m := Gray)) a = Black" for a b
    using that inv white by (auto simp: dfs_inv_def split: if_splits)
  moreover have "m \<notin> fst ` set ((n, i) # st)" using inv white unfolding dfs_inv_def by (metis colour.distinct(1))
  then have "distinct (map fst ((m, 0 :: nat) # (n, Suc i) # st))"
    "(c(m := Gray)) k = Gray \<longleftrightarrow> k \<in> fst ` set ((m, 0 :: nat) # (n, Suc i) # st)" for k
    using inv unfolding dfs_inv_def by auto
  ultimately show ?thesis
    using inv unfolding dfs_inv_def by simp
qed

lemma dfs_correct:
  assumes "dfs_inv ids es l c st"
  shows "case dfs ids es l c st of
      Inl e \<Rightarrow> \<not> acyclic (flow_edges ids es l) \<and> (\<exists>m. e = ValidationError (Some m) None)
    | Inr c' \<Rightarrow> dfs_inv ids es l c' [] \<and> (\<forall>m. c m \<noteq> White \<longrightarrow> c' m \<noteq> White)"
  using assms
proof (induction ids es l c st rule: dfs.induct)
  case (2 ids es l c n i st)
  note inv = 2(5)
  show ?case
  proof (cases "length (adjacent ids es n) \<le> i")
    case True
    have "(c(n := Black)) k \<noteq> White" if "c k \<noteq> White" for k using that by simp
    with 2(1) [OF True dfs_inv_pop [OF inv True]] True show ?thesis by (auto split: sum.splits simp del: fun_upd_apply)
  next
    case False
    obtain m h where mh: "adjacent ids es n ! i = (m, h)" by fastforce
    consider "exempt l n m h" | "\<not> exempt l n m h" "c m = Gray" | "\<not> exempt l n m h" "c m = White" | "\<not> exempt l n m h" "c m = Black"
      by (cases "c m") auto
    then show ?thesis
    proof cases
      case 1
      with 2(2) [OF False mh [symmetric] refl] dfs_inv_skip [OF inv mh] False mh show ?thesis by simp
    next
      case gray: 2
      have "(n, m) \<in> flow_edges ids es l"
        using False gray(1) mh unfolding flow_edges_def by (force intro: nth_mem simp flip: mh)
      moreover have "m = n \<or> (m, n) \<in> (flow_edges ids es l)\<^sup>+"
      proof -
        from inv gray(2) have "m \<in> fst ` set ((n, i) # st)" "stacked ids es l c (Some n) st" by (auto simp: dfs_inv_def)
        with stacked_path [OF this(2), of m] show ?thesis by auto
      qed
      ultimately have "(m, m) \<in> (flow_edges ids es l)\<^sup>+" by (auto intro: trancl_into_trancl)
      then have "\<not> acyclic (flow_edges ids es l)" by (auto simp: acyclic_def)
      with False mh gray show ?thesis by simp
    next
      case white: 3
      have "(c(m := Gray)) k \<noteq> White" if "c k \<noteq> White" for k using that by simp
      with 2(3) [OF False mh [symmetric] refl] dfs_inv_push [OF inv _ mh] white False mh show ?thesis
        by (auto split: sum.splits simp del: fun_upd_apply)
    next
      case 4
      with 2(4) [OF False mh [symmetric] refl] dfs_inv_skip [OF inv mh] False mh show ?thesis by simp
    qed
  qed
qed simp

lemma dfs_inv_start:
  assumes "dfs_inv ids es l c []" "c n = White"
  shows "dfs_inv ids es l (c(n := Gray)) [(n, 0)]"
proof -
  have "{(a, b) \<in> flow_edges ids es l. (c(n := Gray)) a = Black} = {(a, b) \<in> flow_edges ids es l. c a = Black}"
    using assms(2) by (auto split: if_splits)
  with assms show ?thesis unfolding dfs_inv_def by auto
qed

lemma dfs_all_correct:
  assumes "dfs_inv ids es l c []"
  shows "case dfs_all ids es l c ns of
      Inl e \<Rightarrow> \<not> acyclic (flow_edges ids es l) \<and> (\<exists>m. e = ValidationError (Some m) None)
    | Inr c' \<Rightarrow> dfs_inv ids es l c' [] \<and> (\<forall>m. c m \<noteq> White \<or> m \<in> set ns \<longrightarrow> c' m \<noteq> White)"
  using assms
proof (induction ns arbitrary: c)
  case (Cons n ns)
  show ?case
  proof (cases "c n = White")
    case True
    note start = dfs_correct [OF dfs_inv_start [OF Cons.prems True]]
    have grow: "(c(n := Gray)) m \<noteq> White" if "c m \<noteq> White \<or> m = n" for m using that by auto
    show ?thesis
    proof (cases "dfs ids es l (c(n := Gray)) [(n, 0)]")
      case (Inr c1)
      with start have c1: "dfs_inv ids es l c1 []" "\<And>m. c m \<noteq> White \<or> m = n \<Longrightarrow> c1 m \<noteq> White" using grow by auto
      from Cons.IH [OF c1(1)] True Inr c1(2) show ?thesis by (auto split: sum.splits simp del: fun_upd_apply)
    qed (use start True in \<open>auto simp del: fun_upd_apply\<close>)
  next
    case False
    with Cons.IH [OF Cons.prems] show ?thesis by (auto split: sum.splits)
  qed
qed simp

text \<open>The flow of a graph: its edges without the exempt ones, between nodes it has.\<close>

definition graph_flow :: "json list \<Rightarrow> json list \<Rightarrow> (string \<times> string) set" where
  "graph_flow nodes edges = flow_edges (map node_id nodes) (List.map_filter edge_of edges) (loop_node nodes)"

lemma detect_cycle_correct:
  "(detect_cycle nodes edges = Ret () \<longleftrightarrow> acyclic (graph_flow nodes edges))
   \<and> (detect_cycle nodes edges = Ret () \<or> (\<exists>m. detect_cycle nodes edges = Raise (ValidationError (Some m) None)))"
proof -
  let ?ids = "map node_id nodes" and ?es = "List.map_filter edge_of edges" and ?l = "loop_node nodes"
  have "dfs_inv ?ids ?es ?l (\<lambda>_. White) []" by (auto simp: dfs_inv_def acyclic_def)
  from dfs_all_correct [OF this, of ?ids] show ?thesis
  proof (cases "dfs_all ?ids ?es ?l (\<lambda>_. White) ?ids")
    case (Inr c)
    with dfs_all_correct [OF \<open>dfs_inv ?ids ?es ?l (\<lambda>_. White) []\<close>, of ?ids]
    have c: "dfs_inv ?ids ?es ?l c []" "\<And>n. n \<in> set ?ids \<Longrightarrow> c n \<noteq> White" by auto
    then have "c n = Black" if "n \<in> set ?ids" for n using that by (cases "c n") (auto simp: dfs_inv_def)
    then have "{(a, b) \<in> flow_edges ?ids ?es ?l. c a = Black} = flow_edges ?ids ?es ?l"
      by (auto simp: flow_edges_def adjacent_def)
    with c(1) have "acyclic (graph_flow nodes edges)" by (simp add: dfs_inv_def graph_flow_def)
    with Inr show ?thesis by (simp add: detect_cycle_def)
  qed (auto simp: detect_cycle_def graph_flow_def)
qed

end
