(* ===== verification/WorkflowChecked.thy ===== *)
theory WorkflowChecked
  imports WorkflowValidate
begin

text \<open>
  What the validator accepts: a reference definition of a valid graph, the equivalence of the two,
  and with it that the repairs are idempotent.
\<close>

section \<open>Valid graphs\<close>

text \<open>
  Written from what a graph must be, and not with the checks: a required field is set, a field that is
  set has its type and is one of its choices; JSON has no other numbers than integers and floats, and
  Python counts a Boolean as an integer.
\<close>

definition given :: "(string \<times> json) list \<Rightarrow> string \<Rightarrow> bool" where
  "given config key \<longleftrightarrow> (\<exists>v. map_of config key = Some v \<and> v \<noteq> JNull \<and> v \<noteq> JStr [])"

definition has_type :: "string \<Rightarrow> json \<Rightarrow> bool" where
  "has_type ty v \<longleftrightarrow> (ty = ''string'' \<longrightarrow> v \<in> range JStr) \<and> (ty = ''integer'' \<longrightarrow> v \<in> range JInt \<union> range JBool)
     \<and> (ty = ''number'' \<longrightarrow> v \<in> range JInt \<union> range JFloat \<union> range JBool) \<and> (ty = ''object'' \<longrightarrow> v \<in> range JObj)
     \<and> (ty = ''array'' \<longrightarrow> v \<in> range JArr) \<and> (ty = ''boolean'' \<longrightarrow> v \<in> range JBool)"

definition valid_config :: "(string \<times> field_spec) list \<Rightarrow> (string \<times> json) list \<Rightarrow> bool" where
  "valid_config schema config \<longleftrightarrow> (\<forall>(key, fs) \<in> set schema. (fs_required fs \<longrightarrow> given config key)
     \<and> (\<forall>v. map_of config key = Some v \<longrightarrow> v \<noteq> JNull \<longrightarrow>
          has_type (fs_type fs) v \<and> (\<forall>choices. fs_enum fs = Some choices \<longrightarrow> v \<in> set choices)))"

text \<open>
  An \<^verbatim>\<open>mcp-tool\<close> block names a tool of the inventory that is not marked as one that cannot be called, and
  its arguments set what the tool requires; arguments that are no object are not looked at.
\<close>

definition args_given :: "json \<Rightarrow> (string \<times> json) list \<Rightarrow> bool" where
  "args_given schema config \<longleftrightarrow> (\<forall>keys. jget ''required'' schema = Some (JArr keys) \<longrightarrow>
     (\<forall>v. map_of config ''args'' = Some v \<longrightarrow> jtruthy v \<longrightarrow> v \<in> range JObj) \<longrightarrow>
     (\<forall>k \<in> set keys. \<exists>n args. k = JStr n \<and> map_of config ''args'' = Some (JObj args) \<and> given args n))"

definition tool_known :: "tool_inventory \<Rightarrow> tool_callability option \<Rightarrow> (string \<times> json) list \<Rightarrow> bool" where
  "tool_known inventory callability config \<longleftrightarrow>
     (\<forall>mcp tool. map_of config ''mcp_name'' = Some (JStr mcp) \<longrightarrow> map_of config ''tool_name'' = Some (JStr tool) \<longrightarrow>
        (\<exists>tools schema. map_of inventory mcp = Some tools \<and> map_of tools tool = Some schema \<and> args_given schema config)
        \<and> \<not> (\<exists>marks mark. callability = Some marks \<and> map_of marks mcp = Some mark \<and> map_of mark tool = Some False))"

text \<open>What a key holds when it must be an object or a list: an absent or falsy value counts as the empty one.\<close>

definition object_at :: "string \<Rightarrow> (string \<times> json) list \<Rightarrow> (string \<times> json) list \<Rightarrow> bool" where
  "object_at key kvs config \<longleftrightarrow> map_of kvs key = Some (JObj config)
     \<or> config = [] \<and> (\<forall>v. map_of kvs key = Some v \<longrightarrow> \<not> jtruthy v)"

definition list_at :: "string \<Rightarrow> (string \<times> json) list \<Rightarrow> json list \<Rightarrow> bool" where
  "list_at key kvs xs \<longleftrightarrow> map_of kvs key = Some (JArr xs) \<or> xs = [] \<and> (\<forall>v. map_of kvs key = Some v \<longrightarrow> \<not> jtruthy v)"

text \<open>The arguments of a tool are under \<^verbatim>\<open>args\<close>, not under the name MCP gives them.\<close>

definition args_placed :: "string \<Rightarrow> (string \<times> json) list \<Rightarrow> bool" where
  "args_placed ty config \<longleftrightarrow> ty = ''mcp-tool'' \<longrightarrow> map_of config ''args'' = None \<longrightarrow> (\<forall>a. map_of config ''arguments'' \<noteq> Some (JObj a))"

definition valid_node :: "tool_inventory option \<Rightarrow> tool_callability option \<Rightarrow> json \<Rightarrow> bool" where
  "valid_node inventory callability n \<longleftrightarrow>
     (\<exists>kvs nid ty spec config. n = JObj kvs \<and> map_of kvs ''id'' = Some (JStr nid) \<and> nid \<noteq> []
        \<and> map_of kvs ''type'' = Some (JStr ty) \<and> map_of BLOCK_CATALOG ty = Some spec
        \<and> object_at ''config'' kvs config \<and> args_placed ty config \<and> valid_config (bs_config_schema spec) config
        \<and> (\<forall>tools. inventory = Some tools \<longrightarrow> ty = ''mcp-tool'' \<longrightarrow> tool_known tools callability config))"

definition valid_edge :: "string list \<Rightarrow> json \<Rightarrow> bool" where
  "valid_edge ids e \<longleftrightarrow> (\<exists>s t. jget ''source'' e = Some (JStr s) \<and> jget ''target'' e = Some (JStr t) \<and> s \<in> set ids \<and> t \<in> set ids)"

definition valid_graph :: "tool_inventory option \<Rightarrow> tool_callability option \<Rightarrow> json \<Rightarrow> bool" where
  "valid_graph inventory callability graph \<longleftrightarrow>
     (\<exists>g nodes edges. graph = JObj g \<and> list_at ''nodes'' g nodes \<and> list_at ''edges'' g edges
        \<and> distinct (map node_id nodes) \<and> (\<forall>n \<in> set nodes. valid_node inventory callability n)
        \<and> (\<forall>e \<in> set edges. valid_edge (map node_id nodes) e) \<and> acyclic (graph_flow nodes edges))"

section \<open>The checks and the definitions\<close>

lemma unset_given: "unset (map_of config key) \<longleftrightarrow> \<not> given config key"
  by (auto simp: unset_def given_def)

lemma type_ok_has_type: "type_ok ty v \<longleftrightarrow> has_type ty v"
  unfolding type_ok_def has_type_def by (cases v) auto

definition field_ok :: "field_spec \<Rightarrow> json option \<Rightarrow> bool" where
  "field_ok fs v \<longleftrightarrow> \<not> (fs_required fs \<and> unset v)
     \<and> (v = None \<or> v = Some JNull \<or> enum_ok (fs_enum fs) (the v) \<and> type_ok (fs_type fs) (the v))"

lemma check_config_step:
  "check_config nid ((key, fs) # schema) c =
     (if field_ok fs (map_of c key) then check_config nid schema c else Raise (ValidationError (Some nid) (Some key)))"
  by (cases "map_of c key"; cases "the (map_of c key)") (auto simp: field_ok_def unset_def)

lemma check_config_Ret:
  "check_config nid schema c = Ret () \<longleftrightarrow> (\<forall>(key, fs) \<in> set schema. field_ok fs (map_of c key))"
proof (induction schema)
  case (Cons f schema)
  then show ?case by (cases f) (simp add: check_config_step del: check_config.simps(2))
qed simp

lemma check_config_valid: "check_config nid schema c = Ret () \<longleftrightarrow> valid_config schema c"
proof -
  have "field_ok fs (map_of c key) \<longleftrightarrow> (fs_required fs \<longrightarrow> given c key)
     \<and> (\<forall>v. map_of c key = Some v \<longrightarrow> v \<noteq> JNull \<longrightarrow>
          has_type (fs_type fs) v \<and> (\<forall>choices. fs_enum fs = Some choices \<longrightarrow> v \<in> set choices))" for fs key
    by (auto simp: field_ok_def unset_given type_ok_has_type enum_ok_def split: option.splits)
  then show ?thesis unfolding check_config_Ret valid_config_def by simp
qed

lemma check_args_given:
  "(case tool_args config of None \<Rightarrow> Ret () | Some args \<Rightarrow> check_args nid schema args) = Ret () \<longleftrightarrow> args_given schema config"
proof -
  have one: "hashable (Some k) \<and> \<not> arg_missing args k \<longleftrightarrow> (\<exists>n. k = JStr n \<and> given args n)" for k args
    by (cases k) (auto simp: hashable_def arg_missing_def unset_given)
  have args: "check_args nid schema args = Ret () \<longleftrightarrow>
      (\<forall>keys. jget ''required'' schema = Some (JArr keys) \<longrightarrow> (\<forall>k \<in> set keys. \<exists>n. k = JStr n \<and> given args n))" for args
    using one by (auto simp: check_args_def split: option.splits json.splits) blast+
  have "\<not> given [] n" for n by (simp add: given_def)
  then show ?thesis
    unfolding args_given_def tool_args_def
    by (cases "map_of config ''args''"; cases "the (map_of config ''args'')") (auto simp: args split: if_splits)
qed

lemma check_tool_use_Ret:
  "tool \<in> set (map fst tools) \<Longrightarrow> check_tool_use nid callability tools mcp tool config = Ret () \<longleftrightarrow>
     (\<exists>schema. map_of tools tool = Some schema \<and> args_given schema config)
     \<and> \<not> (\<exists>marks mark. callability = Some marks \<and> map_of marks mcp = Some mark \<and> map_of mark tool = Some False)"
proof -
  assume "tool \<in> set (map fst tools)"
  then obtain schema where "map_of tools tool = Some schema" by (metis list.set_map map_of_eq_None_iff not_Some_eq)
  then show ?thesis
    by (cases callability; cases "map_of (the callability) mcp") (simp_all add: check_tool_use_def check_args_given)
qed

lemma tool_known_checks:
  "tool_known inventory callability config \<longleftrightarrow>
     (\<forall>mcp tool. map_of config ''mcp_name'' = Some (JStr mcp) \<longrightarrow> map_of config ''tool_name'' = Some (JStr tool) \<longrightarrow>
        (\<exists>tools. map_of inventory mcp = Some tools \<and> tool \<in> set (map fst tools)
          \<and> check_tool_use nid callability tools mcp tool config = Ret ()))"
proof -
  have "(\<exists>tools schema. map_of inventory mcp = Some tools \<and> map_of tools tool = Some schema \<and> args_given schema config)
        \<and> \<not> (\<exists>marks mark. callability = Some marks \<and> map_of marks mcp = Some mark \<and> map_of mark tool = Some False)
      \<longleftrightarrow> (\<exists>tools. map_of inventory mcp = Some tools \<and> tool \<in> set (map fst tools)
          \<and> check_tool_use nid callability tools mcp tool config = Ret ())" for mcp tool
  proof (cases "\<exists>tools. map_of inventory mcp = Some tools \<and> tool \<in> set (map fst tools)")
    case True
    then obtain tools where "map_of inventory mcp = Some tools" "tool \<in> set (map fst tools)" by blast
    with check_tool_use_Ret [OF this(2), of nid callability mcp config] show ?thesis by auto
  next
    case False
    then show ?thesis by (force dest: map_of_SomeD)
  qed
  then show ?thesis unfolding tool_known_def by simp
qed

lemma object_at_config: "object_at ''config'' kvs config \<longleftrightarrow> node_config nid kvs = Ret config"
  by (cases "map_of kvs ''config''"; cases "the (map_of kvs ''config'')") (auto simp: object_at_def node_config_def)

lemma list_at_graph: "list_at key g xs \<longleftrightarrow> graph_list key g = Ret xs"
  by (cases "map_of g key"; cases "the (map_of g key)") (auto simp: list_at_def graph_list_def)

lemma valid_edge_of: "valid_edge ids e \<longleftrightarrow> (\<exists>w. edge_of e = Some w \<and> eg_source w \<in> set ids \<and> eg_target w \<in> set ids)"
  by (auto simp: valid_edge_def edge_of_def split: option.splits json.splits)

section \<open>The repairs\<close>

lemma repair_args_settled:
  "repair_args ty c = c \<longleftrightarrow> \<not> (\<exists>a. map_of c ''arguments'' = Some (JObj a) \<and> ty = ''mcp-tool'' \<and> map_of c ''args'' = None)"
proof (cases "\<exists>a. map_of c ''arguments'' = Some (JObj a) \<and> ty = ''mcp-tool'' \<and> map_of c ''args'' = None")
  case True
  then obtain a where "map_of c ''arguments'' = Some (JObj a)" "ty = ''mcp-tool''" "map_of c ''args'' = None" by blast
  then have "map_of (repair_args ty c) ''args'' \<noteq> map_of c ''args''" by (simp add: repair_args_def update_conv')
  with True show ?thesis by auto
next
  case False
  then have "repair_args ty c = c" unfolding repair_args_def by (auto split: option.split json.split)
  with False show ?thesis by blast
qed

lemma args_placed_settled: "args_placed ty c \<longleftrightarrow> repair_args ty c = c"
  unfolding repair_args_settled args_placed_def by blast

lemma valid_node_checks:
  "valid_node inventory callability n \<longleftrightarrow>
     (\<exists>kvs nid ty spec config. n = JObj kvs \<and> map_of kvs ''id'' = Some (JStr nid) \<and> nid \<noteq> []
        \<and> map_of kvs ''type'' = Some (JStr ty) \<and> map_of BLOCK_CATALOG ty = Some spec
        \<and> node_config nid kvs = Ret config \<and> repair_args ty config = config
        \<and> check_config nid (bs_config_schema spec) config = Ret ()
        \<and> (\<forall>tools. inventory = Some tools \<longrightarrow> ty = ''mcp-tool'' \<longrightarrow> tool_known tools callability config))"
  unfolding valid_node_def check_config_valid args_placed_settled object_at_config [symmetric] by (rule refl)

lemma valid_graph_checks:
  "valid_graph inventory callability graph \<longleftrightarrow>
     (\<exists>g nodes edges. graph = JObj g \<and> graph_list ''nodes'' g = Ret nodes \<and> graph_list ''edges'' g = Ret edges
        \<and> distinct (map node_id nodes) \<and> (\<forall>n \<in> set nodes. valid_node inventory callability n)
        \<and> (\<forall>e \<in> set edges. valid_edge (map node_id nodes) e) \<and> acyclic (graph_flow nodes edges))"
  unfolding valid_graph_def list_at_graph by (rule refl)

lemma repair_args_same: "repair_args ty (repair_args ty c) = repair_args ty c"
  unfolding repair_args_settled by (auto simp: repair_args_def update_conv' delete_conv' split: option.splits json.splits)

lemma repair_args_update:
  assumes "repair_args ty c = c" "k \<noteq> ''args''" "k \<noteq> ''arguments''"
  shows "repair_args ty (AList.update k v c) = AList.update k v c"
  using assms unfolding repair_args_settled by (simp add: update_conv')

lemma type_ok_string: "type_ok expected (JStr s) = type_ok expected (JStr t)"
  by (simp add: type_ok_def)

lemma check_config_update:
  assumes "check_config nid schema c = Ret ()" "map_of c k = Some (JStr t)" "s \<noteq> []"
    and "\<And>fs. (k, fs) \<in> set schema \<Longrightarrow> fs_enum fs = None"
  shows "check_config nid schema (AList.update k (JStr s) c) = Ret ()"
  unfolding check_config_Ret
proof clarify
  fix key fs assume f: "(key, fs) \<in> set schema"
  with assms(1) have "field_ok fs (map_of c key)" unfolding check_config_Ret by blast
  then show "field_ok fs (map_of (AList.update k (JStr s) c) key)"
    using assms(2-4) f by (cases "key = k") (simp_all add: update_conv' field_ok_def enum_ok_def unset_def type_ok_string [of _ s t])
qed

lemma tool_args_update: "k \<noteq> ''args'' \<Longrightarrow> tool_args (AList.update k v c) = tool_args c"
  by (simp add: tool_args_def update_conv')

lemma repair_tool_mem: "repair_tool tools mcp tool = Some tool' \<Longrightarrow> tool' \<in> set (map fst tools)"
  by (auto simp: repair_tool_def Let_def split: if_splits)

text \<open>An inventory names no tool by the empty string.\<close>

definition named_tools :: "tool_inventory option \<Rightarrow> bool" where
  "named_tools inventory \<longleftrightarrow> (\<forall>inv mcp tools. inventory = Some inv \<longrightarrow> map_of inv mcp = Some tools \<longrightarrow> [] \<notin> set (map fst tools))"

lemma check_mcp_tool_Ret:
  assumes "check_mcp_tool nid c tls callability = (Ret (), c')"
  obtains (kept) "c' = c" "tool_known tls callability c"
    | (renamed) m t tools t' where "map_of c ''mcp_name'' = Some (JStr m)" "map_of c ''tool_name'' = Some (JStr t)"
      "map_of tls m = Some tools" "t \<notin> set (map fst tools)" "repair_tool tools m t = Some t'"
      "check_tool_use nid callability tools m t' c' = Ret ()" "c' = AList.update ''tool_name'' (JStr t') c"
proof (cases "\<exists>m t. map_of c ''mcp_name'' = Some (JStr m) \<and> map_of c ''tool_name'' = Some (JStr t)")
  case False
  then have "check_mcp_tool nid c tls callability = (Ret (), c)"
    unfolding check_mcp_tool_def by (auto split: option.split json.split)
  with assms False show ?thesis by (intro kept) (auto simp: tool_known_def)
next
  case True
  then obtain m t where mt: "map_of c ''mcp_name'' = Some (JStr m)" "map_of c ''tool_name'' = Some (JStr t)" by blast
  with assms obtain tools where tools: "map_of tls m = Some tools"
    by (cases "map_of tls m") (simp_all add: check_mcp_tool_def)
  show ?thesis
  proof (cases "t \<in> set (map fst tools)")
    case True
    with assms mt tools show ?thesis by (intro kept) (auto simp: check_mcp_tool_def tool_known_checks [of _ _ _ nid])
  next
    case False
    with assms mt tools obtain t' where "repair_tool tools m t = Some t'"
      by (cases "repair_tool tools m t") (simp_all add: check_mcp_tool_def)
    with assms mt tools False have "check_tool_use nid callability tools m t' c' = Ret () \<and> c' = AList.update ''tool_name'' (JStr t') c"
      by (auto simp: check_mcp_tool_def Let_def)
    with mt tools False \<open>repair_tool tools m t = Some t'\<close> show ?thesis by (intro renamed) blast+
  qed
qed

lemma check_block_Ret:
  assumes "check_block inventory callability nid spec c = (Ret (), c')" "named_tools inventory \<or> c' = c"
    and spec: "map_of BLOCK_CATALOG (bs_type spec) = Some spec"
  shows "repair_args (bs_type spec) c' = c' \<and> check_config nid (bs_config_schema spec) c' = Ret ()
    \<and> (\<forall>tools. inventory = Some tools \<longrightarrow> bs_type spec = ''mcp-tool'' \<longrightarrow> tool_known tools callability c')"
proof -
  let ?c = "repair_args (bs_type spec) c"
  have fixed: "repair_args (bs_type spec) ?c = ?c" by (rule repair_args_same)
  have ok: "check_config nid (bs_config_schema spec) ?c = Ret ()"
    using assms(1) by (auto simp: check_block_def Let_def split: sum.splits)
  show ?thesis
  proof (cases "\<exists>tools. inventory = Some tools \<and> bs_type spec = ''mcp-tool''")
    case False
    with assms(1) ok have "c' = ?c" by (auto simp: check_block_def Let_def split: sum.splits option.splits if_splits)
    with fixed ok False show ?thesis by auto
  next
    case True
    then obtain inv where inv: "inventory = Some inv" "bs_type spec = ''mcp-tool''" by blast
    with assms(1) ok have mcp: "check_mcp_tool nid ?c inv callability = (Ret (), c')"
      by (auto simp: check_block_def Let_def split: sum.splits)
    consider (kept) "c' = ?c" "tool_known inv callability ?c"
      | (renamed) m t tools t' where "map_of ?c ''mcp_name'' = Some (JStr m)" "map_of ?c ''tool_name'' = Some (JStr t)"
        "map_of inv m = Some tools" "t \<notin> set (map fst tools)" "repair_tool tools m t = Some t'"
        "check_tool_use nid callability tools m t' c' = Ret ()" "c' = AList.update ''tool_name'' (JStr t') ?c"
      by (rule check_mcp_tool_Ret [OF mcp])
    then show ?thesis
    proof cases
      case kept
      with fixed ok inv show ?thesis by auto
    next
      case r: renamed
      have t': "t' \<in> set (map fst tools)" by (rule repair_tool_mem [OF r(5)])
      have "map_of ?c ''tool_name'' = map_of c ''tool_name''"
        by (simp add: repair_args_def update_conv' delete_conv' split: option.split json.split)
      with r(2) have "map_of c ''tool_name'' = Some (JStr t)" by simp
      moreover have "map_of c' ''tool_name'' = Some (JStr t')" unfolding r(7) by (simp add: update_conv')
      moreover have "t' \<noteq> t" using t' r(4) by metis
      ultimately have "c' \<noteq> c" by auto
      with assms(2) have "named_tools inventory" by blast
      then have "[] \<notin> set (map fst tools)" using inv(1) r(3) unfolding named_tools_def by blast
      with t'  have "t' \<noteq> []" by metis
      from spec inv have "spec = mcp_tool_block" by (simp add: BLOCK_CATALOG_def mcp_tool_block_def trigger_manual_block_def
          trigger_schedule_block_def trigger_ai_block_def trigger_event_block_def)
      then have "fs_enum fs = None" if "(''tool_name'', fs) \<in> set (bs_config_schema spec)" for fs
        using that by (auto simp: mcp_tool_block_def field_of_def)
      with check_config_update [OF ok r(2) \<open>t' \<noteq> []\<close>] have "check_config nid (bs_config_schema spec) c' = Ret ()"
        unfolding r(7) by blast
      moreover have "repair_args (bs_type spec) c' = c'" unfolding r(7) by (rule repair_args_update [OF fixed]) simp_all
      moreover have "map_of c' ''mcp_name'' = Some (JStr m)" "map_of c' ''tool_name'' = Some (JStr t')"
        using r by (simp_all add: update_conv')
      ultimately show ?thesis using r(3,6) t' inv by (auto simp: tool_known_checks [of _ _ _ nid])
    qed
  qed
qed

lemma update_same: "map_of al k = Some v \<Longrightarrow> AList.update k v al = al"
  by (induction al) (auto split: if_splits)

lemma node_config_update:
  "c \<noteq> [] \<Longrightarrow> node_config nid (AList.update ''config'' (JObj c) kvs) = Ret c"
  by (simp add: node_config_def update_conv')

lemma repair_args_Nil: "repair_args ty [] = []"
  by (simp add: repair_args_def)

lemma check_block_Nil: "check_block inventory callability nid spec c = (Ret (), c') \<Longrightarrow> c' = [] \<Longrightarrow> c = []"
proof (rule ccontr)
  assume c': "check_block inventory callability nid spec c = (Ret (), c')" "c' = []" "c \<noteq> []"
  have ne: "AList.update k v d \<noteq> []" for k :: string and v :: json and d by (cases d) auto
  from c'(3) ne have "repair_args (bs_type spec) c \<noteq> []"
    by (auto simp: repair_args_def split: option.split json.split)
  with c'(1,2) ne ne [symmetric] show False
    by (auto simp: check_block_def Let_def split: sum.splits option.splits if_splits elim!: check_mcp_tool_Ret)
qed

lemma validate_node_Ret:
  assumes "validate_node inventory callability seen n = (Ret nid, n')" "named_tools inventory \<or> n' = n"
  shows "valid_node inventory callability n' \<and> node_id n' = nid \<and> nid \<notin> set seen
    \<and> (\<forall>k. k \<noteq> ''config'' \<longrightarrow> jget k n' = jget k n)"
proof -
  obtain kvs where n: "n = JObj kvs" using assms(1) by (cases n) (auto simp: validate_node_def)
  obtain i where i: "map_of kvs ''id'' = Some (JStr i)" "i \<noteq> []" "i \<notin> set seen"
    using assms(1) by (auto simp: validate_node_def n split: option.splits json.splits if_splits)
  then obtain spec config c' where spec: "block_of i (map_of kvs ''type'') = Ret spec" "node_config i kvs = Ret config"
    "check_block inventory callability i spec config = (Ret (), c')" "i = nid"
    "n' = (if config = [] then n else JObj (AList.update ''config'' (JObj c') kvs))"
    using assms(1) by (auto simp: validate_node_def n split: sum.splits prod.splits)
  from spec(1) obtain ty where ty: "map_of kvs ''type'' = Some (JStr ty)" "map_of BLOCK_CATALOG ty = Some spec"
    by (auto simp: block_of_def split: if_splits option.splits json.splits)
  have "named_tools inventory \<or> c' = config"
  proof (cases "config = []")
    case True
    with spec(3) have "c' = []"
      by (auto simp: check_block_def Let_def repair_args_Nil split: sum.splits option.splits if_splits elim!: check_mcp_tool_Ret)
    with True show ?thesis by simp
  next
    case False
    have "map_of kvs ''config'' = Some (JObj config)"
      using spec(2) False by (auto simp: node_config_def split: option.splits if_splits json.splits)
    moreover have "map_of kvs ''config'' = Some (JObj c')" if "n' = n"
    proof -
      have "AList.update ''config'' (JObj c') kvs = kvs" using spec(5) that False n by simp
      from arg_cong [OF this, of "\<lambda>x. map_of x ''config''"] show ?thesis by (simp add: update_conv')
    qed
    ultimately show ?thesis using assms(2) by auto
  qed
  note ok = check_block_Ret [OF spec(3) this, unfolded catalog_keys [OF ty(2)], OF ty(2)]
  obtain kvs' where kvs': "n' = JObj kvs'" "node_config i kvs' = Ret c'" "\<And>k. k \<noteq> ''config'' \<Longrightarrow> map_of kvs' k = map_of kvs k"
  proof (cases "config = []")
    case True
    with spec(3) have "c' = []"
      by (auto simp: check_block_def Let_def repair_args_Nil split: sum.splits option.splits if_splits elim!: check_mcp_tool_Ret)
    with True spec(2,5) n show ?thesis by (intro that [of kvs]) auto
  next
    case False
    with check_block_Nil [OF spec(3)] have "c' \<noteq> []" by blast
    with False spec(5) show ?thesis
      by (intro that [of "AList.update ''config'' (JObj c') kvs"]) (simp_all add: node_config_update update_conv')
  qed
  with i ty ok have "valid_node inventory callability n'" unfolding valid_node_checks by auto
  with kvs' i n spec(4) show ?thesis by (simp add: node_id_def jget_def)
qed

lemma validate_node_valid:
  assumes "valid_node inventory callability n" "node_id n \<notin> set seen"
  shows "validate_node inventory callability seen n = (Ret (node_id n), n)"
proof -
  from assms(1) obtain kvs nid ty spec config where v: "n = JObj kvs" "map_of kvs ''id'' = Some (JStr nid)" "nid \<noteq> []"
    "map_of kvs ''type'' = Some (JStr ty)" "map_of BLOCK_CATALOG ty = Some spec" "node_config nid kvs = Ret config"
    "repair_args ty config = config" "check_config nid (bs_config_schema spec) config = Ret ()"
    "\<forall>tools. inventory = Some tools \<longrightarrow> ty = ''mcp-tool'' \<longrightarrow> tool_known tools callability config"
    unfolding valid_node_checks by blast
  have mcp: "check_mcp_tool nid config tls callability = (Ret (), config)" if "tool_known tls callability config" for tls
    using that by (auto simp: check_mcp_tool_def tool_known_checks [of _ _ _ nid] split: option.split json.split)
  have "check_block inventory callability nid spec config = (Ret (), config)"
    using v catalog_keys [OF v(5)] mcp by (auto simp: check_block_def split: option.split)
  moreover have "AList.update ''config'' (JObj config) kvs = kvs" if "config \<noteq> []"
    using v(6) that by (intro update_same) (auto simp: node_config_def split: option.splits if_splits json.splits)
  moreover have "block_of nid (Some (JStr ty)) = Ret spec" using v(5) by (simp add: block_of_def hashable_def)
  ultimately show ?thesis using v assms(2) by (simp add: validate_node_def node_id_def jget_def)
qed

lemma validate_nodes_Ret:
  assumes "validate_nodes inventory callability seen ns = (Ret ids, ns')" "named_tools inventory \<or> ns' = ns" "distinct seen"
  shows "(\<forall>n \<in> set ns'. valid_node inventory callability n) \<and> ids = seen @ map node_id ns' \<and> distinct ids
    \<and> length ns' = length ns"
  using assms
proof (induction inventory callability seen ns arbitrary: ids ns' rule: validate_nodes.induct)
  case (2 inventory callability seen n ns)
  then obtain nid n' ns'' where n: "validate_node inventory callability seen n = (Ret nid, n')" "ns' = n' # ns''"
    "validate_nodes inventory callability (seen @ [nid]) ns = (Ret ids, ns'')"
    by (auto split: prod.splits sum.splits)
  from 2(3) n(2) have same: "named_tools inventory \<or> n' = n" "named_tools inventory \<or> ns'' = ns" by auto
  note node = validate_node_Ret [OF n(1) same(1)]
  with 2(4) have "distinct (seen @ [nid])" by simp
  then have seen: "distinct (seen @ [nid])" .
  note rest = 2(1) [OF n(1) [symmetric] refl n(3) same(2) seen]
  have "ids = seen @ map node_id ns'" using rest node by (simp add: n(2))
  moreover from rest have "distinct ids" "length ns'' = length ns" "\<forall>n \<in> set ns''. valid_node inventory callability n" by blast+
  ultimately show ?case using node by (simp only: n(2)) simp
qed simp

lemma validate_nodes_valid:
  assumes "\<forall>n \<in> set ns. valid_node inventory callability n" "distinct (seen @ map node_id ns)"
  shows "validate_nodes inventory callability seen ns = (Ret (seen @ map node_id ns), ns)"
  using assms by (induction inventory callability seen ns rule: validate_nodes.induct) (auto simp: validate_node_valid)

lemma validate_edges_Ret: "validate_edges ids es = Ret () \<longleftrightarrow> (\<forall>e \<in> set es. valid_edge ids e)"
proof (induction es)
  case (Cons e es)
  have ends: "known_end ids v = Ret () \<longleftrightarrow> (\<exists>n \<in> set ids. v = Some (JStr n))" for v
    by (auto simp: known_end_def hashable_def split: option.splits json.splits if_splits)
  show ?case
  proof (cases e)
    case (JObj kvs)
    with Cons ends show ?thesis
      by (auto simp: bind_res_Inr valid_edge_def jget_def)
  qed (auto simp: valid_edge_def jget_def)
qed simp

section \<open>Acceptance\<close>

lemma graph_list_update:
  "xs \<noteq> [] \<Longrightarrow> graph_list k (AList.update k (JArr xs) g) = Ret xs"
  "k' \<noteq> k \<Longrightarrow> graph_list k' (AList.update k v g) = graph_list k' g"
  by (simp_all add: graph_list_def update_conv')

lemma graph_list_same: "graph_list k g = Ret xs \<Longrightarrow> xs \<noteq> [] \<Longrightarrow> AList.update k (JArr xs) g = g"
  by (rule update_same) (auto simp: graph_list_def split: option.splits if_splits json.splits)

lemma graph_list_Inl: "graph_list k g = Raise e \<Longrightarrow> e = ValidationError None None"
  by (auto simp: graph_list_def split: option.splits if_splits json.splits)

text \<open>What the validator lets through is a valid graph.\<close>

lemma validate_graph_valid:
  assumes "validate_graph inventory callability graph = (Ret (), graph')" "named_tools inventory \<or> graph' = graph"
  shows "valid_graph inventory callability graph'"
proof -
  obtain g where g: "graph = JObj g" using assms(1) by (cases graph) (auto simp: validate_graph_def)
  obtain nodes edges where l: "graph_list ''nodes'' g = Ret nodes" "graph_list ''edges'' g = Ret edges"
    using assms(1) by (auto simp: validate_graph_def g split: sum.splits)
  then obtain ids nodes' where v: "validate_nodes inventory callability [] nodes = (Ret ids, nodes')"
    "validate_edges ids edges = Ret ()" "detect_cycle nodes' edges = Ret ()"
    "graph' = (if nodes = [] then graph else JObj (AList.update ''nodes'' (JArr nodes') g))"
    using assms(1) by (auto simp: validate_graph_def g bind_res_Inr split: prod.splits)
  have "named_tools inventory \<or> nodes' = nodes"
  proof (cases "nodes = []")
    case False
    then have "map_of g ''nodes'' = Some (JArr nodes)"
      using l(1) by (auto simp: graph_list_def split: option.splits if_splits json.splits)
    moreover have "map_of g ''nodes'' = Some (JArr nodes')" if "graph' = graph"
    proof -
      have "AList.update ''nodes'' (JArr nodes') g = g" using v(4) that False g by simp
      from arg_cong [OF this, of "\<lambda>x. map_of x ''nodes''"] show ?thesis by (simp add: update_conv')
    qed
    ultimately show ?thesis using assms(2) by auto
  qed (use v(1) in simp)
  note nodes = validate_nodes_Ret [OF v(1) this]
  obtain g' where g': "graph' = JObj g'" "graph_list ''nodes'' g' = Ret nodes'" "graph_list ''edges'' g' = Ret edges"
  proof (cases "nodes = []")
    case True
    with nodes v(4) g l show ?thesis by (intro that [of g]) auto
  next
    case False
    with nodes have "nodes' \<noteq> []" by auto
    with False v(4) l(2) show ?thesis
      by (intro that [of "AList.update ''nodes'' (JArr nodes') g"]) (simp_all add: graph_list_update)
  qed
  with nodes v(2,3) detect_cycle_correct [of nodes' edges] show ?thesis
    unfolding valid_graph_checks by (auto simp: validate_edges_Ret)
qed

text \<open>
  C29: The validator and the definition of a valid graph agree.  A graph is accepted as it stands
  exactly when it is valid: nodes with distinct ids, known block types, required fields that are set and
  fields of their types, tools that exist, may be called and get the arguments they require, edges
  between nodes of the graph, and no cycle but a loop's body edge to itself.  When no tool of the
  inventory has an empty name, a graph that was accepted with repairs is accepted again and repaired
  no further.  A graph may have several triggers, whatever its \<^verbatim>\<open>trigger_kind\<close> says.
\<close>

theorem validate_iff_valid:
  shows "(validate_graph inventory callability graph = (Ret (), graph) \<longleftrightarrow> valid_graph inventory callability graph)
    \<and> (named_tools inventory \<longrightarrow> validate_graph inventory callability graph = (Ret (), graph') \<longrightarrow>
        validate_graph inventory callability graph' = (Ret (), graph'))"
proof -
  have accept: "validate_graph inventory callability g = (Ret (), g)" if "valid_graph inventory callability g" for g
  proof -
    from that obtain kvs nodes edges where v: "g = JObj kvs" "graph_list ''nodes'' kvs = Ret nodes" "graph_list ''edges'' kvs = Ret edges"
      "distinct (map node_id nodes)" "\<forall>n \<in> set nodes. valid_node inventory callability n"
      "\<forall>e \<in> set edges. valid_edge (map node_id nodes) e" "acyclic (graph_flow nodes edges)"
      unfolding valid_graph_checks by blast
    have "validate_nodes inventory callability [] nodes = (Ret (map node_id nodes), nodes)"
      using validate_nodes_valid [OF v(5), of "[]"] v(4) by simp
    with v detect_cycle_correct [of nodes edges] graph_list_same [OF v(2)] show ?thesis
      by (simp add: validate_graph_def validate_edges_Ret [THEN iffD2])
  qed
  have sound: "valid_graph inventory callability h"
    if "validate_graph inventory callability g = (Ret (), h)" "named_tools inventory \<or> h = g" for g h
    using that by (rule validate_graph_valid)
  with accept show ?thesis by blast
qed

text \<open>
  The search with the explicit stack is exact: it lets a graph pass exactly when the flow of
  the graph has no cycle, and otherwise it reports the cycle at one of its nodes; there is no
  third outcome.
\<close>

theorem cycle_search_exact:
  "(detect_cycle nodes edges = Ret () \<longleftrightarrow> acyclic (graph_flow nodes edges))
   \<and> (detect_cycle nodes edges = Ret () \<or> (\<exists>m. detect_cycle nodes edges = Raise (ValidationError (Some m) None)))"
  by (rule detect_cycle_correct)

section \<open>Instances\<close>

definition ex_block :: "string \<Rightarrow> string \<Rightarrow> (string \<times> json) list \<Rightarrow> json" where
  "ex_block nid ty config = JObj [(''id'', JStr nid), (''type'', JStr ty), (''config'', JObj config)]"

definition ex_wire :: "string \<Rightarrow> string \<Rightarrow> string \<Rightarrow> json" where
  "ex_wire s h t = JObj [(''source'', JStr s), (''sourceHandle'', JStr h), (''target'', JStr t)]"

definition ex_inventory :: "tool_inventory option" where
  "ex_inventory = Some [(''my-chat'', [(''my_chat_send'', JObj [(''required'', JArr [JStr ''text''])])])]"

definition ex_flow :: json where
  "ex_flow = JObj
     [(''nodes'', JArr [ex_block ''a'' ''trigger-manual'' [],
        ex_block ''b'' ''mcp-tool'' [(''mcp_name'', JStr ''my-chat''), (''tool_name'', JStr ''send''),
          (''arguments'', JObj [(''text'', JStr ''hello'')])]]),
      (''edges'', JArr [ex_wire ''a'' ''out'' ''b''])]"

lemma ex_flow_accepted: "fst (validate_graph ex_inventory None ex_flow) = Ret ()"
  by code_simp

lemma ex_flow_repaired: "snd (validate_graph ex_inventory None ex_flow) = JObj
     [(''nodes'', JArr [ex_block ''a'' ''trigger-manual'' [],
        ex_block ''b'' ''mcp-tool'' [(''mcp_name'', JStr ''my-chat''), (''tool_name'', JStr ''my_chat_send''),
          (''args'', JObj [(''text'', JStr ''hello'')])]]),
      (''edges'', JArr [ex_wire ''a'' ''out'' ''b''])]"
  by (simp add: validate_graph_def ex_flow_def graph_list_def) code_simp

theorem validate_iff_valid_witness:
  "\<exists>g. validate_graph ex_inventory None ex_flow = (Ret (), g) \<and> validate_graph ex_inventory None g = (Ret (), g)
     \<and> valid_graph ex_inventory None g"
proof -
  have "named_tools ex_inventory" by (auto simp: named_tools_def ex_inventory_def split: if_splits)
  note agree = validate_iff_valid [of ex_inventory None] and named = this
  obtain g where g: "validate_graph ex_inventory None ex_flow = (Ret (), g)"
    using ex_flow_accepted by (metis surj_pair fst_conv)
  with agree [of ex_flow g] named have "validate_graph ex_inventory None g = (Ret (), g)" by blast
  with g agree [of g g] show ?thesis by blast
qed

text \<open>Two triggers of different kinds are accepted.\<close>

lemma two_triggers_valid:
  "validate_graph None None (JObj [(''nodes'', JArr [ex_block ''a'' ''trigger-manual'' [], ex_block ''b'' ''trigger-event'' []])]) =
     (Ret (), JObj [(''nodes'', JArr [ex_block ''a'' ''trigger-manual'' [], ex_block ''b'' ''trigger-event'' []])])"
  by code_simp

end
