(* ===== verification/RunTables.thy ===== *)
theory RunTables
  imports Contracts
begin

text \<open>
  The two run histories of \<^verbatim>\<open>memory/db.py\<close>: \<^verbatim>\<open>task_runs\<close> (firings of a scheduled task) and
  \<^verbatim>\<open>workflow_runs\<close>.  They share their columns but for the result, so both rows extend one record
  and the statements that the two methods share are written once.  A table is the list of its
  rows in insertion order; \<^verbatim>\<open>time.time()\<close> is an argument.  The text of a \<^verbatim>\<open>_json\<close> column is the
  value it was dumped from.
\<close>

section \<open>Rows\<close>

record run_base =
  rn_id :: string
  rn_owner :: string
  rn_trigger :: string
  rn_status :: string
  rn_started :: real
  rn_finished :: "real option"
  rn_error :: "string option"

record task_run = run_base +
  tr_output :: "string option"
  tr_session :: "string option"

record workflow_run = run_base +
  wr_inputs :: json
  wr_outputs :: json
  wr_trace :: json

type_synonym 'a run_table = "'a run_base_scheme list"

text \<open>\<^verbatim>\<open>UPDATE t SET f WHERE p\<close>.\<close>

definition update_where :: "('r \<Rightarrow> bool) \<Rightarrow> ('r \<Rightarrow> 'r) \<Rightarrow> 'r list \<Rightarrow> 'r list" where
  "update_where p f t = map (\<lambda>r. if p r then f r else r) t"

text \<open>\<^verbatim>\<open>INSERT\<close> of a row whose primary key is taken raises.\<close>

definition insert_row :: "'a run_base_scheme \<Rightarrow> ('a run_table, unit) op" where
  "insert_row r t = (if rn_id r \<in> rn_id ` set t then (Raise IntegrityError, t) else (Ret (), t @ [r]))"

definition find_row :: "string \<Rightarrow> 'a run_table \<Rightarrow> 'a run_base_scheme option" where
  "find_row i t = List.find (\<lambda>r. rn_id r = i) t"

section \<open>Opening and updating a run\<close>

definition add_task_run :: "real \<Rightarrow> string \<Rightarrow> string \<Rightarrow> string \<Rightarrow> string option \<Rightarrow> (task_run list, string) op" where
  "add_task_run now rid task trigger session =
     bind_op (insert_row \<lparr>rn_id = rid, rn_owner = task, rn_trigger = trigger, rn_status = ''running'', rn_started = now,
                          rn_finished = None, rn_error = None, tr_output = None, tr_session = session\<rparr>)
       (\<lambda>_. ret_op rid)"

definition add_workflow_run :: "real \<Rightarrow> string \<Rightarrow> string \<Rightarrow> string \<Rightarrow> (string \<times> json) list \<Rightarrow> (workflow_run list, string) op" where
  "add_workflow_run now rid workflow trigger inputs =
     bind_op (insert_row \<lparr>rn_id = rid, rn_owner = workflow, rn_trigger = trigger, rn_status = ''running'', rn_started = now,
                          rn_finished = None, rn_error = None, wr_inputs = JObj inputs, wr_outputs = JObj [], wr_trace = JArr []\<rparr>)
       (\<lambda>_. ret_op rid)"

text \<open>
  The keyword arguments of the two partial updates; a key outside the lists of columns that may
  be written is ignored, and so are \<^verbatim>\<open>outputs=None\<close> and \<^verbatim>\<open>trace=None\<close>.
\<close>

datatype task_col =
    TStatus string
  | TFinished "real option"
  | TOutput "string option"
  | TError "string option"
  | TSession "string option"
  | TOther string

datatype workflow_col =
    WStatus string
  | WFinished "real option"
  | WError "string option"
  | WOutputs "json option"
  | WTrace "json option"
  | WOther string

fun set_task_col :: "task_col \<Rightarrow> task_run \<Rightarrow> task_run" where
  "set_task_col (TStatus s) r = r\<lparr>rn_status := s\<rparr>"
| "set_task_col (TFinished x) r = r\<lparr>rn_finished := x\<rparr>"
| "set_task_col (TOutput x) r = r\<lparr>tr_output := x\<rparr>"
| "set_task_col (TError x) r = r\<lparr>rn_error := x\<rparr>"
| "set_task_col (TSession x) r = r\<lparr>tr_session := x\<rparr>"
| "set_task_col (TOther _) r = r"

fun set_workflow_col :: "workflow_col \<Rightarrow> workflow_run \<Rightarrow> workflow_run" where
  "set_workflow_col (WStatus s) r = r\<lparr>rn_status := s\<rparr>"
| "set_workflow_col (WFinished x) r = r\<lparr>rn_finished := x\<rparr>"
| "set_workflow_col (WError x) r = r\<lparr>rn_error := x\<rparr>"
| "set_workflow_col (WOutputs (Some v)) r = r\<lparr>wr_outputs := v\<rparr>"
| "set_workflow_col (WTrace (Some v)) r = r\<lparr>wr_trace := v\<rparr>"
| "set_workflow_col _ r = r"

fun new_task_status :: "task_col \<Rightarrow> string option" where
  "new_task_status (TStatus s) = Some s"
| "new_task_status _ = None"

fun new_workflow_status :: "workflow_col \<Rightarrow> string option" where
  "new_workflow_status (WStatus s) = Some s"
| "new_workflow_status _ = None"

text \<open>
  \<^verbatim>\<open>WHERE id = ?\<close>, with \<^verbatim>\<open>AND status != 'cancelling'\<close> when the update sets a status other
  than \<^verbatim>\<open>cancelled\<close>.
\<close>

definition run_gate :: "string \<Rightarrow> string list \<Rightarrow> 'a run_base_scheme \<Rightarrow> bool" where
  "run_gate i statuses r \<longleftrightarrow> rn_id r = i \<and> ((\<forall>s \<in> set statuses. s = ''cancelled'') \<or> rn_status r \<noteq> ''cancelling'')"

definition update_task_run :: "string \<Rightarrow> task_col list \<Rightarrow> task_run list \<Rightarrow> task_run list" where
  "update_task_run i cols = update_where (run_gate i (List.map_filter new_task_status cols)) (fold set_task_col cols)"

definition update_workflow_run :: "string \<Rightarrow> workflow_col list \<Rightarrow> workflow_run list \<Rightarrow> workflow_run list" where
  "update_workflow_run i cols = update_where (run_gate i (List.map_filter new_workflow_status cols)) (fold set_workflow_col cols)"

definition get_task_run :: "string \<Rightarrow> task_run list \<Rightarrow> task_run option" where
  "get_task_run = find_row"

definition get_workflow_run :: "string \<Rightarrow> workflow_run list \<Rightarrow> workflow_run option" where
  "get_workflow_run = find_row"

section \<open>Reading the history\<close>

text \<open>\<^verbatim>\<open>ORDER BY started_at DESC\<close> and \<^verbatim>\<open>ASC\<close>; a negative limit is none.\<close>

definition newest :: "'a run_table \<Rightarrow> 'a run_table" where
  "newest t = rev (sort_key rn_started t)"

definition sql_limit :: "int \<Rightarrow> 'r list \<Rightarrow> 'r list" where
  "sql_limit n xs = (if n < 0 then xs else take (nat n) xs)"

definition list_runs :: "string \<Rightarrow> int \<Rightarrow> string option \<Rightarrow> 'a run_table \<Rightarrow> 'a run_table" where
  "list_runs owner n status t =
     sql_limit n (newest (filter (\<lambda>r. rn_owner r = owner \<and> (case status of None \<Rightarrow> True | Some s \<Rightarrow> rn_status r = s)) t))"

definition list_task_runs :: "string \<Rightarrow> int \<Rightarrow> string option \<Rightarrow> task_run list \<Rightarrow> task_run list" where
  "list_task_runs = list_runs"

definition list_workflow_runs :: "string \<Rightarrow> int \<Rightarrow> string option \<Rightarrow> workflow_run list \<Rightarrow> workflow_run list" where
  "list_workflow_runs = list_runs"

definition runs_by_status :: "string \<Rightarrow> int \<Rightarrow> 'a run_table \<Rightarrow> 'a run_table" where
  "runs_by_status s n t = sql_limit n (sort_key rn_started (filter (\<lambda>r. rn_status r = s) t))"

definition get_task_runs_by_status :: "string \<Rightarrow> int \<Rightarrow> task_run list \<Rightarrow> task_run list" where
  "get_task_runs_by_status = runs_by_status"

definition get_workflow_runs_by_status :: "string \<Rightarrow> int \<Rightarrow> workflow_run list \<Rightarrow> workflow_run list" where
  "get_workflow_runs_by_status = runs_by_status"

definition running_task_ids :: "task_run list \<Rightarrow> string set" where
  "running_task_ids t = rn_owner ` {r \<in> set t. rn_status r \<in> {''running'', ''cancelling''}}"

section \<open>Stopping, reaping and pruning\<close>

text \<open>
  \<^verbatim>\<open>flag_task_runs_cancelling\<close>: the ids that were flagged, and the table with their rows flagged.
\<close>

definition flag_task_runs_cancelling :: "string \<Rightarrow> task_run list \<Rightarrow> string list \<times> task_run list" where
  "flag_task_runs_cancelling task t =
     (let ids = map rn_id (filter (\<lambda>r. rn_owner r = task \<and> rn_status r = ''running'') t)
      in (ids, update_where (\<lambda>r. rn_id r \<in> set ids \<and> rn_status r = ''running'') (\<lambda>r. r\<lparr>rn_status := ''cancelling''\<rparr>) t))"

definition reap_marker :: string where
  "reap_marker = ''reaped: orphan from prior process''"

definition stop_marker :: string where
  "stop_marker = ''reaped: stop left pending by prior process''"

text \<open>\<^verbatim>\<open>COALESCE(error, '') || CASE WHEN error IS NULL OR error='' THEN '' ELSE ' | ' END || m\<close>.\<close>

definition append_error :: "string \<Rightarrow> string option \<Rightarrow> string option" where
  "append_error m e = (case e of None \<Rightarrow> Some m | Some [] \<Rightarrow> Some m | Some x \<Rightarrow> Some (x @ '' | '' @ m))"

definition settle_run :: "real \<Rightarrow> string \<Rightarrow> string \<Rightarrow> 'a run_base_scheme \<Rightarrow> 'a run_base_scheme" where
  "settle_run now status m r = r\<lparr>rn_status := status, rn_finished := Some now, rn_error := append_error m (rn_error r)\<rparr>"

text \<open>The ids failed, the number of rows settled, and the table.\<close>

definition reap_runs :: "real \<Rightarrow> 'a run_table \<Rightarrow> string list \<times> nat \<times> 'a run_table" where
  "reap_runs now t =
     (let orphans = filter (\<lambda>r. rn_status r = ''running'') t;
          t1 = update_where (\<lambda>r. rn_status r = ''running'') (settle_run now ''failed'' reap_marker) t;
          pending = filter (\<lambda>r. rn_status r = ''cancelling'') t1;
          t2 = update_where (\<lambda>r. rn_status r = ''cancelling'') (settle_run now ''cancelled'' stop_marker) t1
      in (map rn_id orphans, length orphans + length pending, t2))"

text \<open>The ids are what the method keeps in \<^verbatim>\<open>_last_reaped_task_run_ids\<close>.\<close>

definition reap_orphan_task_runs :: "real \<Rightarrow> task_run list \<Rightarrow> string list \<times> nat \<times> task_run list" where
  "reap_orphan_task_runs = reap_runs"

definition reap_orphan_workflow_runs :: "real \<Rightarrow> workflow_run list \<Rightarrow> nat \<times> workflow_run list" where
  "reap_orphan_workflow_runs now t = snd (reap_runs now t)"

text \<open>\<^verbatim>\<open>LIMIT -1 OFFSET keep_last\<close>; a negative offset is zero.\<close>

definition prune_runs :: "string \<Rightarrow> int \<Rightarrow> 'a run_table \<Rightarrow> nat \<times> 'a run_table" where
  "prune_runs owner keep_last t =
     (let old = map rn_id (drop (nat keep_last) (newest (filter (\<lambda>r. rn_owner r = owner) t)))
      in (length old, filter (\<lambda>r. rn_id r \<notin> set old) t))"

definition prune_task_runs :: "string \<Rightarrow> int \<Rightarrow> task_run list \<Rightarrow> nat \<times> task_run list" where
  "prune_task_runs = prune_runs"

definition prune_workflow_runs :: "string \<Rightarrow> int \<Rightarrow> workflow_run list \<Rightarrow> nat \<times> workflow_run list" where
  "prune_workflow_runs = prune_runs"

section \<open>Statistics\<close>

definition average :: "real list \<Rightarrow> real option" where
  "average xs = (if xs = [] then None else Some (sum_list xs / real (length xs)))"

definition duration :: "'a run_base_scheme \<Rightarrow> real option" where
  "duration r = map_option (\<lambda>f. f - rn_started r) (rn_finished r)"

text \<open>One row of the \<^verbatim>\<open>GROUP BY status\<close>: the status, the count and the average duration.\<close>

definition status_rows :: "'a run_table \<Rightarrow> (string \<times> nat \<times> real option) list" where
  "status_rows t = map (\<lambda>s. let g = filter (\<lambda>r. rn_status r = s) t in (s, length g, average (List.map_filter duration g)))
     (dedup (map rn_status t))"

record run_stats =
  rs_total :: nat
  rs_success :: nat
  rs_failed :: nat
  rs_cancelled :: nat
  rs_running :: nat
  rs_success_rate :: real
  rs_avg_duration :: "real option"
  rs_last :: "(string \<times> string \<times> real \<times> real option \<times> real option) list"

definition status_count :: "string \<Rightarrow> (string \<times> nat \<times> real option) list \<Rightarrow> nat" where
  "status_count s rows = (case map_of rows s of None \<Rightarrow> 0 | Some (n, _) \<Rightarrow> n)"

definition run_summary :: "'a run_base_scheme \<Rightarrow> string \<times> string \<times> real \<times> real option \<times> real option" where
  "run_summary r = (rn_id r, rn_status r, rn_started r, rn_finished r,
     (if rn_finished r \<in> {None, Some 0} then None else duration r))"

definition workflow_run_stats :: "string \<Rightarrow> int \<Rightarrow> workflow_run list \<Rightarrow> run_stats" where
  "workflow_run_stats owner sparkline t =
     (let mine = filter (\<lambda>r. rn_owner r = owner) t;
          rows = status_rows mine;
          weighted = List.map_filter (\<lambda>(s, n, avg). if s \<in> {''success'', ''failed''} then map_option (\<lambda>a. (a * real n, n)) avg else None) rows;
          terminal = status_count ''success'' rows + status_count ''failed'' rows;
          wn = sum_list (map snd weighted)
      in \<lparr>rs_total = sum_list (map (fst \<circ> snd) rows), rs_success = status_count ''success'' rows,
          rs_failed = status_count ''failed'' rows, rs_cancelled = status_count ''cancelled'' rows,
          rs_running = status_count ''running'' rows,
          rs_success_rate = (if terminal = 0 then 0 else real (status_count ''success'' rows) / real terminal),
          rs_avg_duration = (if wn = 0 then None else Some (sum_list (map fst weighted) / real wn)),
          rs_last = map run_summary (sql_limit sparkline (newest mine))\<rparr>)"

end
