(* ===== verification/WorkflowWalk.thy ===== *)
theory WorkflowWalk
  imports WorkflowValidate WorkflowTemplates RunTables
begin

text \<open>
  The walk of the workflow executor over a graph (\<^verbatim>\<open>WorkflowExecutor._walk\<close>): which nodes
  run, in which order, and which are skipped.  What running one node does is a parameter of this
  theory, the runner; \<open>WorkflowRun\<close> supplies the executor's.  The nodes of a batch run one after
  another in the order of the batch; \<^verbatim>\<open>asyncio.gather\<close> starts them in that order and may
  interleave them where they await.  The times of the trace entries are left out.
\<close>

section \<open>Graphs, contexts and traces\<close>

record wnode =
  nd_id :: string
  nd_type :: string
  nd_label :: "json option"
  nd_config :: "(string \<times> json) list"

text \<open>The nodes by id, in the order of the dictionary.\<close>

record wgraph =
  wg_nodes :: "(string \<times> wnode) list"
  wg_edges :: "wedge list"

record trace_entry =
  te_node :: string
  te_type :: string
  te_status :: string
  te_input :: json
  te_output :: json
  te_error :: "string option"
  te_child :: "json option"

text \<open>
  The mutable part of \<^verbatim>\<open>_RunCtx\<close>, the table of the runs, and the number of calls made to the
  outside.
\<close>

record run_ctx =
  rc_nodes :: "(string \<times> json) list"
  rc_trace :: "trace_entry list"
  rc_vars :: "(string \<times> json) list"
  rc_graph :: wgraph
  rc_rows :: "workflow_run list"
  rc_calls :: nat

text \<open>
  Reading a stored graph: \<^verbatim>\<open>{n["id"]: n for n in graph.get("nodes", [])}\<close> and the edges.
  Iterating over a value that is no list gives nothing when it is an empty text or object.
\<close>

definition iterate :: "json option \<Rightarrow> json list res" where
  "iterate v = (case v of None \<Rightarrow> Ret [] | Some (JArr xs) \<Rightarrow> Ret xs | Some (JStr []) \<Rightarrow> Ret [] | Some (JObj []) \<Rightarrow> Ret []
     | _ \<Rightarrow> Raise TypeError)"

definition decode_node :: "json \<Rightarrow> (string \<times> wnode) res" where
  "decode_node n =
     (case (jget ''id'' n, jget ''type'' n) of
        (Some (JStr i), Some (JStr ty)) \<Rightarrow>
          bind_res (node_config i (case n of JObj kvs \<Rightarrow> kvs | _ \<Rightarrow> [])) (\<lambda>config.
          Ret (i, \<lparr>nd_id = i, nd_type = ty, nd_label = jget ''label'' n, nd_config = config\<rparr>))
      | _ \<Rightarrow> Raise KeyError)"

definition decode_edge :: "json \<Rightarrow> wedge res" where
  "decode_edge e = (case edge_of e of None \<Rightarrow> Raise KeyError | Some w \<Rightarrow> Ret w)"

definition decode_graph :: "json \<Rightarrow> wgraph res" where
  "decode_graph g =
     bind_res (iterate (jget ''nodes'' g)) (\<lambda>ns.
     bind_res (map_res decode_node ns) (\<lambda>nodes.
     bind_res (iterate (jget ''edges'' g)) (\<lambda>es.
     bind_res (map_res decode_edge es) (\<lambda>edges.
     Ret \<lparr>wg_nodes = put_all nodes [], wg_edges = edges\<rparr>))))"

definition node_ids :: "wgraph \<Rightarrow> string list" where
  "node_ids g = map fst (wg_nodes g)"

definition outgoing :: "wgraph \<Rightarrow> string \<Rightarrow> wedge list" where
  "outgoing g n = (if n \<in> set (node_ids g) then filter (\<lambda>e. eg_source e = n) (wg_edges g) else [])"

definition incoming :: "wgraph \<Rightarrow> string \<Rightarrow> wedge list" where
  "incoming g n = (if n \<in> set (node_ids g) then filter (\<lambda>e. eg_target e = n) (wg_edges g) else [])"

definition node_type :: "wgraph \<Rightarrow> string \<Rightarrow> string" where
  "node_type g n = (case map_of (wg_nodes g) n of None \<Rightarrow> [] | Some d \<Rightarrow> nd_type d)"

section \<open>Edges\<close>

record walk_state =
  ws_ready :: "string list"
  ws_waiting :: "string \<Rightarrow> int"
  ws_sat :: "string \<Rightarrow> nat"
  ws_completed :: "string list"
  ws_dead :: "string list"
  ws_ctx :: run_ctx

definition walk_done :: "walk_state \<Rightarrow> string set" where
  "walk_done w = set (ws_completed w) \<union> set (ws_dead w)"

definition skip_entry :: "wgraph \<Rightarrow> string \<Rightarrow> trace_entry" where
  "skip_entry g n = \<lparr>te_node = n, te_type = node_type g n, te_status = ''skipped'', te_input = JNull, te_output = JNull,
     te_error = None, te_child = None\<rparr>"

definition skipped_state :: json where
  "skipped_state = JObj [(''output'', JNull), (''status'', JStr ''skipped'')]"

definition mark_dead :: "wgraph \<Rightarrow> string \<Rightarrow> walk_state \<Rightarrow> walk_state" where
  "mark_dead g n w = w\<lparr>ws_dead := ws_dead w @ [n],
     ws_ctx := (ws_ctx w)\<lparr>rc_trace := rc_trace (ws_ctx w) @ [skip_entry g n],
                          rc_nodes := AList.update n skipped_state (rc_nodes (ws_ctx w))\<rparr>\<rparr>"

definition count_edge :: "string \<Rightarrow> bool \<Rightarrow> walk_state \<Rightarrow> walk_state" where
  "count_edge t satisfied w = w\<lparr>ws_waiting := (ws_waiting w)(t := ws_waiting w t - 1),
     ws_sat := (if satisfied then (ws_sat w)(t := Suc (ws_sat w t)) else ws_sat w)\<rparr>"

definition make_ready :: "string \<Rightarrow> walk_state \<Rightarrow> walk_state" where
  "make_ready t w = (if t \<in> set (ws_ready w) then w else w\<lparr>ws_ready := ws_ready w @ [t]\<rparr>)"

definition alive :: "wgraph \<Rightarrow> walk_state \<Rightarrow> nat" where
  "alive g w = card (set (node_ids g) - walk_done w)"

lemma walk_done_simps [simp]:
  "walk_done (count_edge t b w) = walk_done w" "walk_done (make_ready t w) = walk_done w"
  "walk_done (mark_dead g t w) = insert t (walk_done w)"
  by (auto simp: walk_done_def count_edge_def make_ready_def mark_dead_def)

lemma alive_simps [simp]:
  "alive g (count_edge t b w) = alive g w" "alive g (make_ready t w) = alive g w"
  by (simp_all add: alive_def)

lemma alive_mark_dead: "t \<in> set (node_ids g) \<Longrightarrow> t \<notin> walk_done w \<Longrightarrow> alive g (mark_dead g t w) < alive g w"
  unfolding alive_def walk_done_simps by (rule psubset_card_mono) auto

lemma alive_mark_counted:
  "t \<in> set (node_ids g) \<Longrightarrow> t \<notin> walk_done w \<Longrightarrow> alive g (mark_dead g t (count_edge t b w)) < alive g w"
  using alive_mark_dead [of t g "count_edge t b w"] by simp

text \<open>
  \<^verbatim>\<open>_resolve_edge\<close> on a list of edges.  The recursion over the edges of a node that dies,
  which the code makes before it goes on, puts these edges in front of the list.
\<close>

function resolve_edges :: "wgraph \<Rightarrow> (wedge \<times> bool) list \<Rightarrow> (walk_state, unit) op" where
  "resolve_edges g [] w = (Ret (), w)"
| "resolve_edges g ((e, satisfied) # es) w =
     (let t = eg_target e in
      if t \<in> walk_done w then resolve_edges g es w
      else if t \<notin> set (node_ids g) then (Raise KeyError, w)
      else
        let w1 = count_edge t satisfied w in
        if ws_waiting w1 t \<noteq> 0 then resolve_edges g es w1
        else if 0 < ws_sat w1 t then resolve_edges g es (make_ready t w1)
        else resolve_edges g (map (\<lambda>e. (e, False)) (outgoing g t) @ es) (mark_dead g t w1))"
  by pat_completeness auto

termination
  by (relation "measures [\<lambda>(g, es, w). alive g w, \<lambda>(g, es, w). length es]") (simp_all add: alive_mark_counted)

section \<open>The walk\<close>

type_synonym runner = "wnode \<Rightarrow> (run_ctx, string list option) op"

text \<open>\<^verbatim>\<open>taken is None or sh in taken\<close>; a handle that is a list or an object is not hashable.\<close>

definition handle_taken :: "json \<Rightarrow> string list option \<Rightarrow> bool res" where
  "handle_taken h taken =
     (case taken of
        None \<Rightarrow> Ret True
      | Some hs \<Rightarrow> if \<not> hashable (Some h) then Raise TypeError else Ret (h \<in> JStr ` set hs))"

fun route_edges :: "wgraph \<Rightarrow> string list option \<Rightarrow> wedge list \<Rightarrow> (walk_state, unit) op" where
  "route_edges g taken [] = ret_op ()"
| "route_edges g taken (e # es) =
     bind_op (lift_op (handle_taken (eg_handle e) taken)) (\<lambda>satisfied.
     bind_op (resolve_edges g [(e, satisfied)]) (\<lambda>_. route_edges g taken es))"

fun route_batch :: "wgraph \<Rightarrow> (string \<times> string list option) list \<Rightarrow> (walk_state, unit) op" where
  "route_batch g [] = ret_op ()"
| "route_batch g ((n, taken) # rs) =
     bind_op (modify_op (\<lambda>w. w\<lparr>ws_completed := ws_completed w @ [n]\<rparr>)) (\<lambda>_.
     bind_op (route_edges g taken (outgoing g n)) (\<lambda>_. route_batch g rs))"

text \<open>\<^verbatim>\<open>asyncio.gather(..., return_exceptions=True)\<close>: every node of the batch runs.\<close>

fun run_batch :: "runner \<Rightarrow> wgraph \<Rightarrow> string list \<Rightarrow> run_ctx \<Rightarrow> (string list option) res list \<times> run_ctx" where
  "run_batch run g [] c = ([], c)"
| "run_batch run g (n # ns) c =
     (case run (the (map_of (wg_nodes g) n)) c of
        (r, c1) \<Rightarrow> (case run_batch run g ns c1 of (rs, c2) \<Rightarrow> (r # rs, c2)))"

fun all_returned :: "string list \<Rightarrow> (string list option) res list \<Rightarrow> (string \<times> string list option) list option" where
  "all_returned (n # ns) (Inr t # rs) = map_option (\<lambda>xs. (n, t) # xs) (all_returned ns rs)"
| "all_returned (n # ns) (Inl e # rs) = None"
| "all_returned ns rs = Some []"

definition next_batch :: "walk_state \<Rightarrow> string list" where
  "next_batch w = filter (\<lambda>n. n \<notin> walk_done w) (ws_ready w)"

lemma resolve_edges_done: "walk_done w \<subseteq> walk_done (snd (resolve_edges g es w))"
  by (induction g es w rule: resolve_edges.induct) (auto simp: Let_def)

lemma route_edges_done: "walk_done w \<subseteq> walk_done (snd (route_edges g taken es w))"
proof (induction es arbitrary: w)
  case (Cons e es)
  show ?case
  proof (cases "handle_taken (eg_handle e) taken")
    case (Inr b)
    obtain r w1 where r: "resolve_edges g [(e, b)] w = (r, w1)" by fastforce
    with resolve_edges_done [of w g "[(e, b)]"] Cons.IH [of w1] Inr show ?thesis by (cases r) auto
  qed simp
qed simp

lemma route_batch_done: "walk_done w \<union> (if fst (route_batch g rs w) = Ret () then fst ` set rs else {}) \<subseteq> walk_done (snd (route_batch g rs w))"
proof (induction rs arbitrary: w)
  case (Cons x rs)
  obtain n taken where x: "x = (n, taken)" by fastforce
  let ?w = "w\<lparr>ws_completed := ws_completed w @ [n]\<rparr>"
  have done1: "walk_done ?w = insert n (walk_done w)" by (auto simp: walk_done_def)
  obtain r w1 where r: "route_edges g taken (outgoing g n) ?w = (r, w1)" by fastforce
  with route_edges_done [of ?w g taken "outgoing g n"] done1 have "insert n (walk_done w) \<subseteq> walk_done w1" by simp
  with Cons.IH [of w1] r x show ?case by (cases r) (auto split: if_splits)
qed simp

lemma all_returned_ids: "all_returned ns rs = Some xs \<Longrightarrow> length rs = length ns \<Longrightarrow> map fst xs = ns"
  by (induction ns rs arbitrary: xs rule: all_returned.induct) auto

lemma run_batch_length: "length (fst (run_batch run g ns c)) = length ns"
  by (induction run g ns c rule: run_batch.induct) (auto split: prod.splits)

text \<open>
  One turn of the main loop: the batch runs, then its edges are routed.  A failed node ends the
  walk, once the whole batch has run.
\<close>

definition walk_batch :: "runner \<Rightarrow> wgraph \<Rightarrow> (walk_state, unit) op" where
  "walk_batch run g w =
     (let batch = next_batch w; w0 = w\<lparr>ws_ready := []\<rparr>
      in if \<not> set batch \<subseteq> set (node_ids g) then (Raise KeyError, w0)
         else case run_batch run g batch (ws_ctx w) of (rs, c) \<Rightarrow>
           (case all_returned batch rs of
              None \<Rightarrow> (Raise WorkflowExecutionError, w0\<lparr>ws_ctx := c\<rparr>)
            | Some xs \<Rightarrow> route_batch g xs (w0\<lparr>ws_ctx := c\<rparr>)))"

lemma alive_batch:
  assumes "next_batch w \<noteq> []" "fst (walk_batch run g w) = Ret ()"
  shows "alive g (snd (walk_batch run g w)) < alive g w"
proof -
  obtain rs c where rs: "run_batch run g (next_batch w) (ws_ctx w) = (rs, c)" by fastforce
  let ?w = "w\<lparr>ws_ready := [], ws_ctx := c\<rparr>"
  from assms(2) rs obtain xs where xs: "all_returned (next_batch w) rs = Some xs" and sub: "set (next_batch w) \<subseteq> set (node_ids g)"
    by (cases "all_returned (next_batch w) rs") (simp_all add: walk_batch_def Let_def split: if_splits)
  have "length rs = length (next_batch w)" using run_batch_length [of run g "next_batch w" "ws_ctx w"] rs by simp
  from all_returned_ids [OF xs this] have ids: "fst ` set xs = set (next_batch w)" by (metis set_map)
  have routed: "walk_batch run g w = route_batch g xs ?w" using xs rs sub by (simp add: walk_batch_def Let_def)
  have "walk_done ?w = walk_done w" by (simp add: walk_done_def)
  with route_batch_done [of ?w g xs] assms(2) ids
  have grown: "walk_done w \<union> set (next_batch w) \<subseteq> walk_done (snd (walk_batch run g w))" by (simp add: routed)
  obtain n where "n \<in> set (next_batch w)" using assms(1) by (cases "next_batch w") auto
  moreover from this have "n \<notin> walk_done w" by (simp add: next_batch_def)
  ultimately show ?thesis
    unfolding alive_def using grown sub by (intro psubset_card_mono) blast+
qed

function walk_loop :: "runner \<Rightarrow> wgraph \<Rightarrow> (walk_state, unit) op" where
  "walk_loop run g w =
     (if next_batch w = [] then (Ret (), w\<lparr>ws_ready := []\<rparr>)
      else if fst (walk_batch run g w) = Ret () then walk_loop run g (snd (walk_batch run g w))
      else walk_batch run g w)"
  by pat_completeness auto

termination
  by (relation "measure (\<lambda>(run, g, w). alive g w)") (simp_all add: alive_batch)

declare walk_loop.simps [simp del]

text \<open>The start: the nodes without incoming edges, or the one entry that was asked for.\<close>

definition default_entries :: "wgraph \<Rightarrow> string list" where
  "default_entries g = filter (\<lambda>n. incoming g n = []) (node_ids g)"

definition walk_init :: "wgraph \<Rightarrow> run_ctx \<Rightarrow> walk_state" where
  "walk_init g c = \<lparr>ws_ready = default_entries g, ws_waiting = (\<lambda>n. int (length (incoming g n))), ws_sat = (\<lambda>_. 0),
     ws_completed = [], ws_dead = [], ws_ctx = c\<rparr>"

definition walk_start :: "wgraph \<Rightarrow> string option \<Rightarrow> run_ctx \<Rightarrow> unit res \<times> walk_state" where
  "walk_start g entry c =
     (case entry of
        None \<Rightarrow> (Ret (), walk_init g c)
      | Some n \<Rightarrow>
          if n \<notin> set (default_entries g) then (Raise WorkflowExecutionError, walk_init g c)
          else
            let siblings = filter (\<lambda>m. m \<noteq> n) (default_entries g);
                w = fold (mark_dead g) siblings ((walk_init g c)\<lparr>ws_ready := [n]\<rparr>)
            in resolve_edges g (map (\<lambda>e. (e, False)) (concat (map (outgoing g) siblings))) w)"

definition walk_end :: "runner \<Rightarrow> wgraph \<Rightarrow> string option \<Rightarrow> run_ctx \<Rightarrow> unit res \<times> walk_state" where
  "walk_end run g entry c =
     (case walk_start g entry c of
        (Inl e, w) \<Rightarrow> (Raise e, w)
      | (Inr _, w) \<Rightarrow> walk_loop run g w)"

text \<open>Nodes that were never reached are recorded in the trace, not in the context.\<close>

definition record_orphans :: "wgraph \<Rightarrow> walk_state \<Rightarrow> run_ctx" where
  "record_orphans g w =
     (let c = ws_ctx w; recorded = set (map te_node (rc_trace c))
      in c\<lparr>rc_trace := rc_trace c @ map (skip_entry g)
           (filter (\<lambda>n. n \<notin> walk_done w \<and> n \<notin> recorded) (node_ids g))\<rparr>)"

definition walk :: "runner \<Rightarrow> wgraph \<Rightarrow> string option \<Rightarrow> (run_ctx, unit) op" where
  "walk run g entry c =
     (case walk_end run g entry c of
        (Inl e, w) \<Rightarrow> (Raise e, ws_ctx w)
      | (Inr _, w) \<Rightarrow> (Ret (), record_orphans g w))"

end
