(* ===== verification/WorkflowOrder.thy ===== *)
theory WorkflowOrder
  imports WorkflowWalk "HOL-Library.Multiset"
begin

text \<open>
  What the walk of \<open>WorkflowWalk\<close> guarantees: a node runs exactly when it is an entry or an
  edge from a node that ran reaches it over a handle that was taken, every other node is skipped,
  and no node runs before all its sources are decided.  The invariant is stated for a list of
  edges that are still to be counted, so that it passes through the cascade of skipped nodes.
\<close>

section \<open>The invariant of the walk\<close>

type_synonym outcomes = "string \<Rightarrow> string list option"

definition takes :: "outcomes \<Rightarrow> wedge \<Rightarrow> bool" where
  "takes T e \<longleftrightarrow> handle_taken (eg_handle e) (T (eg_source e)) = Ret True"

definition fires :: "outcomes \<Rightarrow> walk_state \<Rightarrow> wedge \<Rightarrow> bool" where
  "fires T w e \<longleftrightarrow> eg_source e \<in> set (ws_completed w) \<and> takes T e"

definition closed_graph :: "wgraph \<Rightarrow> bool" where
  "closed_graph g \<longleftrightarrow> distinct (node_ids g) \<and>
     (\<forall>e \<in> set (wg_edges g). eg_source e \<in> set (node_ids g) \<and> eg_target e \<in> set (node_ids g))"

definition to_node :: "string \<Rightarrow> wedge \<times> bool \<Rightarrow> bool" where
  "to_node n p \<longleftrightarrow> eg_target (fst p) = n"

abbreviation open_nodes :: "wgraph \<Rightarrow> walk_state \<Rightarrow> string set" where
  "open_nodes g w \<equiv> set (node_ids g) - walk_done w"

text \<open>\<open>P\<close> holds the edges still to be counted, with whether they are satisfied.\<close>

definition counts_ok :: "wgraph \<Rightarrow> outcomes \<Rightarrow> (wedge \<times> bool) list \<Rightarrow> walk_state \<Rightarrow> bool" where
  "counts_ok g T P w \<longleftrightarrow> (\<forall>n \<in> open_nodes g w.
     ws_waiting w n = int (length (filter (\<lambda>e. eg_source e \<notin> walk_done w) (incoming g n)) + length (filter (to_node n) P)) \<and>
     ws_sat w n + length (filter (\<lambda>p. to_node n p \<and> snd p) P) = length (filter (fires T w) (incoming g n)))"

text \<open>\<open>B\<close> is the part of the running batch that is not routed yet.\<close>

definition ready_ok :: "wgraph \<Rightarrow> string list \<Rightarrow> walk_state \<Rightarrow> bool" where
  "ready_ok g B w \<longleftrightarrow> (\<forall>n \<in> open_nodes g w. ws_waiting w n = 0 \<longleftrightarrow> n \<in> set (ws_ready w) \<union> set B)"

definition justified :: "wgraph \<Rightarrow> outcomes \<Rightarrow> string set \<Rightarrow> walk_state \<Rightarrow> string \<Rightarrow> bool" where
  "justified g T S w n \<longleftrightarrow> n \<in> S \<or> (\<exists>e \<in> set (incoming g n). fires T w e)"

definition doomed :: "wgraph \<Rightarrow> outcomes \<Rightarrow> string set \<Rightarrow> walk_state \<Rightarrow> string \<Rightarrow> bool" where
  "doomed g T S w n \<longleftrightarrow> n \<notin> S \<and> (\<forall>e \<in> set (incoming g n). eg_source e \<in> walk_done w \<and> \<not> fires T w e)"

definition ordered :: "wgraph \<Rightarrow> walk_state \<Rightarrow> bool" where
  "ordered g w \<longleftrightarrow> (\<forall>xs n ys. ws_completed w = xs @ n # ys \<longrightarrow>
     (\<forall>e \<in> set (incoming g n). eg_source e \<in> set xs \<union> set (ws_dead w)))"

definition settled_ok :: "wgraph \<Rightarrow> outcomes \<Rightarrow> string set \<Rightarrow> string list \<Rightarrow> walk_state \<Rightarrow> bool" where
  "settled_ok g T S B w \<longleftrightarrow>
     distinct (ws_ready w @ B @ ws_completed w @ ws_dead w) \<and>
     set (ws_ready w @ B @ ws_completed w @ ws_dead w) \<subseteq> set (node_ids g) \<and>
     (\<forall>n \<in> set (ws_ready w @ B @ ws_completed w). justified g T S w n) \<and>
     (\<forall>n \<in> set (ws_dead w). doomed g T S w n) \<and> ordered g w"

definition walk_inv ::
  "wgraph \<Rightarrow> outcomes \<Rightarrow> string set \<Rightarrow> (wedge \<times> bool) list \<Rightarrow> string list \<Rightarrow> walk_state \<Rightarrow> bool" where
  "walk_inv g T S P B w \<longleftrightarrow> counts_ok g T P w \<and> ready_ok g B w \<and> settled_ok g T S B w \<and> fst ` set P \<subseteq> set (wg_edges g)"

section \<open>Counting one edge\<close>

lemma incoming_iff: "n \<in> set (node_ids g) \<Longrightarrow> e \<in> set (incoming g n) \<longleftrightarrow> e \<in> set (wg_edges g) \<and> eg_target e = n"
  by (auto simp: incoming_def)

lemma fires_simps [simp]:
  "fires T (count_edge t b w) = fires T w" "fires T (make_ready t w) = fires T w" "fires T (mark_dead g t w) = fires T w"
  by (auto simp: fires_def count_edge_def make_ready_def mark_dead_def)

lemma ws_simps [simp]:
  "ws_ready (count_edge t b w) = ws_ready w" "ws_completed (count_edge t b w) = ws_completed w"
  "ws_dead (count_edge t b w) = ws_dead w" "ws_waiting (count_edge t b w) = (ws_waiting w)(t := ws_waiting w t - 1)"
  "ws_sat (count_edge t b w) = (if b then (ws_sat w)(t := Suc (ws_sat w t)) else ws_sat w)"
  "ws_completed (make_ready t w) = ws_completed w" "ws_dead (make_ready t w) = ws_dead w"
  "ws_waiting (make_ready t w) = ws_waiting w" "ws_sat (make_ready t w) = ws_sat w"
  "ws_completed (mark_dead g t w) = ws_completed w" "ws_dead (mark_dead g t w) = ws_dead w @ [t]"
  "ws_ready (mark_dead g t w) = ws_ready w" "ws_waiting (mark_dead g t w) = ws_waiting w" "ws_sat (mark_dead g t w) = ws_sat w"
  by (auto simp: count_edge_def make_ready_def mark_dead_def)

lemma justified_simps [simp]:
  "justified g T S (count_edge t b w) = justified g T S w" "justified g T S (make_ready t w) = justified g T S w"
  "justified g T S (mark_dead g' t w) = justified g T S w"
  by (auto simp: justified_def fun_eq_iff)

lemma doomed_simps [simp]:
  "doomed g T S (count_edge t b w) = doomed g T S w" "doomed g T S (make_ready t w) = doomed g T S w"
  by (auto simp: doomed_def fun_eq_iff)

lemma settled_count [simp]: "settled_ok g T S B (count_edge t b w) = settled_ok g T S B w"
  by (simp add: settled_ok_def ordered_def)

lemma counts_okD:
  assumes "counts_ok g T P w" "n \<in> open_nodes g w"
  shows "ws_waiting w n = int (length (filter (\<lambda>e. eg_source e \<notin> walk_done w) (incoming g n)) + length (filter (to_node n) P))"
    and "ws_sat w n + length (filter (\<lambda>p. to_node n p \<and> snd p) P) = length (filter (fires T w) (incoming g n))"
  using assms unfolding counts_ok_def by blast+

lemma counts_drop:
  assumes "counts_ok g T ((e, b) # P) w" "eg_target e \<in> walk_done w"
  shows "counts_ok g T P w"
  unfolding counts_ok_def
proof
  fix n assume n: "n \<in> open_nodes g w"
  then have "\<not> to_node n (e, b)" using assms(2) by (auto simp: to_node_def)
  with counts_okD [OF assms(1) n]
  show "ws_waiting w n = int (length (filter (\<lambda>e. eg_source e \<notin> walk_done w) (incoming g n)) + length (filter (to_node n) P)) \<and>
     ws_sat w n + length (filter (\<lambda>p. to_node n p \<and> snd p) P) = length (filter (fires T w) (incoming g n))"
    by simp
qed

lemma counts_count:
  assumes "counts_ok g T ((e, b) # P) w"
  shows "counts_ok g T P (count_edge (eg_target e) b w)"
  unfolding counts_ok_def walk_done_simps fires_simps
proof
  fix n assume n: "n \<in> open_nodes g w"
  have "to_node n (e, b) \<longleftrightarrow> eg_target e = n" by (simp add: to_node_def)
  with counts_okD [OF assms n] show "ws_waiting (count_edge (eg_target e) b w) n =
      int (length (filter (\<lambda>e. eg_source e \<notin> walk_done w) (incoming g n)) + length (filter (to_node n) P)) \<and>
     ws_sat (count_edge (eg_target e) b w) n + length (filter (\<lambda>p. to_node n p \<and> snd p) P) = length (filter (fires T w) (incoming g n))"
    by (cases "eg_target e = n"; cases b) simp_all
qed

lemma counts_waiting:
  assumes "counts_ok g T P w" "n \<in> open_nodes g w"
  shows "0 \<le> ws_waiting w n" "ws_waiting w n = 0 \<Longrightarrow> (\<forall>e \<in> set (incoming g n). eg_source e \<in> walk_done w) \<and> (\<forall>p \<in> set P. \<not> to_node n p)"
  using counts_okD(1) [OF assms] by (auto simp: filter_empty_conv simp del: of_nat_add)

lemma counts_sat:
  assumes "counts_ok g T P w" "n \<in> open_nodes g w" "ws_waiting w n = 0"
  shows "0 < ws_sat w n \<longleftrightarrow> (\<exists>e \<in> set (incoming g n). fires T w e)"
proof -
  have "filter (\<lambda>p. to_node n p \<and> snd p) P = []" using counts_waiting(2) [OF assms] by (auto simp: filter_empty_conv)
  then have "ws_sat w n = length (filter (fires T w) (incoming g n))" using counts_okD(2) [OF assms(1,2)] by simp
  then show ?thesis by (auto simp: filter_empty_conv)
qed

lemma counts_before:
  assumes "counts_ok g T ((e, b) # P) w" "eg_target e \<in> open_nodes g w"
  shows "0 < ws_waiting w (eg_target e)"
proof -
  have "to_node (eg_target e) (e, b)" by (simp add: to_node_def)
  with counts_okD(1) [OF assms] show ?thesis by simp
qed

section \<open>A node that is decided\<close>

text \<open>The edges out of a node move from the undecided sources to the edges to be counted.\<close>

lemma filter_split:
  assumes "\<And>e. e \<in> set es \<Longrightarrow> p e \<longleftrightarrow> (q e \<or> r e)" "\<And>e. e \<in> set es \<Longrightarrow> \<not> (q e \<and> r e)"
  shows "length (filter p es) = length (filter q es) + length (filter r es)"
  using assms by (induction es) auto

lemma outgoing_counted:
  assumes "s \<in> set (node_ids g)" "n \<in> set (node_ids g)"
  shows "length (filter (\<lambda>p. to_node n p \<and> h (fst p)) (map (\<lambda>e. (e, f e)) (outgoing g s))) =
      length (filter (\<lambda>e. eg_source e = s \<and> h e) (incoming g n))"
  using assms by (simp add: outgoing_def incoming_def filter_map comp_def to_node_def conj_ac)

lemma counts_decided:
  assumes counts: "counts_ok g T P w" and s: "s \<in> open_nodes g w"
    and grown: "walk_done w' = insert s (walk_done w)"
    and same: "ws_waiting w' = ws_waiting w" "ws_sat w' = ws_sat w"
    and fires: "\<And>e. e \<in> set (wg_edges g) \<Longrightarrow> fires T w' e \<longleftrightarrow> fires T w e \<or> (eg_source e = s \<and> f e)"
  shows "counts_ok g T (map (\<lambda>e. (e, f e)) (outgoing g s) @ P) w'"
  unfolding counts_ok_def
proof (intro ballI conjI)
  fix n assume n: "n \<in> open_nodes g w'"
  with grown have n': "n \<in> open_nodes g w" by auto
  have edge: "e \<in> set (wg_edges g)" if "e \<in> set (incoming g n)" for e using that n by (simp add: incoming_iff)
  have sn: "s \<in> set (node_ids g)" "n \<in> set (node_ids g)" using s n by auto
  have "length (filter (\<lambda>e. eg_source e \<notin> walk_done w) (incoming g n)) =
     length (filter (\<lambda>e. eg_source e \<notin> walk_done w') (incoming g n)) + length (filter (\<lambda>e. eg_source e = s \<and> True) (incoming g n))"
    by (rule filter_split) (use grown s in auto)
  also have "length (filter (\<lambda>e. eg_source e = s \<and> True) (incoming g n)) = length (filter (to_node n) (map (\<lambda>e. (e, f e)) (outgoing g s)))"
    using outgoing_counted [OF sn, where h = "\<lambda>_. True" and f = f] by simp
  finally show "ws_waiting w' n = int (length (filter (\<lambda>e. eg_source e \<notin> walk_done w') (incoming g n)) +
      length (filter (to_node n) (map (\<lambda>e. (e, f e)) (outgoing g s) @ P)))"
    using counts_okD [OF counts n'] same by simp
  have not_yet: "\<not> fires T w e" if "eg_source e = s" for e using that s by (simp add: fires_def walk_done_def)
  have "length (filter (fires T w') (incoming g n)) =
     length (filter (fires T w) (incoming g n)) + length (filter (\<lambda>e. eg_source e = s \<and> f e) (incoming g n))"
    by (rule filter_split) (use fires edge not_yet in blast)+
  also have "length (filter (\<lambda>e. eg_source e = s \<and> f e) (incoming g n)) =
     length (filter (\<lambda>p. to_node n p \<and> snd p) (map (\<lambda>e. (e, f e)) (outgoing g s)))"
    using sn by (simp add: outgoing_def incoming_def filter_map comp_def to_node_def conj_ac)
  finally show "ws_sat w' n + length (filter (\<lambda>p. to_node n p \<and> snd p) (map (\<lambda>e. (e, f e)) (outgoing g s) @ P)) =
      length (filter (fires T w') (incoming g n))"
    using counts_okD [OF counts n'] same by simp
qed

lemma outgoing_edges: "set (outgoing g s) \<subseteq> set (wg_edges g)"
  by (auto simp: outgoing_def)

lemma doomed_mono:
  assumes "doomed g T S w n" "walk_done w \<subseteq> walk_done w'" "\<And>e. eg_source e \<in> walk_done w \<Longrightarrow> fires T w' e \<Longrightarrow> fires T w e"
  shows "doomed g T S w' n"
  using assms unfolding doomed_def by blast

lemma justified_mono:
  assumes "justified g T S w n" "\<And>e. fires T w e \<Longrightarrow> fires T w' e"
  shows "justified g T S w' n"
  using assms unfolding justified_def by blast

section \<open>One edge and its cascade\<close>

lemma walk_invD:
  assumes "walk_inv g T S P B w"
  shows "counts_ok g T P w" "ready_ok g B w" "settled_ok g T S B w" "fst ` set P \<subseteq> set (wg_edges g)"
  using assms unfolding walk_inv_def by blast+

lemma settled_okD:
  assumes "settled_ok g T S B w"
  shows "distinct (ws_ready w @ B @ ws_completed w @ ws_dead w)"
    and "set (ws_ready w @ B @ ws_completed w @ ws_dead w) \<subseteq> set (node_ids g)"
    and "\<And>n. n \<in> set (ws_ready w @ B @ ws_completed w) \<Longrightarrow> justified g T S w n"
    and "\<And>n. n \<in> set (ws_dead w) \<Longrightarrow> doomed g T S w n"
    and "ordered g w"
  using assms unfolding settled_ok_def by blast+

lemma settled_ready:
  assumes "settled_ok g T S B w" "t \<in> open_nodes g w" "t \<notin> set (ws_ready w) \<union> set B" "justified g T S w t"
  shows "settled_ok g T S B (make_ready t w)"
proof -
  have "ws_ready (make_ready t w) = ws_ready w @ [t]" using assms(3) by (simp add: make_ready_def)
  then show ?thesis
    using assms settled_okD [OF assms(1)] unfolding settled_ok_def ordered_def walk_done_def by auto
qed

lemma ordered_mark: "ordered g w \<Longrightarrow> ordered g (mark_dead g t w)"
  by (simp add: ordered_def)

lemma settled_mark:
  assumes inv: "settled_ok g T S B w" and t: "t \<in> open_nodes g w" "t \<notin> set (ws_ready w) \<union> set B" and doom: "doomed g T S w t"
  shows "settled_ok g T S B (mark_dead g t w)"
proof -
  have kept: "doomed g T S (mark_dead g t w) n" if "n \<in> insert t (set (ws_dead w))" for n
    by (rule doomed_mono [of g T S w]) (use that doom settled_okD(4) [OF inv] in auto)
  then show ?thesis
    using t settled_okD [OF inv] ordered_mark [of g w t] unfolding settled_ok_def walk_done_def by auto
qed

text \<open>Counting an edge keeps everything but the readiness of its target.\<close>

lemma step_count:
  assumes inv: "walk_inv g T S ((e, b) # P) B w" and t: "t = eg_target e" "t \<in> open_nodes g w"
  shows "counts_ok g T P (count_edge t b w)" "t \<notin> set (ws_ready w) \<union> set B"
    and "\<And>n. n \<in> open_nodes g w \<Longrightarrow> n \<noteq> t \<Longrightarrow> ws_waiting (count_edge t b w) n = 0 \<longleftrightarrow> n \<in> set (ws_ready w) \<union> set B"
proof -
  show "counts_ok g T P (count_edge t b w)" using counts_count [OF walk_invD(1) [OF inv]] t by simp
  have ready: "n \<in> open_nodes g w \<Longrightarrow> ws_waiting w n = 0 \<longleftrightarrow> n \<in> set (ws_ready w) \<union> set B" for n
    using walk_invD(2) [OF inv] unfolding ready_ok_def by blast
  with counts_before [OF walk_invD(1) [OF inv]] t show "t \<notin> set (ws_ready w) \<union> set B" by (metis less_irrefl)
  show "ws_waiting (count_edge t b w) n = 0 \<longleftrightarrow> n \<in> set (ws_ready w) \<union> set B" if "n \<in> open_nodes g w" "n \<noteq> t" for n
    using ready [OF that(1)] that(2) by simp
qed

lemma inv_drop:
  assumes "walk_inv g T S ((e, b) # P) B w" "eg_target e \<in> walk_done w"
  shows "walk_inv g T S P B w"
  using assms counts_drop unfolding walk_inv_def by simp blast

lemma inv_wait:
  assumes inv: "walk_inv g T S ((e, b) # P) B w" and t: "t = eg_target e" "t \<in> open_nodes g w"
    and "ws_waiting (count_edge t b w) t \<noteq> 0"
  shows "walk_inv g T S P B (count_edge t b w)"
proof -
  have "ready_ok g B (count_edge t b w)"
    using step_count [OF assms(1-3)] assms(4) unfolding ready_ok_def walk_done_simps by (metis ws_simps(1))
  then show ?thesis using step_count(1) [OF assms(1-3)] walk_invD(3,4) [OF inv] unfolding walk_inv_def by simp
qed

lemma inv_ready:
  assumes inv: "walk_inv g T S ((e, b) # P) B w" and t: "t = eg_target e" "t \<in> open_nodes g w"
    and zero: "ws_waiting (count_edge t b w) t = 0" "0 < ws_sat (count_edge t b w) t"
  shows "walk_inv g T S P B (make_ready t (count_edge t b w))"
proof -
  let ?w = "count_edge t b w"
  note step = step_count [OF assms(1-3)]
  have just: "justified g T S ?w t"
    using counts_sat [OF step(1)] t(2) zero unfolding justified_def by simp
  have "set (ws_ready (make_ready t ?w)) = insert t (set (ws_ready w))" by (auto simp: make_ready_def)
  then have "ready_ok g B (make_ready t ?w)" using step(3) zero(1) unfolding ready_ok_def walk_done_simps by auto
  moreover have "settled_ok g T S B (make_ready t ?w)"
    by (rule settled_ready) (use walk_invD(3) [OF inv] step(2) t(2) just in simp_all)
  moreover have "counts_ok g T P (make_ready t ?w)" using step(1) unfolding counts_ok_def by simp
  ultimately show ?thesis using walk_invD(4) [OF inv] unfolding walk_inv_def by simp
qed

lemma inv_die:
  assumes inv: "walk_inv g T S ((e, b) # P) B w" and t: "t = eg_target e" "t \<in> open_nodes g w"
    and zero: "ws_waiting (count_edge t b w) t = 0" "\<not> 0 < ws_sat (count_edge t b w) t"
    and start: "t \<notin> S"
  shows "walk_inv g T S (map (\<lambda>e. (e, False)) (outgoing g t) @ P) B (mark_dead g t (count_edge t b w))"
proof -
  let ?w = "count_edge t b w"
  note step = step_count [OF assms(1-3)]
  have doom: "doomed g T S ?w t"
    using counts_sat [OF step(1)] counts_waiting(2) [OF step(1)] t(2) zero start unfolding doomed_def by simp
  have "settled_ok g T S B (mark_dead g t ?w)"
    by (rule settled_mark) (use walk_invD(3) [OF inv] step(2) t(2) doom in simp_all)
  moreover have "ready_ok g B (mark_dead g t ?w)" using step(3) unfolding ready_ok_def walk_done_simps by simp
  moreover have "counts_ok g T (map (\<lambda>e. (e, False)) (outgoing g t) @ P) (mark_dead g t ?w)"
    by (rule counts_decided [OF step(1)]) (use t in auto)
  ultimately show ?thesis using walk_invD(4) [OF inv] outgoing_edges [of g t] unfolding walk_inv_def by auto
qed

lemma resolve_edges_inv:
  assumes "walk_inv g T S (es @ P) B w" "closed_graph g" "\<And>e. e \<in> set (wg_edges g) \<Longrightarrow> eg_target e \<notin> S"
  shows "fst (resolve_edges g es w) = Ret () \<and> walk_inv g T S P B (snd (resolve_edges g es w))"
  using assms
proof (induction g es w rule: resolve_edges.induct)
  case (2 g e b es w)
  define t where "t = eg_target e"
  let ?w = "count_edge t b w"
  have inv: "walk_inv g T S ((e, b) # es @ P) B w" using 2 by simp
  then have "e \<in> set (wg_edges g)" using walk_invD(4) by fastforce
  then have node: "t \<in> set (node_ids g)" and start: "t \<notin> S" using 2 t_def by (auto simp: closed_graph_def)
  consider "t \<in> walk_done w" | "t \<in> open_nodes g w" "ws_waiting ?w t \<noteq> 0"
    | "t \<in> open_nodes g w" "ws_waiting ?w t = 0" "0 < ws_sat ?w t"
    | "t \<in> open_nodes g w" "ws_waiting ?w t = 0" "\<not> 0 < ws_sat ?w t" using node by auto
  then show ?case
  proof cases
    case 1
    with 2 t_def inv_drop [OF inv] show ?thesis by simp
  next
    case 2
    with "2.IH"(2) [OF t_def] "2.prems" inv_wait [OF inv t_def] node show ?thesis by (simp add: t_def Let_def)
  next
    case 3
    with "2.IH"(3) [OF t_def] "2.prems" inv_ready [OF inv t_def] node show ?thesis by (simp add: t_def Let_def)
  next
    case 4
    with "2.IH"(4) [OF t_def] "2.prems" inv_die [OF inv t_def _ _ _ start] node show ?thesis by (simp add: t_def Let_def)
  qed
qed simp

section \<open>A batch\<close>

abbreviation with_takes :: "outcomes \<Rightarrow> wedge list \<Rightarrow> (wedge \<times> bool) list" where
  "with_takes T es \<equiv> map (\<lambda>e. (e, takes T e)) es"

abbreviation complete :: "string \<Rightarrow> walk_state \<Rightarrow> walk_state" where
  "complete n w \<equiv> w\<lparr>ws_completed := ws_completed w @ [n]\<rparr>"

lemma ordered_complete:
  assumes "ordered g w" "\<And>e. e \<in> set (incoming g n) \<Longrightarrow> eg_source e \<in> walk_done w"
  shows "ordered g (complete n w)"
  unfolding ordered_def
proof (intro allI impI)
  fix xs m ys assume split: "ws_completed (complete n w) = xs @ m # ys"
  show "\<forall>e \<in> set (incoming g m). eg_source e \<in> set xs \<union> set (ws_dead (complete n w))"
  proof (cases ys rule: rev_cases)
    case Nil
    with split assms(2) show ?thesis by (simp add: walk_done_def)
  next
    case (snoc zs z)
    with split have "ws_completed w = xs @ m # zs" by simp
    with assms(1) show ?thesis unfolding ordered_def by simp
  qed
qed

lemma inv_complete:
  assumes inv: "walk_inv g T S [] (n # B) w"
  shows "walk_inv g T S (with_takes T (outgoing g n)) B (complete n w)"
proof -
  let ?w = "complete n w"
  note settled = settled_okD [OF walk_invD(3) [OF inv]]
  have n: "n \<in> open_nodes g w" using settled(1,2) by (auto simp: walk_done_def)
  have zero: "ws_waiting w n = 0" using walk_invD(2) [OF inv] n unfolding ready_ok_def by simp
  have grown: "walk_done ?w = insert n (walk_done w)" by (auto simp: walk_done_def)
  have fires: "fires T ?w e \<longleftrightarrow> fires T w e \<or> (eg_source e = n \<and> takes T e)" for e by (auto simp: fires_def)
  have counts: "counts_ok g T (with_takes T (outgoing g n) @ []) ?w"
    by (rule counts_decided [OF walk_invD(1) [OF inv] n grown]) (simp_all add: fires)
  have ready: "ready_ok g B ?w" using walk_invD(2) [OF inv] unfolding ready_ok_def grown by auto
  have just: "justified g T S ?w m" if "m \<in> set (ws_ready w @ (n # B) @ ws_completed w)" for m
    using justified_mono [OF settled(3) [OF that]] fires by blast
  have doom: "doomed g T S ?w m" if "m \<in> set (ws_dead w)" for m
    by (rule doomed_mono [OF settled(4) [OF that]]) (use grown fires n in auto)
  have "ordered g ?w" by (rule ordered_complete [OF settled(5)]) (use counts_waiting(2) [OF walk_invD(1) [OF inv] n zero] in blast)
  with just doom settled(1,2) have "settled_ok g T S B ?w" unfolding settled_ok_def by auto
  with counts ready outgoing_edges [of g n] show ?thesis unfolding walk_inv_def by auto
qed

lemma inv_outcomes:
  assumes "walk_inv g T S [] B w" "\<And>n. n \<in> set (ws_completed w) \<Longrightarrow> T' n = T n"
  shows "walk_inv g T' S [] B w"
proof -
  have fires: "fires T' w = fires T w" using assms(2) by (auto simp: fires_def takes_def fun_eq_iff)
  show ?thesis
    using assms(1) unfolding walk_inv_def counts_ok_def settled_ok_def justified_def doomed_def fires by simp
qed

definition plain_handles :: "wgraph \<Rightarrow> bool" where
  "plain_handles g \<longleftrightarrow> (\<forall>e \<in> set (wg_edges g). hashable (Some (eg_handle e)))"

lemma handle_takes: "handle_taken (eg_handle e) (T (eg_source e)) = Ret b \<Longrightarrow> takes T e = b"
  by (simp add: takes_def)

lemma handle_plain: "plain_handles g \<Longrightarrow> e \<in> set (wg_edges g) \<Longrightarrow> \<exists>b. handle_taken (eg_handle e) taken = Ret b"
  by (cases taken) (auto simp: plain_handles_def handle_taken_def)

lemma route_edges_inv:
  assumes "walk_inv g T S (with_takes T es) B w" "closed_graph g" "\<And>e. e \<in> set (wg_edges g) \<Longrightarrow> eg_target e \<notin> S"
    and "\<And>e. e \<in> set es \<Longrightarrow> eg_source e = n"
  shows "(fst (route_edges g (T n) es w) = Ret () \<longrightarrow> walk_inv g T S [] B (snd (route_edges g (T n) es w))) \<and>
    (plain_handles g \<longrightarrow> fst (route_edges g (T n) es w) = Ret ())"
  using assms(1,4)
proof (induction es arbitrary: w)
  case (Cons e es)
  have e: "e \<in> set (wg_edges g)" "eg_source e = n" using Cons.prems walk_invD(4) by fastforce+
  show ?case
  proof (cases "handle_taken (eg_handle e) (T n)")
    case (Inl x)
    with handle_plain [OF _ e(1), of "T n"] show ?thesis by auto
  next
    case (Inr b)
    then have "takes T e = b" using handle_takes [of e T] e(2) by simp
    with Cons.prems have "walk_inv g T S ([(e, b)] @ with_takes T es) B w" by simp
    with resolve_edges_inv [OF this assms(2,3)]
    have "resolve_edges g [(e, b)] w = (Ret (), snd (resolve_edges g [(e, b)] w))"
      "walk_inv g T S (with_takes T es) B (snd (resolve_edges g [(e, b)] w))" by (simp_all add: prod_eq_iff)
    with Cons.IH [OF this(2)] Cons.prems(2) Inr show ?thesis by (simp add: bind_op_Inr)
  qed
qed simp

lemma route_batch_inv:
  assumes "walk_inv g T S [] (map fst xs) w" "closed_graph g" "\<And>e. e \<in> set (wg_edges g) \<Longrightarrow> eg_target e \<notin> S"
    and "\<And>n t. (n, t) \<in> set xs \<Longrightarrow> T n = t"
  shows "(fst (route_batch g xs w) = Ret () \<longrightarrow> walk_inv g T S [] [] (snd (route_batch g xs w))) \<and>
    (plain_handles g \<longrightarrow> fst (route_batch g xs w) = Ret ())"
  using assms(1,4)
proof (induction xs arbitrary: w)
  case (Cons x xs)
  obtain n t where x: "x = (n, t)" by fastforce
  then have t: "t = T n" using Cons.prems(2) [of n t] by simp
  obtain r w1 where r: "route_edges g (T n) (outgoing g n) (complete n w) = (r, w1)" by fastforce
  have "walk_inv g T S (with_takes T (outgoing g n)) (map fst xs) (complete n w)"
    by (rule inv_complete) (use Cons.prems(1) x in simp)
  from route_edges_inv [OF this assms(2,3), of n] r
  have "(r = Ret () \<longrightarrow> walk_inv g T S [] (map fst xs) w1) \<and> (plain_handles g \<longrightarrow> r = Ret ())"
    by (auto simp: outgoing_def split: if_splits)
  with Cons.IH [of w1] Cons.prems(2) r x t show ?case by (cases r) auto
qed simp

section \<open>The walk\<close>

definition run_returns :: "runner \<Rightarrow> bool" where
  "run_returns run \<longleftrightarrow> (\<forall>d c. \<not> isl (fst (run d c)))"

text \<open>Every completed node was run, with the outcome that \<open>T\<close> names.\<close>

definition ran :: "runner \<Rightarrow> wgraph \<Rightarrow> outcomes \<Rightarrow> walk_state \<Rightarrow> bool" where
  "ran run g T w \<longleftrightarrow> (\<forall>n \<in> set (ws_completed w). \<exists>c c'. run (the (map_of (wg_nodes g) n)) c = (Ret (T n), c'))"

lemma run_batch_outcome:
  assumes "run_batch run g ns c = (rs, c')" "all_returned ns rs = Some xs" "(n, t) \<in> set xs"
  shows "\<exists>c c'. run (the (map_of (wg_nodes g) n)) c = (Ret t, c')"
  using assms
proof (induction ns arbitrary: c rs c' xs)
  case (Cons m ns)
  obtain r c1 where r: "run (the (map_of (wg_nodes g) m)) c = (r, c1)" by fastforce
  obtain qs c2 where qs: "run_batch run g ns c1 = (qs, c2)" by fastforce
  have rs: "rs = r # qs" using Cons.prems(1) r qs by simp
  with Cons.prems(2) obtain u ys where u: "r = Ret u" "all_returned ns qs = Some ys" "xs = (m, u) # ys"
    by (cases r) auto
  with Cons.IH [OF qs u(2)] Cons.prems(3) r show ?case by auto
qed simp

lemma all_returned_None: "all_returned ns rs = None \<Longrightarrow> \<exists>r \<in> set rs. isl r"
  by (induction ns rs rule: all_returned.induct) auto

lemma run_batch_returns: "run_returns run \<Longrightarrow> run_batch run g ns c = (rs, c') \<Longrightarrow> r \<in> set rs \<Longrightarrow> \<not> isl r"
proof (induction ns arbitrary: c rs c')
  case (Cons m ns)
  obtain q c1 where q: "run (the (map_of (wg_nodes g) m)) c = (q, c1)" by fastforce
  obtain qs c2 where qs: "run_batch run g ns c1 = (qs, c2)" by fastforce
  have "\<not> isl q" using Cons.prems(1) q unfolding run_returns_def by (metis fst_conv)
  with Cons q qs show ?case by auto
qed simp

lemma next_batch_ready: "settled_ok g T S [] w \<Longrightarrow> next_batch w = ws_ready w"
  unfolding next_batch_def by (rule filter_True) (auto dest!: settled_okD(1) simp: walk_done_def)

lemma inv_start_batch:
  assumes "walk_inv g T S [] [] w"
  shows "walk_inv g T S [] (ws_ready w) (w\<lparr>ws_ready := [], ws_ctx := c\<rparr>)"
proof -
  let ?w = "w\<lparr>ws_ready := [], ws_ctx := c\<rparr>"
  have same: "walk_done ?w = walk_done w" "fires T ?w = fires T w" by (simp_all add: walk_done_def fires_def fun_eq_iff)
  have "counts_ok g T [] ?w" using walk_invD(1) [OF assms] unfolding counts_ok_def same by simp
  moreover have "ready_ok g (ws_ready w) ?w" using walk_invD(2) [OF assms] unfolding ready_ok_def same by simp
  moreover have "settled_ok g T S (ws_ready w) ?w"
    using walk_invD(3) [OF assms] unfolding settled_ok_def justified_def doomed_def ordered_def same by simp
  ultimately show ?thesis unfolding walk_inv_def by simp
qed

text \<open>The completed nodes grow by the batch, and nothing else.\<close>

lemma resolve_edges_completed: "ws_completed (snd (resolve_edges g es w)) = ws_completed w"
  by (induction g es w rule: resolve_edges.induct) (auto simp: Let_def)

lemma route_edges_completed: "ws_completed (snd (route_edges g taken es w)) = ws_completed w"
proof (induction es arbitrary: w)
  case (Cons e es)
  show ?case
  proof (cases "handle_taken (eg_handle e) taken")
    case (Inr b)
    obtain r w1 where r: "resolve_edges g [(e, b)] w = (r, w1)" by fastforce
    with resolve_edges_completed [of g "[(e, b)]" w] Cons.IH [of w1] Inr show ?thesis by (cases r) auto
  qed simp
qed simp

lemma route_batch_completed:
  "fst (route_batch g xs w) = Ret () \<Longrightarrow> ws_completed (snd (route_batch g xs w)) = ws_completed w @ map fst xs"
proof (induction xs arbitrary: w)
  case (Cons x xs)
  obtain n t where x: "x = (n, t)" by fastforce
  obtain r w1 where r: "route_edges g t (outgoing g n) (complete n w) = (r, w1)" by fastforce
  with route_edges_completed [of g t "outgoing g n" "complete n w"] Cons x show ?case by (cases r) auto
qed simp

lemma walk_batch_inv:
  assumes inv: "walk_inv g T S [] [] w" and ran: "ran run g T w"
    and g: "closed_graph g" "\<And>e. e \<in> set (wg_edges g) \<Longrightarrow> eg_target e \<notin> S"
  shows "(fst (walk_batch run g w) = Ret () \<longrightarrow>
      (\<exists>T'. walk_inv g T' S [] [] (snd (walk_batch run g w)) \<and> ran run g T' (snd (walk_batch run g w)))) \<and>
    (run_returns run \<and> plain_handles g \<longrightarrow> fst (walk_batch run g w) = Ret ())"
proof -
  have batch: "next_batch w = ws_ready w" by (rule next_batch_ready [OF walk_invD(3) [OF inv]])
  have nodes: "set (ws_ready w) \<subseteq> set (node_ids g)" and fresh: "distinct (ws_ready w)" "set (ws_ready w) \<inter> set (ws_completed w) = {}"
    using settled_okD(1,2) [OF walk_invD(3) [OF inv]] by auto
  obtain rs c where rs: "run_batch run g (ws_ready w) (ws_ctx w) = (rs, c)" by fastforce
  let ?w = "w\<lparr>ws_ready := [], ws_ctx := c\<rparr>"
  show ?thesis
  proof (cases "all_returned (ws_ready w) rs")
    case None
    with all_returned_None run_batch_returns [OF _ rs] rs nodes show ?thesis by (auto simp: walk_batch_def batch Let_def)
  next
    case (Some xs)
    have walked: "walk_batch run g w = route_batch g xs ?w" using Some rs nodes by (simp add: walk_batch_def batch Let_def)
    have "length rs = length (ws_ready w)" using run_batch_length [of run g "ws_ready w" "ws_ctx w"] rs by simp
    from all_returned_ids [OF Some this] have ids: "map fst xs = ws_ready w" .
    define T' where "T' n = (case map_of xs n of Some t \<Rightarrow> t | None \<Rightarrow> T n)" for n
    have T': "T' n = t" if "(n, t) \<in> set xs" for n t using that ids fresh(1) unfolding T'_def by simp
    have old: "T' n = T n" if "n \<in> set (ws_completed w)" for n
    proof -
      have "n \<notin> fst ` set xs" using that fresh(2) ids by (metis disjoint_iff set_map)
      then show ?thesis unfolding T'_def by (simp add: map_of_eq_None_iff split: option.split) (metis map_of_eq_None_iff option.distinct(1))
    qed
    have "walk_inv g T' S [] (map fst xs) ?w" using inv_start_batch [OF inv_outcomes [OF inv old]] by (simp add: ids)
    note routed = route_batch_inv [OF this g T']
    have "ran run g T' (snd (route_batch g xs ?w))" if "fst (route_batch g xs ?w) = Ret ()"
      unfolding ran_def route_batch_completed [OF that]
      using ran run_batch_outcome [OF rs Some] old T' unfolding ran_def by (auto; metis)
    with routed show ?thesis by (auto simp: walked)
  qed
qed

lemma walk_loop_inv:
  assumes "walk_inv g T S [] [] w" "ran run g T w" "closed_graph g" "\<And>e. e \<in> set (wg_edges g) \<Longrightarrow> eg_target e \<notin> S"
  shows "(fst (walk_loop run g w) = Ret () \<longrightarrow>
      (\<exists>T'. walk_inv g T' S [] [] (snd (walk_loop run g w)) \<and> ran run g T' (snd (walk_loop run g w)) \<and> ws_ready (snd (walk_loop run g w)) = [])) \<and>
    (run_returns run \<and> plain_handles g \<longrightarrow> fst (walk_loop run g w) = Ret ())"
  using assms
proof (induction run g w arbitrary: T rule: walk_loop.induct)
  case (1 run g w)
  note step = walk_batch_inv [OF "1.prems"]
  show ?case
  proof (cases "next_batch w = []")
    case True
    then have "ws_ready w = []" using next_batch_ready [OF walk_invD(3) [OF "1.prems"(1)]] by simp
    then have "w\<lparr>ws_ready := []\<rparr> = w" by (cases w) simp
    with True have "walk_loop run g w = (Ret (), w)" by (simp add: walk_loop.simps [of run g w])
    with \<open>ws_ready w = []\<close> "1.prems"(1,2) show ?thesis by auto
  next
    case False
    show ?thesis
    proof (cases "fst (walk_batch run g w) = Ret ()")
      case True
      with step obtain T' where "walk_inv g T' S [] [] (snd (walk_batch run g w))" "ran run g T' (snd (walk_batch run g w))" by blast
      with "1.IH" [OF False True this "1.prems"(3,4)] False True show ?thesis by (simp add: walk_loop.simps [of run g w])
    next
      case failed: False
      with step False show ?thesis by (auto simp: walk_loop.simps [of run g w])
    qed
  qed
qed

section \<open>The start\<close>

definition starts :: "wgraph \<Rightarrow> string option \<Rightarrow> string set" where
  "starts g entry = (case entry of None \<Rightarrow> set (default_entries g) | Some n \<Rightarrow> {n})"

lemma starts_not_target:
  assumes "\<And>n. entry = Some n \<Longrightarrow> n \<in> set (default_entries g)" "e \<in> set (wg_edges g)"
  shows "eg_target e \<notin> starts g entry"
proof -
  have "starts g entry \<subseteq> set (default_entries g)" using assms(1) by (cases entry) (auto simp: starts_def)
  then have "m \<in> set (node_ids g) \<and> incoming g m = []" if "m \<in> starts g entry" for m
    using that by (auto simp: default_entries_def)
  then show ?thesis using assms(2) incoming_iff [of "eg_target e" g e] by fastforce
qed

lemma walk_init_inv:
  assumes "closed_graph g"
  shows "walk_inv g T (set (default_entries g)) [] [] (walk_init g c)"
proof -
  have "counts_ok g T [] (walk_init g c)" by (simp add: counts_ok_def walk_init_def walk_done_def fires_def)
  moreover have "ready_ok g [] (walk_init g c)" by (simp add: ready_ok_def walk_init_def walk_done_def default_entries_def)
  moreover have "settled_ok g T (set (default_entries g)) [] (walk_init g c)"
    using assms by (auto simp: settled_ok_def walk_init_def justified_def ordered_def default_entries_def closed_graph_def)
  ultimately show ?thesis by (simp add: walk_inv_def)
qed

text \<open>The siblings of the entry that was asked for are dead, their edges are still to be counted.\<close>

lemma counts_perm:
  assumes "counts_ok g T P w" "mset P = mset P'"
  shows "counts_ok g T P' w"
proof -
  have "length (filter p P) = length (filter p P')" for p using assms(2) by (metis mset_filter size_mset)
  with assms(1) show ?thesis unfolding counts_ok_def by simp
qed

lemma fold_dead:
  "ws_dead (fold (mark_dead g) ms w) = ws_dead w @ ms" "ws_ready (fold (mark_dead g) ms w) = ws_ready w"
  "ws_completed (fold (mark_dead g) ms w) = ws_completed w" "walk_done (fold (mark_dead g) ms w) = walk_done w \<union> set ms"
  "ws_waiting (fold (mark_dead g) ms w) = ws_waiting w" "fires T (fold (mark_dead g) ms w) = fires T w"
  by (induction ms arbitrary: w) auto

lemma counts_fold_dead:
  assumes "counts_ok g T P w" "distinct ms" "set ms \<subseteq> open_nodes g w"
  shows "counts_ok g T (map (\<lambda>e. (e, False)) (concat (map (outgoing g) ms)) @ P) (fold (mark_dead g) ms w)"
  using assms
proof (induction ms arbitrary: P w)
  case (Cons m ms)
  have "counts_ok g T (map (\<lambda>e. (e, False)) (outgoing g m) @ P) (mark_dead g m w)"
    by (rule counts_decided [OF Cons.prems(1)]) (use Cons.prems(3) in auto)
  moreover have "set ms \<subseteq> set (node_ids g) - insert m (walk_done w)" using Cons.prems(2,3) by auto
  ultimately have "counts_ok g T (map (\<lambda>e. (e, False)) (concat (map (outgoing g) ms)) @ map (\<lambda>e. (e, False)) (outgoing g m) @ P)
      (fold (mark_dead g) (m # ms) w)" using Cons.IH [of "map (\<lambda>e. (e, False)) (outgoing g m) @ P"] Cons.prems(2) by simp
  then show ?case by (rule counts_perm) simp
qed simp

abbreviation siblings :: "wgraph \<Rightarrow> string \<Rightarrow> string list" where
  "siblings g n \<equiv> filter (\<lambda>m. m \<noteq> n) (default_entries g)"

lemma entry_inv:
  assumes g: "closed_graph g" and n: "n \<in> set (default_entries g)"
  shows "walk_inv g T {n} (map (\<lambda>e. (e, False)) (concat (map (outgoing g) (siblings g n)))) []
    (fold (mark_dead g) (siblings g n) ((walk_init g c)\<lparr>ws_ready := [n]\<rparr>))"
proof -
  let ?v = "(walk_init g c)\<lparr>ws_ready := [n]\<rparr>"
  let ?w = "fold (mark_dead g) (siblings g n) ?v"
  have start: "ws_completed ?v = []" "ws_dead ?v = []" "ws_ready ?v = [n]" "walk_done ?v = {}"
    "ws_waiting ?v = (\<lambda>m. int (length (incoming g m)))" by (simp_all add: walk_init_def walk_done_def)
  have entries: "distinct (default_entries g)" "set (default_entries g) = {m \<in> set (node_ids g). incoming g m = []}"
    using g by (auto simp: default_entries_def closed_graph_def)
  have "counts_ok g T [] ?v" by (simp add: counts_ok_def walk_init_def walk_done_def fires_def)
  from counts_fold_dead [OF this, of "siblings g n"]
  have counts: "counts_ok g T (map (\<lambda>e. (e, False)) (concat (map (outgoing g) (siblings g n)))) ?w"
    using entries by (simp add: start)
  have "ready_ok g [] ?w" unfolding ready_ok_def fold_dead start using entries n by auto
  moreover have "settled_ok g T {n} [] ?w"
    unfolding settled_ok_def ordered_def justified_def doomed_def fold_dead start using entries n by auto
  moreover have "fst ` set (map (\<lambda>e. (e, False)) (concat (map (outgoing g) (siblings g n)))) \<subseteq> set (wg_edges g)"
    using outgoing_edges [of g] by fastforce
  ultimately show ?thesis using counts unfolding walk_inv_def by blast
qed

lemma walk_start_inv:
  assumes g: "closed_graph g" and entry: "\<And>n. entry = Some n \<Longrightarrow> n \<in> set (default_entries g)"
  shows "fst (walk_start g entry c) = Ret () \<and> walk_inv g T (starts g entry) [] [] (snd (walk_start g entry c)) \<and>
    ws_completed (snd (walk_start g entry c)) = []"
proof (cases entry)
  case None
  then show ?thesis using walk_init_inv [OF g] by (simp add: walk_start_def starts_def) (simp add: walk_init_def)
next
  case (Some n)
  let ?es = "map (\<lambda>e. (e, False)) (concat (map (outgoing g) (siblings g n)))"
  let ?w = "fold (mark_dead g) (siblings g n) ((walk_init g c)\<lparr>ws_ready := [n]\<rparr>)"
  have n: "n \<in> set (default_entries g)" using entry Some by blast
  have "walk_inv g T {n} (?es @ []) [] ?w" using entry_inv [OF g n] by simp
  from resolve_edges_inv [OF this g] starts_not_target [of "Some n" g] n
  have "fst (resolve_edges g ?es ?w) = Ret () \<and> walk_inv g T {n} [] [] (snd (resolve_edges g ?es ?w))" by (simp add: starts_def)
  moreover have "ws_completed (snd (resolve_edges g ?es ?w)) = []" unfolding resolve_edges_completed fold_dead by (simp add: walk_init_def)
  ultimately show ?thesis using n Some by (simp add: walk_start_def starts_def Let_def)
qed

section \<open>Exactly the active nodes run\<close>

definition wg_flow :: "wgraph \<Rightarrow> (string \<times> string) set" where
  "wg_flow g = (\<lambda>e. (eg_source e, eg_target e)) ` set (wg_edges g)"

lemma nothing_left:
  assumes inv: "walk_inv g T S [] [] w" and idle: "ws_ready w = []" and g: "closed_graph g" "acyclic (wg_flow g)"
  shows "set (node_ids g) = set (ws_completed w) \<union> set (ws_dead w)"
proof -
  have "finite (wg_flow g)" by (simp add: wg_flow_def)
  from finite_acyclic_wf [OF this g(2)] have wf: "wf (wg_flow g)" .
  have "open_nodes g w = {}"
  proof (rule ccontr)
    assume "open_nodes g w \<noteq> {}"
    then obtain n where n: "n \<in> open_nodes g w" and least: "\<And>m. (m, n) \<in> wg_flow g \<Longrightarrow> m \<notin> open_nodes g w"
      using wf unfolding wf_eq_minimal by (metis ex_in_conv)
    have "\<forall>e \<in> set (incoming g n). eg_source e \<in> walk_done w"
      using least n g(1) by (fastforce simp: incoming_iff closed_graph_def wg_flow_def)
    then have "ws_waiting w n = 0" using counts_okD(1) [OF walk_invD(1) [OF inv] n] by (simp add: filter_False)
    with walk_invD(2) [OF inv] n idle show False unfolding ready_ok_def by simp
  qed
  with settled_okD(2) [OF walk_invD(3) [OF inv]] show ?thesis by (auto simp: walk_done_def)
qed

lemma walk_end_inv:
  assumes g: "closed_graph g" and entry: "\<And>n. entry = Some n \<Longrightarrow> n \<in> set (default_entries g)"
  shows "(fst (walk_end run g entry c) = Ret () \<longrightarrow> (\<exists>T. walk_inv g T (starts g entry) [] [] (snd (walk_end run g entry c)) \<and>
      ran run g T (snd (walk_end run g entry c)) \<and> ws_ready (snd (walk_end run g entry c)) = [])) \<and>
    (run_returns run \<and> plain_handles g \<longrightarrow> fst (walk_end run g entry c) = Ret ())"
proof -
  define w where "w = snd (walk_start g entry c)"
  have start: "fst (walk_start g entry c) = Ret ()" "walk_inv g (\<lambda>_. None) (starts g entry) [] [] w" "ws_completed w = []"
    using walk_start_inv [where entry = entry and c = c and T = "\<lambda>_. None", OF assms] by (simp_all add: w_def)
  then have "ran run g (\<lambda>_. None) w" by (simp add: ran_def)
  note looped = walk_loop_inv [OF start(2) this g starts_not_target [where entry = entry, OF entry]]
  have "walk_end run g entry c = walk_loop run g w"
    using start(1) w_def by (cases "walk_start g entry c") (simp add: walk_end_def)
  with looped show ?thesis by simp
qed

lemma ordered_sources:
  assumes "ordered g w" "set (ws_completed w) \<subseteq> set (node_ids g)" "e \<in> set (wg_edges g)" "eg_target e \<in> set (ws_completed w)"
  shows "eg_source e \<in> set (takeWhile (\<lambda>m. m \<noteq> eg_target e) (ws_completed w)) \<union> set (ws_dead w)"
proof -
  let ?t = "eg_target e"
  obtain xs ys where split: "ws_completed w = xs @ ?t # ys" "?t \<notin> set xs"
    using split_list_first [OF assms(4)] by blast
  then have "takeWhile (\<lambda>m. m \<noteq> ?t) (ws_completed w) = xs"
    by (simp add: takeWhile_append takeWhile_tail)
  moreover have "e \<in> set (incoming g ?t)" using assms(2-4) incoming_iff by blast
  ultimately show ?thesis using assms(1) split(1) unfolding ordered_def by blast
qed

text \<open>
  C28: a walk that returns has run each node of an acyclic graph at most once and decided all of
  them: the nodes that ran are the start nodes and those reached by an edge whose source ran and
  took the edge's handle, as the outcome of the source's run says; the others are the skipped
  ones; and every source of a node that ran was itself run before it, or skipped.
\<close>
theorem walk_runs_active:
  assumes "closed_graph g" "acyclic (wg_flow g)" "walk_end run g entry c = (Ret (), w)"
  shows "\<exists>T. ran run g T w \<and> distinct (ws_completed w) \<and>
    set (ws_dead w) = set (node_ids g) - set (ws_completed w) \<and> set (ws_completed w) \<subseteq> set (node_ids g) \<and>
    (\<forall>n \<in> set (node_ids g). n \<in> set (ws_completed w) \<longleftrightarrow>
       n \<in> starts g entry \<or> (\<exists>e \<in> set (wg_edges g). eg_target e = n \<and> eg_source e \<in> set (ws_completed w) \<and> takes T e)) \<and>
    (\<forall>e \<in> set (wg_edges g). eg_target e \<in> set (ws_completed w) \<longrightarrow>
       eg_source e \<in> set (takeWhile (\<lambda>m. m \<noteq> eg_target e) (ws_completed w)) \<union> set (ws_dead w))"
proof -
  have "n \<in> set (default_entries g)" if "entry = Some n" for n
    using assms(3) that by (simp add: walk_end_def walk_start_def split: if_splits)
  with assms(3) obtain T where inv: "walk_inv g T (starts g entry) [] [] w" and ran: "ran run g T w" and idle: "ws_ready w = []"
    using walk_end_inv [where entry = entry and run = run and c = c, OF assms(1)] by auto
  note settled = settled_okD [OF walk_invD(3) [OF inv]]
  note all = nothing_left [OF inv idle assms(1,2)]
  have dis: "distinct (ws_completed w)" "set (ws_completed w) \<inter> set (ws_dead w) = {}" using settled(1) by auto
  have "n \<in> set (ws_completed w) \<longleftrightarrow> justified g T (starts g entry) w n" if "n \<in> set (node_ids g)" for n
  proof (cases "n \<in> set (ws_completed w)")
    case True
    with settled(3) show ?thesis by simp
  next
    case False
    with that all settled(4) show ?thesis unfolding doomed_def justified_def by blast
  qed
  then have "n \<in> set (ws_completed w) \<longleftrightarrow>
       n \<in> starts g entry \<or> (\<exists>e \<in> set (wg_edges g). eg_target e = n \<and> eg_source e \<in> set (ws_completed w) \<and> takes T e)"
    if "n \<in> set (node_ids g)" for n
    using that incoming_iff [OF that] unfolding justified_def fires_def by blast
  moreover have "set (ws_completed w) \<subseteq> set (node_ids g)" using all by blast
  ultimately show ?thesis using ran dis all ordered_sources [OF settled(5)] by blast
qed

text \<open>
  a node with an edge to itself never runs: the edge counts among those it waits for.
\<close>
theorem self_edge_never_runs:
  assumes "closed_graph g" "e \<in> set (wg_edges g)" "eg_source e = eg_target e"
    and "walk_end run g None c = (Ret (), w)"
  shows "eg_target e \<notin> set (ws_completed w)"
proof
  assume ran: "eg_target e \<in> set (ws_completed w)"
  obtain T where inv: "walk_inv g T (starts g None) [] [] w"
    using walk_end_inv [where entry = None and run = run and c = c, OF assms(1)] assms(4) by auto
  note settled = settled_okD [OF walk_invD(3) [OF inv]]
  have "eg_target e \<in> set (takeWhile (\<lambda>m. m \<noteq> eg_target e) (ws_completed w)) \<union> set (ws_dead w)"
    using ordered_sources [OF settled(5) _ assms(2) ran] settled(2) assms(3) by simp
  with settled(1) ran show False by (auto dest: set_takeWhileD)
qed

section \<open>Instances\<close>

definition ex_node :: "string \<Rightarrow> string \<times> wnode" where
  "ex_node i = (i, \<lparr>nd_id = i, nd_type = ''merge'', nd_label = None, nd_config = []\<rparr>)"

definition ex_edge :: "string \<Rightarrow> string \<Rightarrow> string \<Rightarrow> wedge" where
  "ex_edge s h t = \<lparr>eg_source = s, eg_target = t, eg_handle = JStr h\<rparr>"

definition ex_ctx :: run_ctx where
  "ex_ctx = \<lparr>rc_nodes = [], rc_trace = [], rc_vars = [], rc_graph = \<lparr>wg_nodes = [], wg_edges = []\<rparr>, rc_rows = [], rc_calls = 0\<rparr>"

text \<open>A branch, the runner that takes its first side, and the one that takes every edge.\<close>

definition ex_walk :: wgraph where
  "ex_walk = \<lparr>wg_nodes = map ex_node [''a'', ''b'', ''c''],
     wg_edges = [ex_edge ''a'' ''true'' ''b'', ex_edge ''a'' ''error'' ''c'']\<rparr>"

definition ex_branch :: runner where
  "ex_branch d = ret_op (if nd_id d = ''a'' then Some [''true''] else None)"

definition ex_plain :: runner where
  "ex_plain d = ret_op None"

lemma ex_walk_closed: "closed_graph ex_walk"
  by code_simp

lemma ex_walk_acyclic: "acyclic (wg_flow ex_walk)"
  by (rule acyclicI_order [where f = "\<lambda>n. if n = ''a'' then 1 else (0::nat)"])
    (auto simp: wg_flow_def ex_walk_def ex_edge_def)

theorem walk_runs_active_witness:
  "\<exists>w. walk_end ex_branch ex_walk None ex_ctx = (Ret (), w) \<and> set (ws_dead w) = set (node_ids ex_walk) - set (ws_completed w)"
proof -
  have "fst (walk_end ex_branch ex_walk None ex_ctx) = Ret ()" by code_simp
  then obtain w where w: "walk_end ex_branch ex_walk None ex_ctx = (Ret (), w)" by (metis prod.collapse)
  with walk_runs_active [OF ex_walk_closed ex_walk_acyclic w] show ?thesis by blast
qed

definition ex_loop :: wgraph where
  "ex_loop = \<lparr>wg_nodes = map ex_node [''a'', ''l''], wg_edges = [ex_edge ''a'' ''out'' ''l'', ex_edge ''l'' ''body'' ''l'']\<rparr>"

theorem self_edge_never_runs_witness: "\<exists>w. walk_end ex_plain ex_loop None ex_ctx = (Ret (), w) \<and> ''l'' \<notin> set (ws_completed w)"
proof -
  have "fst (walk_end ex_plain ex_loop None ex_ctx) = Ret ()" by code_simp
  then obtain w where w: "walk_end ex_plain ex_loop None ex_ctx = (Ret (), w)" by (metis prod.collapse)
  have "closed_graph ex_loop" by code_simp
  from self_edge_never_runs [OF this _ _ w, of "ex_edge ''l'' ''body'' ''l''"] w show ?thesis
    by (simp add: ex_loop_def ex_edge_def)
qed

text \<open>
  a node that succeeds without choosing handles takes all of its edges, the one of the
  \<^verbatim>\<open>error\<close> handle included: the error branch runs although nothing failed.
\<close>
theorem error_edge_on_success: "set (ws_completed (snd (walk_end ex_plain ex_walk None ex_ctx))) = {''a'', ''b'', ''c''}"
  by code_simp

end
