(* ===== verification/RunHistory.thy ===== *)
theory RunHistory
  imports RunTables "HOL-Library.Multiset"
begin

text \<open>
  What the run histories promise: a flagged run only becomes cancelled, identifiers stay unique,
  the reaper leaves nothing in flight, pruning keeps exactly the newest runs, and the statistics
  count what is there.  The two partial updates share the locale \<open>column_update\<close>.
\<close>

section \<open>Tables by identifier\<close>

abbreviation ids_of :: "'a run_table \<Rightarrow> string list" where
  "ids_of t \<equiv> map rn_id t"

lemma find_row_Some: "find_row i t = Some r \<Longrightarrow> r \<in> set t \<and> rn_id r = i"
  unfolding find_row_def by (induction t) (auto split: if_splits)

lemma find_row_in: "distinct (ids_of t) \<Longrightarrow> r \<in> set t \<Longrightarrow> find_row (rn_id r) t = Some r"
  unfolding find_row_def by (induction t) (auto simp: rev_image_eqI)

lemma find_update:
  assumes "\<And>r. rn_id (f r) = rn_id r"
  shows "find_row i (update_where p f t) = map_option (\<lambda>r. if p r then f r else r) (find_row i t)"
  unfolding find_row_def update_where_def by (induction t) (auto simp: assms)

lemma ids_update: "(\<And>r. rn_id (f r) = rn_id r) \<Longrightarrow> ids_of (update_where p f t) = ids_of t"
  by (simp add: update_where_def)

lemma find_filter: "find_row i (filter (\<lambda>r. rn_id r \<notin> S) t) = (if i \<in> S then None else find_row i t)"
  unfolding find_row_def by (induction t) auto

lemma find_snoc: "List.find P (xs @ [y]) = (case List.find P xs of Some x \<Rightarrow> Some x | None \<Rightarrow> if P y then Some y else None)"
  by (induction xs) auto

lemma find_insert: "insert_row r t = (Ret (), t') \<Longrightarrow> i \<noteq> rn_id r \<Longrightarrow> find_row i t' = find_row i t"
  by (auto simp: insert_row_def find_row_def find_snoc split: if_splits option.splits)

lemma insert_ids: "insert_row r t = (Ret (), t') \<Longrightarrow> distinct (ids_of t) \<Longrightarrow> distinct (ids_of t')"
  by (auto simp: insert_row_def split: if_splits)

lemma settle_run_simps [simp]:
  "rn_id (settle_run now s m r) = rn_id r" "rn_status (settle_run now s m r) = s" "rn_owner (settle_run now s m r) = rn_owner r"
  "rn_started (settle_run now s m r) = rn_started r" "rn_finished (settle_run now s m r) = Some now"
  by (simp_all add: settle_run_def)

section \<open>Partial updates\<close>

locale column_update =
  fixes set_col :: "'c \<Rightarrow> 'a run_base_scheme \<Rightarrow> 'a run_base_scheme"
    and new_status :: "'c \<Rightarrow> string option"
  assumes keeps_id: "rn_id (set_col c r) = rn_id r"
    and keeps_owner: "rn_owner (set_col c r) = rn_owner r"
    and keeps_start: "rn_started (set_col c r) = rn_started r"
    and sets_status: "rn_status (set_col c r) = (case new_status c of None \<Rightarrow> rn_status r | Some s \<Rightarrow> s)"
begin

lemma fold_keeps: "rn_id (fold set_col cols r) = rn_id r" "rn_owner (fold set_col cols r) = rn_owner r"
  "rn_started (fold set_col cols r) = rn_started r"
  by (induction cols arbitrary: r) (simp_all add: keeps_id keeps_owner keeps_start)

lemma fold_status: "rn_status (fold set_col cols r) \<in> insert (rn_status r) (set (List.map_filter new_status cols))"
proof (induction cols arbitrary: r)
  case (Cons c cols)
  show ?case using Cons.IH [of "set_col c r"] sets_status [of c r] by (cases "new_status c") (auto simp: List.map_filter_simps)
qed (simp add: List.map_filter_simps)

lemma fold_no_status: "List.map_filter new_status cols = [] \<Longrightarrow> rn_status (fold set_col cols r) = rn_status r"
  using fold_status [of cols r] by simp

lemma update_row:
  "find_row i (update_where (run_gate i (List.map_filter new_status cols)) (fold set_col cols) t) =
    map_option (\<lambda>r. if run_gate i (List.map_filter new_status cols) r then fold set_col cols r else r) (find_row i t)"
  by (rule find_update) (rule fold_keeps)

lemma update_other:
  assumes "j \<noteq> i"
  shows "find_row j (update_where (run_gate i ss) (fold set_col cols) t) = find_row j t"
proof -
  have "map_option (\<lambda>r. if run_gate i ss r then fold set_col cols r else r) (find_row j t) = find_row j t"
    using assms find_row_Some [of j t] by (cases "find_row j t") (auto simp: run_gate_def)
  then show ?thesis by (subst find_update) (simp_all add: fold_keeps)
qed

lemma update_ids: "ids_of (update_where (run_gate i ss) (fold set_col cols) t) = ids_of t"
  by (rule ids_update) (rule fold_keeps)

text \<open>A row that waits for its cancellation takes no other status.\<close>

lemma update_cancelling:
  assumes "find_row i t = Some r" "rn_status r = ''cancelling''"
    and "find_row i (update_where (run_gate j (List.map_filter new_status cols)) (fold set_col cols) t) = Some r'"
  shows "rn_status r' \<in> {''cancelling'', ''cancelled''}"
proof (cases "i = j")
  case False
  with assms update_other [of i j] show ?thesis by simp
next
  case True
  show ?thesis
  proof (cases "run_gate i (List.map_filter new_status cols) r")
    case gate: True
    then have "set (List.map_filter new_status cols) \<subseteq> {''cancelled''}" using assms(2) by (auto simp: run_gate_def)
    with fold_status [of cols r] have "rn_status (fold set_col cols r) \<in> {''cancelling'', ''cancelled''}" using assms(2) by auto
    with assms(1,3) True gate update_row [of i cols t] show ?thesis by simp
  next
    case False
    with assms True update_row [of i cols t] show ?thesis by simp
  qed
qed

end

interpretation tcol: column_update set_task_col new_task_status
proof
  fix c r
  show "rn_id (set_task_col c r) = rn_id r" "rn_owner (set_task_col c r) = rn_owner r" "rn_started (set_task_col c r) = rn_started r"
    "rn_status (set_task_col c r) = (case new_task_status c of None \<Rightarrow> rn_status r | Some s \<Rightarrow> s)"
    by (cases c; simp)+
qed

interpretation wcol: column_update set_workflow_col new_workflow_status
proof
  fix c r
  show "rn_id (set_workflow_col c r) = rn_id r" "rn_owner (set_workflow_col c r) = rn_owner r"
    "rn_started (set_workflow_col c r) = rn_started r"
    "rn_status (set_workflow_col c r) = (case new_workflow_status c of None \<Rightarrow> rn_status r | Some s \<Rightarrow> s)"
    by (cases "(c, r)" rule: set_workflow_col.cases; simp)+
qed

section \<open>Steps of the history of a scheduled task\<close>

inductive task_step :: "task_run list \<Rightarrow> task_run list \<Rightarrow> bool" where
  opened: "add_task_run now rid task trigger session t = (Ret rid', t') \<Longrightarrow> task_step t t'"
| updated: "task_step t (update_task_run i cols t)"
| flagged: "task_step t (snd (flag_task_runs_cancelling task t))"
| reaped: "task_step t (snd (snd (reap_orphan_task_runs now t)))"
| pruned: "task_step t (snd (prune_task_runs task n t))"

inductive workflow_step :: "workflow_run list \<Rightarrow> workflow_run list \<Rightarrow> bool" where
  opened: "add_workflow_run now rid workflow trigger inputs t = (Ret rid', t') \<Longrightarrow> workflow_step t t'"
| updated: "workflow_step t (update_workflow_run i cols t)"
| reaped: "workflow_step t (snd (reap_orphan_workflow_runs now t))"
| pruned: "workflow_step t (snd (prune_workflow_runs workflow n t))"

lemma reap_row:
  "find_row i (snd (snd (reap_runs now t))) = map_option (\<lambda>r.
     if rn_status r = ''running'' then settle_run now ''failed'' reap_marker r
     else if rn_status r = ''cancelling'' then settle_run now ''cancelled'' stop_marker r else r) (find_row i t)"
  unfolding reap_runs_def Let_def snd_conv
  by (simp add: find_update option.map_comp comp_def) (rule option.map_cong; simp)

lemma prune_row: "find_row i (snd (prune_runs owner n t)) \<in> {None, find_row i t}"
  unfolding prune_runs_def Let_def snd_conv find_filter by simp

lemma flag_row:
  "find_row i (snd (flag_task_runs_cancelling task t)) \<in>
    {find_row i t, map_option (\<lambda>r. if rn_status r = ''running'' then r\<lparr>rn_status := ''cancelling''\<rparr> else r) (find_row i t)}"
proof -
  have any: "find_row i (update_where p (\<lambda>r. r\<lparr>rn_status := ''cancelling''\<rparr>) t) \<in> {find_row i t,
      map_option (\<lambda>r. if rn_status r = ''running'' then r\<lparr>rn_status := ''cancelling''\<rparr> else r) (find_row i t)}"
    if "\<And>r. p r \<Longrightarrow> rn_status r = ''running''" for p
    using that by (subst find_update; simp) (cases "find_row i t"; auto)
  show ?thesis unfolding flag_task_runs_cancelling_def Let_def snd_conv by (rule any) simp
qed

lemma insert_cancelling:
  assumes "insert_row r t = (Ret (), t')" "find_row i t = Some q"
  shows "find_row i t' = Some q"
proof -
  have "i \<noteq> rn_id r" using assms(1) find_row_Some [OF assms(2)] imageI [of q "set t" rn_id] by (auto simp: insert_row_def split: if_splits)
  with assms find_insert show ?thesis by metis
qed

lemma add_task_insert:
  assumes "add_task_run now rid task trigger session t = (Ret rid', t')"
  obtains r where "insert_row r t = (Ret (), t')"
  using assms unfolding add_task_run_def by (rule bind_op_Ret_cases) auto

lemma add_workflow_insert:
  assumes "add_workflow_run now rid w trigger inputs t = (Ret rid', t')"
  obtains r where "insert_row r t = (Ret (), t')"
  using assms unfolding add_workflow_run_def by (rule bind_op_Ret_cases) auto


lemma reap_cancelling:
  assumes "find_row i t = Some r" "rn_status r = ''cancelling''" "find_row i (snd (snd (reap_runs now t))) = Some r'"
  shows "rn_status r' = ''cancelled''"
  using assms by (auto simp: reap_row)

lemma prune_cancelling:
  assumes "find_row i t = Some r" "find_row i (snd (prune_runs owner n t)) = Some r'"
  shows "r' = r"
  using prune_row [of i owner n t] assms by auto

text \<open>
  C32: once a firing is flagged \<^verbatim>\<open>cancelling\<close>, no operation on the history gives it another
  status than \<^verbatim>\<open>cancelled\<close>: a success or a failure that arrives late is dropped.
\<close>
theorem task_stop_is_final:
  assumes "task_step t t'" "find_row i t = Some r" "rn_status r = ''cancelling''" "find_row i t' = Some r'"
  shows "rn_status r' \<in> {''cancelling'', ''cancelled''}"
  using assms(1)
proof cases
  case (opened now rid task trigger session rid')
  from opened(1) obtain q where "insert_row q t = (Ret (), t')" by (rule add_task_insert)
  with assms insert_cancelling show ?thesis by fastforce
next
  case (updated j cols)
  with assms show ?thesis using tcol.update_cancelling [of i t r j cols r'] by (simp add: update_task_run_def)
next
  case (flagged task)
  with assms flag_row [of i task t] show ?thesis by auto
next
  case (reaped now)
  with assms reap_cancelling [of i t r now r'] show ?thesis by (simp add: reap_orphan_task_runs_def)
next
  case (pruned task n)
  with assms prune_cancelling [of i t r task n r'] show ?thesis by (simp add: prune_task_runs_def)
qed

text \<open>the same for the runs of a workflow.\<close>
theorem workflow_stop_is_final:
  assumes "workflow_step t t'" "find_row i t = Some r" "rn_status r = ''cancelling''" "find_row i t' = Some r'"
  shows "rn_status r' \<in> {''cancelling'', ''cancelled''}"
  using assms(1)
proof cases
  case (opened now rid workflow trigger inputs rid')
  from opened(1) obtain q where "insert_row q t = (Ret (), t')" by (rule add_workflow_insert)
  with assms insert_cancelling show ?thesis by fastforce
next
  case (updated j cols)
  with assms show ?thesis using wcol.update_cancelling [of i t r j cols r'] by (simp add: update_workflow_run_def)
next
  case (reaped now)
  with assms reap_cancelling [of i t r now r'] show ?thesis by (simp add: reap_orphan_workflow_runs_def)
next
  case (pruned workflow n)
  with assms prune_cancelling [of i t r workflow n r'] show ?thesis by (simp add: prune_workflow_runs_def)
qed

section \<open>Pruning\<close>

lemma newest_props: "mset (newest t) = mset t" "set (newest t) = set t" "sorted (rev (map rn_started (newest t)))"
  by (simp_all add: newest_def rev_map)

lemma newest_drop_older:
  assumes "r \<in> set (take k (newest t))" "q \<in> set (drop k (newest t))"
  shows "rn_started q \<le> rn_started r"
proof -
  have "sorted_wrt (\<lambda>x y. rn_started y \<le> rn_started x) (newest t)"
    using newest_props(3) [of t] by (simp add: sorted_wrt_rev sorted_wrt_map rev_map)
  then have "sorted_wrt (\<lambda>x y. rn_started y \<le> rn_started x) (take k (newest t) @ drop k (newest t))" by simp
  with assms show ?thesis by (simp only: sorted_wrt_append)
qed

text \<open>
  pruning removes nothing of another task, leaves the last \<open>keep_last\<close> firings of the task or
  all of them when there are fewer, and what it leaves is not older than what it removed.
\<close>
theorem prune_keeps_newest:
  assumes "distinct (ids_of t)" "0 \<le> keep"
  shows "filter (\<lambda>r. rn_owner r \<noteq> task) (snd (prune_task_runs task keep t)) = filter (\<lambda>r. rn_owner r \<noteq> task) t \<and>
    length (filter (\<lambda>r. rn_owner r = task) (snd (prune_task_runs task keep t))) =
      min (nat keep) (length (filter (\<lambda>r. rn_owner r = task) t)) \<and>
    (\<forall>r \<in> set (snd (prune_task_runs task keep t)). \<forall>q \<in> set t - set (snd (prune_task_runs task keep t)).
       rn_owner r = task \<longrightarrow> rn_started q \<le> rn_started r)"
proof -
  define mine where "mine = filter (\<lambda>r. rn_owner r = task) t"
  define old where "old = drop (nat keep) (newest mine)"
  let ?t = "filter (\<lambda>r. rn_id r \<notin> rn_id ` set old) t"
  have pruned: "snd (prune_task_runs task keep t) = ?t" by (simp add: prune_task_runs_def prune_runs_def old_def mine_def Let_def)
  have set_old: "set old \<subseteq> set mine" using newest_props(2) [of mine] by (auto simp: old_def dest: in_set_dropD)
  have by_id: "rn_id r \<in> rn_id ` set old \<longleftrightarrow> r \<in> set old" if "r \<in> set t" for r
    using that assms(1) set_old by (auto simp: mine_def distinct_map inj_on_def)
  have others: "filter (\<lambda>r. rn_owner r \<noteq> task) ?t = filter (\<lambda>r. rn_owner r \<noteq> task) t"
    using by_id set_old unfolding filter_filter by (intro filter_cong) (auto simp: mine_def)
  have "distinct mine" unfolding mine_def by (rule distinct_filter) (use assms(1) in \<open>simp add: distinct_map\<close>)
  then have dist: "distinct mine" "distinct (newest mine)" using newest_props(1) [of mine] mset_eq_imp_distinct_iff by blast+
  have split: "set (take (nat keep) (newest mine)) \<union> set old = set mine" "set (take (nat keep) (newest mine)) \<inter> set old = {}"
    unfolding old_def set_append [symmetric] append_take_drop_id newest_props(2)
    using dist(2) by (simp_all add: set_take_disj_set_drop_if_distinct)
  have kept: "set (filter (\<lambda>r. rn_owner r = task) ?t) = set (take (nat keep) (newest mine))"
    using split by_id by (auto simp: mine_def)
  have "length (filter (\<lambda>r. rn_owner r = task) ?t) = card (set (take (nat keep) (newest mine)))"
    unfolding kept [symmetric] by (rule distinct_card [symmetric], intro distinct_filter) (use assms(1) in \<open>simp add: distinct_map\<close>)
  also have "\<dots> = length (take (nat keep) (newest mine))" by (rule distinct_card, rule distinct_take, rule dist(2))
  also have "\<dots> = min (nat keep) (length mine)" using newest_props(1) [of mine, THEN mset_eq_length] by simp
  finally have count: "length (filter (\<lambda>r. rn_owner r = task) ?t) = min (nat keep) (length mine)" .
  have "rn_started q \<le> rn_started r" if "r \<in> set ?t" "q \<in> set t - set ?t" "rn_owner r = task" for r q
  proof (rule newest_drop_older [where k = "nat keep" and t = mine])
    have "r \<in> set (filter (\<lambda>r. rn_owner r = task) ?t)" using that by simp
    then show "r \<in> set (take (nat keep) (newest mine))" unfolding kept .
    from that(2) have "q \<in> set t" "rn_id q \<in> rn_id ` set old" by simp_all
    with by_id show "q \<in> set (drop (nat keep) (newest mine))" unfolding old_def by blast
  qed
  with others count show ?thesis unfolding pruned mine_def by blast
qed

section \<open>Statistics\<close>

lemma status_count_rows: "status_count s (status_rows t) = length (filter (\<lambda>r. rn_status r = s) t)"
proof -
  have "map_of (status_rows t) s = (if s \<in> rn_status ` set t
      then Some (let g = filter (\<lambda>r. rn_status r = s) t in (length g, average (List.map_filter duration g))) else None)"
    unfolding status_rows_def Let_def by (simp add: map_of_map_restrict restrict_map_def)
  then show ?thesis by (auto simp: status_count_def Let_def filter_empty_conv)
qed

lemma count_by_status:
  assumes "finite S" "rn_status ` set t \<subseteq> S"
  shows "(\<Sum>s\<in>S. length (filter (\<lambda>r. rn_status r = s) t)) = length t"
  using assms
proof (induction t)
  case (Cons r t)
  have "(\<Sum>s\<in>S. length (filter (\<lambda>q. rn_status q = s) (r # t))) =
      (\<Sum>s\<in>S. (if s = rn_status r then 1 else 0) + length (filter (\<lambda>q. rn_status q = s) t))"
    by (rule sum.cong) auto
  also have "\<dots> = Suc (length t)" using Cons by (simp add: sum.distrib)
  finally show ?case by simp
qed simp

lemma total_rows: "sum_list (map (fst \<circ> snd) (status_rows t)) = length t"
proof -
  have "sum_list (map (fst \<circ> snd) (status_rows t)) = (\<Sum>s\<in>rn_status ` set t. length (filter (\<lambda>r. rn_status r = s) t))"
    by (simp add: status_rows_def Let_def comp_def sum_list_distinct_conv_sum_set)
  then show ?thesis by (simp add: count_by_status)
qed

text \<open>
  the statistics of a workflow count its own runs by their status and nothing else, the
  success rate is the share of the successes among the settled runs, and the last runs are listed
  from the newest down.
\<close>
theorem run_stats_count:
  shows "rs_total (workflow_run_stats w n t) = length (filter (\<lambda>r. rn_owner r = w) t) \<and>
    rs_success (workflow_run_stats w n t) = length (filter (\<lambda>r. rn_owner r = w \<and> rn_status r = ''success'') t) \<and>
    rs_failed (workflow_run_stats w n t) = length (filter (\<lambda>r. rn_owner r = w \<and> rn_status r = ''failed'') t) \<and>
    rs_running (workflow_run_stats w n t) = length (filter (\<lambda>r. rn_owner r = w \<and> rn_status r = ''running'') t) \<and>
    0 \<le> rs_success_rate (workflow_run_stats w n t) \<and> rs_success_rate (workflow_run_stats w n t) \<le> 1 \<and>
    sorted (rev (map (fst \<circ> snd \<circ> snd) (rs_last (workflow_run_stats w n t))))"
proof -
  let ?mine = "filter (\<lambda>r. rn_owner r = w) t"
  have count: "status_count s (status_rows ?mine) = length (filter (\<lambda>r. rn_owner r = w \<and> rn_status r = s) t)" for s
    by (simp add: status_count_rows conj_commute)
  have "sorted_wrt (\<lambda>x y. y \<le> x) (map rn_started (newest ?mine))" using newest_props(3) [of ?mine] by (simp add: sorted_wrt_rev)
  then have "sorted_wrt (\<lambda>x y. y \<le> x) (map rn_started (sql_limit n (newest ?mine)))"
    by (simp add: sql_limit_def take_map [symmetric] sorted_wrt_take)
  then have "sorted (rev (map (fst \<circ> snd \<circ> snd) (map run_summary (sql_limit n (newest ?mine)))))"
    by (simp add: sorted_wrt_rev run_summary_def comp_def)
  moreover have "real a / (real a + real b) \<le> 1" for a b by (cases "a = 0") (simp_all add: divide_le_eq)
  ultimately show ?thesis
    unfolding workflow_run_stats_def Let_def by (simp add: count total_rows)
qed

section \<open>Witnesses\<close>

definition ex_runs :: "task_run list" where
  "ex_runs = map (\<lambda>(i, s, x). \<lparr>rn_id = i, rn_owner = ''t'', rn_trigger = ''schedule'', rn_status = s, rn_started = x,
     rn_finished = None, rn_error = None, tr_output = None, tr_session = None\<rparr>)
     [(''a'', ''cancelling'', 1), (''b'', ''running'', 2), (''c'', ''success'', 3)]"

definition ex_wf_runs :: "workflow_run list" where
  "ex_wf_runs = [\<lparr>rn_id = ''a'', rn_owner = ''w'', rn_trigger = ''manual'', rn_status = ''cancelling'', rn_started = 1,
     rn_finished = None, rn_error = None, wr_inputs = JNull, wr_outputs = JObj [], wr_trace = JArr []\<rparr>]"

theorem task_stop_is_final_witness:
  "rn_status (the (find_row ''a'' (update_task_run ''a'' [TStatus ''success''] ex_runs))) \<in> {''cancelling'', ''cancelled''}"
proof (rule task_stop_is_final [OF task_step.updated])
  show "find_row ''a'' ex_runs = Some (hd ex_runs)" by code_simp
  show "rn_status (hd ex_runs) = ''cancelling''" by code_simp
  show "find_row ''a'' (update_task_run ''a'' [TStatus ''success''] ex_runs) =
      Some (the (find_row ''a'' (update_task_run ''a'' [TStatus ''success''] ex_runs)))" by code_simp
qed

theorem workflow_stop_is_final_witness:
  "rn_status (the (find_row ''a'' (snd (reap_orphan_workflow_runs 5 ex_wf_runs)))) \<in> {''cancelling'', ''cancelled''}"
proof (rule workflow_stop_is_final [OF workflow_step.reaped])
  show "find_row ''a'' ex_wf_runs = Some (hd ex_wf_runs)" by code_simp
  show "rn_status (hd ex_wf_runs) = ''cancelling''" by code_simp
  show "find_row ''a'' (snd (reap_orphan_workflow_runs 5 ex_wf_runs)) =
      Some (the (find_row ''a'' (snd (reap_orphan_workflow_runs 5 ex_wf_runs))))" by code_simp
qed

theorem prune_keeps_newest_witness:
  "length (filter (\<lambda>r. rn_owner r = ''t'') (snd (prune_task_runs ''t'' 1 ex_runs))) = min 1 3"
proof -
  have "distinct (ids_of ex_runs)" "length (filter (\<lambda>r. rn_owner r = ''t'') ex_runs) = 3" by code_simp+
  with prune_keeps_newest [of ex_runs 1 "''t''"] show ?thesis by simp
qed

text \<open>
  the guard only holds while the run is \<^verbatim>\<open>cancelling\<close>: once the stop has been recorded as
  \<^verbatim>\<open>cancelled\<close>, a success that arrives later still overwrites it.
\<close>
theorem late_success_overwrites:
  "map_option rn_status (find_row ''a'' (update_task_run ''a'' [TStatus ''success''] (update_task_run ''a'' [TStatus ''cancelled''] ex_runs)))
     = Some ''success''"
  by code_simp

end
