(* ===== verification/WorkflowRun.thy ===== *)
theory WorkflowRun
  imports WorkflowWalk
begin

text \<open>
  The executor of \<^verbatim>\<open>workflow/executor.py\<close>: the handlers of the block types, one node, a loop's
  body, and a whole run from its row to its final status.  What is outside of it is in the
  environment: the evaluation of jinja, the clock, the tools, the agent's child sessions, HTTP, the
  other processes and the lock of the database.  Each of their calls gets the number of calls
  made so far, so that two calls need not answer the same.  The text of an error is the name of
  its class.
\<close>

section \<open>The environment\<close>

record child_request =
  cq_parent :: "string option"
  cq_origin :: "(string \<times> json) list"
  cq_title :: json
  cq_prompt :: string
  cq_owner :: string
  cq_model :: json

record http_request =
  hq_method :: string
  hq_url :: string
  hq_headers :: json
  hq_body :: json
  hq_timeout :: real

record http_response =
  hs_status :: int
  hs_headers :: "(string \<times> json) list"
  hs_content_type :: "string option"
  hs_text :: string

record wf_tool =
  wt_ref :: string
  wt_source :: string
  wt_name :: string

text \<open>
  \<open>we_eval\<close> and \<open>we_render\<close> take the template context first.  \<open>we_tools\<close> is the discovery of the
  runtime's catalog when a runtime is bound, \<open>we_call\<close> the call of a reference that it returned,
  \<open>we_pool\<close> the call through the agent's pool when it has one, and \<open>we_owner\<close> the authority of the
  bound execution context.  \<open>we_stops\<close> says before which writes another process flags the run.
\<close>

record wf_env =
  we_run :: string
  we_workflow :: string
  we_inputs :: "(string \<times> json) list"
  we_eval :: "json \<Rightarrow> string \<Rightarrow> json res"
  we_render :: "json \<Rightarrow> string \<Rightarrow> string res"
  we_repr :: "json \<Rightarrow> string"
  we_float_text :: "string \<Rightarrow> real option"
  we_iso :: "string \<Rightarrow> bool"
  we_loads :: "string \<Rightarrow> json option"
  we_now :: "nat \<Rightarrow> string"
  we_clock :: "nat \<Rightarrow> real"
  we_waited :: "nat \<Rightarrow> int"
  we_tools :: "(nat \<Rightarrow> wf_tool list res) option"
  we_call :: "nat \<Rightarrow> string \<Rightarrow> json \<Rightarrow> json res"
  we_pool :: "(nat \<Rightarrow> string \<Rightarrow> string \<Rightarrow> json \<Rightarrow> json res) option"
  we_owner :: "string option"
  we_child :: "nat \<Rightarrow> child_request \<Rightarrow> (string \<times> string) res"
  we_http :: "nat \<Rightarrow> http_request \<Rightarrow> http_response res"
  we_locked :: "nat \<Rightarrow> bool"
  we_stops :: "nat \<Rightarrow> bool"

definition outside :: "(nat \<Rightarrow> 'a res) \<Rightarrow> (run_ctx, 'a) op" where
  "outside f = (\<lambda>c. (f (rc_calls c), c\<lparr>rc_calls := Suc (rc_calls c)\<rparr>))"

abbreviation OperationalError :: py_error where
  "OperationalError \<equiv> OtherError ''OperationalError''"

definition now_op :: "wf_env \<Rightarrow> (run_ctx, string) op" where
  "now_op env = outside (\<lambda>k. Ret (we_now env k))"

definition template_ctx :: "wf_env \<Rightarrow> (run_ctx, json) op" where
  "template_ctx env =
     bind_op (now_op env) (\<lambda>now. read_op (\<lambda>c. JObj
       [(''inputs'', JObj (we_inputs env)), (''vars'', JObj (rc_vars c)), (''nodes'', JObj (rc_nodes c)),
        (''now'', JStr now), (''run_id'', JStr (we_run env))]))"

section \<open>Reading a block's configuration\<close>

text \<open>\<^verbatim>\<open>cfg.get(k) or d\<close>.\<close>

definition or_else :: "json option \<Rightarrow> json \<Rightarrow> json" where
  "or_else v d = (case v of None \<Rightarrow> d | Some x \<Rightarrow> if jtruthy x then x else d)"

definition set_and_true :: "json option \<Rightarrow> bool" where
  "set_and_true v = (case v of None \<Rightarrow> False | Some x \<Rightarrow> jtruthy x)"

definition py_str :: "wf_env \<Rightarrow> json \<Rightarrow> string" where
  "py_str env v = (case v of JStr s \<Rightarrow> s | _ \<Rightarrow> we_repr env v)"

text \<open>
  \<^verbatim>\<open>int(text)\<close>: digits with single underscores between them, after a sign, between blanks.
\<close>

definition is_digit :: "char \<Rightarrow> bool" where
  "is_digit c \<longleftrightarrow> CHR ''0'' \<le> c \<and> c \<le> CHR ''9''"

fun digits_value :: "int \<Rightarrow> string \<Rightarrow> int option" where
  "digits_value n [] = Some n"
| "digits_value n (c # cs) =
     (if is_digit c then digits_value (10 * n + (of_char c - 48)) cs
      else if c = CHR ''_'' \<and> cs \<noteq> [] \<and> is_digit (hd cs) then digits_value n cs else None)"

definition int_text :: "string \<Rightarrow> int option" where
  "int_text s =
     (let t = strip s; body = (if t \<noteq> [] \<and> hd t \<in> {CHR ''+'', CHR ''-''} then tl t else t)
      in if body = [] \<or> \<not> is_digit (hd body) then None
         else map_option (\<lambda>n. if hd t = CHR ''-'' then - n else n) (digits_value 0 body))"

definition truncate :: "real \<Rightarrow> int" where
  "truncate x = (if x < 0 then \<lceil>x\<rceil> else \<lfloor>x\<rfloor>)"

definition py_int :: "json \<Rightarrow> int res" where
  "py_int v =
     (case v of
        JInt i \<Rightarrow> Ret i
      | JBool b \<Rightarrow> Ret (if b then 1 else 0)
      | JFloat x \<Rightarrow> Ret (truncate x)
      | JStr s \<Rightarrow> (case int_text s of None \<Rightarrow> Raise ValueError | Some i \<Rightarrow> Ret i)
      | _ \<Rightarrow> Raise TypeError)"

definition py_float :: "wf_env \<Rightarrow> json \<Rightarrow> real res" where
  "py_float env v =
     (case v of
        JInt i \<Rightarrow> Ret (of_int i)
      | JBool b \<Rightarrow> Ret (if b then 1 else 0)
      | JFloat x \<Rightarrow> Ret x
      | JStr s \<Rightarrow> (case we_float_text env s of None \<Rightarrow> Raise ValueError | Some x \<Rightarrow> Ret x)
      | _ \<Rightarrow> Raise TypeError)"

definition upper :: "string \<Rightarrow> string" where
  "upper = map (\<lambda>c. if CHR ''a'' \<le> c \<and> c \<le> CHR ''z'' then char_of (of_char c - 32 :: nat) else c)"

definition lower :: "string \<Rightarrow> string" where
  "lower = map (\<lambda>c. if CHR ''A'' \<le> c \<and> c \<le> CHR ''Z'' then char_of (of_char c + 32 :: nat) else c)"

fun contains :: "string \<Rightarrow> string \<Rightarrow> bool" where
  "contains p [] \<longleftrightarrow> p = []"
| "contains p (c # cs) \<longleftrightarrow> take (length p) (c # cs) = p \<or> contains p cs"

section \<open>The handlers\<close>

text \<open>
  A handler returns the output and the handles it takes, \<^verbatim>\<open>None\<close> for all of them.  \<open>cfg\<close> is the
  resolved configuration.
\<close>

type_synonym handler = "wf_env \<Rightarrow> (string \<times> json) list \<Rightarrow> (run_ctx, json \<times> string list option) op"

abbreviation give :: "json \<Rightarrow> ('s, json \<times> string list option) op" where
  "give v \<equiv> ret_op (v, None)"

definition h_trigger_manual :: handler where
  "h_trigger_manual env cfg = give (JObj (we_inputs env))"

definition h_trigger_ai :: handler where
  "h_trigger_ai env cfg = give (JObj (we_inputs env))"

definition h_trigger_event :: handler where
  "h_trigger_event env cfg = give (JObj (we_inputs env))"

definition h_trigger_schedule :: handler where
  "h_trigger_schedule env cfg = bind_op (now_op env) (\<lambda>now. give (JObj [(''triggered_at'', JStr now)]))"

definition set_var :: "string \<Rightarrow> json \<Rightarrow> (run_ctx, unit) op" where
  "set_var k v = modify_op (\<lambda>c. c\<lparr>rc_vars := AList.update k v (rc_vars c)\<rparr>)"

definition h_set_variable :: handler where
  "h_set_variable env cfg =
     bind_op (guard_op (set_and_true (map_of cfg ''key'')) ValueError) (\<lambda>_.
     let key = the (map_of cfg ''key''); expr = (case map_of cfg ''value_expr'' of None \<Rightarrow> JStr [] | Some e \<Rightarrow> e)
     in bind_op (template_ctx env) (\<lambda>tc.
        bind_op (if jtruthy expr then lift_op (evaluate_expression (we_eval env tc) expr) else ret_op JNull) (\<lambda>v.
        bind_op (set_var (py_str env key) v) (\<lambda>_.
        give (JObj [(''key'', key), (''value'', v)])))))"

definition tool_args_of :: "(string \<times> json) list \<Rightarrow> json" where
  "tool_args_of cfg =
     (case map_of cfg ''args'' of
        Some v \<Rightarrow> if v \<noteq> JNull then v else (case map_of cfg ''arguments'' of Some w \<Rightarrow> if w \<noteq> JNull then w else JObj [] | None \<Rightarrow> JObj [])
      | None \<Rightarrow> (case map_of cfg ''arguments'' of Some w \<Rightarrow> if w \<noteq> JNull then w else JObj [] | None \<Rightarrow> JObj []))"

definition is_obj :: "json \<Rightarrow> bool" where
  "is_obj v = (case v of JObj _ \<Rightarrow> True | _ \<Rightarrow> False)"

definition runtime_call :: "wf_env \<Rightarrow> (nat \<Rightarrow> wf_tool list res) \<Rightarrow> json \<Rightarrow> json \<Rightarrow> json \<Rightarrow> (run_ctx, json) op" where
  "runtime_call env discover mcp tool args =
     bind_op (outside discover) (\<lambda>ds.
     let matches = filter (\<lambda>d. JStr (wt_source d) = mcp \<and> JStr (wt_name d) = tool) ds
     in bind_op (guard_op (length matches = 1) CapabilityUnavailable) (\<lambda>_.
        outside (\<lambda>k. we_call env k (wt_ref (hd matches)) args)))"

definition pool_call :: "wf_env \<Rightarrow> json \<Rightarrow> json \<Rightarrow> json \<Rightarrow> (run_ctx, json) op" where
  "pool_call env mcp tool args =
     (case we_pool env of
        None \<Rightarrow> raise_op RuntimeError
      | Some call \<Rightarrow> outside (\<lambda>k. call k (py_str env mcp) (py_str env tool) args))"

definition h_mcp_tool :: handler where
  "h_mcp_tool env cfg =
     (let mcp = or_else (map_of cfg ''mcp_name'') JNull; tool = or_else (map_of cfg ''tool_name'') JNull; args = tool_args_of cfg
      in bind_op (guard_op (jtruthy mcp \<and> jtruthy tool) ValueError) (\<lambda>_.
         bind_op (guard_op (is_obj args) ValueError) (\<lambda>_.
         bind_op (case we_tools env of
                    Some discover \<Rightarrow> runtime_call env discover mcp tool args
                  | None \<Rightarrow> pool_call env mcp tool args) (\<lambda>r.
         give (JObj [(''result'', r)])))))"

definition node_instructions :: string where
  "node_instructions = ''[Workflow node instructions]'' @ [CHR 0x0A]"

definition h_ai_prompt :: "wnode \<Rightarrow> handler" where
  "h_ai_prompt node env cfg =
     bind_op (guard_op (set_and_true (map_of cfg ''prompt'')) ValueError) (\<lambda>_.
     let prompt = py_str env (the (map_of cfg ''prompt''));
         seed = (if set_and_true (map_of cfg ''system'')
                 then node_instructions @ strip (py_str env (the (map_of cfg ''system''))) @ [CHR 0x0A, CHR 0x0A] @ prompt
                 else prompt);
         shared = (map_of cfg ''session_policy'' = Some (JStr ''shared''));
         label = or_else (nd_label node) (or_else (map_of cfg ''label'') (JStr ''AI prompt''));
         origin = [(''workflow_id'', JStr (we_workflow env)), (''run_id'', JStr (we_run env))] @
                  (if shared then [] else [(''node_id'', JStr (nd_id node))]);
         parent = (if shared then None else Some (''workflow:'' @ we_workflow env @ '':'' @ we_run env))
     in (case we_owner env of
           None \<Rightarrow> raise_op PermissionError
         | Some owner \<Rightarrow>
             bind_op (outside (\<lambda>k. we_child env k
               \<lparr>cq_parent = parent, cq_origin = origin, cq_title = label, cq_prompt = seed, cq_owner = owner,
                cq_model = (case map_of cfg ''model_override'' of None \<Rightarrow> JNull | Some m \<Rightarrow> m)\<rparr>)) (\<lambda>(text, sid).
             give (JObj [(''text'', JStr text), (''child_session_id'', JStr sid)]))))"

text \<open>Only a failed template becomes a \<^verbatim>\<open>ValueError\<close>; the condition is always a text here.\<close>

definition h_if :: handler where
  "h_if env cfg =
     (case map_of cfg ''expression'' of
        None \<Rightarrow> raise_op ValueError
      | Some expr \<Rightarrow>
          if expr = JNull then raise_op ValueError
          else
            bind_op (template_ctx env) (\<lambda>tc.
            bind_op (lift_op (case evaluate_expression (we_eval env tc) (JStr (py_str env expr)) of
                                Inl e \<Rightarrow> Raise (if e = TemplateError then ValueError else e) | Inr v \<Rightarrow> Ret v)) (\<lambda>v.
            let branch = (if jtruthy v then ''true'' else ''false'')
            in ret_op (JObj [(''result'', JBool (jtruthy v)), (''branch'', JStr branch)], Some [branch]))))"

definition waited :: "wf_env \<Rightarrow> (run_ctx, json \<times> string list option) op" where
  "waited env = bind_op (outside (\<lambda>k. Ret (we_waited env k))) (\<lambda>ms. give (JObj [(''waited_ms'', JInt ms)]))"

definition h_wait :: handler where
  "h_wait env cfg =
     (let mode = or_else (map_of cfg ''mode'') (JStr ''duration'')
      in if mode = JStr ''duration'' then
           bind_op (lift_op (py_float env (or_else (map_of cfg ''seconds'') (JInt 0)))) (\<lambda>s.
           bind_op (guard_op (\<not> s < 0) ValueError) (\<lambda>_. waited env))
         else if mode = JStr ''until'' then
           (case map_of cfg ''until_iso'' of
              None \<Rightarrow> raise_op ValueError
            | Some raw \<Rightarrow>
                bind_op (guard_op (jtruthy raw \<and> we_iso env (py_str env raw)) ValueError) (\<lambda>_. waited env))
         else raise_op ValueError)"

definition h_parallel :: handler where
  "h_parallel env cfg = bind_op (lift_op (py_int (or_else (map_of cfg ''branches'') (JInt 2)))) (\<lambda>n. give (JObj [(''branches'', JInt n)]))"

text \<open>The outputs of the sources that succeeded, in the order of the graph's edges.\<close>

definition node_output :: "(string \<times> json) list \<Rightarrow> string \<Rightarrow> json" where
  "node_output nodes n = (case map_of nodes n of None \<Rightarrow> JNull | Some st \<Rightarrow> (case jget ''output'' st of None \<Rightarrow> JNull | Some v \<Rightarrow> v))"

definition succeeded :: "(string \<times> json) list \<Rightarrow> string \<Rightarrow> bool" where
  "succeeded nodes n = (case map_of nodes n of None \<Rightarrow> False | Some st \<Rightarrow> jget ''status'' st = Some (JStr ''success''))"

definition upstream_outputs :: "string \<Rightarrow> run_ctx \<Rightarrow> json list" where
  "upstream_outputs n c = map (node_output (rc_nodes c))
     (filter (succeeded (rc_nodes c)) (map eg_source (filter (\<lambda>e. eg_target e = n) (wg_edges (rc_graph c)))))"

definition h_merge :: "wnode \<Rightarrow> handler" where
  "h_merge node env cfg =
     (let strategy = or_else (map_of cfg ''strategy'') (JStr ''all'')
      in bind_op (read_op (upstream_outputs (nd_id node))) (\<lambda>outs.
         if strategy = JStr ''first'' then give (JObj [(''collected'', if outs = [] then JNull else hd outs)])
         else if strategy = JStr ''last'' then give (JObj [(''collected'', if outs = [] then JNull else last outs)])
         else (let key = or_else (map_of cfg ''collect_as'') (JStr ''collected'')
               in bind_op (guard_op (hashable (Some key)) TypeError) (\<lambda>_. give (JObj [(py_str env key, JArr outs)])))))"

definition h_http_request :: handler where
  "h_http_request env cfg =
     (case or_else (map_of cfg ''method'') (JStr ''GET'') of
        JStr meth \<Rightarrow>
          bind_op (guard_op (set_and_true (map_of cfg ''url'')) ValueError) (\<lambda>_.
          bind_op (lift_op (py_float env (or_else (map_of cfg ''timeout_s'') (JInt 30)))) (\<lambda>timeout.
          bind_op (outside (\<lambda>k. we_http env k
            \<lparr>hq_method = upper meth, hq_url = py_str env (the (map_of cfg ''url'')), hq_headers = or_else (map_of cfg ''headers'') (JObj []),
             hq_body = (case map_of cfg ''body'' of None \<Rightarrow> JNull | Some b \<Rightarrow> b), hq_timeout = timeout\<rparr>)) (\<lambda>resp.
          let parsed = (if contains ''json'' (lower (case hs_content_type resp of None \<Rightarrow> [] | Some t \<Rightarrow> t))
                        then we_loads env (hs_text resp) else None)
          in give (JObj ([(''status'', JInt (hs_status resp)), (''headers'', JObj (hs_headers resp)), (''body'', JStr (hs_text resp))] @
               (case parsed of None \<Rightarrow> [] | Some v \<Rightarrow> [(''json'', v)]))))))
      | _ \<Rightarrow> raise_op (OtherError ''AttributeError''))"

section \<open>The body of a loop\<close>

definition body_roots :: "wgraph \<Rightarrow> string \<Rightarrow> string list" where
  "body_roots g loop = map eg_target (filter (\<lambda>e. eg_source e = loop \<and> eg_handle e = JStr ''body'') (wg_edges g))"

text \<open>The search of \<^verbatim>\<open>_extract_body_subgraph\<close>; the head of the list is the top of the stack.\<close>

function body_reach :: "wedge list \<Rightarrow> string \<Rightarrow> string list \<Rightarrow> string set \<Rightarrow> string set" where
  "body_reach es loop [] seen = seen"
| "body_reach es loop (n # stack) seen =
     (if n = loop \<or> n \<in> seen then body_reach es loop stack seen
      else
        let new = map eg_target (filter (\<lambda>e. eg_source e = n \<and> eg_target e \<noteq> [] \<and> eg_target e \<noteq> loop
                    \<and> eg_target e \<notin> insert n seen) es)
        in body_reach es loop (rev new @ stack) (insert n seen))"
  by pat_completeness auto

termination
proof (relation "measures [\<lambda>(es, loop, stack, seen). card ((eg_target ` set es \<union> set stack) - seen), \<lambda>(es, loop, stack, seen). length stack]")
  fix es loop and n :: string and stack seen
  assume "n = loop \<or> n \<in> seen"
  let ?a = "(eg_target ` set es \<union> set stack) - seen" and ?b = "(eg_target ` set es \<union> set (n # stack)) - seen"
  have "card ?a \<le> card ?b" by (rule card_mono) auto
  then show "((es, loop, stack, seen), (es, loop, n # stack, seen)) \<in>
      measures [\<lambda>(es, loop, stack, seen). card ((eg_target ` set es \<union> set stack) - seen), \<lambda>(es, loop, stack, seen). length stack]"
    by (cases "card ?a = card ?b") simp_all
next
  fix es loop and n :: string and stack seen new
  assume n: "\<not> (n = loop \<or> n \<in> seen)"
    and new: "new = map eg_target (filter (\<lambda>e. eg_source e = n \<and> eg_target e \<noteq> [] \<and> eg_target e \<noteq> loop \<and> eg_target e \<notin> insert n seen) es)"
  have "card ((eg_target ` set es \<union> set (rev new @ stack)) - insert n seen) < card ((eg_target ` set es \<union> set (n # stack)) - seen)"
    by (rule psubset_card_mono) (use n new in auto)
  then show "((es, loop, rev new @ stack, insert n seen), (es, loop, n # stack, seen)) \<in>
      measures [\<lambda>(es, loop, stack, seen). card ((eg_target ` set es \<union> set stack) - seen), \<lambda>(es, loop, stack, seen). length stack]"
    by simp
qed simp

text \<open>The nodes of a body are listed in the order of the graph; the code iterates over a set.\<close>

definition extract_body :: "wgraph \<Rightarrow> string \<Rightarrow> wgraph" where
  "extract_body g loop =
     (let reachable = body_reach (wg_edges g) loop (rev (body_roots g loop)) {}
      in \<lparr>wg_nodes = filter (\<lambda>(i, _). i \<in> reachable) (wg_nodes g),
          wg_edges = filter (\<lambda>e. eg_source e \<in> reachable \<and> eg_target e \<in> reachable) (wg_edges g)\<rparr>)"

definition terminals :: "wgraph \<Rightarrow> string list" where
  "terminals g = filter (\<lambda>n. n \<notin> eg_source ` set (wg_edges g)) (node_ids g)"

definition collect_outputs :: "wgraph \<Rightarrow> (string \<times> json) list \<Rightarrow> (string \<times> json) list" where
  "collect_outputs g nodes =
     (case terminals g of
        [] \<Rightarrow> []
      | [n] \<Rightarrow> [(''value'', node_output nodes n), (''terminal_node'', JStr n)]
      | ns \<Rightarrow> map (\<lambda>n. (n, node_output nodes n)) ns)"

text \<open>A child context has nodes and graph of its own; the trace and the variables are shared.\<close>

definition run_subgraph :: "runner \<Rightarrow> wgraph \<Rightarrow> (run_ctx, json) op" where
  "run_subgraph run sub c =
     (case walk run sub None (c\<lparr>rc_nodes := [], rc_graph := sub\<rparr>) of
        (r, ch) \<Rightarrow>
          let outputs = collect_outputs sub (rc_nodes ch);
              c' = ch\<lparr>rc_nodes := rc_nodes c, rc_graph := rc_graph c\<rparr>
          in (bind_res r (\<lambda>_. Ret (case map_of outputs ''value'' of Some v \<Rightarrow> v | None \<Rightarrow> JObj outputs)), c'))"

fun loop_items :: "(json \<Rightarrow> nat \<Rightarrow> (run_ctx, json) op) \<Rightarrow> int \<Rightarrow> nat \<Rightarrow> json list \<Rightarrow> (run_ctx, json list) op" where
  "loop_items body m i [] = ret_op []"
| "loop_items body m i (x # xs) =
     (if m \<le> int i then ret_op []
      else bind_op (body x i) (\<lambda>out. bind_op (loop_items body m (Suc i) xs) (\<lambda>outs. ret_op (out # outs))))"

definition loop_list :: "json \<Rightarrow> json list res" where
  "loop_list v = (case v of JNull \<Rightarrow> Ret [] | JArr xs \<Rightarrow> Ret xs | _ \<Rightarrow> Raise ValueError)"

definition h_loop :: "runner \<Rightarrow> wnode \<Rightarrow> handler" where
  "h_loop run node env cfg =
     bind_op (guard_op (set_and_true (map_of cfg ''items_expr'')) ValueError) (\<lambda>_.
     bind_op (lift_op (py_int (or_else (map_of cfg ''max_iterations'') (JInt 100)))) (\<lambda>m.
     let var = py_str env (or_else (map_of cfg ''iteration_var'') (JStr ''item''))
     in bind_op (template_ctx env) (\<lambda>tc.
        bind_op (lift_op (bind_res (evaluate_expression (we_eval env tc) (JStr (py_str env (the (map_of cfg ''items_expr'')))))
                  loop_list)) (\<lambda>items.
        bind_op (read_op (\<lambda>c. extract_body (rc_graph c) (nd_id node))) (\<lambda>sub.
        bind_op (loop_items (\<lambda>x i.
            bind_op (set_var var x) (\<lambda>_.
            bind_op (set_var ''_iteration_index'' (JInt (int i))) (\<lambda>_.
            run_subgraph run sub))) m 0 items) (\<lambda>outs.
        ret_op (JObj [(''results'', JArr outs), (''iterations'', JInt (int (length outs)))], Some [''done''])))))))"

section \<open>One node\<close>

definition handlers :: "(string \<times> (runner \<Rightarrow> wnode \<Rightarrow> handler)) list" where
  "handlers =
     [(''trigger-manual'', \<lambda>_ _. h_trigger_manual), (''trigger-schedule'', \<lambda>_ _. h_trigger_schedule),
      (''trigger-ai'', \<lambda>_ _. h_trigger_ai), (''trigger-event'', \<lambda>_ _. h_trigger_event),
      (''set-variable'', \<lambda>_ _. h_set_variable), (''mcp-tool'', \<lambda>_ _. h_mcp_tool), (''ai-prompt'', \<lambda>_. h_ai_prompt),
      (''if'', \<lambda>_ _. h_if), (''wait'', \<lambda>_ _. h_wait), (''parallel'', \<lambda>_ _. h_parallel), (''merge'', \<lambda>_. h_merge),
      (''loop'', h_loop), (''http-request'', \<lambda>_ _. h_http_request)]"

text \<open>One write to the row of the run; the other processes may have flagged it before.\<close>

definition write_row :: "wf_env \<Rightarrow> (run_ctx \<Rightarrow> workflow_col list) \<Rightarrow> (run_ctx, unit) op" where
  "write_row env cols =
     bind_op (outside (\<lambda>k. Ret k)) (\<lambda>k.
     bind_op (modify_op (\<lambda>c. if we_stops env k
         then c\<lparr>rc_rows := update_where (\<lambda>r. rn_id r = we_run env \<and> rn_status r = ''running'') (\<lambda>r. r\<lparr>rn_status := ''cancelling''\<rparr>) (rc_rows c)\<rparr>
         else c)) (\<lambda>_.
     if we_locked env k then raise_op OperationalError
     else modify_op (\<lambda>c. c\<lparr>rc_rows := update_workflow_run (we_run env) (cols c) (rc_rows c)\<rparr>)))"

definition entry_json :: "trace_entry \<Rightarrow> json" where
  "entry_json t = JObj
     ([(''node_id'', JStr (te_node t)), (''type'', JStr (te_type t)), (''status'', JStr (te_status t)), (''input'', te_input t),
       (''output'', te_output t), (''error'', case te_error t of None \<Rightarrow> JNull | Some e \<Rightarrow> JStr e)] @
      (case te_child t of None \<Rightarrow> [] | Some s \<Rightarrow> [(''child_session_id'', s)]))"

definition trace_json :: "trace_entry list \<Rightarrow> json" where
  "trace_json ts = JArr (map entry_json ts)"

definition persist_trace :: "wf_env \<Rightarrow> (run_ctx, unit) op" where
  "persist_trace env = write_row env (\<lambda>c. [WTrace (Some (trace_json (rc_trace c)))])"

text \<open>The entry stays in the trace and is changed there, at its index.\<close>

definition open_entry :: "wnode \<Rightarrow> (run_ctx, nat) op" where
  "open_entry node = (\<lambda>c. (Ret (length (rc_trace c)), c\<lparr>rc_trace := rc_trace c @
     [\<lparr>te_node = nd_id node, te_type = nd_type node, te_status = ''running'', te_input = JNull, te_output = JNull, te_error = None, te_child = None\<rparr>]\<rparr>))"

definition set_entry :: "nat \<Rightarrow> (trace_entry \<Rightarrow> trace_entry) \<Rightarrow> (run_ctx, unit) op" where
  "set_entry i f = modify_op (\<lambda>c. c\<lparr>rc_trace := (rc_trace c)[i := f (rc_trace c ! i)]\<rparr>)"

definition set_node :: "string \<Rightarrow> json \<Rightarrow> (run_ctx, unit) op" where
  "set_node n v = modify_op (\<lambda>c. c\<lparr>rc_nodes := AList.update n v (rc_nodes c)\<rparr>)"

text \<open>The part of \<^verbatim>\<open>_run_node\<close> inside its \<^verbatim>\<open>try\<close>.\<close>

definition attempt_node :: "wf_env \<Rightarrow> (wnode \<Rightarrow> handler) \<Rightarrow> wnode \<Rightarrow> nat \<Rightarrow> json \<Rightarrow> (run_ctx, json \<times> string list option) op" where
  "attempt_node env h node i tc =
     bind_op (lift_op (resolve_templates (we_eval env tc) (we_render env tc) (JObj (nd_config node)))) (\<lambda>cfg.
     bind_op (set_entry i (\<lambda>t. t\<lparr>te_input := cfg\<rparr>)) (\<lambda>_.
     h node env (case cfg of JObj kvs \<Rightarrow> kvs | _ \<Rightarrow> [])))"

definition fail_node :: "wf_env \<Rightarrow> wnode \<Rightarrow> nat \<Rightarrow> py_error \<Rightarrow> (run_ctx, string list option) op" where
  "fail_node env node i e =
     (let on_error = (case map_of (nd_config node) ''on_error'' of None \<Rightarrow> JStr ''halt'' | Some v \<Rightarrow> v)
      in bind_op (set_entry i (\<lambda>t. t\<lparr>te_status := ''failed'', te_error := Some (error_name e)\<rparr>)) (\<lambda>_.
         bind_op (set_node (nd_id node) (JObj [(''output'', JNull), (''status'', JStr ''failed''), (''error'', JStr (error_name e))])) (\<lambda>_.
         bind_op (persist_trace env) (\<lambda>_.
         if on_error = JStr ''halt'' then raise_op WorkflowExecutionError
         else if on_error = JStr ''branch'' then ret_op (Some [''error''])
         else ret_op None))))"

definition child_of :: "json \<Rightarrow> json option" where
  "child_of out = (case jget ''child_session_id'' out of None \<Rightarrow> None | Some s \<Rightarrow> if jtruthy s then Some s else None)"

definition finish_node :: "wf_env \<Rightarrow> wnode \<Rightarrow> nat \<Rightarrow> json \<Rightarrow> string list option \<Rightarrow> (run_ctx, string list option) op" where
  "finish_node env node i out taken =
     bind_op (set_entry i (\<lambda>t. t\<lparr>te_status := ''success'', te_output := out, te_child := child_of out\<rparr>)) (\<lambda>_.
     bind_op (set_node (nd_id node) (JObj [(''output'', out), (''status'', JStr ''success'')])) (\<lambda>_.
     bind_op (persist_trace env) (\<lambda>_. ret_op taken)))"

text \<open>
  \<^verbatim>\<open>except Exception\<close> does not catch a \<^verbatim>\<open>CancelledError\<close> that a handler raises.  It leaves
  \<^verbatim>\<open>_run_node\<close>, \<^verbatim>\<open>gather\<close> hands it to the walk as a result, and the walk, which only looks for
  results that are an \<^verbatim>\<open>Exception\<close> or a set of handles, takes it for \<^verbatim>\<open>None\<close>: the entry
  stays as it is and all edges are followed.
\<close>

definition settle_node :: "wf_env \<Rightarrow> wnode \<Rightarrow> nat \<Rightarrow> (json \<times> string list option) res \<Rightarrow> (run_ctx, string list option) op" where
  "settle_node env node i r =
     (case r of
        Inl e \<Rightarrow> if e = OtherError ''CancelledError'' then ret_op None else fail_node env node i e
      | Inr (out, taken) \<Rightarrow> finish_node env node i out taken)"

definition exec_node :: "wf_env \<Rightarrow> runner \<Rightarrow> runner" where
  "exec_node env run node =
     (case map_of handlers (nd_type node) of
        None \<Rightarrow> raise_op WorkflowExecutionError
      | Some h \<Rightarrow>
          bind_op (open_entry node) (\<lambda>i.
          bind_op (persist_trace env) (\<lambda>_.
          bind_op (template_ctx env) (\<lambda>tc.
          (\<lambda>c. case attempt_node env (h run) node i tc c of (r, c') \<Rightarrow> settle_node env node i r c')))))"

text \<open>\<open>d\<close> bounds the nesting of loops; \<open>WorkflowRunLaws\<close> shows that the number of nodes is enough.\<close>

fun run_node :: "wf_env \<Rightarrow> nat \<Rightarrow> runner" where
  "run_node env 0 = exec_node env (\<lambda>_. raise_op (OtherError ''RecursionError''))"
| "run_node env (Suc d) = exec_node env (run_node env d)"

section \<open>A run\<close>

text \<open>
  The final write is tried four times; the last failure is only logged.  The last write, of the
  workflow's \<^verbatim>\<open>last_run_at\<close>, is to another table and left out.
\<close>

fun final_write :: "wf_env \<Rightarrow> (run_ctx \<Rightarrow> workflow_col list) \<Rightarrow> nat \<Rightarrow> (run_ctx, unit) op" where
  "final_write env cols 0 = ret_op ()"
| "final_write env cols (Suc n) = (\<lambda>c. case write_row env cols c of
     (Inl e, c') \<Rightarrow> final_write env cols n c'
   | (Inr _, c') \<Rightarrow> (Ret (), c'))"

definition finalize_run :: "wf_env \<Rightarrow> string \<Rightarrow> json option \<Rightarrow> string option \<Rightarrow> (run_ctx, unit) op" where
  "finalize_run env status outputs error =
     bind_op (outside (\<lambda>k. Ret (we_clock env k))) (\<lambda>now.
     final_write env (\<lambda>c. [WStatus status, WFinished (Some now), WTrace (Some (trace_json (rc_trace c)))] @
       (case outputs of None \<Rightarrow> [] | Some v \<Rightarrow> [WOutputs (Some v)]) @ (case error of None \<Rightarrow> [] | Some e \<Rightarrow> [WError (Some e)])) 4)"

text \<open>The validation at the start of a run, and the walk of the graph it has repaired.\<close>

definition run_body :: "wf_env \<Rightarrow> tool_inventory option \<Rightarrow> tool_callability option \<Rightarrow> string option \<Rightarrow> json \<Rightarrow> (run_ctx, (string \<times> json) list) op" where
  "run_body env inventory callability entry graph =
     (case validate_graph inventory callability graph of
        (r, graph') \<Rightarrow>
          bind_op (lift_op r) (\<lambda>_.
          bind_op (lift_op (decode_graph graph')) (\<lambda>g.
          bind_op (modify_op (\<lambda>c. c\<lparr>rc_graph := g\<rparr>)) (\<lambda>_.
          bind_op (walk (run_node env (length (wg_nodes g))) g entry) (\<lambda>_.
          read_op (\<lambda>c. collect_outputs g (rc_nodes c)))))))"

text \<open>
  \<^verbatim>\<open>dict(v)\<close> of an object, or of an iterable of pairs: lists of two, texts of two characters, objects
  with two keys.  A key that is no text is left out of the result, which has no place for it.
\<close>

definition pair_of :: "json \<Rightarrow> (json \<times> json) res" where
  "pair_of x =
     (case x of
        JArr xs \<Rightarrow> (case xs of [k, v] \<Rightarrow> Ret (k, v) | _ \<Rightarrow> Raise ValueError)
      | JStr s \<Rightarrow> (case s of [a, b] \<Rightarrow> Ret (JStr [a], JStr [b]) | _ \<Rightarrow> Raise ValueError)
      | JObj kvs \<Rightarrow> (case map fst kvs of [a, b] \<Rightarrow> Ret (JStr a, JStr b) | _ \<Rightarrow> Raise ValueError)
      | _ \<Rightarrow> Raise TypeError)"

fun dict_pairs :: "json list \<Rightarrow> (string \<times> json) list \<Rightarrow> (string \<times> json) list res" where
  "dict_pairs [] d = Ret d"
| "dict_pairs (x # xs) d =
     bind_res (pair_of x) (\<lambda>(k, v).
     if \<not> hashable (Some k) then Raise TypeError
     else dict_pairs xs (case k of JStr s \<Rightarrow> AList.update s v d | _ \<Rightarrow> d))"

definition py_dict :: "json \<Rightarrow> (string \<times> json) list res" where
  "py_dict v =
     (case v of
        JObj kvs \<Rightarrow> Ret kvs
      | JArr xs \<Rightarrow> dict_pairs xs []
      | JStr s \<Rightarrow> if s = [] then Ret [] else Raise ValueError
      | _ \<Rightarrow> Raise TypeError)"

text \<open>\<^verbatim>\<open>workflow.get("graph") or {}\<close>, and the context of the run, made before the \<^verbatim>\<open>try\<close> begins.\<close>

definition whole_graph :: "json \<Rightarrow> json" where
  "whole_graph graph = (if jtruthy graph then graph else JObj [])"

definition start_ctx :: "json \<Rightarrow> workflow_run list \<Rightarrow> run_ctx res" where
  "start_ctx graph rows =
     (case graph of
        JObj g \<Rightarrow> bind_res (py_dict (or_else (map_of g ''variables'') (JObj []))) (\<lambda>vars.
          Ret \<lparr>rc_nodes = [], rc_trace = [], rc_vars = vars, rc_graph = \<lparr>wg_nodes = [], wg_edges = []\<rparr>, rc_rows = rows, rc_calls = 0\<rparr>)
      | _ \<Rightarrow> Raise (OtherError ''AttributeError''))"

definition run_workflow :: "wf_env \<Rightarrow> tool_inventory option \<Rightarrow> tool_callability option \<Rightarrow> string \<Rightarrow> string option \<Rightarrow> json
    \<Rightarrow> (workflow_run list, workflow_run option) op" where
  "run_workflow env inventory callability trigger entry graph rows =
     (case add_workflow_run (we_clock env 0) (we_run env) (we_workflow env) trigger (we_inputs env) rows of
        (Inl e, rows') \<Rightarrow> (Raise e, rows')
      | (Inr _, rows') \<Rightarrow>
          (case start_ctx (whole_graph graph) rows' of
             Inl e \<Rightarrow> (Raise e, rows')
           | Inr c0 \<Rightarrow>
               (case run_body env inventory callability entry (whole_graph graph) c0 of
                  (r, c) \<Rightarrow>
                    (case (case r of Inl e \<Rightarrow> finalize_run env ''failed'' None (Some (error_name e)) c
                           | Inr outs \<Rightarrow> finalize_run env ''success'' (Some (JObj outs)) None c) of
                       (_, c') \<Rightarrow> (Ret (get_workflow_run (we_run env) (rc_rows c')), rc_rows c')))))"

text \<open>
  \<^verbatim>\<open>except asyncio.CancelledError\<close>: the entries that are still running are closed before the row
  is; the cancellation goes on to the caller.
\<close>

definition cancel_entry :: "trace_entry \<Rightarrow> trace_entry" where
  "cancel_entry t = (if te_status t = ''running'' then t\<lparr>te_status := ''cancelled'', te_error := Some ''Stopped by user''\<rparr> else t)"

definition cancelled_state :: json where
  "cancelled_state = JObj [(''output'', JNull), (''status'', JStr ''cancelled''), (''error'', JStr ''Stopped by user'')]"

definition cancel_run :: "wf_env \<Rightarrow> (run_ctx, unit) op" where
  "cancel_run env =
     bind_op (modify_op (\<lambda>c. c\<lparr>rc_trace := map cancel_entry (rc_trace c),
        rc_nodes := fold (\<lambda>n. AList.update n cancelled_state)
          (filter (\<lambda>n. n \<noteq> []) (map te_node (filter (\<lambda>t. te_status t = ''running'') (rc_trace c)))) (rc_nodes c)\<rparr>)) (\<lambda>_.
     bind_op (finalize_run env ''cancelled'' None (Some ''Stopped by user'')) (\<lambda>_. raise_op (OtherError ''CancelledError'')))"

end
