(* ===== verification/WorkflowMoves.thy ===== *)
theory WorkflowMoves
  imports WorkflowRun
begin

text \<open>
  What every step of a run preserves.  The locale \<open>run_relation\<close> asks a relation on contexts to hold
  over the few elementary changes that the executor makes; then it holds over every handler, every
  node at every depth, and every walk.
\<close>

locale run_relation =
  fixes env :: wf_env and R :: "run_ctx \<Rightarrow> run_ctx \<Rightarrow> bool"
  assumes refl: "reflp R" and trans: "transp R"
    and calls: "R c (c\<lparr>rc_calls := k\<rparr>)" and vars: "R c (c\<lparr>rc_vars := vs\<rparr>)" and nodes: "R c (c\<lparr>rc_nodes := ns\<rparr>)"
    and append: "R c (c\<lparr>rc_trace := rc_trace c @ ts\<rparr>)"
    and entry: "(\<And>t. te_node (f t) = te_node t) \<Longrightarrow> R c (c\<lparr>rc_trace := (rc_trace c)[i := f (rc_trace c ! i)]\<rparr>)"
    and R_persist: "moves R (persist_trace env)"
    and sub: "R (c\<lparr>rc_nodes := [], rc_graph := g\<rparr>) ch \<Longrightarrow> R c (ch\<lparr>rc_nodes := rc_nodes c, rc_graph := rc_graph c\<rparr>)"
begin

lemma R_trans: "R a b \<Longrightarrow> R b c \<Longrightarrow> R a c"
  using trans by (rule transpD)

lemma R_same: "R c c"
  using refl by (rule reflpD)

lemmas R_bind = moves_bind [OF trans]
lemmas R_basic = moves_basic [OF refl]
lemmas R_intros = R_bind R_basic moves_splits

lemma R_outside: "moves R (outside f)"
  unfolding moves_def outside_def by (simp add: calls)

lemma R_now: "moves R (now_op env')"
  unfolding now_op_def by (rule R_outside)

lemma R_template: "moves R (template_ctx env')"
  unfolding template_ctx_def by (intro R_intros R_now)

lemma R_set_var: "moves R (set_var k v)"
  unfolding set_var_def by (rule moves_modify) (rule vars)

lemma R_set_node: "moves R (set_node k v)"
  unfolding set_node_def by (rule moves_modify) (rule nodes)

lemma R_set_entry: "(\<And>t. te_node (f t) = te_node t) \<Longrightarrow> moves R (set_entry i f)"
  unfolding set_entry_def by (rule moves_modify) (rule entry)

lemma R_open: "moves R (open_entry node)"
  unfolding moves_def open_entry_def by (simp add: append)

lemma R_let: "(\<And>x. x = v \<Longrightarrow> moves R (m x)) \<Longrightarrow> moves R (let x = v in m x)"
  by simp

lemma R_json: "(\<And>s. v = JStr s \<Longrightarrow> moves R (f s)) \<Longrightarrow> moves R n \<Longrightarrow> moves R (case v of JStr s \<Rightarrow> f s | _ \<Rightarrow> n)"
  by (cases v) auto

lemmas R_steps = R_intros R_outside R_now R_template R_set_var R_set_node R_persist R_open R_let R_json

section \<open>Handlers\<close>

lemma R_waited: "moves R (waited env')"
  unfolding waited_def by (intro R_steps)

lemma R_tool_calls:
  "moves R (runtime_call env' discover mcp tool args)" "moves R (pool_call env' mcp tool args)"
  unfolding runtime_call_def pool_call_def by (intro R_steps)+

lemma R_handlers:
  "moves R (h_trigger_manual env' cfg)" "moves R (h_trigger_schedule env' cfg)" "moves R (h_trigger_ai env' cfg)"
  "moves R (h_trigger_event env' cfg)" "moves R (h_set_variable env' cfg)" "moves R (h_mcp_tool env' cfg)"
  "moves R (h_ai_prompt node env' cfg)" "moves R (h_if env' cfg)" "moves R (h_wait env' cfg)"
  "moves R (h_parallel env' cfg)" "moves R (h_merge node env' cfg)" "moves R (h_http_request env' cfg)"
  unfolding h_trigger_manual_def h_trigger_schedule_def h_trigger_ai_def h_trigger_event_def h_set_variable_def h_mcp_tool_def
    h_ai_prompt_def h_if_def h_wait_def h_parallel_def h_merge_def h_http_request_def
  by (intro R_steps R_tool_calls R_waited)+

section \<open>The walk\<close>

definition RW :: "walk_state \<Rightarrow> walk_state \<Rightarrow> bool" where
  "RW w w' \<longleftrightarrow> R (ws_ctx w) (ws_ctx w')"

lemma RW_trans: "RW u v \<Longrightarrow> RW v w \<Longrightarrow> RW u w"
  unfolding RW_def by (rule R_trans)

lemma RW_ctx: "ws_ctx w' = ws_ctx w \<Longrightarrow> RW w w'"
  by (simp add: RW_def R_same)

lemma RW_mark: "RW w (mark_dead g t w)"
proof -
  let ?c = "ws_ctx w"
  have "R ?c (?c\<lparr>rc_trace := rc_trace ?c @ [skip_entry g t]\<rparr>)" by (rule append)
  moreover have "R (?c\<lparr>rc_trace := rc_trace ?c @ [skip_entry g t]\<rparr>)
      (?c\<lparr>rc_trace := rc_trace ?c @ [skip_entry g t], rc_nodes := AList.update t skipped_state (rc_nodes ?c)\<rparr>)"
    using nodes [of "?c\<lparr>rc_trace := rc_trace ?c @ [skip_entry g t]\<rparr>"] by simp
  ultimately show ?thesis unfolding RW_def mark_dead_def by (simp add: R_trans)
qed

lemma RW_steps: "RW w (count_edge t b w)" "RW w (make_ready t w)"
  by (auto simp: count_edge_def make_ready_def intro: RW_ctx)

lemma RW_resolve: "RW w (snd (resolve_edges g es w))"
proof (induction g es w rule: resolve_edges.induct)
  case (2 g e b es w)
  define t where "t = eg_target e"
  let ?w = "count_edge t b w"
  have steps: "RW w ?w" "RW w (make_ready t ?w)" "RW w (mark_dead g t ?w)"
    by (blast intro: RW_trans RW_steps RW_mark)+
  consider "t \<in> walk_done w" | "t \<notin> set (node_ids g)" "t \<notin> walk_done w" | "t \<notin> walk_done w" "t \<in> set (node_ids g)" "ws_waiting ?w t \<noteq> 0"
    | "t \<notin> walk_done w" "t \<in> set (node_ids g)" "ws_waiting ?w t = 0" "0 < ws_sat ?w t"
    | "t \<notin> walk_done w" "t \<in> set (node_ids g)" "ws_waiting ?w t = 0" "\<not> 0 < ws_sat ?w t" by blast
  then show ?case
  proof cases
    case 3
    with "2.IH"(2) [OF t_def] steps(1) show ?thesis by (simp add: t_def Let_def) (blast intro: RW_trans)
  next
    case 4
    with "2.IH"(3) [OF t_def] steps(2) show ?thesis by (simp add: t_def Let_def) (blast intro: RW_trans)
  next
    case 5
    with "2.IH"(4) [OF t_def] steps(3) show ?thesis by (simp add: t_def Let_def) (blast intro: RW_trans)
  qed (use 2 t_def in \<open>simp_all add: Let_def RW_ctx\<close>)
qed (simp add: RW_ctx)

lemma RW_refl: "reflp RW"
  by (rule reflpI) (simp add: RW_ctx)

lemma RW_transp: "transp RW"
  by (rule transpI) (rule RW_trans)

lemma RW_route_edges: "moves RW (route_edges g taken es)"
proof (induction es)
  case (Cons e es)
  have "moves RW (resolve_edges g xs)" for xs using RW_resolve by (simp add: moves_def)
  with Cons show ?case unfolding route_edges.simps
    by (intro moves_bind [OF RW_transp] moves_basic [OF RW_refl]) simp_all
qed (simp add: moves_basic [OF RW_refl])

lemma RW_route_batch: "moves RW (route_batch g xs)"
proof (induction xs)
  case (Cons x xs)
  obtain n t where x: "x = (n, t)" by fastforce
  have "moves RW (modify_op (\<lambda>w. w\<lparr>ws_completed := ws_completed w @ [n]\<rparr>))" by (rule moves_modify) (simp add: RW_ctx)
  with Cons show ?case unfolding x route_batch.simps by (intro moves_bind [OF RW_transp] RW_route_edges) simp_all
qed (simp add: moves_basic [OF RW_refl])

lemma R_run_batch: "(\<And>d. moves R (run d)) \<Longrightarrow> R c (snd (run_batch run g ns c))"
proof (induction ns arbitrary: c)
  case (Cons n ns)
  obtain r c1 where r: "run (the (map_of (wg_nodes g) n)) c = (r, c1)" by fastforce
  then have "R c c1" by (rule movesD [OF Cons.prems])
  with Cons.IH [where c = c1, OF Cons.prems] r show ?case by (auto split: prod.splits intro: R_trans)
qed (simp add: R_same)

lemma RW_walk_batch:
  assumes "\<And>d. moves R (run d)"
  shows "RW w (snd (walk_batch run g w))"
proof -
  obtain rs c where rs: "run_batch run g (next_batch w) (ws_ctx w) = (rs, c)" by fastforce
  let ?w = "w\<lparr>ws_ready := [], ws_ctx := c\<rparr>"
  have w: "RW w ?w" using R_run_batch [where run = run and c = "ws_ctx w" and g = g and ns = "next_batch w", OF assms] rs by (simp add: RW_def)
  have "RW ?w (snd (route_batch g xs ?w))" for xs using RW_route_batch unfolding moves_def by blast
  with w have "RW w (snd (route_batch g xs ?w))" for xs by (rule RW_trans)
  moreover have "RW w (w\<lparr>ws_ready := []\<rparr>)" by (simp add: RW_ctx)
  ultimately show ?thesis using rs w by (auto simp: walk_batch_def Let_def split: option.splits)
qed

lemma RW_walk_loop:
  assumes "\<And>d. moves R (run d)"
  shows "RW w (snd (walk_loop run g w))"
proof (induction "alive g w" arbitrary: w rule: less_induct)
  case less
  show ?case
  proof (cases "next_batch w = [] \<or> fst (walk_batch run g w) \<noteq> Ret ()")
    case True
    with RW_walk_batch [where run = run and w = w and g = g, OF assms] show ?thesis by (auto simp: walk_loop.simps [of run g w] RW_ctx)
  next
    case False
    then have "alive g (snd (walk_batch run g w)) < alive g w" using alive_batch by blast
    from less [OF this] False RW_walk_batch [where run = run and w = w and g = g, OF assms] show ?thesis
      by (auto simp: walk_loop.simps [of run g w] intro: RW_trans)
  qed
qed

lemma RW_fold_dead: "RW w (fold (mark_dead g) ms w)"
  by (induction ms arbitrary: w) (auto intro: RW_trans RW_mark simp: RW_ctx)

lemma RW_start: "R c (ws_ctx (snd (walk_start g entry c)))"
proof -
  have "RW (walk_init g c) (snd (walk_start g entry c))"
  proof (cases entry)
    case (Some n)
    let ?v = "(walk_init g c)\<lparr>ws_ready := [n]\<rparr>"
    have "RW (walk_init g c) (snd (resolve_edges g es (fold (mark_dead g) ms ?v)))" for es ms
      by (rule RW_trans [OF RW_ctx RW_trans [OF RW_fold_dead RW_resolve]]) simp
    with Some show ?thesis by (simp add: walk_start_def Let_def RW_ctx)
  qed (simp add: walk_start_def RW_ctx)
  then show ?thesis by (simp add: RW_def walk_init_def)
qed

lemma R_walk:
  assumes "\<And>d. moves R (run d)"
  shows "moves R (walk run g entry)"
  unfolding moves_def
proof
  fix c
  obtain r w where start: "walk_start g entry c = (r, w)" by fastforce
  obtain r2 w2 where loop: "walk_loop run g w = (r2, w2)" by fastforce
  have "R c (ws_ctx w)" using RW_start [of c g entry] start by simp
  moreover from this have "R c (ws_ctx w2)" using RW_walk_loop [where run = run and w = w and g = g, OF assms] loop by (auto simp: RW_def intro: R_trans)
  moreover have "R (ws_ctx w2) (record_orphans g w2)" unfolding record_orphans_def Let_def by (rule append)
  ultimately show "R c (snd (walk run g entry c))"
    using start loop by (auto simp: walk_def walk_end_def split: sum.splits intro: R_trans)
qed

section \<open>Nodes at every depth\<close>

lemma R_subgraph:
  assumes "\<And>d. moves R (run d)"
  shows "moves R (run_subgraph run g)"
  unfolding moves_def
proof
  fix c
  obtain r ch where r: "walk run g None (c\<lparr>rc_nodes := [], rc_graph := g\<rparr>) = (r, ch)" by fastforce
  then have "R (c\<lparr>rc_nodes := [], rc_graph := g\<rparr>) ch" by (rule movesD [OF R_walk [OF assms]])
  from sub [OF this] show "R c (snd (run_subgraph run g c))" using r by (simp add: run_subgraph_def Let_def)
qed

lemma R_loop_items: "(\<And>x i. moves R (body x i)) \<Longrightarrow> moves R (loop_items body m i xs)"
proof (induction xs arbitrary: i)
  case (Cons x xs)
  then show ?case unfolding loop_items.simps by (intro R_steps) simp_all
qed (simp add: R_basic)

lemma R_loop:
  assumes "\<And>d. moves R (run d)"
  shows "moves R (h_loop run node env' cfg)"
  unfolding h_loop_def by (intro R_steps R_loop_items R_subgraph assms)

lemma R_attempt:
  assumes "\<And>d. moves R (run d)" "map_of handlers ty = Some h"
  shows "moves R (attempt_node env (h run) node i tc)"
proof -
  have "moves R (h run node env cfg)" for cfg
    using assms(2) R_handlers R_loop [OF assms(1)] unfolding handlers_def by (auto split: if_splits)
  then show ?thesis unfolding attempt_node_def by (intro R_steps R_set_entry) simp_all
qed

lemma R_fail: "moves R (fail_node env node i e)"
  unfolding fail_node_def Let_def by (intro R_steps R_set_entry) simp_all

lemma R_finish: "moves R (finish_node env node i out taken)"
  unfolding finish_node_def by (intro R_steps R_set_entry) simp_all

lemma R_settle: "moves R (settle_node env node i r)"
proof (cases r)
  case (Inl e)
  then show ?thesis unfolding settle_node_def by (cases "e = OtherError ''CancelledError''") (simp_all add: R_fail R_basic)
next
  case (Inr x)
  then show ?thesis by (cases x) (simp add: settle_node_def R_finish)
qed

lemma R_exec_rest:
  assumes "\<And>d. moves R (run d)" "map_of handlers ty = Some h"
  shows "moves R (\<lambda>c. case attempt_node env (h run) node i tc c of (r, c') \<Rightarrow> settle_node env node i r c')"
  unfolding moves_def
proof
  fix c
  obtain r c1 where r: "attempt_node env (h run) node i tc c = (r, c1)" by fastforce
  then have "R c c1" by (rule movesD [OF R_attempt [OF assms]])
  moreover have "R c1 (snd (settle_node env node i r c1))" using R_settle unfolding moves_def by blast
  ultimately show "R c (snd (case attempt_node env (h run) node i tc c of (r, c') \<Rightarrow> settle_node env node i r c'))"
    using r by (auto intro: R_trans)
qed

lemma R_exec:
  assumes "\<And>d. moves R (run d)"
  shows "moves R (exec_node env run node)"
proof (cases "map_of handlers (nd_type node)")
  case (Some h)
  then show ?thesis unfolding exec_node_def by (simp only: option.case) (intro R_steps R_exec_rest [OF assms Some])
qed (simp add: exec_node_def R_basic)

lemma R_run_node: "moves R (run_node env d node)"
proof (induction d arbitrary: node)
  case 0
  show ?case unfolding run_node.simps by (intro R_exec R_basic)
next
  case (Suc d)
  then show ?case unfolding run_node.simps by (intro R_exec)
qed

end

end
