(* ===== verification/WorkflowRunLaws.thy ===== *)
theory WorkflowRunLaws
  imports WorkflowMoves WorkflowOrder
begin

text \<open>
  What a run of the executor keeps and records.  The trace only grows and the row of the run only
  waits or is flagged, whatever the nodes do; the contract between the walk and the runner of a
  node is the locale \<open>node_runner\<close>, which \<open>run_node\<close> satisfies at every depth.
\<close>

section \<open>The trace only grows\<close>

definition traced :: "run_ctx \<Rightarrow> string list" where
  "traced c = map te_node (rc_trace c)"

definition grows :: "run_ctx \<Rightarrow> run_ctx \<Rightarrow> bool" where
  "grows c c' \<longleftrightarrow> rc_graph c' = rc_graph c \<and> (\<exists>ys. traced c' = traced c @ ys)"

lemma grows_reflp: "reflp grows"
  by (rule reflpI) (simp add: grows_def)

lemma grows_transp: "transp grows"
  by (rule transpI) (auto simp: grows_def)

lemmas grows_trans = transpD [OF grows_transp]

lemma grows_same: "rc_graph c' = rc_graph c \<Longrightarrow> rc_trace c' = rc_trace c \<Longrightarrow> grows c c'"
  by (simp add: grows_def traced_def)

lemma grows_traced: "grows c c' \<Longrightarrow> set (traced c) \<subseteq> set (traced c')"
  by (auto simp: grows_def)

lemma grows_write: "moves grows (write_row env cols)"
  unfolding write_row_def outside_def
  by (intro moves_bind [OF grows_transp] moves_basic [OF grows_reflp] moves_modify moves_splits) (simp_all add: moves_def grows_same)

interpretation gr: run_relation env grows for env
proof
  show "reflp grows" by (rule grows_reflp)
  show "transp grows" by (rule grows_transp)
next
  fix f :: "trace_entry \<Rightarrow> trace_entry" and c i
  assume f: "\<And>t. te_node (f t) = te_node t"
  have "map te_node (xs[i := f (xs ! i)]) = map te_node xs" for xs
    by (cases "i < length xs") (simp_all add: map_update f list_update_beyond, metis list_update_id nth_map)
  then show "grows c (c\<lparr>rc_trace := (rc_trace c)[i := f (rc_trace c ! i)]\<rparr>)" by (simp add: grows_def traced_def)
next
  show "moves grows (persist_trace env)" unfolding persist_trace_def by (rule grows_write)
qed (simp_all add: grows_same grows_def traced_def)

section \<open>The walk with any runner that keeps to the contract\<close>

locale node_runner =
  fixes run :: runner
  assumes run_grows: "moves grows (run d)"
    and run_traced: "run d c = (Ret t, c') \<Longrightarrow> nd_id d \<in> set (drop (length (rc_trace c)) (traced c'))"
begin

lemma run_batch_grows: "grows c (snd (run_batch run g ns c))"
proof (induction ns arbitrary: c)
  case (Cons n ns)
  obtain r c1 where r: "run (the (map_of (wg_nodes g) n)) c = (r, c1)" by fastforce
  then have "grows c c1" by (rule movesD [OF run_grows])
  with Cons.IH [of c1] r show ?case by (auto split: prod.splits intro: grows_trans)
qed (simp add: grows_def)

text \<open>A batch that returned has left an entry of each of its nodes.\<close>

lemma run_batch_traced:
  assumes "run_batch run g ns c = (rs, c')" "all_returned ns rs = Some xs"
  shows "\<forall>n \<in> set ns. nd_id (the (map_of (wg_nodes g) n)) \<in> set (traced c')"
  using assms
proof (induction ns arbitrary: c rs xs)
  case (Cons n ns)
  let ?d = "the (map_of (wg_nodes g) n)"
  obtain r c1 where r: "run ?d c = (r, c1)" by fastforce
  obtain qs c2 where qs: "run_batch run g ns c1 = (qs, c2)" by fastforce
  have c2: "c2 = c'" "rs = r # qs" using Cons.prems(1) r qs by simp_all
  with Cons.prems(2) obtain u ys where u: "r = Ret u" "all_returned ns qs = Some ys" by (cases r) auto
  from r u(1) run_traced have "nd_id ?d \<in> set (traced c1)" by (blast dest: in_set_dropD)
  moreover have "grows c1 c'" using run_batch_grows [of c1 g ns] qs c2 by simp
  ultimately have "nd_id ?d \<in> set (traced c')" using grows_traced by blast
  with Cons.IH [OF qs [unfolded c2] u(2)] show ?case by simp
qed simp

end

text \<open>The steps that only count edges or skip nodes do not need the contract.\<close>

definition ws_grows :: "walk_state \<Rightarrow> walk_state \<Rightarrow> bool" where
  "ws_grows w w' \<longleftrightarrow> grows (ws_ctx w) (ws_ctx w') \<and> (\<forall>n \<in> set (ws_dead w'). n \<in> set (ws_dead w) \<or> n \<in> set (traced (ws_ctx w')))"

lemma ws_grows_refl [simp]: "ws_grows w w"
  by (simp add: ws_grows_def grows_def)

lemma ws_grows_trans:
  assumes "ws_grows u v" "ws_grows v w"
  shows "ws_grows u w"
proof -
  have "grows (ws_ctx u) (ws_ctx w)" "set (traced (ws_ctx v)) \<subseteq> set (traced (ws_ctx w))"
    using assms grows_trans grows_traced unfolding ws_grows_def by blast+
  with assms show ?thesis unfolding ws_grows_def by blast
qed

lemma ws_grows_steps:
  "ws_grows w (count_edge t b w)" "ws_grows w (make_ready t w)" "ws_grows w (mark_dead g t w)"
  by (auto simp: ws_grows_def grows_def traced_def count_edge_def make_ready_def mark_dead_def skip_entry_def)

lemma resolve_edges_grows: "ws_grows w (snd (resolve_edges g es w))"
proof (induction g es w rule: resolve_edges.induct)
  case (2 g e b es w)
  define t where "t = eg_target e"
  let ?w = "count_edge t b w"
  have steps: "ws_grows w ?w" "ws_grows w (make_ready t ?w)" "ws_grows w (mark_dead g t ?w)"
    by (blast intro: ws_grows_trans ws_grows_steps)+
  consider "t \<in> walk_done w" | "t \<notin> set (node_ids g)" "t \<notin> walk_done w" | "t \<notin> walk_done w" "t \<in> set (node_ids g)" "ws_waiting ?w t \<noteq> 0"
    | "t \<notin> walk_done w" "t \<in> set (node_ids g)" "ws_waiting ?w t = 0" "0 < ws_sat ?w t"
    | "t \<notin> walk_done w" "t \<in> set (node_ids g)" "ws_waiting ?w t = 0" "\<not> 0 < ws_sat ?w t" by blast
  then show ?case
  proof cases
    case 3
    with "2.IH"(2) [OF t_def] steps(1) show ?thesis by (simp add: t_def Let_def) (blast intro: ws_grows_trans)
  next
    case 4
    with "2.IH"(3) [OF t_def] steps(2) show ?thesis by (simp add: t_def Let_def) (blast intro: ws_grows_trans)
  next
    case 5
    with "2.IH"(4) [OF t_def] steps(3) show ?thesis by (simp add: t_def Let_def) (blast intro: ws_grows_trans)
  qed (use 2 t_def in \<open>simp_all add: Let_def\<close>)
qed simp

lemma route_edges_grows: "ws_grows w (snd (route_edges g taken es w))"
proof (induction es arbitrary: w)
  case (Cons e es)
  show ?case
  proof (cases "handle_taken (eg_handle e) taken")
    case (Inr b)
    obtain r w1 where r: "resolve_edges g [(e, b)] w = (r, w1)" by fastforce
    with resolve_edges_grows [of w g "[(e, b)]"] Cons.IH [of w1] Inr show ?thesis by (cases r) (auto intro: ws_grows_trans)
  qed simp
qed simp

lemma route_batch_grows: "ws_grows w (snd (route_batch g xs w))"
proof (induction xs arbitrary: w)
  case (Cons x xs)
  obtain n t where x: "x = (n, t)" by fastforce
  obtain r w1 where r: "route_edges g t (outgoing g n) (complete n w) = (r, w1)" by fastforce
  have "ws_grows w (complete n w)" by (simp add: ws_grows_def grows_def)
  moreover have "ws_grows (complete n w) w1" using route_edges_grows [of "complete n w" g t "outgoing g n"] r by simp
  ultimately have "ws_grows w w1" by (rule ws_grows_trans)
  with Cons.IH [of w1] r x show ?case by (cases r) (auto intro: ws_grows_trans)
qed simp

definition keyed :: "wgraph \<Rightarrow> bool" where
  "keyed g \<longleftrightarrow> (\<forall>(i, d) \<in> set (wg_nodes g). nd_id d = i)"

lemma keyed_node: "keyed g \<Longrightarrow> n \<in> set (node_ids g) \<Longrightarrow> nd_id (the (map_of (wg_nodes g) n)) = n"
proof -
  assume "keyed g" "n \<in> set (node_ids g)"
  then obtain d where d: "map_of (wg_nodes g) n = Some d" unfolding node_ids_def by (metis map_of_eq_None_iff not_None_eq set_map)
  then have "(n, d) \<in> set (wg_nodes g)" by (rule map_of_SomeD)
  with \<open>keyed g\<close> d show ?thesis unfolding keyed_def by auto
qed

text \<open>All that is decided is in the trace.\<close>

definition traced_all :: "walk_state \<Rightarrow> bool" where
  "traced_all w \<longleftrightarrow> walk_done w \<subseteq> set (traced (ws_ctx w))"

context node_runner
begin

lemma walk_batch_grows: "ws_grows w (snd (walk_batch run g w))"
proof -
  obtain rs c where rs: "run_batch run g (next_batch w) (ws_ctx w) = (rs, c)" by fastforce
  let ?w = "w\<lparr>ws_ready := [], ws_ctx := c\<rparr>"
  have "ws_grows w ?w" using run_batch_grows [of "ws_ctx w" g "next_batch w"] rs by (simp add: ws_grows_def)
  moreover have "ws_grows ?w (snd (route_batch g xs ?w))" for xs by (rule route_batch_grows)
  moreover have "ws_grows w (w\<lparr>ws_ready := []\<rparr>)" by (simp add: ws_grows_def grows_def)
  ultimately show ?thesis using rs by (auto simp: walk_batch_def Let_def split: option.splits intro: ws_grows_trans)
qed

lemma walk_batch_traced:
  assumes "traced_all w" "keyed g" "fst (walk_batch run g w) = Ret ()"
  shows "traced_all (snd (walk_batch run g w))"
proof -
  obtain rs c where rs: "run_batch run g (next_batch w) (ws_ctx w) = (rs, c)" by fastforce
  let ?w = "w\<lparr>ws_ready := [], ws_ctx := c\<rparr>"
  from assms(3) rs obtain xs where xs: "all_returned (next_batch w) rs = Some xs" and nodes: "set (next_batch w) \<subseteq> set (node_ids g)"
    by (cases "all_returned (next_batch w) rs") (simp_all add: walk_batch_def Let_def split: if_splits)
  have routed: "walk_batch run g w = route_batch g xs ?w" using xs rs nodes by (simp add: walk_batch_def Let_def)
  let ?v = "snd (route_batch g xs ?w)"
  have "length rs = length (next_batch w)" using run_batch_length [of run g "next_batch w" "ws_ctx w"] rs by simp
  from all_returned_ids [OF xs this] have ids: "map fst xs = next_batch w" .
  have batch: "set (next_batch w) \<subseteq> set (traced c)"
    using run_batch_traced [OF rs xs] keyed_node [OF assms(2)] nodes by (metis subset_iff)
  have old: "walk_done w \<subseteq> set (traced c)"
    using assms(1) run_batch_grows [of "ws_ctx w" g "next_batch w"] rs grows_traced unfolding traced_all_def by fastforce
  have grown: "ws_grows ?w ?v" by (rule route_batch_grows)
  then have kept: "set (traced c) \<subseteq> set (traced (ws_ctx ?v))" using grows_traced [of c "ws_ctx ?v"] by (simp add: ws_grows_def)
  have done1: "ws_completed ?v = ws_completed w @ next_batch w"
    using route_batch_completed [of g xs ?w] assms(3) routed ids by simp
  have done2: "set (ws_dead ?v) \<subseteq> set (ws_dead w) \<union> set (traced (ws_ctx ?v))" using grown by (auto simp: ws_grows_def)
  show ?thesis
    unfolding traced_all_def routed walk_done_def [of ?v] done1 using done2 batch old kept by (auto simp: walk_done_def)
qed

lemma walk_loop_grows:
  "ws_grows w (snd (walk_loop run g w)) \<and>
   (traced_all w \<and> keyed g \<and> fst (walk_loop run g w) = Ret () \<longrightarrow> traced_all (snd (walk_loop run g w)))"
proof (induction "alive g w" arbitrary: w rule: less_induct)
  case less
  have idle: "ws_grows w (w\<lparr>ws_ready := []\<rparr>)" "traced_all w \<Longrightarrow> traced_all (w\<lparr>ws_ready := []\<rparr>)"
    by (simp_all add: ws_grows_def grows_def traced_all_def walk_done_def)
  show ?case
  proof (cases "next_batch w = [] \<or> fst (walk_batch run g w) \<noteq> Ret ()")
    case True
    with idle walk_batch_grows [of w g] show ?thesis by (auto simp: walk_loop.simps [of run g w])
  next
    case False
    then have "alive g (snd (walk_batch run g w)) < alive g w" using alive_batch by blast
    from less [OF this] False walk_batch_grows [of w g] walk_batch_traced [of w g] show ?thesis
      by (auto simp: walk_loop.simps [of run g w] intro: ws_grows_trans)
  qed
qed

end

lemma fold_dead_grows: "ws_grows w (fold (mark_dead g) ms w)"
  by (induction ms arbitrary: w) (auto intro: ws_grows_trans ws_grows_steps)

lemma walk_start_grows:
  "ws_grows (walk_init g c) (snd (walk_start g entry c)) \<and> ws_completed (snd (walk_start g entry c)) = []"
proof (cases "entry = None \<or> the entry \<notin> set (default_entries g)")
  case True
  then show ?thesis by (cases entry) (auto simp: walk_start_def walk_init_def)
next
  case False
  then obtain n where n: "entry = Some n" "n \<in> set (default_entries g)" by auto
  let ?v = "(walk_init g c)\<lparr>ws_ready := [n]\<rparr>"
  let ?w = "fold (mark_dead g) (siblings g n) ?v"
  let ?r = "resolve_edges g (map (\<lambda>e. (e, False)) (concat (map (outgoing g) (siblings g n)))) ?w"
  have "ws_grows (walk_init g c) ?v" by (simp add: ws_grows_def grows_def)
  then have "ws_grows (walk_init g c) (snd ?r)"
    by (blast intro: ws_grows_trans fold_dead_grows resolve_edges_grows)
  moreover have "ws_completed (snd ?r) = []" unfolding resolve_edges_completed fold_dead by (simp add: walk_init_def)
  moreover have "walk_start g entry c = ?r" using n by (simp add: walk_start_def Let_def)
  ultimately show ?thesis by simp
qed

lemma walk_start_traced: "traced_all (snd (walk_start g entry c))"
  using walk_start_grows [of g c entry] by (auto simp: traced_all_def walk_done_def ws_grows_def walk_init_def)

lemma orphans_traced:
  assumes "traced_all w"
  shows "set (node_ids g) \<subseteq> set (traced (record_orphans g w))" "grows (ws_ctx w) (record_orphans g w)"
proof -
  show "grows (ws_ctx w) (record_orphans g w)" by (simp add: grows_def record_orphans_def traced_def Let_def)
  show "set (node_ids g) \<subseteq> set (traced (record_orphans g w))"
    using assms by (auto simp: traced_all_def record_orphans_def traced_def Let_def skip_entry_def image_image)
qed

context node_runner
begin

lemma walk_traces_all:
  assumes "keyed g" "walk run g entry c = (Ret (), c')"
  shows "set (node_ids g) \<subseteq> set (traced c')"
proof -
  obtain r w where start: "walk_start g entry c = (r, w)" by fastforce
  obtain r2 w2 where loop: "walk_loop run g w = (r2, w2)" by fastforce
  have ok: "r = Ret ()" "r2 = Ret ()" "c' = record_orphans g w2"
    using assms(2) start loop by (auto simp: walk_def walk_end_def split: sum.splits)
  have "traced_all w" using walk_start_traced [of g entry c] start by simp
  then have "traced_all w2" using walk_loop_grows [of w g] assms(1) loop ok(2) by simp
  with orphans_traced(1) [of w2 g] ok(3) show ?thesis by simp
qed

end

section \<open>The executor's node is a runner\<close>

context node_runner
begin

lemma exec_node_runner: "node_runner (exec_node env run)"
proof
  fix node
  show "moves grows (exec_node env run node)" by (rule gr.R_exec [OF run_grows])
next
  fix node c t c'
  assume run: "exec_node env run node c = (Ret t, c')"
  then obtain h where h: "map_of handlers (nd_type node) = Some h" by (cases "map_of handlers (nd_type node)") (simp_all add: exec_node_def)
  let ?rest = "\<lambda>i. bind_op (persist_trace env) (\<lambda>_. bind_op (template_ctx env) (\<lambda>tc. (\<lambda>c. case attempt_node env (h run) node i tc c of (r, c') \<Rightarrow> settle_node env node i r c')))"
  have "moves grows (?rest i)" for i by (intro gr.R_steps gr.R_exec_rest [OF run_grows h])
  moreover obtain i c1 where c1: "open_entry node c = (Ret i, c1)" "?rest i c1 = (Ret t, c')"
    using run h unfolding exec_node_def by simp (erule bind_op_Ret_cases)
  ultimately have "grows c1 c'" by (blast dest: movesD)
  then obtain ys where "traced c' = traced c @ [nd_id node] @ ys" using c1(1) by (auto simp: grows_def open_entry_def traced_def)
  then show "nd_id node \<in> set (drop (length (rc_trace c)) (traced c'))" by (simp add: traced_def)
qed

end

lemma stuck_runner: "node_runner (\<lambda>_. raise_op e)"
  by unfold_locales (simp_all add: moves_basic [OF grows_reflp])

lemma run_node_runner: "node_runner (run_node env d)"
proof (induction d)
  case 0
  show ?case using node_runner.exec_node_runner [OF stuck_runner] by simp
next
  case (Suc d)
  then show ?case using node_runner.exec_node_runner by simp
qed

interpretation executor: node_runner "run_node env d" for env d
  by (rule run_node_runner)

end
