(* ===== verification/WorkflowRuns.thy ===== *)
theory WorkflowRuns
  imports WorkflowRunLaws WorkflowChecked RunHistory
begin

text \<open>
  Whole runs: the graph that the validator lets through is one that the walk can handle, a run
  that returns has traced every node, and the row of a run ends settled unless another process
  has asked for a stop or the database stayed locked.
\<close>

section \<open>What the validator establishes for the walk\<close>

lemma edge_of_edges: "List.map_filter edge_of es = map the (filter (\<lambda>x. x \<noteq> None) (map edge_of es))"
  by (induction es) (auto simp: List.map_filter_simps split: option.splits)

lemma put_all_keyed:
  assumes "\<forall>(i, d) \<in> set kvs \<union> set al. nd_id d = i"
  shows "\<forall>(i, d) \<in> set (put_all kvs al). nd_id d = i"
  using assms unfolding put_all_def
proof (induction kvs arbitrary: al)
  case (Cons x kvs)
  obtain k v where x: "x = (k, v)" by fastforce
  have "set (AList.update k v al) \<subseteq> insert (k, v) (set al)" by (induction al) auto
  with Cons.prems x have "\<forall>(i, d) \<in> set kvs \<union> set (AList.update k v al). nd_id d = i" by auto
  from Cons.IH [OF this] x show ?case by simp
qed simp

lemma put_all_fresh: "distinct (map fst al @ map fst kvs) \<Longrightarrow> put_all kvs al = al @ kvs"
  unfolding put_all_def
proof (induction kvs arbitrary: al)
  case (Cons x kvs)
  obtain k v where x: "x = (k, v)" by fastforce
  have "AList.update k v al = al @ [(k, v)]" if "k \<notin> fst ` set al" for al using that by (induction al) auto
  with Cons x show ?case by simp
qed simp

lemma decode_node_id: "decode_node n = Ret (i, d) \<Longrightarrow> i = node_id n \<and> nd_id d = i"
  by (auto simp: decode_node_def node_id_def bind_res_Inr split: option.splits json.splits)

lemma decode_nodes:
  assumes "map_res decode_node ns = Ret nodes"
  shows "map fst nodes = map node_id ns \<and> (\<forall>(i, d) \<in> set nodes. nd_id d = i)"
  using assms unfolding map_res_Ret
proof (induction rule: list_all2_induct)
  case (Cons n ns p nodes)
  with decode_node_id [of n "fst p" "snd p"] show ?case by auto
qed simp

lemma decode_edges: "map_res decode_edge es = Ret edges \<Longrightarrow> edges = List.map_filter edge_of es"
  unfolding map_res_Ret
  by (induction rule: list_all2_induct) (auto simp: decode_edge_def List.map_filter_simps split: option.splits)

lemma iterate_list: "graph_list k g = Ret xs \<Longrightarrow> iterate (map_of g k) = Ret ys \<Longrightarrow> ys = xs"
  by (auto simp: graph_list_def iterate_def split: option.splits json.splits list.splits if_splits)

lemma decode_valid:
  assumes "valid_graph inventory callability graph" "decode_graph graph = Ret g"
  shows "\<exists>nodes edges. node_ids g = map node_id nodes \<and> wg_edges g = List.map_filter edge_of edges \<and> keyed g \<and>
    closed_graph g \<and> acyclic (graph_flow nodes edges)"
proof -
  from assms(1) obtain kvs nodes edges where v: "graph = JObj kvs" "graph_list ''nodes'' kvs = Ret nodes" "graph_list ''edges'' kvs = Ret edges"
    "distinct (map node_id nodes)" "\<forall>e \<in> set edges. valid_edge (map node_id nodes) e" "acyclic (graph_flow nodes edges)"
    unfolding valid_graph_checks by blast
  from assms(2) obtain ns es ps where d: "iterate (map_of kvs ''nodes'') = Ret ns" "map_res decode_node ns = Ret ps"
    "iterate (map_of kvs ''edges'') = Ret es" "map_res decode_edge es = Ret (wg_edges g)" "wg_nodes g = put_all ps []"
    unfolding decode_graph_def v(1) by (auto simp: bind_res_Inr jget_def)
  have ns: "ns = nodes" "es = edges" using iterate_list [OF v(2) d(1)] iterate_list [OF v(3) d(3)] by auto
  note ps = decode_nodes [OF d(2)]
  then have nodes: "wg_nodes g = ps" using d(5) put_all_fresh [of "[]" ps] v(4) ns by simp
  then have ids: "node_ids g = map node_id nodes" using ps ns by (simp add: node_ids_def)
  have edges: "wg_edges g = List.map_filter edge_of edges" using decode_edges [OF d(4)] ns by simp
  have "eg_source w \<in> set (node_ids g) \<and> eg_target w \<in> set (node_ids g)" if "w \<in> set (wg_edges g)" for w
    using that v(5) unfolding edges ids by (fastforce simp: edge_of_edges valid_edge_of)
  then have "closed_graph g" using v(4) ids by (simp add: closed_graph_def)
  moreover have "keyed g" using ps nodes by (simp add: keyed_def)
  ultimately show ?thesis using ids edges v(6) by blast
qed

text \<open>
  C34: the graph that a successful validation leaves is fit for the walk: distinct nodes under
  their own ids, edges between nodes, and no cycle, provided no node has an edge to itself.
\<close>
theorem validated_graph_walkable:
  assumes "validate_graph inventory callability graph = (Ret (), graph')" "named_tools inventory"
    and "decode_graph graph' = Ret g" "\<forall>e \<in> set (wg_edges g). eg_source e \<noteq> eg_target e"
  shows "closed_graph g \<and> keyed g \<and> acyclic (wg_flow g)"
proof -
  obtain nodes edges where g: "node_ids g = map node_id nodes" "wg_edges g = List.map_filter edge_of edges" "keyed g"
    "closed_graph g" "acyclic (graph_flow nodes edges)"
    using decode_valid [OF validate_graph_valid [OF assms(1) disjI1 [OF assms(2)]] assms(3)] by blast
  have "wg_flow g \<subseteq> graph_flow nodes edges"
  proof
    fix p assume "p \<in> wg_flow g"
    then obtain e where e: "p = (eg_source e, eg_target e)" "e \<in> set (wg_edges g)" by (auto simp: wg_flow_def)
    then have "eg_source e \<in> set (map node_id nodes)" "eg_target e \<in> set (map node_id nodes)"
      using g(1,4) by (auto simp: closed_graph_def)
    then have "(eg_target e, eg_handle e) \<in> set (adjacent (map node_id nodes) (List.map_filter edge_of edges) (eg_source e))"
      using e(2) unfolding g(2) by (auto simp: adjacent_def)
    moreover have "\<not> exempt (loop_node nodes) (eg_source e) (eg_target e) (eg_handle e)" using assms(4) e(2) by (auto simp: exempt_def)
    ultimately show "p \<in> graph_flow nodes edges" unfolding e(1) graph_flow_def flow_edges_def by blast
  qed
  with g show ?thesis by (meson acyclic_subset)
qed

section \<open>The trace of a run\<close>

lemma run_body_Ret:
  assumes "run_body env inventory callability entry graph c = (Ret outs, c')"
  obtains graph' g c1 where "validate_graph inventory callability graph = (Ret (), graph')" "decode_graph graph' = Ret g"
    "walk (run_node env (length (wg_nodes g))) g entry (c\<lparr>rc_graph := g\<rparr>) = (Ret (), c')" "outs = collect_outputs g (rc_nodes c')"
  using assms unfolding run_body_def
  by (cases "validate_graph inventory callability graph") (auto elim!: bind_op_Ret_cases)

lemma decode_keyed: "decode_graph graph = Ret g \<Longrightarrow> keyed g"
proof -
  assume "decode_graph graph = Ret g"
  then obtain ns ps where ps: "map_res decode_node ns = Ret ps" "wg_nodes g = put_all ps []"
    unfolding decode_graph_def by (auto simp: bind_res_Inr)
  with decode_nodes [OF ps(1)] put_all_keyed [of ps "[]"] show ?thesis by (simp add: keyed_def)
qed

text \<open>
  C31: a run that returns outputs has traced every node of the graph that it validated, as run or
  as skipped, and its outputs are those of the nodes without outgoing edges.
\<close>
theorem run_traces_every_node:
  assumes "run_body env inventory callability entry graph c = (Ret outs, c')"
  shows "\<exists>g. decode_graph (snd (validate_graph inventory callability graph)) = Ret g \<and> rc_graph c' = g \<and>
    set (node_ids g) \<subseteq> set (map te_node (rc_trace c')) \<and> outs = collect_outputs g (rc_nodes c')"
proof -
  obtain graph' g where g: "validate_graph inventory callability graph = (Ret (), graph')" "decode_graph graph' = Ret g"
    "walk (run_node env (length (wg_nodes g))) g entry (c\<lparr>rc_graph := g\<rparr>) = (Ret (), c')" "outs = collect_outputs g (rc_nodes c')"
    using run_body_Ret [OF assms] .
  have "set (node_ids g) \<subseteq> set (traced c')" by (rule executor.walk_traces_all [OF decode_keyed [OF g(2)] g(3)])
  moreover have "grows (c\<lparr>rc_graph := g\<rparr>) c'" by (rule movesD [OF gr.R_walk [OF executor.run_grows] g(3)])
  ultimately show ?thesis using g by (simp add: grows_def traced_def)
qed

section \<open>The row of a run\<close>









text \<open>A write without a stop in between.\<close>

lemma write_row_plain:
  assumes "\<not> we_stops env (rc_calls c)"
  shows "write_row env cols c = (if we_locked env (rc_calls c) then (Raise OperationalError, c\<lparr>rc_calls := Suc (rc_calls c)\<rparr>)
    else (Ret (), c\<lparr>rc_calls := Suc (rc_calls c),
      rc_rows := update_workflow_run (we_run env) (cols (c\<lparr>rc_calls := Suc (rc_calls c)\<rparr>)) (rc_rows c)\<rparr>))"
  using assms by (simp add: write_row_def outside_def bind_op_def)




lemma final_write_rows:
  assumes "\<forall>k. \<not> we_stops env k" "\<And>c k. cols (c\<lparr>rc_calls := k\<rparr>) = cols c"
  shows "fst (final_write env cols n c) = Ret () \<and> rc_rows (snd (final_write env cols n c)) =
    (if \<exists>j<n. \<not> we_locked env (rc_calls c + j) then update_workflow_run (we_run env) (cols c) (rc_rows c) else rc_rows c)"
proof (induction n arbitrary: c)
  case (Suc n)
  show ?case
  proof (cases "we_locked env (rc_calls c)")
    case True
    let ?c = "c\<lparr>rc_calls := Suc (rc_calls c)\<rparr>"
    have "(\<exists>j<n. \<not> we_locked env (rc_calls ?c + j)) \<longleftrightarrow> (\<exists>j<Suc n. \<not> we_locked env (rc_calls c + j))"
      using True by (auto simp: less_Suc_eq_0_disj)
    with Suc.IH [of ?c] True assms show ?thesis by (simp add: write_row_plain) blast
  next
    case False
    then have "\<exists>j<Suc n. \<not> we_locked env (rc_calls c + j)" by (intro exI [of _ 0]) simp
    with False assms show ?thesis by (simp add: write_row_plain)
  qed
qed simp

abbreviation final_cols :: "wf_env \<Rightarrow> run_ctx \<Rightarrow> string \<Rightarrow> json option \<Rightarrow> string option \<Rightarrow> workflow_col list" where
  "final_cols env c s outs e \<equiv> [WStatus s, WFinished (Some (we_clock env (rc_calls c))), WTrace (Some (trace_json (rc_trace c)))] @
     (case outs of None \<Rightarrow> [] | Some v \<Rightarrow> [WOutputs (Some v)]) @ (case e of None \<Rightarrow> [] | Some x \<Rightarrow> [WError (Some x)])"

lemma finalize_rows:
  assumes "\<forall>k. \<not> we_stops env k"
  shows "fst (finalize_run env s outs e c) = Ret () \<and> rc_rows (snd (finalize_run env s outs e c)) =
    (if \<exists>j<4. \<not> we_locked env (Suc (rc_calls c) + j)
     then update_workflow_run (we_run env) (final_cols env c s outs e) (rc_rows c) else rc_rows c)"
  using final_write_rows [where c = "c\<lparr>rc_calls := Suc (rc_calls c)\<rparr>" and n = 4 and
    cols = "\<lambda>d. [WStatus s, WFinished (Some (we_clock env (rc_calls c))), WTrace (Some (trace_json (rc_trace d)))] @
     (case outs of None \<Rightarrow> [] | Some v \<Rightarrow> [WOutputs (Some v)]) @ (case e of None \<Rightarrow> [] | Some x \<Rightarrow> [WError (Some x)])", OF assms]
  by (simp add: finalize_run_def outside_def bind_op_def) blast

lemma final_row:
  "fold set_workflow_col (final_cols env c s outs e) r = r\<lparr>rn_status := s, rn_finished := Some (we_clock env (rc_calls c)),
     wr_trace := trace_json (rc_trace c), wr_outputs := (case outs of None \<Rightarrow> wr_outputs r | Some v \<Rightarrow> v),
     rn_error := (case e of None \<Rightarrow> rn_error r | Some x \<Rightarrow> Some x)\<rparr>"
  by (cases outs; cases e) simp_all

lemma final_gate:
  "run_gate i (List.map_filter new_workflow_status (final_cols env c s outs e)) r \<longleftrightarrow>
     rn_id r = i \<and> (s = ''cancelled'' \<or> rn_status r \<noteq> ''cancelling'')"
  by (cases outs; cases e) (auto simp: run_gate_def List.map_filter_simps)

text \<open>
  the last write of a run is tried four times: it is made as soon as one of four attempts
  finds the database unlocked, and when all four fail the row is left as it was and the run still
  returns; a row that waits for its cancellation only takes \<^verbatim>\<open>cancelled\<close>.
\<close>
theorem finalize_four_attempts:
  assumes "\<forall>k. \<not> we_stops env k" "find_row (we_run env) (rc_rows c) = Some r" "finalize_run env s outs e c = (q, c')"
  shows "q = Ret () \<and> (\<exists>r'. find_row (we_run env) (rc_rows c') = Some r' \<and>
    (if (\<exists>j<4. \<not> we_locked env (Suc (rc_calls c) + j)) \<and> (s = ''cancelled'' \<or> rn_status r \<noteq> ''cancelling'')
     then rn_status r' = s \<and> rn_finished r' = Some (we_clock env (rc_calls c)) \<and> wr_trace r' = trace_json (rc_trace c)
     else r' = r))"
proof -
  have id: "rn_id r = we_run env" using find_row_Some [OF assms(2)] by simp
  show ?thesis
  proof (cases "\<exists>j<4. \<not> we_locked env (Suc (rc_calls c) + j)")
    case True
    with finalize_rows [OF assms(1), of s outs e c] assms(3)
    have "q = Ret ()" "rc_rows c' = update_workflow_run (we_run env) (final_cols env c s outs e) (rc_rows c)" by auto
    moreover from this(2) have "find_row (we_run env) (rc_rows c') =
        Some (if s = ''cancelled'' \<or> rn_status r \<noteq> ''cancelling'' then fold set_workflow_col (final_cols env c s outs e) r else r)"
      unfolding update_workflow_run_def by (simp only: wcol.update_row assms(2) option.map final_gate id simp_thms)
    ultimately show ?thesis using True by (simp only: final_row) simp
  next
    case False
    with finalize_rows [OF assms(1), of s outs e c] assms(2,3) show ?thesis by auto
  qed
qed



section \<open>Instances\<close>

text \<open>An expression is the name of a variable of the run.\<close>

definition ex_eval :: "json \<Rightarrow> string \<Rightarrow> json res" where
  "ex_eval tc e = (case jget ''vars'' tc of
     None \<Rightarrow> Raise KeyError | Some vs \<Rightarrow> (case jget e vs of None \<Rightarrow> Raise KeyError | Some v \<Rightarrow> Ret v))"

definition ex_env :: wf_env where
  "ex_env = \<lparr>we_run = ''r'', we_workflow = ''w'', we_inputs = [], we_eval = ex_eval, we_render = (\<lambda>_. Ret), we_repr = (\<lambda>_. []),
     we_float_text = (\<lambda>_. None), we_iso = (\<lambda>_. False), we_loads = (\<lambda>_. None), we_now = (\<lambda>_. ''now''), we_clock = (\<lambda>_. 0),
     we_waited = (\<lambda>_. 0), we_tools = None, we_call = (\<lambda>_ _ _. Raise RuntimeError), we_pool = None, we_owner = None,
     we_child = (\<lambda>_ _. Raise RuntimeError), we_http = (\<lambda>_ _. Raise RuntimeError), we_locked = (\<lambda>_. False), we_stops = (\<lambda>_. False)\<rparr>"

definition ex_run_ctx :: run_ctx where
  "ex_run_ctx = \<lparr>rc_nodes = [], rc_trace = [], rc_vars = [(''a'', JStr ''hello''), (''n'', JInt 3), (''items'', JArr [])],
     rc_graph = \<lparr>wg_nodes = [], wg_edges = []\<rparr>, rc_rows = [], rc_calls = 0\<rparr>"

definition ex_attempt :: "string \<Rightarrow> (string \<times> json) list \<Rightarrow> (json \<times> string list option) res" where
  "ex_attempt ty config =
     (let node = \<lparr>nd_id = ''x'', nd_type = ty, nd_label = None, nd_config = config\<rparr>
      in case template_ctx ex_env ex_run_ctx of
           (Inr tc, c) \<Rightarrow> fst (attempt_node ex_env (the (map_of handlers ty) (run_node ex_env 1)) node 0 tc c)
         | (Inl e, c) \<Rightarrow> Raise e)"

text \<open>
  a loop whose list expression is a placeholder fails when the list is empty: the check for a
  missing expression is made after the placeholder has been replaced by its value.
\<close>
theorem empty_list_fails_loop:
  "ex_attempt ''loop'' [(''items_expr'', JStr ''{{items}}'')] = Raise ValueError \<and>
   ex_attempt ''loop'' [(''items_expr'', JStr ''items'')] = Ret (JObj [(''results'', JArr []), (''iterations'', JInt 0)], Some [''done''])"
  by code_simp

text \<open>
  a variable set from a placeholder is evaluated twice: a text is taken for an expression, and
  a number is refused.
\<close>
theorem placeholder_evaluated_twice:
  "ex_attempt ''set-variable'' [(''key'', JStr ''k''), (''value_expr'', JStr ''{{a}}'')] = Raise TemplateError \<and>
   ex_attempt ''set-variable'' [(''key'', JStr ''k''), (''value_expr'', JStr ''{{n}}'')] = Raise TypeError \<and>
   ex_attempt ''set-variable'' [(''key'', JStr ''k''), (''value_expr'', JStr ''n'')] =
     Ret (JObj [(''key'', JStr ''k''), (''value'', JInt 3)], None)"
  by code_simp

text \<open>
  the validator accepts a loop with a body edge to itself, the edge that its cycle check exempts,
  and it accepts a graph whose nodes are null, which the executor cannot read.
\<close>
theorem accepted_but_not_run:
  "fst (validate_graph None None (JObj [(''nodes'', JArr [ex_block ''l'' ''loop'' [(''items_expr'', JStr ''items'')]]),
      (''edges'', JArr [ex_wire ''l'' ''body'' ''l''])])) = Ret () \<and>
   fst (validate_graph None None (JObj [(''nodes'', JNull)])) = Ret () \<and>
   decode_graph (JObj [(''nodes'', JNull)]) = Raise TypeError"
  by code_simp

definition ex_one :: json where
  "ex_one = JObj [(''nodes'', JArr [ex_block ''a'' ''trigger-manual'' []]), (''edges'', JArr [])]"

theorem validated_graph_walkable_witness:
  "\<exists>g g'. validate_graph None None ex_flow = (Ret (), g') \<and> decode_graph g' = Ret g \<and> closed_graph g \<and> acyclic (wg_flow g)"
proof -
  let ?g' = "snd (validate_graph None None ex_flow)"
  let ?g = "projr (decode_graph ?g')"
  have "fst (validate_graph None None ex_flow) = Ret ()" by code_simp
  then have v: "validate_graph None None ex_flow = (Ret (), ?g')" by (metis prod.collapse)
  have "\<not> isl (decode_graph ?g')" by code_simp
  then have d: "decode_graph ?g' = Ret ?g" by (cases "decode_graph ?g'") simp_all
  have "\<forall>e \<in> set (wg_edges ?g). eg_source e \<noteq> eg_target e" by code_simp
  with validated_graph_walkable [OF v _ d] v d show ?thesis by (auto simp: named_tools_def)
qed

theorem run_traces_every_node_witness:
  "\<exists>outs c' g. run_body ex_env None None None ex_one ex_run_ctx = (Ret outs, c') \<and>
    decode_graph (snd (validate_graph None None ex_one)) = Ret g \<and> set (node_ids g) \<subseteq> set (map te_node (rc_trace c'))"
proof -
  have "\<not> isl (fst (run_body ex_env None None None ex_one ex_run_ctx))" by code_simp
  from op_returned [OF this] obtain outs c' where r: "run_body ex_env None None None ex_one ex_run_ctx = (Ret outs, c')" by blast
  from run_traces_every_node [OF r] r show ?thesis by blast
qed

theorem finalize_four_attempts_witness:
  "\<exists>c' r'. finalize_run ex_env ''success'' None None (ex_run_ctx\<lparr>rc_rows := [(hd ex_wf_runs)\<lparr>rn_id := ''r''\<rparr>]\<rparr>) = (Ret (), c') \<and>
     find_row ''r'' (rc_rows c') = Some r' \<and> rn_status r' = ''cancelling''"
proof -
  let ?row = "(hd ex_wf_runs)\<lparr>rn_id := ''r''\<rparr>"
  let ?c = "ex_run_ctx\<lparr>rc_rows := [?row]\<rparr>"
  obtain q c' where f: "finalize_run ex_env ''success'' None None ?c = (q, c')" by fastforce
  have "\<forall>k. \<not> we_stops ex_env k" "we_run ex_env = ''r''" by (simp_all add: ex_env_def)
  moreover have "find_row ''r'' (rc_rows ?c) = Some ?row" by (simp add: find_row_def)
  ultimately show ?thesis using finalize_four_attempts [of ex_env ?c ?row, OF _ _ f] f by (simp add: ex_wf_runs_def)
qed


text \<open>
  A graph whose variables are a number is accepted by the validator, but its run raises and leaves its
  row running.
\<close>

lemma bad_variables_strand_run:
  "fst (validate_graph None None (JObj [(''nodes'', JArr []), (''variables'', JInt 3)])) = Ret ()"
  "case run_workflow ex_env None None ''manual'' None (JObj [(''nodes'', JArr []), (''variables'', JInt 3)]) [] of
     (r, rows) \<Rightarrow> r = Raise TypeError \<and> map rn_status rows = [''running'']"
  by code_simp+

text \<open>A tool call that is cancelled: the node counts as done, and its entry stays running.\<close>

lemma cancelled_handler_ignored:
  "case run_node (ex_env\<lparr>we_pool := Some (\<lambda>_ _ _ _. Raise (OtherError ''CancelledError''))\<rparr>) 0
      \<lparr>nd_id = ''x'', nd_type = ''mcp-tool'', nd_label = None, nd_config = [(''mcp_name'', JStr ''m''), (''tool_name'', JStr ''t'')]\<rparr>
      ex_run_ctx of
     (r, c) \<Rightarrow> r = Ret None \<and> map te_status (rc_trace c) = [''running'']"
  by code_simp

end
