(* ===== verification/WorkflowDepth.thy ===== *)
theory WorkflowDepth
  imports WorkflowRuns
begin

text \<open>
  The bound on the nesting of loops in \<open>run_node\<close> is never reached: a loop's body is a smaller
  graph without the loop, so the number of nodes of the graph bounds the depth.
\<close>

section \<open>Walks with runners that agree on the graph\<close>

definition agree :: "wgraph \<Rightarrow> runner \<Rightarrow> runner \<Rightarrow> bool" where
  "agree g r s \<longleftrightarrow> (\<forall>d \<in> snd ` set (wg_nodes g). \<forall>c :: run_ctx. rc_graph c = g \<longrightarrow> r d c = s d c)"

lemma node_in_graph: "n \<in> set (node_ids g) \<Longrightarrow> the (map_of (wg_nodes g) n) \<in> snd ` set (wg_nodes g)"
proof -
  assume "n \<in> set (node_ids g)"
  then obtain d where d: "map_of (wg_nodes g) n = Some d" unfolding node_ids_def by (metis map_of_eq_None_iff not_None_eq set_map)
  then have "(n, d) \<in> set (wg_nodes g)" by (rule map_of_SomeD)
  with d show ?thesis by force
qed

lemma grows_graph: "moves grows m \<Longrightarrow> rc_graph (snd (m c)) = rc_graph c"
  unfolding moves_def grows_def by blast

context node_runner
begin

lemma run_batch_agree:
  assumes "agree g run s" "set ns \<subseteq> set (node_ids g)" "rc_graph c = g"
  shows "run_batch run g ns c = run_batch s g ns c"
  using assms(2,3)
proof (induction ns arbitrary: c)
  case (Cons n ns)
  let ?d = "the (map_of (wg_nodes g) n)"
  have "?d \<in> snd ` set (wg_nodes g)" using Cons.prems(1) by (intro node_in_graph) simp
  with assms(1) Cons.prems(2) have same: "run ?d c = s ?d c" unfolding agree_def by blast
  obtain r c1 where r: "run ?d c = (r, c1)" by fastforce
  have "rc_graph c1 = g" using grows_graph [OF run_grows, of ?d c] r Cons.prems(2) by simp
  with Cons r same show ?case by simp
qed simp

lemma walk_batch_agree:
  assumes "agree g run s" "rc_graph (ws_ctx w) = g"
  shows "walk_batch run g w = walk_batch s g w"
  using run_batch_agree [OF assms(1), of "next_batch w" "ws_ctx w"] assms(2) by (simp add: walk_batch_def Let_def)

lemma walk_loop_agree:
  assumes "agree g run s" "rc_graph (ws_ctx w) = g"
  shows "walk_loop run g w = walk_loop s g w"
  using assms(2)
proof (induction "alive g w" arbitrary: w rule: less_induct)
  case less
  note step = walk_batch_agree [OF assms(1) less.prems]
  show ?case
  proof (cases "next_batch w = [] \<or> fst (walk_batch run g w) \<noteq> Ret ()")
    case True
    with step show ?thesis by (simp add: walk_loop.simps [of _ g w]) auto
  next
    case False
    then have "alive g (snd (walk_batch run g w)) < alive g w" using alive_batch by blast
    moreover have "rc_graph (ws_ctx (snd (walk_batch run g w))) = g"
      using walk_batch_grows [of w g] less.prems by (simp add: ws_grows_def grows_def)
    ultimately have "walk_loop run g (snd (walk_batch run g w)) = walk_loop s g (snd (walk_batch run g w))" by (rule less.hyps)
    with False step show ?thesis by (simp add: walk_loop.simps [of _ g w])
  qed
qed

lemma walk_agree:
  assumes "agree g run s" "rc_graph c = g"
  shows "walk run g entry c = walk s g entry c"
proof -
  have "rc_graph (ws_ctx (snd (walk_start g entry c))) = g"
    using walk_start_grows [of g c entry] assms(2) by (simp add: ws_grows_def grows_def walk_init_def)
  with walk_loop_agree [OF assms(1)] show ?thesis
    unfolding walk_def walk_end_def by (cases "walk_start g entry c"; cases "fst (walk_start g entry c)") simp_all
qed

lemma run_subgraph_agree: "agree g run s \<Longrightarrow> run_subgraph run g = run_subgraph s g"
proof
  fix c
  assume "agree g run s"
  from walk_agree [OF this, of "c\<lparr>rc_nodes := [], rc_graph := g\<rparr>" None]
  show "run_subgraph run g c = run_subgraph s g c" by (simp add: run_subgraph_def)
qed

end

section \<open>Nodes whose loops agree\<close>

lemma bind_op_same: "(\<And>x s'. m s = (Inr x, s') \<Longrightarrow> f x s' = g x s') \<Longrightarrow> bind_op m f s = bind_op m g s"
  by (cases "m s"; cases "fst (m s)") auto

lemma graph_kept:
  assumes "m c = (r, c')" "moves grows m" "rc_graph c = g"
  shows "rc_graph c' = g"
  using grows_graph [OF assms(2), of c] assms(1,3) by simp

lemma h_loop_agree:
  assumes "run_subgraph r (extract_body g (nd_id node)) = run_subgraph s (extract_body g (nd_id node))" "rc_graph c = g"
  shows "h_loop r node env cfg c = h_loop s node env cfg c"
  unfolding h_loop_def Let_def
proof (rule bind_op_same)+
  fix u c0 m c1 tc c2 items c3 sub c4
  assume "guard_op (set_and_true (map_of cfg ''items_expr'')) ValueError c = (Ret u, c0)"
    "lift_op (py_int (or_else (map_of cfg ''max_iterations'') (JInt 100))) c0 = (Ret m, c1)"
    "template_ctx env c1 = (Ret tc, c2)"
    "lift_op (bind_res (evaluate_expression (we_eval env tc) (JStr (py_str env (the (map_of cfg ''items_expr''))))) loop_list) c2 = (Ret items, c3)"
    and sub: "read_op (\<lambda>c. extract_body (rc_graph c) (nd_id node)) c3 = (Ret sub, c4)"
  then have "rc_graph c3 = g"
    using graph_kept [OF _ gr.R_template] assms(2) by (simp add: guard_op_Ret)
  with sub assms(1) have "run_subgraph r sub = run_subgraph s sub" by auto
  then show "bind_op (loop_items (\<lambda>x i. bind_op (set_var (py_str env (or_else (map_of cfg ''iteration_var'') (JStr ''item''))) x)
        (\<lambda>_. bind_op (set_var ''_iteration_index'' (JInt (int i))) (\<lambda>_. run_subgraph r sub))) m 0 items)
      (\<lambda>outs. ret_op (JObj [(''results'', JArr outs), (''iterations'', JInt (int (length outs)))], Some [''done''])) c4 =
    bind_op (loop_items (\<lambda>x i. bind_op (set_var (py_str env (or_else (map_of cfg ''iteration_var'') (JStr ''item''))) x)
        (\<lambda>_. bind_op (set_var ''_iteration_index'' (JInt (int i))) (\<lambda>_. run_subgraph s sub))) m 0 items)
      (\<lambda>outs. ret_op (JObj [(''results'', JArr outs), (''iterations'', JInt (int (length outs)))], Some [''done''])) c4"
    by simp
qed

lemma handler_agree:
  assumes "map_of handlers ty = Some h" "run_subgraph r (extract_body g (nd_id node)) = run_subgraph s (extract_body g (nd_id node))"
    and "rc_graph c = g"
  shows "h r node env cfg c = h s node env cfg c"
  using assms(1) h_loop_agree [OF assms(2,3)] unfolding handlers_def by (auto split: if_splits)

lemma attempt_agree:
  assumes "map_of handlers ty = Some h" "run_subgraph r (extract_body g (nd_id node)) = run_subgraph s (extract_body g (nd_id node))"
    and "rc_graph c = g"
  shows "attempt_node env (h r) node i tc c = attempt_node env (h s) node i tc c"
  unfolding attempt_node_def
proof (rule bind_op_same)+
  fix cfg c0 u c1
  assume "lift_op (resolve_templates (we_eval env tc) (we_render env tc) (JObj (nd_config node))) c = (Ret cfg, c0)"
    and set: "set_entry i (\<lambda>t. t\<lparr>te_input := cfg\<rparr>) c0 = (Ret u, c1)"
  then have "rc_graph c0 = g" using assms(3) by simp
  then have "rc_graph c1 = g" using set by (auto simp: set_entry_def)
  then show "h r node env (case cfg of JObj kvs \<Rightarrow> kvs | _ \<Rightarrow> []) c1 = h s node env (case cfg of JObj kvs \<Rightarrow> kvs | _ \<Rightarrow> []) c1"
    by (rule handler_agree [OF assms(1,2)])
qed

lemma exec_agree:
  assumes "run_subgraph r (extract_body g (nd_id node)) = run_subgraph s (extract_body g (nd_id node))" "rc_graph c = g"
  shows "exec_node env r node c = exec_node env s node c"
proof (cases "map_of handlers (nd_type node)")
  case (Some h)
  show ?thesis
    unfolding exec_node_def Some option.case
  proof (rule bind_op_same)+
    fix i c0 u c1 tc c2
    assume a: "open_entry node c = (Ret i, c0)" "persist_trace env c0 = (Ret u, c1)" "template_ctx env c1 = (Ret tc, c2)"
    from graph_kept [OF a(1) gr.R_open assms(2)] have "rc_graph c0 = g" .
    from graph_kept [OF a(2) gr.R_persist this] have "rc_graph c1 = g" .
    from graph_kept [OF a(3) gr.R_template this] have "rc_graph c2 = g" .
    from attempt_agree [OF Some assms(1) this]
    show "(case attempt_node env (h r) node i tc c2 of (q, c') \<Rightarrow> settle_node env node i q c') =
        (case attempt_node env (h s) node i tc c2 of (q, c') \<Rightarrow> settle_node env node i q c')" by simp
  qed
qed (simp add: exec_node_def)

section \<open>The body is smaller\<close>

lemma body_reach_loop: "loop \<notin> seen \<Longrightarrow> loop \<notin> body_reach es loop stack seen"
  by (induction es loop stack seen rule: body_reach.induct) (auto simp: Let_def)

lemma extract_body_smaller:
  assumes "n \<in> set (node_ids g)"
  shows "length (wg_nodes (extract_body g n)) < length (wg_nodes g)"
proof -
  obtain d where "(n, d) \<in> set (wg_nodes g)" using assms by (auto simp: node_ids_def)
  then show ?thesis
    unfolding extract_body_def Let_def using body_reach_loop [of n "{}" "wg_edges g"] by (simp add: length_filter_less)
qed

lemma extract_body_keyed: "keyed g \<Longrightarrow> keyed (extract_body g n)"
  by (auto simp: keyed_def extract_body_def Let_def)

definition inner_runner :: "wf_env \<Rightarrow> nat \<Rightarrow> runner" where
  "inner_runner env d = (case d of 0 \<Rightarrow> (\<lambda>_. raise_op (OtherError ''RecursionError'')) | Suc k \<Rightarrow> run_node env k)"

lemma run_node_inner: "run_node env d = exec_node env (inner_runner env d)"
  by (cases d) (simp_all add: inner_runner_def)

text \<open>
  C33: the depth is not observable: with at least as many levels as the graph has nodes, a node of
  the graph runs the same at any two depths, so no run ends because the bound was reached.
\<close>
theorem depth_not_reached:
  assumes "keyed (rc_graph c)" "nd_id node \<in> set (node_ids (rc_graph c))"
    and "length (wg_nodes (rc_graph c)) \<le> Suc d" "length (wg_nodes (rc_graph c)) \<le> Suc d'"
  shows "run_node env d node c = run_node env d' node c"
  using assms
proof (induction d arbitrary: d' node c rule: less_induct)
  case (less d)
  let ?g = "rc_graph c"
  let ?sub = "extract_body ?g (nd_id node)"
  have smaller: "length (wg_nodes ?sub) < length (wg_nodes ?g)" by (rule extract_body_smaller [OF less.prems(2)])
  have runner: "node_runner (inner_runner env e)" for e
    unfolding inner_runner_def by (cases e) (simp_all add: stuck_runner run_node_runner)
  have "agree ?sub (inner_runner env d) (inner_runner env d')"
  proof (cases "wg_nodes ?sub = []")
    case False
    then have "0 < length (wg_nodes ?sub)" by simp
    with smaller less.prems(3,4) have "0 < d" "0 < d'" by linarith+
    then obtain k k' where k: "d = Suc k" "d' = Suc k'" by (metis gr0_conv_Suc)
    show ?thesis
      unfolding agree_def
    proof (intro ballI allI impI)
      fix x and c' :: run_ctx assume x: "x \<in> snd ` set (wg_nodes ?sub)" and c': "rc_graph c' = ?sub"
      have keyed: "keyed ?sub" by (rule extract_body_keyed [OF less.prems(1)])
      with x have "nd_id x \<in> set (node_ids ?sub)" by (force simp: keyed_def node_ids_def)
      with less.IH [of k c' x k'] k keyed smaller less.prems(3,4) c'
      show "inner_runner env d x c' = inner_runner env d' x c'" by (simp add: inner_runner_def)
    qed
  qed (simp add: agree_def)
  from node_runner.run_subgraph_agree [OF runner this] show ?case
    unfolding run_node_inner by (rule exec_agree) simp
qed

theorem depth_not_reached_witness:
  "run_node ex_env 1 (snd (ex_node ''a'')) (ex_ctx\<lparr>rc_graph := ex_loop\<rparr>) = run_node ex_env 9 (snd (ex_node ''a'')) (ex_ctx\<lparr>rc_graph := ex_loop\<rparr>)"
  by (rule depth_not_reached) code_simp+

end
