(* ===== verification/RuntimeGraph.thy ===== *)
theory RuntimeGraph
  imports Capabilities ModuleGraph
begin

text \<open>
  The module graph of a runtime (\<^verbatim>\<open>packages/runtime/src/openagent_core/runtime.py\<close>): how a
  profile is prepared into a graph of started modules, how the components that graphs share are
  counted, and how a graph is closed.  The modules and components are the host's: what their
  methods answer is a field of \<open>module_host\<close>, a function of the number of the \<^verbatim>\<open>await\<close> at
  which they are asked, and \<open>mh_meanwhile\<close> is what they and the other tasks do to the capability
  catalog during that \<^verbatim>\<open>await\<close>.  A component is known by its \<^verbatim>\<open>id\<close>.
\<close>

section \<open>Contributions and graphs\<close>

text \<open>\<^verbatim>\<open>ModuleContribution\<close>; a capability carries its \<^verbatim>\<open>managed\<close> flag in the draft.\<close>

record 'v contribution =
  co_services :: "(string \<times> 'v) list"
  co_capabilities :: "registration list"
  co_prompt_blocks :: "'v list"
  co_routes :: "'v list"
  co_health_checks :: "'v list"
  co_search_providers :: "'v list"
  co_workers :: "nat list"
  co_event_ingresses :: "nat list"
  co_indices :: "nat list"

record 'v active_graph =
  ag_profile :: runtime_profile
  ag_services :: "'v service_registry"
  ag_instances :: "(string \<times> module_descriptor \<times> 'v contribution) list"
  ag_prompt_blocks :: "'v list"
  ag_routes :: "'v list"
  ag_health_checks :: "'v list"
  ag_search_providers :: "'v list"
  ag_workers :: "nat list"
  ag_event_ingresses :: "nat list"
  ag_indices :: "nat list"
  ag_components_started :: bool
  ag_leases :: nat
  ag_draining :: bool
  ag_drained :: bool

definition graph_acquire :: "('v active_graph, unit) op" where
  "graph_acquire = (\<lambda>g.
     if ag_draining g then (Raise RuntimeError, g)
     else (Ret (), g\<lparr>ag_leases := Suc (ag_leases g), ag_drained := False\<rparr>))"

definition graph_release :: "'v active_graph \<Rightarrow> 'v active_graph" where
  "graph_release g =
     (if ag_leases g < 1 then g
      else g\<lparr>ag_leases := ag_leases g - 1, ag_drained := (if ag_leases g - 1 = 0 then True else ag_drained g)\<rparr>)"

definition graph_components :: "'v active_graph \<Rightarrow> nat list" where
  "graph_components g = ag_indices g @ ag_event_ingresses g @ ag_workers g"

section \<open>The host\<close>

datatype host_action =
    LMigrate string int
  | LPrepare string
  | LStart string
  | LClose string
  | LComponentStart nat bool
  | LComponentClose nat

record 'v module_host =
  mh_migrations :: "string \<Rightarrow> int list"
  mh_migrate :: "nat \<Rightarrow> string \<Rightarrow> int \<Rightarrow> unit res"
  mh_prepare :: "nat \<Rightarrow> string \<Rightarrow> unit res"
  mh_start :: "nat \<Rightarrow> string \<Rightarrow> 'v contribution res"
  mh_close :: "nat \<Rightarrow> string \<Rightarrow> unit res"
  mh_component_start :: "nat \<Rightarrow> (nat \<Rightarrow> unit res) option"
  mh_component_close :: "nat \<Rightarrow> (nat \<Rightarrow> unit res) option"
  mh_meanwhile :: "nat \<Rightarrow> catalog \<Rightarrow> catalog"

text \<open>What the graph code keeps in the runtime: the catalog, the counts of the shared components, the migrations applied.\<close>

record host =
  ho_time :: nat
  ho_catalog :: catalog
  ho_references :: "(nat \<times> nat) list"
  ho_applied :: "(string \<times> int) list"
  ho_log :: "host_action list"

definition host_call :: "'v module_host \<Rightarrow> (nat \<Rightarrow> 'a res) \<Rightarrow> ('a res \<Rightarrow> host_action) \<Rightarrow> (host, 'a) op" where
  "host_call w f a = (\<lambda>h. (f (ho_time h), h\<lparr>ho_time := Suc (ho_time h), ho_log := ho_log h @ [a (f (ho_time h))],
     ho_catalog := mh_meanwhile w (ho_time h) (ho_catalog h)\<rparr>))"

section \<open>Components shared between graphs\<close>

definition uses :: "host \<Rightarrow> nat \<Rightarrow> nat" where
  "uses h c = (case map_of (ho_references h) c of None \<Rightarrow> 0 | Some n \<Rightarrow> n)"

definition set_uses :: "nat \<Rightarrow> nat \<Rightarrow> host \<Rightarrow> host" where
  "set_uses c n h = h\<lparr>ho_references := AList.update c n (ho_references h)\<rparr>"

definition release_component :: "'v module_host \<Rightarrow> nat \<Rightarrow> (host, unit) op" where
  "release_component w c = (\<lambda>h.
     if 1 < uses h c then (Ret (), set_uses c (uses h c - 1) h)
     else let h' = h\<lparr>ho_references := AList.delete c (ho_references h)\<rparr> in
       (case mh_component_close w c of
          None \<Rightarrow> (Ret (), h')
        | Some close \<Rightarrow> host_call w close (\<lambda>_. LComponentClose c) h'))"

definition acquire_component :: "'v module_host \<Rightarrow> nat \<Rightarrow> (host, unit) op" where
  "acquire_component w c = (\<lambda>h.
     if uses h c \<noteq> 0 then (Ret (), set_uses c (uses h c + 1) h)
     else bind_op
       (case mh_component_start w c of
          None \<Rightarrow> ret_op ()
        | Some start \<Rightarrow> host_call w start (\<lambda>r. LComponentStart c (\<not> isl r)))
       (\<lambda>_. modify_op (set_uses c 1)) h)"

text \<open>The components started before an exception, and the exception.\<close>

fun start_components :: "'v module_host \<Rightarrow> nat list \<Rightarrow> nat list \<Rightarrow> (host, nat list \<times> py_error option) op" where
  "start_components w [] started = ret_op (started, None)"
| "start_components w (c # cs) started = (\<lambda>h.
     case acquire_component w c h of
       (Inl e, h') \<Rightarrow> (Ret (started, Some e), h')
     | (Inr _, h') \<Rightarrow> start_components w cs (started @ [c]) h')"

fun release_components :: "'v module_host \<Rightarrow> nat list \<Rightarrow> (host, unit) op" where
  "release_components w [] = ret_op ()"
| "release_components w (c # cs) = bind_op (release_component w c) (\<lambda>_. release_components w cs)"

definition start_graph_components :: "'v module_host \<Rightarrow> 'v active_graph \<Rightarrow> (host, 'v active_graph) op" where
  "start_graph_components w g =
     (if ag_components_started g then ret_op g
      else bind_op (start_components w (graph_components g) []) (\<lambda>(started, failure).
        case failure of
          None \<Rightarrow> ret_op (g\<lparr>ag_components_started := True\<rparr>)
        | Some e \<Rightarrow> bind_op (release_components w (rev started)) (\<lambda>_. raise_op e)))"

section \<open>Preparing a graph\<close>

fun apply_migrations :: "'v module_host \<Rightarrow> string \<Rightarrow> int list \<Rightarrow> (host, (string \<times> int) list) op" where
  "apply_migrations w i [] = ret_op []"
| "apply_migrations w i (r # rs) =
     bind_op (read_op (\<lambda>h. (i, r) \<in> set (ho_applied h))) (\<lambda>known.
     bind_op (if known then ret_op [] else bind_op (host_call w (\<lambda>t. mh_migrate w t i r) (\<lambda>_. LMigrate i r)) (\<lambda>_. ret_op [(i, r)])) (\<lambda>new.
     bind_op (apply_migrations w i rs) (\<lambda>more. ret_op (new @ more))))"

fun bind_services :: "string \<Rightarrow> (string \<times> 'v) list \<Rightarrow> 'v service_registry \<Rightarrow> 'v service_registry res" where
  "bind_services i [] r = Ret r"
| "bind_services i ((k, v) # bs) r = bind_res (registry_bind k v i False r) (bind_services i bs)"

definition register_module_capability :: "int \<Rightarrow> registration \<Rightarrow> (host, unit) op" where
  "register_module_capability generation draft = (\<lambda>h.
     let d = draft\<lparr>rg_graph_generation := Some generation, rg_lease := None\<rparr> in
     case (if rg_managed draft then register_managed d else register_user_source d) (ho_catalog h) of
       Inl e \<Rightarrow> (Raise e, h)
     | Inr c \<Rightarrow> (Ret (), h\<lparr>ho_catalog := c\<rparr>))"

fun register_capabilities :: "int \<Rightarrow> registration list \<Rightarrow> (host, unit) op" where
  "register_capabilities generation [] = ret_op ()"
| "register_capabilities generation (d # ds) =
     bind_op (register_module_capability generation d) (\<lambda>_. register_capabilities generation ds)"

definition prepare_module :: "'v module_host \<Rightarrow> int \<Rightarrow> string \<Rightarrow> 'v service_registry
    \<Rightarrow> (host, 'v contribution \<times> 'v service_registry \<times> (string \<times> int) list) op" where
  "prepare_module w generation i registry =
     bind_op (apply_migrations w i (mh_migrations w i)) (\<lambda>new.
     bind_op (host_call w (\<lambda>t. mh_prepare w t i) (\<lambda>_. LPrepare i)) (\<lambda>_.
     bind_op (host_call w (\<lambda>t. mh_start w t i) (\<lambda>_. LStart i)) (\<lambda>co.
     bind_op (lift_op (bind_services i (co_services co) registry)) (\<lambda>bound.
     bind_op (register_capabilities generation (co_capabilities co)) (\<lambda>_.
     ret_op (co, fold (\<lambda>v. registry_bind_many ''search.providers'' v i) (co_search_providers co) bound, new))))))"

text \<open>The modules started before an exception, and the exception.\<close>

fun prepare_modules :: "'v module_host \<Rightarrow> int \<Rightarrow> (string \<times> module_descriptor) list \<Rightarrow> 'v service_registry
    \<Rightarrow> (string \<times> module_descriptor \<times> 'v contribution) list \<Rightarrow> (string \<times> int) list
    \<Rightarrow> (host, 'v service_registry \<times> (string \<times> module_descriptor \<times> 'v contribution) list \<times> (string \<times> int) list \<times> py_error option) op" where
  "prepare_modules w generation [] registry started new = ret_op (registry, started, new, None)"
| "prepare_modules w generation ((i, d) # ds) registry started new = (\<lambda>h.
     case prepare_module w generation i registry h of
       (Inl e, h') \<Rightarrow> (Ret (registry, started, new, Some e), h')
     | (Inr (co, registry', n), h') \<Rightarrow> prepare_modules w generation ds registry' (started @ [(i, d, co)]) (new @ n) h')"

text \<open>Loops that close one thing after the other and remember the exceptions.\<close>

fun close_each :: "('a \<Rightarrow> (host, unit) op) \<Rightarrow> 'a list \<Rightarrow> (host, py_error list) op" where
  "close_each f [] = ret_op []"
| "close_each f (x # xs) = (\<lambda>h.
     case f x h of
       (Inl e, h') \<Rightarrow> bind_op (close_each f xs) (\<lambda>es. ret_op (e # es)) h'
     | (Inr _, h') \<Rightarrow> close_each f xs h')"

definition close_instances :: "'v module_host \<Rightarrow> (string \<times> module_descriptor \<times> 'v contribution) list \<Rightarrow> (host, py_error list) op" where
  "close_instances w started = close_each (\<lambda>(i, _). host_call w (\<lambda>t. mh_close w t i) (\<lambda>_. LClose i)) (rev started)"

definition new_graph :: "runtime_profile \<Rightarrow> 'v service_registry \<Rightarrow> (string \<times> module_descriptor \<times> 'v contribution) list \<Rightarrow> 'v active_graph" where
  "new_graph profile registry started =
     \<lparr>ag_profile = profile, ag_services = registry, ag_instances = started,
      ag_prompt_blocks = concat (map (\<lambda>(_, _, co). co_prompt_blocks co) started),
      ag_routes = concat (map (\<lambda>(_, _, co). co_routes co) started),
      ag_health_checks = concat (map (\<lambda>(_, _, co). co_health_checks co) started),
      ag_search_providers = registry_all ''search.providers'' registry,
      ag_workers = concat (map (\<lambda>(_, _, co). co_workers co) started),
      ag_event_ingresses = concat (map (\<lambda>(_, _, co). co_event_ingresses co) started),
      ag_indices = concat (map (\<lambda>(_, _, co). co_indices co) started),
      ag_components_started = False, ag_leases = 0, ag_draining = False, ag_drained = True\<rparr>"

text \<open>The handler of a failed preparation, and the exception raised again.\<close>

definition abandon_graph :: "'v module_host \<Rightarrow> int \<Rightarrow> (string \<times> module_descriptor \<times> 'v contribution) list \<Rightarrow> py_error \<Rightarrow> (host, 'a) op" where
  "abandon_graph w generation started e =
     bind_op (modify_op (\<lambda>h. h\<lparr>ho_catalog := revoke_generation generation (ho_catalog h)\<rparr>)) (\<lambda>_.
     bind_op (close_instances w started) (\<lambda>_. raise_op e))"

definition prepare_graph :: "'v module_host \<Rightarrow> module_catalog \<Rightarrow> runtime_profile \<Rightarrow> 'v service_registry \<Rightarrow> bool \<Rightarrow> (host, 'v active_graph) op" where
  "prepare_graph w cat profile services start =
     bind_op (lift_op (resolve cat profile services)) (\<lambda>order.
     bind_op (prepare_modules w (rp_generation profile) order (registry_clone services) [] []) (\<lambda>(registry, started, new, failure).
     case failure of
       Some e \<Rightarrow> abandon_graph w (rp_generation profile) started e
     | None \<Rightarrow> (\<lambda>h.
         case (if start then start_graph_components w else ret_op) (new_graph profile registry started) h of
           (Inl e, h') \<Rightarrow> abandon_graph w (rp_generation profile) started e h'
         | (Inr g, h') \<Rightarrow> (Ret g, h'\<lparr>ho_applied := ho_applied h' @ filter (\<lambda>m. m \<notin> set (ho_applied h')) new\<rparr>))))"

section \<open>Closing a graph\<close>

definition close_graph :: "'v module_host \<Rightarrow> 'v active_graph \<Rightarrow> (host, py_error list) op" where
  "close_graph w g =
     bind_op (if ag_components_started g then close_each (release_component w) (rev (graph_components g)) else ret_op []) (\<lambda>es.
     bind_op (close_instances w (ag_instances g)) (\<lambda>es'.
     bind_op (modify_op (\<lambda>h. h\<lparr>ho_catalog := revoke_generation (rp_generation (ag_profile g)) (ho_catalog h)\<rparr>)) (\<lambda>_.
     ret_op (es @ es'))))"

end
