(* ===== verification/RuntimeGraphLaws.thy ===== *)
theory RuntimeGraphLaws
  imports RuntimeGraph
begin

text \<open>
  What preparing and closing module graphs guarantees: a failed preparation leaves nothing of its
  generation behind and closes the modules it had completed, in reverse order; a shared component
  runs while some open graph contains it, and its count is that of the open graphs unless a close
  method raised while the components of a graph that failed to start were released.
\<close>

section \<open>The catalog along an operation\<close>

text \<open>The host's tasks use the catalog through its own operations only.\<close>

definition careful :: "(nat \<Rightarrow> string) \<Rightarrow> 'v module_host \<Rightarrow> bool" where
  "careful token w \<longleftrightarrow> (\<forall>t c. wf_catalog token c \<longrightarrow> wf_catalog token (mh_meanwhile w t c))"

definition cat_ok :: "(nat \<Rightarrow> string) \<Rightarrow> host \<Rightarrow> host \<Rightarrow> bool" where
  "cat_ok token h h' \<longleftrightarrow> (wf_catalog token (ho_catalog h) \<longrightarrow> wf_catalog token (ho_catalog h'))"

lemma cat_ok_reflp: "reflp (cat_ok token)" and cat_ok_transp: "transp (cat_ok token)"
  by (auto simp: reflp_def transp_def cat_ok_def)

lemmas cat_bind = moves_bind [OF cat_ok_transp]
lemmas cat_basic = moves_basic [OF cat_ok_reflp]
lemmas cat_intros = cat_bind cat_basic moves_splits

lemma cat_host_call: "careful token w \<Longrightarrow> moves (cat_ok token) (host_call w f a)"
  by (simp add: moves_def cat_ok_def host_call_def careful_def)

lemma cat_register: "moves (cat_ok token) (register_module_capability g d)"
  by (auto simp: moves_def cat_ok_def register_module_capability_def Let_def register_user_source_def
      dest: wf_register_managed wf_register_user split: sum.split if_splits)

lemma cat_register_all: "moves (cat_ok token) (register_capabilities g ds)"
  by (induction ds) (auto intro: cat_intros cat_register)

lemma cat_migrations: "careful token w \<Longrightarrow> moves (cat_ok token) (apply_migrations w i rs)"
  by (induction rs) (auto intro!: cat_intros cat_host_call)

lemma cat_prepare_module: "careful token w \<Longrightarrow> moves (cat_ok token) (prepare_module w g i reg)"
  unfolding prepare_module_def by (intro cat_intros cat_migrations cat_host_call cat_register_all)

lemma moves_prepare_modules:
  assumes "reflp R" "transp R" "\<And>i reg. moves R (prepare_module w g i reg)"
  shows "moves R (prepare_modules w g ds reg started new)"
proof (induction ds arbitrary: reg started new)
  case (Cons x ds)
  obtain i d where x: "x = (i, d)" by fastforce
  show ?case
    unfolding moves_def
  proof
    fix h
    obtain r h1 where p: "prepare_module w g i reg h = (r, h1)" by fastforce
    with assms(3) have "R h h1" by (rule movesD)
    moreover have "R h1 (snd (prepare_modules w g ds reg' started' new' h1))" for reg' started' new'
      using Cons by (simp add: moves_def)
    ultimately show "R h (snd (prepare_modules w g (x # ds) reg started new h))"
      using assms(2) p by (auto simp: x split: sum.split prod.split intro: transpD)
  qed
qed (simp add: moves_basic [OF assms(1)])

lemma moves_close_each:
  assumes "reflp R" "transp R" "\<And>x. moves R (f x)"
  shows "moves R (close_each f xs)"
proof (induction xs)
  case (Cons x xs)
  have more: "moves R (bind_op (close_each f xs) (\<lambda>es. ret_op (e # es)))" for e
    by (intro moves_bind assms Cons moves_basic [OF assms(1)])
  show ?case
    unfolding moves_def
  proof
    fix h
    obtain r h1 where p: "f x h = (r, h1)" by fastforce
    with assms(3) have "R h h1" by (rule movesD)
    with more Cons p assms(2) show "R h (snd (close_each f (x # xs) h))"
      unfolding moves_def by (auto split: sum.split intro: transpD)
  qed
qed (simp add: moves_basic [OF assms(1)])

lemma cat_close_instances: "careful token w \<Longrightarrow> moves (cat_ok token) (close_instances w started)"
  unfolding close_instances_def by (intro moves_close_each cat_ok_reflp cat_ok_transp moves_prod cat_host_call)

section \<open>Nothing of a generation\<close>

definition generation_gone :: "int \<Rightarrow> catalog \<Rightarrow> bool" where
  "generation_gone g c \<longleftrightarrow> (\<forall>p \<in> set (ct_sources c). snd (fst p) \<noteq> Some g)"

lemma revoke_generation_gone:
  assumes "wf_catalog token c" shows "generation_gone g (revoke_generation g c)"
proof -
  have "ct_sources (revoke_generation g c) = filter (\<lambda>p. snd p \<notin> set (sources_where (\<lambda>_ g' _. g' = Some g) c)) (ct_sources c)"
    using wf_revoke_loop [OF assms] by (simp add: revoke_generation_def Let_def)
  moreover have "snd p \<in> set (sources_where (\<lambda>_ g' _. g' = Some g) c)" if "p \<in> set (ct_sources c)" "snd (fst p) = Some g" for p
    using source_entry_live [OF assms that(1)] that(2) unfolding sources_where_mem [OF assms] by (auto simp: reg_key_def prod_eq_iff)
  ultimately show ?thesis by (auto simp: generation_gone_def)
qed

text \<open>The tasks that run meanwhile register nothing under the generation of the candidate.\<close>

definition leaves_generation :: "int \<Rightarrow> 'v module_host \<Rightarrow> bool" where
  "leaves_generation g w \<longleftrightarrow> (\<forall>t c. generation_gone g c \<longrightarrow> generation_gone g (mh_meanwhile w t c))"

definition stays_gone :: "int \<Rightarrow> host \<Rightarrow> host \<Rightarrow> bool" where
  "stays_gone g h h' \<longleftrightarrow> (generation_gone g (ho_catalog h) \<longrightarrow> generation_gone g (ho_catalog h'))"

lemma gone_close_instances: "leaves_generation g w \<Longrightarrow> moves (stays_gone g) (close_instances w started)"
  unfolding close_instances_def
  by (rule moves_close_each) (auto simp: reflp_def transp_def stays_gone_def moves_def host_call_def leaves_generation_def)

section \<open>The counts of the components\<close>

definition component_action :: "host_action \<Rightarrow> bool" where
  "component_action a = (case a of LComponentStart _ _ \<Rightarrow> True | LComponentClose _ \<Rightarrow> True | _ \<Rightarrow> False)"

definition components_of :: "host \<Rightarrow> (nat \<times> nat) list \<times> host_action list" where
  "components_of h = (ho_references h, filter component_action (ho_log h))"

lemma components_host_call: "(\<And>r. \<not> component_action (a r)) \<Longrightarrow> moves (keeps components_of) (host_call w f a)"
  by (simp add: moves_def keeps_def components_of_def host_call_def)

lemma components_register: "moves (keeps components_of) (register_module_capability g d)"
  by (simp add: moves_def keeps_def components_of_def register_module_capability_def Let_def split: sum.split)

lemma components_prepare_module: "moves (keeps components_of) (prepare_module w g i reg)"
proof -
  have "moves (keeps components_of) (apply_migrations w i rs)" for rs
  proof (induction rs)
    case (Cons r rs)
    show ?case unfolding apply_migrations.simps
      by (intro keeps_intros components_host_call Cons) (simp_all add: component_action_def)
  qed (simp add: keeps_basic)
  moreover have "moves (keeps components_of) (register_capabilities g ds)" for ds
    by (induction ds) (auto intro: keeps_intros components_register)
  ultimately show ?thesis
    unfolding prepare_module_def by (intro keeps_intros components_host_call) (simp_all add: component_action_def)
qed

lemma components_prepare: "moves (keeps components_of) (prepare_modules w g ds reg started new)"
  by (rule moves_prepare_modules [OF keeps_reflp keeps_transp components_prepare_module])

lemma components_close_instances: "moves (keeps components_of) (close_instances w started)"
  unfolding close_instances_def
  by (intro moves_close_each keeps_reflp keeps_transp moves_prod components_host_call) (simp add: component_action_def)

lemma uses_cong: "components_of h' = components_of h \<Longrightarrow> uses h' = uses h"
  by (simp add: components_of_def uses_def fun_eq_iff)

lemma uses_set [simp]: "uses (set_uses c n h) c' = (if c' = c then n else uses h c')"
  by (simp add: uses_def set_uses_def pd.lookup_put)

text \<open>How often a component was started and not yet closed.\<close>

definition balance :: "host \<Rightarrow> nat \<Rightarrow> int" where
  "balance h c = int (count_list (ho_log h) (LComponentStart c True)) - int (count_list (ho_log h) (LComponentClose c))"

definition managed :: "'v module_host \<Rightarrow> nat \<Rightarrow> bool" where
  "managed w c \<longleftrightarrow> mh_component_start w c \<noteq> None \<and> mh_component_close w c \<noteq> None"

text \<open>A managed component runs exactly while it is counted.\<close>

definition balanced :: "'v module_host \<Rightarrow> host \<Rightarrow> bool" where
  "balanced w h \<longleftrightarrow> (\<forall>c. managed w c \<longrightarrow> balance h c = (if uses h c = 0 then 0 else 1))"

lemma balance_cong: "components_of h' = components_of h \<Longrightarrow> balance h' = balance h"
proof
  fix c assume *: "components_of h' = components_of h"
  have part: "count_list (filter component_action xs) a = count_list xs a" if "component_action a" for xs a
    using that by (induction xs) auto
  have "count_list (ho_log k) a = count_list (snd (components_of k)) a" if "component_action a" for k a
    using part [OF that] by (simp add: components_of_def)
  then have "balance k c = int (count_list (snd (components_of k)) (LComponentStart c True)) - int (count_list (snd (components_of k)) (LComponentClose c))" for k
    by (simp add: balance_def component_action_def)
  with * show "balance h' c = balance h c" by simp
qed

lemma balanced_cong: "components_of h' = components_of h \<Longrightarrow> balanced w h' \<longleftrightarrow> balanced w h"
  using uses_cong [of h' h] balance_cong [of h' h] by (simp add: balanced_def)

lemma release_component_uses:
  "uses (snd (release_component w c h)) c' = (if c' = c then uses h c - 1 else uses h c')"
proof -
  have drop: "uses (h\<lparr>ho_references := AList.delete c (ho_references h)\<rparr>) c' = (if c' = c then 0 else uses h c')"
    by (simp add: uses_def pd.lookup_drop)
  have call: "uses (snd (host_call w f a h')) c' = uses h' c'" for f :: "nat \<Rightarrow> unit res" and a h'
    by (simp add: host_call_def uses_def)
  show ?thesis by (cases "1 < uses h c"; cases "mh_component_close w c") (simp_all add: release_component_def Let_def drop call)
qed

lemma release_component_balanced:
  assumes "balanced w h" "uses h c \<noteq> 0" shows "balanced w (snd (release_component w c h))"
  unfolding balanced_def
proof (intro allI impI)
  fix c' assume m: "managed w c'"
  have "balance (snd (release_component w c h)) c' = balance h c' - (if c' = c \<and> uses h c = 1 then 1 else 0)"
    using assms(2) m by (auto simp: release_component_def Let_def host_call_def balance_def set_uses_def managed_def split: option.split)
  with assms m show "balance (snd (release_component w c h)) c' = (if uses (snd (release_component w c h)) c' = 0 then 0 else 1)"
    unfolding release_component_uses balanced_def by auto
qed

lemma acquire_component_uses:
  "uses (snd (acquire_component w c h)) c' = (if c' = c \<and> \<not> isl (fst (acquire_component w c h)) then Suc (uses h c) else uses h c')"
  by (auto simp: acquire_component_def host_call_def bind_op_def set_uses_def uses_def pd.lookup_put split: option.split sum.split)

lemma acquire_component_balanced:
  assumes "balanced w h" shows "balanced w (snd (acquire_component w c h))"
  unfolding balanced_def
proof (intro allI impI)
  fix c' assume m: "managed w c'"
  have "balance (snd (acquire_component w c h)) c' = balance h c' + (if c' = c \<and> uses h c = 0 \<and> \<not> isl (fst (acquire_component w c h)) then 1 else 0)"
    using m by (auto simp: acquire_component_def host_call_def bind_op_def balance_def set_uses_def managed_def split: option.split sum.split)
  with assms m show "balance (snd (acquire_component w c h)) c' = (if uses (snd (acquire_component w c h)) c' = 0 then 0 else 1)"
    unfolding acquire_component_uses balanced_def by auto
qed

text \<open>The loops over components.\<close>

lemma start_components_result:
  "\<exists>pre e. start_components w cs started h = (Ret (started @ pre, e), snd (start_components w cs started h))
    \<and> (e = None \<longrightarrow> pre = cs) \<and> (\<forall>c. uses (snd (start_components w cs started h)) c = uses h c + count_list pre c)
    \<and> (balanced w h \<longrightarrow> balanced w (snd (start_components w cs started h)))"
proof (induction cs arbitrary: started h)
  case Nil
  show ?case by (intro exI [of _ "[]"] exI [of _ None]) simp
next
  case (Cons c cs)
  obtain r h1 where a: "acquire_component w c h = (r, h1)" by fastforce
  have u: "uses h1 c' = (if c' = c \<and> \<not> isl r then Suc (uses h c) else uses h c')" for c'
    using acquire_component_uses [of w c h c'] by (simp add: a)
  have b: "balanced w h \<Longrightarrow> balanced w h1" using acquire_component_balanced [of w h c] by (simp add: a)
  show ?case
  proof (cases r)
    case (Inl e)
    with u b show ?thesis by (intro exI [of _ "[]"] exI [of _ "Some e"]) (simp add: a)
  next
    case (Inr x)
    from Cons [of "started @ [c]" h1] obtain pre e where
      "start_components w cs (started @ [c]) h1 = (Ret ((started @ [c]) @ pre, e), snd (start_components w cs (started @ [c]) h1))"
      "e = None \<longrightarrow> pre = cs" "\<forall>c'. uses (snd (start_components w cs (started @ [c]) h1)) c' = uses h1 c' + count_list pre c'"
      "balanced w h1 \<longrightarrow> balanced w (snd (start_components w cs (started @ [c]) h1))" by blast
    with u b Inr show ?thesis by (intro exI [of _ "c # pre"] exI [of _ e]) (simp add: a)
  qed
qed

text \<open>The close methods of the components do not raise.\<close>

definition closes_cleanly :: "'v module_host \<Rightarrow> bool" where
  "closes_cleanly w \<longleftrightarrow> (\<forall>c f t. mh_component_close w c = Some f \<longrightarrow> f t = Ret ())"

lemma release_component_Ret: "closes_cleanly w \<Longrightarrow> fst (release_component w c h) = Ret ()"
  by (auto simp: release_component_def Let_def host_call_def closes_cleanly_def split: option.split)

lemma release_components_result:
  assumes "\<And>c. count_list cs c \<le> uses h c"
  shows "(\<forall>c. uses h c - count_list cs c \<le> uses (snd (release_components w cs h)) c)
    \<and> (closes_cleanly w \<longrightarrow> fst (release_components w cs h) = Ret ()
        \<and> (\<forall>c. uses (snd (release_components w cs h)) c = uses h c - count_list cs c))
    \<and> (balanced w h \<longrightarrow> balanced w (snd (release_components w cs h)))"
  using assms
proof (induction cs arbitrary: h)
  case (Cons c cs)
  obtain r h1 where r: "release_component w c h = (r, h1)" by fastforce
  have u: "uses h1 c' = (if c' = c then uses h c - 1 else uses h c')" for c'
    using release_component_uses [of w c h c'] by (simp add: r)
  have "uses h c \<noteq> 0" using Cons.prems [of c] by simp
  with release_component_balanced [of w h c] have b: "balanced w h \<Longrightarrow> balanced w h1" by (simp add: r)
  have clean: "closes_cleanly w \<Longrightarrow> r = Ret ()" using release_component_Ret [of w c h] by (simp add: r)
  have le: "count_list cs c' \<le> uses h1 c'" for c' using Cons.prems [of c'] u [of c'] by (auto split: if_splits)
  show ?case
  proof (cases r)
    case (Inl e)
    with u b clean r show ?thesis by (auto simp: bind_op_def)
  next
    case (Inr x)
    have "uses h c' - count_list (c # cs) c' = uses h1 c' - count_list cs c'" for c' by (simp add: u)
    moreover have "release_components w (c # cs) h = release_components w cs h1" using r Inr by (simp add: bind_op_def)
    ultimately show ?thesis using Cons.IH [OF le] b by simp
  qed
qed simp

lemma close_each_release_result:
  assumes "\<And>c. count_list cs c \<le> uses h c"
  shows "(\<exists>es. fst (close_each (release_component w) cs h) = Ret es)
    \<and> (\<forall>c. uses (snd (close_each (release_component w) cs h)) c = uses h c - count_list cs c)
    \<and> (balanced w h \<longrightarrow> balanced w (snd (close_each (release_component w) cs h)))"
  using assms
proof (induction cs arbitrary: h)
  case (Cons c cs)
  obtain r h1 where r: "release_component w c h = (r, h1)" by fastforce
  have u: "uses h1 c' = (if c' = c then uses h c - 1 else uses h c')" for c'
    using release_component_uses [of w c h c'] by (simp add: r)
  have "uses h c \<noteq> 0" using Cons.prems [of c] by simp
  with release_component_balanced [of w h c] have b: "balanced w h \<Longrightarrow> balanced w h1" by (simp add: r)
  have "count_list cs c' \<le> uses h1 c'" for c' using Cons.prems [of c'] u [of c'] by (auto split: if_splits)
  from Cons.IH [OF this] obtain es h2 where c: "close_each (release_component w) cs h1 = (Ret es, h2)"
    and u2: "\<And>c'. uses h2 c' = uses h1 c' - count_list cs c'" and b2: "balanced w h1 \<Longrightarrow> balanced w h2"
    by (cases "close_each (release_component w) cs h1") auto
  have "\<exists>es'. close_each (release_component w) (c # cs) h = (Ret es', h2)"
    by (cases r) (simp_all add: r c)
  then obtain es' where "close_each (release_component w) (c # cs) h = (Ret es', h2)" ..
  with u u2 b b2 show ?case by auto
qed simp

lemma start_graph_components_result:
  assumes "start_graph_components w g h = (r, h')" "\<not> ag_components_started g"
  shows "(\<forall>c. uses h c + (if isl r then 0 else count_list (graph_components g) c) \<le> uses h' c)
    \<and> (closes_cleanly w \<or> \<not> isl r \<longrightarrow> (\<forall>c. uses h' c = uses h c + (if isl r then 0 else count_list (graph_components g) c)))
    \<and> (balanced w h \<longrightarrow> balanced w h') \<and> (\<forall>g'. r = Ret g' \<longrightarrow> g' = g\<lparr>ag_components_started := True\<rparr>)"
proof -
  obtain pre e h1 where s: "start_components w (graph_components g) [] h = (Ret (pre, e), h1)" "e = None \<longrightarrow> pre = graph_components g"
    and u: "\<And>c. uses h1 c = uses h c + count_list pre c" and b: "balanced w h \<longrightarrow> balanced w h1"
    using start_components_result [of w "graph_components g" "[]" h] by (metis append_Nil prod.collapse)
  show ?thesis
  proof (cases e)
    case None
    with assms s have "r = Ret (g\<lparr>ag_components_started := True\<rparr>)" "h' = h1"
      by (simp_all add: start_graph_components_def bind_op_def)
    with u b None s(2) show ?thesis by simp
  next
    case (Some x)
    have "count_list (rev pre) c \<le> uses h1 c" for c by (simp add: u)
    note undo = release_components_result [OF this, of w]
    have "isl r" "h' = snd (release_components w (rev pre) h1)"
      using assms s Some by (auto simp: start_graph_components_def bind_op_def split: prod.splits sum.splits)
    with undo u b show ?thesis by (auto simp: isl_def)
  qed
qed

lemma graph_components_started [simp]: "graph_components (g\<lparr>ag_components_started := b\<rparr>) = graph_components g"
  by (simp add: graph_components_def)

lemma abandon_graph_components: "moves (keeps components_of) (abandon_graph w g started e)"
  unfolding abandon_graph_def
  by (intro keeps_intros components_close_instances keeps_modify) (simp add: components_of_def)

lemma abandon_graph_raises: "abandon_graph w g started e h = (r, h') \<Longrightarrow> \<exists>x. r = Raise x"
  by (auto simp: abandon_graph_def bind_op_def split: prod.splits sum.splits)

lemma prepare_modules_Ret:
  "\<exists>reg' n new' e. prepare_modules w g ds reg started new h =
      (Ret (reg', started @ n, new', e), snd (prepare_modules w g ds reg started new h))
    \<and> map (\<lambda>(i, d, _). (i, d)) n = take (length n) ds \<and> (e = None \<longleftrightarrow> length n = length ds)"
proof (induction ds arbitrary: reg started new h)
  case Nil
  show ?case by (intro exI [of _ reg] exI [of _ "[]"] exI [of _ new] exI [of _ None]) simp
next
  case (Cons x ds)
  obtain i d where x: "x = (i, d)" by fastforce
  obtain r h1 where p: "prepare_module w g i reg h = (r, h1)" by fastforce
  show ?case
  proof (cases r)
    case (Inl e)
    then show ?thesis by (intro exI [of _ reg] exI [of _ "[]"] exI [of _ new] exI [of _ "Some e"]) (simp add: x p)
  next
    case (Inr v)
    obtain co reg1 n1 where v: "v = (co, reg1, n1)" by (cases v) auto
    from Cons [of reg1 "started @ [(i, d, co)]" "new @ n1" h1] obtain reg' n new' e where
      "prepare_modules w g ds reg1 (started @ [(i, d, co)]) (new @ n1) h1 =
        (Ret (reg', (started @ [(i, d, co)]) @ n, new', e), snd (prepare_modules w g ds reg1 (started @ [(i, d, co)]) (new @ n1) h1))"
      "map (\<lambda>(i, d, _). (i, d)) n = take (length n) ds" "e = None \<longleftrightarrow> length n = length ds" by blast
    with Inr v show ?thesis by (intro exI [of _ reg'] exI [of _ "(i, d, co) # n"] exI [of _ new'] exI [of _ e]) (simp add: x p)
  qed
qed

text \<open>One preparation, seen by the components.\<close>

lemma prepare_graph_components:
  assumes "prepare_graph w cat profile services start h = (r, h')"
  shows "(\<forall>c. uses h c + (case r of Inl _ \<Rightarrow> 0 | Inr g \<Rightarrow> if start then count_list (graph_components g) c else 0) \<le> uses h' c)
    \<and> (closes_cleanly w \<longrightarrow> (\<forall>c. uses h' c = uses h c + (case r of Inl _ \<Rightarrow> 0 | Inr g \<Rightarrow> if start then count_list (graph_components g) c else 0)))
    \<and> (balanced w h \<longrightarrow> balanced w h') \<and> (\<forall>g. r = Ret g \<longrightarrow> ag_components_started g = start)"
proof (cases "resolve cat profile services")
  case (Inl e)
  with assms show ?thesis by (auto simp: prepare_graph_def)
next
  case (Inr order)
  let ?g = "rp_generation profile"
  obtain reg n new e h1 where m: "prepare_modules w ?g order (registry_clone services) [] [] h = (Ret (reg, n, new, e), h1)"
    using prepare_modules_Ret [of w ?g order "registry_clone services" "[]" "[]" h] by fastforce
  have k1: "components_of h1 = components_of h" by (rule keepsD [OF components_prepare m])
  show ?thesis
  proof (cases e)
    case (Some x)
    have a: "abandon_graph w ?g n x h1 = (r, h')" using assms Inr m Some by (simp add: prepare_graph_def bind_op_def)
    have "components_of h' = components_of h" using keepsD [OF abandon_graph_components a] k1 by simp
    moreover obtain y where "r = Raise y" using abandon_graph_raises [OF a] by blast
    ultimately show ?thesis using uses_cong [of h' h] balanced_cong [of h' h w] by simp
  next
    case None
    let ?new = "new_graph profile reg n"
    obtain q h2 where s: "(if start then start_graph_components w else ret_op) ?new h1 = (q, h2)" by fastforce
    have fresh: "\<not> ag_components_started ?new" by (simp add: new_graph_def)
    have st: "(\<forall>c. uses h1 c + (if isl q then 0 else if start then count_list (graph_components ?new) c else 0) \<le> uses h2 c)
      \<and> (closes_cleanly w \<longrightarrow> (\<forall>c. uses h2 c = uses h1 c + (if isl q then 0 else if start then count_list (graph_components ?new) c else 0)))
      \<and> (balanced w h1 \<longrightarrow> balanced w h2) \<and> (\<forall>g'. q = Ret g' \<longrightarrow> g' = ?new\<lparr>ag_components_started := start\<rparr>)"
      using start_graph_components_result [OF _ fresh, of w h1 q h2] s fresh by (cases start) auto
    show ?thesis
    proof (cases q)
      case (Inl x)
      have a: "abandon_graph w ?g n x h2 = (r, h')" using assms Inr m None s Inl by (simp add: prepare_graph_def bind_op_def)
      have "components_of h' = components_of h2" by (rule keepsD [OF abandon_graph_components a])
      moreover obtain y where "r = Raise y" using abandon_graph_raises [OF a] by blast
      ultimately show ?thesis
        using uses_cong [of h' h2] balanced_cong [of h' h2 w] uses_cong [OF k1] balanced_cong [OF k1, of w] st Inl by simp
    next
      case (Inr g)
      have r: "r = Ret g" "components_of h' = components_of h2"
        using assms \<open>resolve cat profile services = Ret order\<close> m None s Inr by (auto simp: prepare_graph_def bind_op_def components_of_def)
      show ?thesis
        using uses_cong [OF r(2)] balanced_cong [OF r(2), of w] uses_cong [OF k1] balanced_cong [OF k1, of w] st Inr r(1) by auto
    qed
  qed
qed

lemma close_graph_components:
  assumes "close_graph w g h = (r, h')" "ag_components_started g" "\<And>c. count_list (graph_components g) c \<le> uses h c"
  shows "uses h' c = uses h c - count_list (graph_components g) c \<and> (balanced w h \<longrightarrow> balanced w h')"
proof -
  have "count_list (rev (graph_components g)) c \<le> uses h c" for c using assms(3) by simp
  note rel = close_each_release_result [OF this, of w]
  obtain es h1 where c: "close_each (release_component w) (rev (graph_components g)) h = (Ret es, h1)"
    using rel by (metis prod.collapse)
  let ?rest = "bind_op (close_instances w (ag_instances g)) (\<lambda>es'.
     bind_op (modify_op (\<lambda>h. h\<lparr>ho_catalog := revoke_generation (rp_generation (ag_profile g)) (ho_catalog h)\<rparr>)) (\<lambda>_. ret_op (es @ es')))"
  have "?rest h1 = (r, h')" using assms(1,2) c by (simp add: close_graph_def)
  moreover have "moves (keeps components_of) ?rest"
    by (intro keeps_intros components_close_instances keeps_modify) (simp add: components_of_def)
  ultimately have k: "components_of h' = components_of h1" by (rule keepsD [rotated])
  show ?thesis using rel uses_cong [OF k] balanced_cong [OF k, of w] by (simp add: c)
qed

section \<open>The graphs a runtime opens and closes\<close>

definition host_start :: "catalog \<Rightarrow> host" where
  "host_start c = \<lparr>ho_time = 0, ho_catalog = c, ho_references = [], ho_applied = [], ho_log = []\<rparr>"

text \<open>
  The open graphs: \<^verbatim>\<open>start\<close> prepares the first one and starts its components later,
  \<^verbatim>\<open>reconfigure\<close> prepares a candidate at once, both close graphs.
\<close>

inductive graphs_reach :: "'v module_host \<Rightarrow> module_catalog \<Rightarrow> catalog \<Rightarrow> host \<Rightarrow> 'v active_graph list \<Rightarrow> bool" for w cat c where
  nothing: "graphs_reach w cat c (host_start c) []"
| bare: "graphs_reach w cat c h gs \<Longrightarrow> prepare_graph w cat profile services False h = (r, h') \<Longrightarrow> graphs_reach w cat c h' gs"
| started: "graphs_reach w cat c h gs \<Longrightarrow> \<not> ag_components_started g \<Longrightarrow> start_graph_components w g h = (r, h') \<Longrightarrow>
    graphs_reach w cat c h' (case r of Inl _ \<Rightarrow> gs | Inr g' \<Rightarrow> g' # gs)"
| prepared: "graphs_reach w cat c h gs \<Longrightarrow> prepare_graph w cat profile services True h = (r, h') \<Longrightarrow>
    graphs_reach w cat c h' (case r of Inl _ \<Rightarrow> gs | Inr g \<Rightarrow> g # gs)"
| closed: "graphs_reach w cat c h gs \<Longrightarrow> g \<in> set gs \<Longrightarrow> close_graph w g h = (r, h') \<Longrightarrow> graphs_reach w cat c h' (remove1 g gs)"

definition total_uses :: "'v active_graph list \<Rightarrow> nat \<Rightarrow> nat" where
  "total_uses gs c = sum_list (map (\<lambda>g. count_list (graph_components g) c) gs)"

lemma total_uses_remove: "g \<in> set gs \<Longrightarrow> total_uses gs c = count_list (graph_components g) c + total_uses (remove1 g gs) c"
  unfolding total_uses_def by (rule sum_list_map_remove1)

lemma graphs_reach_counts:
  assumes "graphs_reach w cat c0 h gs"
  shows "(\<forall>c. total_uses gs c \<le> uses h c) \<and> (closes_cleanly w \<longrightarrow> (\<forall>c. uses h c = total_uses gs c))
    \<and> balanced w h \<and> (\<forall>g \<in> set gs. ag_components_started g)"
  using assms
proof (induction rule: graphs_reach.induct)
  case nothing
  show ?case by (simp add: host_start_def uses_def total_uses_def balanced_def balance_def)
next
  case (bare h gs profile services r h')
  from prepare_graph_components [OF bare(2)] have "\<forall>c. uses h c \<le> uses h' c" "closes_cleanly w \<longrightarrow> (\<forall>c. uses h' c = uses h c)"
    "balanced w h \<longrightarrow> balanced w h'" by (cases r; simp)+
  with bare(3) show ?case by (auto intro: order_trans)
next
  case (started h gs g r h')
  from start_graph_components_result [OF started(3,2)] started(4) show ?case
    by (cases r) (auto simp: total_uses_def intro: order_trans)
next
  case (prepared h gs profile services r h')
  from prepare_graph_components [OF prepared(2)] prepared(3) show ?case
  proof (cases r)
    case (Inr g)
    with prepare_graph_components [OF prepared(2)] have u: "count_list (graph_components g) c + uses h c \<le> uses h' c"
      "closes_cleanly w \<Longrightarrow> uses h' c = count_list (graph_components g) c + uses h c"
      "balanced w h \<Longrightarrow> balanced w h'" "ag_components_started g" for c by (auto simp: add.commute)
    have "count_list (graph_components g) c + total_uses gs c \<le> uses h' c" for c
      using u(1) [of c] prepared(3) by (meson add_left_mono order_trans)
    with u prepared(3) Inr show ?thesis by (simp add: total_uses_def)
  qed (auto intro: order_trans)
next
  case (closed h gs g r h')
  have le: "count_list (graph_components g) c \<le> uses h c" for c
    using closed(4) total_uses_remove [OF closed(2), of c] by (metis add_leD1)
  note res = close_graph_components [OF closed(3) _ le]
  have started: "ag_components_started g" using closed(2,4) by simp
  show ?case
  proof (intro conjI allI ballI impI)
    fix c
    have "total_uses gs c \<le> uses h c" using closed(4) by simp
    with res [OF started, of c] total_uses_remove [OF closed(2), of c] show "total_uses (remove1 g gs) c \<le> uses h' c" by simp
  next
    fix c assume "closes_cleanly w"
    with closed(4) have "uses h c = total_uses gs c" by simp
    with res [OF started, of c] total_uses_remove [OF closed(2), of c] show "uses h' c = total_uses (remove1 g gs) c" by simp
  next
    show "balanced w h'" using res [OF started] closed(4) by simp
  next
    fix g' assume "g' \<in> set (remove1 g gs)"
    then show "ag_components_started g'" using closed(4) set_remove1_subset [of g gs] by auto
  qed
qed

text \<open>
  C23: A shared component is counted at least as often as the open graphs contain it, and exactly as
  often when no close method of a component raises.  A component with a start and a close method is
  started when its count leaves zero and its close method is called when it comes back to zero,
  whatever preparations failed in between: it runs, started once more than it was closed, while some
  open graph contains it, and, when no close method raises, at no other time.
\<close>

theorem components_counted:
  assumes "graphs_reach w cat c0 h gs"
  shows "sum_list (map (\<lambda>g. count_list (graph_components g) c) gs) \<le> uses h c
    \<and> (managed w c \<longrightarrow> balance h c = (if uses h c = 0 then 0 else 1))
    \<and> (managed w c \<longrightarrow> (\<exists>g \<in> set gs. c \<in> set (graph_components g)) \<longrightarrow> balance h c = 1)
    \<and> (closes_cleanly w \<longrightarrow> uses h c = sum_list (map (\<lambda>g. count_list (graph_components g) c) gs)
        \<and> (managed w c \<longrightarrow> balance h c = (if \<exists>g \<in> set gs. c \<in> set (graph_components g) then 1 else 0)))"
proof -
  have u: "total_uses gs c \<le> uses h c" "closes_cleanly w \<longrightarrow> uses h c = total_uses gs c" and b: "balanced w h"
    using graphs_reach_counts [OF assms] by auto
  have z: "total_uses gs c = 0 \<longleftrightarrow> \<not> (\<exists>g \<in> set gs. c \<in> set (graph_components g))"
    by (auto simp: total_uses_def sum_list_eq_0_iff count_list_0_iff)
  have "(\<exists>g \<in> set gs. c \<in> set (graph_components g)) \<longrightarrow> uses h c \<noteq> 0" using u(1) z by fastforce
  moreover have "managed w c \<longrightarrow> balance h c = (if uses h c = 0 then 0 else 1)" using b by (simp add: balanced_def)
  ultimately show ?thesis using u z unfolding total_uses_def [symmetric] by auto
qed

section \<open>A failed preparation\<close>

definition closes :: "host \<Rightarrow> string list" where
  "closes h = List.map_filter (\<lambda>a. case a of LClose i \<Rightarrow> Some i | _ \<Rightarrow> None) (ho_log h)"

lemma closes_host_call: "(\<And>r i. a r \<noteq> LClose i) \<Longrightarrow> moves (keeps closes) (host_call w f a)"
  by (auto simp: moves_def keeps_def closes_def host_call_def map_filter_def split: host_action.split)

lemma closes_prepare_module: "moves (keeps closes) (prepare_module w g i reg)"
proof -
  have "moves (keeps closes) (apply_migrations w i rs)" for rs
  proof (induction rs)
    case (Cons r rs)
    show ?case unfolding apply_migrations.simps by (intro keeps_intros closes_host_call Cons) simp
  qed (simp add: keeps_basic)
  moreover have reg: "moves (keeps closes) (register_module_capability g d)" for d
    by (simp add: moves_def keeps_def closes_def register_module_capability_def Let_def split: sum.split)
  have "moves (keeps closes) (register_capabilities g ds)" for ds
    by (induction ds) (auto intro: keeps_intros reg)
  ultimately show ?thesis
    unfolding prepare_module_def by (intro keeps_intros closes_host_call) simp_all
qed

lemma applied_host_call: "moves (keeps ho_applied) (host_call w f a)"
  by (simp add: moves_def keeps_def host_call_def)

lemma applied_prepare_module: "moves (keeps ho_applied) (prepare_module w g i reg)"
proof -
  have "moves (keeps ho_applied) (apply_migrations w i rs)" for rs
  proof (induction rs)
    case (Cons r rs)
    show ?case unfolding apply_migrations.simps by (intro keeps_intros applied_host_call Cons)
  qed (simp add: keeps_basic)
  moreover have reg: "moves (keeps ho_applied) (register_module_capability g d)" for d
    by (simp add: moves_def keeps_def register_module_capability_def Let_def split: sum.split)
  have "moves (keeps ho_applied) (register_capabilities g ds)" for ds
    by (induction ds) (auto intro: keeps_intros reg)
  ultimately show ?thesis
    unfolding prepare_module_def by (intro keeps_intros applied_host_call)
qed

text \<open>Starting components does nothing but call the components and count them.\<close>

lemma moves_components:
  assumes R: "reflp R" "transp R" and refs: "\<And>(h :: host) x. R h (h\<lparr>ho_references := x\<rparr>)"
    and call: "\<And>f (a :: unit res \<Rightarrow> host_action). (\<And>r. component_action (a r)) \<Longrightarrow> moves R (host_call w f a)"
  shows "moves R (start_graph_components w g)"
proof -
  have set: "moves R (modify_op (set_uses c n))" for c n by (rule moves_modify) (simp add: set_uses_def refs)
  have acq: "moves R (acquire_component w c)" for c
    unfolding moves_def
  proof
    fix h
    have "moves R (bind_op (case mh_component_start w c of None \<Rightarrow> ret_op ()
        | Some start \<Rightarrow> host_call w start (\<lambda>r. LComponentStart c (\<not> isl r))) (\<lambda>_. modify_op (set_uses c 1)))"
      by (intro moves_bind R set moves_option moves_basic [OF R(1)] call) (simp add: component_action_def)
    then show "R h (snd (acquire_component w c h))"
      using refs by (simp add: acquire_component_def moves_def set_uses_def)
  qed
  have rel: "moves R (release_component w c)" for c
    unfolding moves_def
  proof
    fix h
    have "R k (snd (host_call w f (\<lambda>_. LComponentClose c) k))" for f :: "nat \<Rightarrow> unit res" and k
      using call [of "\<lambda>_. LComponentClose c" f] by (simp add: moves_def component_action_def)
    then have "R h (snd (host_call w f (\<lambda>_. LComponentClose c) (h\<lparr>ho_references := x\<rparr>)))" for f :: "nat \<Rightarrow> unit res" and x
      by (rule transpD [OF R(2) refs])
    with refs show "R h (snd (release_component w c h))"
      by (simp add: release_component_def Let_def set_uses_def split: option.split)
  qed
  have starts: "moves R (start_components w cs st)" for cs st
  proof (induction cs arbitrary: st)
    case (Cons c cs)
    show ?case
      unfolding moves_def
    proof
      fix h
      obtain r h1 where a: "acquire_component w c h = (r, h1)" by fastforce
      with acq have "R h h1" by (rule movesD)
      with Cons a show "R h (snd (start_components w (c # cs) st h))"
        unfolding moves_def by (auto split: sum.split intro: transpD [OF R(2)])
    qed
  qed (simp add: moves_basic [OF R(1)])
  have rels: "moves R (release_components w cs)" for cs
    by (induction cs) (auto intro: moves_bind moves_basic [OF R(1)] R rel)
  show ?thesis
    unfolding start_graph_components_def
    by (intro moves_if moves_bind moves_prod moves_option R starts rels moves_basic [OF R(1)])
qed

text \<open>The modules whose start method was called.\<close>

definition starts :: "host \<Rightarrow> string list" where
  "starts h = List.map_filter (\<lambda>a. case a of LStart i \<Rightarrow> Some i | _ \<Rightarrow> None) (ho_log h)"

lemma starts_host_call: "(\<And>r i. a r \<noteq> LStart i) \<Longrightarrow> moves (keeps starts) (host_call w f a)"
  by (auto simp: moves_def keeps_def starts_def host_call_def map_filter_def split: host_action.split)

lemma component_calls:
  assumes "\<And>r :: 'x res. component_action (a r)"
  shows "moves (keeps starts) (host_call w f a)" "moves (keeps closes) (host_call w f a)"
proof -
  have "a r \<noteq> LStart i" "a r \<noteq> LClose i" for r i using assms [of r] by (auto simp: component_action_def)
  then show "moves (keeps starts) (host_call w f a)" "moves (keeps closes) (host_call w f a)"
    by (auto intro: starts_host_call closes_host_call)
qed

lemma starts_prepare_module:
  assumes "prepare_module w g i reg h = (r, h')"
  shows "(starts h' = starts h \<and> isl r) \<or> starts h' = starts h @ [i]"
proof -
  have mig: "moves (keeps starts) (apply_migrations w i rs)" for rs
  proof (induction rs)
    case (Cons r rs)
    show ?case unfolding apply_migrations.simps by (intro keeps_intros starts_host_call Cons) simp
  qed (simp add: keeps_basic)
  have reg: "moves (keeps starts) (register_module_capability g d)" for d
    by (simp add: moves_def keeps_def starts_def register_module_capability_def Let_def split: sum.split)
  have caps: "moves (keeps starts) (register_capabilities g ds)" for ds
    by (induction ds) (auto intro: keeps_intros reg)
  obtain r1 h1 where m: "apply_migrations w i (mh_migrations w i) h = (r1, h1)" by fastforce
  note k1 = keepsD [OF mig m]
  obtain r2 h2 where p: "host_call w (\<lambda>t. mh_prepare w t i) (\<lambda>_. LPrepare i) h1 = (r2, h2)" by fastforce
  have k2: "starts h2 = starts h1" by (rule keepsD [OF starts_host_call p]) simp
  obtain r3 h3 where c: "host_call w (\<lambda>t. mh_start w t i) (\<lambda>_. LStart i) h2 = (r3, h3)" by fastforce
  have k3: "starts h3 = starts h2 @ [i]" using c by (auto simp: host_call_def starts_def map_filter_def)
  let ?rest = "\<lambda>co new. bind_op (lift_op (bind_services i (co_services co) reg)) (\<lambda>bound.
     bind_op (register_capabilities g (co_capabilities co)) (\<lambda>_.
     ret_op (co, fold (\<lambda>v. registry_bind_many ''search.providers'' v i) (co_search_providers co) bound, new)))"
  have k4: "moves (keeps starts) (?rest co new)" for co new by (intro keeps_intros caps)
  show ?thesis
  proof (cases r1)
    case (Inl e)
    with assms m k1 show ?thesis by (auto simp: prepare_module_def bind_op_def)
  next
    case new: (Inr new)
    show ?thesis
    proof (cases r2)
      case (Inl e)
      with assms m p k1 k2 new show ?thesis by (auto simp: prepare_module_def bind_op_def)
    next
      case Inr2: (Inr u)
      show ?thesis
      proof (cases r3)
        case (Inl e)
        with assms m p c k1 k2 k3 new Inr2 show ?thesis by (simp add: prepare_module_def bind_op_def)
      next
        case (Inr co)
        then have "?rest co new h3 = (r, h')" using assms m p c new Inr2
          by (simp add: prepare_module_def bind_op_def [where m = "apply_migrations w i (mh_migrations w i)"]
              bind_op_def [where m = "host_call w f a" for f a])
        from keepsD [OF k4 this] k1 k2 k3 show ?thesis by simp
      qed
    qed
  qed
qed

lemma starts_prepare_modules:
  assumes "prepare_modules w g ds reg started new h = (Ret (reg', started @ n, new', e), h')"
  shows "\<exists>m. starts h' = starts h @ take m (map fst ds) \<and> length n \<le> m \<and> m \<le> length ds \<and> m \<le> Suc (length n)"
  using assms
proof (induction ds arbitrary: reg started new n h)
  case Nil
  then show ?case by simp
next
  case (Cons x ds)
  obtain i d where x: "x = (i, d)" by fastforce
  obtain r h1 where p: "prepare_module w g i reg h = (r, h1)" by fastforce
  note st = starts_prepare_module [OF p]
  show ?case
  proof (cases r)
    case (Inl e1)
    with Cons.prems x p have "n = []" "h' = h1" by auto
    with st x show ?thesis by (auto intro: exI [of _ 0] exI [of _ 1])
  next
    case (Inr v)
    obtain co reg1 n1 where v: "v = (co, reg1, n1)" by (cases v) auto
    have run: "prepare_modules w g ds reg1 (started @ [(i, d, co)]) (new @ n1) h1 = (Ret (reg', started @ n, new', e), h')"
      using Cons.prems x p Inr v by simp
    obtain n2 where "started @ n = (started @ [(i, d, co)]) @ n2"
      using prepare_modules_Ret [of w g ds reg1 "started @ [(i, d, co)]" "new @ n1" h1] run by auto
    then have n: "n = (i, d, co) # n2" by simp
    with run have "prepare_modules w g ds reg1 (started @ [(i, d, co)]) (new @ n1) h1 = (Ret (reg', (started @ [(i, d, co)]) @ n2, new', e), h')"
      by simp
    from Cons.IH [OF this] obtain m where "starts h' = starts h1 @ take m (map fst ds)" "length n2 \<le> m" "m \<le> length ds" "m \<le> Suc (length n2)"
      by blast
    with st Inr x n show ?thesis by (intro exI [of _ "Suc m"]) simp
  qed
qed

lemma close_instances_result:
  "closes (snd (close_instances w started h)) = closes h @ rev (map fst started)
    \<and> (\<exists>es. fst (close_instances w started h) = Ret es)"
proof -
  let ?f = "\<lambda>(i, _). host_call w (\<lambda>t. mh_close w t i) (\<lambda>_. LClose i)"
  have one: "closes (snd (host_call w f (\<lambda>_. LClose i) h)) = closes h @ [i]" for i h and f :: "nat \<Rightarrow> unit res"
    by (simp add: closes_def host_call_def map_filter_def)
  have "closes (snd (close_each ?f xs h)) = closes h @ map fst xs \<and> (\<exists>es. fst (close_each ?f xs h) = Ret es)" for xs
  proof (induction xs arbitrary: h)
    case (Cons x xs)
    obtain i y where x: "x = (i, y)" by fastforce
    obtain r h1 where c: "host_call w (\<lambda>t. mh_close w t i) (\<lambda>_. LClose i) h = (r, h1)" by fastforce
    with one have "closes h1 = closes h @ [i]" by (metis snd_conv)
    with Cons [of h1] c show ?case
      by (cases "close_each ?f xs h1"; cases r) (auto simp: x bind_op_def)
  qed simp
  from this [of "rev started"] show ?thesis by (simp add: close_instances_def rev_map)
qed

lemma abandon_graph_result:
  assumes "abandon_graph w g started e h = (r, h')"
  shows "closes h' = closes h @ rev (map fst started) \<and> starts h' = starts h \<and> ho_applied h' = ho_applied h
    \<and> (careful token w \<longrightarrow> leaves_generation g w \<longrightarrow> wf_catalog token (ho_catalog h) \<longrightarrow> generation_gone g (ho_catalog h'))"
proof -
  let ?h = "h\<lparr>ho_catalog := revoke_generation g (ho_catalog h)\<rparr>"
  obtain es where c: "close_instances w started ?h = (Ret es, h')"
    using assms(1) close_instances_result [of w started ?h]
    by (auto simp: abandon_graph_def bind_op_def split: prod.splits sum.splits)
  have quiet: "moves (keeps ho_applied) (close_instances w started)" "moves (keeps starts) (close_instances w started)"
    unfolding close_instances_def
    by (intro moves_close_each keeps_reflp keeps_transp moves_prod applied_host_call starts_host_call; simp)+
  have "ho_applied h' = ho_applied h" "starts h' = starts h"
    using keepsD [OF quiet(1) c] keepsD [OF quiet(2) c] by (simp_all add: starts_def)
  moreover have "closes h' = closes h @ rev (map fst started)"
    using close_instances_result [of w started ?h] c by (simp add: closes_def)
  moreover have "generation_gone g (ho_catalog h')" if "careful token w" "leaves_generation g w" "wf_catalog token (ho_catalog h)"
    using movesD [OF gone_close_instances [OF that(2)] c] revoke_generation_gone [OF that(3)] by (simp add: stays_gone_def)
  ultimately show ?thesis by blast
qed

lemma start_components_quiet:
  assumes "start_graph_components w g h = (r, h')"
  shows "closes h' = closes h \<and> starts h' = starts h \<and> ho_applied h' = ho_applied h
    \<and> (careful token w \<longrightarrow> wf_catalog token (ho_catalog h) \<longrightarrow> wf_catalog token (ho_catalog h'))"
proof (intro conjI impI)
  have refs: "keeps closes k (k\<lparr>ho_references := x\<rparr>)" "keeps starts k (k\<lparr>ho_references := x\<rparr>)"
    "keeps ho_applied k (k\<lparr>ho_references := x\<rparr>)" "cat_ok token k (k\<lparr>ho_references := x\<rparr>)" for k x
    by (simp_all add: keeps_def closes_def starts_def cat_ok_def)
  show "closes h' = closes h"
    by (rule keepsD [OF moves_components [OF keeps_reflp keeps_transp refs(1) component_calls(2)] assms])
  show "starts h' = starts h"
    by (rule keepsD [OF moves_components [OF keeps_reflp keeps_transp refs(2) component_calls(1)] assms])
  show "ho_applied h' = ho_applied h"
    by (rule keepsD [OF moves_components [OF keeps_reflp keeps_transp refs(3) applied_host_call] assms])
  assume w: "careful token w" "wf_catalog token (ho_catalog h)"
  have "cat_ok token h h'"
    by (rule movesD [OF moves_components [OF cat_ok_reflp cat_ok_transp refs(4) cat_host_call [OF w(1)]] assms])
  with w(2) show "wf_catalog token (ho_catalog h')" by (simp add: cat_ok_def)
qed

text \<open>
  C24: A preparation that fails, whether in a migration, a module, a binding, a capability or a
  component, closes the modules it had completed, the last one first: all that it started, except
  the one at which it failed, which is not closed even when it had started.  It records no migration
  as applied and lowers no count of a component, and leaves them all as they were when no close
  method of a component raises; nothing of its generation is in the catalog when the other tasks use the
  catalog through its operations and register nothing under that generation.  A profile that does
  not resolve changes nothing at all.
\<close>

theorem failed_preparation_undone:
  fixes w :: "'v module_host"
  assumes "prepare_graph w cat profile services start h = (Raise e, h')"
  shows "(resolve cat profile services = Raise e \<and> h' = h) \<or>
    (\<exists>order m n. resolve cat profile services = Ret order \<and> (m = n \<or> m = Suc n) \<and> m \<le> length order
      \<and> starts h' = starts h @ take m (map fst order) \<and> closes h' = closes h @ rev (take n (map fst order))
      \<and> ho_applied h' = ho_applied h \<and> (\<forall>c. uses h c \<le> uses h' c) \<and> (closes_cleanly w \<longrightarrow> uses h' = uses h)
      \<and> (careful token w \<longrightarrow> leaves_generation (rp_generation profile) w \<longrightarrow> wf_catalog token (ho_catalog h) \<longrightarrow>
          generation_gone (rp_generation profile) (ho_catalog h')))"
proof (cases "resolve cat profile services")
  case (Inl e')
  with assms(1) show ?thesis by (simp add: prepare_graph_def)
next
  case (Inr order)
  let ?g = "rp_generation profile"
  have counts: "\<forall>c. uses h c \<le> uses h' c" "closes_cleanly w \<longrightarrow> uses h' = uses h"
    using prepare_graph_components [OF assms] by (simp_all add: fun_eq_iff)
  obtain reg n new f h1 where m: "prepare_modules w ?g order (registry_clone services) [] [] h = (Ret (reg, n, new, f), h1)"
    and n: "map (\<lambda>(i, d, _). (i, d)) n = take (length n) order"
    using prepare_modules_Ret [of w ?g order "registry_clone services" "[]" "[]" h] unfolding append_Nil by blast
  have ids: "map fst n = take (length n) (map fst order)"
    using arg_cong [OF n, of "map fst"] by (simp add: take_map comp_def split_def)
  obtain k where k: "starts h1 = starts h @ take k (map fst order)" "length n \<le> k" "k \<le> length order" "k \<le> Suc (length n)"
    using starts_prepare_modules [of w ?g order "registry_clone services" "[]" "[]" h reg n new f h1] m by auto
  have m1: "closes h1 = closes h" "ho_applied h1 = ho_applied h"
    "careful token w \<Longrightarrow> wf_catalog token (ho_catalog h) \<Longrightarrow> wf_catalog token (ho_catalog h1)"
    using keepsD [OF moves_prepare_modules [OF keeps_reflp keeps_transp closes_prepare_module] m]
      keepsD [OF moves_prepare_modules [OF keeps_reflp keeps_transp applied_prepare_module] m]
      movesD [OF moves_prepare_modules [OF cat_ok_reflp cat_ok_transp cat_prepare_module] m]
    by (simp_all add: cat_ok_def)
  obtain x h2 where a: "abandon_graph w ?g n x h2 = (Raise e :: 'v active_graph res, h')"
    and h2: "closes h2 = closes h1" "starts h2 = starts h1" "ho_applied h2 = ho_applied h1"
      "careful token w \<Longrightarrow> wf_catalog token (ho_catalog h1) \<Longrightarrow> wf_catalog token (ho_catalog h2)"
  proof (cases f)
    case (Some x)
    with that [of x h1] assms(1) Inr m show thesis by (simp add: prepare_graph_def bind_op_def)
  next
    case None
    let ?new = "new_graph profile reg n"
    obtain q h2 where s: "(if start then start_graph_components w else ret_op) ?new h1 = (q, h2)" by fastforce
    obtain x where q: "q = Raise x" "abandon_graph w ?g n x h2 = (Raise e :: 'v active_graph res, h')"
      using assms(1) Inr m None s by (cases q) (auto simp: prepare_graph_def bind_op_def)
    with s have s: "start_graph_components w ?new h1 = (Raise x, h2)" by (cases start) auto
    from start_components_quiet [OF s, of token] show thesis using that q(2) by blast
  qed
  from abandon_graph_result [OF a, of token] counts ids h2 m1 k Inr show ?thesis
    by (intro disjI2 exI [of _ order] exI [of _ k] exI [of _ "length n"]) auto
qed

section \<open>Examples\<close>

text \<open>Modules that all contribute one worker and the same service, so only one of them can be in a graph.\<close>

definition ex_module_of :: "string \<Rightarrow> module_descriptor" where
  "ex_module_of i = \<lparr>md_id = i, md_version = ''1'', md_api_version = Some ''1'', md_requires_modules = [],
     md_provided_services = [], md_supported_surfaces = [''service''], md_required_services_for = (\<lambda>_. []), md_validate = (\<lambda>_. None)\<rparr>"

definition ex_contribution :: "bool contribution" where
  "ex_contribution = \<lparr>co_services = [(''mailer'', True)], co_capabilities = [], co_prompt_blocks = [], co_routes = [],
     co_health_checks = [], co_search_providers = [], co_workers = [7], co_event_ingresses = [], co_indices = []\<rparr>"

definition ex_modules :: "bool module_host" where
  "ex_modules = \<lparr>mh_migrations = (\<lambda>_. [1]), mh_migrate = (\<lambda>_ _ _. Ret ()), mh_prepare = (\<lambda>_ _. Ret ()),
     mh_start = (\<lambda>_ _. Ret ex_contribution), mh_close = (\<lambda>_ _. Ret ()), mh_component_start = (\<lambda>_. Some (\<lambda>_. Ret ())),
     mh_component_close = (\<lambda>_. Some (\<lambda>_. Ret ())), mh_meanwhile = (\<lambda>_ c. c)\<rparr>"

definition ex_profile_of :: "int \<Rightarrow> string list \<Rightarrow> runtime_profile" where
  "ex_profile_of g is = \<lparr>rp_generation = g, rp_modules = map (\<lambda>i. (i, \<lparr>mc_surfaces = [''service''], mc_options = []\<rparr>)) is\<rparr>"

abbreviation "ex_installed \<equiv> [(''mail'', ex_module_of ''mail''), (''news'', ex_module_of ''news'')]"

definition ex_prepare :: "int \<Rightarrow> string list \<Rightarrow> (host, bool active_graph) op" where
  "ex_prepare g is = prepare_graph ex_modules ex_installed (ex_profile_of g is) (registry_init []) True"

definition ex_host :: host where
  "ex_host = host_start (catalog_empty True 0)"

definition ex_first :: "bool active_graph res \<times> host" where
  "ex_first = ex_prepare 1 [''mail''] ex_host"

definition ex_second :: "bool active_graph res \<times> host" where
  "ex_second = ex_prepare 2 [''mail''] (snd ex_first)"

definition ex_clash :: "bool active_graph res \<times> host" where
  "ex_clash = ex_prepare 1 [''mail'', ''news''] ex_host"

lemma ex_host_ok: "careful token ex_modules" "leaves_generation g ex_modules" "closes_cleanly ex_modules" "managed ex_modules c"
  by (simp_all add: careful_def leaves_generation_def closes_cleanly_def managed_def ex_modules_def)

theorem components_counted_witness:
  "uses (snd (close_graph ex_modules (projr (fst ex_first)) (snd ex_second))) 7 = 1
    \<and> balance (snd (close_graph ex_modules (projr (fst ex_first)) (snd ex_second))) 7 = 1"
proof -
  let ?g1 = "projr (fst ex_first)" and ?g2 = "projr (fst ex_second)"
  have "\<not> isl (fst ex_first)" "\<not> isl (fst ex_second)" by code_simp+
  then have p: "prepare_graph ex_modules ex_installed (ex_profile_of 1 [''mail'']) (registry_init []) True ex_host = (Ret ?g1, snd ex_first)"
    "prepare_graph ex_modules ex_installed (ex_profile_of 2 [''mail'']) (registry_init []) True (snd ex_first) = (Ret ?g2, snd ex_second)"
    using op_returned [of ex_first] op_returned [of ex_second] unfolding ex_first_def ex_second_def ex_prepare_def by simp_all
  have "rp_generation (ag_profile ?g1) = 1" "rp_generation (ag_profile ?g2) = 2" by code_simp+
  then have ne: "?g2 \<noteq> ?g1" by (intro notI) simp
  have comps: "graph_components ?g2 = [7]" by code_simp
  have r1: "graphs_reach ex_modules ex_installed (catalog_empty True 0) (snd ex_first) [?g1]"
    using graphs_reach.prepared [OF graphs_reach.nothing p(1) [unfolded ex_host_def]] by simp
  have r2: "graphs_reach ex_modules ex_installed (catalog_empty True 0) (snd ex_second) [?g2, ?g1]"
    using graphs_reach.prepared [OF r1 p(2)] by simp
  obtain r h' where c: "close_graph ex_modules ?g1 (snd ex_second) = (r, h')" by fastforce
  from graphs_reach.closed [OF r2 _ c] ne have "graphs_reach ex_modules ex_installed (catalog_empty True 0) h' [?g2]" by simp
  from components_counted [OF this, of 7] ex_host_ok(3) ex_host_ok(4) [of 7] c comps show ?thesis by simp
qed

theorem failed_preparation_undone_witness:
  "starts (snd ex_clash) = [''mail'', ''news''] \<and> closes (snd ex_clash) = [''mail'']
    \<and> generation_gone 1 (ho_catalog (snd ex_clash)) \<and> uses (snd ex_clash) = uses ex_host"
proof -
  have "isl (fst ex_clash)" by code_simp
  then have p: "prepare_graph ex_modules ex_installed (ex_profile_of 1 [''mail'', ''news'']) (registry_init []) True ex_host
      = (Raise (projl (fst ex_clash)), snd ex_clash)"
    unfolding ex_clash_def ex_prepare_def by (metis prod.collapse sum.collapse(1))
  have wf: "wf_catalog ex_token (ho_catalog ex_host)" by (simp add: ex_host_def host_start_def wf_catalog_empty)
  have "generation_gone 1 (ho_catalog ex_host)"
    by (simp add: generation_gone_def ex_host_def host_start_def catalog_empty_def)
  moreover have "rp_generation (ex_profile_of 1 [''mail'', ''news'']) = 1" by (simp add: ex_profile_of_def)
  ultimately have "generation_gone 1 (ho_catalog (snd ex_clash)) \<and> uses (snd ex_clash) = uses ex_host"
    using failed_preparation_undone [OF p, of ex_token] ex_host_ok(1) [of ex_token] ex_host_ok(2,3) wf by auto
  moreover have "closes (snd ex_clash) = [''mail'']" "starts (snd ex_clash) = [''mail'', ''news'']" by code_simp+
  ultimately show ?thesis by blast
qed

text \<open>
  The module whose own binding clashes has been started, but it is not among the modules the
  handler closes: it is left running.
\<close>

lemma started_module_not_closed:
  "LStart ''news'' \<in> set (ho_log (snd ex_clash)) \<and> LClose ''news'' \<notin> set (ho_log (snd ex_clash))"
  by code_simp

end
