(* ===== verification/RuntimeRuns.thy ===== *)
theory RuntimeRuns
  imports RunStore RuntimeGraph
begin

text \<open>
  The durable runs of \<^verbatim>\<open>Runtime\<close> (\<^verbatim>\<open>packages/runtime/src/openagent_core/runtime.py\<close>):
  admission, the task that executes a run, cancellation, shutdown, and the exchange of the module
  graph while runs are alive.  A coroutine is a process with a phase, the \<^verbatim>\<open>await\<close> it stands at;
  what it awaits is an operation of the store or an answer of the host, and resuming it takes it to
  its next \<^verbatim>\<open>await\<close>.  The store is any implementation of the protocol \<^verbatim>\<open>RuntimeStore\<close>,
  which the record \<open>run_store\<close> holds; \<open>sqlite_store\<close> is the one of the theory \<open>RunStore\<close>.  A store
  operation that was begun is finished before a cancellation is raised
  (\<^verbatim>\<open>complete_before_cancelling\<close> in \<^verbatim>\<open>persistence.py\<close>).
\<close>

section \<open>The store protocol\<close>

record 's run_store =
  ra_accept :: "run_request \<Rightarrow> execution_context \<Rightarrow> ('s, run_record \<times> bool) op"
  ra_get :: "string \<Rightarrow> ('s, run_record option) op"
  ra_transition :: "string \<Rightarrow> string \<Rightarrow> json option \<Rightarrow> ('s, run_record) op"
  ra_request_cancel :: "string \<Rightarrow> ('s, run_record) op"
  ra_reserve_cancel :: "string \<Rightarrow> execution_context \<Rightarrow> ('s, run_record) op"
  ra_append_event :: "string \<Rightarrow> string \<Rightarrow> json \<Rightarrow> ('s, run_event) op"

definition sqlite_store :: "env \<Rightarrow> int \<Rightarrow> store run_store" where
  "sqlite_store en now =
     \<lparr>ra_accept = (\<lambda>rq cx. store_accept en rq cx now), ra_get = store_get,
      ra_transition = (\<lambda>rid status output. store_transition en rid status output now),
      ra_request_cancel = (\<lambda>rid. store_request_cancel rid now),
      ra_reserve_cancel = (\<lambda>rid cx. store_reserve_cancel rid cx now),
      ra_append_event = (\<lambda>rid kind payload. store_append_event rid kind payload now)\<rparr>"

section \<open>Processes\<close>

abbreviation CancelledError :: py_error where "CancelledError \<equiv> OtherError ''CancelledError''"
abbreviation AttributeError :: py_error where "AttributeError \<equiv> OtherError ''AttributeError''"

text \<open>The awaits of \<^verbatim>\<open>Runtime.cancel\<close>, and those of \<^verbatim>\<open>Runtime._execute\<close> in the order of the code.\<close>

datatype cancel_phase =
    CProbe
  | CReserveAllow
  | CReserve
  | CRead
  | CAllow run_record
  | CRequest
  | CWait
  | CSettle

datatype phase =
    Fresh
  | Entering
  | SteerRead
  | SteerAllow
  | Announcing
  | Stopping cancel_phase
  | Queued
  | Admitting
  | Checking
  | Withdrawing
  | Starting
  | Screening
  | Executing
  | Publishing json
  | Confirming json
  | Committing json bool
  | Diagnosing json
  | Ending string "json option"
  | Ended "unit res"

text \<open>A cancellation is \<open>pending\<close> from \<^verbatim>\<open>task.cancel()\<close> until the task is resumed with it.\<close>

record process =
  pc_request :: run_request
  pc_context :: execution_context
  pc_graph :: nat
  pc_revision :: int
  pc_phase :: phase
  pc_pending :: bool

text \<open>A call of \<^verbatim>\<open>cancel\<close> by a client.\<close>

record cancel_call =
  cc_run :: string
  cc_context :: execution_context
  cc_phase :: cancel_phase

text \<open>
  The state of a runtime.  Graphs are objects: the heap holds them, the other fields name them by
  their index.  \<open>rt_queues\<close> is the queue of each session lock, whose head holds the lock.
  \<open>rt_admission\<close> is the request between its acceptance and the creation of its task, and
  \<open>rt_shutdown\<close> holds while \<^verbatim>\<open>close\<close> waits for the tasks; the lifecycle lock is taken in both.
  \<open>rt_candidates\<close> are the graphs \<^verbatim>\<open>reconfigure\<close> has prepared, with the generation they are to
  replace, and \<open>rt_drains\<close> the graphs it has retired and not closed yet, both with the flag of the
  mode \<^verbatim>\<open>force\<close>.
\<close>

record ('s, 'v) runtime =
  rt_store :: 's
  rt_host :: host
  rt_heap :: "'v active_graph list"
  rt_started :: bool
  rt_closing :: bool
  rt_active :: "nat option"
  rt_retired :: "(int \<times> nat) list"
  rt_run_graphs :: "(string \<times> nat) list"
  rt_run_revisions :: "(string \<times> int) list"
  rt_tasks :: "string list"
  rt_processes :: "string \<Rightarrow> process option"
  rt_queues :: "string \<times> string \<Rightarrow> string list"
  rt_cancels :: "cancel_call list"
  rt_admission :: "(run_request \<times> execution_context) option"
  rt_shutdown :: bool
  rt_candidates :: "(nat \<times> int \<times> bool) list"
  rt_drains :: "(nat \<times> bool) list"

text \<open>
  The settings and the optional services that decide which awaits there are: the agent, whether a
  privacy publisher is bound and whether the delegation service offers a credential scope; and the
  public description of an error (\<^verbatim>\<open>classify_run_error\<close>).
\<close>

record runtime_config =
  rw_agent_id :: string
  rw_privacy :: bool
  rw_credentials :: bool
  rw_error_output :: "py_error \<Rightarrow> json"

section \<open>Authorization\<close>

text \<open>What the delegation service, if one is bound, and the host's policy answer.\<close>

record verdict =
  vd_delegation :: "bool res option"
  vd_policy :: "bool res"

definition check_policy :: "runtime_config \<Rightarrow> execution_context \<Rightarrow> string \<Rightarrow> verdict \<Rightarrow> unit res" where
  "check_policy cfg cx tenant v =
     (if cx_agent_id cx \<noteq> rw_agent_id cfg then Raise PermissionError
      else bind_res
        (if truthy_opt (cx_delegation_id cx)
         then case vd_delegation v of None \<Rightarrow> Raise PermissionError | Some valid \<Rightarrow> bind_res valid (\<lambda>ok. guard ok PermissionError)
         else Ret ()) (\<lambda>_.
      if tenant \<noteq> cx_tenant_id cx then Raise AuthorizationDenied
      else bind_res (vd_policy v) (\<lambda>ok. guard ok AuthorizationDenied)))"

text \<open>\<^verbatim>\<open>get_run\<close>: the record, for whoever may read it now.\<close>

definition get_run :: "runtime_config \<Rightarrow> 's run_store \<Rightarrow> string \<Rightarrow> execution_context \<Rightarrow> verdict \<Rightarrow> ('s, run_record) op" where
  "get_run cfg S rid cx v =
     bind_op (ra_get S rid) (\<lambda>found.
     case found of
       None \<Rightarrow> raise_op LookupError
     | Some r \<Rightarrow> bind_op (lift_op (check_policy cfg cx (rr_tenant_id r) v)) (\<lambda>_. ret_op r))"

definition runtime_admission :: "('s, 'v) runtime \<Rightarrow> unit res" where
  "runtime_admission rt = (if \<not> rt_started rt \<or> rt_closing rt then Raise RuntimeError else Ret ())"

section \<open>Parts of a step\<close>

definition on_store :: "('s, 'a) op \<Rightarrow> (('s, 'v) runtime, 'a) op" where
  "on_store m = (\<lambda>rt. case m (rt_store rt) of (r, s) \<Rightarrow> (r, rt\<lparr>rt_store := s\<rparr>))"

definition map_graph :: "nat \<Rightarrow> ('v active_graph \<Rightarrow> 'v active_graph) \<Rightarrow> ('s, 'v) runtime \<Rightarrow> ('s, 'v) runtime" where
  "map_graph n f rt = rt\<lparr>rt_heap := (rt_heap rt)[n := f (rt_heap rt ! n)]\<rparr>"

definition set_process :: "string \<Rightarrow> process \<Rightarrow> ('s, 'v) runtime \<Rightarrow> ('s, 'v) runtime" where
  "set_process rid p rt = rt\<lparr>rt_processes := (rt_processes rt)(rid := Some p)\<rparr>"

definition goto :: "string \<Rightarrow> process \<Rightarrow> phase \<Rightarrow> ('s, 'v) runtime \<Rightarrow> ('s, 'v) runtime" where
  "goto rid p ph = set_process rid (p\<lparr>pc_phase := ph\<rparr>)"

definition session_key :: "process \<Rightarrow> string \<times> string" where
  "session_key p = (cx_tenant_id (pc_context p), cx_session_id (pc_context p))"

definition enter_queue :: "string \<Rightarrow> process \<Rightarrow> ('s, 'v) runtime \<Rightarrow> ('s, 'v) runtime" where
  "enter_queue rid p rt =
     goto rid p Queued (rt\<lparr>rt_queues := (rt_queues rt)(session_key p := rt_queues rt (session_key p) @ [rid])\<rparr>)"

definition leave_queue :: "string \<Rightarrow> process \<Rightarrow> ('s, 'v) runtime \<Rightarrow> ('s, 'v) runtime" where
  "leave_queue rid p rt = rt\<lparr>rt_queues := (rt_queues rt)(session_key p := removeAll rid (rt_queues rt (session_key p)))\<rparr>"

text \<open>The \<^verbatim>\<open>finally\<close> of \<^verbatim>\<open>_execute\<close>, and the end of the task.\<close>

definition finish_run :: "string \<Rightarrow> process \<Rightarrow> unit res \<Rightarrow> ('s, 'v) runtime \<Rightarrow> ('s, 'v) runtime" where
  "finish_run rid p r rt =
     goto rid p (Ended r) (map_graph (pc_graph p) graph_release
       (rt\<lparr>rt_tasks := removeAll rid (rt_tasks rt), rt_run_graphs := AList.delete rid (rt_run_graphs rt),
          rt_run_revisions := AList.delete rid (rt_run_revisions rt)\<rparr>))"

text \<open>The \<^verbatim>\<open>except\<close> clauses: the session lock is left, and the final transition is next.\<close>

definition handle_error :: "runtime_config \<Rightarrow> string \<Rightarrow> process \<Rightarrow> py_error \<Rightarrow> ('s, 'v) runtime \<Rightarrow> ('s, 'v) runtime" where
  "handle_error cfg rid p e rt =
     goto rid p
       (if e = TimeoutError then Ending ''timed_out'' None
        else if e = CancelledError then Ending (if rt_closing rt then ''interrupted'' else ''cancelled'') None
        else if rw_privacy cfg then Diagnosing (rw_error_output cfg e)
        else Ending ''failed'' (Some (rw_error_output cfg e)))
       (leave_queue rid p rt)"

text \<open>\<^verbatim>\<open>task.cancel()\<close> on a task that is not done.\<close>

definition process_ended :: "process \<Rightarrow> bool" where
  "process_ended p \<longleftrightarrow> (case pc_phase p of Ended _ \<Rightarrow> True | _ \<Rightarrow> False)"

definition cancel_task :: "string \<Rightarrow> ('s, 'v) runtime \<Rightarrow> ('s, 'v) runtime" where
  "cancel_task rid rt =
     (case rt_processes rt rid of
        None \<Rightarrow> rt
      | Some p \<Rightarrow> if process_ended p then rt else set_process rid (p\<lparr>pc_pending := True\<rparr>) rt)"

definition task_running :: "string \<Rightarrow> ('s, 'v) runtime \<Rightarrow> bool" where
  "task_running rid rt \<longleftrightarrow> rid \<in> set (rt_tasks rt) \<and> (case rt_processes rt rid of None \<Rightarrow> False | Some p \<Rightarrow> \<not> process_ended p)"

text \<open>How an await ends: normally, with an answer of the host, with an exception, by a cancellation, by the deadline.\<close>

datatype answer =
    Proceeds
  | Decides verdict
  | Gives json
  | Fails py_error
  | Cancels
  | Expires

text \<open>A store operation that was begun is finished, also when the task is interrupted.\<close>

definition store_await :: "('s, 'a) op \<Rightarrow> answer \<Rightarrow> (('s, 'v) runtime, 'a) op" where
  "store_await m a = (\<lambda>rt. case on_store m rt of
     (r, rt') \<Rightarrow> ((case a of Cancels \<Rightarrow> Raise CancelledError | Expires \<Rightarrow> Raise TimeoutError | _ \<Rightarrow> r), rt'))"

text \<open>An answer of the host to a question that has no result, and to an authorization.\<close>

definition host_await :: "answer \<Rightarrow> unit res" where
  "host_await a = (case a of Fails e \<Rightarrow> Raise e | Cancels \<Rightarrow> Raise CancelledError | Expires \<Rightarrow> Raise TimeoutError | _ \<Rightarrow> Ret ())"

definition policy_await :: "runtime_config \<Rightarrow> execution_context \<Rightarrow> string \<Rightarrow> answer \<Rightarrow> unit res" where
  "policy_await cfg cx tenant a = (case a of Decides v \<Rightarrow> check_policy cfg cx tenant v | _ \<Rightarrow> host_await a)"

definition readable_await :: "runtime_config \<Rightarrow> 's run_store \<Rightarrow> string \<Rightarrow> execution_context \<Rightarrow> answer \<Rightarrow> (('s, 'v) runtime, run_record) op" where
  "readable_await cfg S rid cx a =
     (case a of Decides v \<Rightarrow> on_store (get_run cfg S rid cx v)
      | _ \<Rightarrow> bind_op (lift_op (host_await a)) (\<lambda>_. raise_op RuntimeError))"

section \<open>Cancelling a run\<close>

text \<open>\<^verbatim>\<open>Runtime.cancel\<close>, one await after the other; \<open>None\<close> is its return.\<close>

fun cancel_advance :: "runtime_config \<Rightarrow> 's run_store \<Rightarrow> execution_context \<Rightarrow> string \<Rightarrow> cancel_phase \<Rightarrow> answer
    \<Rightarrow> (('s, 'v) runtime, cancel_phase option) op" where
  "cancel_advance cfg S cx rid CProbe a =
     bind_op (store_await (ra_get S rid) a) (\<lambda>found.
     case found of
       None \<Rightarrow> (\<lambda>rt. bind_op (lift_op (runtime_admission rt)) (\<lambda>_. ret_op (Some CReserveAllow)) rt)
     | Some _ \<Rightarrow> ret_op (Some CRead))"
| "cancel_advance cfg S cx rid CReserveAllow a =
     bind_op (lift_op (policy_await cfg cx (cx_tenant_id cx) a)) (\<lambda>_. ret_op (Some CReserve))"
| "cancel_advance cfg S cx rid CReserve a =
     bind_op (store_await (ra_reserve_cancel S rid cx) a) (\<lambda>r. ret_op (if rr_terminal r then None else Some CRead))"
| "cancel_advance cfg S cx rid CRead a =
     bind_op (readable_await cfg S rid cx a) (\<lambda>r. ret_op (Some (CAllow r)))"
| "cancel_advance cfg S cx rid (CAllow r) a =
     bind_op (lift_op (policy_await cfg cx (rr_tenant_id r) a)) (\<lambda>_. ret_op (if rr_terminal r then None else Some CRequest))"
| "cancel_advance cfg S cx rid CRequest a =
     bind_op (store_await (ra_request_cancel S rid) a) (\<lambda>_ rt.
       if task_running rid rt then (Ret (Some CWait), cancel_task rid rt) else (Ret None, rt))"
| "cancel_advance cfg S cx rid CWait a =
     bind_op (lift_op (host_await a)) (\<lambda>_. ret_op (Some CSettle))"
| "cancel_advance cfg S cx rid CSettle a =
     bind_op (store_await (ra_transition S rid ''cancelled'' None) a) (\<lambda>_ rt.
       (Ret None, rt\<lparr>rt_tasks := removeAll rid (rt_tasks rt)\<rparr>))"

text \<open>What an await waits for.\<close>

datatype waits = WStart | WLock | WStore | WTask string | WPolicy | WHost | WExecutor | WNothing

fun cancel_waits :: "string \<Rightarrow> cancel_phase \<Rightarrow> waits" where
  "cancel_waits rid CProbe = WStore"
| "cancel_waits rid CReserveAllow = WPolicy"
| "cancel_waits rid CReserve = WStore"
| "cancel_waits rid CRead = WPolicy"
| "cancel_waits rid (CAllow r) = WPolicy"
| "cancel_waits rid CRequest = WStore"
| "cancel_waits rid CWait = WTask rid"
| "cancel_waits rid CSettle = WStore"

definition ended :: "string \<Rightarrow> ('s, 'v) runtime \<Rightarrow> bool" where
  "ended rid rt \<longleftrightarrow> (case rt_processes rt rid of None \<Rightarrow> True | Some p \<Rightarrow> process_ended p)"

text \<open>The answers that are no interruption.\<close>

definition may_answer :: "string \<Rightarrow> string list \<Rightarrow> waits \<Rightarrow> answer \<Rightarrow> ('s, 'v) runtime \<Rightarrow> bool" where
  "may_answer rid queue k a rt \<longleftrightarrow>
     (case k of
        WStart \<Rightarrow> a = Proceeds
      | WLock \<Rightarrow> a = Proceeds \<and> queue \<noteq> [] \<and> hd queue = rid
      | WStore \<Rightarrow> a = Proceeds
      | WTask t \<Rightarrow> a = Proceeds \<and> ended t rt
      | WPolicy \<Rightarrow> (case a of Decides _ \<Rightarrow> True | _ \<Rightarrow> False)
      | WHost \<Rightarrow> (case a of Proceeds \<Rightarrow> True | Fails _ \<Rightarrow> True | _ \<Rightarrow> False)
      | WExecutor \<Rightarrow> (case a of Gives _ \<Rightarrow> True | Fails _ \<Rightarrow> True | _ \<Rightarrow> False)
      | WNothing \<Rightarrow> False)"

section \<open>Executing a run\<close>

definition steering_of :: "process \<Rightarrow> string" where
  "steering_of p = (case rq_steer_run_id (pc_request p) of None \<Rightarrow> [] | Some t \<Rightarrow> t)"

fun phase_waits :: "process \<Rightarrow> phase \<Rightarrow> waits" where
  "phase_waits p Fresh = WStart"
| "phase_waits p Entering = WHost"
| "phase_waits p SteerRead = WPolicy"
| "phase_waits p SteerAllow = WPolicy"
| "phase_waits p Announcing = WStore"
| "phase_waits p (Stopping c) = cancel_waits (steering_of p) c"
| "phase_waits p Queued = WLock"
| "phase_waits p Admitting = WPolicy"
| "phase_waits p Checking = WStore"
| "phase_waits p Withdrawing = WStore"
| "phase_waits p Starting = WStore"
| "phase_waits p Screening = WHost"
| "phase_waits p Executing = WExecutor"
| "phase_waits p (Publishing v) = WPolicy"
| "phase_waits p (Confirming v) = WStore"
| "phase_waits p (Committing v c) = WStore"
| "phase_waits p (Diagnosing v) = WHost"
| "phase_waits p (Ending s v) = WStore"
| "phase_waits p (Ended r) = WNothing"

text \<open>The phases inside \<^verbatim>\<open>asyncio.timeout(request.deadline_seconds)\<close>.\<close>

definition in_deadline :: "phase \<Rightarrow> bool" where
  "in_deadline ph \<longleftrightarrow> (case ph of Fresh \<Rightarrow> False | Entering \<Rightarrow> False | Diagnosing _ \<Rightarrow> False | Ending _ _ \<Rightarrow> False | Ended _ \<Rightarrow> False | _ \<Rightarrow> True)"

text \<open>
  A pending cancellation is raised at the next resumption, and hides an expired deadline.  Host
  code may swallow it and answer normally; a store operation, a lock or another task cannot.
\<close>

definition may_resume :: "string \<Rightarrow> process \<Rightarrow> answer \<Rightarrow> ('s, 'v) runtime \<Rightarrow> bool" where
  "may_resume rid p a rt \<longleftrightarrow>
     \<not> process_ended p \<and>
     (case a of
        Cancels \<Rightarrow> pc_pending p
      | Expires \<Rightarrow> \<not> pc_pending p \<and> in_deadline (pc_phase p) \<and> rq_deadline_seconds (pc_request p) \<noteq> None
      | _ \<Rightarrow> may_answer rid (rt_queues rt (session_key p)) (phase_waits p (pc_phase p)) a rt
          \<and> (pc_pending p \<longrightarrow> phase_waits p (pc_phase p) \<in> {WPolicy, WHost, WExecutor}))"

definition proceed :: "runtime_config \<Rightarrow> string \<Rightarrow> process \<Rightarrow> (('s, 'v) runtime, 'a) op \<Rightarrow> ('a \<Rightarrow> ('s, 'v) runtime \<Rightarrow> ('s, 'v) runtime)
    \<Rightarrow> ('s, 'v) runtime \<Rightarrow> ('s, 'v) runtime" where
  "proceed cfg rid p m k rt = (case m rt of (Inl e, rt') \<Rightarrow> handle_error cfg rid p e rt' | (Inr x, rt') \<Rightarrow> k x rt')"

definition enter_scope :: "string \<Rightarrow> process \<Rightarrow> ('s, 'v) runtime \<Rightarrow> ('s, 'v) runtime" where
  "enter_scope rid p rt = (if rq_steer_run_id (pc_request p) \<noteq> None then goto rid p SteerRead rt else enter_queue rid p rt)"

text \<open>\<^verbatim>\<open>_execute\<close> from one await to the next.\<close>

fun advance :: "runtime_config \<Rightarrow> 's run_store \<Rightarrow> string \<Rightarrow> process \<Rightarrow> phase \<Rightarrow> answer \<Rightarrow> ('s, 'v) runtime \<Rightarrow> ('s, 'v) runtime" where
  "advance cfg S rid p Fresh a rt =
     (if a = Cancels then goto rid p (Ended (Raise CancelledError)) rt
      else if truthy_opt (cx_delegation_id (pc_context p)) \<and> rw_credentials cfg then goto rid p Entering rt
      else enter_scope rid p rt)"
| "advance cfg S rid p Entering a rt = proceed cfg rid p (lift_op (host_await a)) (\<lambda>_. enter_scope rid p) rt"
| "advance cfg S rid p SteerRead a rt =
     proceed cfg rid p (readable_await cfg S (steering_of p) (pc_context p) a) (\<lambda>r.
       if rr_session_id r \<noteq> rq_session_id (pc_request p) \<or> rr_tenant_id r \<noteq> cx_tenant_id (pc_context p)
       then handle_error cfg rid p PermissionError else goto rid p SteerAllow) rt"
| "advance cfg S rid p SteerAllow a rt =
     proceed cfg rid p (lift_op (policy_await cfg (pc_context p) (cx_tenant_id (pc_context p)) a)) (\<lambda>_. goto rid p Announcing) rt"
| "advance cfg S rid p Announcing a rt =
     proceed cfg rid p (store_await (ra_append_event S rid ''run.steering'' (JObj [(''target_run_id'', JStr (steering_of p))])) a)
       (\<lambda>_. goto rid p (Stopping CRead)) rt"
| "advance cfg S rid p (Stopping c) a rt =
     proceed cfg rid p (cancel_advance cfg S (pc_context p) (steering_of p) c a) (\<lambda>next.
       case next of None \<Rightarrow> enter_queue rid p | Some c' \<Rightarrow> goto rid p (Stopping c')) rt"
| "advance cfg S rid p Queued a rt = proceed cfg rid p (lift_op (host_await a)) (\<lambda>_. goto rid p Admitting) rt"
| "advance cfg S rid p Admitting a rt =
     proceed cfg rid p (lift_op (policy_await cfg (pc_context p) (cx_tenant_id (pc_context p)) a)) (\<lambda>_. goto rid p Checking) rt"
| "advance cfg S rid p Checking a rt =
     proceed cfg rid p (store_await (ra_get S rid) a) (\<lambda>found.
       case found of None \<Rightarrow> handle_error cfg rid p AttributeError
       | Some r \<Rightarrow> goto rid p (if rr_cancel_requested r then Withdrawing else Starting)) rt"
| "advance cfg S rid p Withdrawing a rt =
     proceed cfg rid p (store_await (ra_transition S rid ''cancelled'' None) a) (\<lambda>_ rt. finish_run rid p (Ret ()) (leave_queue rid p rt)) rt"
| "advance cfg S rid p Starting a rt =
     proceed cfg rid p (store_await (ra_transition S rid ''running'' None) a)
       (\<lambda>_. goto rid p (if rw_privacy cfg then Screening else Executing)) rt"
| "advance cfg S rid p Screening a rt = proceed cfg rid p (lift_op (host_await a)) (\<lambda>_. goto rid p Executing) rt"
| "advance cfg S rid p Executing a rt =
     (case a of Gives v \<Rightarrow> goto rid p (Publishing v) rt
      | _ \<Rightarrow> proceed cfg rid p (lift_op (host_await a)) (\<lambda>_. goto rid p (Publishing JNull)) rt)"
| "advance cfg S rid p (Publishing v) a rt =
     proceed cfg rid p (lift_op (policy_await cfg (pc_context p) (cx_tenant_id (pc_context p)) a)) (\<lambda>_. goto rid p (Confirming v)) rt"
| "advance cfg S rid p (Confirming v) a rt =
     proceed cfg rid p (store_await (ra_get S rid) a) (\<lambda>found.
       case found of None \<Rightarrow> handle_error cfg rid p AttributeError
       | Some r \<Rightarrow> goto rid p (Committing v (rr_cancel_requested r))) rt"
| "advance cfg S rid p (Committing v c) a rt =
     proceed cfg rid p (store_await (ra_transition S rid (if c then ''cancelled'' else ''success'') (if c then None else Some v)) a)
       (\<lambda>_ rt. finish_run rid p (Ret ()) (leave_queue rid p rt)) rt"
| "advance cfg S rid p (Diagnosing out) a rt =
     (case host_await a of
        Inr _ \<Rightarrow> goto rid p (Ending ''failed'' (Some out)) rt
      | Inl e \<Rightarrow> if e = PrivacyFence then goto rid p (Ending ''failed'' None) rt else finish_run rid p (Raise e) rt)"
| "advance cfg S rid p (Ending status out) a rt =
     (case store_await (ra_transition S rid status out) a rt of
        (Inl e, rt') \<Rightarrow> finish_run rid p (Raise e) rt'
      | (Inr _, rt') \<Rightarrow> finish_run rid p (Ret ()) rt')"
| "advance cfg S rid p (Ended r) a rt = rt"

definition resume_run :: "runtime_config \<Rightarrow> 's run_store \<Rightarrow> string \<Rightarrow> answer \<Rightarrow> ('s, 'v) runtime \<Rightarrow> ('s, 'v) runtime option" where
  "resume_run cfg S rid a rt =
     (case rt_processes rt rid of
        None \<Rightarrow> None
      | Some p \<Rightarrow> if may_resume rid p a rt then Some (advance cfg S rid (p\<lparr>pc_pending := False\<rparr>) (pc_phase p) a rt) else None)"

text \<open>A client's call of \<^verbatim>\<open>cancel\<close>; a client that goes away cancels its own call only.\<close>

definition call_cancel :: "string \<Rightarrow> execution_context \<Rightarrow> bool \<Rightarrow> ('s, 'v) runtime \<Rightarrow> ('s, 'v) runtime" where
  "call_cancel rid cx reserve rt = rt\<lparr>rt_cancels := rt_cancels rt @
     [\<lparr>cc_run = rid, cc_context = cx, cc_phase = (if reserve then CProbe else CRead)\<rparr>]\<rparr>"

definition resume_cancel :: "runtime_config \<Rightarrow> 's run_store \<Rightarrow> nat \<Rightarrow> answer \<Rightarrow> ('s, 'v) runtime \<Rightarrow> ('s, 'v) runtime option" where
  "resume_cancel cfg S i a rt =
     (if i < length (rt_cancels rt)
      then let c = rt_cancels rt ! i in
        if a = Cancels \<or> may_answer [] [] (cancel_waits (cc_run c) (cc_phase c)) a rt
        then Some (case cancel_advance cfg S (cc_context c) (cc_run c) (cc_phase c) a rt of
            (Inr (Some ph), rt') \<Rightarrow> rt'\<lparr>rt_cancels := (rt_cancels rt')[i := c\<lparr>cc_phase := ph\<rparr>]\<rparr>
          | (_, rt') \<Rightarrow> rt'\<lparr>rt_cancels := take i (rt_cancels rt') @ drop (Suc i) (rt_cancels rt')\<rparr>)
        else None
      else None)"

section \<open>Admission\<close>

text \<open>The lifecycle lock is free.\<close>

definition lifecycle_free :: "('s, 'v) runtime \<Rightarrow> bool" where
  "lifecycle_free rt \<longleftrightarrow> rt_admission rt = None \<and> \<not> rt_shutdown rt"

definition steering_target :: "runtime_config \<Rightarrow> 's run_store \<Rightarrow> run_request \<Rightarrow> execution_context \<Rightarrow> verdict \<Rightarrow> ('s, unit) op" where
  "steering_target cfg S rq cx v =
     (case rq_steer_run_id rq of
        None \<Rightarrow> ret_op ()
      | Some t \<Rightarrow>
          bind_op (get_run cfg S t cx v) (\<lambda>target.
          bind_op (guard_op (rr_session_id target = rq_session_id rq \<and> rr_tenant_id target = cx_tenant_id cx) PermissionError) (\<lambda>_.
          lift_op (check_policy cfg cx (rr_tenant_id target) v))))"

definition acquire_graph :: "nat \<Rightarrow> (('s, 'v) runtime, unit) op" where
  "acquire_graph n = (\<lambda>rt. case graph_acquire (rt_heap rt ! n) of (r, g) \<Rightarrow> (r, map_graph n (\<lambda>_. g) rt))"

text \<open>
  \<^verbatim>\<open>_admit_and_start\<close> up to the binding of the run to its graph; \<open>credentials\<close> is the answer of
  the credential scope.
\<close>

definition admit_run :: "runtime_config \<Rightarrow> 's run_store \<Rightarrow> run_request \<Rightarrow> execution_context \<Rightarrow> unit res \<Rightarrow> verdict \<Rightarrow> verdict
    \<Rightarrow> (('s, 'v) runtime, run_record) op" where
  "admit_run cfg S rq cx credentials v vt = (\<lambda>rt.
     bind_op (lift_op (runtime_admission rt)) (\<lambda>_.
     case rt_active rt of
       None \<Rightarrow> raise_op RuntimeError
     | Some n \<Rightarrow>
         bind_op (guard_op (rq_session_id rq = cx_session_id cx) ValueError) (\<lambda>_.
         bind_op (lift_op (if truthy_opt (cx_delegation_id cx) \<and> rw_credentials cfg then credentials else Ret ())) (\<lambda>_.
         bind_op (lift_op (check_policy cfg cx (cx_tenant_id cx) v)) (\<lambda>_.
         bind_op (on_store (steering_target cfg S rq cx vt)) (\<lambda>_.
         bind_op (on_store (ra_accept S rq cx)) (\<lambda>(record, created).
         if created then
           bind_op (acquire_graph n) (\<lambda>_.
           bind_op (modify_op (\<lambda>rt. rt\<lparr>rt_run_graphs := AList.update (rr_run_id record) n (rt_run_graphs rt),
             rt_run_revisions := AList.update (rr_run_id record) (ct_revision (ho_catalog (rt_host rt))) (rt_run_revisions rt),
             rt_admission := Some (rq, cx)\<rparr>)) (\<lambda>_. ret_op record))
         else ret_op record)))))) rt)"

definition profile_payload :: "'v active_graph \<Rightarrow> int \<Rightarrow> json" where
  "profile_payload g revision = JObj
     [(''generation'', JInt (rp_generation (ag_profile g))),
      (''modules'', JArr (map (\<lambda>(i, d, _). JObj [(''id'', JStr i), (''version'', JStr (md_version d)),
        (''surfaces'', JArr (map JStr (sort (case map_of (rp_modules (ag_profile g)) i of None \<Rightarrow> [] | Some c \<Rightarrow> mc_surfaces c))))]) (ag_instances g))),
      (''capability_revision'', JInt revision)]"

definition unbind_run :: "string \<Rightarrow> nat \<Rightarrow> ('s, 'v) runtime \<Rightarrow> ('s, 'v) runtime" where
  "unbind_run rid n rt = map_graph n graph_release
     (rt\<lparr>rt_run_graphs := AList.delete rid (rt_run_graphs rt), rt_run_revisions := AList.delete rid (rt_run_revisions rt)\<rparr>)"

text \<open>The rest of it: the profile event and the task, or the undoing of the binding.\<close>

definition register_run :: "'s run_store \<Rightarrow> ('s, 'v) runtime \<Rightarrow> ('s, 'v) runtime option" where
  "register_run S rt =
     (case rt_admission rt of
        None \<Rightarrow> None
      | Some (rq, cx) \<Rightarrow>
          let rid = rq_run_id rq in
          (case (map_of (rt_run_graphs rt) rid, map_of (rt_run_revisions rt) rid) of
             (Some n, Some revision) \<Rightarrow>
               (case on_store (ra_append_event S rid ''run.profile'' (profile_payload (rt_heap rt ! n) revision)) rt of
                  (Inl e, rt') \<Rightarrow> Some ((unbind_run rid n rt')\<lparr>rt_admission := None\<rparr>)
                | (Inr _, rt') \<Rightarrow> Some (set_process rid
                    \<lparr>pc_request = rq, pc_context = cx, pc_graph = n, pc_revision = revision, pc_phase = Fresh, pc_pending = False\<rparr>
                    (rt'\<lparr>rt_tasks := List.insert rid (rt_tasks rt'), rt_admission := None\<rparr>)))
           | _ \<Rightarrow> None))"

section \<open>Shutdown\<close>

definition close_begin :: "('s, 'v) runtime \<Rightarrow> ('s, 'v) runtime option" where
  "close_begin rt =
     (if \<not> lifecycle_free rt \<or> rt_closing rt then None
      else Some (fold cancel_task (rt_tasks rt) (rt\<lparr>rt_closing := True, rt_shutdown := True\<rparr>)))"

definition on_host :: "(host, 'a) op \<Rightarrow> (('s, 'v) runtime, 'a) op" where
  "on_host m = (\<lambda>rt. case m (rt_host rt) of (r, h) \<Rightarrow> (r, rt\<lparr>rt_host := h\<rparr>))"

text \<open>\<^verbatim>\<open>_close_graph\<close>: the graph object and the index of retired graphs change too.\<close>

definition runtime_close_graph :: "'v module_host \<Rightarrow> nat \<Rightarrow> (('s, 'v) runtime, py_error list) op" where
  "runtime_close_graph w n = (\<lambda>rt.
     bind_op (on_host (close_graph w (rt_heap rt ! n))) (\<lambda>es.
     bind_op (modify_op (map_graph n (\<lambda>g. g\<lparr>ag_components_started := False\<rparr>))) (\<lambda>_.
     bind_op (modify_op (\<lambda>rt. rt\<lparr>rt_retired := AList.delete (rp_generation (ag_profile (rt_heap rt ! n))) (rt_retired rt)\<rparr>)) (\<lambda>_.
     ret_op es))) rt)"

fun close_all :: "'v module_host \<Rightarrow> nat list \<Rightarrow> (('s, 'v) runtime, py_error list) op" where
  "close_all w [] = ret_op []"
| "close_all w (n # ns) = bind_op (runtime_close_graph w n) (\<lambda>es. bind_op (close_all w ns) (\<lambda>es'. ret_op (es @ es')))"

text \<open>The tasks are done: what is left of them is interrupted, and the graphs are closed.\<close>

definition close_body :: "'v module_host \<Rightarrow> 's run_store \<Rightarrow> (('s, 'v) runtime, unit) op" where
  "close_body w S = (\<lambda>rt.
     bind_op (mapM_op (\<lambda>rid. on_store (ra_transition S rid ''interrupted'' (Some (JObj [(''reason'', JStr ''runtime_closed'')])))) (rt_tasks rt)) (\<lambda>_.
     bind_op (modify_op (\<lambda>rt. rt\<lparr>rt_tasks := []\<rparr>)) (\<lambda>_.
     bind_op (close_all w (dedup ((case rt_active rt of None \<Rightarrow> [] | Some n \<Rightarrow> [n]) @ map snd (rt_retired rt)))) (\<lambda>errors.
     bind_op (modify_op (\<lambda>rt. rt\<lparr>rt_active := None, rt_retired := [], rt_started := False\<rparr>)) (\<lambda>_.
     guard_op (errors = []) ExceptionGroup)))) rt)"

definition close_end :: "'v module_host \<Rightarrow> 's run_store \<Rightarrow> ('s, 'v) runtime \<Rightarrow> ('s, 'v) runtime option" where
  "close_end w S rt =
     (if rt_shutdown rt \<and> (\<forall>rid \<in> set (rt_tasks rt). ended rid rt)
      then Some ((snd (close_body w S rt))\<lparr>rt_shutdown := False\<rparr>) else None)"

section \<open>Exchanging the module graph\<close>

text \<open>The checks of \<^verbatim>\<open>reconfigure\<close> under the lock; \<open>services\<close> are the host's bindings.\<close>

definition reconfigure_check :: "module_catalog \<Rightarrow> 'v service_registry \<Rightarrow> runtime_profile \<Rightarrow> int \<Rightarrow> ('s, 'v) runtime \<Rightarrow> unit res" where
  "reconfigure_check cat services profile expected rt =
     bind_res (runtime_admission rt) (\<lambda>_.
     case rt_active rt of
       None \<Rightarrow> Raise ModuleReconfigurationError
     | Some n \<Rightarrow>
         if rp_generation (ag_profile (rt_heap rt ! n)) \<noteq> expected then Raise ModuleReconfigurationError
         else if rp_generation profile \<le> expected then Raise ModuleReconfigurationError
         else bind_res (resolve cat profile services) (\<lambda>_. Ret ()))"

text \<open>
  \<^verbatim>\<open>_preflight_reconfiguration\<close>: the inspectors name the references to modules the profile
  removes; \<open>inspect\<close> is their merged answer.
\<close>

definition preflight :: "runtime_profile \<Rightarrow> runtime_profile \<Rightarrow> (string list \<Rightarrow> (string \<times> string list) list res) \<Rightarrow> unit res" where
  "preflight current candidate inspect =
     (let removed = filter (\<lambda>i. i \<notin> set (module_ids candidate)) (module_ids current) in
      if removed = [] then Ret ()
      else bind_res (inspect removed) (\<lambda>blocked. guard (\<forall>(_, refs) \<in> set blocked. refs = []) ModuleReferenceConflict))"

definition reconfigure_prepare :: "'v module_host \<Rightarrow> module_catalog \<Rightarrow> 'v service_registry \<Rightarrow> runtime_profile \<Rightarrow> int \<Rightarrow> bool
    \<Rightarrow> (string list \<Rightarrow> (string \<times> string list) list res) \<Rightarrow> (('s, 'v) runtime, unit) op" where
  "reconfigure_prepare w cat services profile expected force inspect = (\<lambda>rt.
     bind_op (lift_op (reconfigure_check cat services profile expected rt)) (\<lambda>_.
     bind_op (lift_op (case rt_active rt of None \<Rightarrow> Ret () | Some n \<Rightarrow> preflight (ag_profile (rt_heap rt ! n)) profile inspect)) (\<lambda>_.
     bind_op (on_host (prepare_graph w cat profile services True)) (\<lambda>g.
     modify_op (\<lambda>rt. rt\<lparr>rt_heap := rt_heap rt @ [g],
       rt_candidates := rt_candidates rt @ [(length (rt_heap rt), expected, force)]\<rparr>)))) rt)"

definition bound_runs :: "nat \<Rightarrow> ('s, 'v) runtime \<Rightarrow> string list" where
  "bound_runs n rt = filter (\<lambda>rid. map_of (rt_run_graphs rt) rid = Some n) (rt_tasks rt)"

text \<open>The swap, or the end of a candidate that came too late; \<open>force\<close> cancels the runs of the old graph.\<close>

definition swap_graph :: "'v module_host \<Rightarrow> nat \<Rightarrow> ('s, 'v) runtime \<Rightarrow> ('s, 'v) runtime option" where
  "swap_graph w i rt =
     (if \<not> lifecycle_free rt \<or> length (rt_candidates rt) \<le> i then None
      else case rt_candidates rt ! i of (n, expected, force) \<Rightarrow>
        let rt0 = rt\<lparr>rt_candidates := take i (rt_candidates rt) @ drop (Suc i) (rt_candidates rt)\<rparr> in
        Some (case rt_active rt of
          Some m \<Rightarrow>
            if rp_generation (ag_profile (rt_heap rt ! m)) = expected then
              let rt1 = (map_graph m (\<lambda>g. g\<lparr>ag_draining := True, ag_drained := (if ag_leases g = 0 then True else ag_drained g)\<rparr>) rt0)
                  \<lparr>rt_retired := AList.update expected m (rt_retired rt), rt_active := Some n,
                   rt_host := (rt_host rt)\<lparr>ho_catalog := activate_generation (Some (rp_generation (ag_profile (rt_heap rt ! n)))) (ho_catalog (rt_host rt))\<rparr>,
                   rt_drains := rt_drains rt @ [(m, force)]\<rparr>
              in if force then fold cancel_task (bound_runs m rt1) rt1 else rt1
            else snd (runtime_close_graph w n rt0)
        | None \<Rightarrow> snd (runtime_close_graph w n rt0)))"

text \<open>A retired graph is closed when it has drained, or in the mode \<open>force\<close> when its tasks are done.\<close>

definition retire_graph :: "'v module_host \<Rightarrow> nat \<Rightarrow> ('s, 'v) runtime \<Rightarrow> ('s, 'v) runtime option" where
  "retire_graph w i rt =
     (if length (rt_drains rt) \<le> i then None
      else case rt_drains rt ! i of (n, force) \<Rightarrow>
        if (if force then \<forall>rid \<in> set (bound_runs n rt). ended rid rt else ag_drained (rt_heap rt ! n))
        then Some (snd (runtime_close_graph w n (rt\<lparr>rt_drains := take i (rt_drains rt) @ drop (Suc i) (rt_drains rt)\<rparr>)))
        else None)"

section \<open>The steps of a runtime\<close>

text \<open>
  What can happen next: an operation of a client goes on, a task is resumed, or another process
  changes the store.
\<close>

inductive runtime_step :: "runtime_config \<Rightarrow> 'v module_host \<Rightarrow> 's run_store set \<Rightarrow> ('s \<Rightarrow> 's \<Rightarrow> bool)
    \<Rightarrow> ('s, 'v) runtime \<Rightarrow> ('s, 'v) runtime \<Rightarrow> bool" for cfg w stores meanwhile where
  step_submit: "S \<in> stores \<Longrightarrow> lifecycle_free rt \<Longrightarrow> admit_run cfg S rq cx credentials v vt rt = (r, rt') \<Longrightarrow>
    runtime_step cfg w stores meanwhile rt rt'"
| step_register: "S \<in> stores \<Longrightarrow> register_run S rt = Some rt' \<Longrightarrow> runtime_step cfg w stores meanwhile rt rt'"
| step_resume: "S \<in> stores \<Longrightarrow> resume_run cfg S rid a rt = Some rt' \<Longrightarrow> runtime_step cfg w stores meanwhile rt rt'"
| step_cancel: "runtime_step cfg w stores meanwhile rt (call_cancel rid cx reserve rt)"
| step_cancelling: "S \<in> stores \<Longrightarrow> resume_cancel cfg S i a rt = Some rt' \<Longrightarrow> runtime_step cfg w stores meanwhile rt rt'"
| step_close: "close_begin rt = Some rt' \<Longrightarrow> runtime_step cfg w stores meanwhile rt rt'"
| step_closed: "S \<in> stores \<Longrightarrow> close_end w S rt = Some rt' \<Longrightarrow> runtime_step cfg w stores meanwhile rt rt'"
| step_prepare: "lifecycle_free rt \<Longrightarrow> reconfigure_prepare w cat services profile expected force inspect rt = (r, rt') \<Longrightarrow>
    runtime_step cfg w stores meanwhile rt rt'"
| step_swap: "swap_graph w i rt = Some rt' \<Longrightarrow> runtime_step cfg w stores meanwhile rt rt'"
| step_retire: "retire_graph w i rt = Some rt' \<Longrightarrow> runtime_step cfg w stores meanwhile rt rt'"
| step_elsewhere: "meanwhile (rt_store rt) s' \<Longrightarrow> runtime_step cfg w stores meanwhile rt (rt\<lparr>rt_store := s'\<rparr>)"

inductive_cases runtime_stepE: "runtime_step cfg w stores meanwhile rt rt'"

text \<open>What \<^verbatim>\<open>start\<close> leaves: one active graph, no run.\<close>

definition runtime_begin :: "'s \<Rightarrow> host \<Rightarrow> 'v active_graph \<Rightarrow> ('s, 'v) runtime" where
  "runtime_begin s h g =
     \<lparr>rt_store = s, rt_host = h, rt_heap = [g], rt_started = True, rt_closing = False, rt_active = Some 0, rt_retired = [],
      rt_run_graphs = [], rt_run_revisions = [], rt_tasks = [], rt_processes = (\<lambda>_. None), rt_queues = (\<lambda>_. []), rt_cancels = [],
      rt_admission = None, rt_shutdown = False, rt_candidates = [], rt_drains = []\<rparr>"

inductive runtime_reach :: "runtime_config \<Rightarrow> 'v module_host \<Rightarrow> 's run_store set \<Rightarrow> ('s \<Rightarrow> 's \<Rightarrow> bool)
    \<Rightarrow> ('s, 'v) runtime \<Rightarrow> ('s, 'v) runtime \<Rightarrow> bool" for cfg w stores meanwhile rt0 where
  reach_begin: "runtime_reach cfg w stores meanwhile rt0 rt0"
| reach_step: "runtime_reach cfg w stores meanwhile rt0 rt \<Longrightarrow> runtime_step cfg w stores meanwhile rt rt' \<Longrightarrow>
    runtime_reach cfg w stores meanwhile rt0 rt'"

end
