(* ===== verification/RuntimeRunLaws.thy ===== *)
theory RuntimeRunLaws
  imports RuntimeRuns RunStoreLaws
begin

text \<open>
  What the runtime keeps true while runs are admitted, executed and cancelled.  The contract of
  the store is the locale \<open>run_authority\<close>: which operations move the status of which run.  It is
  interpreted by the SQLite store.
\<close>

section \<open>The contract of the store\<close>

text \<open>A run's status and cancellation flag; nothing final is undone and no request is dropped.\<close>

type_synonym run_view = "string \<Rightarrow> (string \<times> bool) option"

definition view_le :: "run_view \<Rightarrow> run_view \<Rightarrow> bool" where
  "view_le V V' \<longleftrightarrow> (\<forall>rid st c. V rid = Some (st, c) \<longrightarrow>
     (\<exists>st' c'. V' rid = Some (st', c') \<and> (c \<longrightarrow> c') \<and> (st \<in> set TERMINAL_STATUSES \<longrightarrow> st' = st)))"

lemma view_le_refl [simp]: "view_le V V"
  by (auto simp: view_le_def)

lemma view_le_trans: "view_le V V' \<Longrightarrow> view_le V' V'' \<Longrightarrow> view_le V V''"
  unfolding view_le_def by blast

text \<open>What a transition makes of a status.\<close>

definition moved :: "string \<Rightarrow> string \<times> bool \<Rightarrow> string \<times> bool" where
  "moved st v = (if fst v \<in> set TERMINAL_STATUSES then v else (st, snd v))"

locale run_authority =
  fixes stores :: "'s run_store set" and view :: "'s \<Rightarrow> run_view"
  assumes get_keeps: "S \<in> stores \<Longrightarrow> snd (ra_get S rid s) = s"
    and get_reads: "S \<in> stores \<Longrightarrow> ra_get S rid s = (Ret (Some r), s') \<Longrightarrow> view s rid = Some (st, c) \<Longrightarrow>
      rr_status r = st \<and> rr_cancel_requested r = c"
    and get_finds: "S \<in> stores \<Longrightarrow> ra_get S rid s = (Ret None, s') \<Longrightarrow> view s rid = None"
    and transition_moves: "S \<in> stores \<Longrightarrow> ra_transition S rid st out s = (Ret r, s') \<Longrightarrow>
      \<exists>v. view s rid = Some v \<and> view s' = (view s)(rid := Some (moved st v))"
    and transition_raises: "S \<in> stores \<Longrightarrow> ra_transition S rid st out s = (Raise e, s') \<Longrightarrow> s' = s"
    and cancel_moves: "S \<in> stores \<Longrightarrow> view (snd (ra_request_cancel S rid s)) = view s \<or>
      (\<exists>st c. view s rid = Some (st, c) \<and> view (snd (ra_request_cancel S rid s)) = (view s)(rid := Some (st, True)))"
    and accept_new: "S \<in> stores \<Longrightarrow> ra_accept S rq cx s = (Ret (r, True), s') \<Longrightarrow>
      view s (rq_run_id rq) = None \<and> rr_run_id r = rq_run_id rq \<and> view s' (rq_run_id rq) \<noteq> None"
    and accept_adds: "S \<in> stores \<Longrightarrow> view (snd (ra_accept S rq cx s)) = view s \<or>
      (view s (rq_run_id rq) = None \<and>
       (\<exists>v. view (snd (ra_accept S rq cx s)) = (view s)(rq_run_id rq := Some v) \<and> fst v \<noteq> ''success''))"
    and reserve_keeps: "S \<in> stores \<Longrightarrow> view (snd (ra_reserve_cancel S rid cx s)) = view s"
    and append_keeps: "S \<in> stores \<Longrightarrow> view (snd (ra_append_event S rid kind payload s)) = view s"
begin

lemma transition_le: "S \<in> stores \<Longrightarrow> view_le (view s) (view (snd (ra_transition S rid st out s)))"
proof (cases "ra_transition S rid st out s")
  case (Pair r s')
  assume S: "S \<in> stores"
  show ?thesis
  proof (cases r)
    case (Inl e)
    with transition_raises [OF S, of rid st out s e s'] Pair show ?thesis by simp
  next
    case (Inr x)
    with transition_moves [OF S, of rid st out s x s'] Pair show ?thesis by (auto simp: view_le_def moved_def)
  qed
qed

lemma request_cancel_le: "S \<in> stores \<Longrightarrow> view_le (view s) (view (snd (ra_request_cancel S rid s)))"
  using cancel_moves [of S rid s] by (fastforce simp: view_le_def)

lemma accept_le: "S \<in> stores \<Longrightarrow> view_le (view s) (view (snd (ra_accept S rq cx s)))"
  using accept_adds [of S rq cx s] by (auto simp: view_le_def)

end

section \<open>The SQLite store keeps the contract\<close>

definition sqlite_view :: "store \<Rightarrow> run_view" where
  "sqlite_view s rid = map_option (\<lambda>r. (ru_status r, rm_cancel_requested (ru_metadata r))) (find_run rid s)"

lemma sqlite_view_cong: "st_runs s' = st_runs s \<Longrightarrow> sqlite_view s' = sqlite_view s"
  by (auto simp: sqlite_view_def find_run_def)

lemma sqlite_view_keeps: "moves (keeps st_runs) m \<Longrightarrow> sqlite_view (snd (m s)) = sqlite_view s"
  by (rule sqlite_view_cong) (simp add: moves_def keeps_def)

lemma found_map_runs:
  assumes "\<And>r. ru_id (f r) = ru_id r"
  shows "find_run rid' (map_runs rid f s) = (if rid' = rid then map_option f (find_run rid s) else find_run rid' s)"
proof -
  have "List.find (\<lambda>x. ru_id x = rid') (map (\<lambda>x. if ru_id x = rid then f x else x) xs) =
    (if rid' = rid then map_option f (List.find (\<lambda>x. ru_id x = rid) xs) else List.find (\<lambda>x. ru_id x = rid') xs)" for xs
    using assms by (induction xs) auto
  then show ?thesis by (simp add: find_run_def map_runs_def)
qed

lemma sqlite_transition:
  assumes "store_transition en rid st out now s = (Ret r, s')"
  shows "\<exists>v. sqlite_view s rid = Some v \<and> sqlite_view s' = (sqlite_view s)(rid := Some (moved st v))"
proof -
  from transition_Ret [OF assms] obtain row where row: "find_run rid s = Some row"
    and cases: "if run_terminal row then s' = s else st_runs s' = st_runs (map_runs rid (transition_row st out now) s)"
    by (auto split: if_splits)
  let ?v = "(ru_status row, rm_cancel_requested (ru_metadata row))"
  have "sqlite_view s' = (sqlite_view s)(rid := Some (moved st ?v))"
  proof (cases "run_terminal row")
    case True
    with cases row show ?thesis by (auto simp: sqlite_view_def moved_def run_terminal_def)
  next
    case False
    have "sqlite_view s' = sqlite_view (map_runs rid (transition_row st out now) s)"
      by (rule sqlite_view_cong) (use cases False in simp)
    also have "\<dots> = (sqlite_view s)(rid := Some (moved st ?v))"
      using row False by (auto simp: sqlite_view_def found_map_runs transition_row_def moved_def run_terminal_def)
    finally show ?thesis .
  qed
  with row show ?thesis by (auto simp: sqlite_view_def)
qed

lemma sqlite_request_cancel:
  "sqlite_view (snd (store_request_cancel rid now s)) = sqlite_view s \<or>
    (\<exists>st c. sqlite_view s rid = Some (st, c) \<and> sqlite_view (snd (store_request_cancel rid now s)) = (sqlite_view s)(rid := Some (st, True)))"
proof -
  obtain r s' where c: "store_request_cancel rid now s = (r, s')" by fastforce
  show ?thesis
  proof (cases "s' = s")
    case False
    with c obtain x where "bind_op (require_run_not_quarantined rid) (\<lambda>_.
       bind_op (found_op (find_run rid)) (\<lambda>r.
       if rr_terminal (record_of r) \<or> rm_cancel_requested (ru_metadata r) then ret_op (record_of r)
       else
         bind_op (modify_op (map_runs rid (\<lambda>r. r\<lparr>ru_metadata := (ru_metadata r)\<lparr>rm_cancel_requested := True\<rparr>\<rparr>))) (\<lambda>_.
         bind_op (store_event rid ''run.cancel_requested'' (JObj []) now) (\<lambda>_.
         bind_op (found_op (find_run rid)) (\<lambda>row.
         ret_op (record_of row)))))) s = (Inr x, s')"
      unfolding store_request_cancel_def by (auto elim: transaction_cases)
    with False obtain row e where row: "find_run rid s = Some row"
      and ev: "store_event rid ''run.cancel_requested'' (JObj []) now (map_runs rid request_cancel_row s) = (Ret e, s')"
      by (auto simp: op_Ret request_cancel_row_def [abs_def] split: if_splits)
    have "sqlite_view s' = sqlite_view (map_runs rid request_cancel_row s)"
      using keepsD [OF store_event_keeps(1) ev] by (rule sqlite_view_cong)
    also have "\<dots> = (sqlite_view s)(rid := Some (ru_status row, True))"
      using row by (auto simp: sqlite_view_def found_map_runs request_cancel_row_def)
    finally show ?thesis using row c by (auto simp: sqlite_view_def)
  qed (simp add: c)
qed

lemma sqlite_accept_view:
  assumes "store_accept en rq cx now s = (r, s')" "same_request rq s = []" "r = Ret p"
  shows "find_run (rq_run_id rq) s = None \<and> (\<exists>v. sqlite_view s' = (sqlite_view s)(rq_run_id rq := Some v) \<and> fst v \<noteq> ''success'')
    \<and> rr_run_id (fst p) = rq_run_id rq"
proof -
  let ?res = "find_reservation (rq_run_id rq) s"
  let ?x = "(if ?res \<noteq> None then cancel_accepted now else id) (new_run en rq cx (?res \<noteq> None) now s)"
  have a: "store_accept en rq cx now s = (Ret (fst p, snd p), s')" using assms(1,3) by simp
  have runs: "st_runs s' = st_runs s @ [?x]" and rec: "fst p = record_of ?x" using accept_new(1,2) [OF assms(2) a] by auto
  have id: "ru_id ?x = rq_run_id rq" and st: "ru_status ?x \<noteq> ''success''" by (simp_all add: new_run_def cancel_accepted_def)
  note none = same_request_Nil(1) [OF assms(2)]
  have "find_run rid s' = (if rid = rq_run_id rq then Some ?x else find_run rid s)" for rid
  proof (cases "rid = rq_run_id rq")
    case True
    with find_run_append [OF none runs id] show ?thesis by simp
  next
    case False
    have "List.find (\<lambda>x. ru_id x = rid) (xs @ [?x]) = List.find (\<lambda>x. ru_id x = rid) xs" for xs
      using False id by (induction xs) auto
    with runs False show ?thesis by (simp add: find_run_def)
  qed
  then have "sqlite_view s' = (sqlite_view s)(rq_run_id rq := Some (ru_status ?x, rm_cancel_requested (ru_metadata ?x)))"
    by (auto simp: sqlite_view_def)
  with none rec id st show ?thesis by (auto simp: record_of_def)
qed

lemma accept_fresh_new: "store_accept en rq cx now s = (Ret (r, True), s') \<Longrightarrow> same_request rq s = []"
  by (rule ccontr) (auto simp: store_accept_def accept_body_def op_Ret accept_again_def elim!: transaction_cases split: list.splits if_splits)

lemma accept_changes: "store_accept en rq cx now s = (r, s') \<Longrightarrow> s' \<noteq> s \<Longrightarrow> same_request rq s = [] \<and> (\<exists>p. r = Ret p)"
  by (rule ccontr) (auto simp: store_accept_def accept_body_def op_Ret elim!: transaction_cases)

interpretation sq: run_authority "range (sqlite_store en)" sqlite_view
proof (unfold_locales, goal_cases)
  case (1 S rid s)
  then show ?case by (auto simp: sqlite_store_def store_get_def bind_op_def require_run_not_quarantined_def split: sum.split)
next
  case (2 S rid s r s' st c)
  then show ?case
    by (auto simp: sqlite_store_def store_get_def op_Ret sqlite_view_def record_of_def split: option.splits)
next
  case (3 S rid s s')
  then show ?case by (auto simp: sqlite_store_def store_get_def op_Ret sqlite_view_def split: option.splits)
next
  case (4 S rid st out s r s')
  then show ?case using sqlite_transition by (auto simp: sqlite_store_def)
next
  case (5 S rid st out s e s')
  then obtain now where "transaction (transition_body en rid st out now) s = (Raise e, s')"
    by (auto simp: sqlite_store_def store_transition_def)
  then show ?case using transaction_raised [of "transition_body en rid st out now" s e] by simp
next
  case (6 S rid s)
  then obtain now where "S = sqlite_store en now" by auto
  then show ?case using sqlite_request_cancel [of rid now s] by (simp add: sqlite_store_def)
next
  case (7 S rq cx s r s')
  then obtain now where a: "store_accept en rq cx now s = (Ret (r, True), s')" by (auto simp: sqlite_store_def)
  from sqlite_accept_view [OF a accept_fresh_new [OF a] refl] show ?case by (auto simp: sqlite_view_def [of s])
next
  case (8 S rq cx s)
  then obtain now where S: "S = sqlite_store en now" by auto
  obtain r s' where a: "store_accept en rq cx now s = (r, s')" by fastforce
  show ?case
  proof (cases "s' = s")
    case False
    with accept_changes [OF a] obtain p where "same_request rq s = []" "r = Ret p" by blast
    from sqlite_accept_view [OF a this] show ?thesis using a S by (auto simp: sqlite_store_def sqlite_view_def)
  qed (use a S in \<open>simp add: sqlite_store_def\<close>)
next
  case (9 S rid cx s)
  have "moves (keeps st_runs) (store_reserve_cancel rid cx now)" for now
    unfolding store_reserve_cancel_def by (intro keeps_transaction keeps_intros require_keeps keeps_reflp keeps_append)
  with 9 show ?case by (auto simp: sqlite_store_def intro: sqlite_view_keeps)
next
  case (10 S rid kind payload s)
  have "moves (keeps st_runs) (store_append_event rid kind payload now)" for now
    unfolding store_append_event_def by (intro keeps_transaction keeps_intros require_keeps keeps_reflp store_event_keeps)
  with 10 show ?case by (auto simp: sqlite_store_def intro: sqlite_view_keeps)
qed

section \<open>What resuming a task can do\<close>

text \<open>
  Beside its own process a task changes the store, marks other tasks as cancelled, and takes a
  cancelled one out of the table.
\<close>

definition aside :: "('s, 'v) runtime \<Rightarrow> ('s, 'v) runtime \<Rightarrow> bool" where
  "aside rt rt1 \<longleftrightarrow> (\<exists>s P T. rt1 = rt\<lparr>rt_store := s, rt_processes := P, rt_tasks := T\<rparr> \<and> set T \<subseteq> set (rt_tasks rt)
     \<and> (\<forall>r. P r = rt_processes rt r \<or>
          (\<exists>q. rt_processes rt r = Some q \<and> \<not> process_ended q \<and> P r = Some (q\<lparr>pc_pending := True\<rparr>))))"

lemma process_ended_pending [simp]: "process_ended (q\<lparr>pc_pending := b\<rparr>) = process_ended q"
  by (simp add: process_ended_def)

lemma asideI:
  assumes "rt1 = rt\<lparr>rt_store := s, rt_processes := P, rt_tasks := T\<rparr>" "set T \<subseteq> set (rt_tasks rt)"
    "\<And>r. P r = rt_processes rt r \<or> (\<exists>q. rt_processes rt r = Some q \<and> \<not> process_ended q \<and> P r = Some (q\<lparr>pc_pending := True\<rparr>))"
  shows "aside rt rt1"
  using assms unfolding aside_def by blast

lemma aside_refl [simp]: "aside rt rt"
  by (rule asideI [where s = "rt_store rt" and P = "rt_processes rt" and T = "rt_tasks rt"]) simp_all

lemma aside_trans:
  assumes "aside rt rt1" "aside rt1 rt2" shows "aside rt rt2"
proof -
  obtain s P T where 1: "rt1 = rt\<lparr>rt_store := s, rt_processes := P, rt_tasks := T\<rparr>" "set T \<subseteq> set (rt_tasks rt)"
    "\<And>r. P r = rt_processes rt r \<or> (\<exists>q. rt_processes rt r = Some q \<and> \<not> process_ended q \<and> P r = Some (q\<lparr>pc_pending := True\<rparr>))"
    using assms(1) unfolding aside_def by blast
  obtain s' P' T' where 2: "rt2 = rt1\<lparr>rt_store := s', rt_processes := P', rt_tasks := T'\<rparr>" "set T' \<subseteq> set (rt_tasks rt1)"
    "\<And>r. P' r = rt_processes rt1 r \<or> (\<exists>q. rt_processes rt1 r = Some q \<and> \<not> process_ended q \<and> P' r = Some (q\<lparr>pc_pending := True\<rparr>))"
    using assms(2) unfolding aside_def by blast
  show ?thesis
  proof (rule asideI [where s = s' and P = P' and T = T'])
    fix r
    have "rt_processes rt1 r = P r" by (simp add: 1(1))
    with 1(3) [of r] 2(3) [of r]
    show "P' r = rt_processes rt r \<or> (\<exists>q. rt_processes rt r = Some q \<and> \<not> process_ended q \<and> P' r = Some (q\<lparr>pc_pending := True\<rparr>))"
      by force
  qed (use 1 2 in auto)
qed

lemma aside_on_store: "aside rt (snd (on_store m rt))"
  by (rule asideI [where s = "snd (m (rt_store rt))" and P = "rt_processes rt" and T = "rt_tasks rt"]) (simp_all add: on_store_def split: prod.split)

lemma aside_cancel_task: "aside rt (cancel_task t rt)"
  by (rule asideI [where s = "rt_store rt" and P = "rt_processes (cancel_task t rt)" and T = "rt_tasks rt"])
    (auto simp: cancel_task_def set_process_def split: option.split)

lemma aside_store_await: "aside rt (snd (store_await m a rt))"
  using aside_on_store [of rt m] by (cases "on_store m rt") (simp add: store_await_def)

lemma aside_readable: "aside rt (snd (readable_await cfg S t cx a rt))"
  by (cases a) (simp_all add: readable_await_def aside_on_store bind_op_def split: sum.split)

lemma moves_aside_bind: "moves aside m \<Longrightarrow> (\<And>x. moves aside (f x)) \<Longrightarrow> moves aside (bind_op m f)"
  by (rule moves_bind) (auto simp: transp_def intro: aside_trans)

lemma moves_aside_basic: "moves aside (ret_op x)" "moves aside (raise_op e)" "moves aside (lift_op r)"
  by (simp_all add: moves_def)

lemma aside_tasks: "aside rt (rt\<lparr>rt_tasks := removeAll t (rt_tasks rt)\<rparr>)"
  by (rule asideI [where s = "rt_store rt" and P = "rt_processes rt" and T = "removeAll t (rt_tasks rt)"]) auto

lemma aside_cancel: "moves aside (cancel_advance cfg S cx t c a)"
proof (cases c)
  case CProbe
  have "moves aside (\<lambda>rt. bind_op (lift_op (runtime_admission rt)) (\<lambda>_. ret_op (Some CReserveAllow)) rt)"
    by (simp add: moves_def bind_op_def split: sum.split)
  with CProbe show ?thesis
    by (auto intro!: moves_aside_bind moves_aside_basic moves_option simp: moves_def [of aside "store_await _ _"] aside_store_await)
next
  case CRequest
  have "moves aside (\<lambda>rt. if task_running t rt then (Ret (Some CWait), cancel_task t rt) else (Ret None, rt))"
    by (simp add: moves_def aside_cancel_task)
  with CRequest show ?thesis
    by (auto intro!: moves_aside_bind simp: moves_def [of aside "store_await _ _"] aside_store_await)
next
  case CSettle
  have "moves aside (\<lambda>rt. (Ret None, rt\<lparr>rt_tasks := removeAll t (rt_tasks rt)\<rparr>))"
    by (simp add: moves_def aside_tasks)
  with CSettle show ?thesis
    by (auto intro!: moves_aside_bind simp: moves_def [of aside "store_await _ _"] aside_store_await)
qed (auto intro!: moves_aside_bind moves_aside_basic simp: moves_def [of aside "store_await _ _"]
    moves_def [of aside "readable_await _ _ _ _ _"] aside_store_await aside_readable)

text \<open>What becomes of the process itself.\<close>

datatype move = MGoto phase | MQueue | MFail phase | MDone | MEnd "unit res"

definition apply_move :: "string \<Rightarrow> process \<Rightarrow> move \<Rightarrow> ('s, 'v) runtime \<Rightarrow> ('s, 'v) runtime" where
  "apply_move rid p mv rt = (case mv of
     MGoto ph \<Rightarrow> goto rid p ph rt
   | MQueue \<Rightarrow> enter_queue rid p rt
   | MFail ph \<Rightarrow> goto rid p ph (leave_queue rid p rt)
   | MDone \<Rightarrow> finish_run rid p (Ret ()) (leave_queue rid p rt)
   | MEnd r \<Rightarrow> finish_run rid p r rt)"

definition ends_badly :: "string \<Rightarrow> bool" where
  "ends_badly s \<longleftrightarrow> s \<in> set TERMINAL_STATUSES \<and> s \<noteq> ''success''"

definition failing :: "phase \<Rightarrow> bool" where
  "failing ph \<longleftrightarrow> (case ph of Diagnosing _ \<Rightarrow> True | Ending s _ \<Rightarrow> ends_badly s | _ \<Rightarrow> False)"

fun cancel_rank :: "cancel_phase \<Rightarrow> nat" where
  "cancel_rank CProbe = 8"
| "cancel_rank CReserveAllow = 7"
| "cancel_rank CReserve = 6"
| "cancel_rank CRead = 5"
| "cancel_rank (CAllow r) = 4"
| "cancel_rank CRequest = 3"
| "cancel_rank CWait = 2"
| "cancel_rank CSettle = 1"

lemma cancel_advance_rank: "cancel_advance cfg S cx t c a rt = (Ret (Some c'), rt') \<Longrightarrow> cancel_rank c' < cancel_rank c"
  by (cases c) (auto simp: bind_op_def split: prod.splits sum.splits option.splits if_splits)

inductive moves_to :: "phase \<Rightarrow> move \<Rightarrow> bool" where
  "moves_to Fresh (MGoto (Ended (Raise CancelledError)))"
| "moves_to Fresh (MGoto Entering)"
| "ph = Fresh \<or> ph = Entering \<Longrightarrow> moves_to ph (MGoto SteerRead)"
| "ph = Fresh \<or> ph = Entering \<or> ph = Stopping c \<Longrightarrow> moves_to ph MQueue"
| "moves_to SteerRead (MGoto SteerAllow)"
| "moves_to SteerAllow (MGoto Announcing)"
| "moves_to Announcing (MGoto (Stopping CRead))"
| "cancel_rank c' < cancel_rank c \<Longrightarrow> moves_to (Stopping c) (MGoto (Stopping c'))"
| "moves_to Queued (MGoto Admitting)"
| "moves_to Admitting (MGoto Checking)"
| "ph = Withdrawing \<or> ph = Starting \<Longrightarrow> moves_to Checking (MGoto ph)"
| "ph = Screening \<or> ph = Executing \<Longrightarrow> moves_to Starting (MGoto ph)"
| "moves_to Screening (MGoto Executing)"
| "moves_to Executing (MGoto (Publishing v))"
| "moves_to (Publishing v) (MGoto (Confirming v))"
| "moves_to (Confirming v) (MGoto (Committing v c))"
| "moves_to Withdrawing MDone"
| "moves_to (Committing v c) MDone"
| "in_deadline ph \<or> ph = Entering \<Longrightarrow> failing ph' \<Longrightarrow> moves_to ph (MFail ph')"
| "moves_to (Diagnosing v) (MGoto (Ending ''failed'' out))"
| "moves_to (Diagnosing v) (MEnd (Raise e))"
| "moves_to (Ending s out) (MEnd r)"

inductive_cases moves_toE: "moves_to ph mv"

lemma handle_error_move: "\<exists>ph. failing ph \<and> handle_error cfg rid p e rt = apply_move rid p (MFail ph) rt"
proof -
  let ?ph = "if e = TimeoutError then Ending ''timed_out'' None
        else if e = CancelledError then Ending (if rt_closing rt then ''interrupted'' else ''cancelled'') None
        else if rw_privacy cfg then Diagnosing (rw_error_output cfg e)
        else Ending ''failed'' (Some (rw_error_output cfg e))"
  have "failing ?ph" by (simp add: failing_def ends_badly_def TERMINAL_STATUSES_def)
  then show ?thesis by (intro exI [of _ ?ph]) (simp add: handle_error_def apply_move_def)
qed

text \<open>What it does to the store: only the commit of a run that is not to be cancelled makes it a success.\<close>

definition loud :: "string \<Rightarrow> phase \<Rightarrow> run_view \<Rightarrow> run_view \<Rightarrow> bool" where
  "loud rid ph V V' \<longleftrightarrow> view_le V V' \<and>
     (\<forall>r c. V' r = Some (''success'', c) \<longrightarrow> (\<exists>c'. V r = Some (''success'', c')) \<or> (r = rid \<and> (\<exists>v. ph = Committing v False)))"

abbreviation quiet :: "run_view \<Rightarrow> run_view \<Rightarrow> bool" where
  "quiet \<equiv> loud [] Fresh"

definition commits :: "string \<Rightarrow> move \<Rightarrow> run_view \<Rightarrow> bool" where
  "commits rid mv V \<longleftrightarrow>
     ((mv = MDone \<or> mv = MEnd (Ret ())) \<longrightarrow> (\<exists>st c. V rid = Some (st, c) \<and> st \<in> set TERMINAL_STATUSES))
     \<and> (\<forall>v c st c'. mv = MGoto (Committing v c) \<longrightarrow> V rid = Some (st, c') \<longrightarrow> c' = c)"

lemma loud_refl [simp]: "loud rid ph V V"
  by (auto simp: loud_def)

lemma quiet_loud: "quiet V V' \<Longrightarrow> loud rid ph V V'"
  by (auto simp: loud_def)

lemma quiet_trans: "quiet V V' \<Longrightarrow> quiet V' V'' \<Longrightarrow> quiet V V''"
  unfolding loud_def by (blast intro: view_le_trans)

lemma commits_basic [simp]: "commits rid (MFail ph) V" "commits rid MQueue V" "commits rid (MEnd (Raise e)) V"
  "(\<And>v c. ph \<noteq> Committing v c) \<Longrightarrow> commits rid (MGoto ph) V"
  by (auto simp: commits_def)

lemma store_await_store: "rt_store (snd (store_await m a rt)) = snd (m (rt_store rt))"
  by (simp add: store_await_def on_store_def split: prod.split)

lemma store_await_Ret: "store_await m a rt = (Ret x, rt') \<Longrightarrow> m (rt_store rt) = (Ret x, rt_store rt')"
  by (auto simp: store_await_def on_store_def split: prod.splits answer.splits)

lemma proceed_move:
  assumes scope: "in_deadline ph \<or> ph = Entering"
    and m: "aside rt (snd (m rt))" "loud rid ph (V (rt_store rt)) (V (rt_store (snd (m rt))))"
    and k: "\<And>x rt1. m rt = (Ret x, rt1) \<Longrightarrow> \<exists>mv. k x rt1 = apply_move rid p mv rt1 \<and> moves_to ph mv \<and> commits rid mv (V (rt_store rt1))"
  shows "\<exists>rt1 mv. proceed cfg rid p m k rt = apply_move rid p mv rt1 \<and> aside rt rt1 \<and> moves_to ph mv
    \<and> loud rid ph (V (rt_store rt)) (V (rt_store rt1)) \<and> commits rid mv (V (rt_store rt1))"
proof (cases "m rt")
  case (Pair r rt1)
  show ?thesis
  proof (cases r)
    case (Inl e)
    obtain ph' where "failing ph'" "handle_error cfg rid p e rt1 = apply_move rid p (MFail ph') rt1" using handle_error_move by blast
    with Pair Inl m scope show ?thesis by (intro exI [of _ rt1] exI [of _ "MFail ph'"]) (auto simp: proceed_def intro: moves_to.intros)
  next
    case (Inr x)
    from k [of x rt1] Pair Inr obtain mv where "k x rt1 = apply_move rid p mv rt1" "moves_to ph mv" "commits rid mv (V (rt_store rt1))" by auto
    with Pair Inr m show ?thesis by (intro exI [of _ rt1] exI [of _ mv]) (simp add: proceed_def)
  qed
qed

context run_authority
begin

lemma transition_quiet: "S \<in> stores \<Longrightarrow> st \<noteq> ''success'' \<Longrightarrow> quiet (view s) (view (snd (ra_transition S rid st out s)))"
proof (cases "ra_transition S rid st out s")
  case (Pair r s')
  assume S: "S \<in> stores" and st: "st \<noteq> ''success''"
  show ?thesis
  proof (cases r)
    case (Inl e)
    with transition_raises [OF S, of rid st out s e s'] Pair show ?thesis by simp
  next
    case (Inr x)
    with transition_moves [OF S, of rid st out s x s'] Pair transition_le [OF S, of s rid st out] st show ?thesis
      by (auto simp: loud_def moved_def split: if_splits)
  qed
qed

lemma transition_loud: "S \<in> stores \<Longrightarrow> loud rid (Committing v False) (view s) (view (snd (ra_transition S rid ''success'' out s)))"
proof (cases "ra_transition S rid ''success'' out s")
  case (Pair r s')
  assume S: "S \<in> stores"
  show ?thesis
  proof (cases r)
    case (Inl e)
    with transition_raises [OF S, of rid "''success''" out s e s'] Pair show ?thesis by simp
  next
    case (Inr x)
    with transition_moves [OF S, of rid "''success''" out s x s'] Pair transition_le [OF S, of s rid "''success''" out] show ?thesis
      by (auto simp: loud_def split: if_splits)
  qed
qed

lemma transition_ends: "S \<in> stores \<Longrightarrow> ra_transition S rid st out s = (Ret r, s') \<Longrightarrow> st \<in> set TERMINAL_STATUSES \<Longrightarrow>
    \<exists>st' c. view s' rid = Some (st', c) \<and> st' \<in> set TERMINAL_STATUSES"
  using transition_moves [of S rid st out s r s'] by (auto simp: moved_def)

lemma request_cancel_quiet: "S \<in> stores \<Longrightarrow> quiet (view s) (view (snd (ra_request_cancel S rid s)))"
  using cancel_moves [of S rid s] request_cancel_le [of S s rid] by (auto simp: loud_def split: if_splits)

lemma accept_quiet: "S \<in> stores \<Longrightarrow> quiet (view s) (view (snd (ra_accept S rq cx s)))"
  using accept_adds [of S rq cx s] accept_le [of S s rq cx] by (auto simp: loud_def split: if_splits)

lemma get_run_keeps: "S \<in> stores \<Longrightarrow> snd (get_run cfg S rid cx v s) = s"
  using get_keeps [of S rid s]
  by (cases "ra_get S rid s") (auto simp: get_run_def bind_op_def split: sum.split option.split)

lemma readable_store: "S \<in> stores \<Longrightarrow> rt_store (snd (readable_await cfg S t cx a rt)) = rt_store rt"
proof (cases a)
  case (Decides v)
  assume "S \<in> stores"
  from get_run_keeps [OF this, of cfg t cx v "rt_store rt"] Decides show ?thesis
    by (cases "get_run cfg S t cx v (rt_store rt)") (simp add: readable_await_def on_store_def)
qed (simp_all add: readable_await_def bind_op_def split: sum.split)

lemma cancel_quiet:
  fixes rt :: "('s, 'v) runtime"
  assumes S: "S \<in> stores"
  shows "quiet (view (rt_store rt)) (view (rt_store (snd (cancel_advance cfg S cx t c a rt))))"
proof -
  let ?R = "\<lambda>(rt :: ('s, 'v) runtime) rt'. quiet (view (rt_store rt)) (view (rt_store rt'))"
  have tr: "transp ?R" and re: "reflp ?R" by (auto simp: transp_def reflp_def intro: quiet_trans)
  note intros = moves_bind [OF tr] moves_basic [OF re] moves_option
  have st: "moves ?R (store_await m a)" if "\<And>s. quiet (view s) (view (snd (m s)))" for m :: "('s, 'x) op" and a
    using that by (simp add: moves_def store_await_store)
  have rd: "moves ?R (readable_await cfg S t cx a)" for a by (simp add: moves_def readable_store [OF S])
  have "moves ?R (cancel_advance cfg S cx t c a)"
  proof (cases c)
    case CProbe
    have "moves ?R (\<lambda>rt. bind_op (lift_op (runtime_admission rt)) (\<lambda>_. ret_op (Some CReserveAllow)) rt)"
      by (simp add: moves_def bind_op_def split: sum.split)
    with CProbe show ?thesis by (auto intro!: intros st simp: get_keeps [OF S])
  next
    case CRequest
    have "moves ?R (\<lambda>rt. if task_running t rt then (Ret (Some CWait), cancel_task t rt) else (Ret None, rt))"
      by (simp add: moves_def cancel_task_def set_process_def split: option.split)
    with CRequest show ?thesis by (auto intro!: intros st request_cancel_quiet [OF S])
  next
    case CSettle
    have "moves ?R (\<lambda>rt. (Ret None, rt\<lparr>rt_tasks := removeAll t (rt_tasks rt)\<rparr>))" by (simp add: moves_def)
    with CSettle show ?thesis by (auto intro!: intros st transition_quiet [OF S])
  next
    case CReserve
    then show ?thesis by (auto intro!: intros st simp: reserve_keeps [OF S])
  qed (auto intro!: intros rd)
  then show ?thesis by (simp add: moves_def)
qed

lemma advance_move:
  fixes rt :: "('s, 'v) runtime"
  assumes S: "S \<in> stores" and live: "\<And>r. ph \<noteq> Ended r" and bad: "\<And>st out. ph = Ending st out \<Longrightarrow> ends_badly st"
  shows "\<exists>rt1 mv. advance cfg S rid p ph a rt = apply_move rid p mv rt1 \<and> aside rt rt1 \<and> moves_to ph mv
    \<and> loud rid ph (view (rt_store rt)) (view (rt_store rt1)) \<and> commits rid mv (view (rt_store rt1))"
proof -
  have here: "\<exists>rt1 mv. apply_move rid p m rt = apply_move rid p mv rt1 \<and> aside rt rt1 \<and> moves_to ph mv
    \<and> loud rid ph (view (rt_store rt)) (view (rt_store rt1)) \<and> commits rid mv (view (rt_store rt1))"
    if "moves_to ph m" "commits rid m (view (rt_store rt))" for m
    using that by (intro exI [of _ rt] exI [of _ m]) simp
  have goes: "goto rid p ph' rt1 = apply_move rid p (MGoto ph') rt1" for ph' and rt1 :: "('s, 'v) runtime"
    by (simp add: apply_move_def)
  have queues: "enter_queue rid p rt1 = apply_move rid p MQueue rt1" for rt1 :: "('s, 'v) runtime" by (simp add: apply_move_def)
  have scope: "\<exists>mv. enter_scope rid p rt1 = apply_move rid p mv rt1 \<and> moves_to ph mv \<and> commits rid mv (view (rt_store rt1))"
    if "ph = Fresh \<or> ph = Entering" for rt1 :: "('s, 'v) runtime"
  proof (cases "rq_steer_run_id (pc_request p) = None")
    case True
    with that show ?thesis by (intro exI [of _ MQueue]) (auto simp: enter_scope_def queues intro: moves_to.intros)
  next
    case False
    with that show ?thesis by (intro exI [of _ "MGoto SteerRead"]) (auto simp: enter_scope_def goes intro: moves_to.intros)
  qed
  have fails: "\<exists>mv. handle_error cfg rid p e rt1 = apply_move rid p mv rt1 \<and> moves_to ph mv \<and> commits rid mv (view (rt_store rt1))"
    if "in_deadline ph" for e and rt1 :: "('s, 'v) runtime"
    using handle_error_move [of cfg rid p e rt1] that by (auto intro: moves_to.intros)
  have step: "\<exists>mv. goto rid p ph' rt1 = apply_move rid p mv rt1 \<and> moves_to ph mv \<and> commits rid mv (view (rt_store rt1))"
    if "moves_to ph (MGoto ph')" "\<And>v c. ph' \<noteq> Committing v c" for ph' and rt1 :: "('s, 'v) runtime"
    using that by (intro exI [of _ "MGoto ph'"]) (simp add: goes)
  have finishes: "\<exists>mv. finish_run rid p (Ret ()) (leave_queue rid p rt1) = apply_move rid p mv rt1 \<and> moves_to ph mv \<and> commits rid mv (view (rt_store rt1))"
    if "moves_to ph MDone" "\<exists>st c. view (rt_store rt1) rid = Some (st, c) \<and> st \<in> set TERMINAL_STATUSES" for rt1 :: "('s, 'v) runtime"
    using that by (intro exI [of _ MDone]) (simp add: apply_move_def commits_def)
  have lift: "aside rt (snd (lift_op r rt))" "loud rid ph (view (rt_store rt)) (view (rt_store (snd (lift_op r rt))))" for r :: "'y res"
    by simp_all
  have store: "loud rid ph (view (rt_store rt)) (view (rt_store (snd (store_await m a rt))))"
    if "loud rid ph (view (rt_store rt)) (view (snd (m (rt_store rt))))" for m :: "('s, 'y) op"
    using that by (simp add: store_await_store)
  note proceeds = proceed_move [where V = view and ph = ph]
  show ?thesis
  proof (cases ph)
    case Fresh
    show ?thesis
    proof (cases "a = Cancels")
      case True
      with here [of "MGoto (Ended (Raise CancelledError))"] Fresh show ?thesis by (simp add: apply_move_def moves_to.intros)
    next
      case False
      show ?thesis
      proof (cases "truthy_opt (cx_delegation_id (pc_context p)) \<and> rw_credentials cfg")
        case True
        with here [of "MGoto Entering"] Fresh False show ?thesis by (simp add: goes moves_to.intros)
      next
        case no: False
        obtain mv where mv: "enter_scope rid p rt = apply_move rid p mv rt" "moves_to ph mv" "commits rid mv (view (rt_store rt))"
          using scope [of rt] Fresh by blast
        have "advance cfg S rid p ph a rt = apply_move rid p mv rt" using Fresh False no mv(1) by auto
        with here [OF mv(2,3)] show ?thesis by (simp only:)
      qed
    qed
  next
    case Entering
    show ?thesis unfolding Entering advance.simps
      by (rule proceeds [unfolded Entering]) (use scope Entering in auto)
  next
    case SteerRead
    show ?thesis unfolding SteerRead advance.simps
      by (rule proceeds [unfolded SteerRead])
        (use fails step SteerRead in \<open>auto simp: in_deadline_def moves_to.intros readable_store [OF S] aside_readable\<close>)
  next
    case SteerAllow
    show ?thesis unfolding SteerAllow advance.simps
      by (rule proceeds [unfolded SteerAllow]) (use step SteerAllow in \<open>auto simp: in_deadline_def moves_to.intros\<close>)
  next
    case Announcing
    show ?thesis unfolding Announcing advance.simps
      by (rule proceeds [unfolded Announcing])
        (use step Announcing append_keeps [OF S] in \<open>auto simp: in_deadline_def moves_to.intros aside_store_await store_await_store\<close>)
  next
    case (Stopping c)
    show ?thesis unfolding Stopping advance.simps
    proof (rule proceeds [unfolded Stopping])
      show "aside rt (snd (cancel_advance cfg S (pc_context p) (steering_of p) c a rt))"
        by (rule movesD [OF aside_cancel surjective_pairing])
      show "loud rid (Stopping c) (view (rt_store rt)) (view (rt_store (snd (cancel_advance cfg S (pc_context p) (steering_of p) c a rt))))"
        by (rule quiet_loud [OF cancel_quiet [OF S]])
      fix nxt rt1 assume "cancel_advance cfg S (pc_context p) (steering_of p) c a rt = (Ret nxt, rt1)"
      then show "\<exists>mv. (case nxt of None \<Rightarrow> enter_queue rid p | Some c' \<Rightarrow> goto rid p (Stopping c')) rt1 = apply_move rid p mv rt1
          \<and> moves_to (Stopping c) mv \<and> commits rid mv (view (rt_store rt1))"
      proof (cases nxt)
        case None
        then show ?thesis by (intro exI [of _ MQueue]) (auto simp: queues intro: moves_to.intros)
      next
        case (Some c')
        assume "cancel_advance cfg S (pc_context p) (steering_of p) c a rt = (Ret nxt, rt1)"
        with Some cancel_advance_rank have "cancel_rank c' < cancel_rank c" by blast
        with Some show ?thesis by (intro exI [of _ "MGoto (Stopping c')"]) (auto simp: goes intro: moves_to.intros)
      qed
    qed (simp add: in_deadline_def)
  next
    case Queued
    show ?thesis unfolding Queued advance.simps
      by (rule proceeds [unfolded Queued]) (use step Queued in \<open>auto simp: in_deadline_def moves_to.intros\<close>)
  next
    case Admitting
    show ?thesis unfolding Admitting advance.simps
      by (rule proceeds [unfolded Admitting]) (use step Admitting in \<open>auto simp: in_deadline_def moves_to.intros\<close>)
  next
    case Checking
    show ?thesis unfolding Checking advance.simps
      by (rule proceeds [unfolded Checking])
        (use step fails Checking get_keeps [OF S] in \<open>auto simp: in_deadline_def moves_to.intros aside_store_await store_await_store split: option.split\<close>)
  next
    case Withdrawing
    show ?thesis unfolding Withdrawing advance.simps
    proof (rule proceeds [unfolded Withdrawing])
      fix x rt1 assume "store_await (ra_transition S rid ''cancelled'' None) a rt = (Ret x, rt1)"
      from transition_ends [OF S store_await_Ret [OF this]]
      show "\<exists>mv. finish_run rid p (Ret ()) (leave_queue rid p rt1) = apply_move rid p mv rt1 \<and> moves_to Withdrawing mv \<and> commits rid mv (view (rt_store rt1))"
        using finishes Withdrawing by (simp add: moves_to.intros TERMINAL_STATUSES_def)
    qed (use quiet_loud [OF transition_quiet [OF S]] in \<open>auto simp: in_deadline_def aside_store_await store_await_store\<close>)
  next
    case Starting
    show ?thesis unfolding Starting advance.simps
      by (rule proceeds [unfolded Starting])
        (use step Starting quiet_loud [OF transition_quiet [OF S]] in \<open>auto simp: in_deadline_def moves_to.intros aside_store_await store_await_store\<close>)
  next
    case Screening
    show ?thesis unfolding Screening advance.simps
      by (rule proceeds [unfolded Screening]) (use step Screening in \<open>auto simp: in_deadline_def moves_to.intros\<close>)
  next
    case Executing
    have rest: "\<exists>rt1 mv. proceed cfg rid p (lift_op (host_await a)) (\<lambda>_. goto rid p (Publishing JNull)) rt = apply_move rid p mv rt1
      \<and> aside rt rt1 \<and> moves_to Executing mv \<and> loud rid Executing (view (rt_store rt)) (view (rt_store rt1)) \<and> commits rid mv (view (rt_store rt1))"
      by (rule proceeds [unfolded Executing]) (use step Executing in \<open>auto simp: in_deadline_def moves_to.intros\<close>)
    show ?thesis
    proof (cases "\<exists>v. a = Gives v")
      case True
      with here [of "MGoto (Publishing _)"] Executing show ?thesis by (auto simp: apply_move_def moves_to.intros)
    next
      case False
      with rest Executing show ?thesis by (cases a) auto
    qed
  next
    case (Publishing v)
    show ?thesis unfolding Publishing advance.simps
      by (rule proceeds [unfolded Publishing]) (use step Publishing in \<open>auto simp: in_deadline_def moves_to.intros\<close>)
  next
    case (Confirming v)
    show ?thesis unfolding Confirming advance.simps
    proof (rule proceeds [unfolded Confirming])
      fix found rt1 assume g: "store_await (ra_get S rid) a rt = (Ret found, rt1)"
      show "\<exists>mv. (case found of None \<Rightarrow> handle_error cfg rid p AttributeError | Some r \<Rightarrow> goto rid p (Committing v (rr_cancel_requested r))) rt1
          = apply_move rid p mv rt1 \<and> moves_to (Confirming v) mv \<and> commits rid mv (view (rt_store rt1))"
      proof (cases found)
        case (Some r)
        have "view (rt_store rt1) rid = Some (st, c) \<Longrightarrow> rr_cancel_requested r = c" for st c
          using get_reads [OF S store_await_Ret [OF g, unfolded Some]] get_keeps [OF S, of rid "rt_store rt"] store_await_Ret [OF g] by auto
        then show ?thesis
          by (intro exI [of _ "MGoto (Committing v (rr_cancel_requested r))"]) (auto simp: Some goes commits_def intro: moves_to.intros)
      qed (use fails Confirming in \<open>simp add: in_deadline_def\<close>)
    qed (use get_keeps [OF S] in \<open>auto simp: in_deadline_def aside_store_await store_await_store\<close>)
  next
    case (Committing v c)
    show ?thesis unfolding Committing advance.simps
    proof (rule proceeds [unfolded Committing])
      fix x rt1 assume "store_await (ra_transition S rid (if c then ''cancelled'' else ''success'') (if c then None else Some v)) a rt = (Ret x, rt1)"
      from transition_ends [OF S store_await_Ret [OF this]]
      show "\<exists>mv. finish_run rid p (Ret ()) (leave_queue rid p rt1) = apply_move rid p mv rt1 \<and> moves_to (Committing v c) mv \<and> commits rid mv (view (rt_store rt1))"
        using finishes Committing by (simp add: moves_to.intros TERMINAL_STATUSES_def)
    next
      show "loud rid (Committing v c) (view (rt_store rt))
        (view (rt_store (snd (store_await (ra_transition S rid (if c then ''cancelled'' else ''success'') (if c then None else Some v)) a rt))))"
        using quiet_loud [OF transition_quiet [OF S]] transition_loud [OF S] by (cases c) (simp_all add: store_await_store)
    qed (auto simp: in_deadline_def aside_store_await)
  next
    case (Diagnosing v)
    have "\<exists>mv. advance cfg S rid p (Diagnosing v) a rt = apply_move rid p mv rt \<and> moves_to (Diagnosing v) mv \<and> commits rid mv (view (rt_store rt))"
    proof (cases "host_await a")
      case (Inl e)
      show ?thesis
      proof (cases "e = PrivacyFence")
        case True
        with Inl show ?thesis by (intro exI [of _ "MGoto (Ending ''failed'' None)"]) (auto simp: goes intro: moves_to.intros)
      next
        case False
        with Inl show ?thesis by (intro exI [of _ "MEnd (Raise e)"]) (auto simp: apply_move_def intro: moves_to.intros)
      qed
    next
      case (Inr u)
      then show ?thesis by (auto simp: goes intro!: exI [of _ "MGoto (Ending ''failed'' (Some v))"] moves_to.intros)
    qed
    then show ?thesis using Diagnosing by (intro exI [of _ rt]) simp
  next
    case (Ending st out)
    from bad [OF Ending] have st: "st \<in> set TERMINAL_STATUSES" "st \<noteq> ''success''" by (simp_all add: ends_badly_def)
    obtain r rt1 where t: "store_await (ra_transition S rid st out) a rt = (r, rt1)" by fastforce
    have rt1: "aside rt rt1" "loud rid ph (view (rt_store rt)) (view (rt_store rt1))"
      using aside_store_await [of rt "ra_transition S rid st out" a] quiet_loud [OF transition_quiet [OF S st(2)], of rid ph "rt_store rt" rid out]
        store_await_store [of "ra_transition S rid st out" a rt] by (simp_all add: t)
    show ?thesis
    proof (cases r)
      case (Inl e)
      with t rt1 Ending show ?thesis
        by (intro exI [of _ rt1] exI [of _ "MEnd (Raise e)"]) (auto simp: apply_move_def intro: moves_to.intros)
    next
      case (Inr x)
      with transition_ends [OF S store_await_Ret [OF t [unfolded Inr]] st(1)] t rt1 Ending show ?thesis
        by (intro exI [of _ rt1] exI [of _ "MEnd (Ret ())"]) (auto simp: apply_move_def commits_def intro: moves_to.intros)
    qed
  qed (use live in simp)
qed

end

end
