(* ===== verification/RuntimeReach.thy ===== *)
theory RuntimeReach
  imports RuntimeRunLaws
begin

text \<open>
  The invariants of every reachable runtime: leases count the runs bound to a graph, each session
  lock is a queue whose head alone goes on, live tasks are bound to their graph, and a task that
  returned has settled its run.
\<close>

section \<open>Invariants\<close>

definition locked :: "phase \<Rightarrow> bool" where
  "locked ph \<longleftrightarrow> (case ph of Queued \<Rightarrow> True | Admitting \<Rightarrow> True | Checking \<Rightarrow> True | Withdrawing \<Rightarrow> True | Starting \<Rightarrow> True
     | Screening \<Rightarrow> True | Executing \<Rightarrow> True | Publishing _ \<Rightarrow> True | Confirming _ \<Rightarrow> True | Committing _ _ \<Rightarrow> True | _ \<Rightarrow> False)"

text \<open>The session lock is held.\<close>

definition holding :: "phase \<Rightarrow> bool" where
  "holding ph \<longleftrightarrow> locked ph \<and> ph \<noteq> Queued"

type_synonym processes = "string \<Rightarrow> process option"
type_synonym queues = "string \<times> string \<Rightarrow> string list"

definition queue_inv :: "processes \<Rightarrow> queues \<Rightarrow> bool" where
  "queue_inv P Q \<longleftrightarrow> (\<forall>key. distinct (Q key))
     \<and> (\<forall>key rid. rid \<in> set (Q key) \<longleftrightarrow> (\<exists>p. P rid = Some p \<and> session_key p = key \<and> locked (pc_phase p)))
     \<and> (\<forall>rid p. P rid = Some p \<longrightarrow> holding (pc_phase p) \<longrightarrow> hd (Q (session_key p)) = rid)"

definition task_inv :: "processes \<Rightarrow> (string \<times> nat) list \<Rightarrow> bool" where
  "task_inv P G \<longleftrightarrow> (\<forall>rid p. P rid = Some p \<longrightarrow> \<not> process_ended p \<longrightarrow> map_of G rid = Some (pc_graph p))
     \<and> (\<forall>rid p st out. P rid = Some p \<longrightarrow> pc_phase p = Ending st out \<longrightarrow> ends_badly st)"

definition lease_inv :: "(string \<times> nat) list \<Rightarrow> 'v active_graph list \<Rightarrow> bool" where
  "lease_inv G H \<longleftrightarrow> distinct (map fst G) \<and> (\<forall>x \<in> set G. snd x < length H)
     \<and> (\<forall>n < length H. ag_leases (H ! n) = count_list (map snd G) n \<and> (ag_drained (H ! n) \<longleftrightarrow> ag_leases (H ! n) = 0))"

text \<open>The active graph and the candidates are not retired.\<close>

definition graph_inv :: "nat option \<Rightarrow> (nat \<times> int \<times> bool) list \<Rightarrow> 'v active_graph list \<Rightarrow> bool" where
  "graph_inv A C H \<longleftrightarrow> distinct ((case A of None \<Rightarrow> [] | Some n \<Rightarrow> [n]) @ map fst C)
     \<and> (\<forall>n \<in> set ((case A of None \<Rightarrow> [] | Some n \<Rightarrow> [n]) @ map fst C). n < length H \<and> \<not> ag_draining (H ! n))"

text \<open>Every run the runtime knows is in the store; the one being admitted has no task yet.\<close>

definition known_inv :: "processes \<Rightarrow> (string \<times> nat) list \<Rightarrow> (run_request \<times> execution_context) option \<Rightarrow> run_view \<Rightarrow> bool" where
  "known_inv P G adm V \<longleftrightarrow> (\<forall>rid. P rid \<noteq> None \<or> rid \<in> fst ` set G \<longrightarrow> V rid \<noteq> None)
     \<and> (\<forall>rq cx. adm = Some (rq, cx) \<longrightarrow> P (rq_run_id rq) = None \<and> rq_run_id rq \<in> fst ` set G)"

definition settled_inv :: "processes \<Rightarrow> run_view \<Rightarrow> bool" where
  "settled_inv P V \<longleftrightarrow> (\<forall>rid p. P rid = Some p \<longrightarrow> pc_phase p = Ended (Ret ()) \<longrightarrow> (\<exists>st c. V rid = Some (st, c) \<and> st \<in> set TERMINAL_STATUSES))"

lemma queue_invD:
  assumes "queue_inv P Q"
  shows "distinct (Q key)"
    and "rid \<in> set (Q key) \<longleftrightarrow> (\<exists>p. P rid = Some p \<and> session_key p = key \<and> locked (pc_phase p))"
    and "P rid = Some p \<Longrightarrow> holding (pc_phase p) \<Longrightarrow> hd (Q (session_key p)) = rid"
  using assms unfolding queue_inv_def by blast+

lemma queue_invI:
  assumes "\<And>key. distinct (Q key)"
    and "\<And>key rid. rid \<in> set (Q key) \<longleftrightarrow> (\<exists>p. P rid = Some p \<and> session_key p = key \<and> locked (pc_phase p))"
    and "\<And>rid p. P rid = Some p \<Longrightarrow> holding (pc_phase p) \<Longrightarrow> hd (Q (session_key p)) = rid"
  shows "queue_inv P Q"
  using assms unfolding queue_inv_def by blast

section \<open>They do not see pending cancellations\<close>

definition same_processes :: "processes \<Rightarrow> processes \<Rightarrow> bool" where
  "same_processes P P' \<longleftrightarrow> (\<forall>r. map_option (pc_pending_update (\<lambda>_. False)) (P' r) = map_option (pc_pending_update (\<lambda>_. False)) (P r))"

lemma same_refl [simp]: "same_processes P P"
  by (simp add: same_processes_def)

lemma same_trans: "same_processes P P' \<Longrightarrow> same_processes P' P'' \<Longrightarrow> same_processes P P''"
  by (simp add: same_processes_def)

lemma same_sym: "same_processes P P' \<Longrightarrow> same_processes P' P"
  by (simp add: same_processes_def)

lemma process_fields [simp]:
  "session_key (p\<lparr>pc_pending := b\<rparr>) = session_key p" "session_key (p\<lparr>pc_phase := ph\<rparr>) = session_key p"
  "process_ended (p\<lparr>pc_phase := ph\<rparr>) \<longleftrightarrow> (\<exists>r. ph = Ended r)"
  by (auto simp: session_key_def process_ended_def split: phase.split)

lemma same_process:
  assumes "same_processes P P'" "P' r = Some p'"
  obtains p where "P r = Some p" "pc_phase p' = pc_phase p" "pc_graph p' = pc_graph p" "session_key p' = session_key p"
    "process_ended p' = process_ended p" "steering_of p' = steering_of p"
proof -
  have "map_option (pc_pending_update (\<lambda>_. False)) (P' r) = map_option (pc_pending_update (\<lambda>_. False)) (P r)"
    using assms(1) by (simp add: same_processes_def)
  with assms(2) obtain p where p: "P r = Some p" "p'\<lparr>pc_pending := False\<rparr> = p\<lparr>pc_pending := False\<rparr>" by (cases "P r") auto
  from p(2) have "pc_phase p' = pc_phase p" "pc_graph p' = pc_graph p" "pc_context p' = pc_context p" "pc_request p' = pc_request p"
    by (metis process.select_convs(1-6) process.surjective process.update_convs(6))+
  with p(1) that show thesis by (simp add: session_key_def process_ended_def steering_of_def)
qed

lemma same_None: "same_processes P P' \<Longrightarrow> P' r = None \<longleftrightarrow> P r = None"
  by (metis same_processes_def map_option_is_None)

lemma same_aside: "aside rt rt1 \<Longrightarrow> same_processes (rt_processes rt) (rt_processes rt1)"
  unfolding same_processes_def
proof
  fix r assume "aside rt rt1"
  then have "rt_processes rt1 r = rt_processes rt r \<or> (\<exists>q. rt_processes rt r = Some q \<and> rt_processes rt1 r = Some (q\<lparr>pc_pending := True\<rparr>))"
    by (auto simp: aside_def)
  then show "map_option (pc_pending_update (\<lambda>_. False)) (rt_processes rt1 r) = map_option (pc_pending_update (\<lambda>_. False)) (rt_processes rt r)"
    by auto
qed

lemma queue_inv_same:
  assumes "queue_inv P Q" "same_processes P P'" shows "queue_inv P' Q"
proof -
  have iff: "(\<exists>p. P' rid = Some p \<and> session_key p = key \<and> locked (pc_phase p)) \<longleftrightarrow> (\<exists>p. P rid = Some p \<and> session_key p = key \<and> locked (pc_phase p))" for rid key
    by (metis same_process [OF assms(2)] same_process [OF same_sym [OF assms(2)]])
  have "hd (Q (session_key p)) = rid" if p: "P' rid = Some p" "holding (pc_phase p)" for rid p
    by (rule same_process [OF assms(2) p(1)]) (use assms(1) p(2) in \<open>auto simp: queue_inv_def\<close>)
  with assms(1) iff show ?thesis unfolding queue_inv_def by auto
qed

lemma task_inv_same:
  assumes "task_inv P G" "same_processes P P'" shows "task_inv P' G"
  unfolding task_inv_def
proof (intro conjI allI impI)
  fix rid p assume p: "P' rid = Some p" "\<not> process_ended p"
  show "map_of G rid = Some (pc_graph p)"
    by (rule same_process [OF assms(2) p(1)]) (use assms(1) p(2) in \<open>auto simp: task_inv_def\<close>)
next
  fix rid p st out assume p: "P' rid = Some p" "pc_phase p = Ending st out"
  have bad: "ends_badly st" if "P rid = Some q" "pc_phase q = Ending st out" for q
    using assms(1) that unfolding task_inv_def by blast
  show "ends_badly st"
    by (rule same_process [OF assms(2) p(1)], rule bad) (simp_all add: p(2) [symmetric])
qed

lemma known_inv_same:
  assumes "known_inv P G adm V" "same_processes P P'" "view_le V V'" shows "known_inv P' G adm V'"
proof -
  have "P' rid = None \<longleftrightarrow> P rid = None" for rid by (rule same_None [OF assms(2)])
  moreover have "V' rid \<noteq> None" if "V rid \<noteq> None" for rid using that assms(3) by (force simp: view_le_def)
  ultimately show ?thesis using assms(1) by (auto simp: known_inv_def)
qed

lemma settled_inv_same:
  assumes "settled_inv P V" "same_processes P P'" "view_le V V'" shows "settled_inv P' V'"
  unfolding settled_inv_def
proof (intro allI impI)
  fix rid p assume p: "P' rid = Some p" "pc_phase p = Ended (Ret ())"
  have final: "\<exists>st c. V rid = Some (st, c) \<and> st \<in> set TERMINAL_STATUSES" if "P rid = Some q" "pc_phase q = Ended (Ret ())" for q
    using assms(1) that unfolding settled_inv_def by blast
  have "\<exists>st c. V rid = Some (st, c) \<and> st \<in> set TERMINAL_STATUSES"
    by (rule same_process [OF assms(2) p(1)], rule final) (simp_all add: p(2) [symmetric])
  with assms(3) show "\<exists>st c. V' rid = Some (st, c) \<and> st \<in> set TERMINAL_STATUSES" unfolding view_le_def by blast
qed

section \<open>Moves of a process\<close>

lemma moves_to_goto:
  assumes "moves_to ph (MGoto ph')"
  shows "(locked ph' \<longleftrightarrow> locked ph) \<and> (holding ph' \<longrightarrow> holding ph \<or> ph = Queued \<and> ph' = Admitting)
    \<and> (\<forall>r. ph' = Ended r \<longrightarrow> ph = Fresh \<and> r = Raise CancelledError) \<and> (\<forall>st out. ph' = Ending st out \<longrightarrow> ends_badly st)"
  using assms by (cases rule: moves_to.cases) (auto simp: locked_def holding_def ends_badly_def TERMINAL_STATUSES_def)

lemma moves_to_queue: "moves_to ph MQueue \<Longrightarrow> \<not> locked ph"
  by (cases rule: moves_to.cases) (auto simp: locked_def)

lemma moves_to_fail: "moves_to ph (MFail ph') \<Longrightarrow> failing ph'"
  by (cases rule: moves_to.cases) auto

lemma moves_to_end: "moves_to ph (MEnd r) \<Longrightarrow> \<not> locked ph"
  by (cases rule: moves_to.cases) (auto simp: locked_def)

lemma failing_free: "failing ph \<Longrightarrow> \<not> locked ph \<and> (\<forall>r. ph \<noteq> Ended r) \<and> (\<forall>st out. ph = Ending st out \<longrightarrow> ends_badly st)"
  by (auto simp: failing_def locked_def split: phase.splits)

lemma queue_goto:
  assumes inv: "queue_inv P Q" and p: "P rid = Some p0" "session_key p = session_key p0"
    and same: "locked (pc_phase p) \<longleftrightarrow> locked (pc_phase p0)"
    and hold: "holding (pc_phase p) \<Longrightarrow> holding (pc_phase p0) \<or> hd (Q (session_key p)) = rid"
  shows "queue_inv (P(rid := Some p)) Q"
proof (rule queue_invI)
  fix key r
  show "r \<in> set (Q key) \<longleftrightarrow> (\<exists>q. (P(rid := Some p)) r = Some q \<and> session_key q = key \<and> locked (pc_phase q))"
    using queue_invD(2) [OF inv, of r key] p same by (cases "r = rid") auto
next
  fix r q assume q: "(P(rid := Some p)) r = Some q" "holding (pc_phase q)"
  show "hd (Q (session_key q)) = r"
  proof (cases "r = rid")
    case True
    with q have "q = p" by simp
    from hold [OF q(2) [unfolded this]] show ?thesis
    proof
      assume "holding (pc_phase p0)"
      from queue_invD(3) [OF inv p(1) this] show ?thesis by (simp only: \<open>q = p\<close> p(2) True)
    qed (simp only: \<open>q = p\<close> True)
  next
    case False
    with q have "P r = Some q" by simp
    from queue_invD(3) [OF inv this q(2)] show ?thesis .
  qed
qed (rule queue_invD(1) [OF inv])

lemma queue_enter:
  assumes inv: "queue_inv P Q" and p: "P rid = Some p0" "session_key p = session_key p0"
    and free: "\<not> locked (pc_phase p0)" and ph: "pc_phase p = Queued"
  shows "queue_inv (P(rid := Some p)) (Q(session_key p := Q (session_key p) @ [rid]))"
proof (rule queue_invI)
  have new: "rid \<notin> set (Q key)" for key using queue_invD(2) [OF inv, of rid key] p free by auto
  fix key show "distinct ((Q(session_key p := Q (session_key p) @ [rid])) key)"
    using queue_invD(1) [OF inv] new by simp
  fix r
  show "r \<in> set ((Q(session_key p := Q (session_key p) @ [rid])) key) \<longleftrightarrow>
      (\<exists>q. (P(rid := Some p)) r = Some q \<and> session_key q = key \<and> locked (pc_phase q))"
    using queue_invD(2) [OF inv, of r key] p ph new by (cases "r = rid") (auto simp: locked_def)
next
  fix r q assume q: "(P(rid := Some p)) r = Some q" "holding (pc_phase q)"
  with ph have ne: "r \<noteq> rid" by (auto simp: holding_def)
  with q have "P r = Some q" by simp
  with q(2) queue_invD(2,3) [OF inv] have "hd (Q (session_key q)) = r" "r \<in> set (Q (session_key q))" by (auto simp: holding_def)
  then show "hd ((Q(session_key p := Q (session_key p) @ [rid])) (session_key q)) = r"
    by (cases "Q (session_key q)") auto
qed

lemma queue_leave:
  assumes inv: "queue_inv P Q" and p: "P rid = Some p0" "session_key p = session_key p0" and free: "\<not> locked (pc_phase p)"
  shows "queue_inv (P(rid := Some p)) (Q(session_key p := removeAll rid (Q (session_key p))))"
proof (rule queue_invI)
  fix key show "distinct ((Q(session_key p := removeAll rid (Q (session_key p)))) key)"
    using queue_invD(1) [OF inv] by (simp add: distinct_removeAll)
  fix r
  show "r \<in> set ((Q(session_key p := removeAll rid (Q (session_key p)))) key) \<longleftrightarrow>
      (\<exists>q. (P(rid := Some p)) r = Some q \<and> session_key q = key \<and> locked (pc_phase q))"
    using queue_invD(2) [OF inv, of r key] p free by (cases "r = rid") auto
next
  fix r q assume q: "(P(rid := Some p)) r = Some q" "holding (pc_phase q)"
  with free have ne: "r \<noteq> rid" by (auto simp: holding_def)
  with q have "P r = Some q" by simp
  with q(2) queue_invD(3) [OF inv] have "hd (Q (session_key q)) = r" by simp
  with ne show "hd ((Q(session_key p := removeAll rid (Q (session_key p)))) (session_key q)) = r"
    by (cases "Q (session_key q)") auto
qed

section \<open>Leases\<close>

lemma count_delete:
  "distinct (map fst G) \<Longrightarrow> count_list (map snd (AList.delete rid G)) n =
    count_list (map snd G) n - (if map_of G rid = Some n then 1 else 0)"
proof (induction G)
  case (Cons x G)
  obtain r m where x: "x = (r, m)" by fastforce
  have "map_of G r = None" using Cons.prems by (auto simp: x map_of_eq_None_iff)
  moreover have "count_list (map snd G) n \<noteq> 0" if "map_of G rid = Some n"
    using imageI [OF map_of_SomeD [OF that], of snd] by (simp add: count_list_0_iff)
  ultimately show ?case using Cons by (auto simp: x)
qed simp

lemma count_update:
  "map_of G rid = None \<Longrightarrow> count_list (map snd (AList.update rid m G)) n = count_list (map snd G) n + (if m = n then 1 else 0)"
proof (induction G)
  case (Cons x G)
  then show ?case by (cases x) (auto split: if_splits)
qed simp

lemma lease_invI:
  assumes "distinct (map fst G)" "\<And>x. x \<in> set G \<Longrightarrow> snd x < length H"
    and "\<And>n. n < length H \<Longrightarrow> ag_leases (H ! n) = count_list (map snd G) n \<and> (ag_drained (H ! n) \<longleftrightarrow> ag_leases (H ! n) = 0)"
  shows "lease_inv G H"
  using assms unfolding lease_inv_def by blast

lemma lease_invD:
  assumes "lease_inv G H"
  shows "distinct (map fst G)" and "x \<in> set G \<Longrightarrow> snd x < length H"
    and "n < length H \<Longrightarrow> ag_leases (H ! n) = count_list (map snd G) n"
    and "n < length H \<Longrightarrow> ag_drained (H ! n) \<longleftrightarrow> ag_leases (H ! n) = 0"
  using assms unfolding lease_inv_def by blast+

lemma lease_release:
  assumes inv: "lease_inv G H" and b: "map_of G rid = Some n"
  shows "lease_inv (AList.delete rid G) (H[n := graph_release (H ! n)])"
proof -
  have d: "distinct (map fst G)" and n: "n < length H" using inv map_of_SomeD [OF b] by (auto simp: lease_inv_def)
  have "(rid, n) \<in> set G" using map_of_SomeD [OF b] .
  from imageI [OF this, of snd] have "count_list (map snd G) n \<noteq> 0" by (simp add: count_list_0_iff)
  with inv n have l: "ag_leases (H ! n) = count_list (map snd G) n" "ag_leases (H ! n) \<noteq> 0" "\<not> ag_drained (H ! n)"
    by (auto simp: lease_inv_def)
  have "ag_leases (graph_release (H ! n)) = count_list (map snd (AList.delete rid G)) n"
    "ag_drained (graph_release (H ! n)) \<longleftrightarrow> ag_leases (graph_release (H ! n)) = 0"
    using l b by (auto simp: graph_release_def count_delete [OF d])
  then have here: "ag_leases (graph_release (H ! n)) = count_list (map snd (AList.delete rid G)) n
      \<and> (ag_drained (graph_release (H ! n)) \<longleftrightarrow> ag_leases (graph_release (H ! n)) = 0)" by simp
  have other: "count_list (map snd (AList.delete rid G)) m = count_list (map snd G) m" if "m \<noteq> n" for m
    using that b by (simp add: count_delete [OF d])
  show ?thesis
  proof (rule lease_invI)
    fix m assume m: "m < length (H[n := graph_release (H ! n)])"
    show "ag_leases (H[n := graph_release (H ! n)] ! m) = count_list (map snd (AList.delete rid G)) m
      \<and> (ag_drained (H[n := graph_release (H ! n)] ! m) \<longleftrightarrow> ag_leases (H[n := graph_release (H ! n)] ! m) = 0)"
      using here other [of m] lease_invD(3,4) [OF inv, of m] m n by (cases "m = n") simp_all
  qed (use d pd.distinct_drop lease_invD(2) [OF inv] in \<open>auto simp: set_delete\<close>)
qed

lemma lease_acquire:
  assumes inv: "lease_inv G H" and new: "map_of G rid = None" and n: "n < length H"
    and acq: "graph_acquire (H ! n) = (Ret (), g)"
  shows "lease_inv (AList.update rid n G) (H[n := g])"
proof -
  have g: "ag_leases g = Suc (ag_leases (H ! n))" "\<not> ag_drained g"
    using acq by (auto simp: graph_acquire_def split: if_splits)
  show ?thesis
  proof (rule lease_invI)
    show "distinct (map fst (AList.update rid n G))" using inv by (simp add: lease_inv_def distinct_update)
  next
    fix x assume "x \<in> set (AList.update rid n G)"
    then show "snd x < length (H[n := g])"
      using lease_invD(2) [OF inv, of x] n set_update_distinct [OF lease_invD(1) [OF inv], of rid n] by auto
  next
    fix m assume "m < length (H[n := g])"
    then show "ag_leases (H[n := g] ! m) = count_list (map snd (AList.update rid n G)) m
      \<and> (ag_drained (H[n := g] ! m) \<longleftrightarrow> ag_leases (H[n := g] ! m) = 0)"
      using lease_invD(3,4) [OF inv, of m] g n by (cases "m = n") (simp_all add: count_update [OF new])
  qed
qed

section \<open>One invariant of the runtime\<close>

definition runtime_inv :: "run_view \<Rightarrow> ('s, 'v) runtime \<Rightarrow> bool" where
  "runtime_inv V rt \<longleftrightarrow> queue_inv (rt_processes rt) (rt_queues rt) \<and> task_inv (rt_processes rt) (rt_run_graphs rt)
     \<and> lease_inv (rt_run_graphs rt) (rt_heap rt) \<and> graph_inv (rt_active rt) (rt_candidates rt) (rt_heap rt)
     \<and> known_inv (rt_processes rt) (rt_run_graphs rt) (rt_admission rt) V \<and> settled_inv (rt_processes rt) V"

lemma aside_fields:
  assumes "aside rt rt1"
  shows "rt_queues rt1 = rt_queues rt" "rt_run_graphs rt1 = rt_run_graphs rt" "rt_heap rt1 = rt_heap rt"
    "rt_active rt1 = rt_active rt" "rt_candidates rt1 = rt_candidates rt" "rt_admission rt1 = rt_admission rt"
    "rt_cancels rt1 = rt_cancels rt" "rt_drains rt1 = rt_drains rt" "rt_retired rt1 = rt_retired rt"
    "rt_run_revisions rt1 = rt_run_revisions rt" "rt_host rt1 = rt_host rt" "rt_closing rt1 = rt_closing rt"
  using assms by (auto simp: aside_def)

lemma runtime_inv_same:
  assumes "runtime_inv V rt" "same_processes (rt_processes rt) (rt_processes rt1)" "view_le V V'"
    "rt_queues rt1 = rt_queues rt" "rt_run_graphs rt1 = rt_run_graphs rt" "rt_heap rt1 = rt_heap rt"
    "rt_active rt1 = rt_active rt" "rt_candidates rt1 = rt_candidates rt" "rt_admission rt1 = rt_admission rt"
  shows "runtime_inv V' rt1"
  using assms(1) queue_inv_same [OF _ assms(2)] task_inv_same [OF _ assms(2)] known_inv_same [OF _ assms(2,3)]
    settled_inv_same [OF _ assms(2,3)]
  unfolding runtime_inv_def assms(4-9) by blast

lemma runtime_inv_aside:
  assumes "runtime_inv V rt" "aside rt rt1" "view_le V V'" shows "runtime_inv V' rt1"
  by (rule runtime_inv_same [OF assms(1) same_aside [OF assms(2)] assms(3)]) (rule aside_fields [OF assms(2)])+

lemma graph_inv_release: "graph_inv A C H \<Longrightarrow> graph_inv A C (H[n := graph_release (H ! n)])"
proof -
  have "ag_draining (H[n := graph_release (H ! n)] ! m) = ag_draining (H ! m)" if "m < length H" for m
    using that by (cases "m = n") (simp_all add: graph_release_def)
  then show "graph_inv A C H \<Longrightarrow> ?thesis" by (simp add: graph_inv_def)
qed

lemma task_inv_upd:
  assumes "task_inv P G" "\<not> process_ended p \<Longrightarrow> map_of G rid = Some (pc_graph p)" "\<And>st out. pc_phase p = Ending st out \<Longrightarrow> ends_badly st"
  shows "task_inv (P(rid := Some p)) G"
  unfolding task_inv_def
proof (intro conjI allI impI)
  fix r q assume "(P(rid := Some p)) r = Some q" "\<not> process_ended q"
  with assms(1,2) show "map_of G r = Some (pc_graph q)" by (auto simp: task_inv_def split: if_splits)
next
  fix r q st out assume "(P(rid := Some p)) r = Some q" "pc_phase q = Ending st out"
  with assms(1,3) show "ends_badly st" by (auto simp: task_inv_def split: if_splits)
qed

lemma task_inv_end:
  assumes "task_inv P G" shows "task_inv (P(rid := Some (p\<lparr>pc_phase := Ended r\<rparr>))) (AList.delete rid G)"
  using assms by (simp add: task_inv_def pd.lookup_drop)

lemma known_inv_upd:
  assumes "known_inv P G adm V" "P rid \<noteq> None" "set G' \<subseteq> set G" "\<And>x. x \<in> set G \<Longrightarrow> fst x \<noteq> rid \<Longrightarrow> x \<in> set G'"
  shows "known_inv (P(rid := Some p)) G' adm V"
proof -
  have "rq_run_id rq \<in> fst ` set G' \<and> rq_run_id rq \<noteq> rid" if "adm = Some (rq, cx)" for rq cx
  proof -
    from assms(1) that have "P (rq_run_id rq) = None" "rq_run_id rq \<in> fst ` set G" by (auto simp: known_inv_def)
    then obtain x where x: "x \<in> set G" "fst x = rq_run_id rq" by (auto simp: image_iff)
    moreover have "rq_run_id rq \<noteq> rid" using \<open>P (rq_run_id rq) = None\<close> assms(2) by auto
    ultimately have "x \<in> set G'" using assms(4) [of x] by simp
    with x \<open>rq_run_id rq \<noteq> rid\<close> show ?thesis by (metis imageI)
  qed
  moreover have "V r \<noteq> None" if "(P(rid := Some p)) r \<noteq> None \<or> r \<in> fst ` set G'" for r
  proof -
    from that assms(2,3) have "P r \<noteq> None \<or> r \<in> fst ` set G" by (auto split: if_splits)
    with assms(1) show ?thesis unfolding known_inv_def by blast
  qed
  moreover have "P (rq_run_id rq) = None" if "adm = Some (rq, cx)" for rq cx using assms(1) that by (auto simp: known_inv_def)
  ultimately show ?thesis unfolding known_inv_def by simp
qed

lemma settled_inv_upd:
  assumes "settled_inv P V" "pc_phase p = Ended (Ret ()) \<Longrightarrow> \<exists>st c. V rid = Some (st, c) \<and> st \<in> set TERMINAL_STATUSES"
  shows "settled_inv (P(rid := Some p)) V"
  using assms by (simp add: settled_inv_def)

text \<open>A move of one process.\<close>

lemma runtime_inv_goto:
  assumes inv: "runtime_inv V rt" and p: "rt_processes rt rid = Some p0" "session_key p = session_key p0" "pc_graph p = pc_graph p0"
    and live: "\<not> process_ended p0"
    and same: "locked ph \<longleftrightarrow> locked (pc_phase p0)"
    and hold: "holding ph \<Longrightarrow> holding (pc_phase p0) \<or> hd (rt_queues rt (session_key p)) = rid"
    and ending: "\<And>st out. ph = Ending st out \<Longrightarrow> ends_badly st" and ok: "ph \<noteq> Ended (Ret ())"
  shows "runtime_inv V (goto rid p ph rt)"
proof -
  let ?p = "p\<lparr>pc_phase := ph\<rparr>"
  have G: "map_of (rt_run_graphs rt) rid = Some (pc_graph p)" using inv p live by (auto simp: runtime_inv_def task_inv_def)
  have "queue_inv ((rt_processes rt)(rid := Some ?p)) (rt_queues rt)"
    by (rule queue_goto [where P = "rt_processes rt" and Q = "rt_queues rt" and ?p0.0 = p0]) (use inv p same hold in \<open>auto simp: runtime_inv_def\<close>)
  moreover have "task_inv ((rt_processes rt)(rid := Some ?p)) (rt_run_graphs rt)"
    by (rule task_inv_upd) (use inv G ending in \<open>auto simp: runtime_inv_def\<close>)
  moreover have "known_inv ((rt_processes rt)(rid := Some ?p)) (rt_run_graphs rt) (rt_admission rt) V"
    by (rule known_inv_upd) (use inv p in \<open>auto simp: runtime_inv_def\<close>)
  moreover have "settled_inv ((rt_processes rt)(rid := Some ?p)) V"
    by (rule settled_inv_upd) (use inv ok in \<open>auto simp: runtime_inv_def\<close>)
  ultimately show ?thesis using inv by (simp add: runtime_inv_def goto_def set_process_def)
qed

lemma runtime_inv_enter:
  assumes inv: "runtime_inv V rt" and p: "rt_processes rt rid = Some p0" "session_key p = session_key p0" "pc_graph p = pc_graph p0"
    and live: "\<not> process_ended p0" and free: "\<not> locked (pc_phase p0)"
  shows "runtime_inv V (enter_queue rid p rt)"
proof -
  let ?p = "p\<lparr>pc_phase := Queued\<rparr>"
  have G: "map_of (rt_run_graphs rt) rid = Some (pc_graph p)" using inv p live by (auto simp: runtime_inv_def task_inv_def)
  have "queue_inv ((rt_processes rt)(rid := Some ?p)) ((rt_queues rt)(session_key ?p := rt_queues rt (session_key ?p) @ [rid]))"
    by (rule queue_enter [where P = "rt_processes rt" and Q = "rt_queues rt" and ?p0.0 = p0]) (use inv p free in \<open>auto simp: runtime_inv_def\<close>)
  moreover have "task_inv ((rt_processes rt)(rid := Some ?p)) (rt_run_graphs rt)"
    by (rule task_inv_upd) (use inv G in \<open>auto simp: runtime_inv_def\<close>)
  moreover have "known_inv ((rt_processes rt)(rid := Some ?p)) (rt_run_graphs rt) (rt_admission rt) V"
    by (rule known_inv_upd) (use inv p in \<open>auto simp: runtime_inv_def\<close>)
  moreover have "settled_inv ((rt_processes rt)(rid := Some ?p)) V"
    by (rule settled_inv_upd) (use inv in \<open>auto simp: runtime_inv_def\<close>)
  ultimately show ?thesis using inv by (simp add: runtime_inv_def enter_queue_def goto_def set_process_def)
qed

lemma runtime_inv_fail:
  assumes inv: "runtime_inv V rt" and p: "rt_processes rt rid = Some p0" "session_key p = session_key p0" "pc_graph p = pc_graph p0"
    and live: "\<not> process_ended p0" and ph: "failing ph"
  shows "runtime_inv V (goto rid p ph (leave_queue rid p rt))"
proof -
  let ?p = "p\<lparr>pc_phase := ph\<rparr>"
  have G: "map_of (rt_run_graphs rt) rid = Some (pc_graph p)" using inv p live by (auto simp: runtime_inv_def task_inv_def)
  note free = failing_free [OF ph]
  have "queue_inv ((rt_processes rt)(rid := Some ?p)) ((rt_queues rt)(session_key ?p := removeAll rid (rt_queues rt (session_key ?p))))"
    by (rule queue_leave [where P = "rt_processes rt" and Q = "rt_queues rt" and ?p0.0 = p0]) (use inv p free in \<open>auto simp: runtime_inv_def\<close>)
  moreover have "task_inv ((rt_processes rt)(rid := Some ?p)) (rt_run_graphs rt)"
    by (rule task_inv_upd) (use inv G free in \<open>auto simp: runtime_inv_def\<close>)
  moreover have "known_inv ((rt_processes rt)(rid := Some ?p)) (rt_run_graphs rt) (rt_admission rt) V"
    by (rule known_inv_upd) (use inv p in \<open>auto simp: runtime_inv_def\<close>)
  moreover have "settled_inv ((rt_processes rt)(rid := Some ?p)) V"
    by (rule settled_inv_upd) (use inv free in \<open>auto simp: runtime_inv_def\<close>)
  ultimately show ?thesis using inv by (simp add: runtime_inv_def leave_queue_def goto_def set_process_def)
qed

lemma runtime_inv_finish:
  assumes inv: "runtime_inv V rt" and p: "rt_processes rt rid = Some p0" "session_key p = session_key p0" "pc_graph p = pc_graph p0"
    and live: "\<not> process_ended p0" and Q: "rt1 = rt \<and> \<not> locked (pc_phase p0) \<or> rt1 = leave_queue rid p rt"
    and ok: "r = Ret () \<Longrightarrow> \<exists>st c. V rid = Some (st, c) \<and> st \<in> set TERMINAL_STATUSES"
  shows "runtime_inv V (finish_run rid p r rt1)"
proof -
  let ?p = "p\<lparr>pc_phase := Ended r\<rparr>" and ?G = "AList.delete rid (rt_run_graphs rt)" and ?n = "pc_graph p"
  have G: "map_of (rt_run_graphs rt) rid = Some ?n" using inv p live by (auto simp: runtime_inv_def task_inv_def)
  have same: "rt_run_graphs rt1 = rt_run_graphs rt" "rt_heap rt1 = rt_heap rt" "rt_active rt1 = rt_active rt"
    "rt_candidates rt1 = rt_candidates rt" "rt_admission rt1 = rt_admission rt" "rt_processes rt1 = rt_processes rt"
    using Q by (auto simp: leave_queue_def)
  have "queue_inv ((rt_processes rt)(rid := Some ?p)) (rt_queues rt1)"
  proof (cases "rt1 = leave_queue rid p rt")
    case True
    have "queue_inv ((rt_processes rt)(rid := Some ?p)) ((rt_queues rt)(session_key ?p := removeAll rid (rt_queues rt (session_key ?p))))"
      by (rule queue_leave [where P = "rt_processes rt" and Q = "rt_queues rt" and ?p0.0 = p0]) (use inv p in \<open>auto simp: runtime_inv_def locked_def\<close>)
    with True show ?thesis by (simp add: leave_queue_def)
  next
    case False
    with Q have "rt1 = rt" "\<not> locked (pc_phase p0)" by auto
    then show ?thesis using inv p
      by (auto simp: runtime_inv_def locked_def holding_def intro!: queue_goto [where P = "rt_processes rt" and Q = "rt_queues rt" and ?p0.0 = p0])
  qed
  moreover have "task_inv ((rt_processes rt)(rid := Some ?p)) ?G"
    by (rule task_inv_end) (use inv in \<open>simp add: runtime_inv_def\<close>)
  moreover have "lease_inv ?G ((rt_heap rt)[?n := graph_release (rt_heap rt ! ?n)])"
    by (rule lease_release [OF _ G]) (use inv in \<open>simp add: runtime_inv_def\<close>)
  moreover have "graph_inv (rt_active rt) (rt_candidates rt) ((rt_heap rt)[?n := graph_release (rt_heap rt ! ?n)])"
    by (rule graph_inv_release) (use inv in \<open>simp add: runtime_inv_def\<close>)
  moreover have "known_inv ((rt_processes rt)(rid := Some ?p)) ?G (rt_admission rt) V"
    by (rule known_inv_upd) (use inv p in \<open>auto simp: runtime_inv_def set_delete\<close>)
  moreover have "settled_inv ((rt_processes rt)(rid := Some ?p)) V"
    by (rule settled_inv_upd) (use inv ok in \<open>auto simp: runtime_inv_def\<close>)
  ultimately show ?thesis
    by (simp add: runtime_inv_def finish_run_def goto_def set_process_def map_graph_def same)
qed

end
