(* ===== verification/RuntimeSteps.thy ===== *)
theory RuntimeSteps
  imports RuntimeReach RuntimeGraphLaws
begin

text \<open>
  Every step of a runtime keeps the invariants of the theory \<open>RuntimeReach\<close>.
\<close>

section \<open>A task is resumed\<close>

lemma resume_runE:
  assumes "resume_run cfg S rid a rt = Some rt'"
  obtains p where "rt_processes rt rid = Some p" "may_resume rid p a rt"
    "rt' = advance cfg S rid (p\<lparr>pc_pending := False\<rparr>) (pc_phase p) a rt"
  using assms by (auto simp: resume_run_def split: option.splits if_splits)

lemma queued_interrupted:
  assumes "a = Cancels \<or> a = Expires"
  shows "rt_processes (advance cfg S rid p Queued a rt) rid \<noteq> Some (q\<lparr>pc_phase := Admitting\<rparr>)"
  using assms by (auto simp: proceed_def host_await_def handle_error_def goto_def set_process_def leave_queue_def
    dest!: arg_cong [where f = pc_phase])

lemma queued_resumed:
  assumes "may_resume rid p a rt" "pc_phase p = Queued"
    "advance cfg S rid p' Queued a rt = apply_move rid q (MGoto Admitting) rt1"
  shows "rt_queues rt (session_key p) \<noteq> [] \<and> hd (rt_queues rt (session_key p)) = rid"
proof -
  have "rt_processes (advance cfg S rid p' Queued a rt) rid = Some (q\<lparr>pc_phase := Admitting\<rparr>)"
    by (simp only: assms(3)) (simp add: apply_move_def goto_def set_process_def)
  with queued_interrupted have "a \<noteq> Cancels" "a \<noteq> Expires" by blast+
  with assms(1,2) show ?thesis by (cases a) (auto simp: may_resume_def may_answer_def)
qed

lemma moves_to_Admitting: "moves_to ph (MGoto Admitting) \<Longrightarrow> ph = Queued"
  by (cases rule: moves_to.cases) auto

lemma moves_to_done: "moves_to ph MDone \<Longrightarrow> ph = Withdrawing \<or> (\<exists>v c. ph = Committing v c)"
  by (cases rule: moves_to.cases) auto

lemma aside_process:
  assumes "aside rt rt1" "rt_processes rt rid = Some p"
  obtains b where "rt_processes rt1 rid = Some (p\<lparr>pc_pending := b\<rparr>)"
proof -
  obtain s P T where P: "rt1 = rt\<lparr>rt_store := s, rt_processes := P, rt_tasks := T\<rparr>"
    "P rid = rt_processes rt rid \<or> (\<exists>q. rt_processes rt rid = Some q \<and> \<not> process_ended q \<and> P rid = Some (q\<lparr>pc_pending := True\<rparr>))"
    using assms(1) unfolding aside_def by blast
  from P(1) have "rt_processes rt1 = P" by simp
  with P(2) assms(2) have "rt_processes rt1 rid = Some p \<or> rt_processes rt1 rid = Some (p\<lparr>pc_pending := True\<rparr>)" by auto
  moreover have "p = p\<lparr>pc_pending := pc_pending p\<rparr>" by simp
  ultimately show thesis using that by metis
qed

context run_authority
begin

lemma runtime_inv_move:
  assumes S: "S \<in> stores" and inv: "runtime_inv (view (rt_store rt)) rt" and res: "resume_run cfg S rid a rt = Some rt'"
  shows "runtime_inv (view (rt_store rt')) rt'"
proof -
  from res obtain p where p: "rt_processes rt rid = Some p" "may_resume rid p a rt"
    and rt': "rt' = advance cfg S rid (p\<lparr>pc_pending := False\<rparr>) (pc_phase p) a rt" by (rule resume_runE)
  let ?p = "p\<lparr>pc_pending := False\<rparr>"
  have live: "\<not> process_ended p" using p(2) by (simp add: may_resume_def)
  have bad: "ends_badly st" if "pc_phase p = Ending st out" for st out
    using inv p(1) that unfolding runtime_inv_def task_inv_def by blast
  obtain rt1 mv where mv: "rt' = apply_move rid ?p mv rt1" "aside rt rt1" "moves_to (pc_phase p) mv"
    "loud rid (pc_phase p) (view (rt_store rt)) (view (rt_store rt1))" "commits rid mv (view (rt_store rt1))"
    using advance_move [OF S, of "pc_phase p" cfg rid ?p a rt] live bad by (auto simp: rt' process_ended_def split: phase.splits)
  have inv1: "runtime_inv (view (rt_store rt1)) rt1"
    using runtime_inv_aside [OF inv mv(2)] mv(4) by (simp add: loud_def)
  obtain b where "rt_processes rt1 rid = Some (p\<lparr>pc_pending := b\<rparr>)" using aside_process [OF mv(2) p(1)] .
  then obtain p0 where p0: "rt_processes rt1 rid = Some p0" "session_key ?p = session_key p0" "pc_graph ?p = pc_graph p0"
    "\<not> process_ended p0" "pc_phase p0 = pc_phase p"
    using live by (simp add: session_key_def)
  have "runtime_inv (view (rt_store rt1)) rt'"
  proof (cases mv)
    case (MGoto ph)
    note to = moves_to_goto [OF mv(3) [unfolded MGoto]]
    have "hd (rt_queues rt1 (session_key ?p)) = rid" if "pc_phase p = Queued" "ph = Admitting"
    proof -
      have "advance cfg S rid ?p Queued a rt = apply_move rid ?p (MGoto Admitting) rt1"
        using mv(1) that by (simp add: rt' MGoto)
      from queued_resumed [OF p(2) that(1) this] show ?thesis by (simp add: aside_fields [OF mv(2)])
    qed
    then show ?thesis unfolding mv(1) MGoto apply_move_def move.case
      by (intro runtime_inv_goto [OF inv1 p0(1-4)]) (use to in \<open>auto simp: p0(5)\<close>)
  next
    case MQueue
    show ?thesis unfolding mv(1) MQueue apply_move_def move.case
      by (intro runtime_inv_enter [OF inv1 p0(1-4)]) (use moves_to_queue mv(3) in \<open>simp add: p0(5) MQueue\<close>)
  next
    case (MFail ph)
    show ?thesis unfolding mv(1) MFail apply_move_def move.case
      by (intro runtime_inv_fail [OF inv1 p0(1-4)]) (use moves_to_fail mv(3) in \<open>simp add: MFail\<close>)
  next
    case MDone
    show ?thesis unfolding mv(1) MDone apply_move_def move.case
      by (intro runtime_inv_finish [OF inv1 p0(1-4)]) (use mv(5) in \<open>auto simp: commits_def MDone\<close>)
  next
    case (MEnd r)
    show ?thesis unfolding mv(1) MEnd apply_move_def move.case
      by (intro runtime_inv_finish [OF inv1 p0(1-4)]) (use mv(3,5) moves_to_end in \<open>auto simp: commits_def MEnd p0(5)\<close>)
  qed
  moreover have "rt_store rt' = rt_store rt1"
    unfolding mv(1) by (simp add: apply_move_def goto_def set_process_def enter_queue_def leave_queue_def finish_run_def map_graph_def split: move.split)
  ultimately show ?thesis by simp
qed

end

section \<open>Admission\<close>

lemma same_cancel_task: "same_processes (rt_processes rt) (rt_processes (cancel_task t rt))"
  by (rule same_aside [OF aside_cancel_task])

lemma aside_fold: "aside rt (fold cancel_task ts rt)"
  by (induction ts arbitrary: rt) (auto intro: aside_trans aside_cancel_task)

context run_authority
begin

lemma on_store_Pair: "on_store m rt = (r, rt') \<longleftrightarrow> m (rt_store rt) = (r, rt_store rt') \<and> rt' = rt\<lparr>rt_store := rt_store rt'\<rparr>"
  by (auto simp: on_store_def split: prod.split)

lemma steering_target_keeps: "S \<in> stores \<Longrightarrow> snd (steering_target cfg S rq cx v s) = s"
proof -
  assume S: "S \<in> stores"
  have "moves (=) (get_run cfg S t cx v)" for t by (simp add: moves_def get_run_keeps [OF S])
  then have "moves (=) (steering_target cfg S rq cx v)"
    unfolding steering_target_def
    by (cases "rq_steer_run_id rq") (auto intro!: moves_bind moves_basic simp: transp_def reflp_def)
  then show ?thesis by (simp add: moves_def)
qed

text \<open>An admission changes nothing but the store, or binds a new run to the active graph.\<close>

lemma admit_run_cases:
  assumes S: "S \<in> stores" and adm: "admit_run cfg S rq cx credentials v vt rt = (r, rt')"
  obtains (kept) s where "rt' = rt\<lparr>rt_store := s\<rparr>" "quiet (view (rt_store rt)) (view s)"
    | (accepted) s n where "runtime_admission rt = Ret ()" "rt_active rt = Some n" "view (rt_store rt) (rq_run_id rq) = None"
        "view s (rq_run_id rq) \<noteq> None" "quiet (view (rt_store rt)) (view s)"
        "if ag_draining (rt_heap rt ! n) then rt' = rt\<lparr>rt_store := s, rt_heap := (rt_heap rt)[n := rt_heap rt ! n]\<rparr>
         else rt' = rt\<lparr>rt_store := s, rt_heap := (rt_heap rt)[n := (rt_heap rt ! n)\<lparr>ag_leases := Suc (ag_leases (rt_heap rt ! n)), ag_drained := False\<rparr>],
           rt_run_graphs := AList.update (rq_run_id rq) n (rt_run_graphs rt),
           rt_run_revisions := AList.update (rq_run_id rq) (ct_revision (ho_catalog (rt_host rt))) (rt_run_revisions rt),
           rt_admission := Some (rq, cx)\<rparr>"
proof -
  have kept': thesis if "rt' = rt" using kept [of "rt_store rt"] that by simp
  show thesis
  proof (cases "isl (runtime_admission rt) \<or> rt_active rt = None")
    case True
    then have "rt' = rt" using adm by (cases "runtime_admission rt") (auto simp: admit_run_def bind_op_def)
    then show thesis by (rule kept')
  next
    case False
    then obtain n where n: "rt_active rt = Some n" "runtime_admission rt = Ret ()" by (cases "runtime_admission rt") auto
    show thesis
    proof (cases "\<exists>st1. on_store (steering_target cfg S rq cx vt) rt = (Ret (), st1) \<and> rq_session_id rq = cx_session_id cx
        \<and> (if truthy_opt (cx_delegation_id cx) \<and> rw_credentials cfg then credentials else Ret ()) = Ret ()
        \<and> check_policy cfg cx (cx_tenant_id cx) v = Ret ()")
      case no: False
      have "snd (on_store (steering_target cfg S rq cx vt) rt) = rt"
        using steering_target_keeps [OF S, of cfg rq cx vt "rt_store rt"]
          by (cases "steering_target cfg S rq cx vt (rt_store rt)") (auto simp: on_store_def)
      then have "rt' = rt"
        using adm no n unfolding admit_run_def
        by (auto simp: bind_op_def guard_op_def split: prod.splits sum.splits if_splits)
      then show thesis by (rule kept')
    next
      case True
      have same: "snd (on_store (steering_target cfg S rq cx vt) rt) = rt"
        using steering_target_keeps [OF S, of cfg rq cx vt "rt_store rt"]
          by (cases "steering_target cfg S rq cx vt (rt_store rt)") (auto simp: on_store_def)
      obtain q s where acc: "ra_accept S rq cx (rt_store rt) = (q, s)" by fastforce
      have q: "quiet (view (rt_store rt)) (view s)" using accept_quiet [OF S, of "rt_store rt" rq cx] acc by simp
      show thesis
      proof (cases "\<exists>rec. q = Ret (rec, True)")
        case False
        then have "rt' = rt\<lparr>rt_store := s\<rparr>"
          using adm True n same acc unfolding admit_run_def
          by (auto simp: bind_op_def on_store_def guard_op_def split: prod.splits sum.splits if_splits)
        with q show thesis by (rule kept [rotated])
      next
        case created: True
        then obtain rec where rec: "q = Ret (rec, True)" by blast
        note new = accept_new [OF S acc [unfolded rec]]
        show thesis
          by (rule accepted [OF n(2,1) _ _ q])
            (use adm True n same acc new in \<open>auto simp: rec admit_run_def bind_op_def on_store_def guard_op_def acquire_graph_def graph_acquire_def map_graph_def\<close>)
      qed
    qed
  qed
qed

lemma runtime_inv_kept:
  "runtime_inv V rt \<Longrightarrow> view_le V V' \<Longrightarrow> runtime_inv V' (rt\<lparr>rt_store := s\<rparr>)"
  by (rule runtime_inv_same) simp_all

lemma runtime_inv_admit:
  assumes S: "S \<in> stores" and inv: "runtime_inv (view (rt_store rt)) rt" and free: "lifecycle_free rt"
    and adm: "admit_run cfg S rq cx credentials v vt rt = (r, rt')"
  shows "runtime_inv (view (rt_store rt')) rt'"
proof (rule admit_run_cases [OF S adm])
  fix s assume "rt' = rt\<lparr>rt_store := s\<rparr>" "quiet (view (rt_store rt)) (view s)"
  then show ?thesis using runtime_inv_kept [OF inv] by (simp add: loud_def)
next
  fix s n
  assume n: "rt_active rt = Some n" and new: "view (rt_store rt) (rq_run_id rq) = None" "view s (rq_run_id rq) \<noteq> None"
    and q: "quiet (view (rt_store rt)) (view s)"
    and rt': "if ag_draining (rt_heap rt ! n) then rt' = rt\<lparr>rt_store := s, rt_heap := (rt_heap rt)[n := rt_heap rt ! n]\<rparr>
         else rt' = rt\<lparr>rt_store := s, rt_heap := (rt_heap rt)[n := (rt_heap rt ! n)\<lparr>ag_leases := Suc (ag_leases (rt_heap rt ! n)), ag_drained := False\<rparr>],
           rt_run_graphs := AList.update (rq_run_id rq) n (rt_run_graphs rt),
           rt_run_revisions := AList.update (rq_run_id rq) (ct_revision (ho_catalog (rt_host rt))) (rt_run_revisions rt),
           rt_admission := Some (rq, cx)\<rparr>"
  let ?g = "(rt_heap rt ! n)\<lparr>ag_leases := Suc (ag_leases (rt_heap rt ! n)), ag_drained := False\<rparr>" and ?rid = "rq_run_id rq"
  let ?G = "AList.update ?rid n (rt_run_graphs rt)"
  have le: "view_le (view (rt_store rt)) (view s)" using q by (simp add: loud_def)
  have n': "n < length (rt_heap rt)" "\<not> ag_draining (rt_heap rt ! n)" using inv n by (auto simp: runtime_inv_def graph_inv_def)
  with rt' have rt': "rt' = rt\<lparr>rt_store := s, rt_heap := (rt_heap rt)[n := ?g], rt_run_graphs := ?G,
           rt_run_revisions := AList.update ?rid (ct_revision (ho_catalog (rt_host rt))) (rt_run_revisions rt), rt_admission := Some (rq, cx)\<rparr>"
    by simp
  have known: "known_inv (rt_processes rt) (rt_run_graphs rt) (rt_admission rt) (view (rt_store rt))" using inv by (simp add: runtime_inv_def)
  then have fresh: "rt_processes rt ?rid = None" "?rid \<notin> fst ` set (rt_run_graphs rt)" using new(1) by (auto simp: known_inv_def)
  then have none: "map_of (rt_run_graphs rt) ?rid = None" by (simp add: map_of_eq_None_iff)
  have "lease_inv ?G ((rt_heap rt)[n := ?g])"
    by (rule lease_acquire [OF _ none n'(1)]) (use inv n'(2) in \<open>simp_all add: runtime_inv_def graph_acquire_def\<close>)
  moreover have "graph_inv (rt_active rt) (rt_candidates rt) ((rt_heap rt)[n := ?g])"
  proof -
    have "ag_draining ((rt_heap rt)[n := ?g] ! m) = ag_draining (rt_heap rt ! m)" if "m < length (rt_heap rt)" for m
      using that by (cases "m = n") simp_all
    then show ?thesis using inv by (simp add: runtime_inv_def graph_inv_def)
  qed
  moreover have "task_inv (rt_processes rt) ?G"
  proof -
    have "map_of ?G r = map_of (rt_run_graphs rt) r" if "rt_processes rt r \<noteq> None" for r
      using that fresh(1) by (cases "r = ?rid") (simp_all add: update_conv')
    moreover have "task_inv (rt_processes rt) (rt_run_graphs rt)" using inv by (simp add: runtime_inv_def)
    ultimately show ?thesis unfolding task_inv_def by force
  qed
  moreover have "known_inv (rt_processes rt) ?G (Some (rq, cx)) (view s)"
  proof -
    have "fst ` set ?G = insert ?rid (fst ` set (rt_run_graphs rt))" by (simp add: dom_update)
    moreover have "view s r \<noteq> None" if "view (rt_store rt) r \<noteq> None" for r using that le by (force simp: view_le_def)
    ultimately show ?thesis using known new(2) fresh(1) by (auto simp: known_inv_def)
  qed
  moreover have "settled_inv (rt_processes rt) (view s)"
    using settled_inv_same [OF _ same_refl le] inv by (simp add: runtime_inv_def)
  ultimately show ?thesis using inv by (simp add: runtime_inv_def rt')
qed

end

text \<open>A task is created, or the binding of the run is undone.\<close>

lemma queue_new:
  assumes inv: "queue_inv P Q" and p: "P rid = None" "\<not> locked (pc_phase p)"
  shows "queue_inv (P(rid := Some p)) Q"
proof (rule queue_invI)
  fix key r
  show "r \<in> set (Q key) \<longleftrightarrow> (\<exists>q. (P(rid := Some p)) r = Some q \<and> session_key q = key \<and> locked (pc_phase q))"
    using queue_invD(2) [OF inv, of r key] p by (cases "r = rid") auto
next
  fix r q assume q: "(P(rid := Some p)) r = Some q" "holding (pc_phase q)"
  with p(2) have "r \<noteq> rid" by (auto simp: holding_def)
  with q queue_invD(3) [OF inv] show "hd (Q (session_key q)) = r" by simp
qed (rule queue_invD(1) [OF inv])

lemma register_runE:
  assumes "register_run S rt = Some rt'"
  obtains rq cx n revision e s where "rt_admission rt = Some (rq, cx)" "map_of (rt_run_graphs rt) (rq_run_id rq) = Some n"
      "ra_append_event S (rq_run_id rq) ''run.profile'' (profile_payload (rt_heap rt ! n) revision) (rt_store rt) = (Raise e, s)"
      "rt' = (unbind_run (rq_run_id rq) n (rt\<lparr>rt_store := s\<rparr>))\<lparr>rt_admission := None\<rparr>"
    | rq cx n revision e s where "rt_admission rt = Some (rq, cx)" "map_of (rt_run_graphs rt) (rq_run_id rq) = Some n"
      "ra_append_event S (rq_run_id rq) ''run.profile'' (profile_payload (rt_heap rt ! n) revision) (rt_store rt) = (Ret e, s)"
      "rt' = set_process (rq_run_id rq)
         \<lparr>pc_request = rq, pc_context = cx, pc_graph = n, pc_revision = revision, pc_phase = Fresh, pc_pending = False\<rparr>
         (rt\<lparr>rt_store := s, rt_tasks := List.insert (rq_run_id rq) (rt_tasks rt), rt_admission := None\<rparr>)"
  using assms that unfolding register_run_def on_store_def Let_def
  by (auto split: option.splits prod.splits sum.splits)

lemma runtime_inv_register:
  assumes inv: "runtime_inv V rt" and reg: "register_run S rt = Some rt'"
  shows "runtime_inv V rt'"
  using reg
proof (cases rule: register_runE)
  case (1 rq cx n revision e s)
  let ?rid = "rq_run_id rq"
  let ?G = "AList.delete ?rid (rt_run_graphs rt)" and ?H = "(rt_heap rt)[n := graph_release (rt_heap rt ! n)]"
  have free: "rt_processes rt ?rid = None" using inv 1(1) by (auto simp: runtime_inv_def known_inv_def)
  have "lease_inv ?G ?H" by (rule lease_release [OF _ 1(2)]) (use inv in \<open>simp add: runtime_inv_def\<close>)
  moreover have "graph_inv (rt_active rt) (rt_candidates rt) ?H" by (rule graph_inv_release) (use inv in \<open>simp add: runtime_inv_def\<close>)
  moreover have "task_inv (rt_processes rt) ?G"
  proof -
    have "map_of ?G r = map_of (rt_run_graphs rt) r" if "rt_processes rt r \<noteq> None" for r
      using that free by (cases "r = ?rid") (simp_all add: pd.lookup_drop)
    moreover have "task_inv (rt_processes rt) (rt_run_graphs rt)" using inv by (simp add: runtime_inv_def)
    ultimately show ?thesis unfolding task_inv_def by force
  qed
  moreover have "known_inv (rt_processes rt) ?G None V" using inv by (auto simp: runtime_inv_def known_inv_def set_delete)
  ultimately show ?thesis using inv by (simp add: runtime_inv_def 1(4) unbind_run_def map_graph_def)
next
  case (2 rq cx n revision e s)
  let ?rid = "rq_run_id rq"
  let ?p = "\<lparr>pc_request = rq, pc_context = cx, pc_graph = n, pc_revision = revision, pc_phase = Fresh, pc_pending = False\<rparr>"
  have free: "rt_processes rt ?rid = None" "?rid \<in> fst ` set (rt_run_graphs rt)" using inv 2(1) by (auto simp: runtime_inv_def known_inv_def)
  have "queue_inv ((rt_processes rt)(?rid := Some ?p)) (rt_queues rt)"
    by (rule queue_new) (use inv free in \<open>auto simp: runtime_inv_def locked_def\<close>)
  moreover have "task_inv ((rt_processes rt)(?rid := Some ?p)) (rt_run_graphs rt)"
    by (rule task_inv_upd) (use inv 2(2) in \<open>auto simp: runtime_inv_def\<close>)
  moreover have "known_inv ((rt_processes rt)(?rid := Some ?p)) (rt_run_graphs rt) None V"
    using inv free(2) by (auto simp: runtime_inv_def known_inv_def)
  moreover have "settled_inv ((rt_processes rt)(?rid := Some ?p)) V"
    by (rule settled_inv_upd) (use inv in \<open>auto simp: runtime_inv_def\<close>)
  ultimately show ?thesis using inv by (simp add: runtime_inv_def 2(4) set_process_def)
qed

section \<open>Shutdown and the exchange of graphs\<close>

text \<open>Closing a graph changes neither leases nor who may take one.\<close>

definition same_leases :: "'v active_graph list \<Rightarrow> 'v active_graph list \<Rightarrow> bool" where
  "same_leases H H' \<longleftrightarrow> map (\<lambda>g. (ag_leases g, ag_draining g, ag_drained g)) H' = map (\<lambda>g. (ag_leases g, ag_draining g, ag_drained g)) H"

lemma same_leasesD:
  assumes "same_leases H H'"
  shows "length H' = length H"
    and "n < length H \<Longrightarrow> ag_leases (H' ! n) = ag_leases (H ! n) \<and> ag_draining (H' ! n) = ag_draining (H ! n) \<and> ag_drained (H' ! n) = ag_drained (H ! n)"
proof -
  show len: "length H' = length H" using assms unfolding same_leases_def by (rule map_eq_imp_length_eq)
  assume n: "n < length H"
  from arg_cong [OF assms [unfolded same_leases_def], of "\<lambda>xs. xs ! n"] n len
  show "ag_leases (H' ! n) = ag_leases (H ! n) \<and> ag_draining (H' ! n) = ag_draining (H ! n) \<and> ag_drained (H' ! n) = ag_drained (H ! n)"
    by simp
qed

lemma lease_inv_leases: "lease_inv G H \<Longrightarrow> same_leases H H' \<Longrightarrow> lease_inv G H'"
  using same_leasesD [of H H'] by (auto simp: lease_inv_def)

lemma graph_inv_leases: "graph_inv A C H \<Longrightarrow> same_leases H H' \<Longrightarrow> graph_inv A C H'"
  using same_leasesD [of H H'] by (auto simp: graph_inv_def)

definition idle :: "(('s \<Rightarrow> run_view)) \<Rightarrow> ('s, 'v) runtime \<Rightarrow> ('s, 'v) runtime \<Rightarrow> bool" where
  "idle view rt rt' \<longleftrightarrow> (\<exists>s h H R. rt' = rt\<lparr>rt_store := s, rt_host := h, rt_heap := H, rt_retired := R\<rparr>
     \<and> same_leases (rt_heap rt) H \<and> quiet (view (rt_store rt)) (view s))"

lemma idleI: "rt' = rt\<lparr>rt_store := s, rt_host := h, rt_heap := H, rt_retired := R\<rparr> \<Longrightarrow> same_leases (rt_heap rt) H \<Longrightarrow>
    quiet (view (rt_store rt)) (view s) \<Longrightarrow> idle view rt rt'"
  unfolding idle_def by blast

lemma idle_parts:
  "idle view rt (rt\<lparr>rt_host := h\<rparr>)" "idle view rt (rt\<lparr>rt_retired := R\<rparr>)"
  "same_leases (rt_heap rt) H \<Longrightarrow> idle view rt (rt\<lparr>rt_heap := H\<rparr>)"
  "quiet (view (rt_store rt)) (view s) \<Longrightarrow> idle view rt (rt\<lparr>rt_store := s\<rparr>)"
  by (rule idleI [where s = "rt_store rt" and h = h and H = "rt_heap rt" and R = "rt_retired rt"], simp_all add: same_leases_def)
    (rule idleI [where s = "rt_store rt" and h = "rt_host rt" and H = "rt_heap rt" and R = R], simp_all add: same_leases_def,
     rule idleI [where s = "rt_store rt" and h = "rt_host rt" and H = H and R = "rt_retired rt"], simp_all add: same_leases_def,
     rule idleI [where s = s and h = "rt_host rt" and H = "rt_heap rt" and R = "rt_retired rt"], simp_all add: same_leases_def)

lemma idle_reflp: "reflp (idle view)"
  unfolding reflp_def
proof
  fix rt :: "('a, 'c) runtime"
  show "idle view rt rt" using idle_parts(1) [of view rt "rt_host rt"] by simp
qed

lemma idle_transp: "transp (idle view)"
proof (rule transpI)
  fix rt rt1 rt2 :: "('a, 'c) runtime"
  assume "idle view rt rt1" "idle view rt1 rt2"
  then obtain s h H R s' h' H' R' where 1: "rt1 = rt\<lparr>rt_store := s, rt_host := h, rt_heap := H, rt_retired := R\<rparr>"
    "same_leases (rt_heap rt) H" "quiet (view (rt_store rt)) (view s)"
    and 2: "rt2 = rt1\<lparr>rt_store := s', rt_host := h', rt_heap := H', rt_retired := R'\<rparr>" "same_leases (rt_heap rt1) H'" "quiet (view (rt_store rt1)) (view s')"
    unfolding idle_def by blast
  show "idle view rt rt2"
    by (rule idleI [where s = s' and h = h' and H = H' and R = R']) (use 1 2 in \<open>auto simp: same_leases_def intro: quiet_trans\<close>)
qed

lemmas idle_intros = moves_bind [OF idle_transp] moves_basic [OF idle_reflp] moves_modify idle_parts

lemma idle_on_host: "moves (idle view) (on_host m)"
  by (simp add: moves_def on_host_def idle_parts split: prod.split)

lemma same_leases_flag: "same_leases H (H[n := (H ! n)\<lparr>ag_components_started := b\<rparr>])"
  unfolding same_leases_def map_update by (cases "n < length H") (auto intro!: nth_equalityI simp: nth_list_update)

lemma idle_close_graph: "moves (idle view) (runtime_close_graph w n)"
proof -
  have "moves (idle view) (bind_op (on_host (close_graph w g)) (\<lambda>es.
     bind_op (modify_op (map_graph n (\<lambda>g. g\<lparr>ag_components_started := False\<rparr>))) (\<lambda>_.
     bind_op (modify_op (\<lambda>rt. rt\<lparr>rt_retired := AList.delete (rp_generation (ag_profile (rt_heap rt ! n))) (rt_retired rt)\<rparr>)) (\<lambda>_.
     ret_op es))))" for g
    by (intro idle_intros idle_on_host) (auto simp: map_graph_def intro: idle_parts same_leases_flag)
  then show ?thesis unfolding moves_def runtime_close_graph_def by blast
qed

lemma idle_close: "idle view rt (snd (runtime_close_graph w n rt))"
  by (rule movesD [OF idle_close_graph surjective_pairing])

lemma runtime_inv_idle: "runtime_inv (view (rt_store rt)) rt \<Longrightarrow> idle view rt rt' \<Longrightarrow> runtime_inv (view (rt_store rt')) rt'"
  using known_inv_same [OF _ same_refl] settled_inv_same [OF _ same_refl]
  by (auto simp: idle_def runtime_inv_def loud_def intro: lease_inv_leases graph_inv_leases)

lemma idle_close_all: "moves (idle view) (close_all w ns)"
  by (induction ns) (auto intro!: idle_intros idle_close_graph)

text \<open>What \<open>close\<close> leaves: closed graphs, and no active one.\<close>

definition calm :: "('s \<Rightarrow> run_view) \<Rightarrow> ('s, 'v) runtime \<Rightarrow> ('s, 'v) runtime \<Rightarrow> bool" where
  "calm view rt rt' \<longleftrightarrow> (\<exists>rt1 T A R b. idle view rt rt1 \<and> rt' = rt1\<lparr>rt_tasks := T, rt_active := A, rt_retired := R, rt_started := b\<rparr>
     \<and> (A = rt_active rt \<or> A = None))"

lemma calmI:
  assumes "idle view rt rt1" "rt' = rt1\<lparr>rt_tasks := T, rt_active := A, rt_retired := R, rt_started := b\<rparr>" "A = rt_active rt \<or> A = None"
  shows "calm view rt rt'"
  using assms unfolding calm_def by blast

lemma idle_calm: "idle view rt rt' \<Longrightarrow> calm view rt rt'"
  by (rule calmI [where ?rt1.0 = rt' and T = "rt_tasks rt'" and A = "rt_active rt'" and R = "rt_retired rt'" and b = "rt_started rt'"])
    (auto simp: idle_def)

lemma calm_reflp: "reflp (calm view)"
  using idle_reflp [of view] by (auto simp: reflp_def intro: idle_calm)

lemma calm_transp: "transp (calm view)"
proof (rule transpI)
  fix rt rt1 rt2 :: "('a, 'c) runtime"
  assume "calm view rt rt1" "calm view rt1 rt2"
  then obtain i T A R b j T' A' R' b' where 1: "idle view rt i" "rt1 = i\<lparr>rt_tasks := T, rt_active := A, rt_retired := R, rt_started := b\<rparr>" "A = rt_active rt \<or> A = None"
    and 2: "idle view rt1 j" "rt2 = j\<lparr>rt_tasks := T', rt_active := A', rt_retired := R', rt_started := b'\<rparr>" "A' = rt_active rt1 \<or> A' = None"
    unfolding calm_def by blast
  from 1(1) obtain s h H Q where i: "i = rt\<lparr>rt_store := s, rt_host := h, rt_heap := H, rt_retired := Q\<rparr>"
     "same_leases (rt_heap rt) H" "quiet (view (rt_store rt)) (view s)" unfolding idle_def by blast
  from 2(1) obtain s' h' H' Q' where j: "j = rt1\<lparr>rt_store := s', rt_host := h', rt_heap := H', rt_retired := Q'\<rparr>"
     "same_leases (rt_heap rt1) H'" "quiet (view (rt_store rt1)) (view s')" unfolding idle_def by blast
  show "calm view rt rt2"
  proof (rule calmI [where T = T' and A = A' and R = R' and b = b'])
    show "idle view rt (rt\<lparr>rt_store := s', rt_host := h', rt_heap := H', rt_retired := Q'\<rparr>)"
      by (rule idleI [OF refl]) (use i j 1(2) in \<open>auto simp: same_leases_def intro: quiet_trans\<close>)
  qed (use 1 2 i j in auto)
qed

lemma calm_parts:
  "calm view rt (rt\<lparr>rt_tasks := T\<rparr>)" (is ?tasks)
  "calm view rt (rt\<lparr>rt_active := None, rt_retired := R, rt_started := b\<rparr>)" (is ?active)
proof -
  note same = reflpD [OF idle_reflp, of view rt]
  show ?tasks by (rule calmI [OF same, where T = T and A = "rt_active rt" and R = "rt_retired rt" and b = "rt_started rt"]) simp_all
  show ?active by (rule calmI [OF same, where T = "rt_tasks rt" and A = None and R = R and b = b]) simp_all
qed

lemmas calm_intros = moves_bind [OF calm_transp] moves_basic [OF calm_reflp]

context run_authority
begin

lemma calm_close_body:
  assumes "S \<in> stores"
  shows "calm view rt (snd (close_body w S rt))"
proof -
  note idles = moves_weaken [OF _ idle_calm]
  have "moves (idle view) (on_store (ra_transition S rid ''interrupted'' out))" for rid out
    using transition_quiet [OF assms, of "''interrupted''"]
    by (auto simp: moves_def on_store_def split: prod.split intro!: idle_parts(4)) (metis snd_conv)
  then have mark: "moves (calm view) (mapM_op (\<lambda>rid. on_store (ra_transition S rid ''interrupted'' (Some (JObj [(''reason'', JStr ''runtime_closed'')])))) ts)" for ts
    by (rule idles [OF moves_mapM [OF idle_reflp idle_transp]])
  have "moves (calm view)
     (bind_op (mapM_op (\<lambda>rid. on_store (ra_transition S rid ''interrupted'' (Some (JObj [(''reason'', JStr ''runtime_closed'')])))) ts) (\<lambda>_.
     bind_op (modify_op (\<lambda>rt. rt\<lparr>rt_tasks := []\<rparr>)) (\<lambda>_.
     bind_op (close_all w ns) (\<lambda>errors.
     bind_op (modify_op (\<lambda>rt. rt\<lparr>rt_active := None, rt_retired := [], rt_started := False\<rparr>)) (\<lambda>_.
     guard_op (errors = []) ExceptionGroup)))))" for ts ns
    by (intro calm_intros mark moves_modify calm_parts idles [OF idle_close_all])
  then show ?thesis unfolding moves_def close_body_def by blast
qed

end

lemma graph_inv_subset:
  assumes "graph_inv A C H" "A' = A \<or> A' = None" "distinct (map fst C')" "set C' \<subseteq> set C"
  shows "graph_inv A' C' H"
  using assms unfolding graph_inv_def by (auto split: option.splits)

lemma runtime_inv_calm:
  assumes inv: "runtime_inv (view (rt_store rt)) rt" and calm: "calm view rt rt'"
  shows "runtime_inv (view (rt_store rt')) rt'"
proof -
  obtain rt1 T A R b where 1: "idle view rt rt1" "rt' = rt1\<lparr>rt_tasks := T, rt_active := A, rt_retired := R, rt_started := b\<rparr>"
    "A = rt_active rt \<or> A = None" using calm unfolding calm_def by blast
  have "rt_active rt1 = rt_active rt" using 1(1) by (auto simp: idle_def)
  moreover have inv1: "runtime_inv (view (rt_store rt1)) rt1" by (rule runtime_inv_idle [rotated, OF 1(1) inv])
  moreover from inv1 have g: "graph_inv (rt_active rt1) (rt_candidates rt1) (rt_heap rt1)" by (simp add: runtime_inv_def)
  moreover from g have "distinct (map fst (rt_candidates rt1))" by (simp add: graph_inv_def)
  ultimately have "graph_inv A (rt_candidates rt1) (rt_heap rt1)"
    using 1(3) graph_inv_subset [OF g, of A "rt_candidates rt1"] by auto
  with inv1 show ?thesis by (simp add: runtime_inv_def 1(2))
qed

lemma start_graph_Ret:
  assumes "start_graph_components w g h = (Ret g', h')" shows "g' = g\<lparr>ag_components_started := True\<rparr>"
proof (cases "ag_components_started g")
  case True
  with assms show ?thesis by (simp add: start_graph_components_def)
next
  case False
  with assms obtain p h1 where "(case p of (started, failure) \<Rightarrow> case failure of
          None \<Rightarrow> ret_op (g\<lparr>ag_components_started := True\<rparr>)
        | Some e \<Rightarrow> bind_op (release_components w (rev started)) (\<lambda>_. raise_op e)) h1 = (Ret g', h')"
    unfolding start_graph_components_def by (auto elim: bind_op_Ret_cases)
  then show ?thesis by (cases p; cases "snd p") (auto elim: bind_op_Ret_cases)
qed

lemma prepared_graph:
  assumes "prepare_graph w cat profile services b h = (Ret g, h')"
  shows "ag_leases g = 0" "\<not> ag_draining g" "ag_drained g"
proof -
  from assms obtain order where "bind_op (prepare_modules w (rp_generation profile) order (registry_clone services) [] [])
    (\<lambda>(registry, started, new, failure). case failure of
       Some e \<Rightarrow> abandon_graph w (rp_generation profile) started e
     | None \<Rightarrow> (\<lambda>h.
         case (if b then start_graph_components w else ret_op) (new_graph profile registry started) h of
           (Inl e, h') \<Rightarrow> abandon_graph w (rp_generation profile) started e h'
         | (Inr g, h') \<Rightarrow> (Ret g, h'\<lparr>ho_applied := ho_applied h' @ filter (\<lambda>m. m \<notin> set (ho_applied h')) new\<rparr>))) h = (Ret g, h')"
    unfolding prepare_graph_def by (auto elim: bind_op_Ret_cases)
  then obtain registry started new failure h1 where r: "(case failure of
       Some e \<Rightarrow> abandon_graph w (rp_generation profile) started e
     | None \<Rightarrow> (\<lambda>h.
         case (if b then start_graph_components w else ret_op) (new_graph profile registry started) h of
           (Inl e, h') \<Rightarrow> abandon_graph w (rp_generation profile) started e h'
         | (Inr g, h') \<Rightarrow> (Ret g, h'\<lparr>ho_applied := ho_applied h' @ filter (\<lambda>m. m \<notin> set (ho_applied h')) new\<rparr>))) h1 = (Ret g, h')"
    by (auto elim!: bind_op_Ret_cases)
  have never: "abandon_graph w (rp_generation profile) started e h2 \<noteq> (Ret g, h')" for e h2
    using abandon_graph_raises by blast
  obtain h2 h3 where "(if b then start_graph_components w else ret_op) (new_graph profile registry started) h2 = (Ret g, h3)"
    using r never by (cases failure) (auto split: prod.splits sum.splits)
  with start_graph_Ret [of w "new_graph profile registry started" h2 g h3]
  have "g = (new_graph profile registry started)\<lparr>ag_components_started := True\<rparr> \<or> g = new_graph profile registry started"
    by (auto split: if_splits)
  then show "ag_leases g = 0" "\<not> ag_draining g" "ag_drained g" by (auto simp: new_graph_def)
qed

lemma lease_inv_append:
  assumes "lease_inv G H" "ag_leases g = 0" "ag_drained g"
  shows "lease_inv G (H @ [g])"
proof (rule lease_invI)
  fix n assume "n < length (H @ [g])"
  moreover have "count_list (map snd G) (length H) = 0"
    using lease_invD(2) [OF assms(1)] by (fastforce simp: count_list_0_iff)
  ultimately show "ag_leases ((H @ [g]) ! n) = count_list (map snd G) n \<and> (ag_drained ((H @ [g]) ! n) \<longleftrightarrow> ag_leases ((H @ [g]) ! n) = 0)"
    using assms lease_invD(3,4) [OF assms(1), of n] by (cases "n = length H") (auto simp: nth_append)
qed (use assms(1) lease_invD(2) [OF assms(1)] in \<open>auto simp: lease_inv_def less_Suc_eq\<close>)

lemma graph_inv_append:
  assumes "graph_inv A C H" "\<not> ag_draining g"
  shows "graph_inv A (C @ [(length H, x)]) (H @ [g])"
  using assms unfolding graph_inv_def by (auto simp: nth_append split: option.splits)

lemma reconfigure_prepare_cases:
  assumes prep: "reconfigure_prepare w cat services profile expected force inspect rt = (r, rt')"
  obtains (same) h where "rt' = rt\<lparr>rt_host := h\<rparr>"
    | (new) h h' g where "prepare_graph w cat profile services True h = (Ret g, h')"
        "rt' = rt\<lparr>rt_host := h', rt_heap := rt_heap rt @ [g], rt_candidates := rt_candidates rt @ [(length (rt_heap rt), expected, force)]\<rparr>"
proof (cases "isl (reconfigure_check cat services profile expected rt) \<or>
      isl (case rt_active rt of None \<Rightarrow> Ret () | Some n \<Rightarrow> preflight (ag_profile (rt_heap rt ! n)) profile inspect)")
  case True
  then have "rt' = rt\<lparr>rt_host := rt_host rt\<rparr>" using prep
    by (cases "reconfigure_check cat services profile expected rt") (auto simp: reconfigure_prepare_def bind_op_def split: sum.splits)
  then show thesis by (rule same)
next
  case False
  obtain q h' where p: "prepare_graph w cat profile services True (rt_host rt) = (q, h')" by fastforce
  have rt': "(r, rt') = bind_op (on_host (prepare_graph w cat profile services True)) (\<lambda>g.
     modify_op (\<lambda>rt. rt\<lparr>rt_heap := rt_heap rt @ [g], rt_candidates := rt_candidates rt @ [(length (rt_heap rt), expected, force)]\<rparr>)) rt"
    using prep False by (auto simp: reconfigure_prepare_def bind_op_def split: sum.splits)
  show thesis
  proof (cases q)
    case (Inl e)
    with rt' p show thesis by (intro same) (simp add: on_host_def bind_op_def)
  next
    case (Inr g)
    with rt' p show thesis by (intro new) (auto simp: on_host_def bind_op_def)
  qed
qed
lemma runtime_inv_prepare:
  assumes inv: "runtime_inv (view (rt_store rt)) rt" and prep: "reconfigure_prepare w cat services profile expected force inspect rt = (r, rt')"
  shows "runtime_inv (view (rt_store rt')) rt'"
  using prep
proof (cases rule: reconfigure_prepare_cases)
  case (same h)
  then show ?thesis using inv by (simp add: runtime_inv_def)
next
  case (new h h' g)
  note g = prepared_graph [OF new(1)]
  show ?thesis using inv by (simp add: runtime_inv_def new(2) lease_inv_append g graph_inv_append)
qed

text \<open>The exchange: the candidate becomes the active graph and the old one is drained.\<close>

definition exchange :: "nat \<Rightarrow> nat \<Rightarrow> int \<Rightarrow> bool \<Rightarrow> nat \<Rightarrow> ('s, 'v) runtime \<Rightarrow> ('s, 'v) runtime" where
  "exchange m n expected force i rt =
     (map_graph m (\<lambda>g. g\<lparr>ag_draining := True, ag_drained := (if ag_leases g = 0 then True else ag_drained g)\<rparr>)
       (rt\<lparr>rt_candidates := take i (rt_candidates rt) @ drop (Suc i) (rt_candidates rt)\<rparr>))
     \<lparr>rt_retired := AList.update expected m (rt_retired rt), rt_active := Some n,
      rt_host := (rt_host rt)\<lparr>ho_catalog := activate_generation (Some (rp_generation (ag_profile (rt_heap rt ! n)))) (ho_catalog (rt_host rt))\<rparr>,
      rt_drains := rt_drains rt @ [(m, force)]\<rparr>"

lemma swap_graph_cases:
  assumes "swap_graph w i rt = Some rt'"
  obtains (swapped) m n expected force where "lifecycle_free rt" "i < length (rt_candidates rt)" "rt_candidates rt ! i = (n, expected, force)"
      "rt_active rt = Some m" "rt' = (if force then fold cancel_task (bound_runs m (exchange m n expected force i rt)) (exchange m n expected force i rt)
        else exchange m n expected force i rt)"
    | (late) n where "lifecycle_free rt" "rt' = snd (runtime_close_graph w n (rt\<lparr>rt_candidates := take i (rt_candidates rt) @ drop (Suc i) (rt_candidates rt)\<rparr>))"
proof -
  from assms have i: "lifecycle_free rt" "i < length (rt_candidates rt)" by (auto simp: swap_graph_def split: if_splits)
  obtain n expected force where c: "rt_candidates rt ! i = (n, expected, force)" by (cases "rt_candidates rt ! i")
  show thesis
  proof (cases "\<exists>m. rt_active rt = Some m \<and> rp_generation (ag_profile (rt_heap rt ! m)) = expected")
    case True
    then obtain m where m: "rt_active rt = Some m" "rp_generation (ag_profile (rt_heap rt ! m)) = expected" by blast
    show thesis
      by (rule swapped [OF i c m(1)]) (use assms i c m in \<open>cases force; simp add: swap_graph_def Let_def exchange_def\<close>)
  next
    case False
    show thesis
      by (rule late [OF i(1), of n]) (use assms i c False in \<open>auto simp: swap_graph_def Let_def split: option.splits\<close>)
  qed
qed

lemma distinct_others: "distinct (map f xs) \<Longrightarrow> i < length xs \<Longrightarrow> distinct (map f (take i xs @ drop (Suc i) xs)) \<and>
    f (xs ! i) \<notin> f ` set (take i xs @ drop (Suc i) xs) \<and> set (take i xs @ drop (Suc i) xs) \<subseteq> set xs"
proof -
  assume d: "distinct (map f xs)" and i: "i < length xs"
  let ?ys = "take i xs @ drop (Suc i) xs"
  have xs: "xs = take i xs @ xs ! i # drop (Suc i) xs" by (rule id_take_nth_drop [OF i])
  have "distinct (map f (take i xs @ xs ! i # drop (Suc i) xs))" using d xs by simp
  then have "distinct (map f ?ys)" "f (xs ! i) \<notin> f ` set ?ys" by auto
  moreover have "set ?ys \<subseteq> set xs" by (metis xs set_append set_subset_Cons Un_mono subset_refl)
  ultimately show ?thesis by blast
qed

lemma runtime_inv_exchange:
  assumes inv: "runtime_inv V rt" and i: "i < length (rt_candidates rt)" "rt_candidates rt ! i = (n, expected, force)" and m: "rt_active rt = Some m"
  shows "runtime_inv V (exchange m n expected force i rt)"
proof -
  let ?C = "take i (rt_candidates rt) @ drop (Suc i) (rt_candidates rt)"
  let ?g = "(rt_heap rt ! m)\<lparr>ag_draining := True, ag_drained := (if ag_leases (rt_heap rt ! m) = 0 then True else ag_drained (rt_heap rt ! m))\<rparr>"
  let ?H = "(rt_heap rt)[m := ?g]"
  have g: "distinct (m # map fst (rt_candidates rt))" "\<forall>k \<in> set (m # map fst (rt_candidates rt)). k < length (rt_heap rt) \<and> \<not> ag_draining (rt_heap rt ! k)"
    using inv m by (auto simp: runtime_inv_def graph_inv_def)
  have d: "distinct (map fst ?C)" "n \<notin> fst ` set ?C" "set ?C \<subseteq> set (rt_candidates rt)"
    using distinct_others [of fst "rt_candidates rt" i] g(1) i by simp_all
  have n: "n \<in> set (map fst (rt_candidates rt))" using nth_mem [OF i(1)] i(2) by force
  have "lease_inv (rt_run_graphs rt) ?H"
  proof (rule lease_invI)
    have old: "lease_inv (rt_run_graphs rt) (rt_heap rt)" using inv by (simp add: runtime_inv_def)
    show "distinct (map fst (rt_run_graphs rt))" by (rule lease_invD(1) [OF old])
    show "snd x < length ?H" if "x \<in> set (rt_run_graphs rt)" for x using lease_invD(2) [OF old that] by simp
    fix k assume "k < length ?H"
    then show "ag_leases (?H ! k) = count_list (map snd (rt_run_graphs rt)) k \<and> (ag_drained (?H ! k) \<longleftrightarrow> ag_leases (?H ! k) = 0)"
      using lease_invD(3,4) [OF old, of k] by (cases "k = m") simp_all
  qed
  moreover have "graph_inv (Some n) ?C ?H"
  proof -
    have "k < length ?H \<and> \<not> ag_draining (?H ! k)" if "k = n \<or> k \<in> fst ` set ?C" for k
    proof -
      from that n d(3) have "k \<in> set (map fst (rt_candidates rt))" by auto
      with g have "k \<noteq> m" "k < length (rt_heap rt)" "\<not> ag_draining (rt_heap rt ! k)" by auto
      then show ?thesis by simp
    qed
    moreover have "k = n \<or> k \<in> fst ` set ?C" if "k \<in> set (n # map fst ?C)" for k using that by auto
    moreover have "distinct (n # map fst ?C)" using d(1,2) by (simp add: image_Un)
    ultimately show ?thesis unfolding graph_inv_def option.case append.simps by blast
  qed
  ultimately show ?thesis using inv
    by (cases "ag_leases (rt_heap rt ! m) = 0") (simp_all add: runtime_inv_def exchange_def map_graph_def)
qed

section \<open>Every step keeps the invariants\<close>

lemma runtime_inv_fold: "runtime_inv V rt \<Longrightarrow> runtime_inv V (fold cancel_task ts rt)"
  by (rule runtime_inv_aside [OF _ aside_fold view_le_refl])

lemma fold_cancel_store [simp]: "rt_store (fold cancel_task ts rt) = rt_store rt"
  by (induction ts arbitrary: rt) (simp_all add: cancel_task_def set_process_def split: option.split)

lemma exchange_store [simp]: "rt_store (exchange m n expected force i rt) = rt_store rt"
  by (simp add: exchange_def map_graph_def)

lemma runtime_inv_swap:
  assumes inv: "runtime_inv (view (rt_store rt)) rt" and swap: "swap_graph w i rt = Some rt'"
  shows "runtime_inv (view (rt_store rt')) rt'"
  using swap
proof (cases rule: swap_graph_cases)
  case (swapped m n expected force)
  have "runtime_inv (view (rt_store rt)) (exchange m n expected force i rt)"
    by (rule runtime_inv_exchange [OF inv swapped(2-4)])
  then show ?thesis unfolding swapped(5) by (cases force) (simp_all add: runtime_inv_fold)
next
  case (late n)
  let ?rt = "rt\<lparr>rt_candidates := take i (rt_candidates rt) @ drop (Suc i) (rt_candidates rt)\<rparr>"
  from swap have i: "i < length (rt_candidates rt)" by (auto simp: swap_graph_def split: if_splits)
  have "graph_inv (rt_active rt) (rt_candidates ?rt) (rt_heap rt)"
  proof (rule graph_inv_subset [where C = "rt_candidates rt"])
    show g: "graph_inv (rt_active rt) (rt_candidates rt) (rt_heap rt)" using inv by (simp add: runtime_inv_def)
    then have "distinct (map fst (rt_candidates rt))" by (simp add: graph_inv_def)
    from distinct_others [OF this i] show "distinct (map fst (rt_candidates ?rt))" "set (rt_candidates ?rt) \<subseteq> set (rt_candidates rt)" by simp_all
  qed simp
  then have inv': "runtime_inv (view (rt_store ?rt)) ?rt" using inv by (simp add: runtime_inv_def)
  have "idle view ?rt rt'" unfolding late(2) by (rule idle_close)
  from runtime_inv_idle [OF _ this] inv' show ?thesis by blast
qed

lemma retire_graphE:
  assumes "retire_graph w i rt = Some rt'"
  obtains n force where "i < length (rt_drains rt)" "rt_drains rt ! i = (n, force)"
    "if force then \<forall>rid \<in> set (bound_runs n rt). ended rid rt else ag_drained (rt_heap rt ! n)"
    "rt' = snd (runtime_close_graph w n (rt\<lparr>rt_drains := take i (rt_drains rt) @ drop (Suc i) (rt_drains rt)\<rparr>))"
proof -
  obtain n force where "rt_drains rt ! i = (n, force)" by fastforce
  with assms that [of n force] show thesis by (auto simp: retire_graph_def split: if_splits)
qed

lemma runtime_inv_retire:
  assumes inv: "runtime_inv (view (rt_store rt)) rt" and ret: "retire_graph w i rt = Some rt'"
  shows "runtime_inv (view (rt_store rt')) rt'"
  using ret
proof (rule retire_graphE)
  fix n force
  let ?rt = "rt\<lparr>rt_drains := take i (rt_drains rt) @ drop (Suc i) (rt_drains rt)\<rparr>"
  assume "rt' = snd (runtime_close_graph w n ?rt)"
  then have "idle view ?rt rt'" by (simp only: idle_close)
  moreover have "runtime_inv (view (rt_store ?rt)) ?rt" using inv by (simp add: runtime_inv_def)
  ultimately show ?thesis by (rule runtime_inv_idle [rotated])
qed

text \<open>A call of \<open>cancel\<close> goes on.\<close>

lemma resume_cancelE:
  assumes "resume_cancel cfg S i a rt = Some rt'"
  obtains c q rt1 cs where "i < length (rt_cancels rt)" "c = rt_cancels rt ! i"
    "a = Cancels \<or> may_answer [] [] (cancel_waits (cc_run c) (cc_phase c)) a rt"
    "cancel_advance cfg S (cc_context c) (cc_run c) (cc_phase c) a rt = (q, rt1)" "rt' = rt1\<lparr>rt_cancels := cs\<rparr>"
    "cs = (case q of Inr (Some ph) \<Rightarrow> (rt_cancels rt1)[i := c\<lparr>cc_phase := ph\<rparr>] | _ \<Rightarrow> take i (rt_cancels rt1) @ drop (Suc i) (rt_cancels rt1))"
proof -
  obtain q rt1 where "cancel_advance cfg S (cc_context (rt_cancels rt ! i)) (cc_run (rt_cancels rt ! i)) (cc_phase (rt_cancels rt ! i)) a rt = (q, rt1)"
    by fastforce
  with assms show thesis
    by (intro that [OF _ refl _ _ _ refl]) (auto simp: resume_cancel_def Let_def split: if_splits sum.splits option.splits)
qed

context run_authority
begin

lemma runtime_inv_cancelling:
  assumes S: "S \<in> stores" and inv: "runtime_inv (view (rt_store rt)) rt" and res: "resume_cancel cfg S i a rt = Some rt'"
  shows "runtime_inv (view (rt_store rt')) rt'"
  using res
proof (rule resume_cancelE)
  fix c q rt1 cs
  assume adv: "cancel_advance cfg S (cc_context c) (cc_run c) (cc_phase c) a rt = (q, rt1)" and rt': "rt' = rt1\<lparr>rt_cancels := cs\<rparr>"
  have "aside rt rt1" using movesD [OF aside_cancel adv] .
  moreover have "view_le (view (rt_store rt)) (view (rt_store rt1))"
    using cancel_quiet [OF S, of rt cfg "cc_context c" "cc_run c" "cc_phase c" a] by (simp add: adv loud_def)
  ultimately have "runtime_inv (view (rt_store rt1)) rt1" by (rule runtime_inv_aside [OF inv])
  then show ?thesis by (simp add: runtime_inv_def rt')
qed

lemma append_view: "S \<in> stores \<Longrightarrow> ra_append_event S rid kind payload s = (r, s') \<Longrightarrow> view s' = view s"
  using append_keeps [of S rid kind payload s] by simp

theorem runtime_inv_step:
  assumes step: "runtime_step cfg w stores meanwhile rt rt'" and inv: "runtime_inv (view (rt_store rt)) rt"
    and others: "\<And>s s'. meanwhile s s' \<Longrightarrow> quiet (view s) (view s')"
  shows "runtime_inv (view (rt_store rt')) rt'"
  using step
proof (cases rule: runtime_step.cases)
  case (step_submit S rq cx credentials v vt r)
  then show ?thesis by (intro runtime_inv_admit [OF _ inv])
next
  case (step_register S)
  then have "view (rt_store rt') = view (rt_store rt)"
    by (elim register_runE) (auto simp: unbind_run_def map_graph_def set_process_def append_view)
  with runtime_inv_register [OF inv step_register(2)] show ?thesis by simp
next
  case (step_resume S rid a)
  then show ?thesis by (intro runtime_inv_move [OF _ inv])
next
  case (step_cancel rid cx reserve)
  then show ?thesis using inv by (simp add: call_cancel_def runtime_inv_def)
next
  case (step_cancelling S i a)
  then show ?thesis by (intro runtime_inv_cancelling [OF _ inv])
next
  case step_close
  then have "rt' = fold cancel_task (rt_tasks rt) (rt\<lparr>rt_closing := True, rt_shutdown := True\<rparr>)"
    by (auto simp: close_begin_def split: if_splits)
  moreover have "runtime_inv (view (rt_store rt)) (rt\<lparr>rt_closing := True, rt_shutdown := True\<rparr>)" using inv by (simp add: runtime_inv_def)
  ultimately show ?thesis by (simp add: runtime_inv_fold)
next
  case (step_closed S)
  then have rt': "rt' = (snd (close_body w S rt))\<lparr>rt_shutdown := False\<rparr>" by (auto simp: close_end_def split: if_splits)
  have "runtime_inv (view (rt_store (snd (close_body w S rt)))) (snd (close_body w S rt))"
    by (rule runtime_inv_calm [where view = view and rt = rt, OF inv calm_close_body [OF step_closed(1)]])
  then show ?thesis by (simp add: runtime_inv_def rt')
next
  case (step_prepare cat services profile expected force inspect r)
  show ?thesis using inv step_prepare(2) by (rule runtime_inv_prepare)
next
  case (step_swap i)
  show ?thesis using inv step_swap by (rule runtime_inv_swap)
next
  case (step_retire i)
  show ?thesis using inv step_retire by (rule runtime_inv_retire)
next
  case (step_elsewhere s')
  from runtime_inv_kept [OF inv, of "view s'" s'] others [OF step_elsewhere(2)] show ?thesis by (simp add: step_elsewhere(1) loud_def)
qed

end

end
