(* ===== verification/RuntimeSafe.thy ===== *)
theory RuntimeSafe
  imports RuntimeSteps
begin

text \<open>
  Which runs can still succeed, and which graphs can still be closed.
\<close>

section \<open>A cancelled run does not succeed\<close>

text \<open>The cancellation is in the store, and the task has not decided on a success.\<close>

definition refused :: "string \<Rightarrow> run_view \<Rightarrow> processes \<Rightarrow> bool" where
  "refused rid V P \<longleftrightarrow> (\<exists>st. V rid = Some (st, True) \<and> st \<noteq> ''success'') \<and> (\<forall>p v. P rid = Some p \<longrightarrow> pc_phase p \<noteq> Committing v False)"

lemma refused_step:
  assumes "refused rid V P" "loud r ph V V'" "r = rid \<Longrightarrow> \<forall>v. ph \<noteq> Committing v False"
    and "\<And>p v. P' rid = Some p \<Longrightarrow> pc_phase p = Committing v False \<Longrightarrow> \<exists>q. P rid = Some q \<and> pc_phase q = Committing v False"
  shows "refused rid V' P'"
proof -
  from assms(1) obtain st where st: "V rid = Some (st, True)" "st \<noteq> ''success''" by (auto simp: refused_def)
  from assms(2) have "view_le V V'" by (simp add: loud_def)
  with st(1) obtain st' c' where "V' rid = Some (st', c')" c' unfolding view_le_def by blast
  then have st': "V' rid = Some (st', True)" by simp
  have "st' \<noteq> ''success''"
  proof
    assume "st' = ''success''"
    with st' assms(2) have "(\<exists>c. V rid = Some (''success'', c)) \<or> (rid = r \<and> (\<exists>v. ph = Committing v False))" unfolding loud_def by blast
    with st assms(3) show False by auto
  qed
  with st' assms(1,4) show ?thesis unfolding refused_def by blast
qed

lemma refused_same:
  assumes "refused rid V P" "quiet V V'" "same_processes P P'"
  shows "refused rid V' P'"
proof (rule refused_step [OF assms(1,2)])
  fix p v assume "P' rid = Some p" "pc_phase p = Committing v False"
  then show "\<exists>q. P rid = Some q \<and> pc_phase q = Committing v False" by (auto elim: same_process [OF assms(3)])
qed simp

lemma same_fold: "same_processes (rt_processes rt) (rt_processes (fold cancel_task ts rt))"
  by (rule same_aside [OF aside_fold])

lemma idle_processes: "idle view rt rt' \<Longrightarrow> rt_processes rt' = rt_processes rt \<and> quiet (view (rt_store rt)) (view (rt_store rt'))"
  by (auto simp: idle_def)

lemma calm_processes: "calm view rt rt' \<Longrightarrow> rt_processes rt' = rt_processes rt \<and> quiet (view (rt_store rt)) (view (rt_store rt'))"
  by (auto simp: calm_def dest: idle_processes)

text \<open>A step resumes a task, creates one, or leaves all of them where they are.\<close>

context run_authority
begin

lemma step_kinds:
  assumes step: "runtime_step cfg w stores meanwhile rt rt'" and inv: "runtime_inv (view (rt_store rt)) rt"
    and others: "\<And>s s'. meanwhile s s' \<Longrightarrow> quiet (view s) (view s')"
  obtains (resumed) S rid a where "S \<in> stores" "resume_run cfg S rid a rt = Some rt'"
    | (created) rid p where "rt_processes rt rid = None" "rt_processes rt' = (rt_processes rt)(rid := Some p)" "pc_phase p = Fresh"
        "view (rt_store rt') = view (rt_store rt)"
    | (calm) "same_processes (rt_processes rt) (rt_processes rt')" "quiet (view (rt_store rt)) (view (rt_store rt'))"
  using step
proof (cases rule: runtime_step.cases)
  case (step_submit S rq cx credentials v vt r)
  show thesis by (rule admit_run_cases [OF step_submit(1,3)]) (auto intro!: calm split: if_splits)
next
  case (step_register S)
  from step_register(2) show thesis
  proof (cases rule: register_runE)
    case (1 rq cx n revision e s)
    then show thesis using append_view [OF step_register(1) 1(3)] by (intro calm) (simp_all add: unbind_run_def map_graph_def)
  next
    case (2 rq cx n revision e s)
    then show thesis using append_view [OF step_register(1) 2(3)] inv
      by (intro created) (auto simp: set_process_def runtime_inv_def known_inv_def)
  qed
next
  case (step_resume S rid a)
  then show thesis by (rule resumed)
next
  case (step_cancel rid cx reserve)
  then show thesis by (intro calm) (simp_all add: call_cancel_def)
next
  case (step_cancelling S i a)
  from step_cancelling(2) show thesis
  proof (rule resume_cancelE)
    fix c q rt1 cs
    assume adv: "cancel_advance cfg S (cc_context c) (cc_run c) (cc_phase c) a rt = (q, rt1)" and rt': "rt' = rt1\<lparr>rt_cancels := cs\<rparr>"
    from cancel_quiet [OF step_cancelling(1), of rt cfg "cc_context c" "cc_run c" "cc_phase c" a]
    show thesis by (intro calm) (simp_all add: rt' adv same_aside [OF movesD [OF aside_cancel adv]])
  qed
next
  case step_close
  then show thesis using same_fold [of "rt\<lparr>rt_closing := True, rt_shutdown := True\<rparr>" "rt_tasks rt"]
    by (intro calm) (auto simp: close_begin_def split: if_splits)
next
  case (step_closed S)
  then show thesis using calm_processes [OF calm_close_body [OF step_closed(1), where rt = rt and w = w]]
    by (intro calm) (auto simp: close_end_def split: if_splits)
next
  case (step_prepare cat services profile expected force inspect r)
  show thesis by (rule reconfigure_prepare_cases [OF step_prepare(2)]) (auto intro!: calm)
next
  case (step_swap i)
  from step_swap show thesis
  proof (cases rule: swap_graph_cases)
    case (swapped m n expected force)
    have "rt_processes (exchange m n expected force i rt) = rt_processes rt" by (simp add: exchange_def map_graph_def)
    with same_fold [of "exchange m n expected force i rt"] swapped(5) show thesis by (intro calm) (cases force, simp_all)+
  next
    case (late n)
    with idle_processes [OF idle_close [where view = view and w = w and n = n and rt = "rt\<lparr>rt_candidates := take i (rt_candidates rt) @ drop (Suc i) (rt_candidates rt)\<rparr>"]]
    show thesis by (intro calm) simp_all
  qed
next
  case (step_retire i)
  from step_retire show thesis
  proof (rule retire_graphE)
    fix n force
    assume "rt' = snd (runtime_close_graph w n (rt\<lparr>rt_drains := take i (rt_drains rt) @ drop (Suc i) (rt_drains rt)\<rparr>))"
    with idle_processes [OF idle_close [where view = view and w = w and n = n and rt = "rt\<lparr>rt_drains := take i (rt_drains rt) @ drop (Suc i) (rt_drains rt)\<rparr>"]]
    show thesis by (intro calm) simp_all
  qed
next
  case (step_elsewhere s')
  with others show thesis by (intro calm) simp_all
qed

lemma resumed_cases:
  assumes S: "S \<in> stores" and inv: "runtime_inv (view (rt_store rt)) rt" and res: "resume_run cfg S rid a rt = Some rt'"
  obtains p mv rt1 where "rt_processes rt rid = Some p" "\<not> process_ended p" "may_resume rid p a rt"
    "rt' = advance cfg S rid (p\<lparr>pc_pending := False\<rparr>) (pc_phase p) a rt"
    "rt' = apply_move rid (p\<lparr>pc_pending := False\<rparr>) mv rt1" "aside rt rt1" "moves_to (pc_phase p) mv"
    "loud rid (pc_phase p) (view (rt_store rt)) (view (rt_store rt'))" "commits rid mv (view (rt_store rt'))"
proof -
  from res obtain p where p: "rt_processes rt rid = Some p" "may_resume rid p a rt"
    and rt': "rt' = advance cfg S rid (p\<lparr>pc_pending := False\<rparr>) (pc_phase p) a rt" by (rule resume_runE)
  have live: "\<not> process_ended p" using p(2) by (simp add: may_resume_def)
  have bad: "ends_badly st" if "pc_phase p = Ending st out" for st out
    using inv p(1) that unfolding runtime_inv_def task_inv_def by blast
  obtain rt1 mv where mv: "rt' = apply_move rid (p\<lparr>pc_pending := False\<rparr>) mv rt1" "aside rt rt1" "moves_to (pc_phase p) mv"
    "loud rid (pc_phase p) (view (rt_store rt)) (view (rt_store rt1))" "commits rid mv (view (rt_store rt1))"
    using advance_move [OF S, of "pc_phase p" cfg rid "p\<lparr>pc_pending := False\<rparr>" a rt] live bad
    by (auto simp: rt' process_ended_def split: phase.splits)
  have "rt_store rt' = rt_store rt1"
    unfolding mv(1) by (simp add: apply_move_def goto_def set_process_def enter_queue_def leave_queue_def finish_run_def map_graph_def split: move.split)
  with mv(4,5) show thesis by (intro that [OF p(1) live p(2) rt' mv(1-3)]) simp_all
qed

end

text \<open>What a move leaves of the processes.\<close>

definition move_phase :: "move \<Rightarrow> phase" where
  "move_phase mv = (case mv of MGoto ph \<Rightarrow> ph | MQueue \<Rightarrow> Queued | MFail ph \<Rightarrow> ph | MDone \<Rightarrow> Ended (Ret ()) | MEnd r \<Rightarrow> Ended r)"

lemma move_processes: "rt_processes (apply_move rid p mv rt) = (rt_processes rt)(rid := Some (p\<lparr>pc_phase := move_phase mv\<rparr>))"
  by (simp add: apply_move_def move_phase_def goto_def set_process_def enter_queue_def leave_queue_def finish_run_def map_graph_def split: move.split)

context run_authority
begin

lemma refused_runtime_step:
  assumes step: "runtime_step cfg w stores meanwhile rt rt'" and inv: "runtime_inv (view (rt_store rt)) rt"
    and others: "\<And>s s'. meanwhile s s' \<Longrightarrow> quiet (view s) (view s')"
    and ref: "refused rid (view (rt_store rt)) (rt_processes rt)"
  shows "refused rid (view (rt_store rt')) (rt_processes rt')"
  using step inv others
proof (rule step_kinds)
  fix S r a assume S: "S \<in> stores" and res: "resume_run cfg S r a rt = Some rt'"
  show ?thesis
  proof (rule resumed_cases [OF S inv res])
    fix p mv rt1
    assume p: "rt_processes rt r = Some p" and rt': "rt' = apply_move r (p\<lparr>pc_pending := False\<rparr>) mv rt1" and aside: "aside rt rt1"
      and mv: "moves_to (pc_phase p) mv" and loud: "loud r (pc_phase p) (view (rt_store rt)) (view (rt_store rt'))"
      and commits: "commits r mv (view (rt_store rt'))"
    show ?thesis
    proof (rule refused_step [OF ref loud])
      show "\<forall>v. pc_phase p \<noteq> Committing v False" if "r = rid" using ref p that by (auto simp: refused_def)
      fix q v assume q: "rt_processes rt' rid = Some q" "pc_phase q = Committing v False"
      show "\<exists>q. rt_processes rt rid = Some q \<and> pc_phase q = Committing v False"
      proof (cases "r = rid")
        case True
        with q rt' have "move_phase mv = Committing v False" by (auto simp: move_processes)
        with mv have "mv = MGoto (Committing v False)" by (cases rule: moves_to.cases) (auto simp: move_phase_def failing_def)
        moreover obtain st where "view (rt_store rt') rid = Some (st, True)"
        proof -
          from ref obtain st where st: "view (rt_store rt) rid = Some (st, True)" by (auto simp: refused_def)
          from loud have "view_le (view (rt_store rt)) (view (rt_store rt'))" by (simp add: loud_def)
          with st obtain st' c' where "view (rt_store rt') rid = Some (st', c')" c' unfolding view_le_def by blast
          then show thesis using that by simp
        qed
        ultimately show ?thesis using commits True by (auto simp: commits_def)
      next
        case False
        with q rt' have "rt_processes rt1 rid = Some q" by (simp add: move_processes)
        with q(2) show ?thesis by (auto elim: same_process [OF same_aside [OF aside]])
      qed
    qed
  qed
next
  fix r p assume "rt_processes rt' = (rt_processes rt)(r := Some p)" "pc_phase p = Fresh" "view (rt_store rt') = view (rt_store rt)"
  with ref show ?thesis by (auto simp: refused_def)
next
  assume "same_processes (rt_processes rt) (rt_processes rt')" "quiet (view (rt_store rt)) (view (rt_store rt'))"
  then show ?thesis by (intro refused_same [OF ref])
qed

end

end
