(* ===== verification/RuntimeBound.thy ===== *)
theory RuntimeBound
  imports RuntimeSafe
begin

text \<open>
  No module graph is closed under a live run: the graph of every live task is the active one or
  waits to be retired, and the table \<^verbatim>\<open>_tasks\<close> lists every live task.
\<close>

definition gone :: "processes \<Rightarrow> string \<Rightarrow> bool" where
  "gone P t \<longleftrightarrow> (\<exists>q. P t = Some q \<and> process_ended q)"

text \<open>Whoever waits for a task knows it, and whoever settles its run has seen it end.\<close>

definition watched :: "processes \<Rightarrow> string \<Rightarrow> cancel_phase \<Rightarrow> bool" where
  "watched P t c \<longleftrightarrow> (c = CWait \<longrightarrow> P t \<noteq> None) \<and> (c = CSettle \<longrightarrow> gone P t)"

definition bound_inv :: "('s, 'v) runtime \<Rightarrow> bool" where
  "bound_inv rt \<longleftrightarrow>
     (\<forall>rid p. rt_processes rt rid = Some p \<longrightarrow> \<not> process_ended p \<longrightarrow>
        rid \<in> set (rt_tasks rt) \<and> (rt_active rt = Some (pc_graph p) \<or> pc_graph p \<in> fst ` set (rt_drains rt)))
     \<and> (\<forall>rq cx. rt_admission rt = Some (rq, cx) \<longrightarrow> \<not> rt_shutdown rt \<and> rt_active rt \<noteq> None \<and> map_of (rt_run_graphs rt) (rq_run_id rq) = rt_active rt)
     \<and> (\<forall>c \<in> set (rt_cancels rt). watched (rt_processes rt) (cc_run c) (cc_phase c))
     \<and> (\<forall>rid p c. rt_processes rt rid = Some p \<longrightarrow> pc_phase p = Stopping c \<longrightarrow> watched (rt_processes rt) (steering_of p) c)"

lemma bound_invI:
  assumes "\<And>rid p. rt_processes rt rid = Some p \<Longrightarrow> \<not> process_ended p \<Longrightarrow>
        rid \<in> set (rt_tasks rt) \<and> (rt_active rt = Some (pc_graph p) \<or> pc_graph p \<in> fst ` set (rt_drains rt))"
    and "\<And>rq cx. rt_admission rt = Some (rq, cx) \<Longrightarrow> \<not> rt_shutdown rt \<and> rt_active rt \<noteq> None \<and> map_of (rt_run_graphs rt) (rq_run_id rq) = rt_active rt"
    and "\<And>c. c \<in> set (rt_cancels rt) \<Longrightarrow> watched (rt_processes rt) (cc_run c) (cc_phase c)"
    and "\<And>rid p c. rt_processes rt rid = Some p \<Longrightarrow> pc_phase p = Stopping c \<Longrightarrow> watched (rt_processes rt) (steering_of p) c"
  shows "bound_inv rt"
  using assms unfolding bound_inv_def by blast

lemma bound_invD:
  assumes "bound_inv rt"
  shows "rt_processes rt rid = Some p \<Longrightarrow> \<not> process_ended p \<Longrightarrow> rid \<in> set (rt_tasks rt)"
    and "rt_processes rt rid = Some p \<Longrightarrow> \<not> process_ended p \<Longrightarrow> rt_active rt = Some (pc_graph p) \<or> pc_graph p \<in> fst ` set (rt_drains rt)"
    and "rt_admission rt = Some (rq, cx) \<Longrightarrow> \<not> rt_shutdown rt \<and> rt_active rt \<noteq> None \<and> map_of (rt_run_graphs rt) (rq_run_id rq) = rt_active rt"
    and "c \<in> set (rt_cancels rt) \<Longrightarrow> watched (rt_processes rt) (cc_run c) (cc_phase c)"
    and "rt_processes rt rid = Some p \<Longrightarrow> pc_phase p = Stopping k \<Longrightarrow> watched (rt_processes rt) (steering_of p) k"
  using assms unfolding bound_inv_def by blast+

section \<open>Processes only end\<close>

text \<open>\<open>later\<close>: no task disappears, and none that has ended goes on.\<close>

definition later :: "processes \<Rightarrow> processes \<Rightarrow> bool" where
  "later P P' \<longleftrightarrow> (\<forall>t. P t \<noteq> None \<longrightarrow> P' t \<noteq> None) \<and> (\<forall>t. gone P t \<longrightarrow> gone P' t)"

lemma later_same: "same_processes P P' \<Longrightarrow> later P P'"
  unfolding later_def gone_def by (metis same_None same_process same_sym)

lemma later_upd: "(\<And>q. P rid = Some q \<Longrightarrow> process_ended q \<Longrightarrow> process_ended p) \<Longrightarrow> later P (P(rid := Some p))"
  unfolding later_def gone_def by auto

lemma later_trans: "later P P' \<Longrightarrow> later P' P'' \<Longrightarrow> later P P''"
  unfolding later_def by blast

lemma watched_later: "watched P t c \<Longrightarrow> later P P' \<Longrightarrow> watched P' t c"
  unfolding watched_def later_def by blast

text \<open>What \<open>cancel\<close> does to the table, and when it gets where.\<close>

lemma cancel_tasks:
  "cancel_advance cfg S cx t c a rt = (q, rt1) \<Longrightarrow> r \<in> set (rt_tasks rt) \<Longrightarrow> (c = CSettle \<Longrightarrow> r \<noteq> t) \<Longrightarrow> r \<in> set (rt_tasks rt1)"
  by (cases c) (auto simp: bind_op_def store_await_def on_store_def readable_await_def cancel_task_def set_process_def
    split: prod.splits sum.splits option.splits if_splits answer.splits)

lemma cancel_waiting: "cancel_advance cfg S cx t c a rt = (Ret (Some CWait), rt1) \<Longrightarrow> rt_processes rt1 t \<noteq> None"
  by (cases c) (auto simp: bind_op_def task_running_def cancel_task_def set_process_def
    split: prod.splits sum.splits option.splits if_splits)

lemma cancel_settling:
  "cancel_advance cfg S cx t c a rt = (Ret (Some CSettle), rt1) \<Longrightarrow> c = CWait \<and> rt1 = rt \<and> a \<noteq> Cancels \<and> a \<noteq> Expires"
  by (cases c) (auto simp: bind_op_def host_await_def split: prod.splits sum.splits option.splits if_splits)

lemma cancel_watched:
  assumes adv: "cancel_advance cfg S cx t c a rt = (Ret (Some c'), rt1)" and w: "watched (rt_processes rt) t c"
    and may: "a = Cancels \<or> a = Expires \<or> may_answer rid queue (cancel_waits t c) a rt"
  shows "watched (rt_processes rt1) t c'"
proof -
  have "gone (rt_processes rt1) t" if "c' = CSettle"
  proof -
    from cancel_settling [of cfg S cx t c a rt rt1] adv that have c: "c = CWait" "rt1 = rt" "a \<noteq> Cancels" "a \<noteq> Expires" by auto
    with may have "ended t rt" by (auto simp: may_answer_def)
    with w c(1,2) show ?thesis by (auto simp: watched_def gone_def ended_def split: option.splits)
  qed
  with cancel_waiting [of cfg S cx t c a rt rt1] adv show ?thesis by (auto simp: watched_def)
qed

section \<open>A task is resumed\<close>

definition listed :: "string \<Rightarrow> string \<Rightarrow> ('s, 'v) runtime \<Rightarrow> bool" where
  "listed r rid rt \<longleftrightarrow> r \<in> set (rt_tasks rt) \<or> (r = rid \<and> gone (rt_processes rt) rid)"

lemma listed_parts [simp]:
  "r \<in> set (rt_tasks rt) \<Longrightarrow> listed r rid (goto rid p ph rt)"
  "r \<in> set (rt_tasks rt) \<Longrightarrow> listed r rid (enter_queue rid p rt)"
  "r \<in> set (rt_tasks rt) \<Longrightarrow> listed r rid (enter_scope rid p rt)"
  "r \<in> set (rt_tasks rt) \<Longrightarrow> listed r rid (handle_error cfg rid p e rt)"
  "r \<in> set (rt_tasks rt) \<Longrightarrow> listed r rid (finish_run rid p res (leave_queue rid p rt))"
  "r \<in> set (rt_tasks rt) \<Longrightarrow> listed r rid (finish_run rid p res rt)"
  by (auto simp: listed_def goto_def set_process_def enter_queue_def enter_scope_def handle_error_def leave_queue_def finish_run_def
    map_graph_def gone_def process_ended_def)

lemma listed_proceed:
  assumes "\<And>q rt1. m rt = (q, rt1) \<Longrightarrow> r \<in> set (rt_tasks rt1)" "\<And>x rt1. r \<in> set (rt_tasks rt1) \<Longrightarrow> listed r rid (k x rt1)"
  shows "listed r rid (proceed cfg rid p m k rt)"
  using assms(1) by (auto simp: proceed_def assms(2) split: prod.split sum.split)

lemma store_tasks: "store_await m a rt = (q, rt1) \<Longrightarrow> rt_tasks rt1 = rt_tasks rt"
  by (auto simp: store_await_def on_store_def split: prod.splits)

lemma readable_tasks: "readable_await cfg S t cx a rt = (q, rt1) \<Longrightarrow> rt_tasks rt1 = rt_tasks rt"
  by (cases a) (auto simp: readable_await_def on_store_def bind_op_def split: prod.splits sum.splits)

lemma advance_listed:
  assumes "r \<in> set (rt_tasks rt)" "ph = Stopping CSettle \<Longrightarrow> r \<noteq> steering_of p" "\<And>x. ph \<noteq> Ended x"
  shows "listed r rid (advance cfg S rid p ph a rt)"
proof (cases ph)
  case (Stopping c)
  with assms show ?thesis by (auto intro!: listed_proceed dest: cancel_tasks split: option.split)
next
  case (Diagnosing v)
  with assms show ?thesis by (auto split: sum.split)
next
  case (Ending st v)
  with assms show ?thesis by (auto dest: store_tasks split: prod.split sum.split)
next
  case Executing
  have "listed r rid (proceed cfg rid p (lift_op (host_await a)) (\<lambda>_. goto rid p (Publishing JNull)) rt)"
    using assms(1) by (auto intro!: listed_proceed)
  with Executing assms show ?thesis by (cases a) auto
qed (use assms in \<open>auto intro!: listed_proceed dest: store_tasks readable_tasks split: option.split\<close>)

lemma move_fields [simp]:
  "rt_active (apply_move rid p mv rt) = rt_active rt" "rt_drains (apply_move rid p mv rt) = rt_drains rt"
  "rt_admission (apply_move rid p mv rt) = rt_admission rt" "rt_shutdown (apply_move rid p mv rt) = rt_shutdown rt"
  "rt_cancels (apply_move rid p mv rt) = rt_cancels rt"
  by (simp_all add: apply_move_def goto_def set_process_def enter_queue_def leave_queue_def finish_run_def map_graph_def split: move.split)

lemma move_run_graphs: "r \<noteq> rid \<Longrightarrow> map_of (rt_run_graphs (apply_move rid p mv rt)) r = map_of (rt_run_graphs rt) r"
  by (simp add: apply_move_def goto_def set_process_def enter_queue_def leave_queue_def finish_run_def map_graph_def pd.lookup_drop split: move.split)

lemma aside_shutdown: "aside rt rt1 \<Longrightarrow> rt_shutdown rt1 = rt_shutdown rt"
  by (auto simp: aside_def)

lemma moves_to_stopping:
  "moves_to ph mv \<Longrightarrow> move_phase mv = Stopping c' \<Longrightarrow> ph = Announcing \<and> c' = CRead \<or> (\<exists>c. ph = Stopping c)"
  by (cases rule: moves_to.cases) (auto simp: move_phase_def failing_def)

lemma advance_stopping:
  assumes "rt_processes (advance cfg S rid p (Stopping c) a rt) rid = Some q" "pc_phase q = Stopping c'"
  obtains rt1 where "cancel_advance cfg S (pc_context p) (steering_of p) c a rt = (Ret (Some c'), rt1)"
    "rt_processes (advance cfg S rid p (Stopping c) a rt) = (rt_processes rt1)(rid := Some (p\<lparr>pc_phase := Stopping c'\<rparr>))"
proof -
  obtain r rt1 where adv: "cancel_advance cfg S (pc_context p) (steering_of p) c a rt = (r, rt1)" by fastforce
  show thesis
  proof (cases "\<exists>c''. r = Ret (Some c'')")
    case True
    with adv assms that show thesis by (auto simp: proceed_def goto_def set_process_def)
  next
    case False
    with adv assms show thesis
      by (auto simp: proceed_def handle_error_def goto_def set_process_def leave_queue_def enter_queue_def split: sum.splits option.splits if_splits)
  qed
qed

lemma same_live:
  assumes "same_processes P P'" "P' rid = Some p" "\<not> process_ended p"
  obtains q where "P rid = Some q" "\<not> process_ended q" "pc_graph p = pc_graph q"
  using assms by (auto elim: same_process)

lemma bound_same:
  assumes inv: "bound_inv rt" and same: "same_processes (rt_processes rt) (rt_processes rt')"
    and tasks: "\<And>rid q. rt_processes rt rid = Some q \<Longrightarrow> \<not> process_ended q \<Longrightarrow> rid \<in> set (rt_tasks rt) \<Longrightarrow> rid \<in> set (rt_tasks rt')"
    and graphs: "\<And>rid q. rt_processes rt rid = Some q \<Longrightarrow> \<not> process_ended q \<Longrightarrow> rt_active rt = Some (pc_graph q) \<or> pc_graph q \<in> fst ` set (rt_drains rt) \<Longrightarrow>
      rt_active rt' = Some (pc_graph q) \<or> pc_graph q \<in> fst ` set (rt_drains rt')"
    and adm: "\<And>rq cx. rt_admission rt' = Some (rq, cx) \<Longrightarrow> \<not> rt_shutdown rt' \<and> rt_active rt' \<noteq> None \<and> map_of (rt_run_graphs rt') (rq_run_id rq) = rt_active rt'"
    and cancels: "\<And>c. c \<in> set (rt_cancels rt') \<Longrightarrow> watched (rt_processes rt') (cc_run c) (cc_phase c)"
  shows "bound_inv rt'"
proof (rule bound_invI)
  fix rid p assume p: "rt_processes rt' rid = Some p" "\<not> process_ended p"
  then obtain q where q: "rt_processes rt rid = Some q" "\<not> process_ended q" "pc_graph p = pc_graph q" by (rule same_live [OF same])
  from tasks [OF q(1,2)] graphs [OF q(1,2)] bound_invD(1,2) [OF inv q(1,2)] q(3)
  show "rid \<in> set (rt_tasks rt') \<and> (rt_active rt' = Some (pc_graph p) \<or> pc_graph p \<in> fst ` set (rt_drains rt'))" by simp
next
  fix rid p c assume p: "rt_processes rt' rid = Some p" "pc_phase p = Stopping c"
  then obtain q where "rt_processes rt rid = Some q" "pc_phase q = Stopping c" "steering_of p = steering_of q"
    by (auto elim: same_process [OF same])
  with bound_invD(5) [OF inv] show "watched (rt_processes rt') (steering_of p) c" by (auto intro: watched_later later_same [OF same])
qed (rule adm cancels; assumption)+

lemma bound_idle: "bound_inv rt \<Longrightarrow> idle view rt rt' \<Longrightarrow> bound_inv rt'"
proof -
  assume inv: "bound_inv rt" and "idle view rt rt'"
  then obtain s h H R where "rt' = rt\<lparr>rt_store := s, rt_host := h, rt_heap := H, rt_retired := R\<rparr>" unfolding idle_def by blast
  with inv show ?thesis by (simp add: bound_inv_def)
qed

lemma exchange_fields [simp]:
  "rt_processes (exchange m n expected force i rt) = rt_processes rt" "rt_tasks (exchange m n expected force i rt) = rt_tasks rt"
  "rt_active (exchange m n expected force i rt) = Some n" "rt_drains (exchange m n expected force i rt) = rt_drains rt @ [(m, force)]"
  "rt_admission (exchange m n expected force i rt) = rt_admission rt" "rt_cancels (exchange m n expected force i rt) = rt_cancels rt"
  "rt_shutdown (exchange m n expected force i rt) = rt_shutdown rt"
  by (simp_all add: exchange_def map_graph_def)

lemma fold_cancel_fields [simp]:
  "rt_tasks (fold cancel_task ts rt) = rt_tasks rt" "rt_active (fold cancel_task ts rt) = rt_active rt"
  "rt_drains (fold cancel_task ts rt) = rt_drains rt" "rt_admission (fold cancel_task ts rt) = rt_admission rt"
  "rt_cancels (fold cancel_task ts rt) = rt_cancels rt" "rt_shutdown (fold cancel_task ts rt) = rt_shutdown rt"
  "rt_run_graphs (fold cancel_task ts rt) = rt_run_graphs rt"
  by (induction ts arbitrary: rt) (simp_all add: cancel_task_def set_process_def split: option.split)

lemma bound_fold:
  assumes "bound_inv rt" shows "bound_inv (fold cancel_task ts rt)"
  by (rule bound_same [OF assms same_fold])
    (use bound_invD(3,4) [OF assms] in \<open>auto intro: watched_later later_same [OF same_fold]\<close>)

text \<open>A retired graph has no live task when it is closed.\<close>

lemma retired_idle:
  assumes inv: "runtime_inv V rt" "bound_inv rt"
    and idle: "if force then \<forall>rid \<in> set (bound_runs n rt). ended rid rt else ag_drained (rt_heap rt ! n)"
    and p: "rt_processes rt rid = Some p" "\<not> process_ended p"
  shows "pc_graph p \<noteq> n"
proof
  assume n': "pc_graph p = n"
  with inv(1) p have G: "map_of (rt_run_graphs rt) rid = Some n" by (auto simp: runtime_inv_def task_inv_def)
  have lease: "lease_inv (rt_run_graphs rt) (rt_heap rt)" using inv(1) by (simp add: runtime_inv_def)
  have n: "n < length (rt_heap rt)" using lease_invD(2) [OF lease map_of_SomeD [OF G]] by simp
  show False
  proof (cases force)
    case True
    have "rid \<in> set (bound_runs n rt)" using bound_invD(1) [OF inv(2) p] G by (simp add: bound_runs_def)
    with idle True p show False by (auto simp: ended_def)
  next
    case False
    with idle lease_invD(3,4) [OF lease n] have "count_list (map snd (rt_run_graphs rt)) n = 0" by simp
    moreover have "n \<in> snd ` set (rt_run_graphs rt)" using imageI [OF map_of_SomeD [OF G], of snd] by simp
    ultimately show False by (simp add: count_list_0_iff)
  qed
qed

lemma others_keep:
  assumes "x \<in> f ` set xs" "i < length xs" "x \<noteq> f (xs ! i)"
  shows "x \<in> f ` set (take i xs @ drop (Suc i) xs)"
proof -
  have "set xs = insert (xs ! i) (set (take i xs @ drop (Suc i) xs))"
    using arg_cong [OF id_take_nth_drop [OF assms(2)], of set] by simp
  with assms(1,3) show ?thesis by auto
qed

context run_authority
begin

lemma bound_move:
  assumes S: "S \<in> stores" and inv: "runtime_inv (view (rt_store rt)) rt" and bound: "bound_inv rt"
    and res: "resume_run cfg S rid a rt = Some rt'"
  shows "bound_inv rt'"
proof -
  obtain p mv rt1 where p: "rt_processes rt rid = Some p" and live: "\<not> process_ended p" and may: "may_resume rid p a rt"
    and adv: "rt' = advance cfg S rid (p\<lparr>pc_pending := False\<rparr>) (pc_phase p) a rt"
    and rt': "rt' = apply_move rid (p\<lparr>pc_pending := False\<rparr>) mv rt1" and aside: "aside rt rt1" and mv: "moves_to (pc_phase p) mv"
    using resumed_cases [OF S inv res] .
  let ?p = "p\<lparr>pc_pending := False, pc_phase := move_phase mv\<rparr>"
  have P: "rt_processes rt' = (rt_processes rt1)(rid := Some ?p)" by (simp add: rt' move_processes)
  note same = same_aside [OF aside]
  have later: "later (rt_processes rt) (rt_processes rt')"
    unfolding P by (rule later_trans [OF later_same [OF same] later_upd]) (use p live in \<open>auto elim: same_process [OF same]\<close>)
  have settle: "gone (rt_processes rt) (steering_of p)" if "pc_phase p = Stopping CSettle"
    using bound_invD(5) [OF bound p that] by (simp add: watched_def)
  have listed: "listed r rid rt'" if r: "rt_processes rt r = Some q" "\<not> process_ended q" for r q
    unfolding adv
  proof (rule advance_listed)
    show "r \<in> set (rt_tasks rt)" using bound_invD(1) [OF bound r] .
    show "r \<noteq> steering_of (p\<lparr>pc_pending := False\<rparr>)" if "pc_phase p = Stopping CSettle"
      using settle [OF that] r by (auto simp: gone_def steering_of_def)
  qed (use live in \<open>auto simp: process_ended_def\<close>)
  show ?thesis
  proof (rule bound_invI)
    fix r q assume q: "rt_processes rt' r = Some q" "\<not> process_ended q"
    have "\<exists>q0. rt_processes rt r = Some q0 \<and> \<not> process_ended q0 \<and> pc_graph q0 = pc_graph q"
    proof (cases "r = rid")
      case True
      with q(1) P p live show ?thesis by auto
    next
      case False
      with q P show ?thesis by (auto elim: same_live [OF same])
    qed
    then obtain q0 where q0: "rt_processes rt r = Some q0" "\<not> process_ended q0" "pc_graph q0 = pc_graph q" by blast
    have "r \<in> set (rt_tasks rt')" using listed [OF q0(1,2)] q by (auto simp: listed_def gone_def)
    with bound_invD(2) [OF bound q0(1,2)] show "r \<in> set (rt_tasks rt') \<and> (rt_active rt' = Some (pc_graph q) \<or> pc_graph q \<in> fst ` set (rt_drains rt'))"
      by (simp add: rt' aside_fields [OF aside] q0(3))
  next
    fix rq cx assume adm: "rt_admission rt' = Some (rq, cx)"
    then have "rt_admission rt = Some (rq, cx)" by (simp add: rt' aside_fields [OF aside])
    moreover from this inv have "rt_processes rt (rq_run_id rq) = None" by (auto simp: runtime_inv_def known_inv_def)
    with p have "rq_run_id rq \<noteq> rid" by auto
    ultimately show "\<not> rt_shutdown rt' \<and> rt_active rt' \<noteq> None \<and> map_of (rt_run_graphs rt') (rq_run_id rq) = rt_active rt'"
      using bound_invD(3) [OF bound] by (simp add: rt' aside_fields [OF aside] aside_shutdown [OF aside] move_run_graphs)
  next
    fix c assume "c \<in> set (rt_cancels rt')"
    then have "c \<in> set (rt_cancels rt)" by (simp add: rt' aside_fields [OF aside])
    from watched_later [OF bound_invD(4) [OF bound this] later] show "watched (rt_processes rt') (cc_run c) (cc_phase c)" .
  next
    fix r q c assume q: "rt_processes rt' r = Some q" "pc_phase q = Stopping c"
    show "watched (rt_processes rt') (steering_of q) c"
    proof (cases "r = rid")
      case False
      with q P obtain q0 where "rt_processes rt r = Some q0" "pc_phase q0 = Stopping c" "steering_of q = steering_of q0"
        by (auto elim: same_process [OF same])
      with watched_later [OF bound_invD(5) [OF bound] later] show ?thesis by simp
    next
      case True
      with q P have "q = ?p" by simp
      with q(2) have ph: "move_phase mv = Stopping c" and t: "steering_of q = steering_of p" by (simp_all add: steering_of_def)
      from moves_to_stopping [OF mv ph] show ?thesis
      proof
        assume "pc_phase p = Announcing \<and> c = CRead"
        then show ?thesis by (simp add: watched_def)
      next
        assume "\<exists>k. pc_phase p = Stopping k"
        then obtain k where k: "pc_phase p = Stopping k" by blast
        let ?q = "p\<lparr>pc_pending := False\<rparr>"
        have "rt_processes (advance cfg S rid ?q (Stopping k) a rt) rid = Some q" using q(1) True adv k by simp
        then show ?thesis
        proof (rule advance_stopping [OF _ q(2)])
          fix rt2
          assume c: "cancel_advance cfg S (pc_context ?q) (steering_of ?q) k a rt = (Ret (Some c), rt2)"
            and P2: "rt_processes (advance cfg S rid ?q (Stopping k) a rt) = (rt_processes rt2)(rid := Some (?q\<lparr>pc_phase := Stopping c\<rparr>))"
          have st: "steering_of ?q = steering_of p" by (simp add: steering_of_def)
          have "a = Cancels \<or> a = Expires \<or> may_answer rid (rt_queues rt (session_key p)) (cancel_waits (steering_of p) k) a rt"
            using may k by (cases a) (auto simp: may_resume_def)
          from cancel_watched [OF c [unfolded st] bound_invD(5) [OF bound p k] this]
          have "watched (rt_processes rt2) (steering_of p) c" .
          moreover have "later (rt_processes rt2) (rt_processes rt')"
            unfolding adv k P2
          proof (rule later_upd)
            fix x assume "rt_processes rt2 rid = Some x" "process_ended x"
            moreover have "same_processes (rt_processes rt) (rt_processes rt2)" by (rule same_aside [OF movesD [OF aside_cancel c]])
            ultimately show "process_ended (?q\<lparr>pc_phase := Stopping c\<rparr>)" using p live by (auto elim: same_process)
          qed
          ultimately show ?thesis unfolding t by (rule watched_later)
        qed
      qed
    qed
  qed
qed

section \<open>Every step keeps it\<close>

lemma bound_register:
  assumes inv: "runtime_inv V rt" and bound: "bound_inv rt" and reg: "register_run S rt = Some rt'"
  shows "bound_inv rt'"
  using reg
proof (cases rule: register_runE)
  case (1 rq cx n revision e s)
  show ?thesis
    by (rule bound_same [OF bound]) (use bound_invD(4) [OF bound] in \<open>simp_all add: 1(4) unbind_run_def map_graph_def\<close>)
next
  case (2 rq cx n revision e s)
  let ?rid = "rq_run_id rq"
  let ?p = "\<lparr>pc_request = rq, pc_context = cx, pc_graph = n, pc_revision = revision, pc_phase = Fresh, pc_pending = False\<rparr>"
  have new: "rt_processes rt ?rid = None" using inv 2(1) by (auto simp: runtime_inv_def known_inv_def)
  have active: "rt_active rt = Some n" using bound_invD(3) [OF bound 2(1)] 2(2) by simp
  have later: "later (rt_processes rt) ((rt_processes rt)(?rid := Some ?p))" by (rule later_upd) (simp add: new)
  show ?thesis unfolding 2(4)
  proof (rule bound_invI, goal_cases)
    case (1 r q)
    then show ?case using bound_invD(1,2) [OF bound] active by (cases "r = ?rid") (auto simp: set_process_def)
  next
    case (3 c)
    then show ?case using watched_later [OF bound_invD(4) [OF bound] later] by (simp add: set_process_def)
  next
    case (4 r q c)
    then show ?case using watched_later [OF bound_invD(5) [OF bound] later, of r q c] by (cases "r = ?rid") (auto simp: set_process_def)
  qed (simp add: set_process_def)
qed

lemma bound_cancelling:
  assumes S: "S \<in> stores" and inv: "runtime_inv (view (rt_store rt)) rt" and bound: "bound_inv rt"
    and res: "resume_cancel cfg S i a rt = Some rt'"
  shows "bound_inv rt'"
  using res
proof (rule resume_cancelE)
  fix c q rt1 cs
  assume i: "i < length (rt_cancels rt)" and c: "c = rt_cancels rt ! i"
    and may: "a = Cancels \<or> may_answer [] [] (cancel_waits (cc_run c) (cc_phase c)) a rt"
    and adv: "cancel_advance cfg S (cc_context c) (cc_run c) (cc_phase c) a rt = (q, rt1)" and rt': "rt' = rt1\<lparr>rt_cancels := cs\<rparr>"
    and cs: "cs = (case q of Inr (Some ph) \<Rightarrow> (rt_cancels rt1)[i := c\<lparr>cc_phase := ph\<rparr>] | _ \<Rightarrow> take i (rt_cancels rt1) @ drop (Suc i) (rt_cancels rt1))"
  have aside: "aside rt rt1" using movesD [OF aside_cancel adv] .
  note same = same_aside [OF aside]
  have w: "watched (rt_processes rt) (cc_run c) (cc_phase c)" using bound_invD(4) [OF bound] i c by simp
  have next_watched: "watched (rt_processes rt1) (cc_run c) ph" if "q = Inr (Some ph)" for ph
    using cancel_watched [OF adv [unfolded that] w] may by blast
  show ?thesis
  proof (rule bound_same [OF bound])
    show "same_processes (rt_processes rt) (rt_processes rt')" using same by (simp add: rt')
  next
    fix rid p assume p: "rt_processes rt rid = Some p" "\<not> process_ended p" "rid \<in> set (rt_tasks rt)"
    have "rid \<noteq> cc_run c" if "cc_phase c = CSettle" using w p that by (auto simp: watched_def gone_def)
    with cancel_tasks [OF adv p(3)] show "rid \<in> set (rt_tasks rt')" by (simp add: rt')
  next
    fix d assume "d \<in> set (rt_cancels rt')"
    then have "d \<in> set (rt_cancels rt) \<or> (\<exists>ph. q = Inr (Some ph) \<and> d = c\<lparr>cc_phase := ph\<rparr>)"
      by (auto simp: rt' cs aside_fields [OF aside] split: sum.splits option.splits dest: in_set_takeD in_set_dropD set_update_subset_insert [THEN subsetD])
    then show "watched (rt_processes rt') (cc_run d) (cc_phase d)"
      using watched_later [OF bound_invD(4) [OF bound] later_same [OF same]] next_watched by (auto simp: rt')
  qed (use bound_invD(3) [OF bound] in \<open>auto simp: rt' aside_fields [OF aside] aside_shutdown [OF aside]\<close>)
qed

lemma bound_swap:
  assumes bound: "bound_inv rt" and swap: "swap_graph w i rt = Some rt'"
  shows "bound_inv rt'"
  using swap
proof (cases rule: swap_graph_cases)
  case (swapped m n expected force)
  have "bound_inv (exchange m n expected force i rt)"
    by (rule bound_same [OF bound]) (use swapped(1,4) bound_invD(4) [OF bound] in \<open>auto simp: lifecycle_free_def\<close>)
  then show ?thesis unfolding swapped(5) by (cases force) (simp_all add: bound_fold)
next
  case (late n)
  have "bound_inv (rt\<lparr>rt_candidates := take i (rt_candidates rt) @ drop (Suc i) (rt_candidates rt)\<rparr>)"
    using bound by (simp add: bound_inv_def)
  then show ?thesis unfolding late(2) by (rule bound_idle [OF _ idle_close])
qed

lemma bound_retire:
  assumes inv: "runtime_inv V rt" and bound: "bound_inv rt" and ret: "retire_graph w i rt = Some rt'"
  shows "bound_inv rt'"
  using ret
proof (rule retire_graphE)
  fix n force
  let ?rt = "rt\<lparr>rt_drains := take i (rt_drains rt) @ drop (Suc i) (rt_drains rt)\<rparr>"
  assume i: "i < length (rt_drains rt)" "rt_drains rt ! i = (n, force)"
    and idle: "if force then \<forall>rid \<in> set (bound_runs n rt). ended rid rt else ag_drained (rt_heap rt ! n)"
    and rt': "rt' = snd (runtime_close_graph w n ?rt)"
  have "bound_inv ?rt"
  proof (rule bound_same [OF bound])
    fix rid q assume q: "rt_processes rt rid = Some q" "\<not> process_ended q"
      and "rt_active rt = Some (pc_graph q) \<or> pc_graph q \<in> fst ` set (rt_drains rt)"
    then show "rt_active ?rt = Some (pc_graph q) \<or> pc_graph q \<in> fst ` set (rt_drains ?rt)"
      using others_keep [of "pc_graph q" fst "rt_drains rt" i] i retired_idle [OF inv bound idle q] by auto
  qed (use bound_invD(3,4) [OF bound] in auto)
  then show ?thesis unfolding rt' by (rule bound_idle [OF _ idle_close])
qed

theorem bound_inv_step:
  assumes step: "runtime_step cfg w stores meanwhile rt rt'" and inv: "runtime_inv (view (rt_store rt)) rt" and bound: "bound_inv rt"
  shows "bound_inv rt'"
  using step
proof (cases rule: runtime_step.cases)
  case (step_submit S rq cx credentials v vt r)
  show ?thesis
  proof (rule admit_run_cases [OF step_submit(1,3)])
    fix s assume "rt' = rt\<lparr>rt_store := s\<rparr>"
    then show ?thesis using bound by (simp add: bound_inv_def)
  next
    fix s n
    let ?g = "(rt_heap rt ! n)\<lparr>ag_leases := Suc (ag_leases (rt_heap rt ! n)), ag_drained := False\<rparr>"
    assume n: "rt_active rt = Some n"
      and rt': "if ag_draining (rt_heap rt ! n) then rt' = rt\<lparr>rt_store := s, rt_heap := (rt_heap rt)[n := rt_heap rt ! n]\<rparr>
         else rt' = rt\<lparr>rt_store := s, rt_heap := (rt_heap rt)[n := ?g],
           rt_run_graphs := AList.update (rq_run_id rq) n (rt_run_graphs rt),
           rt_run_revisions := AList.update (rq_run_id rq) (ct_revision (ho_catalog (rt_host rt))) (rt_run_revisions rt),
           rt_admission := Some (rq, cx)\<rparr>"
    show ?thesis
      by (rule bound_same [OF bound])
        (use rt' n step_submit(2) bound_invD(4) [OF bound] in \<open>auto simp: lifecycle_free_def update_conv' split: if_splits\<close>)
  qed
next
  case (step_register S)
  show ?thesis by (rule bound_register [OF inv bound step_register(2)])
next
  case (step_resume S rid a)
  show ?thesis by (rule bound_move [OF step_resume(1) inv bound step_resume(2)])
next
  case (step_cancel rid cx reserve)
  show ?thesis
    by (rule bound_same [OF bound]) (use bound_invD(3,4) [OF bound] in \<open>auto simp: step_cancel call_cancel_def watched_def split: if_splits\<close>)
next
  case (step_cancelling S i a)
  show ?thesis by (rule bound_cancelling [OF step_cancelling(1) inv bound step_cancelling(2)])
next
  case step_close
  then have rt': "rt' = fold cancel_task (rt_tasks rt) (rt\<lparr>rt_closing := True, rt_shutdown := True\<rparr>)" and free: "lifecycle_free rt"
    by (auto simp: close_begin_def split: if_splits)
  have "bound_inv (rt\<lparr>rt_closing := True, rt_shutdown := True\<rparr>)"
    by (rule bound_same [OF bound]) (use free bound_invD(4) [OF bound] in \<open>auto simp: lifecycle_free_def\<close>)
  then show ?thesis unfolding rt' by (rule bound_fold)
next
  case (step_closed S)
  then have rt': "rt' = (snd (close_body w S rt))\<lparr>rt_shutdown := False\<rparr>" and done_all: "\<forall>rid \<in> set (rt_tasks rt). ended rid rt"
    and shut: "rt_shutdown rt" by (auto simp: close_end_def split: if_splits)
  obtain rt1 T A R b where 1: "idle view rt rt1" "snd (close_body w S rt) = rt1\<lparr>rt_tasks := T, rt_active := A, rt_retired := R, rt_started := b\<rparr>"
    using calm_close_body [OF step_closed(1), where rt = rt and w = w] unfolding calm_def by blast
  have none: "rt_processes rt rid = Some q \<Longrightarrow> process_ended q" for rid q
    using bound_invD(1) [OF bound, of rid q] done_all by (force simp: ended_def)
  have "rt_admission rt = None"
    using bound_invD(3) [OF bound] shut by (cases "rt_admission rt") auto
  then show ?thesis using 1(1) none bound_invD(4) [OF bound]
    by (intro bound_same [OF bound]) (auto simp: rt' 1(2) idle_def)
next
  case (step_prepare cat services profile expected force inspect r)
  show ?thesis
    by (rule reconfigure_prepare_cases [OF step_prepare(2)]) (use bound in \<open>simp_all add: bound_inv_def\<close>)
next
  case (step_swap i)
  show ?thesis by (rule bound_swap [OF bound step_swap])
next
  case (step_retire i)
  show ?thesis by (rule bound_retire [OF inv bound step_retire])
next
  case (step_elsewhere s')
  then show ?thesis using bound by (simp add: bound_inv_def)
qed

section \<open>Bindings of ended tasks\<close>

text \<open>A task that has ended stays ended, and nothing touches a binding it has left behind.\<close>

theorem left_binding_stays:
  assumes step: "runtime_step cfg w stores meanwhile rt rt'" and inv: "runtime_inv (view (rt_store rt)) rt"
    and others: "\<And>s s'. meanwhile s s' \<Longrightarrow> quiet (view s) (view s')"
    and gone: "gone (rt_processes rt) rid" and G: "map_of (rt_run_graphs rt) rid = Some n"
  shows "gone (rt_processes rt') rid \<and> map_of (rt_run_graphs rt') rid = Some n"
proof (rule conjI)
  show "gone (rt_processes rt') rid"
    using step inv others
  proof (rule step_kinds)
    fix S r a assume S: "S \<in> stores" and res: "resume_run cfg S r a rt = Some rt'"
    show ?thesis
    proof (rule resumed_cases [OF S inv res])
      fix p mv rt1 assume p: "rt_processes rt r = Some p" "\<not> process_ended p" and rt': "rt' = apply_move r (p\<lparr>pc_pending := False\<rparr>) mv rt1"
        and aside: "aside rt rt1"
      from p gone have "r \<noteq> rid" by (auto simp: gone_def)
      moreover have "gone (rt_processes rt1) rid" using later_same [OF same_aside [OF aside]] gone by (simp add: later_def)
      ultimately show ?thesis by (simp add: rt' move_processes gone_def)
    qed
  next
    fix r p assume "rt_processes rt r = None" "rt_processes rt' = (rt_processes rt)(r := Some p)"
    with gone show ?thesis by (auto simp: gone_def)
  next
    assume "same_processes (rt_processes rt) (rt_processes rt')"
    with later_same gone show ?thesis by (auto simp: later_def)
  qed
  from G have bound: "rid \<in> fst ` set (rt_run_graphs rt)" by (metis map_of_SomeD image_eqI fst_conv)
  have known: "view (rt_store rt) rid \<noteq> None" using inv bound by (auto simp: runtime_inv_def known_inv_def)
  show "map_of (rt_run_graphs rt') rid = Some n"
    using step
  proof (cases rule: runtime_step.cases)
    case (step_submit S rq cx credentials v vt r)
    show ?thesis
    proof (rule admit_run_cases [OF step_submit(1,3)])
      fix s m assume "view (rt_store rt) (rq_run_id rq) = None"
      with known have "rq_run_id rq \<noteq> rid" by auto
      moreover assume "if ag_draining (rt_heap rt ! m) then rt' = rt\<lparr>rt_store := s, rt_heap := (rt_heap rt)[m := rt_heap rt ! m]\<rparr>
         else rt' = rt\<lparr>rt_store := s, rt_heap := (rt_heap rt)[m := (rt_heap rt ! m)\<lparr>ag_leases := Suc (ag_leases (rt_heap rt ! m)), ag_drained := False\<rparr>],
           rt_run_graphs := AList.update (rq_run_id rq) m (rt_run_graphs rt),
           rt_run_revisions := AList.update (rq_run_id rq) (ct_revision (ho_catalog (rt_host rt))) (rt_run_revisions rt),
           rt_admission := Some (rq, cx)\<rparr>"
      ultimately show ?thesis using G by (auto simp: update_conv' split: if_splits)
    qed (use G in simp)
  next
    case (step_register S)
    from step_register(2) show ?thesis
    proof (cases rule: register_runE)
      case (1 rq cx m revision e s)
      with inv gone have "rq_run_id rq \<noteq> rid" by (auto simp: runtime_inv_def known_inv_def gone_def)
      with G show ?thesis by (simp add: 1(4) unbind_run_def map_graph_def pd.lookup_drop)
    qed (use G in \<open>simp add: set_process_def\<close>)
  next
    case (step_resume S r a)
    show ?thesis
    proof (rule resumed_cases [OF step_resume(1) inv step_resume(2)])
      fix p mv rt1 assume "rt_processes rt r = Some p" "\<not> process_ended p"
        and rt': "rt' = apply_move r (p\<lparr>pc_pending := False\<rparr>) mv rt1" and aside: "aside rt rt1"
      with gone have "rid \<noteq> r" by (auto simp: gone_def)
      with G show ?thesis by (simp add: rt' move_run_graphs aside_fields [OF aside])
    qed
  next
    case (step_cancelling S i a)
    from step_cancelling(2) show ?thesis
    proof (rule resume_cancelE)
      fix c q rt1 cs
      assume adv: "cancel_advance cfg S (cc_context c) (cc_run c) (cc_phase c) a rt = (q, rt1)" and rt': "rt' = rt1\<lparr>rt_cancels := cs\<rparr>"
      have "rt_run_graphs rt1 = rt_run_graphs rt" by (rule aside_fields(2) [OF movesD [OF aside_cancel adv]])
      with G show ?thesis by (simp add: rt')
    qed
  next
    case (step_closed S)
    then show ?thesis using G calm_close_body [OF step_closed(1), where rt = rt and w = w]
      by (auto simp: close_end_def calm_def idle_def split: if_splits)
  next
    case (step_prepare cat services profile expected force inspect r)
    show ?thesis by (rule reconfigure_prepare_cases [OF step_prepare(2)]) (use G in simp_all)
  next
    case (step_swap i)
    from step_swap show ?thesis
    proof (cases rule: swap_graph_cases)
      case (swapped k m expected force)
      have "rt_run_graphs (exchange k m expected force i rt) = rt_run_graphs rt" by (simp add: exchange_def map_graph_def)
      with swapped(5) G show ?thesis by (cases force) simp_all
    next
      case (late k)
      with G idle_close [where view = view and w = w and n = k and rt = "rt\<lparr>rt_candidates := take i (rt_candidates rt) @ drop (Suc i) (rt_candidates rt)\<rparr>"]
      show ?thesis by (auto simp: idle_def)
    qed
  next
    case (step_retire i)
    from step_retire show ?thesis
    proof (rule retire_graphE)
      fix k force
      assume "rt' = snd (runtime_close_graph w k (rt\<lparr>rt_drains := take i (rt_drains rt) @ drop (Suc i) (rt_drains rt)\<rparr>))"
      with G idle_close [where view = view and w = w and n = k and rt = "rt\<lparr>rt_drains := take i (rt_drains rt) @ drop (Suc i) (rt_drains rt)\<rparr>"]
      show ?thesis by (auto simp: idle_def)
    qed
  qed (use G in \<open>auto simp: call_cancel_def close_begin_def split: if_splits\<close>)
qed

end

end
