(* ===== verification/RuntimeSafety.thy ===== *)
theory RuntimeSafety
  imports RuntimeBound StoreLaws
begin

text \<open>
  What holds in every state a runtime on the SQLite store can reach: the session locks, the graphs
  of live runs, cancellations, and what the end of a task leaves.
\<close>

section \<open>Reachable runtimes\<close>

text \<open>Other users of the store finish no run of this runtime with a success and take nothing back.\<close>

definition elsewhere :: "store \<Rightarrow> store \<Rightarrow> bool" where
  "elsewhere s s' \<longleftrightarrow> quiet (sqlite_view s) (sqlite_view s')"

abbreviation sqlite_runs :: "runtime_config \<Rightarrow> 'v module_host \<Rightarrow> env \<Rightarrow> (store, 'v) runtime \<Rightarrow> (store, 'v) runtime \<Rightarrow> bool" where
  "sqlite_runs cfg w en \<equiv> runtime_reach cfg w (range (sqlite_store en)) elsewhere"

definition unused :: "'v active_graph \<Rightarrow> bool" where
  "unused g \<longleftrightarrow> ag_leases g = 0 \<and> \<not> ag_draining g \<and> ag_drained g"

lemma runtime_inv_begin: "unused g \<Longrightarrow> runtime_inv V (runtime_begin s h g)"
  by (auto simp: runtime_inv_def runtime_begin_def unused_def queue_inv_def task_inv_def lease_inv_def graph_inv_def known_inv_def settled_inv_def)

lemma bound_inv_begin: "bound_inv (runtime_begin s h g)"
  by (simp add: bound_inv_def runtime_begin_def)

lemma sqlite_step_inv:
  assumes "runtime_step cfg w (range (sqlite_store en)) elsewhere rt rt'"
    and "runtime_inv (sqlite_view (rt_store rt)) rt" "bound_inv rt"
  shows "runtime_inv (sqlite_view (rt_store rt')) rt'" "bound_inv rt'"
  by (rule sq.runtime_inv_step [OF assms(1,2)], simp add: elsewhere_def) (rule sq.bound_inv_step [OF assms])

lemma sqlite_runs_inv:
  assumes "sqlite_runs cfg w en rt0 rt" "runtime_inv (sqlite_view (rt_store rt0)) rt0" "bound_inv rt0"
  shows "runtime_inv (sqlite_view (rt_store rt)) rt \<and> bound_inv rt"
  using assms
proof (induction rule: runtime_reach.induct)
  case (reach_step rt rt')
  then show ?case using sqlite_step_inv [OF reach_step(2)] by blast
qed simp

lemmas begin_inv = sqlite_runs_inv [OF _ runtime_inv_begin bound_inv_begin]

section \<open>Session locks\<close>

text \<open>
  C14: The runs of a session are executed one at a time, in the order in which they asked for the
  session lock.  In every reachable state the queue of a session lists each run once, the run that
  is past the lock is the head of the queue, and so two runs past the lock of the same session are
  the same run.
\<close>

theorem session_runs_one_at_a_time:
  assumes "sqlite_runs cfg w en (runtime_begin s h g) rt" "unused g"
  shows "distinct (rt_queues rt key)
    \<and> (\<forall>rid p. rt_processes rt rid = Some p \<and> locked (pc_phase p) \<longrightarrow> rid \<in> set (rt_queues rt (session_key p)))
    \<and> (\<forall>rid p. rt_processes rt rid = Some p \<and> holding (pc_phase p) \<longrightarrow> hd (rt_queues rt (session_key p)) = rid)
    \<and> (\<forall>a b p q. rt_processes rt a = Some p \<and> rt_processes rt b = Some q \<and> holding (pc_phase p) \<and> holding (pc_phase q)
         \<and> session_key p = session_key q \<longrightarrow> a = b)"
proof -
  have Q: "queue_inv (rt_processes rt) (rt_queues rt)" using begin_inv [OF assms] by (simp add: runtime_inv_def)
  have "\<forall>rid p. rt_processes rt rid = Some p \<and> holding (pc_phase p) \<longrightarrow> hd (rt_queues rt (session_key p)) = rid"
    using queue_invD(3) [OF Q] by blast
  moreover from this have "\<forall>a b p q. rt_processes rt a = Some p \<and> rt_processes rt b = Some q \<and> holding (pc_phase p) \<and> holding (pc_phase q)
         \<and> session_key p = session_key q \<longrightarrow> a = b" by metis
  ultimately show ?thesis using queue_invD(1) [OF Q, of key] queue_invD(2) [OF Q] by blast
qed

text \<open>
  C21: A session is never stuck behind its lock: the head of every queue is a task that some answer
  of the store, of the host or of a cancellation resumes now, and a waiting head needs no answer
  at all.
\<close>

theorem session_lock_progress:
  assumes "sqlite_runs cfg w en (runtime_begin s h g) rt" "unused g" "rt_queues rt key \<noteq> []"
  shows "\<exists>p a. rt_processes rt (hd (rt_queues rt key)) = Some p \<and> session_key p = key \<and> may_resume (hd (rt_queues rt key)) p a rt
    \<and> (pc_phase p = Queued \<longrightarrow> a = Proceeds \<or> pc_pending p \<and> a = Cancels)"
proof -
  let ?r = "hd (rt_queues rt key)"
  have Q: "queue_inv (rt_processes rt) (rt_queues rt)" using begin_inv [OF assms(1,2)] by (simp add: runtime_inv_def)
  have "?r \<in> set (rt_queues rt key)" using assms(3) by simp
  with queue_invD(2) [OF Q] obtain p where p: "rt_processes rt ?r = Some p" "session_key p = key" "locked (pc_phase p)" by blast
  have live: "\<not> process_ended p" using p(3) by (auto simp: locked_def process_ended_def split: phase.splits)
  show ?thesis
  proof (cases "pc_pending p")
    case True
    with live have "may_resume ?r p Cancels rt" by (simp add: may_resume_def)
    with p True show ?thesis by blast
  next
    case False
    define a where "a = (case phase_waits p (pc_phase p) of WPolicy \<Rightarrow> Decides \<lparr>vd_delegation = None, vd_policy = Ret True\<rparr>
      | WExecutor \<Rightarrow> Gives JNull | _ \<Rightarrow> Proceeds)"
    have "may_resume ?r p a rt"
      using p False assms(3) live by (auto simp: may_resume_def may_answer_def a_def locked_def split: phase.splits)
    moreover have "pc_phase p = Queued \<longrightarrow> a = Proceeds" by (simp add: a_def)
    ultimately show ?thesis using p by blast
  qed
qed

section \<open>Module graphs and their runs\<close>

text \<open>
  C2: No module graph is closed under a live run.  In every reachable state a task that has not
  ended is listed in the task table and its graph is the active one or is still waiting to be
  retired; and a graph that is retired now, in either mode of the exchange, has no live task.
\<close>

theorem graph_outlives_its_runs:
  assumes "sqlite_runs cfg w en (runtime_begin s h g) rt" "unused g"
    and "rt_processes rt rid = Some p" "\<not> process_ended p"
  shows "rid \<in> set (rt_tasks rt) \<and> (rt_active rt = Some (pc_graph p) \<or> pc_graph p \<in> fst ` set (rt_drains rt))
    \<and> (\<forall>i rt'. retire_graph w i rt = Some rt' \<longrightarrow> pc_graph p \<noteq> fst (rt_drains rt ! i))"
proof -
  from begin_inv [OF assms(1,2)] have inv: "runtime_inv (sqlite_view (rt_store rt)) rt" and bound: "bound_inv rt" by simp_all
  have "pc_graph p \<noteq> fst (rt_drains rt ! i)" if "retire_graph w i rt = Some rt'" for i rt'
    using that by (rule retire_graphE) (use retired_idle [OF inv bound _ assms(3,4)] in auto)
  with bound_invD(1,2) [OF bound assms(3,4)] show ?thesis by blast
qed

text \<open>
  C15: The leases of a graph count the runs bound to it: in every reachable state a graph holds as
  many leases as the table of run bindings has entries for it, it counts as drained exactly when
  there are none, every live task is bound to its graph, and neither the active graph nor a
  prepared one is draining.
\<close>

theorem leases_count_runs:
  assumes "sqlite_runs cfg w en (runtime_begin s h g) rt" "unused g"
  shows "(\<forall>n < length (rt_heap rt). ag_leases (rt_heap rt ! n) = count_list (map snd (rt_run_graphs rt)) n
       \<and> (ag_drained (rt_heap rt ! n) \<longleftrightarrow> ag_leases (rt_heap rt ! n) = 0))
    \<and> (\<forall>rid p. rt_processes rt rid = Some p \<and> \<not> process_ended p \<longrightarrow> map_of (rt_run_graphs rt) rid = Some (pc_graph p))
    \<and> (\<forall>n. rt_active rt = Some n \<or> n \<in> fst ` set (rt_candidates rt) \<longrightarrow> n < length (rt_heap rt) \<and> \<not> ag_draining (rt_heap rt ! n))"
proof -
  from begin_inv [OF assms] have "lease_inv (rt_run_graphs rt) (rt_heap rt)" "task_inv (rt_processes rt) (rt_run_graphs rt)"
    "graph_inv (rt_active rt) (rt_candidates rt) (rt_heap rt)" by (simp_all add: runtime_inv_def)
  then show ?thesis unfolding lease_inv_def task_inv_def graph_inv_def by (auto split: option.splits)
qed

section \<open>Cancellation\<close>

lemma sqlite_runs_refused:
  assumes "sqlite_runs cfg w en rt rt'" "runtime_inv (sqlite_view (rt_store rt)) rt" "bound_inv rt"
    and "refused rid (sqlite_view (rt_store rt)) (rt_processes rt)"
  shows "refused rid (sqlite_view (rt_store rt')) (rt_processes rt')"
  using assms
proof (induction rule: runtime_reach.induct)
  case (reach_step rt1 rt2)
  have inv: "runtime_inv (sqlite_view (rt_store rt1)) rt1" using sqlite_runs_inv [OF reach_step(1,4,5)] by simp
  show ?case
    by (rule sq.refused_runtime_step [OF reach_step(2) inv])
      (use reach_step in \<open>auto simp: elsewhere_def\<close>)
qed

text \<open>
  C3: A cancellation wins until the run has decided on a success.  If the store holds the request
  to cancel a run that is not a success, and the task has not yet read the flag for its commit,
  then no step of the runtime, of its clients or of other processes makes the run a success, and
  the request stays in the store.
\<close>

theorem cancelled_run_never_succeeds:
  assumes "sqlite_runs cfg w en (runtime_begin s h g) rt" "unused g"
    and "sqlite_view (rt_store rt) rid = Some (st, True)" "st \<noteq> ''success''"
    and "\<And>p v. rt_processes rt rid = Some p \<Longrightarrow> pc_phase p \<noteq> Committing v False"
    and "sqlite_runs cfg w en rt rt'"
  shows "\<exists>st'. sqlite_view (rt_store rt') rid = Some (st', True) \<and> st' \<noteq> ''success''"
proof -
  have "refused rid (sqlite_view (rt_store rt)) (rt_processes rt)" using assms(3-5) by (auto simp: refused_def)
  with sqlite_runs_refused [OF assms(6)] begin_inv [OF assms(1,2)] show ?thesis by (auto simp: refused_def)
qed

section \<open>The end of a task\<close>

text \<open>
  C22: A task that returns has settled its run: in every reachable state the run of a task that
  ended without an exception is in a terminal status in the store.
\<close>

theorem returned_task_settled_its_run:
  assumes "sqlite_runs cfg w en (runtime_begin s h g) rt" "unused g"
    and "rt_processes rt rid = Some p" "pc_phase p = Ended (Ret ())"
  shows "\<exists>r. find_run rid (rt_store rt) = Some r \<and> ru_status r \<in> set TERMINAL_STATUSES"
proof -
  from begin_inv [OF assms(1,2)] have "settled_inv (rt_processes rt) (sqlite_view (rt_store rt))" by (simp add: runtime_inv_def)
  with assms(3,4) show ?thesis by (auto simp: settled_inv_def sqlite_view_def)
qed

section \<open>Refused submissions\<close>

text \<open>
  A submission that raises leaves nothing behind: in every reachable state with the lifecycle
  lock free, an admission that ends in an exception has changed neither the store nor the runtime.
\<close>

theorem refused_submission_changes_nothing:
  assumes "sqlite_runs cfg w en (runtime_begin s h g) rt" "unused g"
    and "admit_run cfg (sqlite_store en now) rq cx credentials v vt rt = (Raise e, rt')"
  shows "rt' = rt"
proof -
  let ?S = "sqlite_store en now"
  have steer: "snd (on_store (steering_target cfg ?S rq cx vt) rt) = rt"
    using sq.steering_target_keeps [of ?S en cfg rq cx vt "rt_store rt"]
    by (cases "steering_target cfg ?S rq cx vt (rt_store rt)") (auto simp: on_store_def)
  obtain q s' where acc: "ra_accept ?S rq cx (rt_store rt) = (q, s')" by fastforce
  show ?thesis
  proof (cases q)
    case (Inl x)
    with acc accept_changes [of en rq cx now "rt_store rt" q s'] have "s' = rt_store rt" by (auto simp: sqlite_store_def)
    with acc Inl assms(3) steer show ?thesis unfolding admit_run_def
      by (auto simp: bind_op_def on_store_def guard_op_def split: prod.splits sum.splits if_splits option.splits)
  next
    case (Inr p)
    have "\<not> ag_draining (rt_heap rt ! n)" if "rt_active rt = Some n" for n
      using begin_inv [OF assms(1,2)] that by (simp add: runtime_inv_def graph_inv_def)
    with acc Inr assms(3) steer show ?thesis unfolding admit_run_def
      by (auto simp: bind_op_def on_store_def guard_op_def acquire_graph_def graph_acquire_def split: prod.splits sum.splits if_splits option.splits)
  qed
qed

section \<open>A run cancelled before its task starts\<close>

lemma sqlite_runs_left_binding:
  assumes "sqlite_runs cfg w en rt rt'" "runtime_inv (sqlite_view (rt_store rt)) rt" "bound_inv rt"
    and "gone (rt_processes rt) rid" "map_of (rt_run_graphs rt) rid = Some n"
  shows "gone (rt_processes rt') rid \<and> map_of (rt_run_graphs rt') rid = Some n \<and> \<not> ag_drained (rt_heap rt' ! n)"
proof -
  have keep: "gone (rt_processes rt') rid \<and> map_of (rt_run_graphs rt') rid = Some n"
    using assms
  proof (induction rule: runtime_reach.induct)
    case (reach_step rt1 rt2)
    have inv: "runtime_inv (sqlite_view (rt_store rt1)) rt1" using sqlite_runs_inv [OF reach_step(1,4,5)] by simp
    show ?case
      by (rule sq.left_binding_stays [OF reach_step(2) inv]) (use reach_step in \<open>auto simp: elsewhere_def\<close>)
  qed simp
  then have G: "map_of (rt_run_graphs rt') rid = Some n" by simp
  have lease: "lease_inv (rt_run_graphs rt') (rt_heap rt')" using sqlite_runs_inv [OF assms(1-3)] by (simp add: runtime_inv_def)
  have n: "n < length (rt_heap rt')" using lease_invD(2) [OF lease map_of_SomeD [OF G]] by simp
  have "n \<in> snd ` set (rt_run_graphs rt')" using imageI [OF map_of_SomeD [OF G], of snd] by simp
  then have "count_list (map snd (rt_run_graphs rt')) n \<noteq> 0" by (simp add: count_list_0_iff)
  with keep lease_invD(3,4) [OF lease n] show ?thesis by simp
qed

text \<open>
  A task that is cancelled before its first step never enters \<^verbatim>\<open>_execute\<close>: it ends, its run stays
  as it is in the store, and its graph keeps the lease for ever: in no later state does the graph
  count as drained.
\<close>

theorem cancelled_before_start:
  assumes "sqlite_runs cfg w en (runtime_begin s h g) rt" "unused g"
    and p: "rt_processes rt rid = Some p" "pc_phase p = Fresh" "pc_pending p"
  shows "\<exists>rt'. resume_run cfg (sqlite_store en now) rid Cancels rt = Some rt' \<and> rt_store rt' = rt_store rt \<and> ended rid rt'
    \<and> (\<forall>rt''. sqlite_runs cfg w en rt' rt'' \<longrightarrow> \<not> ag_drained (rt_heap rt'' ! pc_graph p))"
proof -
  let ?rt = "goto rid (p\<lparr>pc_pending := False\<rparr>) (Ended (Raise CancelledError)) rt"
  have live: "\<not> process_ended p" using p(2) by (simp add: process_ended_def)
  have res: "resume_run cfg (sqlite_store en now) rid Cancels rt = Some ?rt" using p live by (simp add: resume_run_def may_resume_def)
  have step: "runtime_step cfg w (range (sqlite_store en)) elsewhere rt ?rt" by (rule step_resume [OF _ res]) simp
  from begin_inv [OF assms(1,2)] have inv: "runtime_inv (sqlite_view (rt_store rt)) rt" "bound_inv rt" by simp_all
  have gone: "gone (rt_processes ?rt) rid" by (simp add: goto_def set_process_def gone_def process_ended_def)
  have G: "map_of (rt_run_graphs ?rt) rid = Some (pc_graph p)"
    using inv(1) p(1) live by (auto simp: runtime_inv_def task_inv_def goto_def set_process_def)
  have "\<not> ag_drained (rt_heap rt'' ! pc_graph p)" if "sqlite_runs cfg w en ?rt rt''" for rt''
    using sqlite_runs_left_binding [OF that sqlite_step_inv [OF step inv] gone G] by simp
  with res show ?thesis by (intro exI [of _ ?rt]) (simp add: goto_def set_process_def ended_def process_ended_def)
qed

section \<open>An example run\<close>

definition ex_config :: runtime_config where
  "ex_config = \<lparr>rw_agent_id = cx_agent_id ex_context, rw_privacy = False, rw_credentials = False, rw_error_output = (\<lambda>_. JNull)\<rparr>"

definition ex_graph :: "bool active_graph" where
  "ex_graph = new_graph (ex_profile_of 1 []) (registry_init []) []"

definition ex_idle :: "(store, bool) runtime" where
  "ex_idle = runtime_begin store_empty ex_host ex_graph"

abbreviation "ex_yes \<equiv> \<lparr>vd_delegation = Some (Ret True), vd_policy = Ret True\<rparr>"

definition ex_submit :: "string \<Rightarrow> (store, bool) runtime \<Rightarrow> (store, bool) runtime" where
  "ex_submit rid rt = (let rt1 = snd (admit_run ex_config (sqlite_store ex_env 5) (ex_request rid) ex_context (Ret ()) ex_yes ex_yes rt)
     in case register_run (sqlite_store ex_env 5) rt1 of None \<Rightarrow> rt1 | Some rt2 \<Rightarrow> rt2)"

definition ex_resume :: "string \<Rightarrow> answer \<Rightarrow> (store, bool) runtime \<Rightarrow> (store, bool) runtime" where
  "ex_resume rid a rt = (case resume_run ex_config (sqlite_store ex_env 6) rid a rt of None \<Rightarrow> rt | Some rt' \<Rightarrow> rt')"

definition ex_resumes :: "string \<Rightarrow> answer list \<Rightarrow> (store, bool) runtime \<Rightarrow> (store, bool) runtime" where
  "ex_resumes rid = fold (ex_resume rid)"

abbreviation "ex_runs \<equiv> sqlite_runs ex_config ex_modules ex_env"

lemma ex_unused: "unused ex_graph"
  by (simp add: unused_def ex_graph_def new_graph_def)

lemma ex_submit_runs: "ex_runs rt0 rt \<Longrightarrow> lifecycle_free rt \<Longrightarrow> ex_runs rt0 (ex_submit rid rt)"
proof -
  let ?S = "sqlite_store ex_env 5"
  let ?rt1 = "snd (admit_run ex_config ?S (ex_request rid) ex_context (Ret ()) ex_yes ex_yes rt)"
  assume "ex_runs rt0 rt" "lifecycle_free rt"
  then have 1: "ex_runs rt0 ?rt1" by (rule reach_step [OF _ step_submit [OF rangeI _ surjective_pairing]])
  show ?thesis
  proof (cases "register_run ?S ?rt1")
    case None
    with 1 show ?thesis by (simp add: ex_submit_def Let_def)
  next
    case (Some rt2)
    have "ex_runs rt0 rt2" by (rule reach_step [OF 1], rule step_register [OF _ Some]) simp
    with Some show ?thesis by (simp add: ex_submit_def Let_def)
  qed
qed

lemma ex_resumes_runs: "ex_runs rt0 rt \<Longrightarrow> ex_runs rt0 (ex_resumes rid as rt)"
proof (induction "as" arbitrary: rt)
  case (Cons a as)
  have "ex_runs rt0 (ex_resume rid a rt)"
    using Cons.prems by (auto simp: ex_resume_def split: option.split intro: reach_step step_resume [OF rangeI])
  from Cons.IH [OF this] show ?case by (simp add: ex_resumes_def)
qed (simp add: ex_resumes_def)

definition ex_two :: "(store, bool) runtime" where
  "ex_two = ex_resumes ''r2'' [Proceeds] (ex_resumes ''r1'' [Proceeds, Proceeds, Decides ex_yes, Proceeds, Proceeds] (ex_submit ''r2'' (ex_submit ''r1'' ex_idle)))"

definition ex_phase :: "string \<Rightarrow> (store, bool) runtime \<Rightarrow> phase option" where
  "ex_phase rid rt = map_option pc_phase (rt_processes rt rid)"

lemma ex_two_phases: "ex_phase ''r1'' ex_two = Some Executing" "ex_phase ''r2'' ex_two = Some Queued"
  by code_simp+

lemma ex_two_runs: "ex_runs ex_idle ex_two"
proof -
  have "lifecycle_free ex_idle" "lifecycle_free (ex_submit ''r1'' ex_idle)" by code_simp+
  then show ?thesis unfolding ex_two_def by (intro ex_resumes_runs ex_submit_runs reach_begin)
qed

lemmas ex_two_begin = ex_two_runs [unfolded ex_idle_def]

lemma ex_two_first:
  obtains p where "rt_processes ex_two ''r1'' = Some p" "pc_phase p = Executing"
  using ex_two_phases(1) by (auto simp: ex_phase_def)

lemma session_runs_one_at_a_time_witness:
  "\<exists>p. rt_processes ex_two ''r1'' = Some p \<and> pc_phase p = Executing \<and> hd (rt_queues ex_two (session_key p)) = ''r1''"
proof -
  obtain p where "rt_processes ex_two ''r1'' = Some p" "pc_phase p = Executing" by (rule ex_two_first)
  with session_runs_one_at_a_time [OF ex_two_begin ex_unused] show ?thesis by (auto simp: holding_def locked_def)
qed

abbreviation "ex_key \<equiv> (cx_tenant_id ex_context, ''s1'')"

lemma ex_two_queue: "rt_queues ex_two ex_key = [''r1'', ''r2'']"
  by code_simp

lemma session_lock_progress_witness: "\<exists>p a. rt_processes ex_two ''r1'' = Some p \<and> may_resume ''r1'' p a ex_two"
proof -
  have "rt_queues ex_two ex_key \<noteq> []" by (simp add: ex_two_queue)
  from session_lock_progress [OF ex_two_begin ex_unused this] show ?thesis by (auto simp: ex_two_queue)
qed

lemma graph_outlives_its_runs_witness:
  "\<exists>p. rt_processes ex_two ''r1'' = Some p \<and> (rt_active ex_two = Some (pc_graph p) \<or> pc_graph p \<in> fst ` set (rt_drains ex_two))"
proof -
  obtain p where p: "rt_processes ex_two ''r1'' = Some p" "pc_phase p = Executing" by (rule ex_two_first)
  then have "\<not> process_ended p" by (simp add: process_ended_def)
  from graph_outlives_its_runs [OF ex_two_begin ex_unused p(1) this] p(1) show ?thesis by auto
qed

lemma leases_count_runs_witness: "ag_leases (rt_heap ex_two ! 0) = 2"
proof -
  have "0 < length (rt_heap ex_two)" "count_list (map snd (rt_run_graphs ex_two)) 0 = 2" by code_simp+
  with leases_count_runs [OF ex_two_begin ex_unused] show ?thesis by auto
qed

text \<open>Another process asks for the first run to be cancelled; the run goes on to its end.\<close>

definition ex_flag :: "string \<Rightarrow> (store, bool) runtime \<Rightarrow> (store, bool) runtime" where
  "ex_flag rid rt = rt\<lparr>rt_store := snd (store_request_cancel rid 6 (rt_store rt))\<rparr>"

lemma ex_flag_runs: "ex_runs rt0 rt \<Longrightarrow> ex_runs rt0 (ex_flag rid rt)"
  unfolding ex_flag_def
proof (erule reach_step, rule step_elsewhere)
  have "ra_request_cancel (sqlite_store ex_env 6) rid = store_request_cancel rid 6" by (simp add: sqlite_store_def)
  with sq.request_cancel_quiet [of "sqlite_store ex_env 6" ex_env "rt_store rt" rid]
  show "elsewhere (rt_store rt) (snd (store_request_cancel rid 6 (rt_store rt)))" by (simp add: elsewhere_def)
qed

definition ex_last :: "answer list" where
  "ex_last = [Gives (JStr ''hi''), Decides ex_yes, Proceeds, Proceeds]"

lemma cancelled_run_never_succeeds_witness:
  "\<exists>st. sqlite_view (rt_store (ex_resumes ''r1'' ex_last (ex_flag ''r1'' ex_two))) ''r1'' = Some (st, True) \<and> st \<noteq> ''success''"
proof (rule cancelled_run_never_succeeds [OF ex_flag_runs [OF ex_two_begin] ex_unused])
  show "sqlite_view (rt_store (ex_flag ''r1'' ex_two)) ''r1'' = Some (''running'', True)" by code_simp
  show "''running'' \<noteq> ''success''" by simp
  show "ex_runs (ex_flag ''r1'' ex_two) (ex_resumes ''r1'' ex_last (ex_flag ''r1'' ex_two))" by (intro ex_resumes_runs reach_begin)
  fix p v assume "rt_processes (ex_flag ''r1'' ex_two) ''r1'' = Some p"
  then have "rt_processes ex_two ''r1'' = Some p" by (simp add: ex_flag_def)
  then show "pc_phase p \<noteq> Committing v False" using ex_two_phases(1) by (auto simp: ex_phase_def)
qed

text \<open>A run that is cancelled before it has the lock is withdrawn.\<close>

definition ex_withdrawn :: "(store, bool) runtime" where
  "ex_withdrawn = ex_resumes ''r1'' [Proceeds, Proceeds, Decides ex_yes, Proceeds, Proceeds] (ex_flag ''r1'' (ex_submit ''r1'' ex_idle))"

lemma returned_task_settled_its_run_witness:
  "\<exists>r. find_run ''r1'' (rt_store ex_withdrawn) = Some r \<and> ru_status r \<in> set TERMINAL_STATUSES"
proof -
  have "ex_phase ''r1'' ex_withdrawn = Some (Ended (Ret ()))" by code_simp
  then obtain p where p: "rt_processes ex_withdrawn ''r1'' = Some p" "pc_phase p = Ended (Ret ())" by (auto simp: ex_phase_def)
  have "lifecycle_free ex_idle" by code_simp
  then have "ex_runs ex_idle ex_withdrawn" unfolding ex_withdrawn_def by (intro ex_resumes_runs ex_flag_runs ex_submit_runs reach_begin)
  from returned_task_settled_its_run [OF this [unfolded ex_idle_def] ex_unused p] show ?thesis .
qed

lemma refused_submission_changes_nothing_witness:
  "snd (admit_run ex_config (sqlite_store ex_env 7) ((ex_request ''r3'')\<lparr>rq_session_id := ''s2''\<rparr>) ex_context (Ret ()) ex_yes ex_yes ex_two) = ex_two"
proof -
  let ?a = "admit_run ex_config (sqlite_store ex_env 7) ((ex_request ''r3'')\<lparr>rq_session_id := ''s2''\<rparr>) ex_context (Ret ()) ex_yes ex_yes ex_two"
  have "isl (fst ?a)" by code_simp
  then obtain e where "?a = (Raise e, snd ?a)" by (cases ?a; cases "fst ?a") auto
  from refused_submission_changes_nothing [OF ex_two_begin ex_unused this] show ?thesis .
qed

text \<open>A client cancels the first run before its task has started.\<close>

definition ex_cancelling :: "answer \<Rightarrow> (store, bool) runtime \<Rightarrow> (store, bool) runtime" where
  "ex_cancelling a rt = (case resume_cancel ex_config (sqlite_store ex_env 6) 0 a rt of None \<Rightarrow> rt | Some rt' \<Rightarrow> rt')"

definition ex_marked :: "(store, bool) runtime" where
  "ex_marked = fold ex_cancelling [Decides ex_yes, Decides ex_yes, Proceeds] (call_cancel ''r1'' ex_context False (ex_submit ''r1'' ex_idle))"

lemma ex_cancelling_runs: "ex_runs rt0 rt \<Longrightarrow> ex_runs rt0 (fold ex_cancelling as rt)"
proof (induction "as" arbitrary: rt)
  case (Cons a as)
  have "ex_runs rt0 (ex_cancelling a rt)"
    using Cons.prems by (auto simp: ex_cancelling_def split: option.split intro: reach_step step_cancelling [OF rangeI])
  from Cons.IH [OF this] show ?case by simp
qed simp

lemma cancelled_before_start_witness:
  "\<exists>rt' n. resume_run ex_config (sqlite_store ex_env 7) ''r1'' Cancels ex_marked = Some rt' \<and> ended ''r1'' rt' \<and> \<not> ag_drained (rt_heap rt' ! n)"
proof -
  have "lifecycle_free ex_idle" by code_simp
  then have "ex_runs ex_idle ex_marked"
    unfolding ex_marked_def by (intro ex_cancelling_runs reach_step [OF _ step_cancel] ex_submit_runs reach_begin)
  note runs = this [unfolded ex_idle_def]
  have "map_option (\<lambda>p. (pc_phase p, pc_pending p)) (rt_processes ex_marked ''r1'') = Some (Fresh, True)" by code_simp
  then obtain p where p: "rt_processes ex_marked ''r1'' = Some p" "pc_phase p = Fresh" "pc_pending p" by auto
  from cancelled_before_start [OF runs ex_unused p, of 7] obtain rt' where
    "resume_run ex_config (sqlite_store ex_env 7) ''r1'' Cancels ex_marked = Some rt'" "ended ''r1'' rt'"
    "\<not> ag_drained (rt_heap rt' ! pc_graph p)" using reach_begin by blast
  then show ?thesis by blast
qed

end
