(* ===== verification/ExecutionPolicy.thy ===== *)
theory ExecutionPolicy
  imports WorkflowRun
begin

text \<open>
  The execution policies of unattended runs (\<^verbatim>\<open>core/execution_policy.py\<close>): the validation of a
  policy and the composition of nested policies, with the normalised tool families of
  \<^verbatim>\<open>core/tool_scope.py\<close>.  A float is a real number or one of the values that are none; the
  texts of floats, \<^verbatim>\<open>str(item)\<close> of what is no string, and \<^verbatim>\<open>json.loads\<close> are parameters.
\<close>

section \<open>Values\<close>

datatype py_float =
    Finite real
  | Infinite bool
  | NotANumber

text \<open>The order of Python's floats: a comparison with \<^verbatim>\<open>nan\<close> is false; \<open>Infinite True\<close> is \<^verbatim>\<open>inf\<close>.\<close>

fun float_less :: "py_float \<Rightarrow> py_float \<Rightarrow> bool" where
  "float_less (Finite x) (Finite y) = (x < y)"
| "float_less (Finite x) (Infinite b) = b"
| "float_less (Infinite b) (Finite y) = (\<not> b)"
| "float_less (Infinite a) (Infinite b) = (\<not> a \<and> b)"
| "float_less _ _ = False"

text \<open>A value of the mapping, and what a policy may be given as.\<close>

datatype policy_value =
    Json json
  | Float py_float

datatype policy_input =
    NoPolicy
  | PolicyText string
  | PolicyMapping "(string \<times> policy_value) list"
  | PolicyOther

record policy_texts =
  pt_float :: "string \<Rightarrow> py_float option"
  pt_str :: "json \<Rightarrow> string"
  pt_loads :: "string \<Rightarrow> policy_input option"

text \<open>A normalised policy; a key that is missing is \<open>None\<close>.\<close>

record policy =
  ep_calls :: "int option"
  ep_timeout :: "py_float option"
  ep_families :: "string list option"

definition no_limits :: policy where
  "no_limits = \<lparr>ep_calls = None, ep_timeout = None, ep_families = None\<rparr>"

abbreviation OverflowError :: py_error where "OverflowError \<equiv> OtherError ''OverflowError''"

section \<open>Validation\<close>

text \<open>
  \<^verbatim>\<open>int(raw)\<close> and \<^verbatim>\<open>float(raw)\<close> with \<^verbatim>\<open>TypeError\<close> and \<^verbatim>\<open>ValueError\<close> turned into
  \<^verbatim>\<open>ValueError\<close>; an infinite float has no integer and a large integer no float.
\<close>

fun policy_int :: "policy_value \<Rightarrow> int res" where
  "policy_int (Json (JBool _)) = Raise ValueError"
| "policy_int (Json v) = (case py_int v of Inl _ \<Rightarrow> Raise ValueError | Inr i \<Rightarrow> Ret i)"
| "policy_int (Float (Finite x)) = Ret (WorkflowRun.truncate x)"
| "policy_int (Float (Infinite _)) = Raise OverflowError"
| "policy_int (Float NotANumber) = Raise ValueError"

definition float_limit :: int where
  "float_limit = 2 ^ 1024 - 2 ^ 970"

fun policy_float :: "policy_texts \<Rightarrow> policy_value \<Rightarrow> py_float res" where
  "policy_float pt (Json (JBool _)) = Raise ValueError"
| "policy_float pt (Json (JInt i)) = (if \<bar>i\<bar> \<ge> float_limit then Raise OverflowError else Ret (Finite (of_int i)))"
| "policy_float pt (Json (JFloat x)) = Ret (Finite x)"
| "policy_float pt (Json (JStr s)) = (case pt_float pt s of None \<Rightarrow> Raise ValueError | Some f \<Rightarrow> Ret f)"
| "policy_float pt (Json _) = Raise ValueError"
| "policy_float pt (Float f) = Ret f"

definition given :: "(string \<times> policy_value) list \<Rightarrow> string \<Rightarrow> policy_value option" where
  "given m k = (case map_of m k of Some (Json JNull) \<Rightarrow> None | v \<Rightarrow> v)"

definition check_calls :: "(string \<times> policy_value) list \<Rightarrow> int option res" where
  "check_calls m =
     (case given m ''max_tool_calls'' of
        None \<Rightarrow> Ret None
      | Some v \<Rightarrow> bind_res (policy_int v) (\<lambda>n. if n < 1 \<or> n > 500 then Raise ValueError else Ret (Some n)))"

definition check_timeout :: "policy_texts \<Rightarrow> (string \<times> policy_value) list \<Rightarrow> py_float option res" where
  "check_timeout pt m =
     (case given m ''timeout_seconds'' of
        None \<Rightarrow> Ret None
      | Some v \<Rightarrow> bind_res (policy_float pt v) (\<lambda>t.
          if float_less t (Finite 5) \<or> float_less (Finite 86400) t then Raise ValueError else Ret (Some t)))"

definition text_of :: "policy_texts \<Rightarrow> json \<Rightarrow> string" where
  "text_of pt v = (case v of JStr s \<Rightarrow> s | _ \<Rightarrow> pt_str pt v)"

fun collect_families :: "policy_texts \<Rightarrow> string list \<Rightarrow> json list \<Rightarrow> string list res" where
  "collect_families pt fs [] = Ret fs"
| "collect_families pt fs (v # vs) =
     (let f = strip (text_of pt v) in
      if f = [] then Raise ValueError
      else if length f > 100 then Raise ValueError
      else collect_families pt (if f \<in> set fs then fs else fs @ [f]) vs)"

definition check_families :: "policy_texts \<Rightarrow> (string \<times> policy_value) list \<Rightarrow> string list option res" where
  "check_families pt m =
     (case given m ''allowed_tool_families'' of
        None \<Rightarrow> Ret None
      | Some (Json (JArr vs)) \<Rightarrow> bind_res (collect_families pt [] vs) (\<lambda>fs.
          if length fs > 64 then Raise ValueError else Ret (Some fs))
      | Some _ \<Rightarrow> Raise ValueError)"

definition allowed_keys :: "string list" where
  "allowed_keys = [''max_tool_calls'', ''timeout_seconds'', ''allowed_tool_families'']"

definition normalize_mapping :: "policy_texts \<Rightarrow> (string \<times> policy_value) list \<Rightarrow> policy res" where
  "normalize_mapping pt m =
     (if \<not> set (map fst m) \<subseteq> set allowed_keys then Raise ValueError
      else bind_res (check_calls m) (\<lambda>n. bind_res (check_timeout pt m) (\<lambda>t. bind_res (check_families pt m) (\<lambda>fs.
        Ret \<lparr>ep_calls = n, ep_timeout = t, ep_families = fs\<rparr>))))"

definition normalize_policy :: "policy_texts \<Rightarrow> policy_input \<Rightarrow> policy res" where
  "normalize_policy pt v =
     (case v of
        NoPolicy \<Rightarrow> Ret no_limits
      | PolicyText [] \<Rightarrow> Ret no_limits
      | PolicyText s \<Rightarrow> (case pt_loads pt s of
            Some (PolicyMapping m) \<Rightarrow> normalize_mapping pt m
          | _ \<Rightarrow> Raise ValueError)
      | PolicyMapping m \<Rightarrow> normalize_mapping pt m
      | PolicyOther \<Rightarrow> Raise ValueError)"

text \<open>
  A normalised policy as a mapping again, and \<^verbatim>\<open>encode_execution_policy\<close>: the text of the column
  is the policy it was dumped from.
\<close>

definition policy_items :: "policy \<Rightarrow> (string \<times> policy_value) list" where
  "policy_items p =
     (case ep_calls p of None \<Rightarrow> [] | Some n \<Rightarrow> [(''max_tool_calls'', Json (JInt n))])
     @ (case ep_timeout p of None \<Rightarrow> [] | Some t \<Rightarrow> [(''timeout_seconds'', Float t)])
     @ (case ep_families p of None \<Rightarrow> [] | Some fs \<Rightarrow> [(''allowed_tool_families'', Json (JArr (map JStr fs)))])"

definition encode_policy :: "policy_texts \<Rightarrow> policy_input \<Rightarrow> policy option res" where
  "encode_policy pt v = bind_res (normalize_policy pt v) (\<lambda>p. Ret (if policy_items p = [] then None else Some p))"

definition stored_policy :: "policy option \<Rightarrow> policy_input" where
  "stored_policy p = (case p of None \<Rightarrow> NoPolicy | Some q \<Rightarrow> PolicyMapping (policy_items q))"

definition task_execution_policy :: "policy_texts \<Rightarrow> policy option \<Rightarrow> policy res" where
  "task_execution_policy pt p = normalize_policy pt (stored_policy p)"

section \<open>Nested policies\<close>

definition alnum :: "char \<Rightarrow> bool" where
  "alnum c \<longleftrightarrow> (let n = (of_char c :: nat) in
     48 \<le> n \<and> n \<le> 57 \<or> 65 \<le> n \<and> n \<le> 90 \<or> 97 \<le> n \<and> n \<le> 122
     \<or> n \<in> {170, 178, 179, 181, 185, 186, 188, 189, 190} \<or> 192 \<le> n \<and> n \<noteq> 215 \<and> n \<noteq> 247)"

definition normalize_family :: "string \<Rightarrow> string" where
  "normalize_family = map (\<lambda>c. if alnum c \<or> c = CHR ''_'' then c else CHR ''_'')"

text \<open>\<^verbatim>\<open>min\<close> of a list of one or two values: the first one unless the second is smaller.\<close>

definition least_of :: "('a \<Rightarrow> 'a \<Rightarrow> bool) \<Rightarrow> 'a option \<Rightarrow> 'a option \<Rightarrow> 'a option" where
  "least_of lt x y =
     (case (x, y) of
        (Some a, Some b) \<Rightarrow> Some (if lt b a then b else a)
      | (Some a, None) \<Rightarrow> Some a
      | (None, b) \<Rightarrow> b)"

definition common_families :: "string list option \<Rightarrow> string list option \<Rightarrow> string list option" where
  "common_families x y =
     (case (x, y) of
        (Some fs, Some gs) \<Rightarrow> Some (filter (\<lambda>f. normalize_family f \<in> normalize_family ` set gs) fs)
      | (Some fs, None) \<Rightarrow> Some fs
      | (None, gs) \<Rightarrow> gs)"

definition narrow_policy :: "policy_texts \<Rightarrow> policy_input \<Rightarrow> policy_input \<Rightarrow> policy res" where
  "narrow_policy pt parent child =
     bind_res (normalize_policy pt parent) (\<lambda>p. bind_res (normalize_policy pt child) (\<lambda>q.
       Ret \<lparr>ep_calls = least_of (<) (ep_calls p) (ep_calls q),
            ep_timeout = least_of float_less (ep_timeout p) (ep_timeout q),
            ep_families = common_families (ep_families p) (ep_families q)\<rparr>))"

text \<open>
  \<^verbatim>\<open>set_tool_allowlist\<close> and the composition of a policy with the tools the surrounding run may
  use (\<^verbatim>\<open>event_dispatcher._execute_event\<close>): the families that stay, and the allowlist that the
  run then sees.
\<close>

definition frozen_families :: "string list option \<Rightarrow> string set option" where
  "frozen_families fs = map_option (\<lambda>xs. normalize_family ` set xs) fs"

definition scope_families :: "string list option \<Rightarrow> string set option \<Rightarrow> string list option" where
  "scope_families fs ambient =
     (case (fs, ambient) of
        (Some xs, Some a) \<Rightarrow> Some (filter (\<lambda>f. normalize_family f \<in> a) xs)
      | _ \<Rightarrow> fs)"

definition run_allowlist :: "policy \<Rightarrow> string set option \<Rightarrow> string set option" where
  "run_allowlist p ambient =
     (case scope_families (ep_families p) ambient of None \<Rightarrow> ambient | Some fs \<Rightarrow> frozen_families (Some fs))"

text \<open>What a run may do under a policy: a tool family, a number of calls, a number of seconds.\<close>

definition family_allowed :: "policy \<Rightarrow> string \<Rightarrow> bool" where
  "family_allowed p f = (case ep_families p of None \<Rightarrow> True | Some fs \<Rightarrow> normalize_family f \<in> normalize_family ` set fs)"

definition calls_allowed :: "policy \<Rightarrow> int \<Rightarrow> bool" where
  "calls_allowed p n = (case ep_calls p of None \<Rightarrow> True | Some m \<Rightarrow> n \<le> m)"

definition time_allowed :: "policy \<Rightarrow> real \<Rightarrow> bool" where
  "time_allowed p x = (case ep_timeout p of None \<Rightarrow> True | Some t \<Rightarrow> \<not> float_less t (Finite x))"

definition numeric_timeout :: "policy \<Rightarrow> bool" where
  "numeric_timeout p \<longleftrightarrow> ep_timeout p \<noteq> Some NotANumber"

section \<open>What validation accepts\<close>

definition family_ok :: "string \<Rightarrow> bool" where
  "family_ok f \<longleftrightarrow> f \<noteq> [] \<and> strip f = f \<and> length f \<le> 100"

definition policy_ok :: "policy \<Rightarrow> bool" where
  "policy_ok p \<longleftrightarrow>
     (\<forall>n. ep_calls p = Some n \<longrightarrow> 1 \<le> n \<and> n \<le> 500)
     \<and> (\<forall>t. ep_timeout p = Some t \<longrightarrow> \<not> float_less t (Finite 5) \<and> \<not> float_less (Finite 86400) t)
     \<and> (\<forall>fs. ep_families p = Some fs \<longrightarrow> distinct fs \<and> length fs \<le> 64 \<and> (\<forall>f \<in> set fs. family_ok f))"

lemma strip_idem [simp]: "strip (strip s) = strip s"
proof -
  define t where "t = dropWhile py_space s"
  define u where "u = rev (dropWhile py_space (rev t))"
  have tu: "t = u @ rev (takeWhile py_space (rev t))"
    unfolding u_def by (metis rev_append rev_rev_ident takeWhile_dropWhile_id)
  have "dropWhile py_space u = u"
  proof (cases u)
    case (Cons c cs)
    with tu have "t = c # cs @ rev (takeWhile py_space (rev t))" by simp
    then have "\<not> py_space c" unfolding t_def by (metis hd_dropWhile list.distinct(1) list.sel(1))
    with Cons show ?thesis by simp
  qed simp
  moreover have "dropWhile py_space (rev u) = rev u"
    by (simp add: u_def dropWhile_idem)
  moreover have "strip s = u"
    by (simp add: strip_def u_def t_def)
  ultimately show ?thesis
    by (simp add: strip_def)
qed

lemma collect_families_ok:
  "collect_families pt fs vs = Ret gs \<Longrightarrow> distinct fs \<Longrightarrow> \<forall>f \<in> set fs. family_ok f \<Longrightarrow>
   distinct gs \<and> (\<forall>f \<in> set gs. family_ok f)"
proof (induction vs arbitrary: fs)
  case (Cons v vs)
  let ?f = "strip (text_of pt v)"
  from Cons.prems(1) have *: "family_ok ?f" "collect_families pt (if ?f \<in> set fs then fs else fs @ [?f]) vs = Ret gs"
    by (auto simp: Let_def family_ok_def split: if_splits)
  with Cons.prems(2,3) show ?case
    by (intro Cons.IH [OF *(2)]) auto
qed simp

lemma collect_families_same:
  "distinct (gs @ fs) \<Longrightarrow> \<forall>f \<in> set fs. family_ok f \<Longrightarrow> collect_families pt gs (map JStr fs) = Ret (gs @ fs)"
proof (induction fs arbitrary: gs)
  case (Cons f fs)
  then show ?case
    using Cons.IH [of "gs @ [f]"] by (simp add: text_of_def family_ok_def)
qed simp

lemma normalize_mapping_ok:
  assumes "normalize_mapping pt m = Ret p" shows "policy_ok p"
proof -
  from assms obtain n t fs where
    n: "check_calls m = Ret n" and t: "check_timeout pt m = Ret t" and fs: "check_families pt m = Ret fs"
    and p: "p = \<lparr>ep_calls = n, ep_timeout = t, ep_families = fs\<rparr>"
    by (auto simp: normalize_mapping_def bind_res_Inr split: if_splits)
  from n have "\<forall>k. n = Some k \<longrightarrow> 1 \<le> k \<and> k \<le> 500"
    by (auto simp: check_calls_def bind_res_Inr split: option.splits if_splits)
  moreover from t have "\<forall>x. t = Some x \<longrightarrow> \<not> float_less x (Finite 5) \<and> \<not> float_less (Finite 86400) x"
    by (auto simp: check_timeout_def bind_res_Inr split: option.splits if_splits)
  moreover from fs have "\<forall>xs. fs = Some xs \<longrightarrow> distinct xs \<and> length xs \<le> 64 \<and> (\<forall>f \<in> set xs. family_ok f)"
    by (auto simp: check_families_def bind_res_Inr dest!: collect_families_ok
      split: option.splits policy_value.splits json.splits if_splits)
  ultimately show ?thesis
    by (simp add: p policy_ok_def)
qed

lemma normalize_policy_ok:
  "normalize_policy pt v = Ret p \<Longrightarrow> policy_ok p"
  by (auto simp: normalize_policy_def policy_ok_def no_limits_def dest: normalize_mapping_ok
    split: policy_input.splits list.splits option.splits)

lemma items_given:
  "given (policy_items p) ''max_tool_calls'' = map_option (\<lambda>n. Json (JInt n)) (ep_calls p)"
  "given (policy_items p) ''timeout_seconds'' = map_option Float (ep_timeout p)"
  "given (policy_items p) ''allowed_tool_families'' = map_option (\<lambda>fs. Json (JArr (map JStr fs))) (ep_families p)"
  by (auto simp: given_def policy_items_def split: option.splits)

lemma normalize_items:
  assumes "policy_ok p" shows "normalize_mapping pt (policy_items p) = Ret p"
proof -
  have "set (map fst (policy_items p)) \<subseteq> set allowed_keys"
    by (auto simp: policy_items_def allowed_keys_def split: option.splits)
  moreover have "check_calls (policy_items p) = Ret (ep_calls p)"
    using assms by (auto simp: check_calls_def items_given policy_ok_def py_int_def split: option.splits)
  moreover have "check_timeout pt (policy_items p) = Ret (ep_timeout p)"
    using assms by (auto simp: check_timeout_def items_given policy_ok_def split: option.splits)
  moreover have "check_families pt (policy_items p) = Ret (ep_families p)"
    using assms collect_families_same [of "[]"]
    by (auto simp: check_families_def items_given policy_ok_def split: option.splits)
  ultimately show ?thesis
    by (simp add: normalize_mapping_def)
qed

lemma items_Nil: "policy_items p = [] \<longleftrightarrow> p = no_limits"
  by (cases p) (auto simp: policy_items_def no_limits_def split: option.splits)

lemma stored_policy_read:
  "policy_ok p \<Longrightarrow> normalize_policy pt (stored_policy (if policy_items p = [] then None else Some p)) = Ret p"
  by (simp add: stored_policy_def normalize_policy_def normalize_items items_Nil)

text \<open>
  C0: A policy that is accepted is within its bounds (at most 500 calls, a timeout
  that is not below 5 or above 86400 seconds, at most 64 different families without blanks around
  them), and the column it is stored in reads back as the same policy.
\<close>

theorem policy_stored:
  assumes "encode_policy pt v = Ret column"
  shows "\<exists>p. normalize_policy pt v = Ret p \<and> policy_ok p \<and> task_execution_policy pt column = Ret p"
proof -
  from assms obtain p where p: "normalize_policy pt v = Ret p" "column = (if policy_items p = [] then None else Some p)"
    by (auto simp: encode_policy_def bind_res_Inr)
  with normalize_policy_ok have "policy_ok p" by blast
  with p show ?thesis by (simp add: task_execution_policy_def stored_policy_read)
qed

section \<open>What nested policies allow\<close>

lemma float_less_irrefl_bounds:
  "\<not> float_less t (Finite 5) \<Longrightarrow> \<not> float_less (Finite 86400) t \<Longrightarrow> t = NotANumber \<or> (\<exists>x. t = Finite x \<and> 5 \<le> x \<and> x \<le> 86400)"
  by (cases t) auto

lemma timeout_real:
  assumes "policy_ok p" "ep_timeout p = Some t" "t \<noteq> NotANumber"
  obtains x where "t = Finite x" "5 \<le> x" "x \<le> 86400"
  using assms float_less_irrefl_bounds [of t] by (auto simp: policy_ok_def)

lemma image_filter_iff: "g y \<in> g ` {x \<in> S. g x \<in> T} \<longleftrightarrow> g y \<in> g ` S \<and> g y \<in> T"
proof
  assume "g y \<in> g ` S \<and> g y \<in> T"
  then obtain x where "x \<in> S" "g y = g x" by blast
  with \<open>g y \<in> g ` S \<and> g y \<in> T\<close> show "g y \<in> g ` {x \<in> S. g x \<in> T}" by simp
qed auto

lemma families_meet:
  "family_allowed (p\<lparr>ep_families := common_families (ep_families p) (ep_families q)\<rparr>) f \<longleftrightarrow>
   family_allowed p f \<and> family_allowed q f"
  by (simp add: family_allowed_def common_families_def image_filter_iff split: option.splits)

lemma calls_meet:
  "calls_allowed (p\<lparr>ep_calls := least_of (<) (ep_calls p) (ep_calls q)\<rparr>) n \<longleftrightarrow> calls_allowed p n \<and> calls_allowed q n"
  by (auto simp: calls_allowed_def least_of_def split: option.splits)

lemma time_meet:
  assumes "policy_ok p" "policy_ok q" "numeric_timeout p"
  shows "time_allowed (p\<lparr>ep_timeout := least_of float_less (ep_timeout p) (ep_timeout q)\<rparr>) x \<longleftrightarrow>
    time_allowed p x \<and> time_allowed q x"
proof (cases "ep_timeout p")
  case None
  then show ?thesis by (simp add: time_allowed_def least_of_def split: option.splits)
next
  case (Some t)
  with assms obtain y where y: "t = Finite y"
    by (metis numeric_timeout_def timeout_real)
  show ?thesis
  proof (cases "ep_timeout q")
    case None
    with Some show ?thesis by (simp add: time_allowed_def least_of_def)
  next
    case (Some u)
    show ?thesis
    proof (cases "u = NotANumber")
      case False
      with assms Some obtain z where "u = Finite z" by (metis timeout_real)
      with y Some \<open>ep_timeout p = Some t\<close> show ?thesis by (auto simp: time_allowed_def least_of_def)
    qed (use y Some \<open>ep_timeout p = Some t\<close> in \<open>simp add: time_allowed_def least_of_def\<close>)
  qed
qed

lemma narrow_ok:
  assumes "policy_ok p" "policy_ok q"
  shows "policy_ok \<lparr>ep_calls = least_of (<) (ep_calls p) (ep_calls q),
     ep_timeout = least_of float_less (ep_timeout p) (ep_timeout q),
     ep_families = common_families (ep_families p) (ep_families q)\<rparr>"
  using assms unfolding policy_ok_def least_of_def common_families_def
  by (auto split: option.splits intro: le_trans [OF length_filter_le])

lemma allowlist_meet:
  "(\<forall>a. run_allowlist p ambient = Some a \<longrightarrow> normalize_family f \<in> a) \<longleftrightarrow>
   family_allowed p f \<and> (\<forall>a. ambient = Some a \<longrightarrow> normalize_family f \<in> a)"
  by (simp add: run_allowlist_def scope_families_def frozen_families_def family_allowed_def image_filter_iff split: option.splits)

text \<open>
  C38: A nested policy is the meet of the two: it allows exactly the families and the
  numbers of calls that both allow, and, unless the outer timeout is no number, exactly the
  running times that both allow; it is itself a policy that validation accepts unchanged.  The
  tools that a run under it may use are those it allows among the ones of the surrounding run.
\<close>

theorem narrow_is_meet:
  assumes "narrow_policy pt parent child = Ret r"
  shows "\<exists>p q. normalize_policy pt parent = Ret p \<and> normalize_policy pt child = Ret q
    \<and> (\<forall>f. family_allowed r f \<longleftrightarrow> family_allowed p f \<and> family_allowed q f)
    \<and> (\<forall>n. calls_allowed r n \<longleftrightarrow> calls_allowed p n \<and> calls_allowed q n)
    \<and> (numeric_timeout p \<longrightarrow> (\<forall>x. time_allowed r x \<longleftrightarrow> time_allowed p x \<and> time_allowed q x))
    \<and> normalize_policy pt (PolicyMapping (policy_items r)) = Ret r
    \<and> (\<forall>ambient f. (\<forall>a. run_allowlist r ambient = Some a \<longrightarrow> normalize_family f \<in> a) \<longleftrightarrow>
         family_allowed r f \<and> (\<forall>a. ambient = Some a \<longrightarrow> normalize_family f \<in> a))"
proof -
  from assms obtain p q where p: "normalize_policy pt parent = Ret p" and q: "normalize_policy pt child = Ret q"
    and r: "r = \<lparr>ep_calls = least_of (<) (ep_calls p) (ep_calls q),
       ep_timeout = least_of float_less (ep_timeout p) (ep_timeout q),
       ep_families = common_families (ep_families p) (ep_families q)\<rparr>"
    by (auto simp: narrow_policy_def bind_res_Inr)
  from p q have ok: "policy_ok p" "policy_ok q" by (auto dest: normalize_policy_ok)
  then have "normalize_policy pt (PolicyMapping (policy_items r)) = Ret r"
    using narrow_ok normalize_items by (simp add: normalize_policy_def r)
  moreover have "\<forall>f. family_allowed r f \<longleftrightarrow> family_allowed p f \<and> family_allowed q f"
    using families_meet [of p q] by (simp add: r family_allowed_def)
  moreover have "\<forall>n. calls_allowed r n \<longleftrightarrow> calls_allowed p n \<and> calls_allowed q n"
    using calls_meet [of p q] by (simp add: r calls_allowed_def)
  moreover have "numeric_timeout p \<longrightarrow> (\<forall>x. time_allowed r x \<longleftrightarrow> time_allowed p x \<and> time_allowed q x)"
    using time_meet [OF ok] by (simp add: r time_allowed_def)
  ultimately show ?thesis
    using p q allowlist_meet [of r] by blast
qed

section \<open>Witnesses\<close>

text \<open>Texts in which only \<^verbatim>\<open>nan\<close> is a float.\<close>

definition sample_texts :: policy_texts where
  "sample_texts = \<lparr>pt_float = (\<lambda>s. if s = ''nan'' then Some NotANumber else None), pt_str = (\<lambda>_. ''?''), pt_loads = (\<lambda>_. None)\<rparr>"

definition sample_policy :: policy_input where
  "sample_policy = PolicyMapping [(''timeout_seconds'', Json (JInt 60)), (''max_tool_calls'', Json (JStr ''20'')),
     (''allowed_tool_families'', Json (JArr [JStr ''web'', JStr '' vault '', JStr ''web'']))]"

definition sample_child :: policy_input where
  "sample_child = PolicyMapping [(''timeout_seconds'', Json (JInt 90)), (''max_tool_calls'', Json (JInt 5)),
     (''allowed_tool_families'', Json (JArr [JStr ''web'', JStr ''shell'']))]"

lemma sample_values:
  "normalize_policy sample_texts sample_policy =
     Ret \<lparr>ep_calls = Some 20, ep_timeout = Some (Finite 60), ep_families = Some [''web'', ''vault'']\<rparr>"
  "normalize_policy sample_texts sample_child =
     Ret \<lparr>ep_calls = Some 5, ep_timeout = Some (Finite 90), ep_families = Some [''web'', ''shell'']\<rparr>"
  by (simp_all add: normalize_policy_def sample_policy_def sample_child_def sample_texts_def normalize_mapping_def allowed_keys_def
      check_calls_def check_timeout_def check_families_def given_def text_of_def strip_def py_space_def py_int_def int_text_def
      is_digit_def float_limit_def less_eq_char_def)

lemma sample_encoded:
  "encode_policy sample_texts sample_policy =
     Ret (Some \<lparr>ep_calls = Some 20, ep_timeout = Some (Finite 60), ep_families = Some [''web'', ''vault'']\<rparr>)"
  by (simp add: encode_policy_def sample_values policy_items_def)

theorem policy_stored_witness:
  "\<exists>p. normalize_policy sample_texts sample_policy = Ret p \<and> policy_ok p
     \<and> task_execution_policy sample_texts
         (Some \<lparr>ep_calls = Some 20, ep_timeout = Some (Finite 60), ep_families = Some [''web'', ''vault'']\<rparr>) = Ret p"
  by (rule policy_stored [OF sample_encoded])

lemma sample_narrowed:
  "narrow_policy sample_texts sample_policy sample_child =
     Ret \<lparr>ep_calls = Some 5, ep_timeout = Some (Finite 60), ep_families = Some [''web'']\<rparr>"
  by (simp add: narrow_policy_def sample_values least_of_def common_families_def normalize_family_def alnum_def)

theorem narrow_is_meet_witness:
  "\<exists>r. narrow_policy sample_texts sample_policy sample_child = Ret r \<and> family_allowed r ''web'' \<and> \<not> family_allowed r ''vault''
     \<and> \<not> family_allowed r ''shell'' \<and> calls_allowed r 5 \<and> \<not> calls_allowed r 6"
proof -
  let ?r = "\<lparr>ep_calls = Some 5, ep_timeout = Some (Finite 60), ep_families = Some [''web'']\<rparr>"
  obtain p q where "normalize_policy sample_texts sample_policy = Ret p" "normalize_policy sample_texts sample_child = Ret q"
    and "\<forall>f. family_allowed ?r f \<longleftrightarrow> family_allowed p f \<and> family_allowed q f"
    and "\<forall>n. calls_allowed ?r n \<longleftrightarrow> calls_allowed p n \<and> calls_allowed q n"
    using narrow_is_meet [OF sample_narrowed] by blast
  then show ?thesis
    by (simp add: sample_narrowed sample_values family_allowed_def calls_allowed_def normalize_family_def alnum_def) auto
qed

text \<open>
  A timeout that is no number passes the comparisons that bound it, and as the outer timeout it
  removes the inner one.
\<close>

lemma nan_timeout_accepted:
  "normalize_policy sample_texts (PolicyMapping [(''timeout_seconds'', Json (JStr ''nan''))]) =
     Ret \<lparr>ep_calls = None, ep_timeout = Some NotANumber, ep_families = None\<rparr>"
  by (simp add: normalize_policy_def sample_texts_def normalize_mapping_def allowed_keys_def
      check_calls_def check_timeout_def check_families_def given_def)

lemma nan_timeout_unbounded:
  "\<exists>r. narrow_policy sample_texts (PolicyMapping [(''timeout_seconds'', Json (JStr ''nan''))]) sample_child = Ret r
     \<and> (\<forall>x. time_allowed r x)"
  by (simp add: narrow_policy_def nan_timeout_accepted sample_values least_of_def time_allowed_def)

end
