(* ===== verification/EventTables.thy ===== *)
theory EventTables
  imports RunTables ExecutionPolicy
begin

text \<open>
  The webhook events of \<^verbatim>\<open>memory/db.py\<close>: the tables \<^verbatim>\<open>events\<close>, \<^verbatim>\<open>event_session_bindings\<close>
  and \<^verbatim>\<open>event_deliveries\<close>, the last of which is both the history of an event and the queue from
  which workers claim deliveries under a lease.  \<^verbatim>\<open>time.time()\<close> and new identifiers are
  arguments; a call that gives up on a locked database changes nothing and is left out.
\<close>

section \<open>Rows\<close>

record event_row =
  ev_id :: string
  ev_name :: string
  ev_slug :: string
  ev_description :: "string option"
  ev_type :: string
  ev_enabled :: bool
  ev_secret :: "string option"
  ev_hint :: "string option"
  ev_schema :: "json list"
  ev_kind :: string
  ev_ref :: "string option"
  ev_template :: "string option"
  ev_model :: "string option"
  ev_binding :: bool
  ev_path :: "string option"
  ev_precondition :: "json option"
  ev_policy :: "policy option"
  ev_rate :: int
  ev_max_payload :: int
  ev_triggered :: "real option"
  ev_failures :: nat
  ev_max_retries :: "int option"
  ev_tripped :: "real option"
  ev_last_failure :: "string option"
  ev_created :: real
  ev_updated :: real

record delivery =
  dl_id :: string
  dl_event :: string
  dl_source :: string
  dl_external :: "string option"
  dl_status :: string
  dl_payload :: "(string \<times> json) list"
  dl_started :: real
  dl_finished :: "real option"
  dl_output :: "string option"
  dl_error :: "string option"
  dl_session :: "string option"
  dl_workflow_run :: "string option"
  dl_task_run :: "string option"
  dl_claimed :: "real option"
  dl_reenqueues :: nat
  dl_expires :: "real option"
  dl_worker :: "string option"
  dl_pid :: "int option"
  dl_heartbeat :: "real option"

record binding =
  bn_event :: string
  bn_key :: string
  bn_session :: string
  bn_created :: real
  bn_updated :: real

record event_db =
  ed_events :: "event_row list"
  ed_deliveries :: "delivery list"
  ed_bindings :: "binding list"

text \<open>
  A process that uses the tables: its worker identity, the lease, and the settings it reads from
  the environment.
\<close>

record queue_env =
  qe_worker :: string
  qe_pid :: int
  qe_ttl :: real
  qe_reenqueue :: bool
  qe_backfill :: bool
  qe_transient :: bool
  qe_attempts :: int
  qe_retry_delay :: real
  qe_breaker :: bool
  qe_threshold :: int

definition lease_ttl :: "queue_env \<Rightarrow> real" where
  "lease_ttl qe = max 1 (qe_ttl qe)"

text \<open>\<^verbatim>\<open>x or None\<close> of an optional text.\<close>

definition or_none :: "string option \<Rightarrow> string option" where
  "or_none s = (if s = Some [] then None else s)"

section \<open>Events\<close>

record event_args =
  ea_name :: string
  ea_kind :: string
  ea_slug :: string
  ea_secret :: string
  ea_hint :: "string option"
  ea_type :: string
  ea_description :: "string option"
  ea_schema :: "json list"
  ea_ref :: "string option"
  ea_template :: "string option"
  ea_model :: "string option"
  ea_binding :: bool
  ea_path :: "string option"
  ea_policy :: policy_input
  ea_rate :: int
  ea_max_payload :: int
  ea_enabled :: bool

definition stripped :: "string option \<Rightarrow> string option" where
  "stripped s = or_none (map_option strip s)"

definition insert_event :: "event_row \<Rightarrow> (event_db, unit) op" where
  "insert_event r d =
     (if ev_id r \<in> ev_id ` set (ed_events d) \<or> ev_slug r \<in> ev_slug ` set (ed_events d) then (Raise IntegrityError, d)
      else (Ret (), d\<lparr>ed_events := ed_events d @ [r]\<rparr>))"

definition add_event :: "policy_texts \<Rightarrow> real \<Rightarrow> string \<Rightarrow> event_args \<Rightarrow> (event_db, string) op" where
  "add_event pt now i a =
     bind_op (lift_op (encode_policy pt (ea_policy a))) (\<lambda>p.
     bind_op (insert_event \<lparr>ev_id = i, ev_name = ea_name a, ev_slug = ea_slug a, ev_description = or_none (ea_description a),
        ev_type = ea_type a, ev_enabled = ea_enabled a, ev_secret = Some (ea_secret a), ev_hint = ea_hint a, ev_schema = ea_schema a,
        ev_kind = ea_kind a, ev_ref = or_none (ea_ref a), ev_template = or_none (ea_template a), ev_model = or_none (ea_model a),
        ev_binding = ea_binding a, ev_path = stripped (ea_path a), ev_precondition = None, ev_policy = p, ev_rate = ea_rate a,
        ev_max_payload = ea_max_payload a, ev_triggered = None, ev_failures = 0, ev_max_retries = None, ev_tripped = None,
        ev_last_failure = None, ev_created = now, ev_updated = now\<rparr>)
     (\<lambda>_. ret_op i))"

text \<open>\<^verbatim>\<open>_row_to_event\<close>: the row without its secret, and its normalised policy.\<close>

definition row_to_event :: "policy_texts \<Rightarrow> bool \<Rightarrow> event_row \<Rightarrow> (event_row \<times> policy) res" where
  "row_to_event pt include r =
     bind_res (task_execution_policy pt (ev_policy r))
       (\<lambda>p. Ret (if include then r else r\<lparr>ev_secret := None\<rparr>, p))"

fun each_res :: "('a \<Rightarrow> 'b res) \<Rightarrow> 'a list \<Rightarrow> 'b list res" where
  "each_res f [] = Ret []"
| "each_res f (x # xs) = bind_res (f x) (\<lambda>y. bind_res (each_res f xs) (\<lambda>ys. Ret (y # ys)))"

definition list_events :: "policy_texts \<Rightarrow> bool \<Rightarrow> event_db \<Rightarrow> (event_row \<times> policy) list res" where
  "list_events pt enabled_only d =
     each_res (row_to_event pt False) (rev (sort_key ev_created (filter (\<lambda>r. enabled_only \<longrightarrow> ev_enabled r) (ed_events d))))"

definition event_with :: "policy_texts \<Rightarrow> bool \<Rightarrow> (event_row \<Rightarrow> bool) \<Rightarrow> event_db \<Rightarrow> (event_row \<times> policy) option res" where
  "event_with pt include p d =
     (case List.find p (ed_events d) of None \<Rightarrow> Ret None | Some r \<Rightarrow> bind_res (row_to_event pt include r) (\<lambda>e. Ret (Some e)))"

definition get_event :: "policy_texts \<Rightarrow> bool \<Rightarrow> string \<Rightarrow> event_db \<Rightarrow> (event_row \<times> policy) option res" where
  "get_event pt include i = event_with pt include (\<lambda>r. ev_id r = i)"

definition get_event_by_slug :: "policy_texts \<Rightarrow> bool \<Rightarrow> string \<Rightarrow> event_db \<Rightarrow> (event_row \<times> policy) option res" where
  "get_event_by_slug pt include slug = event_with pt include (\<lambda>r. ev_slug r = slug)"

definition slug_exists :: "string \<Rightarrow> event_db \<Rightarrow> bool" where
  "slug_exists slug d \<longleftrightarrow> slug \<in> ev_slug ` set (ed_events d)"

text \<open>The keyword arguments of \<^verbatim>\<open>update_event\<close>; any other key is ignored.\<close>

datatype event_col =
    EName string
  | ESlug string
  | EDescription "string option"
  | EType string
  | EEnabled bool
  | EKind string
  | ERef "string option"
  | ETemplate "string option"
  | EModel "string option"
  | ERate int
  | EMaxPayload int
  | ETriggered "real option"
  | EBinding bool
  | EPath "string option"
  | EPrecondition "json option"
  | EPolicy policy_input
  | ESecret string
  | EHint "string option"
  | ESchema "json list"
  | EOther string

fun event_setter :: "policy_texts \<Rightarrow> event_col \<Rightarrow> (event_row \<Rightarrow> event_row) list res" where
  "event_setter pt (EName x) = Ret [\<lambda>r. r\<lparr>ev_name := x\<rparr>]"
| "event_setter pt (ESlug x) = Ret [\<lambda>r. r\<lparr>ev_slug := x\<rparr>]"
| "event_setter pt (EDescription x) = Ret [\<lambda>r. r\<lparr>ev_description := x\<rparr>]"
| "event_setter pt (EType x) = Ret [\<lambda>r. r\<lparr>ev_type := x\<rparr>]"
| "event_setter pt (EEnabled x) = Ret [\<lambda>r. r\<lparr>ev_enabled := x\<rparr>]"
| "event_setter pt (EKind x) = Ret [\<lambda>r. r\<lparr>ev_kind := x\<rparr>]"
| "event_setter pt (ERef x) = Ret [\<lambda>r. r\<lparr>ev_ref := x\<rparr>]"
| "event_setter pt (ETemplate x) = Ret [\<lambda>r. r\<lparr>ev_template := x\<rparr>]"
| "event_setter pt (EModel x) = Ret [\<lambda>r. r\<lparr>ev_model := x\<rparr>]"
| "event_setter pt (ERate x) = Ret [\<lambda>r. r\<lparr>ev_rate := x\<rparr>]"
| "event_setter pt (EMaxPayload x) = Ret [\<lambda>r. r\<lparr>ev_max_payload := x\<rparr>]"
| "event_setter pt (ETriggered x) = Ret [\<lambda>r. r\<lparr>ev_triggered := x\<rparr>]"
| "event_setter pt (EBinding x) = Ret [\<lambda>r. r\<lparr>ev_binding := x\<rparr>]"
| "event_setter pt (EPath x) = Ret [\<lambda>r. r\<lparr>ev_path := stripped x\<rparr>]"
| "event_setter pt (EPrecondition x) = Ret [\<lambda>r. r\<lparr>ev_precondition := x\<rparr>]"
| "event_setter pt (EPolicy x) = bind_res (encode_policy pt x) (\<lambda>p. Ret [\<lambda>r. r\<lparr>ev_policy := p\<rparr>])"
| "event_setter pt (ESecret x) = Ret [\<lambda>r. r\<lparr>ev_secret := Some x\<rparr>]"
| "event_setter pt (EHint x) = Ret [\<lambda>r. r\<lparr>ev_hint := x\<rparr>]"
| "event_setter pt (ESchema x) = Ret [\<lambda>r. r\<lparr>ev_schema := x\<rparr>]"
| "event_setter pt (EOther _) = Ret []"

definition update_event :: "policy_texts \<Rightarrow> real \<Rightarrow> string \<Rightarrow> event_col list \<Rightarrow> (event_db, unit) op" where
  "update_event pt now i cols d =
     (case each_res (event_setter pt) cols of
        Inl e \<Rightarrow> (Raise e, d)
      | Inr fss \<Rightarrow>
          (if concat fss = [] then (Ret (), d)
           else let es = update_where (\<lambda>r. ev_id r = i) (\<lambda>r. (fold (\<lambda>f. f) (concat fss) r)\<lparr>ev_updated := now\<rparr>) (ed_events d)
                in if distinct (map ev_slug es) then (Ret (), d\<lparr>ed_events := es\<rparr>) else (Raise IntegrityError, d)))"

definition rotate_event_secret :: "policy_texts \<Rightarrow> real \<Rightarrow> string \<Rightarrow> string \<Rightarrow> string \<Rightarrow> (event_db, unit) op" where
  "rotate_event_secret pt now i secret hint = update_event pt now i [ESecret secret, EHint (Some hint)]"

text \<open>\<^verbatim>\<open>ON DELETE CASCADE\<close> removes the deliveries and the bindings.\<close>

definition delete_event :: "string \<Rightarrow> event_db \<Rightarrow> event_db" where
  "delete_event i d = d\<lparr>ed_events := filter (\<lambda>r. ev_id r \<noteq> i) (ed_events d),
     ed_deliveries := filter (\<lambda>r. dl_event r \<noteq> i) (ed_deliveries d),
     ed_bindings := filter (\<lambda>b. bn_event b \<noteq> i) (ed_bindings d)\<rparr>"

section \<open>Session bindings\<close>

definition get_binding :: "string \<Rightarrow> string \<Rightarrow> event_db \<Rightarrow> binding option" where
  "get_binding i k d = List.find (\<lambda>b. bn_event b = i \<and> bn_key b = k) (ed_bindings d)"

text \<open>
  \<^verbatim>\<open>INSERT OR IGNORE\<close> ignores a taken key, but a missing event still violates the foreign key.
\<close>

definition get_or_create_binding :: "real \<Rightarrow> string \<Rightarrow> string \<Rightarrow> string \<Rightarrow> (event_db, string \<times> bool) op" where
  "get_or_create_binding now i k candidate d =
     (case get_binding i k d of
        Some b \<Rightarrow> (Ret (bn_session b, False),
          d\<lparr>ed_bindings := update_where (\<lambda>b. bn_event b = i \<and> bn_key b = k) (\<lambda>b. b\<lparr>bn_updated := now\<rparr>) (ed_bindings d)\<rparr>)
      | None \<Rightarrow>
          (if i \<notin> ev_id ` set (ed_events d) then (Raise IntegrityError, d)
           else (Ret (candidate, True), d\<lparr>ed_bindings := ed_bindings d @
             [\<lparr>bn_event = i, bn_key = k, bn_session = candidate, bn_created = now, bn_updated = now\<rparr>]\<rparr>)))"

section \<open>Deliveries\<close>

definition count_recent_deliveries :: "real \<Rightarrow> string \<Rightarrow> real \<Rightarrow> event_db \<Rightarrow> nat" where
  "count_recent_deliveries now i window d =
     length (filter (\<lambda>r. dl_event r = i \<and> dl_started r \<ge> now - window) (ed_deliveries d))"

definition add_event_delivery ::
    "queue_env \<Rightarrow> real \<Rightarrow> string \<Rightarrow> string \<Rightarrow> string \<Rightarrow> string option \<Rightarrow> (string \<times> json) list \<Rightarrow> string \<Rightarrow> bool \<Rightarrow> (event_db, string) op" where
  "add_event_delivery qe now did i source external payload status claimed d =
     (if did \<in> dl_id ` set (ed_deliveries d) \<or> i \<notin> ev_id ` set (ed_events d) then (Raise IntegrityError, d)
      else (Ret did,
        d\<lparr>ed_deliveries := ed_deliveries d @
             [\<lparr>dl_id = did, dl_event = i, dl_source = source, dl_external = external, dl_status = status, dl_payload = payload,
               dl_started = now, dl_finished = None, dl_output = None, dl_error = None, dl_session = None, dl_workflow_run = None,
               dl_task_run = None, dl_claimed = (if claimed then Some now else None), dl_reenqueues = 0,
               dl_expires = (if claimed then Some (now + lease_ttl qe) else None),
               dl_worker = (if claimed then Some (qe_worker qe) else None),
               dl_pid = (if claimed then Some (qe_pid qe) else None), dl_heartbeat = None\<rparr>],
           ed_events := update_where (\<lambda>r. ev_id r = i) (\<lambda>r. r\<lparr>ev_triggered := Some now\<rparr>) (ed_events d)\<rparr>))"

datatype delivery_col =
    DStatus string
  | DFinished "real option"
  | DOutput "string option"
  | DError "string option"
  | DSession "string option"
  | DWorkflowRun "string option"
  | DTaskRun "string option"
  | DOther string

fun set_delivery_col :: "delivery_col \<Rightarrow> delivery \<Rightarrow> delivery" where
  "set_delivery_col (DStatus s) r = r\<lparr>dl_status := s\<rparr>"
| "set_delivery_col (DFinished x) r = r\<lparr>dl_finished := x\<rparr>"
| "set_delivery_col (DOutput x) r = r\<lparr>dl_output := x\<rparr>"
| "set_delivery_col (DError x) r = r\<lparr>dl_error := x\<rparr>"
| "set_delivery_col (DSession x) r = r\<lparr>dl_session := x\<rparr>"
| "set_delivery_col (DWorkflowRun x) r = r\<lparr>dl_workflow_run := x\<rparr>"
| "set_delivery_col (DTaskRun x) r = r\<lparr>dl_task_run := x\<rparr>"
| "set_delivery_col (DOther _) r = r"

definition map_deliveries :: "(delivery list \<Rightarrow> delivery list) \<Rightarrow> event_db \<Rightarrow> event_db" where
  "map_deliveries f d = d\<lparr>ed_deliveries := f (ed_deliveries d)\<rparr>"

definition update_event_delivery :: "string \<Rightarrow> delivery_col list \<Rightarrow> event_db \<Rightarrow> event_db" where
  "update_event_delivery i cols = map_deliveries (update_where (\<lambda>r. dl_id r = i) (fold set_delivery_col cols))"

definition get_event_delivery :: "string \<Rightarrow> event_db \<Rightarrow> delivery option" where
  "get_event_delivery i d = List.find (\<lambda>r. dl_id r = i) (ed_deliveries d)"

definition list_event_deliveries :: "string \<Rightarrow> int \<Rightarrow> event_db \<Rightarrow> delivery list" where
  "list_event_deliveries i n d = sql_limit n (rev (sort_key dl_started (filter (\<lambda>r. dl_event r = i) (ed_deliveries d))))"

definition find_delivery_by_external_id :: "string \<Rightarrow> string \<Rightarrow> event_db \<Rightarrow> delivery option" where
  "find_delivery_by_external_id i x d =
     (if x = [] then None else List.find (\<lambda>r. dl_event r = i \<and> dl_external r = Some x) (ed_deliveries d))"

section \<open>The queue\<close>

definition claimable :: "string list option \<Rightarrow> delivery \<Rightarrow> bool" where
  "claimable ids r \<longleftrightarrow> dl_claimed r = None \<and> dl_finished r = None \<and> (case ids of None \<Rightarrow> True | Some is \<Rightarrow> dl_event r \<in> set is)"

definition next_deliveries :: "int \<Rightarrow> string list option \<Rightarrow> delivery list \<Rightarrow> delivery list" where
  "next_deliveries n ids t = sql_limit n (sort_key dl_started (filter (claimable ids) t))"

definition claimed_by :: "queue_env \<Rightarrow> real \<Rightarrow> delivery \<Rightarrow> delivery" where
  "claimed_by qe now r = r\<lparr>dl_claimed := Some now, dl_expires := Some (now + lease_ttl qe),
     dl_worker := Some (qe_worker qe), dl_pid := Some (qe_pid qe)\<rparr>"

definition claim_deliveries_in :: "queue_env \<Rightarrow> real \<Rightarrow> int \<Rightarrow> string list option \<Rightarrow> event_db \<Rightarrow> delivery list \<times> event_db" where
  "claim_deliveries_in qe now n ids d =
     (let picked = map dl_id (next_deliveries n ids (ed_deliveries d));
          t = update_where (\<lambda>r. dl_id r \<in> set picked \<and> dl_claimed r = None) (claimed_by qe now) (ed_deliveries d)
      in if picked = [] then ([], d)
         else (sort_key dl_started (filter (\<lambda>r. dl_id r \<in> set picked \<and> dl_claimed r = Some now) t), d\<lparr>ed_deliveries := t\<rparr>))"

definition claim_pending_event_deliveries :: "queue_env \<Rightarrow> real \<Rightarrow> int \<Rightarrow> string list option \<Rightarrow> event_db \<Rightarrow> delivery list \<times> event_db" where
  "claim_pending_event_deliveries qe now n ids d =
     (if ids = Some [] \<or> n \<le> 0 then ([], d) else claim_deliveries_in qe now n ids d)"

definition heartbeat_event_delivery :: "queue_env \<Rightarrow> real \<Rightarrow> string \<Rightarrow> string \<Rightarrow> event_db \<Rightarrow> nat \<times> event_db" where
  "heartbeat_event_delivery qe now i worker d =
     (let mine = (\<lambda>r. dl_id r = i \<and> dl_worker r = Some worker)
      in (length (filter mine (ed_deliveries d)),
          map_deliveries (update_where mine (\<lambda>r. r\<lparr>dl_expires := Some (now + lease_ttl qe), dl_heartbeat := Some now\<rparr>)) d))"

definition in_flight :: "delivery \<Rightarrow> bool" where
  "in_flight r \<longleftrightarrow> dl_status r \<in> {''received'', ''running''}"

definition count_open_event_deliveries :: "event_db \<Rightarrow> nat" where
  "count_open_event_deliveries d = length (filter in_flight (ed_deliveries d))"

section \<open>Recovery\<close>

text \<open>\<^verbatim>\<open>error LIKE '%m%'\<close>: SQLite folds the case of ASCII letters, and \<^verbatim>\<open>NULL\<close> matches nothing.\<close>

definition fold_case :: "string \<Rightarrow> string" where
  "fold_case = map (\<lambda>c. if CHR ''A'' \<le> c \<and> c \<le> CHR ''Z'' then char_of (of_char c + 32 :: nat) else c)"

fun contains_text :: "string \<Rightarrow> string \<Rightarrow> bool" where
  "contains_text m [] = (m = [])"
| "contains_text m (c # cs) = (take (length m) (c # cs) = m \<or> contains_text m cs)"

definition has_mark :: "string \<Rightarrow> string option \<Rightarrow> bool" where
  "has_mark m e = (case e of None \<Rightarrow> False | Some t \<Rightarrow> contains_text (fold_case m) (fold_case t))"

definition retryable_turn_mark :: string where
  "retryable_turn_mark = ''retryable: turn died without model capacity''"

text \<open>The two outcomes of a reaped delivery: parked as failed, or queued again.\<close>

definition park_delivery :: "real \<Rightarrow> string \<Rightarrow> delivery \<Rightarrow> delivery" where
  "park_delivery now who r = r\<lparr>dl_status := ''failed'', dl_finished := Some now,
     dl_error := append_error (who @ '': retry budget exhausted ('' @ show_nat (dl_reenqueues r) @ '' attempts)'') (dl_error r)\<rparr>"

definition requeue_delivery :: "string \<Rightarrow> delivery \<Rightarrow> delivery" where
  "requeue_delivery why r = r\<lparr>dl_status := ''received'', dl_claimed := None, dl_finished := None,
     dl_reenqueues := Suc (dl_reenqueues r),
     dl_error := Some (''re-enqueued: '' @ why @ '' (attempt '' @ show_nat (Suc (dl_reenqueues r)) @ '')'')\<rparr>"

definition clear_lease :: "delivery \<Rightarrow> delivery" where
  "clear_lease r = r\<lparr>dl_expires := None, dl_worker := None, dl_pid := None\<rparr>"

definition within_budget :: "int \<Rightarrow> delivery \<Rightarrow> bool" where
  "within_budget m r \<longleftrightarrow> int (dl_reenqueues r) < m"

text \<open>An \<^verbatim>\<open>UPDATE\<close> and its \<^verbatim>\<open>rowcount\<close>.\<close>

definition counted_update :: "('r \<Rightarrow> bool) \<Rightarrow> ('r \<Rightarrow> 'r) \<Rightarrow> 'r list \<Rightarrow> nat \<times> 'r list" where
  "counted_update p f t = (length (filter p t), update_where p f t)"

definition budget :: "queue_env \<Rightarrow> int option \<Rightarrow> int" where
  "budget qe given_attempts = max 1 (case given_attempts of None \<Rightarrow> qe_attempts qe | Some n \<Rightarrow> n)"

text \<open>
  What the reapers have in common: the rows \<open>p\<close> over the budget are parked first, then the
  rows \<open>q\<close> within it are queued again.
\<close>

definition park_then_requeue ::
    "int \<Rightarrow> (delivery \<Rightarrow> bool) \<Rightarrow> (delivery \<Rightarrow> delivery) \<Rightarrow> (delivery \<Rightarrow> bool) \<Rightarrow> (delivery \<Rightarrow> delivery) \<Rightarrow> delivery list \<Rightarrow> nat \<times> delivery list" where
  "park_then_requeue m p park q requeue t =
     (let (parked, t1) = counted_update (\<lambda>r. p r \<and> \<not> within_budget m r) park t;
          (requeued, t2) = counted_update (\<lambda>r. q r \<and> within_budget m r) requeue t1
      in (requeued + parked, t2))"

definition lease_expired :: "real \<Rightarrow> delivery \<Rightarrow> bool" where
  "lease_expired now r \<longleftrightarrow> (case dl_expires r of None \<Rightarrow> False | Some e \<Rightarrow> e < now)"

definition reap_expired_event_leases :: "queue_env \<Rightarrow> real \<Rightarrow> bool option \<Rightarrow> int option \<Rightarrow> event_db \<Rightarrow> nat \<times> event_db" where
  "reap_expired_event_leases qe now on attempts d =
     (if \<not> (case on of None \<Rightarrow> qe_reenqueue qe | Some b \<Rightarrow> b) then (0, d)
      else let lapsed = (\<lambda>r. lease_expired now r \<and> in_flight r);
               (n, t) = park_then_requeue (budget qe attempts)
                 lapsed (clear_lease \<circ> park_delivery now ''lease-reap'')
                 lapsed (clear_lease \<circ> requeue_delivery ''lease-reap recovered orphan'') (ed_deliveries d)
           in (n, d\<lparr>ed_deliveries := t\<rparr>))"

definition reap_orphan_event_deliveries ::
    "queue_env \<Rightarrow> real \<Rightarrow> bool option \<Rightarrow> int option \<Rightarrow> bool option \<Rightarrow> event_db \<Rightarrow> nat \<times> event_db" where
  "reap_orphan_event_deliveries qe now on attempts recover_failed d =
     (if \<not> (case on of None \<Rightarrow> qe_reenqueue qe | Some b \<Rightarrow> b) then
        let (n, t) = counted_update (\<lambda>r. in_flight r \<and> dl_claimed r \<noteq> None)
              (\<lambda>r. r\<lparr>dl_status := ''failed'', dl_finished := Some now, dl_error := append_error reap_marker (dl_error r)\<rparr>)
              (ed_deliveries d)
        in (n, d\<lparr>ed_deliveries := t\<rparr>)
      else let backfill = (case recover_failed of None \<Rightarrow> qe_backfill qe | Some b \<Rightarrow> b);
               (n, t) = park_then_requeue (budget qe attempts)
                 (\<lambda>r. dl_claimed r \<noteq> None \<and> in_flight r) (park_delivery now ''reaped'')
                 (\<lambda>r. dl_claimed r \<noteq> None
                    \<and> (in_flight r \<or> backfill \<and> dl_status r = ''failed'' \<and> has_mark reap_marker (dl_error r)
                       \<or> qe_transient qe \<and> dl_status r = ''failed'' \<and> has_mark retryable_turn_mark (dl_error r)))
                 (requeue_delivery ''recovered orphan'') (ed_deliveries d)
           in (n, d\<lparr>ed_deliveries := t\<rparr>))"

definition claimed_before :: "real \<Rightarrow> delivery \<Rightarrow> bool" where
  "claimed_before cutoff r \<longleftrightarrow> (case dl_claimed r of None \<Rightarrow> False | Some c \<Rightarrow> c \<le> cutoff)"

definition finished_before :: "real \<Rightarrow> delivery \<Rightarrow> bool" where
  "finished_before cutoff r \<longleftrightarrow> (case dl_finished r of None \<Rightarrow> False | Some f \<Rightarrow> f \<le> cutoff)"

definition reap_stale_event_deliveries :: "queue_env \<Rightarrow> real \<Rightarrow> real \<Rightarrow> int option \<Rightarrow> bool option \<Rightarrow> event_db \<Rightarrow> nat \<times> event_db" where
  "reap_stale_event_deliveries qe now age attempts on d =
     (if \<not> (case on of None \<Rightarrow> qe_reenqueue qe | Some b \<Rightarrow> b) then (0, d)
      else let m = budget qe attempts;
               stale = (\<lambda>r. claimed_before (now - max 0 age) r \<and> in_flight r);
               (n, t1) = park_then_requeue m
                 stale (park_delivery now ''stale-sweep'')
                 stale (requeue_delivery ''stale-sweep recovered orphan'') (ed_deliveries d);
               (retried, t2) = counted_update
                 (\<lambda>r. qe_transient qe \<and> dl_status r = ''failed'' \<and> has_mark retryable_turn_mark (dl_error r) \<and> within_budget m r
                    \<and> finished_before (now - max 0 (qe_retry_delay qe)) r)
                 (requeue_delivery ''no model capacity'') t1
           in (n + retried, d\<lparr>ed_deliveries := t2\<rparr>))"

section \<open>The circuit breaker\<close>

definition breaker_limit :: "queue_env \<Rightarrow> event_row \<Rightarrow> int" where
  "breaker_limit qe r = max 1 (case ev_max_retries r of Some n \<Rightarrow> n | None \<Rightarrow> max 1 (qe_threshold qe))"

text \<open>
  \<^verbatim>\<open>record_event_failure\<close> is three statements with an \<^verbatim>\<open>await\<close> each on the shared connection: count the
  failure, read the count, store the time of the trip.
\<close>

definition count_event_failure :: "string \<Rightarrow> string option \<Rightarrow> event_db \<Rightarrow> event_db" where
  "count_event_failure i error d = d\<lparr>ed_events := update_where (\<lambda>r. ev_id r = i)
     (\<lambda>r. r\<lparr>ev_failures := Suc (ev_failures r), ev_last_failure := map_option (take 2000) (or_none error)\<rparr>) (ed_events d)\<rparr>"

definition limit_reached :: "queue_env \<Rightarrow> string \<Rightarrow> event_db \<Rightarrow> bool" where
  "limit_reached qe i d \<longleftrightarrow> (case List.find (\<lambda>r. ev_id r = i) (ed_events d) of
     None \<Rightarrow> False | Some r \<Rightarrow> int (ev_failures r) \<ge> breaker_limit qe r)"

definition trip_event_breaker :: "real \<Rightarrow> string \<Rightarrow> event_db \<Rightarrow> event_db" where
  "trip_event_breaker now i d = d\<lparr>ed_events := update_where (\<lambda>r. ev_id r = i \<and> ev_tripped r = None)
     (\<lambda>r. r\<lparr>ev_tripped := Some now\<rparr>) (ed_events d)\<rparr>"

text \<open>A call that no other statement interrupts.\<close>

definition record_event_failure :: "queue_env \<Rightarrow> real \<Rightarrow> string \<Rightarrow> string option \<Rightarrow> event_db \<Rightarrow> event_db" where
  "record_event_failure qe now i error d =
     (if \<not> qe_breaker qe then d
      else let d1 = count_event_failure i error d
           in if limit_reached qe i d1 then trip_event_breaker now i d1 else d1)"

definition reset_event_breaker :: "queue_env \<Rightarrow> string \<Rightarrow> event_db \<Rightarrow> event_db" where
  "reset_event_breaker qe i d =
     (if qe_breaker qe then d\<lparr>ed_events := update_where (\<lambda>r. ev_id r = i)
        (\<lambda>r. r\<lparr>ev_failures := 0, ev_tripped := None, ev_last_failure := None\<rparr>) (ed_events d)\<rparr> else d)"

definition is_event_breaker_tripped :: "queue_env \<Rightarrow> string \<Rightarrow> event_db \<Rightarrow> bool" where
  "is_event_breaker_tripped qe i d \<longleftrightarrow>
     qe_breaker qe \<and> (case List.find (\<lambda>r. ev_id r = i) (ed_events d) of None \<Rightarrow> False | Some r \<Rightarrow> ev_tripped r \<noteq> None)"

end
