(* ===== verification/EventQueue.thy ===== *)
theory EventQueue
  imports EventTables
begin

text \<open>
  What the queue of deliveries promises.  Its operations are the steps of a transition system that
  any number of processes take at any times; the second component of a state lists the deliveries
  handed out so far.  A delivery is handed out once for each time it was queued, so at most one time
  more than the reapers' budget; while its lease is kept up it stays with its worker.
\<close>

section \<open>Updates of a table\<close>

lemma update_where_all:
  assumes "\<forall>r \<in> set t. P r" "\<And>r. P r \<Longrightarrow> q r \<Longrightarrow> P (f r)"
  shows "\<forall>r \<in> set (update_where q f t). P r"
  using assms by (auto simp: update_where_def)

lemma each_res_mem: "each_res f xs = Ret yss \<Longrightarrow> ys \<in> set yss \<Longrightarrow> \<exists>x \<in> set xs. f x = Ret ys"
  by (induction xs arbitrary: yss) (auto simp: bind_res_Inr)

lemma map_update_where:
  assumes "\<And>r. q r \<Longrightarrow> g (f r) = g r"
  shows "map g (update_where q f t) = map g t"
  using assms by (simp add: update_where_def)

lemma counted_update_snd [simp]: "snd (counted_update p f t) = update_where p f t"
  by (simp add: counted_update_def)

lemma dl_id_helpers [simp]:
  "dl_id (claimed_by qe now r) = dl_id r" "dl_id (park_delivery now w r) = dl_id r"
  "dl_id (requeue_delivery w r) = dl_id r" "dl_id (clear_lease r) = dl_id r"
  by (simp_all add: claimed_by_def park_delivery_def requeue_delivery_def clear_lease_def)

lemma set_delivery_col_keeps [simp]:
  "dl_id (set_delivery_col c r) = dl_id r" "dl_claimed (set_delivery_col c r) = dl_claimed r"
  "dl_reenqueues (set_delivery_col c r) = dl_reenqueues r" "dl_expires (set_delivery_col c r) = dl_expires r"
  by (cases c; simp)+

lemma fold_delivery_cols_keep [simp]:
  "dl_id (fold set_delivery_col cs r) = dl_id r" "dl_claimed (fold set_delivery_col cs r) = dl_claimed r"
  "dl_reenqueues (fold set_delivery_col cs r) = dl_reenqueues r" "dl_expires (fold set_delivery_col cs r) = dl_expires r"
  by (induction cs arbitrary: r) simp_all

section \<open>Claiming\<close>

lemma next_deliveries_sub: "set (next_deliveries n ids t) \<subseteq> {r \<in> set t. claimable ids r}"
  by (auto simp: next_deliveries_def sql_limit_def dest: in_set_takeD)

lemma claim_result:
  assumes "claim_pending_event_deliveries qe now n ids d = (rs, d')" "distinct (map dl_id (ed_deliveries d))"
  obtains picked where
    "\<forall>i \<in> picked. \<exists>r \<in> set (ed_deliveries d). dl_id r = i \<and> claimable ids r"
    "ed_deliveries d' = update_where (\<lambda>r. dl_id r \<in> picked) (claimed_by qe now) (ed_deliveries d)"
    "ed_events d' = ed_events d" "ed_bindings d' = ed_bindings d"
    "set (map dl_id rs) = picked" "distinct (map dl_id rs)" "\<forall>r \<in> set rs. dl_claimed r = Some now \<and> dl_worker r = Some (qe_worker qe)"
proof (cases "ids = Some [] \<or> n \<le> 0 \<or> next_deliveries n ids (ed_deliveries d) = []")
  case True
  with assms(1) have "rs = []" "d' = d"
    by (auto simp: claim_pending_event_deliveries_def claim_deliveries_in_def Let_def split: if_splits)
  then show thesis by (intro that [of "{}"]) (simp_all add: update_where_def)
next
  case False
  let ?t = "ed_deliveries d"
  let ?p = "set (map dl_id (next_deliveries n ids ?t))"
  let ?u = "update_where (\<lambda>r. dl_id r \<in> ?p \<and> dl_claimed r = None) (claimed_by qe now) ?t"
  have one: "r = r'" if "r \<in> set ?t" "r' \<in> set ?t" "dl_id r = dl_id r'" for r r'
    using assms(2) that by (simp add: distinct_map inj_on_def)
  have free: "dl_claimed r = None" if "r \<in> set ?t" "dl_id r \<in> ?p" for r
  proof -
    from that(2) obtain r' where r': "r' \<in> set (next_deliveries n ids ?t)" "dl_id r' = dl_id r" by auto
    with next_deliveries_sub have "r' \<in> set ?t" "claimable ids r'" by blast+
    with one that(1) r'(2) have "r' = r" by blast
    with \<open>claimable ids r'\<close> show ?thesis by (simp add: claimable_def)
  qed
  have u: "?u = update_where (\<lambda>r. dl_id r \<in> ?p) (claimed_by qe now) ?t"
    using free by (auto simp: update_where_def)
  from False assms(1) have rs: "rs = sort_key dl_started (filter (\<lambda>r. dl_id r \<in> ?p \<and> dl_claimed r = Some now) ?u)"
    and d': "d' = d\<lparr>ed_deliveries := ?u\<rparr>"
    by (auto simp: claim_pending_event_deliveries_def claim_deliveries_in_def Let_def split: if_splits)
  have in_u: "r \<in> set ?u \<longleftrightarrow> (\<exists>x \<in> set ?t. r = (if dl_id x \<in> ?p then claimed_by qe now x else x))" for r
    unfolding u by (auto simp: update_where_def)
  show thesis
  proof (rule that [of ?p])
    show "\<forall>i \<in> ?p. \<exists>r \<in> set ?t. dl_id r = i \<and> claimable ids r"
      using next_deliveries_sub by fastforce
    show "ed_deliveries d' = update_where (\<lambda>r. dl_id r \<in> ?p) (claimed_by qe now) ?t"
      using d' u by simp
    show "ed_events d' = ed_events d" "ed_bindings d' = ed_bindings d" using d' by simp_all
    show "set (map dl_id rs) = ?p"
    proof (intro equalityI subsetI)
      fix i assume "i \<in> ?p"
      then obtain x where "x \<in> set ?t" "dl_id x = i" using next_deliveries_sub by fastforce
      with \<open>i \<in> ?p\<close> have "claimed_by qe now x \<in> set ?u"
        unfolding in_u by (metis (no_types))
      moreover from \<open>i \<in> ?p\<close> \<open>dl_id x = i\<close> have "dl_id (claimed_by qe now x) \<in> ?p" "dl_claimed (claimed_by qe now x) = Some now"
        by (simp_all add: claimed_by_def)
      ultimately have "claimed_by qe now x \<in> set rs"
        unfolding rs set_sort set_filter by blast
      with \<open>dl_id x = i\<close> show "i \<in> set (map dl_id rs)"
        by (metis dl_id_helpers(1) image_eqI set_map)
    qed (auto simp: rs)
    have "distinct (map dl_id ?u)"
      using assms(2) by (subst map_update_where) simp_all
    then have "distinct (map dl_id (filter (\<lambda>r. dl_id r \<in> ?p \<and> dl_claimed r = Some now) ?u))"
      by (simp add: distinct_map_filter)
    then show "distinct (map dl_id rs)"
      unfolding rs by (simp add: distinct_map)
    show "\<forall>r \<in> set rs. dl_claimed r = Some now \<and> dl_worker r = Some (qe_worker qe)"
    proof
      fix r assume "r \<in> set rs"
      then have "r \<in> set ?u" "dl_id r \<in> ?p" unfolding rs set_sort set_filter by blast+
      then obtain x where "r = claimed_by qe now x" unfolding in_u by (metis (no_types))
      then show "dl_claimed r = Some now \<and> dl_worker r = Some (qe_worker qe)" by (simp add: claimed_by_def)
    qed
  qed
qed

section \<open>The transition system\<close>

text \<open>
  A step of any process: \<open>m\<close> bounds the attempts that the reapers are set to.  The label names the
  reapers' steps with their cut-off times, and the statements of the breaker.  A new delivery has an
  identifier that was not handed out before.
\<close>

type_synonym queue_state = "event_db \<times> string list"

datatype queue_label =
    Lease real
  | Boot
  | Stale real
  | Breaker
  | Other

inductive queue_step :: "int \<Rightarrow> queue_label \<Rightarrow> queue_state \<Rightarrow> queue_state \<Rightarrow> bool" for m where
  add_event: "add_event pt now i a d = (r, d') \<Longrightarrow> queue_step m Other (d, h) (d', h)"
| update_event: "update_event pt now i cols d = (u, d') \<Longrightarrow> queue_step m Other (d, h) (d', h)"
| delete_event: "queue_step m Other (d, h) (delete_event i d, h)"
| bind_session: "get_or_create_binding now i key s d = (r, d') \<Longrightarrow> queue_step m Other (d, h) (d', h)"
| deliver: "add_event_delivery qe now i e src ext payload st claimed d = (r, d') \<Longrightarrow> i \<notin> set h \<Longrightarrow>
    queue_step m Other (d, h) (d', if claimed \<and> r = Ret i then h @ [i] else h)"
| settle: "queue_step m Other (d, h) (update_event_delivery i dcols d, h)"
| claim: "claim_pending_event_deliveries qe now n ids d = (rs, d') \<Longrightarrow> queue_step m Other (d, h) (d', h @ map dl_id rs)"
| heartbeat: "heartbeat_event_delivery qe now i w d = (c, d') \<Longrightarrow> queue_step m Other (d, h) (d', h)"
| reap_leases: "reap_expired_event_leases qe now on attempts d = (c, d') \<Longrightarrow> budget qe attempts \<le> m \<Longrightarrow>
    queue_step m (Lease now) (d, h) (d', h)"
| reap_orphans: "reap_orphan_event_deliveries qe now on attempts failed d = (c, d') \<Longrightarrow> budget qe attempts \<le> m \<Longrightarrow>
    queue_step m Boot (d, h) (d', h)"
| reap_stale: "reap_stale_event_deliveries qe now age attempts on d = (c, d') \<Longrightarrow> budget qe attempts \<le> m \<Longrightarrow>
    queue_step m (Stale (now - max 0 age)) (d, h) (d', h)"
| failure: "queue_step m Breaker (d, h) (count_event_failure i err d, h)"
| trip: "queue_step m Breaker (d, h) (trip_event_breaker now i d, h)"
| reset: "queue_step m Breaker (d, h) (reset_event_breaker qe i d, h)"

inductive queue_reach :: "int \<Rightarrow> queue_state \<Rightarrow> bool" for m where
  empty: "queue_reach m (\<lparr>ed_events = [], ed_deliveries = [], ed_bindings = []\<rparr>, [])"
| step: "queue_reach m s \<Longrightarrow> queue_step m l s s' \<Longrightarrow> queue_reach m s'"

text \<open>What the operations do to the table of deliveries.\<close>

lemma other_tables:
  "add_event pt now i a d = (r, d') \<Longrightarrow> ed_deliveries d' = ed_deliveries d"
  "update_event pt now i cols d = (u, d') \<Longrightarrow> ed_deliveries d' = ed_deliveries d"
  "get_or_create_binding now i key s d = (b, d') \<Longrightarrow> ed_deliveries d' = ed_deliveries d"
  "ed_deliveries (count_event_failure i err d) = ed_deliveries d"
  "ed_deliveries (trip_event_breaker now i d) = ed_deliveries d"
  "ed_deliveries (reset_event_breaker qe i d) = ed_deliveries d"
  by (auto simp: add_event_def bind_op_def insert_event_def update_event_def get_or_create_binding_def count_event_failure_def
      trip_event_breaker_def reset_event_breaker_def Let_def split: sum.splits if_splits option.splits)

text \<open>
  A reaper updates each row by itself: it parks it or, within the budget, queues it again.
\<close>

lemma park_then_requeue_rows:
  assumes "park_then_requeue m p park q requeue t = (n, t')" "\<forall>r \<in> set t. P r"
    and "\<And>r. P r \<Longrightarrow> p r \<Longrightarrow> P (park r)" "\<And>r. P r \<Longrightarrow> q r \<Longrightarrow> within_budget m r \<Longrightarrow> P (requeue r)"
  shows "\<forall>r \<in> set t'. P r"
proof -
  from assms(1) have "t' = update_where (\<lambda>r. q r \<and> within_budget m r) requeue
      (update_where (\<lambda>r. p r \<and> \<not> within_budget m r) park t)"
    by (simp add: park_then_requeue_def counted_update_def Let_def)
  then show ?thesis
    by (simp only:) (intro update_where_all assms(2); simp add: assms(3,4))
qed

lemma park_then_requeue_ids:
  assumes "park_then_requeue m p park q requeue t = (n, t')" "\<And>r. dl_id (park r) = dl_id r" "\<And>r. dl_id (requeue r) = dl_id r"
  shows "map dl_id t' = map dl_id t"
  using assms(1) by (auto simp: park_then_requeue_def counted_update_def Let_def map_update_where assms(2,3))

lemma reap_leases_rows:
  assumes "reap_expired_event_leases qe now on attempts d = (c, d')" "\<forall>r \<in> set (ed_deliveries d). P r"
    and "\<And>r w. P r \<Longrightarrow> lease_expired now r \<Longrightarrow> in_flight r \<Longrightarrow> P (clear_lease (park_delivery now w r))"
    and "\<And>r w. P r \<Longrightarrow> lease_expired now r \<Longrightarrow> in_flight r \<Longrightarrow> within_budget (budget qe attempts) r \<Longrightarrow>
      P (clear_lease (requeue_delivery w r))"
  shows "\<forall>r \<in> set (ed_deliveries d'). P r"
  using assms(1,2)
  by (auto simp: reap_expired_event_leases_def Let_def assms(3,4) split: if_splits prod.splits
    elim!: bspec [OF park_then_requeue_rows])

lemma reap_orphans_rows:
  assumes "reap_orphan_event_deliveries qe now on attempts failed d = (c, d')" "\<forall>r \<in> set (ed_deliveries d). P r"
    and "\<And>r w. P r \<Longrightarrow> P (park_delivery now w r)"
    and "\<And>r. P r \<Longrightarrow> P (r\<lparr>dl_status := ''failed'', dl_finished := Some now, dl_error := append_error reap_marker (dl_error r)\<rparr>)"
    and "\<And>r w. P r \<Longrightarrow> within_budget (budget qe attempts) r \<Longrightarrow> P (requeue_delivery w r)"
  shows "\<forall>r \<in> set (ed_deliveries d'). P r"
proof (cases "case on of None \<Rightarrow> qe_reenqueue qe | Some b \<Rightarrow> b")
  case True
  define bf where "bf = (case failed of None \<Rightarrow> qe_backfill qe | Some b \<Rightarrow> b)"
  define q where "q = (\<lambda>r. dl_claimed r \<noteq> None
     \<and> (in_flight r \<or> bf \<and> dl_status r = ''failed'' \<and> has_mark reap_marker (dl_error r)
        \<or> qe_transient qe \<and> dl_status r = ''failed'' \<and> has_mark retryable_turn_mark (dl_error r)))"
  obtain n t where run: "park_then_requeue (budget qe attempts) (\<lambda>r. dl_claimed r \<noteq> None \<and> in_flight r)
      (park_delivery now ''reaped'') q (requeue_delivery ''recovered orphan'') (ed_deliveries d) = (n, t)"
    by fastforce
  with True assms(1) have "ed_deliveries d' = t"
    unfolding q_def bf_def by (auto simp: reap_orphan_event_deliveries_def Let_def)
  moreover have "\<forall>r \<in> set t. P r"
    by (rule park_then_requeue_rows [OF run assms(2)]) (simp_all add: assms(3,5))
  ultimately show ?thesis by simp
next
  case False
  then have "ed_deliveries d' = update_where (\<lambda>r. in_flight r \<and> dl_claimed r \<noteq> None)
      (\<lambda>r. r\<lparr>dl_status := ''failed'', dl_finished := Some now, dl_error := append_error reap_marker (dl_error r)\<rparr>) (ed_deliveries d)"
    using assms(1) by (auto simp: reap_orphan_event_deliveries_def counted_update_def)
  then show ?thesis by (simp only:) (intro update_where_all assms(2,4))
qed

lemma reap_stale_rows:
  assumes "reap_stale_event_deliveries qe now age attempts on d = (c, d')" "\<forall>r \<in> set (ed_deliveries d). P r"
    and "\<And>r w. P r \<Longrightarrow> claimed_before (now - max 0 age) r \<Longrightarrow> in_flight r \<Longrightarrow> P (park_delivery now w r)"
    and "\<And>r w. P r \<Longrightarrow> claimed_before (now - max 0 age) r \<and> in_flight r \<or> dl_status r = ''failed'' \<Longrightarrow>
      within_budget (budget qe attempts) r \<Longrightarrow> P (requeue_delivery w r)"
  shows "\<forall>r \<in> set (ed_deliveries d'). P r"
proof (cases "case on of None \<Rightarrow> qe_reenqueue qe | Some b \<Rightarrow> b")
  case True
  define stale where "stale = (\<lambda>r. claimed_before (now - max 0 age) r \<and> in_flight r)"
  obtain n t where run: "park_then_requeue (budget qe attempts) stale (park_delivery now ''stale-sweep'')
      stale (requeue_delivery ''stale-sweep recovered orphan'') (ed_deliveries d) = (n, t)"
    by fastforce
  from True assms(1) run have d': "ed_deliveries d' = update_where
      (\<lambda>r. qe_transient qe \<and> dl_status r = ''failed'' \<and> has_mark retryable_turn_mark (dl_error r) \<and> within_budget (budget qe attempts) r
         \<and> finished_before (now - max 0 (qe_retry_delay qe)) r) (requeue_delivery ''no model capacity'') t"
    unfolding stale_def by (auto simp: reap_stale_event_deliveries_def Let_def counted_update_def)
  have "\<forall>r \<in> set t. P r"
    by (rule park_then_requeue_rows [OF run assms(2)]) (simp_all add: assms(3,4) stale_def)
  then show ?thesis unfolding d' by (rule update_where_all) (simp add: assms(4))
next
  case False
  with assms(1,2) show ?thesis by (auto simp: reap_stale_event_deliveries_def)
qed

lemma update_where_ids: "(\<And>r. dl_id (f r) = dl_id r) \<Longrightarrow> map dl_id (update_where q f t) = map dl_id t"
  by (rule map_update_where)

lemma reaped_ids:
  "reap_expired_event_leases qe now on attempts d = (c, d') \<Longrightarrow> map dl_id (ed_deliveries d') = map dl_id (ed_deliveries d)"
  "reap_orphan_event_deliveries qe now on attempts failed d = (c, d') \<Longrightarrow> map dl_id (ed_deliveries d') = map dl_id (ed_deliveries d)"
  "reap_stale_event_deliveries qe now age attempts on d = (c, d') \<Longrightarrow> map dl_id (ed_deliveries d') = map dl_id (ed_deliveries d)"
  by (auto simp: reap_expired_event_leases_def reap_orphan_event_deliveries_def reap_stale_event_deliveries_def Let_def
      counted_update_def update_where_ids split: if_splits prod.splits dest!: park_then_requeue_ids)

section \<open>How often a delivery is handed out\<close>

definition row_ok :: "int \<Rightarrow> string list \<Rightarrow> delivery \<Rightarrow> bool" where
  "row_ok m h r \<longleftrightarrow> count_list h (dl_id r) \<le> dl_reenqueues r + (if dl_claimed r = None then 0 else 1) \<and> dl_reenqueues r \<le> nat m"

definition queue_ok :: "int \<Rightarrow> queue_state \<Rightarrow> bool" where
  "queue_ok m s \<longleftrightarrow> distinct (map dl_id (ed_deliveries (fst s))) \<and> (\<forall>r \<in> set (ed_deliveries (fst s)). row_ok m (snd s) r)
     \<and> (\<forall>i. count_list (snd s) i \<le> nat m + 1)"

lemma row_ok_park [simp]:
  "row_ok m h (park_delivery now w r) = row_ok m h r"
  "row_ok m h (clear_lease r) = row_ok m h r"
  "row_ok m h (fold set_delivery_col cs r) = row_ok m h r"
  "row_ok m h (r\<lparr>dl_status := st, dl_finished := f, dl_error := e\<rparr>) = row_ok m h r"
  "row_ok m h (r\<lparr>dl_expires := x, dl_heartbeat := b\<rparr>) = row_ok m h r"
  by (simp_all add: row_ok_def park_delivery_def clear_lease_def)

lemma row_ok_requeue:
  "row_ok m h r \<Longrightarrow> within_budget b r \<Longrightarrow> b \<le> m \<Longrightarrow> row_ok m h (requeue_delivery w r)"
  by (auto simp: row_ok_def requeue_delivery_def within_budget_def split: if_splits)

lemma queue_ok_same:
  assumes "queue_ok m (d, h)" "map dl_id (ed_deliveries d') = map dl_id (ed_deliveries d)"
    "\<forall>r \<in> set (ed_deliveries d'). row_ok m h r"
  shows "queue_ok m (d', h)"
  using assms by (simp add: queue_ok_def)

lemma count_list_distinct: "distinct xs \<Longrightarrow> count_list xs x = (if x \<in> set xs then 1 else 0)"
  by (induction xs) auto

lemma queue_ok_claim:
  assumes ok: "queue_ok m (d, h)" and "claim_pending_event_deliveries qe now n ids d = (rs, d')"
  shows "queue_ok m (d', h @ map dl_id rs)"
proof -
  let ?t = "ed_deliveries d"
  from ok have ids: "distinct (map dl_id ?t)" and rows: "\<forall>r \<in> set ?t. row_ok m h r" and h: "\<forall>i. count_list h i \<le> nat m + 1"
    by (simp_all add: queue_ok_def)
  from assms(2) ids obtain p where
    p: "\<forall>i \<in> p. \<exists>r \<in> set ?t. dl_id r = i \<and> claimable ids r"
    and t': "ed_deliveries d' = update_where (\<lambda>r. dl_id r \<in> p) (claimed_by qe now) ?t"
    and rs: "set (map dl_id rs) = p" "distinct (map dl_id rs)"
    by (rule claim_result)
  have count: "count_list (h @ map dl_id rs) i = count_list h i + (if i \<in> p then 1 else 0)" for i
    using rs by (simp add: count_list_distinct)
  have free: "count_list h i \<le> nat m" if "i \<in> p" for i
  proof -
    from p that obtain r where "r \<in> set ?t" "dl_id r = i" "dl_claimed r = None" by (auto simp: claimable_def)
    with rows show ?thesis by (fastforce simp: row_ok_def)
  qed
  have one: "dl_claimed r = None" if "r \<in> set ?t" "dl_id r \<in> p" for r
    using p that ids by (auto simp: claimable_def distinct_map inj_on_def)
  have "row_ok m (h @ map dl_id rs) r'" if "r' \<in> set (ed_deliveries d')" for r'
  proof -
    from that t' obtain r where r: "r \<in> set ?t" "r' = (if dl_id r \<in> p then claimed_by qe now r else r)"
      by (auto simp: update_where_def)
    show ?thesis
    proof (cases "dl_id r \<in> p")
      case True
      with r one rows show ?thesis
        unfolding row_ok_def count by (auto simp: claimed_by_def)
    next
      case False
      with r rows show ?thesis unfolding row_ok_def count by simp
    qed
  qed
  moreover have "distinct (map dl_id (ed_deliveries d'))"
    using ids t' by (simp add: update_where_ids)
  moreover have "count_list (h @ map dl_id rs) i \<le> nat m + 1" for i
    using h free [of i] count [of i] by simp
  ultimately show ?thesis by (simp add: queue_ok_def del: count_list_append)
qed

lemma queue_ok_deliver:
  assumes ok: "queue_ok m (d, h)" and add: "add_event_delivery qe now i e src ext payload st claimed d = (r, d')" and "i \<notin> set h"
  shows "queue_ok m (d', if claimed \<and> r = Ret i then h @ [i] else h)"
proof (cases r)
  case (Inl err)
  with add have "d' = d" by (auto simp: add_event_delivery_def split: if_splits)
  with ok Inl show ?thesis by simp
next
  case (Inr j)
  with add have new: "i \<notin> dl_id ` set (ed_deliveries d)" and "j = i"
    and d': "\<exists>x. ed_deliveries d' = ed_deliveries d @ [x] \<and> dl_id x = i \<and> dl_reenqueues x = 0 \<and> (dl_claimed x = None \<longleftrightarrow> \<not> claimed)"
    by (auto simp: add_event_delivery_def split: if_splits)
  from d' obtain x where "ed_deliveries d' = ed_deliveries d @ [x] \<and> dl_id x = i \<and> dl_reenqueues x = 0
    \<and> (dl_claimed x = None \<longleftrightarrow> \<not> claimed)" by (rule exE)
  then have x: "ed_deliveries d' = ed_deliveries d @ [x]" "dl_id x = i" "dl_reenqueues x = 0"
    "dl_claimed x = None \<longleftrightarrow> \<not> claimed" by simp_all
  define g where "g = (if claimed then h @ [i] else h)"
  from assms(3) have h: "count_list g j = count_list h j + (if claimed \<and> j = i then 1 else 0)" "count_list h i = 0" for j
    by (auto simp: g_def count_list_0_iff)
  have "row_ok m g r" if "r \<in> set (ed_deliveries d)" for r
  proof -
    from that new ok have "dl_id r \<noteq> i" "row_ok m h r" by (auto simp: queue_ok_def)
    then show ?thesis unfolding row_ok_def h by simp
  qed
  moreover have "row_ok m g x"
    unfolding row_ok_def h using x h(2) by simp
  moreover have "count_list g j \<le> nat m + 1" for j
  proof (cases "j = i")
    case True
    then show ?thesis unfolding h by (simp add: h(2))
  next
    case False
    with ok show ?thesis unfolding h by (simp add: queue_ok_def)
  qed
  moreover have "distinct (map dl_id (ed_deliveries d'))"
    using ok x(1,2) new by (auto simp: queue_ok_def)
  ultimately have "queue_ok m (d', g)"
    unfolding queue_ok_def fst_conv snd_conv x(1) by auto
  with Inr \<open>j = i\<close> g_def show ?thesis by simp
qed

lemma queue_ok_step:
  assumes "queue_step m l s s'" "queue_ok m s"
  shows "queue_ok m s'"
  using assms
proof (cases rule: queue_step.cases)
  case delete_event
  with assms(2) show ?thesis by (auto simp: queue_ok_def delete_event_def distinct_map_filter)
next
  case (deliver qe now i e src ext payload st claimed d r d' h)
  with assms(2) show ?thesis by (metis queue_ok_deliver)
next
  case (settle d h i cols)
  have "\<forall>r \<in> set (update_where (\<lambda>r. dl_id r = i) (fold set_delivery_col cols) (ed_deliveries d)). row_ok m h r"
    using settle assms(2) by (intro update_where_all) (simp_all add: queue_ok_def)
  with settle assms(2) show ?thesis
    by (simp add: update_event_delivery_def map_deliveries_def queue_ok_def update_where_ids)
next
  case claim
  with assms(2) show ?thesis by (metis queue_ok_claim)
next
  case (heartbeat qe now i w d c d' h)
  then have d': "ed_deliveries d' = update_where (\<lambda>r. dl_id r = i \<and> dl_worker r = Some w)
      (\<lambda>r. r\<lparr>dl_expires := Some (now + lease_ttl qe), dl_heartbeat := Some now\<rparr>) (ed_deliveries d)"
    by (auto simp: heartbeat_event_delivery_def Let_def map_deliveries_def)
  have "\<forall>r \<in> set (ed_deliveries d'). row_ok m h r"
    unfolding d' using heartbeat assms(2) by (intro update_where_all) (simp_all add: queue_ok_def)
  with heartbeat assms(2) show ?thesis
    by (simp add: d' queue_ok_def update_where_ids)
next
  case (reap_leases qe now on attempts d c d' h)
  with assms(2) have "\<forall>r \<in> set (ed_deliveries d'). row_ok m h r"
    by (intro reap_leases_rows [OF reap_leases(4)]) (auto simp: queue_ok_def intro: row_ok_requeue)
  with reap_leases assms(2) show ?thesis by (auto intro: queue_ok_same reaped_ids)
next
  case (reap_orphans qe now on attempts failed d c d' h)
  with assms(2) have "\<forall>r \<in> set (ed_deliveries d'). row_ok m h r"
    by (intro reap_orphans_rows [OF reap_orphans(4)]) (auto simp: queue_ok_def intro: row_ok_requeue)
  with reap_orphans assms(2) show ?thesis by (auto intro: queue_ok_same reaped_ids)
next
  case (reap_stale qe now age attempts on d c d' h)
  with assms(2) have "\<forall>r \<in> set (ed_deliveries d'). row_ok m h r"
    by (intro reap_stale_rows [OF reap_stale(4)]) (auto simp: queue_ok_def intro: row_ok_requeue)
  with reap_stale assms(2) show ?thesis by (auto intro: queue_ok_same reaped_ids)
qed (auto simp: queue_ok_def other_tables)

lemma queue_reach_ok: "queue_reach m s \<Longrightarrow> queue_ok m s"
proof (induction rule: queue_reach.induct)
  case (step s l s')
  then show ?case by (metis queue_ok_step)
qed (simp add: queue_ok_def)

section \<open>Leases\<close>

text \<open>
  A step spares a delivery unless it is a reaper that finds its lease expired, its claim older than
  the cut-off of the sweep (or the delivery finished), or the reaper of a starting process.
\<close>

definition spares :: "string \<Rightarrow> queue_label \<Rightarrow> event_db \<Rightarrow> bool" where
  "spares i l d \<longleftrightarrow> (\<forall>r \<in> set (ed_deliveries d). dl_id r = i \<longrightarrow>
     (case l of Lease now \<Rightarrow> \<not> lease_expired now r | Boot \<Rightarrow> False
      | Stale cutoff \<Rightarrow> in_flight r \<and> \<not> claimed_before cutoff r | _ \<Rightarrow> True))"

inductive undisturbed :: "int \<Rightarrow> string \<Rightarrow> queue_state \<Rightarrow> queue_state \<Rightarrow> bool" for m i s where
  start: "undisturbed m i s s"
| later: "undisturbed m i s s1 \<Longrightarrow> queue_step m l s1 s2 \<Longrightarrow> spares i l (fst s1) \<Longrightarrow> undisturbed m i s s2"

definition held :: "string \<Rightarrow> event_db \<Rightarrow> bool" where
  "held i d \<longleftrightarrow> (\<forall>r \<in> set (ed_deliveries d). dl_id r = i \<longrightarrow> dl_claimed r \<noteq> None)"

lemma held_update_where:
  assumes "\<forall>r \<in> set t. dl_id r = i \<longrightarrow> dl_claimed r \<noteq> None" "\<And>r. dl_id (f r) = dl_id r"
    "\<And>r. dl_id r = i \<Longrightarrow> dl_claimed r \<noteq> None \<Longrightarrow> q r \<Longrightarrow> dl_claimed (f r) \<noteq> None"
  shows "\<forall>r \<in> set (update_where q f t). dl_id r = i \<longrightarrow> dl_claimed r \<noteq> None"
  using assms by (auto simp: update_where_def)

lemma held_step:
  assumes step: "queue_step m l (d, h) (d', h')" and held: "held i d" and sp: "spares i l d" and "i \<in> set h"
    and ids: "distinct (map dl_id (ed_deliveries d))"
  shows "held i d' \<and> count_list h' i = count_list h i"
  using step
proof (cases rule: queue_step.cases)
  case (deliver qe now j e src ext payload st claimed r)
  with \<open>i \<in> set h\<close> have "j \<noteq> i" by blast
  moreover from deliver have "ed_deliveries d' = ed_deliveries d \<or> (\<exists>x. ed_deliveries d' = ed_deliveries d @ [x] \<and> dl_id x = j)"
    by (auto simp: add_event_delivery_def split: if_splits)
  ultimately show ?thesis using held deliver(2) by (auto simp: held_def)
next
  case (claim qe now n ids rs)
  from claim(3) \<open>distinct (map dl_id (ed_deliveries d))\<close> obtain p where p: "\<forall>j \<in> p. \<exists>r \<in> set (ed_deliveries d). dl_id r = j \<and> claimable ids r"
    and t': "ed_deliveries d' = update_where (\<lambda>r. dl_id r \<in> p) (claimed_by qe now) (ed_deliveries d)" and rs: "set (map dl_id rs) = p"
    by (rule claim_result)
  from p held have "i \<notin> p" unfolding held_def claimable_def by blast
  with rs have "count_list (map dl_id rs) i = 0" by (simp add: count_list_0_iff)
  moreover have "held i d'"
    using held unfolding held_def t' by (intro held_update_where) (simp_all add: claimed_by_def)
  ultimately show ?thesis using claim by simp
next
  case (reap_leases qe now on attempts c)
  have "\<forall>r \<in> set (ed_deliveries d'). dl_id r = i \<longrightarrow> dl_claimed r \<noteq> None \<and> \<not> lease_expired now r"
    by (rule reap_leases_rows [OF reap_leases(3)])
      (use held sp reap_leases in \<open>auto simp: held_def spares_def\<close>)
  with reap_leases show ?thesis by (auto simp: held_def)
next
  case (reap_orphans qe now on attempts failed c)
  with sp have "\<forall>r \<in> set (ed_deliveries d). dl_id r \<noteq> i" by (auto simp: spares_def)
  moreover have "map dl_id (ed_deliveries d') = map dl_id (ed_deliveries d)"
    by (rule reaped_ids(2) [OF reap_orphans(3)])
  ultimately have "\<forall>r \<in> set (ed_deliveries d'). dl_id r \<noteq> i" by (metis image_eqI image_iff set_map)
  with reap_orphans show ?thesis by (auto simp: held_def)
next
  case (reap_stale qe now age attempts on c)
  have "\<forall>r \<in> set (ed_deliveries d'). dl_id r = i \<longrightarrow>
      dl_claimed r \<noteq> None \<and> in_flight r \<and> \<not> claimed_before (now - max 0 age) r"
    by (rule reap_stale_rows [OF reap_stale(3)])
      (use held sp reap_stale in \<open>auto simp: held_def spares_def in_flight_def\<close>)
  with reap_stale show ?thesis by (auto simp: held_def)
next
  case (settle j cols)
  have "\<forall>r \<in> set (update_where (\<lambda>r. dl_id r = j) (fold set_delivery_col cols) (ed_deliveries d)). dl_id r = i \<longrightarrow> dl_claimed r \<noteq> None"
    using held by (intro held_update_where) (auto simp: held_def)
  with settle show ?thesis by (simp add: held_def update_event_delivery_def map_deliveries_def)
next
  case (heartbeat qe now j w c)
  then have d': "ed_deliveries d' = update_where (\<lambda>r. dl_id r = j \<and> dl_worker r = Some w)
      (\<lambda>r. r\<lparr>dl_expires := Some (now + lease_ttl qe), dl_heartbeat := Some now\<rparr>) (ed_deliveries d)"
    by (auto simp: heartbeat_event_delivery_def Let_def map_deliveries_def)
  have "held i d'"
    unfolding held_def d' using held by (intro held_update_where) (auto simp: held_def)
  with heartbeat show ?thesis by simp
qed (use held in \<open>auto simp: held_def other_tables delete_event_def\<close>)

lemma undisturbed_held:
  assumes "undisturbed m i s s'" "queue_reach m s" "i \<in> set (snd s)" "held i (fst s)"
  shows "queue_reach m s' \<and> i \<in> set (snd s') \<and> held i (fst s') \<and> count_list (snd s') i = count_list (snd s) i"
  using assms
proof (induction rule: undisturbed.induct)
  case (later s1 l s2)
  obtain d h d' h' where s: "s1 = (d, h)" "s2 = (d', h')" by fastforce
  from later have IH: "queue_reach m (d, h)" "i \<in> set h" "held i d" "count_list h i = count_list (snd s) i"
    by (simp_all add: s)
  from queue_reach_ok [OF IH(1)] have "distinct (map dl_id (ed_deliveries d))" by (simp add: queue_ok_def)
  with IH later.hyps(2,3) s have "held i d' \<and> count_list h' i = count_list h i"
    by (intro held_step) simp_all
  moreover have "queue_reach m s2" using IH(1) later.hyps(2) s(1) by (auto intro: queue_reach.step)
  moreover have "i \<in> set h'" using calculation(1) IH(2) by (metis count_list_0_iff)
  ultimately show ?case using IH(4) s by simp
qed simp

end
