(* ===== verification/EventLaws.thy ===== *)
theory EventLaws
  imports EventQueue
begin

text \<open>
  Recovery and the circuit breaker of the webhook events: what a reaper does to each delivery, that
  a restart loses none, when an event is blocked, and concrete runs of the queue.
\<close>

section \<open>Handing out deliveries\<close>

text \<open>
  C9: No delivery is handed out to a worker more often than the reapers' attempts plus one, however
  many processes claim, finish, heartbeat and reap at whatever times; and at any time it was
  handed out at most once for each time it was queued.
\<close>

theorem handed_out_boundedly:
  assumes "queue_reach m (d, h)"
  shows "count_list h i \<le> nat m + 1
    \<and> (\<forall>r \<in> set (ed_deliveries d). dl_id r = i \<longrightarrow>
         dl_reenqueues r \<le> nat m \<and> count_list h i \<le> dl_reenqueues r + (if dl_claimed r = None then 0 else 1))"
  using queue_reach_ok [OF assms] by (auto simp: queue_ok_def row_ok_def)

text \<open>
  C10: A delivery that was handed out and is claimed stays with its worker, that is, it is not handed
  out again and its claim is kept, as long as three things do not happen: a reaper of leases that
  finds its lease past (heartbeats extend it), a sweep that finds it finished or claimed before the
  cut-off of the sweep, whatever its lease, and the start of a process, whose reaper does not look at
  leases at all.  The other steps of all processes may be any.
\<close>

theorem lease_keeps_delivery:
  assumes "queue_reach m (d, h)" "i \<in> set h" "r \<in> set (ed_deliveries d)" "dl_id r = i" "dl_claimed r \<noteq> None"
    and "undisturbed m i (d, h) (d', h')"
  shows "count_list h' i = count_list h i \<and> (\<forall>r' \<in> set (ed_deliveries d'). dl_id r' = i \<longrightarrow> dl_claimed r' \<noteq> None)"
proof -
  from queue_reach_ok [OF assms(1)] have "distinct (map dl_id (ed_deliveries d))" by (simp add: queue_ok_def)
  with assms(3-5) have "held i d" by (auto simp: held_def distinct_map inj_on_def)
  with undisturbed_held [OF assms(6)] assms(1,2) show ?thesis by (simp add: held_def)
qed

section \<open>Reapers row by row\<close>

text \<open>The two updates of a reaper decide on each row by itself.\<close>

definition recover_row ::
    "int \<Rightarrow> (delivery \<Rightarrow> bool) \<Rightarrow> (delivery \<Rightarrow> delivery) \<Rightarrow> (delivery \<Rightarrow> bool) \<Rightarrow> (delivery \<Rightarrow> delivery) \<Rightarrow> delivery \<Rightarrow> delivery" where
  "recover_row m p park q requeue r =
     (if p r \<and> \<not> within_budget m r then park r else if q r \<and> within_budget m r then requeue r else r)"

lemma park_then_requeue_map:
  assumes "\<And>r. within_budget m (park r) = within_budget m r"
  shows "snd (park_then_requeue m p park q requeue t) = map (recover_row m p park q requeue) t"
  by (auto simp: park_then_requeue_def counted_update_def Let_def update_where_def recover_row_def assms)

lemma within_budget_park [simp]:
  "within_budget m (park_delivery now w r) = within_budget m r" "within_budget m (clear_lease r) = within_budget m r"
  by (simp_all add: within_budget_def park_delivery_def clear_lease_def)

text \<open>
  C36: The reaper of a starting process leaves no delivery that a restart interrupted as it was.  When
  queueing again is switched on, one within its budget is claimable again with one more attempt
  counted, and one that has used it up is finished as failed; when it is switched off every
  interrupted one is finished as failed.  In both cases a delivery that waits unclaimed in the queue is
  left alone, no row is lost, and no claimed delivery stays open.
\<close>

theorem restart_loses_nothing:
  assumes "reap_orphan_event_deliveries qe now on attempts failed d = (c, d')"
  shows "length (ed_deliveries d') = length (ed_deliveries d)
    \<and> (\<forall>j < length (ed_deliveries d). let r = ed_deliveries d ! j; r' = ed_deliveries d' ! j in
         dl_id r' = dl_id r \<and> dl_payload r' = dl_payload r
         \<and> (in_flight r \<and> dl_claimed r \<noteq> None \<longrightarrow>
              (if (case on of None \<Rightarrow> qe_reenqueue qe | Some b \<Rightarrow> b) \<and> int (dl_reenqueues r) < budget qe attempts
               then claimable None r' \<and> in_flight r' \<and> dl_reenqueues r' = Suc (dl_reenqueues r)
               else dl_status r' = ''failed'' \<and> dl_finished r' = Some now \<and> dl_reenqueues r' = dl_reenqueues r))
         \<and> (in_flight r \<and> dl_claimed r = None \<longrightarrow> r' = r)
         \<and> (in_flight r' \<longrightarrow> dl_claimed r' = None))"
proof (cases "case on of None \<Rightarrow> qe_reenqueue qe | Some b \<Rightarrow> b")
  case False
  let ?f = "\<lambda>r. if in_flight r \<and> dl_claimed r \<noteq> None
      then r\<lparr>dl_status := ''failed'', dl_finished := Some now, dl_error := append_error reap_marker (dl_error r)\<rparr> else r"
  have "ed_deliveries d' = map ?f (ed_deliveries d)"
    using assms False by (auto simp: reap_orphan_event_deliveries_def counted_update_def update_where_def)
  with False show ?thesis by (simp add: Let_def in_flight_def)
next
  case True
  define bf where "bf = (case failed of None \<Rightarrow> qe_backfill qe | Some b \<Rightarrow> b)"
  define q where "q = (\<lambda>r. dl_claimed r \<noteq> None
     \<and> (in_flight r \<or> bf \<and> dl_status r = ''failed'' \<and> has_mark reap_marker (dl_error r)
        \<or> qe_transient qe \<and> dl_status r = ''failed'' \<and> has_mark retryable_turn_mark (dl_error r)))"
  define f where "f = recover_row (budget qe attempts) (\<lambda>r. dl_claimed r \<noteq> None \<and> in_flight r)
      (park_delivery now ''reaped'') q (requeue_delivery ''recovered orphan'')"
  have "ed_deliveries d' = snd (park_then_requeue (budget qe attempts) (\<lambda>r. dl_claimed r \<noteq> None \<and> in_flight r)
      (park_delivery now ''reaped'') q (requeue_delivery ''recovered orphan'') (ed_deliveries d))"
    using assms True unfolding q_def bf_def by (auto simp: reap_orphan_event_deliveries_def Let_def split: prod.splits)
  then have d': "ed_deliveries d' = map f (ed_deliveries d)"
    by (simp add: park_then_requeue_map f_def)
  have "dl_id (f r) = dl_id r \<and> dl_payload (f r) = dl_payload r
         \<and> (in_flight r \<and> dl_claimed r \<noteq> None \<longrightarrow>
              (if int (dl_reenqueues r) < budget qe attempts
               then claimable None (f r) \<and> in_flight (f r) \<and> dl_reenqueues (f r) = Suc (dl_reenqueues r)
               else dl_status (f r) = ''failed'' \<and> dl_finished (f r) = Some now \<and> dl_reenqueues (f r) = dl_reenqueues r))
         \<and> (in_flight r \<and> dl_claimed r = None \<longrightarrow> f r = r)
         \<and> (in_flight (f r) \<longrightarrow> dl_claimed (f r) = None)" for r
    by (auto simp: f_def recover_row_def q_def within_budget_def park_delivery_def requeue_delivery_def claimable_def in_flight_def)
  with True show ?thesis by (simp add: d' Let_def)
qed

section \<open>The circuit breaker\<close>

text \<open>
  The statements of the calls of \<^verbatim>\<open>record_event_failure\<close> interleave.  The state has the calls under
  way, with their event, their time and whether they have read a count at the limit, and the events
  that were reset while such a call had read the count and not yet stored the trip.  Everything else
  that processes do with events and deliveries is \<open>other\<close>.
\<close>

type_synonym breaker_state = "event_db \<times> (string \<times> real \<times> bool) list \<times> string list"

inductive breaker_step :: "int \<Rightarrow> breaker_state \<Rightarrow> breaker_state \<Rightarrow> bool" for k where
  other: "queue_step m l (d, h) (d', h') \<Longrightarrow> l \<noteq> Breaker \<Longrightarrow>
    ev_id ` set (ed_events d') \<inter> fst ` set p \<subseteq> ev_id ` set (ed_events d) \<Longrightarrow> breaker_step k (d, p, x) (d', p, x)"
| count: "breaker_step k (d, p, x) (count_event_failure i err d, p @ [(i, now, False)], x)"
| read: "qe_threshold qe = k \<Longrightarrow> breaker_step k (d, p @ (i, now, False) # q, x)
    (d, if limit_reached qe i d then p @ (i, now, True) # q else p @ q, x)"
| trip: "breaker_step k (d, p @ (i, now, True) # q, x) (trip_event_breaker now i d, p @ q, x)"
| reset: "breaker_step k (d, p, x)
    (reset_event_breaker qe i d, p, if \<exists>now. (i, now, True) \<in> set p then i # x else x)"

inductive breaker_reach :: "int \<Rightarrow> breaker_state \<Rightarrow> bool" for k where
  empty: "breaker_reach k (\<lparr>ed_events = [], ed_deliveries = [], ed_bindings = []\<rparr>, [], [])"
| step: "breaker_reach k s \<Longrightarrow> breaker_step k s s' \<Longrightarrow> breaker_reach k s'"

definition limit_of :: "int \<Rightarrow> event_row \<Rightarrow> int" where
  "limit_of k r = max 1 (case ev_max_retries r of Some n \<Rightarrow> n | None \<Rightarrow> max 1 k)"

text \<open>
  What holds of each event: at its limit it is blocked or a call is under way, and unless a reset
  raced with a call, it is blocked, or about to be, only at its limit.
\<close>

definition breaker_ok :: "int \<Rightarrow> (string \<times> real \<times> bool) list \<Rightarrow> string list \<Rightarrow> event_row \<Rightarrow> bool" where
  "breaker_ok k p x r \<longleftrightarrow>
     (int (ev_failures r) \<ge> limit_of k r \<longrightarrow> ev_tripped r \<noteq> None \<or> ev_id r \<in> fst ` set p)
     \<and> (ev_id r \<notin> set x \<longrightarrow> ev_tripped r \<noteq> None \<or> (\<exists>now. (ev_id r, now, True) \<in> set p) \<longrightarrow> int (ev_failures r) \<ge> limit_of k r)"

lemma event_setter_keeps:
  "event_setter pt c = Ret fs \<Longrightarrow> f \<in> set fs \<Longrightarrow>
   ev_tripped (f r) = ev_tripped r \<and> ev_failures (f r) = ev_failures r \<and> ev_max_retries (f r) = ev_max_retries r"
  by (cases c) (auto simp: bind_res_Inr)

lemma each_res_setters_keep:
  "each_res (event_setter pt) cols = Ret fss \<Longrightarrow> f \<in> set (concat fss) \<Longrightarrow>
   ev_tripped (f r) = ev_tripped r \<and> ev_failures (f r) = ev_failures r \<and> ev_max_retries (f r) = ev_max_retries r"
proof (induction cols arbitrary: fss)
  case (Cons c cols)
  then obtain fs gss where "event_setter pt c = Ret fs" "each_res (event_setter pt) cols = Ret gss" "fss = fs # gss"
    by (auto simp: bind_res_Inr)
  with Cons show ?case using event_setter_keeps by (auto 4 3)
qed simp

lemma fold_same:
  assumes "\<And>f r. f \<in> set fs \<Longrightarrow> g (f r) = g r"
  shows "g (fold (\<lambda>f. f) fs r) = g r"
  using assms by (induction fs arbitrary: r) simp_all

text \<open>The columns of the breaker.\<close>

definition breaker_cols :: "event_row \<Rightarrow> string \<times> nat \<times> real option \<times> int option" where
  "breaker_cols r = (ev_id r, ev_failures r, ev_tripped r, ev_max_retries r)"

definition quiet_events :: "event_db \<Rightarrow> event_db \<Rightarrow> bool" where
  "quiet_events d d' \<longleftrightarrow> (distinct (map ev_id (ed_events d)) \<longrightarrow> distinct (map ev_id (ed_events d')))
     \<and> (\<forall>r' \<in> set (ed_events d'). breaker_cols r' \<in> breaker_cols ` set (ed_events d)
          \<or> ev_id r' \<notin> ev_id ` set (ed_events d) \<and> ev_failures r' = 0 \<and> ev_tripped r' = None)"

lemma quiet_same: "ed_events d' = ed_events d \<Longrightarrow> quiet_events d d'"
  by (simp add: quiet_events_def)

lemma quiet_update:
  assumes "ed_events d' = update_where q f (ed_events d)" "\<And>r. breaker_cols (f r) = breaker_cols r"
  shows "quiet_events d d'"
proof -
  have "map breaker_cols (ed_events d') = map breaker_cols (ed_events d)"
    using assms by (simp add: map_update_where)
  then have "map fst (map breaker_cols (ed_events d')) = map fst (map breaker_cols (ed_events d))"
    and cols: "set (map breaker_cols (ed_events d')) = set (map breaker_cols (ed_events d))" by simp_all
  then have ids: "map ev_id (ed_events d') = map ev_id (ed_events d)" by (simp add: breaker_cols_def o_def)
  from cols have "breaker_cols r' \<in> breaker_cols ` set (ed_events d)" if "r' \<in> set (ed_events d')" for r'
    using that by auto
  with ids show ?thesis unfolding quiet_events_def by simp
qed

lemma event_setter_id: "event_setter pt c = Ret fs \<Longrightarrow> f \<in> set fs \<Longrightarrow> ev_id (f r) = ev_id r"
  by (cases c) (auto simp: bind_res_Inr)

lemma update_event_quiet:
  assumes "update_event pt now i cols d = (u, d')" shows "quiet_events d d'"
proof (cases "each_res (event_setter pt) cols")
  case (Inl e)
  with assms show ?thesis by (simp add: update_event_def quiet_same)
next
  case (Inr fss)
  define g where "g = (\<lambda>r. (fold (\<lambda>f. f) (concat fss) r)\<lparr>ev_updated := now\<rparr>)"
  have "breaker_cols (f r) = breaker_cols r" if "f \<in> set (concat fss)" for f r
    using that each_res_mem [OF Inr] event_setter_keeps event_setter_id by (fastforce simp: breaker_cols_def)
  then have "breaker_cols (fold (\<lambda>f. f) (concat fss) r) = breaker_cols r" for r by (rule fold_same)
  then have "breaker_cols (g r) = breaker_cols r" for r by (simp add: g_def breaker_cols_def)
  moreover have "ed_events d' = ed_events d \<or> ed_events d' = update_where (\<lambda>r. ev_id r = i) g (ed_events d)"
    using assms Inr by (auto simp: update_event_def Let_def g_def split: if_splits)
  ultimately show ?thesis using quiet_same quiet_update by blast
qed

lemma other_quiet:
  assumes "queue_step m l (d, h) (d', h')" "l \<noteq> Breaker" shows "quiet_events d d'"
  using assms(1)
proof (cases rule: queue_step.cases)
  case add_event
  then show ?thesis
    by (auto simp: add_event_def bind_op_def insert_event_def quiet_events_def split: sum.splits if_splits)
next
  case update_event
  then show ?thesis using update_event_quiet by blast
next
  case (deliver qe now i e src ext payload st claimed r)
  then have "ed_events d' = ed_events d \<or> ed_events d' = update_where (\<lambda>r. ev_id r = e) (\<lambda>r. r\<lparr>ev_triggered := Some now\<rparr>) (ed_events d)"
    by (auto simp: add_event_delivery_def split: if_splits)
  then show ?thesis
    by (elim disjE) (auto intro: quiet_same quiet_update simp: breaker_cols_def)
next
  case (delete_event i)
  then show ?thesis by (auto simp: quiet_events_def delete_event_def distinct_map_filter)
qed (use assms(2) in \<open>auto intro!: quiet_same simp: get_or_create_binding_def update_event_delivery_def map_deliveries_def
    claim_pending_event_deliveries_def claim_deliveries_in_def heartbeat_event_delivery_def reap_expired_event_leases_def
    reap_orphan_event_deliveries_def reap_stale_event_deliveries_def Let_def
    split: option.splits if_splits prod.splits\<close>)

definition breaker_inv :: "int \<Rightarrow> breaker_state \<Rightarrow> bool" where
  "breaker_inv k s \<longleftrightarrow> (case s of (d, p, x) \<Rightarrow>
     distinct (map ev_id (ed_events d)) \<and> (\<forall>r \<in> set (ed_events d). breaker_ok k p x r))"

lemma limit_of_pos: "limit_of k r \<ge> 1"
  by (simp add: limit_of_def)

lemma limit_of_cong: "ev_max_retries r' = ev_max_retries r \<Longrightarrow> limit_of k r' = limit_of k r"
  by (simp add: limit_of_def)

lemma inv_other:
  assumes "breaker_inv k (d, p, x)" "quiet_events d d'" "ev_id ` set (ed_events d') \<inter> fst ` set p \<subseteq> ev_id ` set (ed_events d)"
  shows "breaker_inv k (d', p, x)"
proof -
  have "breaker_ok k p x r'" if r': "r' \<in> set (ed_events d')" for r'
  proof (cases "breaker_cols r' \<in> breaker_cols ` set (ed_events d)")
    case True
    then obtain r where r: "r \<in> set (ed_events d)" "breaker_cols r' = breaker_cols r" by blast
    then have "breaker_ok k p x r' = breaker_ok k p x r"
      unfolding breaker_ok_def breaker_cols_def using limit_of_cong [of r' r k] by simp
    with r(1) assms(1) show ?thesis by (simp add: breaker_inv_def)
  next
    case False
    with r' assms(2) have new: "ev_id r' \<notin> ev_id ` set (ed_events d)" "ev_failures r' = 0" "ev_tripped r' = None"
      unfolding quiet_events_def by blast+
    with r' assms(3) have "ev_id r' \<notin> fst ` set p" by blast
    with new limit_of_pos [of k r'] show ?thesis by (force simp: breaker_ok_def)
  qed
  with assms(1,2) show ?thesis by (simp add: breaker_inv_def quiet_events_def)
qed

lemma inv_update:
  assumes "breaker_inv k (d, p, x)" "ed_events d' = update_where q f (ed_events d)" "\<And>r. ev_id (f r) = ev_id r"
    and "\<And>r. r \<in> set (ed_events d) \<Longrightarrow> breaker_ok k p x r \<Longrightarrow> q r \<Longrightarrow> breaker_ok k p' x' (f r)"
    and "\<And>r. r \<in> set (ed_events d) \<Longrightarrow> breaker_ok k p x r \<Longrightarrow> \<not> q r \<Longrightarrow> breaker_ok k p' x' r"
  shows "breaker_inv k (d', p', x')"
proof -
  have "map ev_id (ed_events d') = map ev_id (ed_events d)" by (simp add: assms(2,3) map_update_where)
  moreover have "breaker_ok k p' x' r'" if r': "r' \<in> set (ed_events d')" for r'
  proof -
    from r' obtain r where r: "r \<in> set (ed_events d)" "r' = (if q r then f r else r)"
      unfolding assms(2) update_where_def by auto
    with assms(1) have "breaker_ok k p x r" by (simp add: breaker_inv_def)
    with r assms(4,5) show ?thesis by (cases "q r") simp_all
  qed
  ultimately show ?thesis using assms(1) by (simp add: breaker_inv_def)
qed

lemma breaker_step_inv:
  assumes "breaker_step k s s'" "breaker_inv k s" shows "breaker_inv k s'"
  using assms(1)
proof cases
  case (other m l d h d' h' p x)
  from other(3,4) have "quiet_events d d'" by (rule other_quiet)
  with assms(2) other(1,2,5) show ?thesis by (metis inv_other)
next
  case (count d p x i err now)
  have inv: "breaker_inv k (d, p, x)" using assms(2) count(1) by simp
  show ?thesis unfolding count(2)
    by (rule inv_update [OF inv, where q = "\<lambda>r. ev_id r = i"
        and f = "\<lambda>r. r\<lparr>ev_failures := Suc (ev_failures r), ev_last_failure := map_option (take 2000) (or_none err)\<rparr>"])
      (auto simp: count_event_failure_def breaker_ok_def limit_of_def)
next
  case (read qe d p i now q x)
  have inv: "breaker_inv k (d, p @ (i, now, False) # q, x)" using assms(2) read(1) by simp
  have limit: "limit_reached qe i d \<longleftrightarrow> int (ev_failures r) \<ge> limit_of k r" if "r \<in> set (ed_events d)" "ev_id r = i" for r
  proof -
    have "List.find (\<lambda>r. ev_id r = i) (ed_events d) = Some r"
    proof (cases "List.find (\<lambda>r. ev_id r = i) (ed_events d)")
      case None
      with that show ?thesis by (auto simp: find_None_iff)
    next
      case (Some y)
      then have "y \<in> set (ed_events d)" "ev_id y = i" by (auto simp: find_Some_iff)
      with that inv Some show ?thesis by (auto simp: breaker_inv_def distinct_map inj_on_def)
    qed
    then show ?thesis unfolding read(3) [symmetric] by (simp add: limit_reached_def breaker_limit_def limit_of_def)
  qed
  have "breaker_ok k (if limit_reached qe i d then p @ (i, now, True) # q else p @ q) x r"
    if r: "r \<in> set (ed_events d)" for r
    using inv r limit [OF r] by (cases "ev_id r = i") (auto simp: breaker_inv_def breaker_ok_def)
  with inv show ?thesis unfolding read(2) by (simp add: breaker_inv_def)
next
  case (trip d p i now q x)
  have inv: "breaker_inv k (d, p @ (i, now, True) # q, x)" using assms(2) trip(1) by simp
  show ?thesis unfolding trip(2)
    by (rule inv_update [OF inv, where q = "\<lambda>r. ev_id r = i \<and> ev_tripped r = None" and f = "\<lambda>r. r\<lparr>ev_tripped := Some now\<rparr>"])
      (auto simp: trip_event_breaker_def breaker_ok_def limit_of_def)
next
  case (reset d p x qe i)
  have inv: "breaker_inv k (d, p, x)" using assms(2) reset(1) by simp
  let ?x = "if \<exists>now. (i, now, True) \<in> set p then i # x else x"
  show ?thesis
  proof (cases "qe_breaker qe")
    case True
    show ?thesis unfolding reset(2)
      by (rule inv_update [OF inv, where q = "\<lambda>r. ev_id r = i"
          and f = "\<lambda>r. r\<lparr>ev_failures := 0, ev_tripped := None, ev_last_failure := None\<rparr>"])
        (use True limit_of_pos [of k] in \<open>auto simp: reset_event_breaker_def breaker_ok_def limit_of_def\<close>)
  next
    case False
    have "breaker_ok k p ?x r" if "breaker_ok k p x r" for r using that by (auto simp: breaker_ok_def)
    with inv False show ?thesis unfolding reset(2) by (simp add: breaker_inv_def reset_event_breaker_def)
  qed
qed

lemma breaker_reach_inv: "breaker_reach k s \<Longrightarrow> breaker_inv k s"
proof (induction rule: breaker_reach.induct)
  case empty
  show ?case by (simp add: breaker_inv_def)
next
  case (step s s')
  from step.hyps(2) step.IH show ?case by (rule breaker_step_inv)
qed

text \<open>A call of \<^verbatim>\<open>record_event_failure\<close> is these steps, one after the other.\<close>

lemma record_event_failure_steps:
  assumes "breaker_reach k (d, p, x)" "qe_threshold qe = k"
  shows "breaker_reach k (record_event_failure qe now i err d, p, x)"
proof (cases "qe_breaker qe")
  case True
  let ?d = "count_event_failure i err d"
  have "breaker_reach k (?d, p @ (i, now, False) # [], x)"
    using breaker_reach.step [OF assms(1) breaker_step.count [of k d p x i err now]] by simp
  from breaker_reach.step [OF this breaker_step.read [OF assms(2)]]
  have r: "breaker_reach k (?d, if limit_reached qe i ?d then p @ (i, now, True) # [] else p @ [], x)" .
  show ?thesis
  proof (cases "limit_reached qe i ?d")
    case t: True
    with r have "breaker_reach k (?d, p @ (i, now, True) # [], x)" by simp
    from breaker_reach.step [OF this breaker_step.trip] True t show ?thesis by (simp add: record_event_failure_def)
  next
    case False
    with r True show ?thesis by (simp add: record_event_failure_def)
  qed
next
  case False
  with assms(1) show ?thesis by (simp add: record_event_failure_def)
qed

text \<open>
  C37: With the breaker switched on (it is off by default) and a constant threshold, and however the
  statements of concurrent calls interleave: an event whose permanent failures in a row have reached
  its limit is blocked once no call that counts a failure of it is under way; a blocked event has
  reached its limit, unless a success reset it just when such a call had read the count and not yet
  stored the trip; and a success unblocks it.
\<close>

theorem breaker_open_iff:
  assumes "breaker_reach k (d, p, x)" "qe_breaker qe" "qe_threshold qe = k"
    and "List.find (\<lambda>r. ev_id r = i) (ed_events d) = Some r"
  shows "(i \<notin> fst ` set p \<longrightarrow> int (ev_failures r) \<ge> breaker_limit qe r \<longrightarrow> is_event_breaker_tripped qe i d)
    \<and> (i \<notin> set x \<longrightarrow> is_event_breaker_tripped qe i d \<longrightarrow> int (ev_failures r) \<ge> breaker_limit qe r)
    \<and> \<not> is_event_breaker_tripped qe i (reset_event_breaker qe i d)"
proof -
  from assms(4) have r: "r \<in> set (ed_events d)" "ev_id r = i" by (auto simp: find_Some_iff)
  with breaker_reach_inv [OF assms(1)] have "breaker_ok k p x r" by (simp add: breaker_inv_def)
  moreover have "limit_of k r = breaker_limit qe r" unfolding assms(3) [symmetric] by (simp add: limit_of_def breaker_limit_def)
  moreover have "\<not> is_event_breaker_tripped qe i (reset_event_breaker qe i d)"
    by (auto simp: is_event_breaker_tripped_def reset_event_breaker_def update_where_def find_Some_iff split: option.splits)
  ultimately show ?thesis
    using r(2) assms(2,4) by (auto simp: is_event_breaker_tripped_def breaker_ok_def)
qed

text \<open>
  The race of the theorem: a success that resets the event between the reading of the count and the
  storing of the trip leaves the event blocked with no failure counted.
\<close>

lemma late_trip_blocks:
  assumes "qe_breaker qe" "List.find (\<lambda>r. ev_id r = i) (ed_events d) = Some r"
  shows "let d' = trip_event_breaker now i (reset_event_breaker qe i d) in
    is_event_breaker_tripped qe i d' \<and> (\<exists>r'. List.find (\<lambda>r. ev_id r = i) (ed_events d') = Some r' \<and> ev_failures r' = 0)"
proof -
  have find: "List.find (\<lambda>r. ev_id r = i) (update_where q f t) = map_option (\<lambda>r. if q r then f r else r) (List.find (\<lambda>r. ev_id r = i) t)"
    if "\<And>r. ev_id (f r) = ev_id r" for q f t using that by (induction t) (auto simp: update_where_def)
  have "ev_id r = i" using assms(2) by (auto simp: find_Some_iff)
  then show ?thesis
    using assms by (simp add: trip_event_breaker_def reset_event_breaker_def is_event_breaker_tripped_def find)
qed

section \<open>An attempt that is counted twice\<close>

text \<open>
  The sweep and the reaper of a starting process leave the lease of a delivery they queue again.  A
  delivery that the sweep queues for its last attempt is therefore parked by the next reaper of
  leases, before any worker could claim it.
\<close>

lemma swept_attempt_lost:
  assumes "ed_deliveries d = [r]" "in_flight r" "claimed_before (now - max 0 age) r" "int (Suc (dl_reenqueues r)) = budget qe None"
    and "dl_expires r = Some e" "e < later"
  shows "\<exists>d1 d2. reap_stale_event_deliveries qe now age None (Some True) d = (1, d1)
    \<and> reap_expired_event_leases qe later (Some True) None d1 = (1, d2)
    \<and> (\<exists>r2. ed_deliveries d2 = [r2] \<and> dl_status r2 = ''failed'' \<and> dl_finished r2 = Some later \<and> \<not> claimable None r2)"
proof -
  define m q where "m = budget qe None" and "q = requeue_delivery ''stale-sweep recovered orphan'' r"
  define x where "x = clear_lease (park_delivery later ''lease-reap'' q)"
  have r: "within_budget m r" and q: "\<not> within_budget m q" "in_flight q" "lease_expired later q" "dl_status q \<noteq> ''failed''"
    using assms(4-6) by (simp_all add: m_def q_def within_budget_def requeue_delivery_def in_flight_def lease_expired_def)
  have x: "dl_status x = ''failed''" "dl_finished x = Some later" "\<not> within_budget m x"
    using q(1) by (simp_all add: x_def park_delivery_def clear_lease_def within_budget_def)
  have "reap_stale_event_deliveries qe now age None (Some True) d = (1, d\<lparr>ed_deliveries := [q]\<rparr>)"
    using assms(1-3) r q(4)
    by (simp add: reap_stale_event_deliveries_def park_then_requeue_def counted_update_def update_where_def Let_def
        flip: m_def q_def)
  moreover have "reap_expired_event_leases qe later (Some True) None (d\<lparr>ed_deliveries := [q]\<rparr>) = (1, d\<lparr>ed_deliveries := [x]\<rparr>)"
    using q x(3)
    by (simp add: reap_expired_event_leases_def park_then_requeue_def counted_update_def update_where_def Let_def
        flip: m_def x_def)
  ultimately show ?thesis using x by (simp add: claimable_def)
qed

section \<open>Witnesses\<close>

definition sample_env :: queue_env where
  "sample_env = \<lparr>qe_worker = ''w'', qe_pid = 1, qe_ttl = 120, qe_reenqueue = True, qe_backfill = True, qe_transient = True,
     qe_attempts = 5, qe_retry_delay = 300, qe_breaker = True, qe_threshold = 1\<rparr>"

definition sample_args :: event_args where
  "sample_args = \<lparr>ea_name = ''n'', ea_kind = ''prompt'', ea_slug = ''s'', ea_secret = ''k'', ea_hint = None, ea_type = ''generic'',
     ea_description = None, ea_schema = [], ea_ref = None, ea_template = None, ea_model = None, ea_binding = False, ea_path = None,
     ea_policy = NoPolicy, ea_rate = 60, ea_max_payload = 262144, ea_enabled = True\<rparr>"

definition sample_d1 :: event_db where
  "sample_d1 = snd (add_event sample_texts 0 ''e'' sample_args \<lparr>ed_events = [], ed_deliveries = [], ed_bindings = []\<rparr>)"

definition sample_d2 :: event_db where
  "sample_d2 = snd (add_event_delivery sample_env 1 ''x'' ''e'' ''agent'' None [] ''received'' False sample_d1)"

definition sample_d3 :: event_db where
  "sample_d3 = snd (claim_pending_event_deliveries sample_env 2 10 None sample_d2)"

definition sample_d4 :: event_db where
  "sample_d4 = snd (heartbeat_event_delivery sample_env 100 ''x'' ''w'' sample_d3)"

definition sample_d5 :: event_db where
  "sample_d5 = snd (reap_expired_event_leases sample_env 130 None None sample_d4)"

lemmas sample_defs = sample_d1_def sample_d2_def sample_d3_def sample_d4_def sample_d5_def sample_env_def sample_args_def
  add_event_def bind_op_def insert_event_def encode_policy_def normalize_policy_def policy_items_def no_limits_def
  add_event_delivery_def claim_pending_event_deliveries_def claim_deliveries_in_def next_deliveries_def sql_limit_def claimable_def
  claimed_by_def update_where_def heartbeat_event_delivery_def map_deliveries_def reap_expired_event_leases_def
  park_then_requeue_def counted_update_def lease_expired_def lease_ttl_def Let_def or_none_def stripped_def

lemma sample_claim: "map dl_id (fst (claim_pending_event_deliveries sample_env 2 10 None sample_d2)) = [''x'']"
  by (simp add: sample_defs)

lemma sample_row:
  "ed_deliveries sample_d3 = [\<lparr>dl_id = ''x'', dl_event = ''e'', dl_source = ''agent'', dl_external = None, dl_status = ''received'',
     dl_payload = [], dl_started = 1, dl_finished = None, dl_output = None, dl_error = None, dl_session = None, dl_workflow_run = None,
     dl_task_run = None, dl_claimed = Some 2, dl_reenqueues = 0, dl_expires = Some 122, dl_worker = Some ''w'', dl_pid = Some 1,
     dl_heartbeat = None\<rparr>]"
  by (simp add: sample_defs)

lemma sample_reach1: "queue_reach 5 (sample_d1, [])"
  unfolding sample_d1_def by (rule queue_reach.step [OF queue_reach.empty]) (rule queue_step.add_event, rule surjective_pairing)

lemma sample_reach2: "queue_reach 5 (sample_d2, [])"
  using queue_reach.step [OF sample_reach1 queue_step.deliver [where claimed = False and i = "''x''", OF surjective_pairing]]
  by (simp add: sample_d2_def)

lemma sample_reach3: "queue_reach 5 (sample_d3, [''x''])"
  using queue_reach.step [OF sample_reach2 queue_step.claim [OF surjective_pairing, where qe = sample_env and now = 2 and n = 10 and ids = None]]
  by (simp add: sample_claim sample_d3_def)

theorem handed_out_boundedly_witness: "count_list [''x''] ''x'' \<le> nat 5 + 1"
  using handed_out_boundedly [OF sample_reach3, of "''x''"] by blast

lemma sample_undisturbed: "undisturbed 5 ''x'' (sample_d3, [''x'']) (sample_d5, [''x''])"
proof (rule undisturbed.later)
  show "undisturbed 5 ''x'' (sample_d3, [''x'']) (sample_d4, [''x''])"
  proof (rule undisturbed.later [OF undisturbed.start])
    show "queue_step 5 Other (sample_d3, [''x'']) (sample_d4, [''x''])"
      unfolding sample_d4_def by (rule queue_step.heartbeat [OF surjective_pairing])
  qed (simp add: spares_def)
  show "queue_step 5 (Lease 130) (sample_d4, [''x'']) (sample_d5, [''x''])"
    unfolding sample_d5_def by (rule queue_step.reap_leases [OF surjective_pairing]) (simp add: budget_def sample_env_def)
  show "spares ''x'' (Lease 130) (fst (sample_d4, [''x'']))"
    by (simp add: spares_def sample_d4_def heartbeat_event_delivery_def Let_def map_deliveries_def sample_row update_where_def
        lease_expired_def lease_ttl_def sample_env_def)
qed

theorem lease_keeps_delivery_witness:
  "dl_id (hd (ed_deliveries sample_d5)) = ''x'' \<and> dl_claimed (hd (ed_deliveries sample_d5)) \<noteq> None"
proof -
  have "\<forall>r' \<in> set (ed_deliveries sample_d5). dl_id r' = ''x'' \<longrightarrow> dl_claimed r' \<noteq> None"
    using lease_keeps_delivery [OF sample_reach3 _ _ _ _ sample_undisturbed, of "hd (ed_deliveries sample_d3)"]
    by (simp add: sample_row)
  moreover have "map dl_id (ed_deliveries sample_d5) = [''x'']"
    by (simp add: sample_d5_def sample_d4_def heartbeat_event_delivery_def reap_expired_event_leases_def park_then_requeue_def
        counted_update_def Let_def map_deliveries_def update_where_def sample_row lease_expired_def lease_ttl_def sample_env_def)
  ultimately show ?thesis by (cases "ed_deliveries sample_d5") auto
qed

theorem restart_loses_nothing_witness:
  "claimable None (ed_deliveries (snd (reap_orphan_event_deliveries sample_env 3 None None None sample_d3)) ! 0)
   \<and> dl_reenqueues (ed_deliveries (snd (reap_orphan_event_deliveries sample_env 3 None None None sample_d3)) ! 0) = 1"
  using restart_loses_nothing [OF surjective_pairing, where on = None and qe = sample_env and now = 3 and attempts = None
    and failed = None and d = sample_d3]
  by (simp add: sample_env_def sample_row in_flight_def budget_def Let_def)

definition sample_d6 :: event_db where
  "sample_d6 = record_event_failure sample_env 9 ''e'' (Some ''boom'') sample_d1"

lemma sample_breaker: "breaker_reach 1 (sample_d6, [], [])"
proof -
  have "queue_step 5 Other (\<lparr>ed_events = [], ed_deliveries = [], ed_bindings = []\<rparr>, []) (sample_d1, [])"
    unfolding sample_d1_def by (rule queue_step.add_event) (rule surjective_pairing)
  from breaker_reach.step [OF breaker_reach.empty breaker_step.other [OF this]]
  have "breaker_reach 1 (sample_d1, [], [])" by simp
  then show ?thesis unfolding sample_d6_def by (rule record_event_failure_steps) (simp add: sample_env_def)
qed

theorem breaker_open_iff_witness:
  "is_event_breaker_tripped sample_env ''e'' sample_d6"
proof -
  have "\<exists>r. List.find (\<lambda>r. ev_id r = ''e'') (ed_events sample_d6) = Some r \<and> int (ev_failures r) \<ge> breaker_limit sample_env r"
    by (simp add: sample_d6_def record_event_failure_def count_event_failure_def trip_event_breaker_def update_where_def
        limit_reached_def breaker_limit_def sample_defs)
  then show ?thesis
    using breaker_open_iff [OF sample_breaker, of sample_env "''e''"] by (auto simp: sample_env_def)
qed

end
