(* ===== verification/TaskTables.thy ===== *)
theory TaskTables
  imports EventTables "HOL-Library.Option_ord" "HOL-Library.Product_Lexorder"
begin

text \<open>
  The scheduled tasks of \<^verbatim>\<open>memory/db.py\<close> and what \<^verbatim>\<open>core/scheduler.py\<close> does with them: the
  tasks with their cursor \<^verbatim>\<open>next_run\<close>, the atomic claim of a due occurrence, the queues of run
  requests, the requests that follow an interrupted or failed firing.  Time zones, the next
  time of a cron expression and the texts of floats are parameters, \<^verbatim>\<open>time.time()\<close> and new identifiers
  are arguments.
\<close>

section \<open>Rows\<close>

record scheduled_task =
  st_id :: string
  st_name :: string
  st_cron :: string
  st_prompt :: string
  st_enabled :: bool
  st_last_run :: "real option"
  st_next_run :: "real option"
  st_model :: "string option"
  st_tz :: "string option"
  st_policy :: "policy option"
  st_created :: real
  st_updated :: real

text \<open>The columns that \<^verbatim>\<open>task_run_requests\<close> and \<^verbatim>\<open>workflow_run_requests\<close> share.\<close>

record run_ticket =
  tk_id :: string
  tk_owner :: string
  tk_trigger :: string
  tk_claimed :: "real option"
  tk_run :: "string option"
  tk_created :: real

record workflow_ticket = run_ticket +
  wt_inputs :: "(string \<times> json) list"

text \<open>The columns of \<^verbatim>\<open>tool_invocations\<close> that the scheduler reads.\<close>

record tool_mark =
  tm_task_run :: "string option"
  tm_root_kind :: string
  tm_root_id :: string
  tm_session :: "string option"

text \<open>\<open>td_reaped\<close> is the process's \<^verbatim>\<open>_last_reaped_task_run_ids\<close>.\<close>

record task_db =
  td_tasks :: "scheduled_task list"
  td_runs :: "task_run list"
  td_tickets :: "run_ticket list"
  td_tools :: "tool_mark list"
  td_reaped :: "string list"

section \<open>Tasks\<close>

text \<open>\<^verbatim>\<open>validate_timezone\<close>: no zone, a blank one, or one that can be loaded.\<close>

definition validate_timezone :: "(string \<Rightarrow> bool) \<Rightarrow> string option \<Rightarrow> unit res" where
  "validate_timezone zone name =
     (case name of None \<Rightarrow> Ret () | Some n \<Rightarrow> guard (strip n = [] \<or> zone (strip n)) ValueError)"

definition one_shot :: "string \<Rightarrow> bool" where
  "one_shot expr \<longleftrightarrow> take 6 expr = ''@once:''"

record task_args =
  ta_name :: string
  ta_cron :: string
  ta_prompt :: string
  ta_next_run :: "real option"
  ta_model :: "string option"
  ta_tz :: "string option"
  ta_policy :: policy_input

definition add_task :: "(string \<Rightarrow> bool) \<Rightarrow> policy_texts \<Rightarrow> real \<Rightarrow> string \<Rightarrow> task_args \<Rightarrow> (task_db, string) op" where
  "add_task zone pt now i a =
     bind_op (lift_op (validate_timezone zone (ta_tz a))) (\<lambda>_.
     bind_op (lift_op (encode_policy pt (ta_policy a))) (\<lambda>p. \<lambda>d.
       if i \<in> st_id ` set (td_tasks d) then (Raise IntegrityError, d)
       else (Ret i, d\<lparr>td_tasks := td_tasks d @
         [\<lparr>st_id = i, st_name = ta_name a, st_cron = ta_cron a, st_prompt = ta_prompt a, st_enabled = True, st_last_run = None,
           st_next_run = Some (case ta_next_run a of None \<Rightarrow> now | Some t \<Rightarrow> if t = 0 then now else t),
           st_model = or_none (ta_model a), st_tz = or_none (ta_tz a), st_policy = p, st_created = now, st_updated = now\<rparr>]\<rparr>)))"

text \<open>\<^verbatim>\<open>ORDER BY next_run ASC\<close> puts \<^verbatim>\<open>NULL\<close> first.\<close>

definition get_tasks :: "bool \<Rightarrow> task_db \<Rightarrow> scheduled_task list" where
  "get_tasks enabled_only d =
     (if enabled_only then sort_key st_next_run (filter st_enabled (td_tasks d)) else rev (sort_key st_created (td_tasks d)))"

definition get_task :: "string \<Rightarrow> task_db \<Rightarrow> scheduled_task option" where
  "get_task i d = List.find (\<lambda>r. st_id r = i) (td_tasks d)"

datatype sched_col =
    SName string
  | SCron string
  | SPrompt string
  | SEnabled bool
  | SLastRun "real option"
  | SNextRun "real option"
  | SModel "string option"
  | STimezone "string option"
  | SPolicy policy_input
  | SOther string

fun sched_setter :: "policy_texts \<Rightarrow> sched_col \<Rightarrow> (scheduled_task \<Rightarrow> scheduled_task) list res" where
  "sched_setter pt (SName x) = Ret [\<lambda>r. r\<lparr>st_name := x\<rparr>]"
| "sched_setter pt (SCron x) = Ret [\<lambda>r. r\<lparr>st_cron := x\<rparr>]"
| "sched_setter pt (SPrompt x) = Ret [\<lambda>r. r\<lparr>st_prompt := x\<rparr>]"
| "sched_setter pt (SEnabled x) = Ret [\<lambda>r. r\<lparr>st_enabled := x\<rparr>]"
| "sched_setter pt (SLastRun x) = Ret [\<lambda>r. r\<lparr>st_last_run := x\<rparr>]"
| "sched_setter pt (SNextRun x) = Ret [\<lambda>r. r\<lparr>st_next_run := x\<rparr>]"
| "sched_setter pt (SModel x) = Ret [\<lambda>r. r\<lparr>st_model := x\<rparr>]"
| "sched_setter pt (STimezone x) = Ret [\<lambda>r. r\<lparr>st_tz := or_none x\<rparr>]"
| "sched_setter pt (SPolicy x) = bind_res (encode_policy pt x) (\<lambda>p. Ret [\<lambda>r. r\<lparr>st_policy := p\<rparr>])"
| "sched_setter pt (SOther _) = Ret []"

fun new_timezone :: "sched_col \<Rightarrow> string option option" where
  "new_timezone (STimezone x) = Some x"
| "new_timezone _ = None"

definition update_task :: "(string \<Rightarrow> bool) \<Rightarrow> policy_texts \<Rightarrow> real \<Rightarrow> string \<Rightarrow> sched_col list \<Rightarrow> (task_db, unit) op" where
  "update_task zone pt now i cols =
     bind_op (lift_op (each_res (validate_timezone zone) (List.map_filter new_timezone cols))) (\<lambda>_.
     bind_op (lift_op (each_res (sched_setter pt) cols)) (\<lambda>fss.
       modify_op (\<lambda>d. if concat fss = [] then d
         else d\<lparr>td_tasks := update_where (\<lambda>r. st_id r = i) (\<lambda>r. (fold (\<lambda>f. f) (concat fss) r)\<lparr>st_updated := now\<rparr>) (td_tasks d)\<rparr>)))"

text \<open>\<^verbatim>\<open>ON DELETE CASCADE\<close> removes the firings and the requests.\<close>

definition delete_task :: "string \<Rightarrow> task_db \<Rightarrow> task_db" where
  "delete_task i d = d\<lparr>td_tasks := filter (\<lambda>r. st_id r \<noteq> i) (td_tasks d),
     td_runs := filter (\<lambda>r. rn_owner r \<noteq> i) (td_runs d), td_tickets := filter (\<lambda>r. tk_owner r \<noteq> i) (td_tickets d)\<rparr>"

definition due_at :: "real \<Rightarrow> scheduled_task \<Rightarrow> bool" where
  "due_at now r \<longleftrightarrow> st_enabled r \<and> (case st_next_run r of None \<Rightarrow> False | Some t \<Rightarrow> t \<le> now)"

definition get_due_tasks :: "real \<Rightarrow> task_db \<Rightarrow> scheduled_task list" where
  "get_due_tasks now d = sort_key st_next_run (filter (due_at now) (td_tasks d))"

section \<open>Claiming a due occurrence\<close>

record due_claim =
  dc_task :: string
  dc_expected :: real
  dc_fired :: real
  dc_next :: "real option"
  dc_disable :: bool
  dc_run :: string
  dc_session :: "string option"

definition at_cursor :: "string \<Rightarrow> real \<Rightarrow> scheduled_task \<Rightarrow> bool" where
  "at_cursor i t r \<longleftrightarrow> st_id r = i \<and> st_enabled r \<and> st_next_run r = Some t"

definition advance_cursor :: "due_claim \<Rightarrow> scheduled_task \<Rightarrow> scheduled_task" where
  "advance_cursor c r = r\<lparr>st_last_run := Some (dc_fired c), st_next_run := dc_next c, st_enabled := \<not> dc_disable c, st_updated := dc_fired c\<rparr>"

definition claim_due_task_run :: "due_claim \<Rightarrow> (task_db, bool) op" where
  "claim_due_task_run c d =
     (if length (filter (at_cursor (dc_task c) (dc_expected c)) (td_tasks d)) \<noteq> 1 then (Ret False, d)
      else (case insert_row \<lparr>rn_id = dc_run c, rn_owner = dc_task c, rn_trigger = ''schedule'', rn_status = ''running'',
                rn_started = dc_fired c, rn_finished = None, rn_error = None, tr_output = None, tr_session = dc_session c\<rparr> (td_runs d) of
          (Inl e, _) \<Rightarrow> (Raise e, d)
        | (Inr _, runs) \<Rightarrow> (Ret True, d\<lparr>td_tasks := update_where (at_cursor (dc_task c) (dc_expected c)) (advance_cursor c) (td_tasks d),
            td_runs := runs\<rparr>)))"

text \<open>
  The part of \<^verbatim>\<open>_check_and_run\<close> that fires tasks: each due task that the host authorises is claimed
  with its next time; an exception leaves the task due.  The result lists the runs dispatched.
\<close>

record sched_env =
  se_authorized :: "scheduled_task \<Rightarrow> bool"
  se_next :: "string \<Rightarrow> real \<Rightarrow> string option \<Rightarrow> real res"
  se_run_id :: "string \<Rightarrow> string"
  se_session :: "string \<Rightarrow> string \<Rightarrow> string option"

fun fire_tasks :: "sched_env \<Rightarrow> real \<Rightarrow> scheduled_task list \<Rightarrow> task_db \<Rightarrow> (string \<times> string) list \<times> task_db" where
  "fire_tasks se now [] d = ([], d)"
| "fire_tasks se now (t # ts) d =
     (if \<not> se_authorized se t then fire_tasks se now ts d
      else (case (if one_shot (st_cron t) then Ret None
                  else bind_res (se_next se (st_cron t) now (or_none (st_tz t))) (\<lambda>x. Ret (Some x)), st_next_run t) of
          (Inr nxt, Some due) \<Rightarrow>
            (let rid = se_run_id se (st_id t) in
             case claim_due_task_run \<lparr>dc_task = st_id t, dc_expected = due, dc_fired = now, dc_next = nxt, dc_disable = one_shot (st_cron t),
                 dc_run = rid, dc_session = se_session se (st_id t) rid\<rparr> d of
               (Inr True, d') \<Rightarrow> (let (fired, d'') = fire_tasks se now ts d' in ((st_id t, rid) # fired, d''))
             | (_, d') \<Rightarrow> fire_tasks se now ts d')
        | _ \<Rightarrow> fire_tasks se now ts d))"

definition check_due_tasks :: "sched_env \<Rightarrow> real \<Rightarrow> task_db \<Rightarrow> (string \<times> string) list \<times> task_db" where
  "check_due_tasks se now d = fire_tasks se now (get_due_tasks now d) d"

section \<open>Run requests\<close>

definition insert_ticket :: "run_ticket \<Rightarrow> (task_db, unit) op" where
  "insert_ticket r d =
     (if tk_id r \<in> tk_id ` set (td_tickets d) \<or> tk_owner r \<notin> st_id ` set (td_tasks d) then (Raise IntegrityError, d)
      else (Ret (), d\<lparr>td_tickets := td_tickets d @ [r]\<rparr>))"

definition enqueue_task_run_request ::
    "real \<Rightarrow> string \<Rightarrow> string \<Rightarrow> string \<Rightarrow> real option \<Rightarrow> bool \<Rightarrow> (task_db, string) op" where
  "enqueue_task_run_request now i task trigger not_before deduplicate d =
     (case (if deduplicate then List.find (\<lambda>r. tk_owner r = task \<and> tk_trigger r = trigger) (td_tickets d) else None) of
        Some r \<Rightarrow> (Ret (tk_id r), d)
      | None \<Rightarrow> bind_op (insert_ticket \<lparr>tk_id = i, tk_owner = task, tk_trigger = trigger, tk_claimed = None, tk_run = None,
            tk_created = max now (case not_before of None \<Rightarrow> 0 | Some t \<Rightarrow> t)\<rparr>) (\<lambda>_. ret_op i) d)"

definition enqueue_workflow_run_request ::
    "real \<Rightarrow> string \<Rightarrow> string \<Rightarrow> string \<Rightarrow> (string \<times> json) list \<Rightarrow> (workflow_ticket list, string) op" where
  "enqueue_workflow_run_request now i workflow trigger inputs t =
     (if i \<in> tk_id ` set t then (Raise IntegrityError, t)
      else (Ret i, t @ [\<lparr>tk_id = i, tk_owner = workflow, tk_trigger = trigger, tk_claimed = None, tk_run = None, tk_created = now,
         wt_inputs = inputs\<rparr>]))"

definition ready :: "real \<Rightarrow> string list option \<Rightarrow> 'a run_ticket_scheme \<Rightarrow> bool" where
  "ready now ids r \<longleftrightarrow> tk_claimed r = None \<and> tk_created r \<le> now \<and> (case ids of None \<Rightarrow> True | Some is \<Rightarrow> tk_owner r \<in> set is)"

definition in_order :: "'a run_ticket_scheme list \<Rightarrow> 'a run_ticket_scheme list" where
  "in_order = sort_key (\<lambda>r. (tk_created r, tk_id r))"

definition claim_authorized_requests ::
    "real \<Rightarrow> int \<Rightarrow> string list option \<Rightarrow> 'a run_ticket_scheme list \<Rightarrow> 'a run_ticket_scheme list \<times> 'a run_ticket_scheme list" where
  "claim_authorized_requests now n ids t =
     (if ids = Some [] \<or> n \<le> 0 then ([], t)
      else let picked = map tk_id (take (nat n) (in_order (filter (ready now ids) t)));
               taken = (\<lambda>r. tk_id r \<in> set picked \<and> tk_claimed r = None)
           in (in_order (map (tk_claimed_update (\<lambda>_. Some now)) (filter taken t)),
               update_where taken (tk_claimed_update (\<lambda>_. Some now)) t))"

definition claim_pending_task_requests :: "real \<Rightarrow> int \<Rightarrow> string list option \<Rightarrow> task_db \<Rightarrow> run_ticket list \<times> task_db" where
  "claim_pending_task_requests now n ids d =
     (let (rs, t) = claim_authorized_requests now n ids (td_tickets d) in (rs, d\<lparr>td_tickets := t\<rparr>))"

definition claim_pending_workflow_requests ::
    "real \<Rightarrow> int \<Rightarrow> string list option \<Rightarrow> workflow_ticket list \<Rightarrow> workflow_ticket list \<times> workflow_ticket list" where
  "claim_pending_workflow_requests = claim_authorized_requests"

definition set_ticket_run :: "string \<Rightarrow> string \<Rightarrow> 'a run_ticket_scheme list \<Rightarrow> 'a run_ticket_scheme list" where
  "set_ticket_run i rid = update_where (\<lambda>r. tk_id r = i) (\<lambda>r. r\<lparr>tk_run := Some rid\<rparr>)"

definition set_task_request_run_id :: "string \<Rightarrow> string \<Rightarrow> task_db \<Rightarrow> task_db" where
  "set_task_request_run_id i rid d = d\<lparr>td_tickets := set_ticket_run i rid (td_tickets d)\<rparr>"

definition set_workflow_request_run_id :: "string \<Rightarrow> string \<Rightarrow> workflow_ticket list \<Rightarrow> workflow_ticket list" where
  "set_workflow_request_run_id = set_ticket_run"

definition get_task_run_request :: "string \<Rightarrow> task_db \<Rightarrow> run_ticket option" where
  "get_task_run_request i d = List.find (\<lambda>r. tk_id r = i) (td_tickets d)"

definition get_workflow_run_request :: "string \<Rightarrow> workflow_ticket list \<Rightarrow> workflow_ticket option" where
  "get_workflow_run_request i t = List.find (\<lambda>r. tk_id r = i) t"

section \<open>Interrupted firings\<close>

definition reap_task_runs :: "real \<Rightarrow> task_db \<Rightarrow> nat \<times> task_db" where
  "reap_task_runs now d = (let (ids, n, runs) = reap_orphan_task_runs now (td_runs d) in (n, d\<lparr>td_runs := runs, td_reaped := ids\<rparr>))"

definition interrupted :: "task_db \<Rightarrow> task_run list" where
  "interrupted d = filter (\<lambda>r. rn_id r \<in> set (td_reaped d) \<and> rn_status r = ''failed'' \<and> has_mark reap_marker (rn_error r)
     \<and> (\<exists>t \<in> set (td_tasks d). st_id t = rn_owner r \<and> st_enabled t)) (td_runs d)"

definition previous_run :: "task_run \<Rightarrow> task_run list \<Rightarrow> task_run option" where
  "previous_run r t = (case newest (filter (\<lambda>x. rn_owner x = rn_owner r \<and> rn_id x \<noteq> rn_id r) t) of [] \<Rightarrow> None | x # _ \<Rightarrow> Some x)"

text \<open>The loop over the candidates; \<open>ids\<close> gives the identifier of the n-th new request.\<close>

fun requeue_each :: "real \<Rightarrow> (nat \<Rightarrow> string) \<Rightarrow> task_run list \<Rightarrow> string list \<Rightarrow> (task_db, string list) op" where
  "requeue_each now ids [] done_tasks d = (Ret done_tasks, d)"
| "requeue_each now ids (r # rs) done_tasks d =
     (if \<exists>q \<in> set (td_tickets d). tk_owner q = rn_owner r \<and> tk_claimed q = None then requeue_each now ids rs done_tasks d
      else if (case previous_run r (td_runs d) of None \<Rightarrow> False
               | Some p \<Rightarrow> (case rn_error p of None \<Rightarrow> False | Some e \<Rightarrow> contains_text reap_marker e)) then requeue_each now ids rs done_tasks d
      else if rn_owner r \<in> set done_tasks then requeue_each now ids rs done_tasks d
      else bind_op (enqueue_task_run_request now (ids (length done_tasks)) (rn_owner r) ''restart-requeue'' None False)
             (\<lambda>_. requeue_each now ids rs (done_tasks @ [rn_owner r])) d)"

definition requeue_interrupted_task_runs :: "real \<Rightarrow> (nat \<Rightarrow> string) \<Rightarrow> (task_db, string list) op" where
  "requeue_interrupted_task_runs now ids d =
     (if td_reaped d = [] then (Ret [], d) else requeue_each now ids (interrupted d) [] (d\<lparr>td_reaped := []\<rparr>))"

section \<open>Automatic retries\<close>

text \<open>\<^verbatim>\<open>_classify_delivery_failure\<close> of an error text.\<close>

definition transient_tokens :: "string list" where
  "transient_tokens = [''rate limit'', ''ratelimit'', ''rate_limit'', ''429'', ''529'', ''503'', ''quota'', ''throttl'', ''overloaded'',
     ''too many requests'', ''temporarily unavailable'', ''service unavailable'', ''capacity'', ''timed out'', ''timeout'',
     ''exit code 75'', ''exit_code 75'', ''code 75'', ''no available'', ''noavailableaccount'', ''no_enabled_model'',
     ''no model is currently enabled'', ''closedresourceerror'', ''brokenresourceerror'', ''endofstream'', ''connection closed'',
     ''failed in transport'', ''transport failure'']"

definition transient_text :: "string \<Rightarrow> bool" where
  "transient_text e \<longleftrightarrow> (\<exists>tok \<in> set transient_tokens. contains_text tok (fold_case e))"

fun split_commas :: "string \<Rightarrow> string \<Rightarrow> string list" where
  "split_commas acc [] = [rev acc]"
| "split_commas acc (c # cs) = (if c = CHR '','' then rev acc # split_commas [] cs else split_commas (c # acc) cs)"

fun all_some :: "'a option list \<Rightarrow> 'a list option" where
  "all_some [] = Some []"
| "all_some (x # xs) = (case x of None \<Rightarrow> None | Some y \<Rightarrow> map_option (Cons y) (all_some xs))"

definition default_retry_delays :: "real list" where
  "default_retry_delays = [900, 3600, 14400]"

text \<open>
  \<open>ft\<close> is \<^verbatim>\<open>float\<close> of a text that names a finite number.  A delay is a real number here: the texts
  \<^verbatim>\<open>inf\<close> and \<^verbatim>\<open>nan\<close>, which the code keeps as delays, count as texts that are no number.
\<close>

definition task_retry_delays :: "(string \<Rightarrow> real option) \<Rightarrow> string option \<Rightarrow> real list" where
  "task_retry_delays ft raw =
     (case raw of
        None \<Rightarrow> default_retry_delays
      | Some s \<Rightarrow>
          (if strip s = [] then []
           else case all_some (map (\<lambda>item. ft (strip item)) (split_commas [] s)) of
               None \<Rightarrow> default_retry_delays
             | Some vs \<Rightarrow> if \<exists>v \<in> set vs. v < 0 then default_retry_delays else take 8 vs))"

definition retry_prefix :: string where
  "retry_prefix = ''automatic-retry:''"

definition parse_task_retry_trigger :: "string \<Rightarrow> int \<times> string option" where
  "parse_task_retry_trigger t =
     (if take (length retry_prefix) t \<noteq> retry_prefix then (0, None)
      else let body = drop (length retry_prefix) t;
               number = takeWhile (\<lambda>c. c \<noteq> CHR '':'') body;
               origin = drop (Suc (length number)) body
           in if length number = length body then (0, None)
              else case int_text number of
                  None \<Rightarrow> (0, None)
                | Some n \<Rightarrow> if 0 < n \<and> origin \<noteq> [] then (n, Some origin) else (0, None))"

definition retry_trigger :: "nat \<Rightarrow> string \<Rightarrow> string" where
  "retry_trigger n origin = retry_prefix @ show_nat n @ CHR '':'' # origin"

text \<open>\<open>broken\<close>: the query raises.\<close>

definition task_run_has_tool_activity :: "bool \<Rightarrow> string \<Rightarrow> task_db \<Rightarrow> bool" where
  "task_run_has_tool_activity broken i d \<longleftrightarrow>
     i = [] \<or> broken
     \<or> (case get_task_run i (td_runs d) of
          None \<Rightarrow> True
        | Some r \<Rightarrow> \<exists>x \<in> set (td_tools d). tm_task_run x = Some i \<or> tm_root_kind x = ''scheduled_run'' \<and> tm_root_id x = i
            \<or> tr_session r \<noteq> None \<and> tm_session x = tr_session r)"

text \<open>
  \<^verbatim>\<open>_maybe_schedule_task_retry\<close> for a task and the row of its firing as the caller read them;
  \<open>note\<close> is the text of the marker that names the attempt and its time.
\<close>

definition maybe_schedule_task_retry ::
    "real list \<Rightarrow> bool \<Rightarrow> (int \<Rightarrow> real \<Rightarrow> string) \<Rightarrow> real \<Rightarrow> string \<Rightarrow> scheduled_task \<Rightarrow> task_run \<Rightarrow> (task_db, string option) op" where
  "maybe_schedule_task_retry delays broken note now i task run d =
     (let error = strip (case rn_error run of None \<Rightarrow> [] | Some e \<Rightarrow> e);
          (attempt, chain) = parse_task_retry_trigger (rn_trigger run);
          origin = (case chain of None \<Rightarrow> rn_id run | Some r \<Rightarrow> r)
      in if rn_status run \<noteq> ''failed'' \<or> delays = [] \<or> one_shot (st_cron task) then (Ret None, d)
         else if error = [] \<or> \<not> transient_text error then (Ret None, d)
         else if task_run_has_tool_activity broken (rn_id run) d then (Ret None, d)
         else if \<not> (case get_task (st_id task) d of None \<Rightarrow> False | Some t \<Rightarrow> st_enabled t) then (Ret None, d)
         else if origin = [] \<or> attempt \<ge> int (length delays) then (Ret None, d)
         else let not_before = now + delays ! nat attempt in
           bind_op (enqueue_task_run_request now i (st_id task) (retry_trigger (nat attempt + 1) origin) (Some not_before) True) (\<lambda>q.
           bind_op (modify_op (\<lambda>d. d\<lparr>td_runs := update_task_run (rn_id run)
              [TError (Some (take 4000 (error @ '' | '' @ note (attempt + 1) not_before)))] (td_runs d)\<rparr>)) (\<lambda>_.
           ret_op (Some q))) d)"

end
