(* ===== verification/TaskQueue.thy ===== *)
theory TaskQueue
  imports TaskTables EventQueue
begin

text \<open>
  Queues of work: the contract of a claim, which the run requests of tasks and workflows and the
  deliveries of events satisfy, and the texts of automatic retries.
\<close>

section \<open>The contract of a claim\<close>

text \<open>A sequence of claims, whoever makes them.\<close>

fun run_claims :: "('a \<Rightarrow> 's \<Rightarrow> 'i list \<times> 's) \<Rightarrow> 'a list \<Rightarrow> 's \<Rightarrow> 'i list \<times> 's" where
  "run_claims f [] s = ([], s)"
| "run_claims f (a # as) s = (let (x, s1) = f a s; (y, s2) = run_claims f as s1 in (x @ y, s2))"

locale claim_queue =
  fixes claim :: "'a \<Rightarrow> 's \<Rightarrow> 'i list \<times> 's"
    and waiting :: "'s \<Rightarrow> 'i set"
    and sound :: "'s \<Rightarrow> bool"
  assumes claim_sound: "sound s \<Longrightarrow> sound (snd (claim a s))"
    and claim_distinct: "sound s \<Longrightarrow> distinct (fst (claim a s))"
    and claim_waiting: "sound s \<Longrightarrow> set (fst (claim a s)) \<subseteq> waiting s"
    and claim_takes: "sound s \<Longrightarrow> waiting (snd (claim a s)) = waiting s - set (fst (claim a s))"
begin

lemma run_claims_once:
  "sound s \<Longrightarrow> run_claims claim as s = (is, s') \<Longrightarrow>
   distinct is \<and> set is \<subseteq> waiting s \<and> waiting s' = waiting s - set is"
proof (induction as arbitrary: s "is")
  case (Cons a as)
  obtain x s1 where 1: "claim a s = (x, s1)" by fastforce
  obtain y s2 where 2: "run_claims claim as s1 = (y, s2)" by fastforce
  from Cons.prems 1 2 have eq: "is = x @ y" "s' = s2" by auto
  from claim_distinct [of s a] claim_waiting [of s a] claim_takes [of s a] claim_sound [of s a] Cons.prems(1) 1
  have x: "distinct x" "set x \<subseteq> waiting s" "waiting s1 = waiting s - set x" "sound s1" by simp_all
  from 2 eq have "run_claims claim as s1 = (y, s')" by simp
  from Cons.IH [OF x(4) this] x eq show ?case by auto
qed simp

end

section \<open>Run requests\<close>

lemma set_in_order [simp]: "set (in_order t) = set t"
  by (simp add: in_order_def)

lemma map_in_order_distinct: "distinct (map tk_id (in_order t)) \<longleftrightarrow> distinct (map tk_id t)"
  by (simp add: in_order_def distinct_map)

definition waiting_tickets :: "'a run_ticket_scheme list \<Rightarrow> string set" where
  "waiting_tickets t = tk_id ` {r \<in> set t. tk_claimed r = None}"

text \<open>The requests that a claim takes: the first \<open>n\<close> that are ready, in the order of their times.\<close>

definition chosen :: "real \<Rightarrow> int \<Rightarrow> string list option \<Rightarrow> 'a run_ticket_scheme list \<Rightarrow> 'a run_ticket_scheme list" where
  "chosen now n ids t = (if ids = Some [] then [] else take (nat n) (in_order (filter (ready now ids) t)))"

lemma chosen_sub: "set (chosen now n ids t) \<subseteq> {r \<in> set t. ready now ids r}"
  by (auto simp: chosen_def dest!: in_set_takeD split: if_splits)

lemma chosen_ids_distinct:
  assumes "distinct (map tk_id t)" shows "distinct (map tk_id (chosen now n ids t))"
proof -
  have "distinct (map tk_id (in_order (filter (ready now ids) t)))"
    using assms by (simp add: map_in_order_distinct distinct_map_filter)
  then show ?thesis by (simp add: chosen_def take_map [symmetric] distinct_take)
qed

lemma chosen_taken:
  assumes "distinct (map tk_id t)" "r \<in> set t"
  shows "tk_id r \<in> set (map tk_id (chosen now n ids t)) \<longleftrightarrow> r \<in> set (chosen now n ids t)"
proof
  assume "tk_id r \<in> set (map tk_id (chosen now n ids t))"
  then obtain r' where r': "r' \<in> set (chosen now n ids t)" "tk_id r' = tk_id r" by auto
  with chosen_sub have "r' \<in> set t" by blast
  with r' assms show "r \<in> set (chosen now n ids t)" by (metis distinct_map inj_onD)
qed simp

lemma insort_key_map: "insort_key k (g x) (map g xs) = map g (insort_key (\<lambda>y. k (g y)) x xs)"
  by (induction xs) auto

lemma sort_key_map: "sort_key k (map g xs) = map g (sort_key (\<lambda>y. k (g y)) xs)"
  by (induction xs) (simp_all add: insort_key_map)

lemma filter_set_take:
  assumes "distinct ys" shows "filter (\<lambda>x. x \<in> set (take n ys)) ys = take n ys"
proof -
  have "filter (\<lambda>x. x \<in> set (take n ys)) (drop n ys) = []"
    using set_take_disj_set_drop_if_distinct [OF assms, of n n] by (auto simp: filter_empty_conv)
  then have "filter (\<lambda>x. x \<in> set (take n ys)) (take n ys @ drop n ys) = take n ys"
    by (simp only: filter_append append_Nil2) simp
  then show ?thesis by simp
qed

lemma filter_chosen:
  assumes "distinct t" shows "filter (\<lambda>r. r \<in> set (chosen now n ids t)) (in_order t) = chosen now n ids t"
proof (cases "ids = Some []")
  case False
  let ?ys = "filter (ready now ids) (in_order t)"
  have ch: "chosen now n ids t = take (nat n) ?ys"
    using False by (simp add: chosen_def in_order_def filter_sort)
  have "filter (\<lambda>r. r \<in> set (take (nat n) ?ys)) (in_order t) = filter (\<lambda>r. r \<in> set (take (nat n) ?ys)) ?ys"
    by (simp only: filter_filter) (rule filter_cong, auto dest: in_set_takeD)
  also have "\<dots> = take (nat n) ?ys"
    using assms by (intro filter_set_take) (simp add: in_order_def)
  finally show ?thesis by (simp only: ch)
qed (simp add: chosen_def)

text \<open>A claim returns the chosen requests in order, claimed, and claims them in the table.\<close>

lemma claim_chosen:
  assumes ids: "distinct (map tk_id t)"
  shows "claim_authorized_requests now n ids t =
    (map (tk_claimed_update (\<lambda>_. Some now)) (chosen now n ids t),
     update_where (\<lambda>r. r \<in> set (chosen now n ids t)) (tk_claimed_update (\<lambda>_. Some now)) t)"
proof (cases "ids = Some [] \<or> n \<le> 0")
  case True
  then show ?thesis by (auto simp: claim_authorized_requests_def chosen_def update_where_def)
next
  case False
  define c where "c = chosen now n ids t"
  have c: "c = take (nat n) (in_order (filter (ready now ids) t))" using False by (simp add: c_def chosen_def)
  have "tk_id r \<in> set (map tk_id c) \<and> tk_claimed r = None \<longleftrightarrow> r \<in> set c" if "r \<in> set t" for r
    using chosen_taken [OF ids that, of now n ids] chosen_sub [of now n ids t] by (auto simp: c_def ready_def)
  then have taken: "filter (\<lambda>r. tk_id r \<in> set (map tk_id c) \<and> tk_claimed r = None) t = filter (\<lambda>r. r \<in> set c) t"
    "update_where (\<lambda>r. tk_id r \<in> set (map tk_id c) \<and> tk_claimed r = None) f t = update_where (\<lambda>r. r \<in> set c) f t" for f
    by (auto simp: update_where_def intro: filter_cong)
  have "in_order (map (tk_claimed_update (\<lambda>_. Some now)) (filter (\<lambda>r. r \<in> set c) t))
      = map (tk_claimed_update (\<lambda>_. Some now)) (in_order (filter (\<lambda>r. r \<in> set c) t))"
    by (simp add: in_order_def sort_key_map)
  also have "in_order (filter (\<lambda>r. r \<in> set c) t) = c"
    using filter_chosen [of t now n ids] ids by (simp add: c_def in_order_def filter_sort distinct_map)
  finally show ?thesis
    using False taken unfolding claim_authorized_requests_def Let_def c [symmetric] by (simp add: c_def)
qed

lemma claimed_keys: "tk_id (tk_claimed_update f r) = tk_id r" "tk_owner (tk_claimed_update f r) = tk_owner r"
  "tk_trigger (tk_claimed_update f r) = tk_trigger r"
  by simp_all

lemma map_claim_ids: "map tk_id (update_where q (tk_claimed_update f) t) = map tk_id t"
  by (rule map_update_where) simp

lemma waiting_after:
  assumes ids: "distinct (map tk_id t)"
  shows "waiting_tickets (update_where (\<lambda>r. r \<in> set (chosen now n ids t)) (tk_claimed_update (\<lambda>_. Some now)) t)
    = waiting_tickets t - tk_id ` set (chosen now n ids t)" (is "?l = ?r")
proof -
  let ?c = "set (chosen now n ids t)"
  have "?l = tk_id ` {r \<in> set t. r \<notin> ?c \<and> tk_claimed r = None}"
    by (force simp: waiting_tickets_def update_where_def)
  also have "\<dots> = ?r"
  proof -
    have "tk_id r \<in> tk_id ` ?c \<longleftrightarrow> r \<in> ?c" if "r \<in> set t" for r
      using chosen_taken [OF ids that, of now n ids] by simp
    then show ?thesis by (force simp: waiting_tickets_def)
  qed
  finally show ?thesis .
qed

definition ticket_claim :: "real \<times> int \<times> string list option \<Rightarrow> 'a run_ticket_scheme list \<Rightarrow> string list \<times> 'a run_ticket_scheme list" where
  "ticket_claim a t = (case a of (now, n, ids) \<Rightarrow> let (rs, t') = claim_authorized_requests now n ids t in (map tk_id rs, t'))"

lemma ticket_claim_eq:
  assumes "distinct (map tk_id t)"
  shows "ticket_claim (now, n, ids) t = (map tk_id (chosen now n ids t),
     update_where (\<lambda>r. r \<in> set (chosen now n ids t)) (tk_claimed_update (\<lambda>_. Some now)) t)"
  using assms by (simp add: ticket_claim_def claim_chosen comp_def)

interpretation tq: claim_queue ticket_claim waiting_tickets "\<lambda>t. distinct (map tk_id t)"
proof
  fix t :: "'a run_ticket_scheme list" and a :: "real \<times> int \<times> string list option"
  assume t: "distinct (map tk_id t)"
  obtain now n ids where a: "a = (now, n, ids)" by (cases a)
  note eq = ticket_claim_eq [OF t, of now n ids, folded a]
  show "distinct (map tk_id (snd (ticket_claim a t)))" by (simp add: eq t map_claim_ids)
  show "distinct (fst (ticket_claim a t))" using chosen_ids_distinct [OF t] by (simp add: eq)
  show "set (fst (ticket_claim a t)) \<subseteq> waiting_tickets t"
    using chosen_sub [of now n ids t] by (auto simp: eq waiting_tickets_def ready_def)
  show "waiting_tickets (snd (ticket_claim a t)) = waiting_tickets t - set (fst (ticket_claim a t))"
    by (simp add: eq waiting_after [OF t])
qed

text \<open>The deliveries of events are claimed under the same contract.\<close>

definition waiting_deliveries :: "event_db \<Rightarrow> string set" where
  "waiting_deliveries d = dl_id ` {r \<in> set (ed_deliveries d). dl_claimed r = None}"

definition delivery_claim :: "queue_env \<times> real \<times> int \<times> string list option \<Rightarrow> event_db \<Rightarrow> string list \<times> event_db" where
  "delivery_claim a d = (case a of (qe, now, n, ids) \<Rightarrow>
     let (rs, d') = claim_pending_event_deliveries qe now n ids d in (map dl_id rs, d'))"

lemma waiting_deliveries_after:
  assumes ids: "distinct (map dl_id t)" and p: "\<forall>i \<in> p. \<exists>r \<in> set t. dl_id r = i \<and> dl_claimed r = None"
    and f: "\<And>r. dl_id (f r) = dl_id r" "\<And>r. dl_claimed (f r) \<noteq> None"
  shows "dl_id ` {r \<in> set (update_where (\<lambda>r. dl_id r \<in> p) f t). dl_claimed r = None} = dl_id ` {r \<in> set t. dl_claimed r = None} - p"
proof -
  have "{r \<in> set (update_where (\<lambda>r. dl_id r \<in> p) f t). dl_claimed r = None} = {r \<in> set t. dl_id r \<notin> p \<and> dl_claimed r = None}"
    by (auto simp: update_where_def f(2) split: if_splits)
  then show ?thesis by auto
qed

interpretation dq: claim_queue delivery_claim waiting_deliveries "\<lambda>d. distinct (map dl_id (ed_deliveries d))"
proof
  fix d :: event_db and a :: "queue_env \<times> real \<times> int \<times> string list option"
  assume ids: "distinct (map dl_id (ed_deliveries d))"
  obtain qe now n owners where a: "a = (qe, now, n, owners)" by (cases a)
  obtain rs d' where run: "claim_pending_event_deliveries qe now n owners d = (rs, d')" by fastforce
  from run ids obtain p where p: "\<forall>i \<in> p. \<exists>r \<in> set (ed_deliveries d). dl_id r = i \<and> claimable owners r"
    and t': "ed_deliveries d' = update_where (\<lambda>r. dl_id r \<in> p) (claimed_by qe now) (ed_deliveries d)"
    and rs: "set (map dl_id rs) = p" "distinct (map dl_id rs)"
    by (rule claim_result)
  have eq: "delivery_claim a d = (map dl_id rs, d')" by (simp add: delivery_claim_def a run)
  show "distinct (map dl_id (ed_deliveries (snd (delivery_claim a d))))"
    using ids by (simp add: eq t' update_where_ids)
  show "distinct (fst (delivery_claim a d))" using rs(2) by (simp add: eq)
  show "set (fst (delivery_claim a d)) \<subseteq> waiting_deliveries d"
    unfolding waiting_deliveries_def eq fst_conv rs(1)
  proof
    fix i assume "i \<in> p"
    with p obtain r where "r \<in> set (ed_deliveries d)" "dl_id r = i" "dl_claimed r = None" unfolding claimable_def by blast
    then show "i \<in> dl_id ` {r \<in> set (ed_deliveries d). dl_claimed r = None}" by blast
  qed
  have "\<forall>i \<in> p. \<exists>r \<in> set (ed_deliveries d). dl_id r = i \<and> dl_claimed r = None"
    using p unfolding claimable_def by blast
  from waiting_deliveries_after [OF ids this] show "waiting_deliveries (snd (delivery_claim a d)) = waiting_deliveries d - set (fst (delivery_claim a d))"
    using rs(1) by (simp add: eq waiting_deliveries_def t' claimed_by_def)
qed

text \<open>
  C35: The requests and deliveries that any sequence of claims hands out, by whatever processes at
  whatever times and with whatever limits and authorisations, are different ones that waited at the
  beginning, and exactly the others still wait at the end.  One claim of requests takes the first
  of those that are ready and authorised, in the order of their times.
\<close>

theorem claimed_once:
  assumes "distinct (map tk_id (t :: run_ticket list))" "run_claims ticket_claim as t = (hs, t')"
    and "distinct (map dl_id (ed_deliveries d))" "run_claims delivery_claim bs d = (js, d')"
  shows "distinct hs \<and> set hs \<subseteq> waiting_tickets t \<and> waiting_tickets t' = waiting_tickets t - set hs
    \<and> distinct js \<and> set js \<subseteq> waiting_deliveries d \<and> waiting_deliveries d' = waiting_deliveries d - set js
    \<and> fst (ticket_claim (now, n, Some owners) t)
      = map tk_id (take (nat n) (in_order (filter (\<lambda>r. tk_claimed r = None \<and> tk_created r \<le> now \<and> tk_owner r \<in> set owners) t)))"
proof -
  have [simp]: "ready now (Some owners) = (\<lambda>r :: run_ticket. tk_claimed r = None \<and> tk_created r \<le> now \<and> tk_owner r \<in> set owners)"
    by (rule ext) (simp add: ready_def)
  have "fst (ticket_claim (now, n, Some owners) t)
      = map tk_id (take (nat n) (in_order (filter (\<lambda>r. tk_claimed r = None \<and> tk_created r \<le> now \<and> tk_owner r \<in> set owners) t)))"
    using assms(1) by (simp add: ticket_claim_eq chosen_def in_order_def)
  with tq.run_claims_once [OF assms(1,2)] dq.run_claims_once [OF assms(3,4)] show ?thesis by blast
qed

definition sample_tickets :: "run_ticket list" where
  "sample_tickets = [\<lparr>tk_id = ''b'', tk_owner = ''t'', tk_trigger = ''manual'', tk_claimed = None, tk_run = None, tk_created = 2\<rparr>,
     \<lparr>tk_id = ''a'', tk_owner = ''t'', tk_trigger = ''manual'', tk_claimed = None, tk_run = None, tk_created = 1\<rparr>]"

theorem claimed_once_witness:
  "distinct (fst (run_claims ticket_claim [(5, 1, None), (6, 9, None)] sample_tickets))
   \<and> fst (ticket_claim (5, 1, Some [''t'']) sample_tickets) = [''a'']"
proof -
  have "distinct (map tk_id sample_tickets)" by (simp add: sample_tickets_def)
  moreover have "run_claims delivery_claim [] \<lparr>ed_events = [], ed_deliveries = [], ed_bindings = []\<rparr> =
      ([], \<lparr>ed_events = [], ed_deliveries = [], ed_bindings = []\<rparr>)" by simp
  ultimately have "distinct (fst (run_claims ticket_claim [(5, 1, None), (6, 9, None)] sample_tickets))
     \<and> fst (ticket_claim (5, 1, Some [''t'']) sample_tickets) = map tk_id (take (nat 1) (in_order
        (filter (\<lambda>r. tk_claimed r = None \<and> tk_created r \<le> 5 \<and> tk_owner r \<in> set [''t'']) sample_tickets)))"
    using claimed_once [where t = sample_tickets and d = "\<lparr>ed_events = [], ed_deliveries = [], ed_bindings = []\<rparr>"
        and as = "[(5, 1, None), (6, 9, None)]" and bs = "[]" and owners = "[''t'']" and now = 5 and n = 1, OF _ surjective_pairing]
    by simp
  then show ?thesis by (simp add: sample_tickets_def in_order_def)
qed

section \<open>The texts of automatic retries\<close>

declare show_nat.simps [simp del]

lemma digit_char: "k < 10 \<Longrightarrow> is_digit (char_of (48 + k :: nat))"
  by (simp add: is_digit_def less_eq_char_def of_char_of)

lemma show_nat_digits: "c \<in> set (show_nat n) \<Longrightarrow> is_digit c"
proof (induction n rule: show_nat.induct)
  case (1 n)
  show ?case
  proof (cases "n < 10")
    case True
    with 1(2) digit_char show ?thesis by (simp add: show_nat.simps [of n])
  next
    case False
    with 1(2) have "c \<in> set (show_nat (n div 10)) \<or> c = char_of (48 + n mod 10)"
      by (auto simp: show_nat.simps [of n])
    with 1(1) [OF False] digit_char [of "n mod 10"] show ?thesis by auto
  qed
qed

lemma show_nat_not_Nil: "show_nat n \<noteq> []"
  by (subst show_nat.simps) simp

lemma digits_value_append:
  "\<forall>c \<in> set xs. is_digit c \<Longrightarrow> is_digit c \<Longrightarrow>
   digits_value m (xs @ [c]) = map_option (\<lambda>v. 10 * v + (of_char c - 48)) (digits_value m xs)"
  by (induction xs arbitrary: m) auto

lemma digit_value:
  assumes "k < 10" shows "(of_char (char_of (48 + k) :: char) :: int) = 48 + int k"
proof -
  have "(of_char (char_of (48 + k) :: char) :: nat) = 48 + k" using assms by (simp add: of_char_of)
  then have "int (of_char (char_of (48 + k) :: char) :: nat) = 48 + int k" by simp
  then show ?thesis by (simp only: of_nat_of_char)
qed

lemma digits_value_show: "digits_value 0 (show_nat n) = Some (int n)"
proof (induction n rule: show_nat.induct)
  case (1 n)
  show ?case
  proof (cases "n < 10")
    case True
    then show ?thesis using digit_char [of n] digit_value [of n] by (simp add: show_nat.simps [of n])
  next
    case False
    have "digits_value 0 (show_nat (n div 10) @ [char_of (48 + n mod 10)]) = Some (10 * int (n div 10) + int (n mod 10))"
      using 1 [OF False] digit_char [of "n mod 10"] digit_value [of "n mod 10"] show_nat_digits by (subst digits_value_append) simp_all
    moreover have "10 * int (n div 10) + int (n mod 10) = int n"
      by (metis div_mult_mod_eq mult.commute of_nat_add of_nat_mult of_nat_numeral)
    ultimately show ?thesis using False by (simp add: show_nat.simps [of n])
  qed
qed

lemma digit_not_space: "is_digit c \<Longrightarrow> \<not> py_space c"
proof -
  assume "is_digit c"
  then have "48 \<le> (of_char c :: nat)" "(of_char c :: nat) \<le> 57" by (simp_all add: is_digit_def less_eq_char_def)
  then show ?thesis by (simp add: py_space_def Let_def)
qed

lemma strip_digits: "\<forall>c \<in> set s. is_digit c \<Longrightarrow> strip s = s"
proof -
  assume s: "\<forall>c \<in> set s. is_digit c"
  have same: "dropWhile py_space t = t" if "\<forall>c \<in> set t. is_digit c" for t
    using that digit_not_space by (cases t) auto
  from same [OF s] same [of "rev s"] s show ?thesis by (simp add: strip_def)
qed

lemma int_text_show_nat: "int_text (show_nat n) = Some (int n)"
proof -
  obtain c cs where s: "show_nat n = c # cs" using show_nat_not_Nil by (cases "show_nat n") auto
  have digits: "\<forall>x \<in> set (show_nat n). is_digit x" using show_nat_digits by blast
  with s have "is_digit c" by simp
  moreover from this have "c \<noteq> CHR ''+''" "c \<noteq> CHR ''-''" by (auto simp: is_digit_def less_eq_char_def)
  ultimately show ?thesis
    using digits_value_show [of n] strip_digits [OF digits] unfolding int_text_def s Let_def by simp
qed

lemma digit_not_colon: "\<forall>c \<in> set (show_nat n). c \<noteq> CHR '':''"
  using show_nat_digits by (fastforce simp: is_digit_def less_eq_char_def)

lemma parse_retry_trigger:
  assumes "0 < n" "origin \<noteq> []"
  shows "parse_task_retry_trigger (retry_trigger n origin) = (int n, Some origin)"
proof -
  have "takeWhile (\<lambda>c. c \<noteq> CHR '':'') (show_nat n @ CHR '':'' # origin) = show_nat n"
    using digit_not_colon by (simp add: takeWhile_tail)
  then show ?thesis
    using assms by (simp add: parse_task_retry_trigger_def retry_trigger_def int_text_show_nat Let_def)
qed

end
