(* ===== verification/TaskLaws.thy ===== *)
theory TaskLaws
  imports TaskQueue
begin

text \<open>
  The scheduler as a transition system: processes create, edit, delete and fire tasks, put requests
  in the queue and take them, recover interrupted firings and retry failed ones.  A due occurrence
  fires once, and a firing is retried at most eight times.
\<close>

section \<open>Steps\<close>

text \<open>
  The state has the time of the last step that looked at the clock, the occurrences that have fired
  and the edits that set the next time of a task to an instant that was not in the future, as editing
  or enabling again a task with a one-shot time does.  New tasks have identifiers that did not fire
  before, and the requests that others put in the queue are not named like automatic retries.  What
  the firings themselves write, the runs and the tools they called, is arbitrary.
\<close>

type_synonym task_state = "task_db \<times> real \<times> (string \<times> real) list \<times> (string \<times> real) list"

definition set_back :: "real \<Rightarrow> string \<Rightarrow> sched_col list \<Rightarrow> (string \<times> real) list" where
  "set_back now i cols = concat (map (\<lambda>c. case c of
     SNextRun (Some x) \<Rightarrow> if x \<le> now then [(i, x)] else [] | _ \<Rightarrow> []) cols)"

inductive task_step :: "task_state \<Rightarrow> task_state \<Rightarrow> bool" where
  clock: "c \<le> now \<Longrightarrow> task_step (d, c, fired, moved) (d, now, fired, moved)"
| create: "add_task zone pt now i a d = (r, d') \<Longrightarrow> c \<le> now \<Longrightarrow> i \<notin> fst ` set fired \<Longrightarrow>
    task_step (d, c, fired, moved) (d', now, fired, moved)"
| edit: "update_task zone pt now i cols d = (u, d') \<Longrightarrow> c \<le> now \<Longrightarrow>
    task_step (d, c, fired, moved) (d', now, fired, moved @ set_back now i cols)"
| delete: "task_step (d, c, fired, moved) (delete_task i d, c, fired, moved)"
| fire: "claim_due_task_run cl d = (b, d') \<Longrightarrow> c \<le> dc_fired cl \<Longrightarrow> dc_expected cl \<le> dc_fired cl \<Longrightarrow>
    \<forall>x. dc_next cl = Some x \<longrightarrow> dc_fired cl < x \<Longrightarrow>
    task_step (d, c, fired, moved)
      (d', dc_fired cl, if b = Ret True then fired @ [(dc_task cl, dc_expected cl)] else fired, moved)"
| request: "enqueue_task_run_request now i task trigger not_before dd d = (r, d') \<Longrightarrow>
    take (length retry_prefix) trigger \<noteq> retry_prefix \<Longrightarrow> task_step (d, c, fired, moved) (d', c, fired, moved)"
| claim: "claim_pending_task_requests now n ids d = (rs, d') \<Longrightarrow> task_step (d, c, fired, moved) (d', c, fired, moved)"
| link: "task_step (d, c, fired, moved) (set_task_request_run_id i rid d, c, fired, moved)"
| reap: "reap_task_runs now d = (k, d') \<Longrightarrow> task_step (d, c, fired, moved) (d', c, fired, moved)"
| requeue: "requeue_interrupted_task_runs now fresh d = (s, d') \<Longrightarrow> task_step (d, c, fired, moved) (d', c, fired, moved)"
| retry: "maybe_schedule_task_retry (task_retry_delays ft raw) broken note now i task run d = (q, d') \<Longrightarrow>
    task_step (d, c, fired, moved) (d', c, fired, moved)"
| work: "task_step (d, c, fired, moved) (d\<lparr>td_runs := rs, td_tools := ts\<rparr>, c, fired, moved)"

inductive task_reach :: "task_state \<Rightarrow> bool" where
  empty: "task_reach (\<lparr>td_tasks = [], td_runs = [], td_tickets = [], td_tools = [], td_reaped = []\<rparr>, 0, [], [])"
| step: "task_reach s \<Longrightarrow> task_step s s' \<Longrightarrow> task_reach s'"

section \<open>Automatic retries\<close>

definition is_retry :: "string \<Rightarrow> bool" where
  "is_retry t \<longleftrightarrow> take (length retry_prefix) t = retry_prefix"

definition ticket_keys :: "task_db \<Rightarrow> (string \<times> string) list" where
  "ticket_keys d = map (\<lambda>q. (tk_owner q, tk_trigger q)) (td_tickets d)"

definition retries_ok :: "(string \<times> string) list \<Rightarrow> bool" where
  "retries_ok ks \<longleftrightarrow> distinct (filter (\<lambda>k. is_retry (snd k)) ks)
     \<and> (\<forall>k \<in> set ks. is_retry (snd k) \<longrightarrow> (\<exists>n origin. 1 \<le> n \<and> n \<le> 8 \<and> origin \<noteq> [] \<and> snd k = retry_trigger n origin))"

lemma retry_delays_bound: "length (task_retry_delays ft raw) \<le> 8"
  by (simp add: task_retry_delays_def default_retry_delays_def split: option.splits)

lemma is_retry_trigger [simp]: "is_retry (retry_trigger n origin)"
  by (simp add: is_retry_def retry_trigger_def)

lemma distinct_filter_less: "distinct (filter q (map f xs)) \<Longrightarrow> distinct (filter q (map f (filter p xs)))"
  by (induction xs) auto

lemma retries_ok_filter: "retries_ok (map f xs) \<Longrightarrow> retries_ok (map f (filter p xs))"
  by (simp add: retries_ok_def distinct_filter_less)

lemma retries_ok_plain: "retries_ok ks \<Longrightarrow> \<not> is_retry t \<Longrightarrow> retries_ok (ks @ [(owner, t)])"
  by (auto simp: retries_ok_def)

lemma retries_ok_new:
  "retries_ok ks \<Longrightarrow> (owner, retry_trigger n origin) \<notin> set ks \<Longrightarrow> 1 \<le> n \<Longrightarrow> n \<le> 8 \<Longrightarrow> origin \<noteq> [] \<Longrightarrow>
   retries_ok (ks @ [(owner, retry_trigger n origin)])"
  by (auto simp: retries_ok_def)

lemma enqueue_keys:
  assumes "enqueue_task_run_request now i task trigger nb dd d = (r, d')"
  shows "ticket_keys d' = ticket_keys d \<or>
    ticket_keys d' = ticket_keys d @ [(task, trigger)] \<and> (dd \<longrightarrow> (task, trigger) \<notin> set (ticket_keys d))"
proof (cases "if dd then List.find (\<lambda>r. tk_owner r = task \<and> tk_trigger r = trigger) (td_tickets d) else None")
  case None
  then have "dd \<longrightarrow> (task, trigger) \<notin> set (ticket_keys d)"
    by (auto simp: ticket_keys_def find_None_iff)
  with None assms show ?thesis
    by (auto simp: enqueue_task_run_request_def bind_op_def insert_ticket_def ticket_keys_def split: if_splits)
next
  case (Some r)
  with assms show ?thesis by (simp add: enqueue_task_run_request_def)
qed

lemma enqueue_rest:
  "enqueue_task_run_request now i task trigger nb dd d = (r, d') \<Longrightarrow>
   td_tasks d' = td_tasks d \<and> td_runs d' = td_runs d"
  by (auto simp: enqueue_task_run_request_def bind_op_def insert_ticket_def split: option.splits if_splits)

lemma claim_keys:
  assumes "claim_pending_task_requests now n ids d = (rs, d')"
  shows "ticket_keys d' = ticket_keys d" "td_tasks d' = td_tasks d"
proof -
  have "map (\<lambda>q. (tk_owner q, tk_trigger q)) (snd (claim_authorized_requests now n ids (td_tickets d))) = ticket_keys d"
    by (simp add: claim_authorized_requests_def Let_def ticket_keys_def map_update_where)
  with assms show "ticket_keys d' = ticket_keys d" "td_tasks d' = td_tasks d"
    by (auto simp: claim_pending_task_requests_def ticket_keys_def split: prod.splits)
qed

lemma requeue_each_keys:
  assumes "requeue_each now ids rs dones d = (r, d')" "retries_ok (ticket_keys d)"
  shows "retries_ok (ticket_keys d') \<and> td_tasks d' = td_tasks d"
  using assms
proof (induction rs arbitrary: dones d)
  case (Cons x rs)
  let ?skip = "(\<exists>q \<in> set (td_tickets d). tk_owner q = rn_owner x \<and> tk_claimed q = None)
    \<or> (case previous_run x (td_runs d) of None \<Rightarrow> False
        | Some p \<Rightarrow> (case rn_error p of None \<Rightarrow> False | Some e \<Rightarrow> contains_text reap_marker e)) \<or> rn_owner x \<in> set dones"
  show ?case
  proof (cases ?skip)
    case True
    with Cons.prems(1) have "requeue_each now ids rs dones d = (r, d')" by (auto split: if_splits)
    with Cons.IH Cons.prems(2) show ?thesis by blast
  next
    case False
    obtain q d1 where e: "enqueue_task_run_request now (ids (length dones)) (rn_owner x) ''restart-requeue'' None False d = (q, d1)"
      by fastforce
    have "\<not> is_retry ''restart-requeue''" by (simp add: is_retry_def retry_prefix_def)
    with enqueue_keys [OF e] Cons.prems(2) have ok: "retries_ok (ticket_keys d1)" by (auto intro: retries_ok_plain)
    have rest: "td_tasks d1 = td_tasks d" using enqueue_rest [OF e] by simp
    from False have "requeue_each now ids (x # rs) dones d = bind_op (enqueue_task_run_request now (ids (length dones)) (rn_owner x)
        ''restart-requeue'' None False) (\<lambda>_. requeue_each now ids rs (dones @ [rn_owner x])) d"
      by (simp only: requeue_each.simps de_Morgan_disj if_False)
    with Cons.prems(1) e have "(case q of Inl er \<Rightarrow> (Raise er, d1) | Inr _ \<Rightarrow> requeue_each now ids rs (dones @ [rn_owner x]) d1) = (r, d')"
      by (simp add: bind_op_def)
    then consider "d' = d1" | "requeue_each now ids rs (dones @ [rn_owner x]) d1 = (r, d')" by (cases q) auto
    then show ?thesis using ok rest Cons.IH [of "dones @ [rn_owner x]" d1] by cases auto
  qed
qed auto

lemma maybe_retry_keys:
  assumes "maybe_schedule_task_retry delays broken note now i task run d = (q, d')" "length delays \<le> 8" "retries_ok (ticket_keys d)"
  shows "retries_ok (ticket_keys d') \<and> td_tasks d' = td_tasks d"
proof (cases "d' = d")
  case False
  obtain attempt chain where p: "parse_task_retry_trigger (rn_trigger run) = (attempt, chain)" by fastforce
  define origin where "origin = (case chain of None \<Rightarrow> rn_id run | Some r \<Rightarrow> r)"
  from assms(1) False p obtain q' d1 where
    e: "enqueue_task_run_request now i (st_id task) (retry_trigger (nat attempt + 1) origin) (Some (now + delays ! nat attempt)) True d = (q', d1)"
    and o: "origin \<noteq> []" "attempt < int (length delays)"
    and d': "d' = d1 \<or> (\<exists>rs. d' = d1\<lparr>td_runs := rs\<rparr>)"
    by (auto simp: maybe_schedule_task_retry_def Let_def origin_def bind_op_def split: if_splits prod.splits sum.splits)
  have n: "nat attempt + 1 \<le> 8" using o(2) assms(2) by linarith
  from enqueue_keys [OF e] have "retries_ok (ticket_keys d1)"
  proof (elim disjE conjE)
    assume "ticket_keys d1 = ticket_keys d" with assms(3) show ?thesis by simp
  next
    assume "ticket_keys d1 = ticket_keys d @ [(st_id task, retry_trigger (nat attempt + 1) origin)]"
      and "True \<longrightarrow> (st_id task, retry_trigger (nat attempt + 1) origin) \<notin> set (ticket_keys d)"
    with retries_ok_new [OF assms(3) _ _ n o(1)] show ?thesis by simp
  qed
  moreover have "td_tasks d1 = td_tasks d" using enqueue_rest [OF e] by simp
  moreover have "ticket_keys d' = ticket_keys d1" "td_tasks d' = td_tasks d1" using d' by (auto simp: ticket_keys_def)
  ultimately show ?thesis by simp
qed (use assms(3) in simp)

lemma add_task_keys:
  "add_task zone pt now i a d = (r, d') \<Longrightarrow> td_tickets d' = td_tickets d"
  by (auto simp: add_task_def bind_op_def lift_op_def split: sum.splits if_splits)

lemma update_task_rest:
  assumes "update_task zone pt now i cols d = (u, d')"
  obtains "d' = d" | fs where "each_res (sched_setter pt) cols = Ret fs"
    "d' = d\<lparr>td_tasks := update_where (\<lambda>r. st_id r = i) (\<lambda>r. (fold (\<lambda>f. f) (concat fs) r)\<lparr>st_updated := now\<rparr>) (td_tasks d)\<rparr>"
  using assms by (auto simp: update_task_def bind_op_def lift_op_def modify_op_def split: sum.splits if_splits)

lemma retries_ok_delete: "retries_ok (ticket_keys d) \<Longrightarrow> retries_ok (ticket_keys (delete_task i d))"
  by (simp add: ticket_keys_def delete_task_def retries_ok_filter)

lemma retries_step:
  assumes "task_step s s'" "retries_ok (ticket_keys (fst s))" shows "retries_ok (ticket_keys (fst s'))"
  using assms
proof cases
  case (create zone pt now i a d r d' c fired moved)
  then show ?thesis using assms(2) add_task_keys by (simp add: ticket_keys_def)
next
  case (edit zone pt now i cols d u d' c fired moved)
  have "td_tickets d' = td_tickets d" by (rule update_task_rest [OF edit(3)]) simp_all
  with edit(1,2) assms(2) show ?thesis by (simp add: ticket_keys_def)
next
  case (fire cl d b d' c fired moved)
  then have "td_tickets d' = td_tickets d"
    by (auto simp: claim_due_task_run_def split: if_splits prod.splits sum.splits)
  with fire assms(2) show ?thesis by (simp add: ticket_keys_def)
next
  case (request now i task trigger nb dd d r d' c fired moved)
  then have "\<not> is_retry trigger" by (simp add: is_retry_def)
  with enqueue_keys [OF request(3)] assms(2) request(1,2) retries_ok_plain [of "ticket_keys d" trigger task] show ?thesis by auto
next
  case (claim now n ids d rs d' c fired moved)
  with claim_keys [OF claim(3)] assms(2) show ?thesis by simp
next
  case (link d c fired moved i rid)
  then show ?thesis using assms(2)
    by (simp add: ticket_keys_def set_task_request_run_id_def set_ticket_run_def map_update_where)
next
  case (reap now d k d' c fired moved)
  then show ?thesis using assms(2) by (auto simp: reap_task_runs_def ticket_keys_def split: prod.splits)
next
  case (requeue now fresh d ys d' c fired moved)
  moreover have "ticket_keys (d\<lparr>td_reaped := []\<rparr>) = ticket_keys d" by (simp add: ticket_keys_def)
  ultimately show ?thesis
    using assms(2) requeue_each_keys [of now fresh "interrupted d" "[]" "d\<lparr>td_reaped := []\<rparr>" ys d']
    by (auto simp: requeue_interrupted_task_runs_def split: if_splits)
next
  case (retry ft raw broken msg now i task run d q d' c fired moved)
  with maybe_retry_keys [OF retry(3) retry_delays_bound] assms(2) show ?thesis by simp
qed (simp_all add: retries_ok_delete, simp add: ticket_keys_def)

lemma retries_reach: "task_reach s \<Longrightarrow> retries_ok (ticket_keys (fst s))"
proof (induction rule: task_reach.induct)
  case empty
  show ?case by (simp add: ticket_keys_def retries_ok_def)
next
  case (step s s')
  from step.hyps(2) step.IH show ?case by (rule retries_step)
qed

text \<open>The numbers of the retries of a firing are different and at most eight.\<close>

definition retries_of :: "string \<Rightarrow> string \<Rightarrow> run_ticket list \<Rightarrow> run_ticket list" where
  "retries_of task origin = filter (\<lambda>q. tk_owner q = task \<and> snd (parse_task_retry_trigger (tk_trigger q)) = Some origin)"

lemma parsed_is_retry: "snd (parse_task_retry_trigger t) = Some origin \<Longrightarrow> is_retry t"
  by (rule ccontr) (simp add: parse_task_retry_trigger_def is_retry_def)

lemma retry_keys:
  assumes "retries_ok (ticket_keys d)" "q \<in> set (retries_of task origin (td_tickets d))"
  shows "\<exists>n \<in> {1..8}. (tk_owner q, tk_trigger q) = (task, retry_trigger n origin)"
proof -
  from assms(2) have q: "q \<in> set (td_tickets d)" "tk_owner q = task" "snd (parse_task_retry_trigger (tk_trigger q)) = Some origin"
    by (auto simp: retries_of_def)
  with assms(1) parsed_is_retry obtain n o' where n: "1 \<le> n" "n \<le> 8" "o' \<noteq> []" "tk_trigger q = retry_trigger n o'"
    unfolding retries_ok_def ticket_keys_def by fastforce
  with q(3) parse_retry_trigger [of n o'] have "o' = origin" by simp
  with n q(2) show ?thesis by auto
qed

lemma retry_without_effects:
  assumes "fst (maybe_schedule_task_retry delays broken note now i t run d) = Ret (Some q)"
  shows "rn_status run = ''failed'' \<and> transient_text (strip (case rn_error run of None \<Rightarrow> [] | Some e \<Rightarrow> e))
    \<and> \<not> task_run_has_tool_activity broken (rn_id run) d \<and> (\<exists>t'. get_task (st_id t) d = Some t' \<and> st_enabled t')"
  using assms by (auto simp: maybe_schedule_task_retry_def Let_def split: if_split_asm prod.split_asm option.split_asm)

text \<open>
  C12: However the scheduler, its restarts and its users proceed, the automatic retries that are
  requested for one firing of a task, claimed ones included, are numbered differently from 1 to 8: there are
  at most eight.  A retry is only requested for a failed firing with a transient error, of a task
  that is still enabled, when the firing called no tool.
\<close>

theorem automatic_retries_bounded:
  assumes "task_reach (d, c, fired, moved)"
  shows "length (retries_of task origin (td_tickets d)) \<le> 8
    \<and> distinct (map (\<lambda>q. fst (parse_task_retry_trigger (tk_trigger q))) (retries_of task origin (td_tickets d)))
    \<and> (\<forall>q \<in> set (retries_of task origin (td_tickets d)). fst (parse_task_retry_trigger (tk_trigger q)) \<in> {1..8})
    \<and> (fst (maybe_schedule_task_retry delays broken note now i t run d) = Ret (Some q) \<longrightarrow>
        rn_status run = ''failed'' \<and> transient_text (strip (case rn_error run of None \<Rightarrow> [] | Some e \<Rightarrow> e))
        \<and> \<not> task_run_has_tool_activity broken (rn_id run) d \<and> (\<exists>t'. get_task (st_id t) d = Some t' \<and> st_enabled t'))"
proof -
  let ?qs = "retries_of task origin (td_tickets d)" and ?key = "\<lambda>q. (tk_owner q, tk_trigger q)"
  have ok: "retries_ok (ticket_keys d)" using retries_reach [OF assms] by simp
  then have "distinct (filter (\<lambda>k. is_retry (snd k)) (map ?key ?qs))"
    unfolding retries_ok_def ticket_keys_def retries_of_def by (blast intro: distinct_filter_less)
  moreover have "filter (\<lambda>k. is_retry (snd k)) (map ?key ?qs) = map ?key ?qs"
    using parsed_is_retry by (intro filter_True) (auto simp: retries_of_def)
  ultimately have dist: "distinct (map ?key ?qs)" by simp
  define num where "num = (\<lambda>q :: run_ticket. fst (parse_task_retry_trigger (tk_trigger q)))"
  have num: "num q \<in> {1..8} \<and> ?key q = (task, retry_trigger (nat (num q)) origin)" if q: "q \<in> set ?qs" for q
  proof -
    from retry_keys [OF ok q] obtain n where n: "n \<in> {1..8}" "?key q = (task, retry_trigger n origin)" by blast
    have "origin \<noteq> []"
      using q by (auto simp: retries_of_def parse_task_retry_trigger_def Let_def split: if_split_asm option.split_asm)
    with n parse_retry_trigger [of n origin] have "num q = int n" by (simp add: num_def)
    with n show ?thesis by simp
  qed
  then have "inj_on num (set ?qs)" using dist unfolding distinct_map inj_on_def by metis
  with dist have d: "distinct (map num ?qs)" by (simp add: distinct_map)
  have "set (map num ?qs) \<subseteq> {1..8}" using num by auto
  from card_mono [OF _ this] have "length ?qs \<le> 8" using distinct_card [OF d] by simp
  with d num retry_without_effects show ?thesis unfolding num_def by blast
qed

section \<open>Occurrences\<close>

text \<open>
  How often edits set the next time of a task back to an instant not later than \<open>y\<close>, and the
  invariant: an occurrence fired once more than that at most, and not more than that when the cursor
  of the task can still reach it.
\<close>

definition moved_back :: "(string \<times> real) list \<Rightarrow> string \<Rightarrow> real \<Rightarrow> nat" where
  "moved_back moved i y = length (filter (\<lambda>k. fst k = i \<and> snd k \<le> y) moved)"

definition occurrences_ok :: "task_state \<Rightarrow> bool" where
  "occurrences_ok s = (case s of (d, c, fired, moved) \<Rightarrow>
     distinct (map st_id (td_tasks d)) \<and> (\<forall>k \<in> set fired. snd k \<le> c)
     \<and> (\<forall>i y. count_list fired (i, y) \<le> Suc (moved_back moved i y))
     \<and> (\<forall>t \<in> set (td_tasks d). \<forall>x y. st_next_run t = Some x \<longrightarrow> x \<le> y \<longrightarrow>
          count_list fired (st_id t, y) \<le> moved_back moved (st_id t) y))"

lemma moved_back_append: "moved_back (moved @ ms) i y = moved_back moved i y + moved_back ms i y"
  by (simp add: moved_back_def)

lemma moved_back_pos: "(i, x) \<in> set ms \<Longrightarrow> x \<le> y \<Longrightarrow> 1 \<le> moved_back ms i y"
  unfolding moved_back_def by (induction ms) auto

lemma future_unfired: "occurrences_ok (d, c, fired, moved) \<Longrightarrow> c < y \<Longrightarrow> count_list fired (i, y) = 0"
  by (force simp: occurrences_ok_def count_list_0_iff)

lemma occurrences_later:
  "occurrences_ok (d, c, fired, moved) \<Longrightarrow> c \<le> now \<Longrightarrow> td_tasks d' = td_tasks d \<Longrightarrow> occurrences_ok (d', now, fired, moved)"
  by (fastforce simp: occurrences_ok_def)

lemma occurrences_fewer:
  "occurrences_ok (d, c, fired, moved) \<Longrightarrow> td_tasks d' = filter p (td_tasks d) \<Longrightarrow> occurrences_ok (d', c, fired, moved)"
  by (auto simp: occurrences_ok_def distinct_map_filter)

text \<open>A change of the rows keeps the invariant when the cursors it does not move past the clock are recorded.\<close>

lemma occurrences_update:
  assumes ok: "occurrences_ok (d, c, fired, moved)" and clock: "c \<le> now" and tasks: "td_tasks d' = update_where p f (td_tasks d)"
    and ids: "\<And>t. st_id (f t) = st_id t"
    and cursor: "\<And>t x. p t \<Longrightarrow> st_next_run (f t) = Some x \<Longrightarrow> now < x \<or> st_next_run t = Some x \<or> (st_id t, x) \<in> set ms"
  shows "occurrences_ok (d', now, fired, moved @ ms)"
proof -
  have "distinct (map st_id (td_tasks d'))"
    using ok tasks ids by (simp add: occurrences_ok_def map_update_where)
  moreover have "\<forall>k \<in> set fired. snd k \<le> now" using ok clock by (auto simp: occurrences_ok_def)
  moreover have "count_list fired (i, y) \<le> Suc (moved_back (moved @ ms) i y)" for i y
  proof -
    have "count_list fired (i, y) \<le> Suc (moved_back moved i y)" using ok by (simp add: occurrences_ok_def)
    then show ?thesis by (simp add: moved_back_append)
  qed
  moreover have "count_list fired (st_id t', y) \<le> moved_back (moved @ ms) (st_id t') y"
    if t': "t' \<in> set (td_tasks d')" "st_next_run t' = Some x" "x \<le> y" for t' x y
  proof -
    from t'(1) obtain t where t: "t \<in> set (td_tasks d)" "t' = (if p t then f t else t)"
      unfolding tasks update_where_def by auto
    then have i: "st_id t' = st_id t" using ids by simp
    from t(2) t'(2) cursor consider "now < x" | "st_next_run t = Some x" | "(st_id t, x) \<in> set ms"
      by (auto split: if_splits)
    then show ?thesis
    proof cases
      case 1
      with clock t'(3) have "c < y" by simp
      from future_unfired [OF ok this] show ?thesis by simp
    next
      case 2
      with ok t(1) t'(3) i show ?thesis by (simp add: occurrences_ok_def moved_back_append trans_le_add1)
    next
      case 3
      from moved_back_pos [OF this t'(3)] have "1 \<le> moved_back ms (st_id t) y" .
      moreover have "count_list fired (st_id t, y) \<le> Suc (moved_back moved (st_id t) y)"
        using ok by (simp add: occurrences_ok_def)
      ultimately show ?thesis by (simp add: i moved_back_append)
    qed
  qed
  ultimately show ?thesis unfolding occurrences_ok_def prod.case by blast
qed

lemma setter_cursor:
  assumes "sched_setter pt col = Ret fs" "f \<in> set fs"
  shows "st_id (f t) = st_id t \<and> (st_next_run (f t) = Some x \<longrightarrow> st_next_run t = Some x \<or> col = SNextRun (Some x))"
  using assms by (cases col) (auto simp: bind_res_Inr)

lemma setters_cursor:
  assumes "\<forall>f \<in> set fs. \<forall>t x. st_id (f t) = st_id t \<and> (st_next_run (f t) = Some x \<longrightarrow> st_next_run t = Some x \<or> P x)"
  shows "st_id (fold (\<lambda>f. f) fs t) = st_id t
    \<and> (st_next_run (fold (\<lambda>f. f) fs t) = Some x \<longrightarrow> st_next_run t = Some x \<or> P x)"
  using assms
proof (induction fs arbitrary: t)
  case (Cons f fs)
  from Cons.prems have f: "st_id (f t) = st_id t" "st_next_run (f t) = Some x \<Longrightarrow> st_next_run t = Some x \<or> P x" by simp_all
  from Cons.prems have "\<forall>f \<in> set fs. \<forall>t x. st_id (f t) = st_id t \<and> (st_next_run (f t) = Some x \<longrightarrow> st_next_run t = Some x \<or> P x)" by simp
  from Cons.IH [OF this, of "f t"] f show ?case by auto
qed simp

lemma add_task_tasks:
  assumes "add_task zone pt now i a d = (r, d')"
  shows "td_tasks d' = td_tasks d
    \<or> i \<notin> st_id ` set (td_tasks d) \<and> (\<exists>t. st_id t = i \<and> td_tasks d' = td_tasks d @ [t])"
  using assms by (auto simp: add_task_def bind_op_def lift_op_def split: sum.splits if_splits)

lemma claim_due_cases:
  assumes "claim_due_task_run cl d = (b, d')"
  obtains "d' = d" "b \<noteq> Ret True"
  | t runs where "b = Ret True" "t \<in> set (td_tasks d)" "at_cursor (dc_task cl) (dc_expected cl) t"
    "d' = d\<lparr>td_tasks := update_where (at_cursor (dc_task cl) (dc_expected cl)) (advance_cursor cl) (td_tasks d), td_runs := runs\<rparr>"
proof (cases "d' = d \<and> b \<noteq> Ret True")
  case False
  from assms False have one: "length (filter (at_cursor (dc_task cl) (dc_expected cl)) (td_tasks d)) = 1"
    by (auto simp: claim_due_task_run_def split: if_splits)
  then have "filter (at_cursor (dc_task cl) (dc_expected cl)) (td_tasks d) \<noteq> []" by auto
  then obtain t where t: "t \<in> set (td_tasks d)" "at_cursor (dc_task cl) (dc_expected cl) t"
    unfolding filter_empty_conv by blast
  from assms one False have "b = Ret True" "\<exists>runs. d' = d\<lparr>td_tasks := update_where (at_cursor (dc_task cl) (dc_expected cl))
      (advance_cursor cl) (td_tasks d), td_runs := runs\<rparr>"
    by (auto simp: claim_due_task_run_def split: prod.splits sum.splits)
  with t that(2) show thesis by blast
qed (use that(1) in blast)

lemma occurrences_fire:
  assumes ok: "occurrences_ok (d, c, fired, moved)" and run: "claim_due_task_run cl d = (b, d')"
    and clock: "c \<le> dc_fired cl" "dc_expected cl \<le> dc_fired cl" "\<forall>x. dc_next cl = Some x \<longrightarrow> dc_fired cl < x"
  shows "occurrences_ok (d', dc_fired cl, if b = Ret True then fired @ [(dc_task cl, dc_expected cl)] else fired, moved)"
  using run
proof (cases rule: claim_due_cases)
  case 1
  then show ?thesis using occurrences_later [OF ok clock(1)] by simp
next
  case (2 t runs)
  let ?p = "at_cursor (dc_task cl) (dc_expected cl)" and ?k = "(dc_task cl, dc_expected cl)"
  have "occurrences_ok (d', dc_fired cl, fired, moved @ [])"
  proof (rule occurrences_update [OF ok clock(1), where p = ?p and f = "advance_cursor cl"])
    show "td_tasks d' = update_where ?p (advance_cursor cl) (td_tasks d)" using 2 by simp
  qed (use clock in \<open>auto simp: advance_cursor_def\<close>)
  then have keep: "occurrences_ok (d', dc_fired cl, fired, moved)" by simp
  have room: "count_list fired ?k \<le> moved_back moved (dc_task cl) (dc_expected cl)"
    using ok 2(2,3) by (fastforce simp: occurrences_ok_def at_cursor_def)
  have "dc_expected cl < x" if t': "t' \<in> set (td_tasks d')" "st_id t' = dc_task cl" "st_next_run t' = Some x" for t' x
  proof -
    from t'(1) 2(4) obtain u where u: "u \<in> set (td_tasks d)" "t' = (if ?p u then advance_cursor cl u else u)"
      by (auto simp: update_where_def)
    with t'(2) have "st_id u = dc_task cl" by (auto simp: advance_cursor_def split: if_splits)
    with u(1) ok 2(2,3) have "u = t" by (auto simp: occurrences_ok_def at_cursor_def distinct_map inj_on_def)
    with u 2(3) t'(3) clock show ?thesis by (auto simp: advance_cursor_def)
  qed
  then have past: "\<not> x \<le> dc_expected cl" if "t' \<in> set (td_tasks d')" "st_id t' = dc_task cl" "st_next_run t' = Some x" for t' x
    using that by (meson not_le)
  have "count_list (fired @ [?k]) (st_id t', y) \<le> moved_back moved (st_id t') y"
    if t': "t' \<in> set (td_tasks d')" "st_next_run t' = Some x" "x \<le> y" for t' x y
  proof -
    have "?k \<noteq> (st_id t', y)" using past [of t' x] t' by auto
    moreover have "count_list fired (st_id t', y) \<le> moved_back moved (st_id t') y"
      using keep t' by (simp add: occurrences_ok_def)
    ultimately show ?thesis by (simp only: count_list_append count_list.simps if_False add_0_right)
  qed
  moreover have "count_list (fired @ [?k]) (i, y) \<le> Suc (moved_back moved i y)" for i y
    using keep room by (cases "?k = (i, y)") (auto simp: occurrences_ok_def)
  moreover have "\<forall>k \<in> set (fired @ [?k]). snd k \<le> dc_fired cl" "distinct (map st_id (td_tasks d'))"
    using keep clock(2) by (auto simp: occurrences_ok_def)
  ultimately have "occurrences_ok (d', dc_fired cl, fired @ [?k], moved)" unfolding occurrences_ok_def prod.case by blast
  with 2(1) show ?thesis by simp
qed

lemma enqueue_tasks: "enqueue_task_run_request now i task trigger nb dd d = (r, d') \<Longrightarrow> td_tasks d' = td_tasks d"
  by (drule enqueue_rest) simp

lemma requeue_each_tasks: "requeue_each now ids rs dones d = (r, d') \<Longrightarrow> td_tasks d' = td_tasks d"
  by (induction rs arbitrary: dones d)
    (auto simp: bind_op_def dest!: enqueue_tasks split: if_split_asm prod.split_asm sum.split_asm)

lemma maybe_retry_tasks:
  "maybe_schedule_task_retry delays broken note now i task run d = (q, d') \<Longrightarrow> td_tasks d' = td_tasks d"
  by (auto simp: maybe_schedule_task_retry_def Let_def bind_op_def dest!: enqueue_tasks
      split: if_split_asm prod.split_asm sum.split_asm option.split_asm)

lemma requeue_tasks: "requeue_interrupted_task_runs now fresh d = (ys, d') \<Longrightarrow> td_tasks d' = td_tasks d"
  by (auto simp: requeue_interrupted_task_runs_def dest: requeue_each_tasks split: if_split_asm)

lemma reap_tasks: "reap_task_runs now d = (k, d') \<Longrightarrow> td_tasks d' = td_tasks d"
  by (auto simp: reap_task_runs_def split: prod.split_asm)

lemma set_back_mem: "SNextRun (Some x) \<in> set cols \<Longrightarrow> x \<le> now \<Longrightarrow> (i, x) \<in> set (set_back now i cols)"
  by (force simp: set_back_def)

lemma occurrences_edit:
  assumes ok: "occurrences_ok (d, c, fired, moved)" and run: "update_task zone pt now i cols d = (u, d')" and clock: "c \<le> now"
  shows "occurrences_ok (d', now, fired, moved @ set_back now i cols)"
  using run
proof (cases rule: update_task_rest)
  case 1
  show ?thesis
    by (rule occurrences_update [OF ok clock, where p = "\<lambda>_. False" and f = id]) (simp_all add: 1 update_where_def)
next
  case (2 fs)
  let ?P = "\<lambda>x. SNextRun (Some x) \<in> set cols" and ?g = "\<lambda>r. (fold (\<lambda>f. f) (concat fs) r)\<lparr>st_updated := now\<rparr>"
  have "\<forall>f \<in> set (concat fs). \<forall>t x. st_id (f t) = st_id t \<and> (st_next_run (f t) = Some x \<longrightarrow> st_next_run t = Some x \<or> ?P x)"
    using each_res_mem [OF 2(1)] setter_cursor by fastforce
  from setters_cursor [OF this] have g: "st_id (?g t) = st_id t" "st_next_run (?g t) = Some x \<Longrightarrow> st_next_run t = Some x \<or> ?P x" for t x
    by simp_all
  show ?thesis
  proof (rule occurrences_update [OF ok clock, where p = "\<lambda>r. st_id r = i" and f = ?g])
    show "td_tasks d' = update_where (\<lambda>r. st_id r = i) ?g (td_tasks d)" using 2(2) by simp
    show "now < x \<or> st_next_run t = Some x \<or> (st_id t, x) \<in> set (set_back now i cols)"
      if "st_id t = i" "st_next_run (?g t) = Some x" for t x
      using g(2) [OF that(2)] set_back_mem [of x cols now i] that(1) by (cases "now < x") auto
  qed (rule g(1))
qed

lemma occurrences_create:
  assumes ok: "occurrences_ok (d, c, fired, moved)" and run: "add_task zone pt now i a d = (r, d')"
    and clock: "c \<le> now" "i \<notin> fst ` set fired"
  shows "occurrences_ok (d', now, fired, moved)"
  using add_task_tasks [OF run]
proof (elim disjE conjE exE)
  assume "td_tasks d' = td_tasks d"
  then show ?thesis by (rule occurrences_later [OF ok clock(1)])
next
  fix t assume t: "i \<notin> st_id ` set (td_tasks d)" "st_id t = i" "td_tasks d' = td_tasks d @ [t]"
  have "count_list fired (st_id t, y) = 0" for y using clock(2) t(2) by (force simp: count_list_0_iff)
  with occurrences_later [OF ok clock(1) refl] t show ?thesis by (auto simp: occurrences_ok_def)
qed

lemma occurrences_step:
  assumes "task_step s s'" "occurrences_ok s" shows "occurrences_ok s'"
  using assms
proof cases
  case (create zone pt now i a d r d' c fired moved)
  with assms(2) show ?thesis by (auto intro: occurrences_create)
next
  case (edit zone pt now i cols d u d' c fired moved)
  with assms(2) show ?thesis by (auto intro: occurrences_edit)
next
  case (delete d c fired moved i)
  moreover have "td_tasks (delete_task i d) = filter (\<lambda>r. st_id r \<noteq> i) (td_tasks d)" by (simp add: delete_task_def)
  ultimately show ?thesis using assms(2) occurrences_fewer by blast
next
  case (fire cl d b d' c fired moved)
  with assms(2) show ?thesis using occurrences_fire by simp
next
  case (request now i task trigger nb dd d r d' c fired moved)
  with assms(2) show ?thesis by (auto intro: occurrences_later dest: enqueue_tasks)
next
  case (claim now n ids d rs d' c fired moved)
  with assms(2) show ?thesis by (auto intro: occurrences_later dest: claim_keys)
next
  case (reap now d k d' c fired moved)
  with assms(2) show ?thesis by (auto intro: occurrences_later dest: reap_tasks)
next
  case (requeue now fresh d ys d' c fired moved)
  with assms(2) show ?thesis by (auto intro: occurrences_later dest: requeue_tasks)
next
  case (retry ft raw broken msg now i task run d q d' c fired moved)
  with assms(2) show ?thesis by (auto intro: occurrences_later dest: maybe_retry_tasks)
qed (use assms(2) in \<open>auto intro: occurrences_later simp: set_task_request_run_id_def\<close>)

lemma occurrences_reach: "task_reach s \<Longrightarrow> occurrences_ok s"
proof (induction rule: task_reach.induct)
  case empty
  show ?case by (simp add: occurrences_ok_def)
next
  case (step s s')
  from step.hyps(2) step.IH show ?case by (rule occurrences_step)
qed

text \<open>A pass over the due tasks is a sequence of steps, one for each task that it claims.\<close>

lemma fire_tasks_steps:
  assumes "fire_tasks se now ts d = (rs, d')" "task_reach (d, now, fired, moved)"
    and "\<forall>t \<in> set ts. due_at now t" "\<And>e tz x. se_next se e now tz = Ret x \<Longrightarrow> now < x"
  shows "\<exists>occ. task_reach (d', now, fired @ occ, moved) \<and> map fst occ = map fst rs \<and> (\<forall>k \<in> set occ. snd k \<le> now)"
  using assms(1-3)
proof (induction ts arbitrary: d rs fired)
  case Nil
  then show ?case by (intro exI [of _ "[]"]) auto
next
  case (Cons t ts)
  let ?nxt = "if one_shot (st_cron t) then Ret None else bind_res (se_next se (st_cron t) now (or_none (st_tz t))) (\<lambda>x. Ret (Some x))"
  from Cons.prems(3) obtain due where due: "st_next_run t = Some due" "due \<le> now" by (auto simp: due_at_def split: option.splits)
  show ?case
  proof (cases "se_authorized se t \<and> (\<exists>nxt. ?nxt = Ret nxt)")
    case False
    then have "fire_tasks se now ts d = (rs, d')" using Cons.prems(1) by (auto split: if_split_asm sum.split_asm)
    with Cons show ?thesis by auto
  next
    case True
    then obtain nxt where nxt: "?nxt = Ret nxt" by blast
    define cl where "cl = \<lparr>dc_task = st_id t, dc_expected = due, dc_fired = now, dc_next = nxt, dc_disable = one_shot (st_cron t),
      dc_run = se_run_id se (st_id t), dc_session = se_session se (st_id t) (se_run_id se (st_id t))\<rparr>"
    obtain b d1 where b: "claim_due_task_run cl d = (b, d1)" by fastforce
    have later: "now < x" if "nxt = Some x" for x using nxt that assms(4) by (auto simp: bind_res_Inr split: if_split_asm)
    have cl: "dc_task cl = st_id t" "dc_expected cl = due" "dc_fired cl = now" "dc_next cl = nxt" by (simp_all add: cl_def)
    have "task_step (d, now, fired, moved) (d1, now, if b = Ret True then fired @ [(st_id t, due)] else fired, moved)"
      using task_step.fire [OF b, of now fired moved] due(2) later unfolding cl by blast
    with Cons.prems(2) have reach: "task_reach (d1, now, if b = Ret True then fired @ [(st_id t, due)] else fired, moved)" by (rule task_reach.step)
    have run: "fire_tasks se now (t # ts) d = (case (b, d1) of
        (Inr True, d') \<Rightarrow> (let (rest, d'') = fire_tasks se now ts d' in ((st_id t, se_run_id se (st_id t)) # rest, d''))
      | (_, d') \<Rightarrow> fire_tasks se now ts d')"
      using True nxt due(1) b by (simp only: fire_tasks.simps) (simp add: cl_def Let_def)
    show ?thesis
    proof (cases "b = Ret True")
      case True
      obtain rest where rest: "fire_tasks se now ts d1 = (rest, d')" "rs = (st_id t, se_run_id se (st_id t)) # rest"
        using Cons.prems(1) run True by (auto split: prod.split_asm)
      from Cons.IH [OF rest(1), of "fired @ [(st_id t, due)]"] reach True Cons.prems(3) obtain occ
        where "task_reach (d', now, (fired @ [(st_id t, due)]) @ occ, moved)" "map fst occ = map fst rest" "\<forall>k \<in> set occ. snd k \<le> now"
        by auto
      then show ?thesis using rest(2) due(2) by (intro exI [of _ "(st_id t, due) # occ"]) simp
    next
      case False
      then have "fire_tasks se now ts d1 = (rs, d')" using Cons.prems(1) run by (auto split: sum.split_asm bool.split_asm)
      with Cons.IH [of d1 rs fired] reach False Cons.prems(3) show ?thesis by simp
    qed
  qed
qed

text \<open>Every due task that the host authorises and that has a next time fires in a pass.\<close>

definition can_fire :: "sched_env \<Rightarrow> real \<Rightarrow> scheduled_task \<Rightarrow> bool" where
  "can_fire se now t \<longleftrightarrow> se_authorized se t
     \<and> (one_shot (st_cron t) \<or> (case se_next se (st_cron t) now (or_none (st_tz t)) of Inl _ \<Rightarrow> False | Inr _ \<Rightarrow> True))"

lemma filter_one:
  "distinct (map f xs) \<Longrightarrow> x \<in> set xs \<Longrightarrow> p x \<Longrightarrow> (\<And>y. p y \<Longrightarrow> f y = f x) \<Longrightarrow> length (filter p xs) = 1"
proof (induction xs)
  case (Cons y ys)
  show ?case
  proof (cases "p y")
    case True
    have "\<not> p z" if "z \<in> set ys" for z
    proof
      assume "p z"
      with Cons.prems(4) [of z] Cons.prems(4) [OF True] have "f z = f y" by simp
      with that Cons.prems(1) show False by (simp add: rev_image_eqI)
    qed
    then have "filter p ys = []" by (simp add: filter_empty_conv)
    with True show ?thesis by simp
  next
    case False
    with Cons.prems(2,3) have "x \<in> set ys" by auto
    from Cons.IH [OF _ this Cons.prems(3,4)] Cons.prems(1) False show ?thesis by simp
  qed
qed simp

lemma claim_due_succeeds:
  assumes "distinct (map st_id (td_tasks d))" "t \<in> set (td_tasks d)" "st_enabled t" "st_next_run t = Some (dc_expected cl)"
    and "dc_task cl = st_id t" "dc_run cl \<notin> rn_id ` set (td_runs d)"
  obtains d' where "claim_due_task_run cl d = (Ret True, d')"
    "td_tasks d' = update_where (at_cursor (st_id t) (dc_expected cl)) (advance_cursor cl) (td_tasks d)"
    "rn_id ` set (td_runs d') = insert (dc_run cl) (rn_id ` set (td_runs d))"
proof -
  have "length (filter (at_cursor (st_id t) (dc_expected cl)) (td_tasks d)) = 1"
    using assms(1-4) by (intro filter_one [where x = t and f = st_id]) (auto simp: at_cursor_def)
  then show thesis using assms(5,6) that by (simp add: claim_due_task_run_def insert_row_def)
qed

lemma fire_tasks_complete:
  assumes "fire_tasks se now ts d = (rs, d')" "distinct (map st_id ts)" "distinct (map st_id (td_tasks d))"
    and "set ts \<subseteq> set (td_tasks d)" "\<forall>t \<in> set ts. due_at now t"
    and "\<forall>t \<in> set ts. se_run_id se (st_id t) \<notin> rn_id ` set (td_runs d)" "inj (se_run_id se)"
  shows "map fst rs = map st_id (filter (can_fire se now) ts)"
  using assms(1-6)
proof (induction ts arbitrary: d rs)
  case (Cons t ts)
  let ?nxt = "if one_shot (st_cron t) then Ret None else bind_res (se_next se (st_cron t) now (or_none (st_tz t))) (\<lambda>x. Ret (Some x))"
  from Cons.prems(5) obtain due where due: "st_enabled t" "st_next_run t = Some due" by (auto simp: due_at_def split: option.splits)
  show ?case
  proof (cases "can_fire se now t")
    case False
    then have "fire_tasks se now ts d = (rs, d')" using Cons.prems(1)
      by (auto simp: can_fire_def bind_res_def split: if_split_asm sum.split_asm)
    with Cons False show ?thesis by simp
  next
    case True
    then have "\<exists>nxt. ?nxt = Ret nxt" by (cases "one_shot (st_cron t)") (auto simp: can_fire_def bind_res_def split: sum.split_asm)
    then obtain nxt where nxt: "?nxt = Ret nxt" by blast
    define cl where "cl = \<lparr>dc_task = st_id t, dc_expected = due, dc_fired = now, dc_next = nxt, dc_disable = one_shot (st_cron t),
      dc_run = se_run_id se (st_id t), dc_session = se_session se (st_id t) (se_run_id se (st_id t))\<rparr>"
    obtain d1 where d1: "claim_due_task_run cl d = (Ret True, d1)"
        "td_tasks d1 = update_where (at_cursor (st_id t) due) (advance_cursor cl) (td_tasks d)"
        "rn_id ` set (td_runs d1) = insert (se_run_id se (st_id t)) (rn_id ` set (td_runs d))"
      by (rule claim_due_succeeds [of d t cl]) (use Cons.prems due in \<open>auto simp: cl_def\<close>)
    obtain rest where rest: "fire_tasks se now ts d1 = (rest, d')" "rs = (st_id t, se_run_id se (st_id t)) # rest"
      using Cons.prems(1) True nxt due(2) d1(1)
      by (simp add: cl_def [symmetric] can_fire_def Let_def split: prod.split_asm)
    have "map fst rest = map st_id (filter (can_fire se now) ts)"
    proof (rule Cons.IH [OF rest(1)])
      show "distinct (map st_id (td_tasks d1))"
        using Cons.prems(3) by (simp add: d1(2) map_update_where advance_cursor_def)
      show "set ts \<subseteq> set (td_tasks d1)"
      proof
        fix u assume u: "u \<in> set ts"
        with Cons.prems(2) have "st_id u \<noteq> st_id t" by (auto simp: rev_image_eqI)
        then have "\<not> at_cursor (st_id t) due u" by (simp add: at_cursor_def)
        with u Cons.prems(4) show "u \<in> set (td_tasks d1)" by (force simp: d1(2) update_where_def)
      qed
      show "\<forall>u \<in> set ts. se_run_id se (st_id u) \<notin> rn_id ` set (td_runs d1)"
      proof
        fix u assume u: "u \<in> set ts"
        with Cons.prems(2) have "st_id u \<noteq> st_id t" by (auto simp: rev_image_eqI)
        with u Cons.prems(6) assms(7) show "se_run_id se (st_id u) \<notin> rn_id ` set (td_runs d1)" by (simp add: d1(3) inj_eq)
      qed
    qed (use Cons.prems in simp_all)
    with True rest(2) show ?thesis by simp
  qed
qed simp

text \<open>
  C11: Whatever processes fire tasks at the same time, an occurrence of a task fires at most once, and
  once more for each edit that set the next time of the task back to that occurrence or before it;
  without such an edit the occurrences that have fired are different, and a claim of one of them
  again is refused and changes nothing.
\<close>

theorem occurrence_fires_once:
  assumes "task_reach (d, c, fired, moved)"
  shows "count_list fired (i, y) \<le> 1 + moved_back moved i y \<and> (moved = [] \<longrightarrow> distinct fired)
    \<and> ((dc_task cl, dc_expected cl) \<in> set fired \<longrightarrow> moved_back moved (dc_task cl) (dc_expected cl) = 0 \<longrightarrow>
        claim_due_task_run cl d = (Ret False, d))"
proof (intro conjI impI)
  have ok: "occurrences_ok (d, c, fired, moved)" by (rule occurrences_reach [OF assms])
  then have bound: "count_list fired (j, x) \<le> Suc (moved_back moved j x)" for j x by (simp add: occurrences_ok_def)
  from bound show "count_list fired (i, y) \<le> 1 + moved_back moved i y" by simp
  show "distinct fired" if "moved = []"
    using bound that by (auto simp: distinct_count_list moved_back_def)
  assume k: "(dc_task cl, dc_expected cl) \<in> set fired" "moved_back moved (dc_task cl) (dc_expected cl) = 0"
  then have "count_list fired (dc_task cl, dc_expected cl) > 0" using count_list_0_iff [of fired] by fastforce
  with ok k(2) have "\<not> at_cursor (dc_task cl) (dc_expected cl) t" if "t \<in> set (td_tasks d)" for t
    using that by (fastforce simp: occurrences_ok_def at_cursor_def)
  then have "filter (at_cursor (dc_task cl) (dc_expected cl)) (td_tasks d) = []" by (simp add: filter_empty_conv)
  then show "claim_due_task_run cl d = (Ret False, d)" by (simp add: claim_due_task_run_def)
qed

text \<open>
  C13: A pass of the scheduler fires exactly the due tasks that the host authorises and whose next
  time can be computed, in the order of their due times, when the new identifiers of runs are
  fresh; it is a sequence of atomic claims, so that what is known of the reachable states holds
  after it, with the occurrences it fired recorded.
\<close>

theorem due_tasks_fire:
  assumes "task_reach (d, c, fired, moved)" "c \<le> now" "check_due_tasks se now d = (rs, d')"
    and "\<And>e tz x. se_next se e now tz = Ret x \<Longrightarrow> now < x"
    and "inj (se_run_id se)" "\<forall>t \<in> set (td_tasks d). se_run_id se (st_id t) \<notin> rn_id ` set (td_runs d)"
  shows "map fst rs = map st_id (filter (can_fire se now) (get_due_tasks now d))
    \<and> (\<exists>occ. task_reach (d', now, fired @ occ, moved) \<and> map fst occ = map fst rs \<and> (\<forall>k \<in> set occ. snd k \<le> now))"
proof
  have ids: "distinct (map st_id (td_tasks d))" using occurrences_reach [OF assms(1)] by (simp add: occurrences_ok_def)
  have due: "set (get_due_tasks now d) = {t \<in> set (td_tasks d). due_at now t}" by (simp add: get_due_tasks_def)
  have "distinct (map st_id (get_due_tasks now d))"
    using ids unfolding get_due_tasks_def distinct_map by (auto intro: inj_on_subset)
  then show "map fst rs = map st_id (filter (can_fire se now) (get_due_tasks now d))"
  proof (rule fire_tasks_complete [OF assms(3) [unfolded check_due_tasks_def] _ ids _ _ _ assms(5)])
    show "\<forall>t \<in> set (get_due_tasks now d). se_run_id se (st_id t) \<notin> rn_id ` set (td_runs d)"
      using assms(6) unfolding due by blast
  qed (simp_all add: due)
  have "task_reach (d, now, fired, moved)" by (rule task_reach.step [OF assms(1) task_step.clock [OF assms(2)]])
  then show "\<exists>occ. task_reach (d', now, fired @ occ, moved) \<and> map fst occ = map fst rs \<and> (\<forall>k \<in> set occ. snd k \<le> now)"
  proof (rule fire_tasks_steps [OF assms(3) [unfolded check_due_tasks_def]])
    show "\<forall>t \<in> set (get_due_tasks now d). due_at now t" by (simp add: due)
  qed (rule assms(4))
qed

section \<open>A sample schedule\<close>

definition sample_plan :: task_args where
  "sample_plan = \<lparr>ta_name = ''n'', ta_cron = ''* * * * *'', ta_prompt = ''p'', ta_next_run = Some 5, ta_model = None, ta_tz = None,
     ta_policy = NoPolicy\<rparr>"

definition sample_sched :: sched_env where
  "sample_sched = \<lparr>se_authorized = (\<lambda>_. True), se_next = (\<lambda>_ now _. Ret (now + 60)), se_run_id = (\<lambda>i. ''r'' @ i),
     se_session = (\<lambda>_ _. None)\<rparr>"

definition sample_due :: due_claim where
  "sample_due = \<lparr>dc_task = ''t'', dc_expected = 5, dc_fired = 6, dc_next = Some 66, dc_disable = False, dc_run = ''rt'', dc_session = None\<rparr>"

definition no_tasks :: task_db where
  "no_tasks = \<lparr>td_tasks = [], td_runs = [], td_tickets = [], td_tools = [], td_reaped = []\<rparr>"

definition sample_td1 :: task_db where
  "sample_td1 = snd (add_task (\<lambda>_. True) sample_texts 1 ''t'' sample_plan no_tasks)"

definition sample_td2 :: task_db where
  "sample_td2 = snd (claim_due_task_run sample_due sample_td1)"

text \<open>The firing fails with a transient error, and a retry is requested.\<close>

definition sample_failed :: task_run where
  "sample_failed = \<lparr>rn_id = ''rt'', rn_owner = ''t'', rn_trigger = ''schedule'', rn_status = ''failed'', rn_started = 6,
     rn_finished = Some 7, rn_error = Some ''429'', tr_output = None, tr_session = None\<rparr>"

definition sample_td3 :: task_db where
  "sample_td3 = sample_td2\<lparr>td_runs := [sample_failed], td_tools := []\<rparr>"

definition sample_td4 :: task_db where
  "sample_td4 = snd (maybe_schedule_task_retry (task_retry_delays (\<lambda>_. None) None) False (\<lambda>_ _. ''later'') 8 ''q''
     (hd (td_tasks sample_td3)) sample_failed sample_td3)"

lemmas sample_task_defs = sample_plan_def sample_due_def no_tasks_def sample_td1_def sample_td2_def sample_td3_def sample_failed_def
  add_task_def bind_op_def lift_op_def validate_timezone_def encode_policy_def normalize_policy_def policy_items_def no_limits_def
  claim_due_task_run_def at_cursor_def insert_row_def update_where_def advance_cursor_def Let_def or_none_def

lemma sample_tasks1: "td_tasks sample_td1 = [\<lparr>st_id = ''t'', st_name = ''n'', st_cron = ''* * * * *'', st_prompt = ''p'',
    st_enabled = True, st_last_run = None, st_next_run = Some 5, st_model = None, st_tz = None, st_policy = None, st_created = 1, st_updated = 1\<rparr>]"
  "td_runs sample_td1 = []" "td_tickets sample_td1 = []"
  by (simp_all add: sample_task_defs)

lemma sample_task_reach1: "task_reach (sample_td1, 1, [], [])"
  unfolding sample_td1_def no_tasks_def
  by (rule task_reach.step [OF task_reach.empty]) (rule task_step.create [OF surjective_pairing], simp_all)

lemma sample_task_reach2: "task_reach (sample_td2, 6, [(''t'', 5)], [])"
proof -
  have "fst (claim_due_task_run sample_due sample_td1) = Ret True" by (simp add: sample_task_defs)
  with task_reach.step [OF sample_task_reach1 task_step.fire [OF surjective_pairing, of 1 sample_due]]
  show ?thesis by (simp add: sample_td2_def sample_due_def)
qed

text \<open>The task is one-shot, and enabling it again sets its next time back: the occurrence fires again.\<close>

definition sample_back :: task_db where
  "sample_back = snd (update_task (\<lambda>_. True) sample_texts 7 ''t'' [SNextRun (Some 5)] sample_td2)"

definition sample_again :: task_db where
  "sample_again = snd (claim_due_task_run (sample_due\<lparr>dc_fired := 8, dc_run := ''ru''\<rparr>) sample_back)"

lemma sample_td2_tasks:
  "td_tasks sample_td2 = [(hd (td_tasks sample_td1))\<lparr>st_last_run := Some 6, st_next_run := Some 66, st_updated := 6\<rparr>]"
  "rn_id ` set (td_runs sample_td2) = {''rt''}"
  by (simp_all add: sample_task_defs)

lemma sample_reach_again: "task_reach (sample_again, 8, [(''t'', 5), (''t'', 5)], [(''t'', 5)])"
proof -
  have edited: "task_reach (sample_back, 7, [(''t'', 5)], [(''t'', 5)])"
    using task_reach.step [OF sample_task_reach2 task_step.edit [OF surjective_pairing, where c = 6 and now = 7
        and zone = "\<lambda>_. True" and pt = sample_texts and i = "''t''" and cols = "[SNextRun (Some 5)]"]]
    by (simp add: sample_back_def set_back_def)
  have rows: "td_tasks sample_back = [(hd (td_tasks sample_td1))\<lparr>st_last_run := Some 6, st_next_run := Some 5, st_updated := 7\<rparr>]"
    "td_runs sample_back = td_runs sample_td2"
    by (simp_all add: sample_back_def update_task_def bind_op_def lift_op_def modify_op_def sample_td2_tasks update_where_def
        sample_tasks1 Let_def)
  have "fst (claim_due_task_run (sample_due\<lparr>dc_fired := 8, dc_run := ''ru''\<rparr>) sample_back) = Ret True"
    using sample_td2_tasks(2)
    by (simp add: claim_due_task_run_def rows at_cursor_def sample_tasks1 sample_due_def insert_row_def Let_def)
  with task_reach.step [OF edited task_step.fire [OF surjective_pairing, of 7 "sample_due\<lparr>dc_fired := 8, dc_run := ''ru''\<rparr>"]]
  show ?thesis by (simp add: sample_again_def sample_due_def)
qed

theorem occurrence_fires_once_witness:
  "claim_due_task_run sample_due sample_td2 = (Ret False, sample_td2)
   \<and> count_list [(''t'', 5), (''t'', 5 :: real)] (''t'', 5) \<le> 1 + moved_back [(''t'', 5)] ''t'' 5
   \<and> moved_back [(''t'', 5)] ''t'' 5 = 1"
  using occurrence_fires_once [OF sample_task_reach2, of "''t''" 5 sample_due]
    occurrence_fires_once [OF sample_reach_again, of "''t''" 5 sample_due]
  by (simp add: sample_due_def moved_back_def)

theorem due_tasks_fire_witness:
  "map fst (fst (check_due_tasks sample_sched 6 sample_td1)) = [''t'']"
proof -
  have "map fst (fst (check_due_tasks sample_sched 6 sample_td1)) = map st_id (filter (can_fire sample_sched 6) (get_due_tasks 6 sample_td1))"
    using due_tasks_fire [OF sample_task_reach1 _ surjective_pairing, of 6 sample_sched]
    by (auto simp: sample_sched_def sample_tasks1 inj_def)
  then show ?thesis
    by (simp add: get_due_tasks_def due_at_def sample_tasks1 can_fire_def sample_sched_def)
qed

lemma sample_task_reach4: "task_reach (sample_td4, 6, [(''t'', 5)], [])"
  unfolding sample_td4_def sample_td3_def
  by (rule task_reach.step [OF task_reach.step [OF sample_task_reach2 task_step.work] task_step.retry]) (rule surjective_pairing)

lemma sample_texts_read:
  "parse_task_retry_trigger ''schedule'' = (0, None)" "strip ''429'' = ''429''" "transient_text ''429''"
  by (simp_all add: parse_task_retry_trigger_def retry_prefix_def strip_def py_space_def transient_text_def transient_tokens_def
      fold_case_def less_eq_char_def)

lemma sample_failed_td3:
  "td_runs sample_td3 = [sample_failed]" "td_tools sample_td3 = []" "td_tickets sample_td3 = []"
  "td_tasks sample_td3 = [(hd (td_tasks sample_td1))\<lparr>st_last_run := Some 6, st_next_run := Some 66, st_updated := 6\<rparr>]"
  by (simp_all add: sample_task_defs)

lemma sample_tickets4:
  "map (\<lambda>q. (tk_owner q, tk_trigger q)) (td_tickets sample_td4) = [(''t'', retry_trigger 1 ''rt'')]"
proof -
  have "rn_status sample_failed = ''failed''" "rn_error sample_failed = Some ''429''" "rn_trigger sample_failed = ''schedule''"
    "rn_id sample_failed = ''rt''" "tr_session sample_failed = None" by (simp_all add: sample_failed_def)
  then show ?thesis
    by (simp add: sample_td4_def maybe_schedule_task_retry_def sample_texts_read sample_failed_td3 sample_tasks1 one_shot_def
        task_retry_delays_def default_retry_delays_def task_run_has_tool_activity_def get_task_run_def find_row_def get_task_def
        enqueue_task_run_request_def insert_ticket_def bind_op_def Let_def)
qed

theorem automatic_retries_bounded_witness:
  "map (\<lambda>q. (tk_owner q, tk_trigger q)) (td_tickets sample_td4) = [(''t'', retry_trigger 1 ''rt'')]
   \<and> length (retries_of ''t'' ''rt'' (td_tickets sample_td4)) \<le> 8"
  using automatic_retries_bounded [OF sample_task_reach4, of "''t''" "''rt''"] sample_tickets4 by blast

end
