(* ===== verification/Spec2Isabelle.thy ===== *)
theory Spec2Isabelle
  imports Prelude Contracts Toposort ModuleGraph Capabilities Dispatch StoreTables RunStore SessionStore
    RunStoreLaws StoreLaws StoreTools WorkflowBlocks WorkflowTemplates WorkflowValidate WorkflowChecked WorkflowWalk WorkflowOrder
    RunTables RunHistory WorkflowRun WorkflowMoves WorkflowRunLaws WorkflowRuns WorkflowDepth RuntimeGraphLaws RuntimeSafety
    ExecutionPolicy EventTables EventQueue EventLaws TaskTables TaskQueue TaskLaws
begin

text \<open>
  OpenAgent core: a verification development.

  OpenAgent runs language-model agents for many principals in one process.  Its Python kernel
  (the package \<^verbatim>\<open>src/packages/runtime/src/openagent_core\<close>, to which file names below are
  relative) admits runs into sessions, builds the graph of modules that serves them, dispatches their
  tool calls through a catalog of capabilities, keeps every durable fact in a SQLite store
  (\<^verbatim>\<open>src/packages/storage-sqlite\<close>), and starts unattended runs from workflows, scheduled tasks and
  webhook events.  This development models those parts as executable definitions and proves what
  makes each of them correct.

  \<^bold>\<open>How the code is modelled.\<close>  A dataclass or a table row is a record, an enumeration a datatype,
  an exception a value of \<open>py_error\<close>; a method that may raise is an \<open>op\<close>, a function from the
  state to a result and the state it leaves (theory Prelude, which also has Python's dictionaries
  as association lists and \<^verbatim>\<open>str.strip\<close>).  A SQL table is the list of its rows, a statement a
  function on it, a transaction that raises leaves the table as it was.  An \<^verbatim>\<open>async\<close> method whose
  interleavings matter is split at its awaits into the steps of a transition system; the others are
  functions in which what is awaited is an argument.  The clock, new identifiers, the host's
  authorizer, modules, hash function and jinja, third-party services and the other processes are
  parameters that may answer differently at each call.  Characters are those below 256; a float is a
  real number, except in execution policies, which have \<^verbatim>\<open>nan\<close> and the infinities.

  \<^bold>\<open>Contracts\<close> (\<^verbatim>\<open>contracts.py\<close>): principals, execution contexts with their checks and
  children, run requests and records, canonical JSON.  The JSON key of a principal determines it,
  and a child context keeps the authority of its parent.

  \<^bold>\<open>Modules\<close> (\<^verbatim>\<open>modules.py\<close>): Toposort models \<^verbatim>\<open>graphlib.TopologicalSorter\<close>, ModuleGraph the
  service registry and the resolution of a profile.  A resolved profile lists the configured modules
  with their prerequisites first, and resolution fails exactly on cycles.

  \<^bold>\<open>Capabilities\<close> (\<^verbatim>\<open>capabilities.py\<close>): Capabilities has the synchronous catalog
  (registrations, generations, leases, references) and the invariant that each operation keeps;
  Dispatch has discovery, description and the call of a tool with its ledger protocol: authorised,
  recorded as an intent, run, authorised again, published, recorded as a receipt; discovery hands out
  exactly the visible tools, and each operation makes only its own changes to the catalog.

  \<^bold>\<open>The runtime store\<close> (\<^verbatim>\<open>openagent_storage_sqlite\<close>): StoreTables has the rows, RunStore and
  SessionStore the operations.  RunStoreLaws, StoreLaws and StoreTools show for every reachable store
  that accepting is idempotent, a run ends once, cancellations reserved early win, the event log has no
  gaps, and a tool call has one intent and one receipt.

  \<^bold>\<open>The runtime\<close> (\<^verbatim>\<open>runtime.py\<close>): RuntimeGraph prepares, undoes and closes module graphs and
  counts the components they share (RuntimeGraphLaws: what a failed preparation leaves, and when a
  component runs); RuntimeRuns has admission, the task of a run from await to
  await, cancellation, steering, shutdown and the exchange of the graph, over any store that
  satisfies the locale \<open>run_authority\<close> (RuntimeRunLaws, interpreted on RunStore).  RuntimeReach to
  RuntimeSafety show for every reachable runtime that one run of a session executes at a time, a graph
  outlives the runs bound to it, leases count them, a cancelled run never succeeds, and a task that
  returned has settled its run.

  \<^bold>\<open>Workflows\<close> (\<^verbatim>\<open>workflow/\<close>): WorkflowBlocks, WorkflowTemplates and WorkflowValidate have the
  block catalog, the templates and the validator, WorkflowChecked a definition of a valid graph that
  does not use the checks and agrees with them.  WorkflowWalk and WorkflowRun have the executor, from the walk and the thirteen
  handlers to the row of a run.  WorkflowOrder, WorkflowMoves, WorkflowRunLaws, WorkflowRuns and
  WorkflowDepth show which nodes run, that every node is traced and the row is settled, unless the run
  could not build its context.  \<open>run_node\<close> has a depth for nested loops: a body is smaller than its graph, so the
  number of nodes is enough (\<open>depth_not_reached\<close>).  The final write makes four attempts, as the code
  does.

  \<^bold>\<open>Unattended work\<close>: RunTables and RunHistory have the histories of firings
  (\<^verbatim>\<open>task_runs\<close>, \<^verbatim>\<open>workflow_runs\<close> of \<^verbatim>\<open>memory/db.py\<close>).  ExecutionPolicy has the
  resource envelopes of unattended runs (\<^verbatim>\<open>core/execution_policy.py\<close>): a nested policy is the meet
  of the two.  EventTables has the webhook events and the queue of their deliveries with leases,
  heartbeats, the three reapers and the circuit breaker, whose statements interleave; EventQueue and
  EventLaws show for any number of processes that a delivery is handed out at most once more than the
  budget of attempts, stays with its worker until a reaper takes it, and survives a restart, and when
  an event is blocked.
  TaskTables has the scheduled tasks, the atomic claim of a due occurrence,
  the queues of run requests and the automatic retries (\<^verbatim>\<open>core/scheduler.py\<close>); TaskQueue and
  TaskLaws show that an occurrence fires once unless an edit sets the task back to it, a request is
  handed out once, and a firing is retried at
  most eight times.

  \<^bold>\<open>How the parts meet.\<close>  The runtime calls the store through the record \<open>run_store\<close> and the
  catalog through the host; Dispatch writes the ledger that RunStore keeps; the executor writes the
  rows of RunTables; tasks and events keep policies of ExecutionPolicy in their rows.  Contracts
  between a client and its provider are locales: \<open>finite_dict\<close> (dictionaries), \<open>run_authority\<close>
  (the store of the runtime), \<open>node_runner\<close> and \<open>run_relation\<close> (the walk and the handlers),
  \<open>column_update\<close> (partial updates), \<open>claim_queue\<close> (queues of work), each interpreted on the model.

  \<^bold>\<open>Abstractions.\<close>  The nodes of one batch of a workflow run one after another.  In the runtime the
  drain calls of retired modules and components and the exit of the credential scope of a run are left
  out, a forced exchange cancels its runs at the moment of the swap, preparing a graph is one step, the
  reading and the authorisation of a run that a client cancels are one step, as are the awaits of its
  admission, and the executor and each authorisation are one await of the host.  Calls that give up on a locked
  database change nothing and are left out of the tables.  Texts of error messages are the names of
  their classes where nothing reads them.

  \<^bold>\<open>Not modelled.\<close>  The run loops of agents and teams, model providers and dispatch, and the MCP
  client: they drive streams of third-party services and have little state of their own.  The
  conversation store, the vault, voice, learning and prompts: libraries, files and texts.  The other
  tables of \<^verbatim>\<open>memory/db.py\<close> (models, providers, budget, sessions): mostly single statements.  In
  the modelled files: the optional content privacy, \<^verbatim>\<open>stream_tool\<close>, child runs of the runtime
  (\<^verbatim>\<open>spawn\<close>), its chat commands and its reads.
\<close>

end
